(* ===== verification/Prelude.thy ===== *)
theory Prelude
  imports Main "HOL-Library.Word" "HOL-Library.List_Lexorder" "HOL-Library.Char_ord"
    "HOL-Library.Sublist" "HOL-Library.Multiset"
begin

text \<open>
  The shared vocabulary of the development: fallible results as \<open>'e + 'a\<close>, and the operations
  of Rust's \<open>str\<close> that the program uses. A Rust string is modelled as its UTF-8 bytes, an
  Isabelle \<open>string\<close> (a list of 8-bit characters), so that \<open>length\<close> is \<open>str::len\<close> and the
  lexicographic order on \<open>string\<close> is the byte order that both Rust and SQLite's \<open>BINARY\<close>
  collation use.
\<close>

named_theorems res_simps "computation rules of the result type"
named_theorems str_simps "facts on the string operations"

section \<open>Results\<close>

text \<open>Rust's \<open>Result<T, E>\<close> is \<open>'e + 'a\<close>; \<open>rbind\<close> is the \<open>?\<close> operator.\<close>

definition rbind :: "'e + 'a \<Rightarrow> ('a \<Rightarrow> 'e + 'b) \<Rightarrow> 'e + 'b" where
  "rbind r f = (case r of Inl e \<Rightarrow> Inl e | Inr x \<Rightarrow> f x)"

lemma rbind_simps [simp, res_simps]:
  "rbind (Inl e) f = Inl e" "rbind (Inr x) f = f x"
  by (simp_all add: rbind_def)

lemma rbind_InrE:
  assumes "rbind r f = Inr y" obtains x where "r = Inr x" "f x = Inr y"
  using assms by (cases r) auto

lemma rbind_assoc: "rbind (rbind r f) g = rbind r (\<lambda>x. rbind (f x) g)"
  by (cases r) simp_all

text \<open>\<open>iter.map(f).collect::<Result<Vec<_>, _>>()\<close>: stops at the first error.\<close>

fun traverse :: "('a \<Rightarrow> 'e + 'b) \<Rightarrow> 'a list \<Rightarrow> 'e + 'b list" where
  "traverse f [] = Inr []"
| "traverse f (x # xs) =
     rbind (f x) (\<lambda>y. rbind (traverse f xs) (\<lambda>ys. Inr (y # ys)))"

lemma traverse_Inr_iff:
  "traverse f xs = Inr ys \<longleftrightarrow> list_all2 (\<lambda>x y. f x = Inr y) xs ys"
proof (induction xs arbitrary: ys)
  case Nil then show ?case by auto
next
  case (Cons x xs)
  show ?case
    by (cases "f x"; cases "traverse f xs"; cases ys) (auto simp: Cons.IH[symmetric])
qed

lemma traverse_total: "(\<And>x. x \<in> set xs \<Longrightarrow> f x = Inr (g x)) \<Longrightarrow> traverse f xs = Inr (map g xs)"
  by (induction xs) auto

lemma traverse_check:
  assumes "\<And>x y. f x = Inr y \<longleftrightarrow> y = x \<and> P x"
  shows "traverse f xs = Inr ys \<longleftrightarrow> ys = xs \<and> list_all P xs"
  unfolding traverse_Inr_iff assms
  by (induction xs arbitrary: ys) (auto simp: list_all2_Cons1)

lemma traverse_Inl_cases:
  "traverse f xs = Inl e \<Longrightarrow> \<exists>x \<in> set xs. f x = Inl e"
proof (induction xs)
  case (Cons x xs)
  then show ?case by (cases "f x"; cases "traverse f xs") auto
qed simp

text \<open>\<open>Option::transpose\<close> after \<open>Option::map\<close> of a fallible function.\<close>

fun opt_traverse :: "('a \<Rightarrow> 'e + 'b) \<Rightarrow> 'a option \<Rightarrow> 'e + 'b option" where
  "opt_traverse f None = Inr None"
| "opt_traverse f (Some x) = rbind (f x) (\<lambda>y. Inr (Some y))"

lemma opt_traverse_Inr_Some:
  "opt_traverse f a = Inr (Some y) \<longleftrightarrow> (\<exists>x. a = Some x \<and> f x = Inr y)"
proof (cases a)
  case (Some x) then show ?thesis by (cases "f x") auto
qed simp

lemma opt_traverse_Inr_None [simp]: "opt_traverse f a = Inr None \<longleftrightarrow> a = None"
proof (cases a)
  case (Some x) then show ?thesis by (cases "f x") auto
qed simp

section \<open>Characters and ASCII case\<close>

definition is_ascii_lowercase :: "char \<Rightarrow> bool" where
  "is_ascii_lowercase c \<longleftrightarrow> 97 \<le> (of_char c :: nat) \<and> (of_char c :: nat) \<le> 122"

definition is_ascii_uppercase :: "char \<Rightarrow> bool" where
  "is_ascii_uppercase c \<longleftrightarrow> 65 \<le> (of_char c :: nat) \<and> (of_char c :: nat) \<le> 90"

definition is_ascii_digit :: "char \<Rightarrow> bool" where
  "is_ascii_digit c \<longleftrightarrow> 48 \<le> (of_char c :: nat) \<and> (of_char c :: nat) \<le> 57"

definition ascii_lower :: "char \<Rightarrow> char" where
  "ascii_lower c = (if is_ascii_uppercase c then char_of ((of_char c :: nat) + 32) else c)"

definition to_ascii_lowercase :: "string \<Rightarrow> string" where
  "to_ascii_lowercase s = map ascii_lower s"

lemma ascii_lower_idem [simp]: "ascii_lower (ascii_lower c) = ascii_lower c"
  by (auto simp: ascii_lower_def is_ascii_uppercase_def of_char_of)

lemma ascii_lower_lowercase [simp]: "is_ascii_lowercase c \<Longrightarrow> ascii_lower c = c"
  by (auto simp: ascii_lower_def is_ascii_uppercase_def is_ascii_lowercase_def)

lemma ascii_lower_digit [simp]: "is_ascii_digit c \<Longrightarrow> ascii_lower c = c"
  by (auto simp: ascii_lower_def is_ascii_uppercase_def is_ascii_digit_def)

lemma length_to_ascii_lowercase [simp]: "length (to_ascii_lowercase s) = length s"
  by (simp add: to_ascii_lowercase_def)

lemma to_ascii_lowercase_id: "(\<And>c. c \<in> set s \<Longrightarrow> ascii_lower c = c) \<Longrightarrow> to_ascii_lowercase s = s"
  by (simp add: to_ascii_lowercase_def map_idI)

text \<open>The bytes of a UTF-8 character after its first are \<open>0x80\<close> to \<open>0xBF\<close>.\<close>

definition is_continuation :: "char \<Rightarrow> bool" where
  "is_continuation c \<longleftrightarrow> 128 \<le> (of_char c :: nat) \<and> (of_char c :: nat) < 192"

section \<open>Splitting and joining\<close>

text \<open>\<open>str::split(char)\<close>: always at least one piece.\<close>

fun split_char :: "char \<Rightarrow> string \<Rightarrow> string list" where
  "split_char d [] = [[]]"
| "split_char d (c # cs) =
     (if c = d then [] # split_char d cs
      else (case split_char d cs of [] \<Rightarrow> [[c]] | p # ps \<Rightarrow> (c # p) # ps))"

text \<open>\<open>[S]::join(sep)\<close>.\<close>

fun join :: "string \<Rightarrow> string list \<Rightarrow> string" where
  "join sep [] = []"
| "join sep [p] = p"
| "join sep (p # q # ps) = p @ sep @ join sep (q # ps)"

lemma split_char_nonempty [simp]: "split_char d s \<noteq> []"
  by (induction s) (auto split: list.splits)

lemma join_Cons: "ps \<noteq> [] \<Longrightarrow> join sep (p # ps) = p @ sep @ join sep ps"
  by (cases ps) auto

lemma join_split_char [simp]: "join [d] (split_char d s) = s"
proof (induction s)
  case (Cons c s)
  then show ?case
    by (cases "split_char d s") (auto simp: join_Cons split: list.splits, metis append_Cons join_Cons join.simps(2))
qed simp

lemma split_char_no_sep: "p \<in> set (split_char d s) \<Longrightarrow> d \<notin> set p"
proof (induction s arbitrary: p)
  case (Cons c s)
  obtain q qs where q: "split_char d s = q # qs"
    by (cases "split_char d s") auto
  show ?case using Cons.prems Cons.IH[of q] Cons.IH[of p] by (auto simp: q split: if_splits)
qed simp

lemma split_char_single: "d \<notin> set s \<Longrightarrow> split_char d s = [s]"
  by (induction s) auto

lemma split_char_append_sep: "d \<notin> set p \<Longrightarrow> split_char d (p @ d # s) = p # split_char d s"
  by (induction p) auto

lemma split_char_join:
  assumes "ps \<noteq> []" and "\<And>p. p \<in> set ps \<Longrightarrow> d \<notin> set p"
  shows "split_char d (join [d] ps) = ps"
  using assms
proof (induction ps)
  case (Cons p ps)
  show ?case
  proof (cases ps)
    case Nil then show ?thesis using Cons.prems by (simp add: split_char_single)
  next
    case (Cons q qs)
    then show ?thesis
      using Cons.prems Cons.IH by (simp add: split_char_append_sep)
  qed
qed simp

lemma set_join_subset: "set (join sep ps) \<subseteq> set sep \<union> \<Union> (set ` set ps)"
  by (induction sep ps rule: join.induct) auto

lemma length_join_ge: "p \<in> set ps \<Longrightarrow> length p \<le> length (join sep ps)"
  by (induction sep ps rule: join.induct) auto

text \<open>\<open>str::trim_matches(char)\<close>.\<close>

definition trim_matches :: "char \<Rightarrow> string \<Rightarrow> string" where
  "trim_matches d s = rev (dropWhile (\<lambda>c. c = d) (rev (dropWhile (\<lambda>c. c = d) s)))"

lemma trim_matches_id:
  assumes "s = [] \<or> (hd s \<noteq> d \<and> last s \<noteq> d)" shows "trim_matches d s = s"
proof (cases s)
  case Nil then show ?thesis by (simp add: trim_matches_def)
next
  case (Cons c cs)
  then have "dropWhile (\<lambda>c. c = d) s = s" using assms by auto
  moreover have "dropWhile (\<lambda>c. c = d) (rev s) = rev s"
    using assms Cons by (metis (mono_tags) dropWhile.simps(2) hd_rev list.exhaust_sel list.simps(3) rev_is_Nil_conv)
  ultimately show ?thesis by (simp add: trim_matches_def)
qed

text \<open>\<open>str::strip_prefix\<close>, \<open>str::find\<close> of a substring, \<open>str::split\<close> by a substring.\<close>

definition strip_prefix :: "string \<Rightarrow> string \<Rightarrow> string option" where
  "strip_prefix p s = (if prefix p s then Some (drop (length p) s) else None)"

fun find_sub :: "string \<Rightarrow> string \<Rightarrow> nat option" where
  "find_sub p [] = (if p = [] then Some 0 else None)"
| "find_sub p (c # cs) =
     (if prefix p (c # cs) then Some 0 else map_option Suc (find_sub p cs))"

lemma strip_prefix_Some_iff: "strip_prefix p s = Some r \<longleftrightarrow> s = p @ r"
  by (auto simp: strip_prefix_def prefix_def)

lemma find_sub_SomeD: "find_sub p s = Some i \<Longrightarrow> i + length p \<le> length s \<and> prefix p (drop i s)"
proof (induction p s arbitrary: i rule: find_sub.induct)
  case (1 p) then show ?case by (auto split: if_splits)
next
  case (2 p c cs)
  then show ?case by (auto split: if_splits dest: prefix_length_le)
qed

text \<open>\<open>str::replace(char, &str)\<close>.\<close>

definition replace_char :: "char \<Rightarrow> string \<Rightarrow> string \<Rightarrow> string" where
  "replace_char d r s = concat (map (\<lambda>c. if c = d then r else [c]) s)"

lemma replace_char_simps [simp]:
  "replace_char d r [] = []"
  "replace_char d r (c # s) = (if c = d then r else [c]) @ replace_char d r s"
  by (simp_all add: replace_char_def)

lemma replace_char_append [simp]: "replace_char d r (s @ t) = replace_char d r s @ replace_char d r t"
  by (simp add: replace_char_def)

section \<open>White space\<close>

text \<open>
  The UTF-8 encodings of the code points with Unicode's \<open>White_Space\<close> property, which is what
  \<open>char::is_whitespace\<close>, and so \<open>str::trim\<close>, tests. UTF-8 is self-synchronising, so on a valid
  string matching these encodings at the ends of the byte list is matching whole characters.
\<close>

definition ws_utf8 :: "string list" where
  "ws_utf8 =
    [[CHR 0x09], [CHR 0x0A], [CHR 0x0B], [CHR 0x0C], [CHR 0x0D], [CHR 0x20],
     [CHR 0xC2, CHR 0x85], [CHR 0xC2, CHR 0xA0], [CHR 0xE1, CHR 0x9A, CHR 0x80],
     [CHR 0xE2, CHR 0x80, CHR 0x80], [CHR 0xE2, CHR 0x80, CHR 0x81], [CHR 0xE2, CHR 0x80, CHR 0x82],
     [CHR 0xE2, CHR 0x80, CHR 0x83], [CHR 0xE2, CHR 0x80, CHR 0x84], [CHR 0xE2, CHR 0x80, CHR 0x85],
     [CHR 0xE2, CHR 0x80, CHR 0x86], [CHR 0xE2, CHR 0x80, CHR 0x87], [CHR 0xE2, CHR 0x80, CHR 0x88],
     [CHR 0xE2, CHR 0x80, CHR 0x89], [CHR 0xE2, CHR 0x80, CHR 0x8A], [CHR 0xE2, CHR 0x80, CHR 0xA8],
     [CHR 0xE2, CHR 0x80, CHR 0xA9], [CHR 0xE2, CHR 0x80, CHR 0xAF], [CHR 0xE2, CHR 0x81, CHR 0x9F],
     [CHR 0xE3, CHR 0x80, CHR 0x80]]"

text \<open>The length of the white-space character at the start (end) of a string, 0 if none.\<close>

definition ws_len :: "string \<Rightarrow> nat" where
  "ws_len s = (case find (\<lambda>w. prefix w s) ws_utf8 of None \<Rightarrow> 0 | Some w \<Rightarrow> length w)"

definition ws_len_end :: "string \<Rightarrow> nat" where
  "ws_len_end s = (case find (\<lambda>w. suffix w s) ws_utf8 of None \<Rightarrow> 0 | Some w \<Rightarrow> length w)"

lemma ws_utf8_nonempty: "w \<in> set ws_utf8 \<Longrightarrow> w \<noteq> []"
  by (auto simp: ws_utf8_def)

lemma ws_len_Nil [simp]: "ws_len [] = 0"
  by (simp add: ws_len_def ws_utf8_def)

lemma ws_len_end_Nil [simp]: "ws_len_end [] = 0"
  by (simp add: ws_len_end_def ws_utf8_def)

function trim_start :: "string \<Rightarrow> string" where
  "trim_start s = (if ws_len s = 0 then s else trim_start (drop (ws_len s) s))"
  by pat_completeness auto
termination
proof (relation "measure length", goal_cases)
  case (2 s)
  then have "s \<noteq> []" by auto
  with 2 show ?case by simp
qed simp

function trim_end :: "string \<Rightarrow> string" where
  "trim_end s = (if ws_len_end s = 0 then s else trim_end (take (length s - ws_len_end s) s))"
  by pat_completeness auto
termination
proof (relation "measure length", goal_cases)
  case (2 s)
  then have "s \<noteq> []" by auto
  with 2 show ?case by simp
qed simp

declare trim_start.simps [simp del] trim_end.simps [simp del]

definition trim :: "string \<Rightarrow> string" where
  "trim s = trim_end (trim_start s)"

lemma find_SomeD: "find P xs = Some x \<Longrightarrow> x \<in> set xs \<and> P x"
  by (auto simp: find_Some_iff)

lemma find_ws_nonempty: "find P ws_utf8 = Some w \<Longrightarrow> w \<noteq> []"
  by (metis find_SomeD ws_utf8_nonempty)

lemma ws_len_0_iff: "ws_len s = 0 \<longleftrightarrow> (\<forall>w \<in> set ws_utf8. \<not> prefix w s)"
  by (auto simp: ws_len_def find_None_iff dest: find_ws_nonempty find_SomeD split: option.splits)

lemma ws_len_end_0_iff: "ws_len_end s = 0 \<longleftrightarrow> (\<forall>w \<in> set ws_utf8. \<not> suffix w s)"
  by (auto simp: ws_len_end_def find_None_iff dest: find_ws_nonempty find_SomeD split: option.splits)

lemma ws_len_prefix: "ws_len t = 0 \<Longrightarrow> prefix s t \<Longrightarrow> ws_len s = 0"
  by (meson prefix_order.trans ws_len_0_iff)

lemma suffix_trim_start: "suffix (trim_start s) s"
proof (induction s rule: trim_start.induct)
  case (1 s)
  then show ?case
    by (subst trim_start.simps) (auto intro: suffix_order.trans suffix_drop)
qed

lemma prefix_trim_end: "prefix (trim_end s) s"
proof (induction s rule: trim_end.induct)
  case (1 s)
  then show ?case
    by (subst trim_end.simps) (auto intro: prefix_order.trans take_is_prefix)
qed

lemma ws_len_trim_start [simp]: "ws_len (trim_start s) = 0"
proof (induction s rule: trim_start.induct)
  case (1 s) then show ?case by (subst trim_start.simps) auto
qed

lemma ws_len_end_trim_end [simp]: "ws_len_end (trim_end s) = 0"
proof (induction s rule: trim_end.induct)
  case (1 s) then show ?case by (subst trim_end.simps) auto
qed

lemma ws_len_trim [simp, str_simps]: "ws_len (trim s) = 0" "ws_len_end (trim s) = 0"
  by (auto simp: trim_def intro: ws_len_prefix[OF _ prefix_trim_end])

lemma trim_id: "ws_len s = 0 \<Longrightarrow> ws_len_end s = 0 \<Longrightarrow> trim s = s"
  by (simp add: trim_def trim_start.simps trim_end.simps)

lemma trim_idem [simp, str_simps]: "trim (trim s) = trim s"
  by (simp add: trim_id)

lemma trim_Nil [simp]: "trim [] = []"
  by (simp add: trim_id)

lemma sublist_trim: "sublist (trim s) s"
  using prefix_imp_sublist[OF prefix_trim_end] suffix_imp_sublist[OF suffix_trim_start]
  unfolding trim_def by (rule sublist_order.order_trans)

lemma length_trim [str_simps]: "length (trim s) \<le> length s"
  using sublist_trim sublist_length_le by blast

section \<open>Stable sorting\<close>

text \<open>
  \<open>slice::sort_by_key\<close> and SQL's \<open>ORDER BY\<close> over a scan are stable sorts: \<open>sort_key\<close>.
  \<open>[T]::dedup\<close> removes consecutive equal elements: \<open>remdups_adj\<close>.
\<close>

lemma distinct_remdups_adj_sorted:
  "sorted (xs :: 'a :: linorder list) \<Longrightarrow> distinct (remdups_adj xs)"
  by (induction xs rule: remdups_adj.induct) auto

lemma sorted_dedup:
  fixes xs :: "'a :: linorder list"
  shows "distinct (remdups_adj (sort xs))" "sorted (remdups_adj (sort xs))"
    "set (remdups_adj (sort xs)) = set xs"
  by (simp_all add: distinct_remdups_adj_sorted)

lemma filter_sort_key: "filter P (sort_key f xs) = sort_key f (filter P xs)"
  by (rule filter_sort)

lemma mset_filter_scan: "mset ys = mset xs \<Longrightarrow> set (filter P ys) = set (filter P xs)"
  by (metis mset_filter mset_eq_setD)

end
