(* ===== verification/Paths.thy ===== *)
theory Paths
  imports Prelude
begin

text \<open>
  What the program uses of \<open>std::path\<close> on Unix, with paths as strings, and the decimal printing of
  natural numbers (\<open>format!("{}", n)\<close> for a \<open>usize\<close>).
\<close>

section \<open>Paths\<close>

text \<open>\<open>Path::components\<close>: repeated slashes and inner \<open>.\<close> components do not count.\<close>

definition path_components :: "string \<Rightarrow> string list" where
  "path_components p =
     (let parts = split_char CHR ''/'' p
      in (if prefix ''/'' p then [''/''] else if hd parts = ''.'' then [''.''] else []) @
         filter (\<lambda>c. c \<noteq> [] \<and> c \<noteq> ''.'') parts)"

text \<open>\<open>Path::file_name\<close>: the last component, unless there is none or it is \<open>..\<close>.\<close>

definition file_name :: "string \<Rightarrow> string option" where
  "file_name dir =
     (let parts = filter (\<lambda>c. c \<noteq> [] \<and> c \<noteq> ''.'') (split_char CHR ''/'' dir)
      in if parts = [] \<or> last parts = ''..'' then None else Some (last parts))"

text \<open>
  The part of a file name before and after its last dot; a name without a dot, or whose only dot is
  its first character, has no extension.
\<close>

definition split_at_dot :: "string \<Rightarrow> string \<times> string option" where
  "split_at_dot name =
     (let ext = rev (takeWhile (\<lambda>c. c \<noteq> CHR ''.'') (rev name));
          before = rev (drop 1 (dropWhile (\<lambda>c. c \<noteq> CHR ''.'') (rev name)))
      in if before = [] then (name, None) else (before, Some ext))"

definition file_stem :: "string \<Rightarrow> string option" where
  "file_stem p = map_option (\<lambda>n. fst (split_at_dot n)) (file_name p)"

definition extension :: "string \<Rightarrow> string option" where
  "extension p = Option.bind (file_name p) (\<lambda>n. snd (split_at_dot n))"

text \<open>\<open>Path::join\<close> with a relative path.\<close>

definition path_join :: "string \<Rightarrow> string \<Rightarrow> string" where
  "path_join a b = (if a = [] \<or> last a = CHR ''/'' then a @ b else a @ CHR ''/'' # b)"

text \<open>\<open>Path::parent\<close> of a path without trailing dot components.\<close>

definition path_parent :: "string \<Rightarrow> string option" where
  "path_parent p =
     (let q = dropWhile (\<lambda>c. c = CHR ''/'') (rev p); r = dropWhile (\<lambda>c. c \<noteq> CHR ''/'') q
      in if q = [] then None else if r = [] then Some []
         else let d = dropWhile (\<lambda>c. c = CHR ''/'') r in Some (if d = [] then ''/'' else rev d))"

section \<open>Decimal numbers\<close>

definition digit :: "nat \<Rightarrow> char" where
  "digit n = char_of (48 + n)"

fun show_nat :: "nat \<Rightarrow> string" where
  "show_nat n = (if n < 10 then [digit n] else show_nat (n div 10) @ [digit (n mod 10)])"

declare show_nat.simps [simp del]

lemma digit_digit: "n < 10 \<Longrightarrow> is_ascii_digit (digit n)"
  by (simp add: is_ascii_digit_def digit_def of_char_of)

lemma show_nat_digits: "c \<in> set (show_nat n) \<Longrightarrow> is_ascii_digit c"
proof (induction n rule: show_nat.induct)
  case (1 n)
  then show ?case by (subst (asm) (2) show_nat.simps) (auto simp: digit_digit split: if_splits)
qed

lemma show_nat_nonempty [simp]: "show_nat n \<noteq> []"
  by (subst show_nat.simps) simp

definition read_nat :: "string \<Rightarrow> nat" where
  "read_nat s = foldl (\<lambda>a c. 10 * a + (of_char c - 48)) 0 s"

lemma read_show_nat [simp]: "read_nat (show_nat n) = n"
proof (induction n rule: show_nat.induct)
  case (1 n)
  then show ?case by (subst show_nat.simps) (simp add: read_nat_def digit_def of_char_of)
qed

lemma show_nat_inject [simp]: "show_nat m = show_nat n \<longleftrightarrow> m = n"
  by (metis read_show_nat)

end
