(* ===== verification/Core_Types.thy ===== *)
theory Core_Types
  imports Prelude
begin

text \<open>
  The data model of \<open>singularmem-core\<close>: identifiers, JSON values, items (\<open>item.rs\<close>) and the
  error enum (\<open>error.rs\<close>). An error's \<open>reason\<close> text is a human-readable \<open>format!\<close> string; it is
  kept as a constructor of \<open>reason\<close>, one per message, with the values the message prints.
\<close>

section \<open>Identifiers, instants and 32-bit floats\<close>

text \<open>
  A ULID is 128 bits; \<open>ItemId\<close>, \<open>EntityId\<close> and \<open>FactId\<close> are newtypes of it that compare by
  those bits (\<open>id.rs\<close>). A \<open>jiff::Timestamp\<close> is an integer count of nanoseconds since the epoch.
  An \<open>f32\<close> or an \<open>f64\<close> is its IEEE 754 bit pattern.
\<close>

type_synonym ulid = "128 word"
type_synonym timestamp = int
type_synonym f32 = "32 word"
type_synonym f64 = "64 word"

section \<open>JSON\<close>

text \<open>
  \<open>serde_json::Value\<close>; an object keeps insertion order (the \<open>preserve_order\<close> feature). A number is
  read as an integer when it is written as one that fits \<open>i64\<close> or \<open>u64\<close>, and as an \<open>f64\<close> otherwise
  (with a fraction or an exponent, or too large).
\<close>

datatype json =
    JNull
  | JBool bool
  | JNumber int
  | JFloat f64
  | JString string
  | JArray "json list"
  | JObject "(string \<times> json) list"

fun json_type_name :: "json \<Rightarrow> string" where
  "json_type_name JNull = ''null''"
| "json_type_name (JBool _) = ''boolean''"
| "json_type_name (JNumber _) = ''number''"
| "json_type_name (JFloat _) = ''number''"
| "json_type_name (JString _) = ''string''"
| "json_type_name (JArray _) = ''array''"
| "json_type_name (JObject _) = ''object''"

fun as_object :: "json \<Rightarrow> (string \<times> json) list option" where
  "as_object (JObject m) = Some m"
| "as_object _ = None"

fun as_array :: "json \<Rightarrow> json list option" where
  "as_array (JArray xs) = Some xs"
| "as_array _ = None"

fun as_str :: "json \<Rightarrow> string option" where
  "as_str (JString s) = Some s"
| "as_str _ = None"

text \<open>\<open>Value::get(key)\<close>: \<open>None\<close> on anything but an object that has the key.\<close>

definition json_get :: "string \<Rightarrow> json \<Rightarrow> json option" where
  "json_get k v = (case as_object v of None \<Rightarrow> None | Some m \<Rightarrow> map_of m k)"

section \<open>Errors\<close>

datatype reason =
    MustBeNonEmpty
  | ExceedsCap nat nat
  | ExceedsBytes nat
  | ContainsNul
  | MustBeObject string
  | NoSegment
  | EmptySegment
  | DotSegment string
  | SegmentTooLong nat
  | BadSegmentBytes string
  | TooManySegments nat
  | ClockBeforeEpoch
  | BadPredicateBytes
  | KindConflict string string
  | ConfidenceOutside f32
  | WindowReversed timestamp timestamp
  | UnknownSourceItem ulid
  | ValueEmpty
  | OpenFactDiffers string string string
  | ReplacementStands string string string
  | EndsBeforeStart timestamp timestamp
  | NotATimePoint string
  | NoObjectColumn ulid
  | NotADirection string
  | OneOfTwoRequired
  | UnknownAdapter string
  | NotADirectory string

text \<open>The library's error enum; \<open>Sqlite\<close> carries the \<open>context\<close> tag of the failing statement.\<close>

datatype error =
    Validation string reason
  | SupersedesNotFound ulid
  | NotFound ulid
  | FactNotFound string string string
  | FactIdNotFound ulid
  | AmbiguousFactRevision "ulid list"
  | AmbiguousLatest "ulid list"
  | UnsupportedFormatVersion string string
  | Migration string string string
  | ExternalIdConflict string
  | ReadOnly string
  | InvalidId string
  | Sqlite string
  | IoError string
  | JsonError string

section \<open>Items\<close>

record item =
  item_id :: ulid
  content :: string
  created_at :: timestamp
  supersedes :: "ulid option"
  tags :: "string list"
  source :: "string option"
  metadata :: json
  external_id :: "string option"
  scope :: "string option"

record new_item =
  n_content :: string
  n_supersedes :: "ulid option"
  n_tags :: "string list"
  n_source :: "string option"
  n_metadata :: json
  n_external_id :: "string option"
  n_scope :: "string option"

text \<open>\<open>NewItem::text\<close>.\<close>

definition default_metadata :: json where
  "default_metadata = JObject []"

definition new_item_text :: "string \<Rightarrow> new_item" where
  "new_item_text c =
     \<lparr>n_content = c, n_supersedes = None, n_tags = [], n_source = None,
      n_metadata = default_metadata, n_external_id = None, n_scope = None\<rparr>"

end
