(* ===== verification/Scope.thy ===== *)
theory Scope
  imports Core_Types
begin

text \<open>
  Scope paths (\<open>singularmem-core/src/scope.rs\<close>): validation and normalisation, ancestor
  expansion, and the scope filter in its three implementations: the in-memory \<open>matches\<close>, the SQL
  \<open>WHERE\<close> clause over \<open>items.scope\<close>, and the \<open>scope_ancestors\<close> term of the lexical index.
\<close>

section \<open>Validation\<close>

definition MAX_SEGMENTS :: nat where "MAX_SEGMENTS = 8"
definition MAX_SEGMENT_BYTES :: nat where "MAX_SEGMENT_BYTES = 64"
definition MAX_SCOPE_BYTES :: nat where "MAX_SCOPE_BYTES = 512"

definition is_valid_byte :: "char \<Rightarrow> bool" where
  "is_valid_byte b \<longleftrightarrow>
     is_ascii_lowercase b \<or> is_ascii_digit b \<or> b \<in> {CHR ''.'', CHR ''_'', CHR ''-''}"

definition check_segment :: "string \<Rightarrow> error + string" where
  "check_segment seg =
     (if seg = [] then Inl (Validation ''scope'' EmptySegment)
      else if seg = ''.'' \<or> seg = ''..'' then Inl (Validation ''scope'' (DotSegment seg))
      else if length seg > MAX_SEGMENT_BYTES
        then Inl (Validation ''scope'' (SegmentTooLong MAX_SEGMENT_BYTES))
      else let lower = to_ascii_lowercase seg in
        if \<not> list_all is_valid_byte lower then Inl (Validation ''scope'' (BadSegmentBytes seg))
        else Inr lower)"

definition validate :: "string \<Rightarrow> error + string" where
  "validate raw =
     (if length raw > MAX_SCOPE_BYTES + 2
        then Inl (Validation ''scope'' (ExceedsCap MAX_SCOPE_BYTES (length raw)))
      else let trimmed = trim_matches CHR ''/'' raw in
        if trimmed = [] then Inl (Validation ''scope'' NoSegment)
        else rbind (traverse check_segment (split_char CHR ''/'' trimmed)) (\<lambda>segments.
          if length segments > MAX_SEGMENTS
            then Inl (Validation ''scope'' (TooManySegments MAX_SEGMENTS))
          else let joined = join ''/'' segments in
            if length joined > MAX_SCOPE_BYTES
              then Inl (Validation ''scope'' (ExceedsBytes MAX_SCOPE_BYTES))
            else Inr joined))"

text \<open>The shape of a normalised scope: its segments, each legal and lower case.\<close>

definition good_segment :: "string \<Rightarrow> bool" where
  "good_segment seg \<longleftrightarrow>
     seg \<noteq> [] \<and> seg \<noteq> ''.'' \<and> seg \<noteq> ''..'' \<and> length seg \<le> 64 \<and> list_all is_valid_byte seg"

definition scope_ok :: "string \<Rightarrow> bool" where
  "scope_ok s \<longleftrightarrow>
     list_all good_segment (split_char CHR ''/'' s) \<and>
     length (split_char CHR ''/'' s) \<le> 8 \<and> length s \<le> 512"

lemma valid_byte_lower [simp]: "is_valid_byte b \<Longrightarrow> ascii_lower b = b"
  by (auto simp: is_valid_byte_def) (simp_all add: ascii_lower_def is_ascii_uppercase_def)

lemma valid_byte_not_slash: "is_valid_byte b \<Longrightarrow> b \<noteq> CHR ''/''"
  by (auto simp: is_valid_byte_def is_ascii_lowercase_def is_ascii_digit_def)

lemma good_segment_no_slash: "good_segment seg \<Longrightarrow> CHR ''/'' \<notin> set seg"
  by (auto simp: good_segment_def list_all_iff dest: valid_byte_not_slash)

lemma lower_dots:
  "to_ascii_lowercase seg = ''.'' \<Longrightarrow> seg = ''.''"
  "to_ascii_lowercase seg = ''..'' \<Longrightarrow> seg = ''..''"
proof -
  have *: "c = CHR ''.''" if "ascii_lower c = CHR ''.''" for c
  proof (cases "is_ascii_uppercase c")
    case True
    then have "(of_char (ascii_lower c) :: nat) \<ge> 97"
      by (simp add: ascii_lower_def is_ascii_uppercase_def of_char_of)
    with that show ?thesis by simp
  qed (use that in \<open>simp add: ascii_lower_def\<close>)
  show "to_ascii_lowercase seg = ''.'' \<Longrightarrow> seg = ''.''"
    "to_ascii_lowercase seg = ''..'' \<Longrightarrow> seg = ''..''"
    by (auto simp: to_ascii_lowercase_def map_eq_Cons_conv dest: *)
qed

lemma check_segment_good: "check_segment seg = Inr lower \<Longrightarrow> good_segment lower"
  by (auto simp: check_segment_def good_segment_def MAX_SEGMENT_BYTES_def Let_def
      dest: lower_dots split: if_splits) (simp_all add: to_ascii_lowercase_def)

lemma check_segment_id: "good_segment seg \<Longrightarrow> check_segment seg = Inr seg"
  by (auto simp: check_segment_def good_segment_def MAX_SEGMENT_BYTES_def Let_def list_all_iff
      to_ascii_lowercase_id)

lemma split_char_append: "split_char d (p @ d # r) = split_char d p @ split_char d r"
  by (induction p) (auto split: list.splits)

lemma scope_ok_ends:
  assumes "scope_ok s" shows "s \<noteq> []" "hd s \<noteq> CHR ''/''" "last s \<noteq> CHR ''/''"
proof -
  let ?ps = "split_char CHR ''/'' s"
  have good: "good_segment p" if "p \<in> set ?ps" for p
    using assms that by (simp add: scope_ok_def list_all_iff)
  show ne: "s \<noteq> []"
    using good[of "[]"] by (auto simp: good_segment_def)
  show "hd s \<noteq> CHR ''/''"
  proof
    assume "hd s = CHR ''/''"
    then have "[] \<in> set ?ps" using ne by (cases s) auto
    then show False using good[of "[]"] by (simp add: good_segment_def)
  qed
  have last_sep: "[] \<in> set (split_char d (t @ [d]))" for d t
    using split_char_append[of d t "[]"] by simp
  show "last s \<noteq> CHR ''/''"
  proof
    assume "last s = CHR ''/''"
    then have "s = butlast s @ [CHR ''/'']" using ne by (metis append_butlast_last_id)
    then have "[] \<in> set ?ps" using last_sep by metis
    then show False using good[of "[]"] by (simp add: good_segment_def)
  qed
qed

lemma validate_Inr_cases:
  assumes "validate raw = Inr s"
  obtains segs where "traverse check_segment (split_char CHR ''/'' (trim_matches CHR ''/'' raw)) = Inr segs"
    "s = join ''/'' segs" "length segs \<le> 8" "length s \<le> 512"
  using assms
  by (auto simp: validate_def Let_def MAX_SEGMENTS_def MAX_SCOPE_BYTES_def
      split: if_splits elim!: rbind_InrE)

lemma validate_scope_ok: assumes "validate raw = Inr s" shows "scope_ok s"
proof -
  obtain segs where segs: "traverse check_segment (split_char CHR ''/'' (trim_matches CHR ''/'' raw)) = Inr segs"
    and s: "s = join ''/'' segs" "length segs \<le> 8" "length s \<le> 512"
    using assms by (rule validate_Inr_cases)
  have good: "\<forall>p \<in> set segs. good_segment p"
    using segs by (fastforce simp: traverse_Inr_iff list_all2_conv_all_nth in_set_conv_nth
        intro: check_segment_good)
  moreover have "segs \<noteq> []"
    using segs by (auto simp: traverse_Inr_iff)
  ultimately have "split_char CHR ''/'' s = segs"
    unfolding s(1) by (intro split_char_join) (auto dest: good_segment_no_slash)
  with good s show ?thesis by (simp add: scope_ok_def list_all_iff)
qed

lemma validate_id: assumes "scope_ok s" shows "validate s = Inr s"
proof -
  let ?ps = "split_char CHR ''/'' s"
  have t: "trim_matches CHR ''/'' s = s"
    using scope_ok_ends[OF assms] by (intro trim_matches_id) simp
  have "traverse check_segment ?ps = Inr (map (\<lambda>x. x) ?ps)"
    using assms by (intro traverse_total) (auto simp: scope_ok_def list_all_iff check_segment_id)
  then show ?thesis
    using assms scope_ok_ends(1)[OF assms]
    by (simp add: validate_def Let_def t scope_ok_def MAX_SEGMENTS_def MAX_SCOPE_BYTES_def)
qed

section \<open>Ancestors\<close>

fun ancestors_loop :: "string \<Rightarrow> string list \<Rightarrow> string list" where
  "ancestors_loop acc [] = []"
| "ancestors_loop acc (seg # segs) =
     (let acc' = (if acc = [] then acc else acc @ ''/'') @ seg
      in acc' # ancestors_loop acc' segs)"

definition ancestors :: "string \<Rightarrow> string list" where
  "ancestors s = ancestors_loop [] (split_char CHR ''/'' s)"

section \<open>Scope filters\<close>

record scope_filter =
  sf_path :: string
  sf_exact :: bool

definition descendants_filter :: "string \<Rightarrow> error + scope_filter" where
  "descendants_filter p = rbind (validate p) (\<lambda>v. Inr \<lparr>sf_path = v, sf_exact = False\<rparr>)"

definition exact_filter :: "string \<Rightarrow> error + scope_filter" where
  "exact_filter p = rbind (validate p) (\<lambda>v. Inr \<lparr>sf_path = v, sf_exact = True\<rparr>)"

definition matches :: "scope_filter \<Rightarrow> string option \<Rightarrow> bool" where
  "matches f sc = (case sc of
      None \<Rightarrow> False
    | Some s \<Rightarrow>
        if sf_exact f then s = sf_path f
        else s = sf_path f \<or> (case strip_prefix (sf_path f) s of
            None \<Rightarrow> False | Some rest \<Rightarrow> prefix ''/'' rest))"

text \<open>
  The SQL fragment is one of two literals; \<open>Scope_Eq_Or_Like\<close> is
  \<open>(scope = ? OR scope LIKE ? ESCAPE '\')\<close>. The second component holds the bound parameters.
\<close>

datatype sql_clause = Scope_Eq | Scope_Eq_Or_Like

definition like_escape :: "string \<Rightarrow> string" where
  "like_escape p =
     replace_char CHR ''_'' [CHR 0x5C, CHR ''_'']
       (replace_char CHR ''%'' [CHR 0x5C, CHR ''%'']
         (replace_char CHR 0x5C [CHR 0x5C, CHR 0x5C] p))"

definition filter_sql_clause :: "scope_filter \<Rightarrow> sql_clause \<times> string list" where
  "filter_sql_clause f =
     (if sf_exact f then (Scope_Eq, [sf_path f])
      else (Scope_Eq_Or_Like, [sf_path f, like_escape (sf_path f) @ ''/%'']))"

text \<open>
  SQLite's \<open>X LIKE Y ESCAPE '\'\<close>, documented to ignore ASCII case: \<open>%\<close> matches any sequence,
  \<open>_\<close> one character, and a character after the escape matches itself.
\<close>

fun sql_like :: "string \<Rightarrow> string \<Rightarrow> bool" where
  "sql_like [] s = (s = [])"
| "sql_like (p # ps) s =
     (if p = CHR 0x5C then
        (case ps of [] \<Rightarrow> False
         | q # qs \<Rightarrow> (case s of [] \<Rightarrow> False
            | c # cs \<Rightarrow> ascii_lower c = ascii_lower q \<and> sql_like qs cs))
      else if p = CHR ''%'' then
        sql_like ps s \<or> (case s of [] \<Rightarrow> False | c # cs \<Rightarrow> sql_like (p # ps) cs)
      else if p = CHR ''_'' then (case s of [] \<Rightarrow> False | c # cs \<Rightarrow> sql_like ps cs)
      else (case s of [] \<Rightarrow> False
         | c # cs \<Rightarrow> ascii_lower c = ascii_lower p \<and> sql_like ps cs))"

text \<open>The clause as a condition on a row's \<open>scope\<close> column (a \<open>NULL\<close> comparison is not true).\<close>

fun clause_holds :: "sql_clause \<times> string list \<Rightarrow> string option \<Rightarrow> bool" where
  "clause_holds (Scope_Eq, [b]) (Some s) = (s = b)"
| "clause_holds (Scope_Eq_Or_Like, [b, pat]) (Some s) = (s = b \<or> sql_like pat s)"
| "clause_holds _ _ = False"

definition sql_matches :: "scope_filter \<Rightarrow> string option \<Rightarrow> bool" where
  "sql_matches f sc = clause_holds (filter_sql_clause f) sc"

text \<open>
  The lexical index's test: the exact filter looks the path up in the \<open>scope\<close> field, the
  descendant filter in \<open>scope_ancestors\<close>, which \<open>index_item\<close> fills with \<open>ancestors\<close>.
\<close>

definition term_matches :: "scope_filter \<Rightarrow> string option \<Rightarrow> bool" where
  "term_matches f sc = (case sc of
      None \<Rightarrow> False
    | Some s \<Rightarrow> if sf_exact f then sf_path f = s else sf_path f \<in> set (ancestors s))"

lemma matches_iff:
  "matches f (Some s) \<longleftrightarrow> s = sf_path f \<or> (\<not> sf_exact f \<and> (\<exists>r. s = sf_path f @ CHR ''/'' # r))"
  by (auto simp: matches_def strip_prefix_Some_iff prefix_def strip_prefix_def split: option.splits)

section \<open>The three implementations agree\<close>

lemma like_escape_simps [simp]:
  "like_escape [] = []"
  "like_escape (c # s) =
     (if c \<in> {CHR 0x5C, CHR ''%'', CHR ''_''} then [CHR 0x5C, c] else [c]) @ like_escape s"
  by (auto simp: like_escape_def)

lemma sql_like_escape_append:
  "sql_like (like_escape p @ rest) s \<longleftrightarrow>
     (\<exists>u v. s = u @ v \<and> length u = length p \<and> map ascii_lower u = map ascii_lower p
       \<and> sql_like rest v)"
proof (induction p arbitrary: s)
  case (Cons c p)
  have "sql_like (like_escape (c # p) @ rest) s \<longleftrightarrow>
      (\<exists>d t. s = d # t \<and> ascii_lower d = ascii_lower c \<and> sql_like (like_escape p @ rest) t)"
    by (cases s) auto
  also have "\<dots> \<longleftrightarrow> (\<exists>u v. s = u @ v \<and> length u = length (c # p)
       \<and> map ascii_lower u = map ascii_lower (c # p) \<and> sql_like rest v)"
    unfolding Cons.IH
    by (auto simp: length_Suc_conv) (metis append_Cons list.simps(9) length_map)+
  finally show ?case .
qed simp

lemma sql_like_percent [simp]: "sql_like ''%'' s"
  by (induction s) auto

lemma sql_like_slash_percent: "sql_like ''/%'' s \<longleftrightarrow> (\<exists>r. s = CHR ''/'' # r)"
proof (cases s)
  case (Cons c cs)
  have "ascii_lower c = CHR ''/'' \<longleftrightarrow> c = CHR ''/''"
  proof (cases "is_ascii_uppercase c")
    case True
    then have "(of_char (ascii_lower c) :: nat) \<ge> 97" "(of_char c :: nat) \<ge> 65"
      by (simp_all add: ascii_lower_def is_ascii_uppercase_def of_char_of)
    then show ?thesis by auto
  qed (simp add: ascii_lower_def)
  moreover have "ascii_lower CHR ''/'' = CHR ''/''"
    by (simp add: ascii_lower_def is_ascii_uppercase_def)
  ultimately show ?thesis
    by (auto simp: Cons sql_like.simps(2)[of "CHR ''/''" "''%''" "c # cs"] simp del: sql_like.simps)
qed auto

lemma scope_ok_bytes:
  assumes "scope_ok s" "c \<in> set s" shows "is_valid_byte c \<or> c = CHR ''/''"
proof -
  have "set s \<subseteq> set ''/'' \<union> \<Union> (set ` set (split_char CHR ''/'' s))"
    using set_join_subset[of "''/''" "split_char CHR ''/'' s"] by (simp only: join_split_char)
  with assms show ?thesis
    by (auto simp: scope_ok_def good_segment_def list_all_iff)
qed

lemma scope_ok_lower: assumes "scope_ok s" shows "map ascii_lower s = s"
proof (rule map_idI)
  fix c assume "c \<in> set s"
  then have "is_valid_byte c \<or> c = CHR ''/''" by (rule scope_ok_bytes[OF assms])
  then show "ascii_lower c = c"
    by (auto simp: ascii_lower_def[of "CHR ''/''"] is_ascii_uppercase_def)
qed

lemma sql_matches_eq_matches:
  assumes "scope_ok (sf_path f)" "\<And>s. sc = Some s \<Longrightarrow> scope_ok s"
  shows "sql_matches f sc = matches f sc"
proof (cases sc)
  case None then show ?thesis
    by (simp add: sql_matches_def matches_def filter_sql_clause_def)
next
  case (Some s)
  have "sql_like (like_escape (sf_path f) @ ''/%'') s \<longleftrightarrow> (\<exists>r. s = sf_path f @ CHR ''/'' # r)"
  proof -
    have "map ascii_lower u = u" if "s = u @ v" for u v
      using scope_ok_lower[of s] assms(2)[OF Some] that by simp
    then show ?thesis
      unfolding sql_like_escape_append sql_like_slash_percent scope_ok_lower[OF assms(1)]
      by auto
  qed
  then show ?thesis
    by (auto simp: Some sql_matches_def filter_sql_clause_def matches_iff)
qed

lemma ancestors_loop_eq:
  assumes "\<And>p. p \<in> set segs \<Longrightarrow> p \<noteq> []" "\<And>p. p \<in> set pre \<Longrightarrow> p \<noteq> []"
  shows "ancestors_loop (join ''/'' pre) segs =
      map (\<lambda>k. join ''/'' (pre @ take (Suc k) segs)) [0..<length segs]"
  using assms
proof (induction segs arbitrary: pre)
  case (Cons seg segs)
  have ne: "join ''/'' pre = [] \<longleftrightarrow> pre = []"
    using Cons.prems(2) by (cases "(''/'', pre)" rule: join.cases) auto
  have snoc: "(if join ''/'' pre = [] then join ''/'' pre else join ''/'' pre @ ''/'') @ seg
      = join ''/'' (pre @ [seg])"
  proof -
    have "join sep (pre @ [seg]) = join sep pre @ sep @ seg" if "pre \<noteq> []" for sep
      using that by (induction sep pre rule: join.induct) auto
    then show ?thesis using ne by (cases "pre = []") auto
  qed
  have "ancestors_loop (join ''/'' pre) (seg # segs) =
      join ''/'' (pre @ [seg]) # ancestors_loop (join ''/'' (pre @ [seg])) segs"
    by (simp only: ancestors_loop.simps Let_def snoc)
  also have "ancestors_loop (join ''/'' (pre @ [seg])) segs =
      map (\<lambda>k. join ''/'' ((pre @ [seg]) @ take (Suc k) segs)) [0..<length segs]"
    using Cons.prems by (intro Cons.IH) auto
  also have "join ''/'' (pre @ [seg]) # \<dots> =
      map (\<lambda>k. join ''/'' (pre @ take (Suc k) (seg # segs))) [0..<length (seg # segs)]"
    unfolding length_Cons upt_conv_Cons[OF zero_less_Suc] map_Suc_upt[symmetric] by simp
  finally show ?case .
qed simp

lemma ancestors_eq:
  assumes "scope_ok s"
  shows "ancestors s = map (\<lambda>k. join ''/'' (take (Suc k) (split_char CHR ''/'' s)))
           [0..<length (split_char CHR ''/'' s)]"
  using ancestors_loop_eq[of "split_char CHR ''/'' s" "[]"] assms
  by (auto simp: ancestors_def scope_ok_def list_all_iff good_segment_def)

lemma join_append:
  "ps \<noteq> [] \<Longrightarrow> qs \<noteq> [] \<Longrightarrow> join sep (ps @ qs) = join sep ps @ sep @ join sep qs"
proof (induction ps)
  case (Cons p ps) then show ?case by (cases ps) (auto simp: join_Cons)
qed simp

lemma in_ancestors_iff:
  assumes "scope_ok s"
  shows "p \<in> set (ancestors s) \<longleftrightarrow> s = p \<or> (\<exists>r. s = p @ CHR ''/'' # r)"
proof
  let ?segs = "split_char CHR ''/'' s"
  assume "p \<in> set (ancestors s)"
  then obtain k where k: "k < length ?segs" and p: "p = join ''/'' (take (Suc k) ?segs)"
    by (auto simp: ancestors_eq[OF assms])
  show "s = p \<or> (\<exists>r. s = p @ CHR ''/'' # r)"
  proof (cases "Suc k = length ?segs")
    case False
    with k have "join ''/'' (take (Suc k) ?segs @ drop (Suc k) ?segs) =
        p @ ''/'' @ join ''/'' (drop (Suc k) ?segs)"
      unfolding p by (intro join_append) auto
    then have "s = p @ CHR ''/'' # join ''/'' (drop (Suc k) ?segs)" by simp
    then show ?thesis by blast
  qed (simp add: p)
next
  let ?segs = "split_char CHR ''/'' s"
  assume R: "s = p \<or> (\<exists>r. s = p @ CHR ''/'' # r)"
  let ?n = "length (split_char CHR ''/'' p)"
  have n: "0 < ?n" by simp
  from R have pre: "take ?n ?segs = split_char CHR ''/'' p" and le: "?n \<le> length ?segs"
    by (auto simp: split_char_append)
  have "p = join ''/'' (take (Suc (?n - 1)) ?segs)"
    using pre n by simp
  moreover have "?n - 1 < length ?segs" using n le by linarith
  ultimately show "p \<in> set (ancestors s)"
    unfolding ancestors_eq[OF assms] by force
qed

lemma term_matches_eq_matches:
  "(\<And>s. sc = Some s \<Longrightarrow> scope_ok s) \<Longrightarrow> term_matches f sc = matches f sc"
  by (cases sc) (auto simp: term_matches_def matches_def[of _ None] matches_iff in_ancestors_iff)

lemma descendants_filter_ok: "descendants_filter p = Inr f \<Longrightarrow> scope_ok (sf_path f) \<and> \<not> sf_exact f"
  by (auto simp: descendants_filter_def elim!: rbind_InrE dest: validate_scope_ok)

end
