(* ===== verification/Item.thy ===== *)
theory Item
  imports Scope
begin

text \<open>
  Validation of an item before ingest (\<open>singularmem-core/src/item.rs\<close>): the field checks in the
  order the code makes them, and the normalisation of tags (sorted, without duplicates) and scope.
\<close>

definition MAX_CONTENT_BYTES :: nat where "MAX_CONTENT_BYTES = 1048576"
definition MAX_TAG_BYTES :: nat where "MAX_TAG_BYTES = 64"
definition MAX_SOURCE_BYTES :: nat where "MAX_SOURCE_BYTES = 256"
definition MAX_EXTERNAL_ID_BYTES :: nat where "MAX_EXTERNAL_ID_BYTES = 512"

record validated =
  v_tags :: "string list"
  v_scope :: "string option"

definition contains_nul :: "string \<Rightarrow> bool" where
  "contains_nul s \<longleftrightarrow> CHR 0x00 \<in> set s"

definition check_tag :: "string \<Rightarrow> error + string" where
  "check_tag tag =
     (if tag = [] then Inl (Validation ''tags'' MustBeNonEmpty)
      else if length tag > MAX_TAG_BYTES
        then Inl (Validation ''tags'' (ExceedsCap MAX_TAG_BYTES (length tag)))
      else if contains_nul tag then Inl (Validation ''tags'' ContainsNul)
      else Inr tag)"

definition normalise_tags :: "string list \<Rightarrow> error + string list" where
  "normalise_tags ts = rbind (traverse check_tag ts) (\<lambda>ok. Inr (remdups_adj (sort ok)))"

definition check_content :: "string \<Rightarrow> error + unit" where
  "check_content c =
     (if c = [] then Inl (Validation ''content'' MustBeNonEmpty)
      else if length c > MAX_CONTENT_BYTES
        then Inl (Validation ''content'' (ExceedsCap MAX_CONTENT_BYTES (length c)))
      else Inr ())"

fun check_source :: "string option \<Rightarrow> error + unit" where
  "check_source None = Inr ()"
| "check_source (Some src) =
     (if length src > MAX_SOURCE_BYTES
        then Inl (Validation ''source'' (ExceedsCap MAX_SOURCE_BYTES (length src)))
      else Inr ())"

fun check_external_id :: "string option \<Rightarrow> error + unit" where
  "check_external_id None = Inr ()"
| "check_external_id (Some ext) =
     (if ext = [] then Inl (Validation ''external_id'' MustBeNonEmpty)
      else if length ext > MAX_EXTERNAL_ID_BYTES
        then Inl (Validation ''external_id'' (ExceedsCap MAX_EXTERNAL_ID_BYTES (length ext)))
      else if contains_nul ext then Inl (Validation ''external_id'' ContainsNul)
      else Inr ())"

definition check_metadata :: "json \<Rightarrow> error + unit" where
  "check_metadata m =
     (case m of JObject _ \<Rightarrow> Inr ()
      | _ \<Rightarrow> Inl (Validation ''metadata'' (MustBeObject (json_type_name m))))"

definition validate_item :: "new_item \<Rightarrow> error + validated" where
  "validate_item it =
     rbind (check_content (n_content it)) (\<lambda>_.
     rbind (check_source (n_source it)) (\<lambda>_.
     rbind (check_external_id (n_external_id it)) (\<lambda>_.
     rbind (check_metadata (n_metadata it)) (\<lambda>_.
     rbind (normalise_tags (n_tags it)) (\<lambda>ts.
     rbind (opt_traverse validate (n_scope it)) (\<lambda>sc.
       Inr \<lparr>v_tags = ts, v_scope = sc\<rparr>))))))"

section \<open>What a validated item satisfies\<close>

definition good_tag :: "string \<Rightarrow> bool" where
  "good_tag t \<longleftrightarrow> t \<noteq> [] \<and> length t \<le> 64 \<and> \<not> contains_nul t"

definition good_external_id :: "string \<Rightarrow> bool" where
  "good_external_id e \<longleftrightarrow> e \<noteq> [] \<and> length e \<le> 512 \<and> \<not> contains_nul e"

definition good_fields :: "new_item \<Rightarrow> bool" where
  "good_fields it \<longleftrightarrow>
     n_content it \<noteq> [] \<and> length (n_content it) \<le> 1048576 \<and>
     (\<forall>src. n_source it = Some src \<longrightarrow> length src \<le> 256) \<and>
     (\<forall>e. n_external_id it = Some e \<longrightarrow> good_external_id e) \<and>
     (\<exists>m. n_metadata it = JObject m)"

lemma check_tag_Inr: "check_tag t = Inr y \<longleftrightarrow> y = t \<and> good_tag t"
  by (auto simp: check_tag_def good_tag_def MAX_TAG_BYTES_def)

lemmas traverse_check_tag = traverse_check[of check_tag good_tag, OF check_tag_Inr]

lemma normalise_tags_Inr:
  "normalise_tags ts = Inr ys \<longleftrightarrow> list_all good_tag ts \<and> ys = remdups_adj (sort ts)"
proof -
  have "normalise_tags ts = Inr ys \<longleftrightarrow> (\<exists>ok. traverse check_tag ts = Inr ok \<and> ys = remdups_adj (sort ok))"
    by (cases "traverse check_tag ts") (auto simp: normalise_tags_def)
  then show ?thesis by (auto simp: traverse_check_tag)
qed

lemma check_content_Inr:
  "check_content c = Inr u \<longleftrightarrow> c \<noteq> [] \<and> length c \<le> 1048576"
  by (auto simp: check_content_def MAX_CONTENT_BYTES_def)

lemma check_source_Inr:
  "check_source s = Inr u \<longleftrightarrow> (\<forall>src. s = Some src \<longrightarrow> length src \<le> 256)"
  by (cases s) (auto simp: MAX_SOURCE_BYTES_def)

lemma check_external_id_Inr:
  "check_external_id x = Inr u \<longleftrightarrow> (\<forall>e. x = Some e \<longrightarrow> good_external_id e)"
  by (cases x) (auto simp: MAX_EXTERNAL_ID_BYTES_def good_external_id_def)

lemma check_metadata_Inr: "check_metadata m = Inr u \<longleftrightarrow> (\<exists>kvs. m = JObject kvs)"
  by (cases m) (auto simp: check_metadata_def)

lemmas check_Inr_iffs = check_content_Inr check_source_Inr check_external_id_Inr check_metadata_Inr

lemma validate_item_Inr:
  "validate_item it = Inr v \<longleftrightarrow>
     good_fields it \<and> list_all good_tag (n_tags it) \<and> v_tags v = remdups_adj (sort (n_tags it)) \<and>
     opt_traverse validate (n_scope it) = Inr (v_scope v)"
proof
  assume "validate_item it = Inr v"
  then obtain a b c d ts sc where
    "check_content (n_content it) = Inr a" "check_source (n_source it) = Inr b"
    "check_external_id (n_external_id it) = Inr c" "check_metadata (n_metadata it) = Inr d"
    "normalise_tags (n_tags it) = Inr ts" "opt_traverse validate (n_scope it) = Inr sc"
    "v = \<lparr>v_tags = ts, v_scope = sc\<rparr>"
    unfolding validate_item_def by (elim rbind_InrE) auto
  then show "good_fields it \<and> list_all good_tag (n_tags it) \<and>
      v_tags v = remdups_adj (sort (n_tags it)) \<and> opt_traverse validate (n_scope it) = Inr (v_scope v)"
    by (simp add: good_fields_def check_Inr_iffs normalise_tags_Inr)
next
  assume A: "good_fields it \<and> list_all good_tag (n_tags it) \<and>
      v_tags v = remdups_adj (sort (n_tags it)) \<and> opt_traverse validate (n_scope it) = Inr (v_scope v)"
  then have "check_content (n_content it) = Inr ()" "check_source (n_source it) = Inr ()"
    "check_external_id (n_external_id it) = Inr ()" "check_metadata (n_metadata it) = Inr ()"
    "normalise_tags (n_tags it) = Inr (v_tags v)"
    by (auto simp: good_fields_def check_Inr_iffs normalise_tags_Inr)
  with A show "validate_item it = Inr v"
    by (simp add: validate_item_def)
qed

lemma validate_item_tags:
  assumes "validate_item it = Inr v"
  shows "sorted (v_tags v)" "distinct (v_tags v)" "set (v_tags v) = set (n_tags it)"
    "list_all good_tag (v_tags v)"
  using assms by (auto simp: validate_item_Inr sorted_dedup list_all_iff)

lemma validate_item_scope:
  "validate_item it = Inr v \<Longrightarrow> v_scope v = Some s \<Longrightarrow> scope_ok s"
  by (auto simp: validate_item_Inr opt_traverse_Inr_Some dest: validate_scope_ok)

end
