(* ===== verification/Hook.thy ===== *)
theory Hook
  imports Core_Types
begin

text \<open>
  The index hook (\<open>singularmem-core/src/hook.rs\<close>): the extension point through which a store tells
  its search indexes about new items, and \<open>MultiHook\<close>, which fans each call out to several hooks.
  A hook is a client object, so its behaviour is a parameter: given the calls it has received so
  far it answers a call with an error or with success.
\<close>

datatype hook_call =
    OnIngest item
  | OnReindex item
  | OnIngestBatch "item list"
  | HookCommit

record index_hook =
  answer :: "hook_call list \<Rightarrow> hook_call \<Rightarrow> error option"

text \<open>
  \<open>run_all\<close>: call every member in order, keep the first error. The result lists the members'
  indexes in the order they were called.
\<close>

fun run_all_loop ::
  "nat \<Rightarrow> error option \<Rightarrow> index_hook list \<Rightarrow> hook_call list \<Rightarrow> hook_call \<Rightarrow> nat list \<times> error option"
where
  "run_all_loop i first_err [] log c = ([], first_err)"
| "run_all_loop i first_err (h # hs) log c =
     (let first_err' = (case answer h log c of
            None \<Rightarrow> first_err
          | Some e \<Rightarrow> (case first_err of None \<Rightarrow> Some e | Some e0 \<Rightarrow> Some e0));
          (called, res) = run_all_loop (Suc i) first_err' hs log c
      in (i # called, res))"

definition run_all :: "index_hook list \<Rightarrow> hook_call list \<Rightarrow> hook_call \<Rightarrow> nat list \<times> error option" where
  "run_all hs log c = run_all_loop 0 None hs log c"

text \<open>
  Since every member receives every call, whatever the others answered, the history of each member
  is the history of the composite.
\<close>

definition MultiHook :: "index_hook list \<Rightarrow> index_hook" where
  "MultiHook hs = \<lparr>answer = (\<lambda>log c. snd (run_all hs log c))\<rparr>"

text \<open>
  The trait's default \<open>on_ingest_batch\<close>: \<open>on_ingest\<close> per item, stopping at the first error. It
  returns the calls it made on the hook beside the outcome.
\<close>

fun default_on_ingest_batch ::
  "index_hook \<Rightarrow> hook_call list \<Rightarrow> item list \<Rightarrow> hook_call list \<times> error option"
where
  "default_on_ingest_batch h log [] = (log, None)"
| "default_on_ingest_batch h log (it # its) =
     (case answer h log (OnIngest it) of
        Some e \<Rightarrow> (log @ [OnIngest it], Some e)
      | None \<Rightarrow> default_on_ingest_batch h (log @ [OnIngest it]) its)"

section \<open>Correctness\<close>

lemma run_all_loop_eq:
  "run_all_loop i fe hs log c =
     ([i..<i + length hs],
      case fe of Some e \<Rightarrow> Some e
      | None \<Rightarrow> (case List.map_filter (\<lambda>h. answer h log c) hs of [] \<Rightarrow> None | e # _ \<Rightarrow> Some e))"
proof (induction hs arbitrary: i fe)
  case Nil then show ?case by (auto simp: map_filter_simps split: option.splits)
next
  case (Cons h hs)
  have "[i..<i + length (h # hs)] = i # [Suc i..<Suc i + length hs]"
    by (simp add: upt_conv_Cons del: upt_Suc)
  then show ?case
    by (auto simp: Cons.IH map_filter_simps Let_def split: option.splits)
qed

lemma run_all_calls_everyone: "fst (run_all hs log c) = [0..<length hs]"
  by (simp add: run_all_def run_all_loop_eq)

lemma run_all_first_error:
  "snd (run_all hs log c) =
     (case List.map_filter (\<lambda>h. answer h log c) hs of [] \<Rightarrow> None | e # _ \<Rightarrow> Some e)"
  by (simp add: run_all_def run_all_loop_eq)

lemma MultiHook_ok_iff:
  "answer (MultiHook hs) log c = None \<longleftrightarrow> (\<forall>h \<in> set hs. answer h log c = None)"
proof -
  have "List.map_filter (\<lambda>h. answer h log c) hs = [] \<longleftrightarrow> (\<forall>h \<in> set hs. answer h log c = None)"
    by (induction hs) (auto simp: map_filter_simps split: option.splits)
  then show ?thesis
    by (auto simp: MultiHook_def run_all_first_error split: list.splits)
qed

lemma default_batch_calls:
  "default_on_ingest_batch h log its = (log', res) \<Longrightarrow>
     \<exists>n \<le> length its. log' = log @ map OnIngest (take n its) \<and>
       (res = None \<longrightarrow> n = length its) \<and> (\<forall>e. res = Some e \<longrightarrow> 0 < n)"
proof (induction its arbitrary: log)
  case (Cons it its)
  show ?case
  proof (cases "answer h log (OnIngest it)")
    case None
    with Cons obtain n where "n \<le> length its" "log' = (log @ [OnIngest it]) @ map OnIngest (take n its)"
      "res = None \<longrightarrow> n = length its" "\<forall>e. res = Some e \<longrightarrow> 0 < n"
      by fastforce
    then show ?thesis by (intro exI[of _ "Suc n"]) auto
  next
    case (Some e)
    with Cons.prems show ?thesis by (intro exI[of _ 1]) auto
  qed
qed auto

end
