(* ===== verification/Db.thy ===== *)
theory Db
  imports Item Hook
begin

text \<open>
  The store's state and the way its operations run. The SQLite file is modelled by its tables
  (\<open>schema.rs\<close>, format 4) as lists of rows in insertion order, with the constraints of the DDL checked by
  the statements that can violate them. SQLite can fail at any statement; which statements fail is
  an input, the fault script \<open>faults\<close>, consumed one entry per statement. Clock, random source,
  index hook and the third-party functions the code calls are part of the state as parameters.
\<close>

section \<open>Tables\<close>

text \<open>
  Id columns hold ULIDs; their text form is the \<open>ulid\<close> crate's, whose printing and parsing are
  inverse and keep the order. Time columns hold the text the code stores, since their order is
  the order of that text. The metadata column holds the JSON value its text denotes.
\<close>

record item_row =
  r_id :: ulid
  r_content :: string
  r_created_at :: string
  r_supersedes :: "ulid option"
  r_source :: "string option"
  r_metadata :: json
  r_external_id :: "string option"
  r_scope :: "string option"

record entity_row =
  e_id :: ulid
  e_name :: string
  e_normalised_name :: string
  e_kind :: "string option"
  e_created_at :: string

record fact_row =
  f_id :: ulid
  f_subject_id :: ulid
  f_predicate :: string
  f_object_id :: "ulid option"
  f_object_value :: "string option"
  f_valid_from :: "string option"
  f_valid_to :: "string option"
  f_confidence :: f32
  f_source_item_id :: "ulid option"
  f_scope :: "string option"
  f_supersedes :: "ulid option"
  f_recorded_at :: string

record database =
  items :: "item_row list"
  item_tags :: "(ulid \<times> string) list"
  entities :: "entity_row list"
  facts :: "fact_row list"

definition empty_db :: database where
  "empty_db = \<lparr>items = [], item_tags = [], entities = [], facts = []\<rparr>"

section \<open>Third-party functions and the store\<close>

text \<open>
  \<open>as_millisecond\<close>, \<open>ts_display\<close>, \<open>ts_parse\<close>, \<open>date_parse\<close> and \<open>ts_to_sql\<close> are \<open>jiff\<close>'s
  (\<open>Timestamp::as_millisecond\<close>, its \<open>Display\<close> and \<open>FromStr\<close>, a civil date at midnight UTC, and
  \<open>strftime\<close> with the pattern of \<open>graph/time.rs\<close>); \<open>ulid_from_parts\<close> is \<open>Ulid::from_parts\<close>;
  \<open>nfc\<close> is the \<open>unicode_normalization\<close> crate's NFC and \<open>to_lowercase\<close> the Unicode table behind
  \<open>str::to_lowercase\<close>; \<open>scan_items\<close> and \<open>scan_facts\<close> give the order in which SQLite visits a table's
  rows, which SQL leaves open.
\<close>

record externals =
  as_millisecond :: "timestamp \<Rightarrow> int"
  ulid_from_parts :: "nat \<Rightarrow> nat \<Rightarrow> ulid"
  ts_display :: "timestamp \<Rightarrow> string"
  ts_parse :: "string \<Rightarrow> timestamp option"
  date_parse :: "string \<Rightarrow> timestamp option"
  ts_to_sql :: "timestamp \<Rightarrow> string"
  nfc :: "string \<Rightarrow> string"
  to_lowercase :: "string \<Rightarrow> string"
  scan_items :: "item_row list \<Rightarrow> item_row list"
  scan_facts :: "fact_row list \<Rightarrow> fact_row list"

record store =
  db :: database
  faults :: "bool list"
  clock :: "nat \<Rightarrow> timestamp"
  ticks :: nat
  rng :: "nat \<Rightarrow> nat"
  draws :: nat
  read_only :: bool
  hook :: "index_hook option"
  hook_log :: "hook_call list"
  ext :: externals

section \<open>Operations\<close>

type_synonym 'a op = "store \<Rightarrow> (error + 'a) \<times> store"

definition ret :: "'a \<Rightarrow> 'a op" where
  "ret x s = (Inr x, s)"

definition fail :: "error \<Rightarrow> 'a op" where
  "fail e s = (Inl e, s)"

definition lift :: "error + 'a \<Rightarrow> 'a op" where
  "lift r s = (r, s)"

definition gets :: "(store \<Rightarrow> 'a) \<Rightarrow> 'a op" where
  "gets f s = (Inr (f s), s)"

definition bindM :: "'a op \<Rightarrow> ('a \<Rightarrow> 'b op) \<Rightarrow> 'b op" where
  "bindM m k s = (case m s of (Inl e, s') \<Rightarrow> (Inl e, s') | (Inr x, s') \<Rightarrow> k x s')"

fun mapM :: "('a \<Rightarrow> 'b op) \<Rightarrow> 'a list \<Rightarrow> 'b list op" where
  "mapM f [] = ret []"
| "mapM f (x # xs) = bindM (f x) (\<lambda>y. bindM (mapM f xs) (\<lambda>ys. ret (y # ys)))"

text \<open>One SQL statement: it fails with \<open>Error::Sqlite\<close> when the fault script says so.\<close>

definition sql :: "string \<Rightarrow> unit op" where
  "sql ctx s =
     (case faults s of
        [] \<Rightarrow> (Inr (), s)
      | b # bs \<Rightarrow> ((if b then Inl (Sqlite ctx) else Inr ()), s\<lparr>faults := bs\<rparr>))"

definition select :: "string \<Rightarrow> (database \<Rightarrow> 'a) \<Rightarrow> 'a op" where
  "select ctx q = bindM (sql ctx) (\<lambda>_. gets (\<lambda>s. q (db s)))"

text \<open>A writing statement; a violated constraint is an error and leaves the tables unchanged.\<close>

definition exec :: "string \<Rightarrow> (database \<Rightarrow> error + database \<times> 'a) \<Rightarrow> 'a op" where
  "exec ctx f = bindM (sql ctx) (\<lambda>_ s.
     case f (db s) of Inl e \<Rightarrow> (Inl e, s) | Inr (d, x) \<Rightarrow> (Inr x, s\<lparr>db := d\<rparr>))"

text \<open>The deferred foreign keys, checked when a transaction commits.\<close>

definition deferred_fks_ok :: "database \<Rightarrow> bool" where
  "deferred_fks_ok d \<longleftrightarrow>
     (\<forall>r \<in> set (items d). \<forall>t. r_supersedes r = Some t \<longrightarrow> t \<in> r_id ` set (items d)) \<and>
     (\<forall>f \<in> set (facts d). (\<forall>t. f_source_item_id f = Some t \<longrightarrow> t \<in> r_id ` set (items d)) \<and>
        (\<forall>t. f_supersedes f = Some t \<longrightarrow> t \<in> f_id ` set (facts d)))"

definition commit_tx :: "string \<Rightarrow> unit op" where
  "commit_tx ctx = bindM (gets (\<lambda>s. deferred_fks_ok (db s)))
     (\<lambda>ok. if ok then sql ctx else fail (Sqlite ctx))"

text \<open>
  \<open>conn.transaction()\<close>, the body, \<open>tx.commit()\<close>. A transaction dropped by an error return is rolled
  back: the tables are those of its start.
\<close>

definition transaction :: "string \<Rightarrow> string \<Rightarrow> 'a op \<Rightarrow> 'a op" where
  "transaction begin_ctx commit_ctx body s =
     (case sql begin_ctx s of
        (Inl e, s1) \<Rightarrow> (Inl e, s1)
      | (Inr _, s1) \<Rightarrow>
          (case bindM body (\<lambda>x. bindM (commit_tx commit_ctx) (\<lambda>_. ret x)) s1 of
             (Inl e, s2) \<Rightarrow> (Inl e, s2\<lparr>db := db s1\<rparr>)
           | (Inr x, s2) \<Rightarrow> (Inr x, s2)))"

text \<open>\<open>Store::assert_writable\<close>, the injected clock, and \<open>mint_raw_ulid\<close> (\<open>ingest.rs\<close>).\<close>

definition assert_writable :: "string \<Rightarrow> unit op" where
  "assert_writable opn s = (if read_only s then (Inl (ReadOnly opn), s) else (Inr (), s))"

definition now :: "timestamp op" where
  "now s = (Inr (clock s (ticks s)), s\<lparr>ticks := Suc (ticks s)\<rparr>)"

definition mint_raw_ulid :: "timestamp \<Rightarrow> ulid op" where
  "mint_raw_ulid t s =
     (let ms = as_millisecond (ext s) t
      in if ms < 0 then (Inl (Validation ''internal:timestamp'' ClockBeforeEpoch), s)
         else (Inr (ulid_from_parts (ext s) (nat ms) (rng s (draws s))), s\<lparr>draws := Suc (draws s)\<rparr>))"

text \<open>A call of the attached hook: recorded, answered, never an error of the operation itself.\<close>

definition call_hook :: "index_hook \<Rightarrow> hook_call \<Rightarrow> error option op" where
  "call_hook h c s = (Inr (answer h (hook_log s) c), s\<lparr>hook_log := hook_log s @ [c]\<rparr>)"

section \<open>Reasoning about operations\<close>

text \<open>
  \<open>triple P m Q E\<close>: from a state where \<open>P\<close> holds, \<open>m\<close> either succeeds with \<open>Q\<close> of its result and
  the new state, or fails with \<open>E\<close> of the error and the new state.
\<close>

definition triple ::
  "(store \<Rightarrow> bool) \<Rightarrow> 'a op \<Rightarrow> ('a \<Rightarrow> store \<Rightarrow> bool) \<Rightarrow> (error \<Rightarrow> store \<Rightarrow> bool) \<Rightarrow> bool"
where
  "triple P m Q E \<longleftrightarrow>
     (\<forall>s. P s \<longrightarrow> (case m s of (Inr x, s') \<Rightarrow> Q x s' | (Inl e, s') \<Rightarrow> E e s'))"

named_theorems op_simps "evaluation of the operations' building blocks"
named_theorems keeps_intros "operations that leave a part of the state unchanged"

lemmas op_defs = ret_def fail_def lift_def gets_def

lemma bindM_simps [op_simps]:
  "m s = (Inl e, s') \<Longrightarrow> bindM m k s = (Inl e, s')"
  "m s = (Inr x, s') \<Longrightarrow> bindM m k s = k x s'"
  by (simp_all add: bindM_def)

lemma op_step_simps [op_simps]:
  "ret x s = (Inr x, s)" "fail e s = (Inl e, s)" "lift r s = (r, s)" "gets f s = (Inr (f s), s)"
  by (simp_all add: op_defs)

lemma bindM_InrE:
  assumes "bindM m k s = (Inr y, t)" obtains x s' where "m s = (Inr x, s')" "k x s' = (Inr y, t)"
  using assms by (auto simp: bindM_def split: prod.splits sum.splits)

lemma bindM_InlE:
  assumes "bindM m k s = (Inl e, t)"
  obtains "m s = (Inl e, t)" | x s' where "m s = (Inr x, s')" "k x s' = (Inl e, t)"
  using assms by (auto simp: bindM_def split: prod.splits sum.splits)

lemma tripleI:
  assumes "\<And>s x s'. P s \<Longrightarrow> m s = (Inr x, s') \<Longrightarrow> Q x s'"
    and "\<And>s e s'. P s \<Longrightarrow> m s = (Inl e, s') \<Longrightarrow> E e s'"
  shows "triple P m Q E"
  using assms by (auto simp: triple_def split: prod.splits sum.splits)

lemma triple_Inr: "triple P m Q E \<Longrightarrow> P s \<Longrightarrow> m s = (Inr x, s') \<Longrightarrow> Q x s'"
  by (auto simp: triple_def split: prod.splits sum.splits)

lemma triple_Inl: "triple P m Q E \<Longrightarrow> P s \<Longrightarrow> m s = (Inl e, s') \<Longrightarrow> E e s'"
  by (auto simp: triple_def split: prod.splits sum.splits)

lemma triple_bind:
  assumes "triple P m R E" "\<And>x. triple (R x) (k x) Q E"
  shows "triple P (bindM m k) Q E"
proof (rule tripleI)
  fix s x s' assume "P s" "bindM m k s = (Inr x, s')"
  then show "Q x s'" using assms by (blast elim: bindM_InrE dest: triple_Inr)
next
  fix s e s' assume "P s" "bindM m k s = (Inl e, s')"
  then show "E e s'" using assms by (blast elim: bindM_InlE dest: triple_Inr triple_Inl)
qed

lemma triple_weaken:
  "triple P m Q E \<Longrightarrow> (\<And>s. P' s \<Longrightarrow> P s) \<Longrightarrow> (\<And>x s. Q x s \<Longrightarrow> Q' x s) \<Longrightarrow>
   (\<And>e s. E e s \<Longrightarrow> E' e s) \<Longrightarrow> triple P' m Q' E'"
  by (auto simp: triple_def split: prod.splits sum.splits) blast+

subsection \<open>Frames\<close>

text \<open>\<open>keeps f m\<close>: whatever \<open>m\<close> does, it leaves \<open>f\<close> of the state unchanged.\<close>

definition keeps :: "(store \<Rightarrow> 'b) \<Rightarrow> 'a op \<Rightarrow> bool" where
  "keeps f m \<longleftrightarrow> (\<forall>s. f (snd (m s)) = f s)"

lemma keepsD: "keeps f m \<Longrightarrow> m s = (r, s') \<Longrightarrow> f s' = f s"
  by (metis keeps_def snd_conv)

lemma keeps_basic [keeps_intros]:
  "keeps f (ret x)" "keeps f (fail e)" "keeps f (lift r)" "keeps f (gets g)"
  "keeps f (assert_writable opn)"
  by (auto simp: keeps_def op_defs assert_writable_def)

lemma keeps_bind [keeps_intros]:
  "keeps f m \<Longrightarrow> (\<And>x. keeps f (k x)) \<Longrightarrow> keeps f (bindM m k)"
  by (auto simp: keeps_def bindM_def split: prod.splits sum.splits) (metis snd_conv)+

lemma keeps_mapM [keeps_intros]: "(\<And>x. keeps f (g x)) \<Longrightarrow> keeps f (mapM g xs)"
  by (induction xs) (auto intro!: keeps_intros)

lemma keeps_if [keeps_intros]: "keeps f a \<Longrightarrow> keeps f b \<Longrightarrow> keeps f (if c then a else b)"
  by simp

lemma keeps_case_option [keeps_intros]:
  "keeps f a \<Longrightarrow> (\<And>x. keeps f (b x)) \<Longrightarrow> keeps f (case z of None \<Rightarrow> a | Some x \<Rightarrow> b x)"
  by (cases z) auto

lemma keeps_sql [keeps_intros]:
  "(\<And>s bs. f (s\<lparr>faults := bs\<rparr>) = f s) \<Longrightarrow> keeps f (sql ctx)"
  by (auto simp: keeps_def sql_def split: list.splits)

lemma keeps_select [keeps_intros]:
  "(\<And>s bs. f (s\<lparr>faults := bs\<rparr>) = f s) \<Longrightarrow> keeps f (select ctx q)"
  unfolding select_def by (intro keeps_intros)

lemma keeps_exec [keeps_intros]:
  assumes "\<And>s bs. f (s\<lparr>faults := bs\<rparr>) = f s" "\<And>s d. f (s\<lparr>db := d\<rparr>) = f s"
  shows "keeps f (exec ctx g)"
  unfolding exec_def
  by (intro keeps_intros assms(1)) (auto simp: keeps_def assms(2) split: sum.splits prod.splits)

lemma keeps_now [keeps_intros]: "(\<And>s n. f (s\<lparr>ticks := n\<rparr>) = f s) \<Longrightarrow> keeps f now"
  by (auto simp: keeps_def now_def)

lemma keeps_mint [keeps_intros]:
  "(\<And>s n. f (s\<lparr>draws := n\<rparr>) = f s) \<Longrightarrow> keeps f (mint_raw_ulid t)"
  by (auto simp: keeps_def mint_raw_ulid_def Let_def)

lemma keeps_call_hook [keeps_intros]:
  "(\<And>s n. f (s\<lparr>hook_log := n\<rparr>) = f s) \<Longrightarrow> keeps f (call_hook h c)"
  by (auto simp: keeps_def call_hook_def)

lemma keeps_commit [keeps_intros]:
  "(\<And>s bs. f (s\<lparr>faults := bs\<rparr>) = f s) \<Longrightarrow> keeps f (commit_tx ctx)"
  unfolding commit_tx_def by (intro keeps_intros)

lemma keeps_transaction [keeps_intros]:
  assumes "keeps f body" "\<And>s bs. f (s\<lparr>faults := bs\<rparr>) = f s" "\<And>s d. f (s\<lparr>db := d\<rparr>) = f s"
  shows "keeps f (transaction b c body)"
proof -
  have k1: "keeps f (sql b)" by (intro keeps_intros assms)
  have k2: "keeps f (bindM body (\<lambda>x. bindM (commit_tx c) (\<lambda>_. ret x)))"
    by (intro keeps_intros assms)
  show ?thesis
    by (auto simp: keeps_def transaction_def assms(3) split: prod.splits sum.splits
        dest!: keepsD[OF k1] keepsD[OF k2])
qed

lemma keeps_comp: "keeps f m \<Longrightarrow> keeps (\<lambda>s. g (f s)) m"
  by (simp add: keeps_def)

subsection \<open>Transactions are atomic\<close>

definition atomic :: "'a op \<Rightarrow> bool" where
  "atomic m \<longleftrightarrow> (\<forall>s e s'. m s = (Inl e, s') \<longrightarrow> db s' = db s)"

lemma sql_db [simp]: "db (snd (sql c s)) = db s"
  by (auto simp: sql_def split: list.splits)

lemma sql_result_db: "sql c s = (r, s') \<Longrightarrow> db s' = db s"
  by (metis sql_db snd_conv)

lemma atomic_transaction: "atomic (transaction b c body)"
  by (auto simp: atomic_def transaction_def split: prod.splits sum.splits dest: sql_result_db)

lemma atomic_of_keeps: "keeps db m \<Longrightarrow> atomic m"
  by (auto simp: atomic_def dest: keepsD)

lemma atomic_bind_keeps:
  assumes "keeps db m" "\<And>x. atomic (k x)" shows "atomic (bindM m k)"
  using assms by (auto simp: atomic_def elim!: bindM_InlE dest!: keepsD[OF assms(1)])

text \<open>After the writing step only steps that cannot fail may follow.\<close>

definition infallible :: "'a op \<Rightarrow> bool" where
  "infallible m \<longleftrightarrow> (\<forall>s. \<exists>x s'. m s = (Inr x, s'))"

lemma infallible_intros:
  "infallible (ret x)" "infallible (gets g)" "infallible (call_hook h c)"
  "infallible m \<Longrightarrow> (\<And>x. infallible (k x)) \<Longrightarrow> infallible (bindM m k)"
  by (auto simp: infallible_def op_defs call_hook_def bindM_def) (metis (mono_tags) case_prod_conv old.sum.simps(6))

lemma atomic_bind_infallible:
  assumes "atomic m" "\<And>x. infallible (k x)" shows "atomic (bindM m k)"
proof -
  have False if "k x s = (Inl e, s')" for x s e s'
    using assms(2)[of x] that by (metis Inl_Inr_False Pair_inject infallible_def)
  then show ?thesis using assms(1) by (auto simp: atomic_def elim!: bindM_InlE)
qed

text \<open>What a successful transaction did: its body ran and the commit found no violation.\<close>

lemma transaction_InrE:
  assumes "transaction b c body s = (Inr x, s')"
  obtains s1 s2 where "sql b s = (Inr (), s1)" "body s1 = (Inr x, s2)"
    "deferred_fks_ok (db s2)" "sql c s2 = (Inr (), s')"
  using assms
  by (auto simp: transaction_def commit_tx_def op_defs split: prod.splits sum.splits if_splits
      elim!: bindM_InrE)

lemma exec_InrE:
  assumes "exec ctx f s = (Inr x, s')"
  obtains s1 d where "sql ctx s = (Inr (), s1)" "f (db s) = Inr (d, x)" "s' = s1\<lparr>db := d\<rparr>"
  using assms unfolding exec_def
  by (elim bindM_InrE) (auto dest: sql_result_db split: sum.splits prod.splits)

lemma select_InrE:
  assumes "select ctx q s = (Inr x, s')"
  obtains "sql ctx s = (Inr (), s')" "x = q (db s)"
  using assms unfolding select_def
  by (elim bindM_InrE) (auto simp: op_defs dest: sql_result_db)

lemma sql_Inr: "sql c s = (Inr u, s') \<Longrightarrow> s' = s\<lparr>faults := tl (faults s)\<rparr>"
  by (auto simp: sql_def split: list.splits if_splits)

lemma sql_no_faults [op_simps]: "faults s = [] \<Longrightarrow> sql c s = (Inr (), s)"
  by (simp add: sql_def)

lemma select_no_faults [op_simps]: "faults s = [] \<Longrightarrow> select c q s = (Inr (q (db s)), s)"
  by (simp add: select_def bindM_def sql_no_faults gets_def)

lemma exec_no_faults [op_simps]:
  "faults s = [] \<Longrightarrow> exec c f s =
     (case f (db s) of Inl e \<Rightarrow> (Inl e, s) | Inr (d, x) \<Rightarrow> (Inr x, s\<lparr>db := d\<rparr>))"
  by (simp add: exec_def bindM_def sql_no_faults)

subsection \<open>Operations that do not see the index hook\<close>

text \<open>
  \<open>hook_blind m\<close>: \<open>m\<close> gives the same result and the same state whichever hook is attached and
  whatever it was told before.
\<close>

definition with_hook :: "index_hook option \<Rightarrow> hook_call list \<Rightarrow> store \<Rightarrow> store" where
  "with_hook h l s = s\<lparr>hook := h, hook_log := l\<rparr>"

definition hook_blind :: "'a op \<Rightarrow> bool" where
  "hook_blind m \<longleftrightarrow> (\<forall>s h l. m (with_hook h l s) = apsnd (with_hook h l) (m s))"

named_theorems blind_intros "operations that do not see the hook"

lemma with_hook_simps [simp]:
  "db (with_hook h l s) = db s" "faults (with_hook h l s) = faults s" "ext (with_hook h l s) = ext s"
  "clock (with_hook h l s) = clock s" "ticks (with_hook h l s) = ticks s"
  "rng (with_hook h l s) = rng s" "draws (with_hook h l s) = draws s"
  "read_only (with_hook h l s) = read_only s" "hook (with_hook h l s) = h"
  "hook_log (with_hook h l s) = l"
  by (simp_all add: with_hook_def)

lemma with_hook_update [simp]:
  "(with_hook h l s)\<lparr>faults := b\<rparr> = with_hook h l (s\<lparr>faults := b\<rparr>)"
  "(with_hook h l s)\<lparr>db := d\<rparr> = with_hook h l (s\<lparr>db := d\<rparr>)"
  "(with_hook h l s)\<lparr>ticks := n\<rparr> = with_hook h l (s\<lparr>ticks := n\<rparr>)"
  "(with_hook h l s)\<lparr>draws := n\<rparr> = with_hook h l (s\<lparr>draws := n\<rparr>)"
  by (simp_all add: with_hook_def)

lemma blind_basic [blind_intros]:
  "hook_blind (ret x)" "hook_blind (fail e)" "hook_blind (lift r)" "hook_blind (assert_writable c)"
  "hook_blind (sql c)" "hook_blind now" "hook_blind (mint_raw_ulid t)"
  by (auto simp: hook_blind_def op_defs assert_writable_def sql_def now_def mint_raw_ulid_def Let_def
      split: list.splits)

lemma blind_gets [blind_intros]:
  "(\<And>s h l. f (with_hook h l s) = f s) \<Longrightarrow> hook_blind (gets f)"
  by (simp add: hook_blind_def gets_def)

lemma blind_bind [blind_intros]:
  "hook_blind m \<Longrightarrow> (\<And>x. hook_blind (k x)) \<Longrightarrow> hook_blind (bindM m k)"
  by (auto simp: hook_blind_def bindM_def split: prod.splits sum.splits)

lemma blind_mapM [blind_intros]: "(\<And>x. hook_blind (f x)) \<Longrightarrow> hook_blind (mapM f xs)"
  by (induction xs) (auto intro!: blind_intros)

lemma blind_if [blind_intros]:
  "hook_blind a \<Longrightarrow> hook_blind b \<Longrightarrow> hook_blind (if c then a else b)"
  by simp

lemma blind_case_option [blind_intros]:
  "hook_blind a \<Longrightarrow> (\<And>x. hook_blind (b x)) \<Longrightarrow> hook_blind (case z of None \<Rightarrow> a | Some x \<Rightarrow> b x)"
  by (cases z) auto

lemma blind_select [blind_intros]: "hook_blind (select c q)"
  unfolding select_def by (intro blind_intros) simp

lemma blind_exec [blind_intros]: "hook_blind (exec c f)"
  unfolding exec_def
  by (intro blind_intros) (auto simp: hook_blind_def split: sum.splits prod.splits)

lemma blind_transaction [blind_intros]:
  assumes "hook_blind body" shows "hook_blind (transaction b c body)"
proof -
  have 1: "hook_blind (sql b)" by (intro blind_intros)
  have 2: "hook_blind (bindM body (\<lambda>x. bindM (commit_tx c) (\<lambda>_. ret x)))"
    unfolding commit_tx_def by (intro blind_intros assms) simp
  show ?thesis
    using 1 2 by (auto simp: hook_blind_def transaction_def split: prod.splits sum.splits)
qed

section \<open>The contract of a writing operation\<close>

text \<open>
  Every public write of the store refuses a read-only handle before anything else, leaves the
  handle's configuration alone and keeps the invariant of its tables, on success and on error;
  the transactional ones are atomic as well. Clients prove about a history of calls what they need
  from these laws alone.
\<close>

definition handle :: "store \<Rightarrow> externals \<times> bool \<times> index_hook option \<times> (nat \<Rightarrow> timestamp) \<times> (nat \<Rightarrow> nat)" where
  "handle s = (ext s, read_only s, hook s, clock s, rng s)"

lemma handle_updates [simp]:
  "handle (s\<lparr>faults := b\<rparr>) = handle s" "handle (s\<lparr>db := d\<rparr>) = handle s"
  "handle (s\<lparr>ticks := n\<rparr>) = handle s" "handle (s\<lparr>draws := n\<rparr>) = handle s"
  "handle (s\<lparr>hook_log := l\<rparr>) = handle s"
  by (simp_all add: handle_def)

fun run_calls :: "('i \<Rightarrow> 'a op) \<Rightarrow> 'i list \<Rightarrow> store \<Rightarrow> (error + 'a) list \<times> store" where
  "run_calls run [] s = ([], s)"
| "run_calls run (i # is) s =
     (case run i s of (r, s1) \<Rightarrow> case run_calls run is s1 of (rs, s2) \<Rightarrow> (r # rs, s2))"

locale guarded_write =
  fixes run :: "'i \<Rightarrow> 'a op" and opn :: string and inv :: "externals \<Rightarrow> database \<Rightarrow> bool"
  assumes refuses: "read_only s \<Longrightarrow> run i s = (Inl (ReadOnly opn), s)"
    and keeps_handle: "keeps handle (run i)"
    and keeps_inv: "inv (ext s) (db s) \<Longrightarrow> run i s = (r, s') \<Longrightarrow> inv (ext s') (db s')"
begin

lemma handle_run_calls: "run_calls run is s = (rs, s') \<Longrightarrow> handle s' = handle s"
proof (induction "is" arbitrary: s rs)
  case (Cons i js)
  then show ?case using keeps_handle[of i] by (auto split: prod.splits dest: keepsD)
qed simp

lemma inv_run_calls: "inv (ext s) (db s) \<Longrightarrow> run_calls run is s = (rs, s') \<Longrightarrow> inv (ext s') (db s')"
  by (induction "is" arbitrary: s rs) (auto split: prod.splits dest: keeps_inv)

lemma refused_calls:
  "read_only s \<Longrightarrow> run_calls run is s = (map (\<lambda>_. Inl (ReadOnly opn)) is, s)"
  by (induction "is") (auto simp: refuses)

end

locale atomic_write = guarded_write +
  assumes atomic: "atomic (run i)"
begin

text \<open>A history in which every call failed left the tables as they were.\<close>

lemma failed_calls:
  "run_calls run is s = (rs, s') \<Longrightarrow> (\<And>r. r \<in> set rs \<Longrightarrow> \<exists>e. r = Inl e) \<Longrightarrow> db s' = db s"
proof (induction "is" arbitrary: s rs)
  case (Cons i js)
  then obtain e s1 rs' where 1: "run i s = (Inl e, s1)" "run_calls run js s1 = (rs', s')" "rs = Inl e # rs'"
    by (auto split: prod.splits) (metis list.set_intros(1))
  have "db s' = db s1" using Cons 1 by auto
  then show ?case using 1 atomic[of i] by (auto simp: atomic_def)
qed simp

end

section \<open>A concrete store\<close>

text \<open>
  One concrete choice of the third-party functions (times written in unary, ids from the
  millisecond and the draw) and a fresh store on it, for evaluating the operations on examples.
\<close>

definition prints_times :: "externals \<Rightarrow> bool" where
  "prints_times x \<longleftrightarrow> (\<forall>t. ts_parse x (ts_display x t) = Some t)"

definition unary_time :: "timestamp \<Rightarrow> string" where
  "unary_time t = replicate (nat (- t)) (CHR ''!'') @ CHR ''~'' # replicate (nat t) (CHR ''1'')"

definition time_of_unary :: "string \<Rightarrow> timestamp option" where
  "time_of_unary s = (let neg = length (takeWhile (\<lambda>c. c = CHR ''!'') s)
     in if neg = length s then None else Some (int (length s - neg - 1) - int neg))"

definition sample_ext :: externals where
  "sample_ext = \<lparr>as_millisecond = (\<lambda>t. t), ulid_from_parts = (\<lambda>ms r. of_nat (16 * ms + r)),
     ts_display = unary_time, ts_parse = time_of_unary, date_parse = (\<lambda>_. None),
     ts_to_sql = unary_time, nfc = (\<lambda>s. s), to_lowercase = to_ascii_lowercase,
     scan_items = (\<lambda>xs. xs), scan_facts = (\<lambda>xs. xs)\<rparr>"

definition sample_store :: store where
  "sample_store = \<lparr>db = empty_db, faults = [], clock = int, ticks = 3, rng = (\<lambda>n. n), draws = 0,
     read_only = False, hook = None, hook_log = [], ext = sample_ext\<rparr>"

lemma sample_simps [simp]:
  "db sample_store = empty_db" "faults sample_store = []" "ext sample_store = sample_ext"
  "read_only sample_store = False"
  by (simp_all add: sample_store_def)

lemma time_of_unary_time [simp]: "time_of_unary (unary_time t) = Some t"
proof -
  have "takeWhile (\<lambda>c. c = CHR ''!'') (unary_time t) = replicate (nat (- t)) (CHR ''!'')"
    by (simp add: unary_time_def takeWhile_append)
  then show ?thesis by (simp add: time_of_unary_def Let_def) (simp add: unary_time_def)
qed

lemma trim_unary_time [simp]: "trim (unary_time t) = unary_time t"
proof -
  have s: "set (unary_time t) \<subseteq> {CHR ''!'', CHR ''~'', CHR ''1''}" by (auto simp: unary_time_def)
  have n: "\<not> set w \<subseteq> {CHR ''!'', CHR ''~'', CHR ''1''}" if "w \<in> set ws_utf8" for w
    using that by (auto simp: ws_utf8_def)
  have "\<not> prefix w (unary_time t) \<and> \<not> suffix w (unary_time t)" if "w \<in> set ws_utf8" for w
    using n[OF that] s set_mono_prefix[of w "unary_time t"] set_mono_suffix[of w "unary_time t"] by blast
  then show ?thesis by (intro trim_id) (simp_all add: ws_len_0_iff ws_len_end_0_iff)
qed

lemma replicate_less:
  "m < n \<Longrightarrow> c < d \<Longrightarrow> replicate n c @ d # xs < replicate m c @ (d :: char) # ys"
proof (induction m arbitrary: n)
  case 0 then show ?case by (cases n) auto
next
  case (Suc m) then show ?case by (cases n) auto
qed

lemma replicate_prefix_less: "m < n \<Longrightarrow> replicate m (c :: char) < replicate n c"
proof (induction m arbitrary: n)
  case 0 then show ?case by (cases n) auto
next
  case (Suc m) then show ?case by (cases n) auto
qed

lemma unary_time_less: "a < b \<Longrightarrow> unary_time a < unary_time b"
proof (cases "a < 0")
  case True
  assume "a < b"
  then have "nat (- b) < nat (- a)" using True by simp
  then show ?thesis unfolding unary_time_def by (rule replicate_less) (simp add: less_char_def)
next
  case False
  assume "a < b"
  then have "nat a < nat b" using False by simp
  then show ?thesis using False \<open>a < b\<close> by (simp add: unary_time_def replicate_prefix_less)
qed

lemma unary_time_le [simp]: "unary_time a \<le> unary_time b \<longleftrightarrow> a \<le> b"
  using unary_time_less[of a b] unary_time_less[of b a] by (cases a b rule: linorder_cases) auto

lemma prints_times_sample [simp]: "prints_times sample_ext"
  by (simp add: prints_times_def sample_ext_def)

lemma sample_ext_simps [simp]:
  "ts_to_sql sample_ext = unary_time" "ts_parse sample_ext = time_of_unary"
  "nfc sample_ext = (\<lambda>s. s)" "to_lowercase sample_ext = to_ascii_lowercase"
  "scan_facts sample_ext = (\<lambda>rs. rs)"
  by (simp_all add: sample_ext_def)

end
