(* ===== verification/Store.thy ===== *)
theory Store
  imports Db
begin

text \<open>
  Item storage (\<open>singularmem-core/src/ingest.rs\<close>, \<open>Store::get\<close> of \<open>query.rs\<close>): \<open>ingest\<close>,
  \<open>ingest_many\<close>, \<open>ingest_replacing\<close>, \<open>set_scope\<close>, with their transactions and index-hook calls;
  the table invariant \<open>wf_items\<close> and the exact effect of every operation.
\<close>

section \<open>Statements on the item tables\<close>

text \<open>
  SQLite's \<open>length\<close> of a text value: its characters before the first NUL (the \<open>CHECK\<close>s on
  \<open>items.content\<close> count with it). A UTF-8 character is counted at its first byte.
\<close>

definition sql_length :: "string \<Rightarrow> nat" where
  "sql_length s = length (filter (\<lambda>c. \<not> is_continuation c) (takeWhile (\<lambda>c. c \<noteq> CHR 0x00) s))"

definition item_ids :: "database \<Rightarrow> ulid set" where
  "item_ids d = r_id ` set (items d)"

definition ext_ids :: "database \<Rightarrow> string list" where
  "ext_ids d = List.map_filter r_external_id (items d)"

text \<open>
  How deeply arrays and objects are nested in a JSON value. SQLite's \<open>json_valid\<close> refuses a text nested
  deeper than its \<open>JSON_MAX_DEPTH\<close> of 1000, and \<open>serde_json::from_str\<close>, whose recursion limit is 128,
  refuses one nested 128 deep; \<open>serde_json::to_string\<close> has no limit.
\<close>

fun json_nesting :: "json \<Rightarrow> nat" where
  "json_nesting (JArray vs) = Suc (foldr max (map json_nesting vs) 0)"
| "json_nesting (JObject m) = Suc (foldr max (map (\<lambda>p. json_nesting (snd p)) m) 0)"
| "json_nesting _ = 0"

definition serde_readable :: "json \<Rightarrow> bool" where
  "serde_readable j \<longleftrightarrow> json_nesting j < 128"

lemma json_nesting_field:
  assumes "json_get k (JObject m) = Some v"
  shows "json_nesting v < json_nesting (JObject m)"
proof -
  have "json_nesting (snd p) \<le> foldr max (map (\<lambda>p. json_nesting (snd p)) m) 0" if "p \<in> set m" for p
    using that by (induction m) auto
  moreover have "(k, v) \<in> set m" using assms by (simp add: json_get_def map_of_SomeD)
  ultimately show ?thesis by fastforce
qed

text \<open>The three \<open>CHECK\<close>s of the table \<open>items\<close>.\<close>

definition items_check :: "item_row \<Rightarrow> bool" where
  "items_check r \<longleftrightarrow>
     sql_length (r_content r) > 0 \<and> sql_length (r_content r) \<le> 1048576 \<and>
     json_nesting (r_metadata r) \<le> 1000 \<and> as_object (r_metadata r) \<noteq> None"

text \<open>
  An insertion tests the \<open>CHECK\<close>s, then the unique index on \<open>external_id\<close>, then the primary key: SQLite
  keeps the indexes of a table with the one created last at the head.
\<close>

definition insert_item_stmt :: "string \<Rightarrow> item_row \<Rightarrow> database \<Rightarrow> error + database \<times> unit" where
  "insert_item_stmt ctx r d =
     (if \<not> items_check r then Inl (Sqlite ctx)
      else rbind (case r_external_id r of
           None \<Rightarrow> Inr ()
         | Some e \<Rightarrow> if e \<in> set (ext_ids d) then Inl (ExternalIdConflict e) else Inr ()) (\<lambda>_.
        if r_id r \<in> item_ids d then Inl (Sqlite ctx) else Inr (d\<lparr>items := items d @ [r]\<rparr>, ())))"

definition insert_tag_stmt :: "string \<Rightarrow> ulid \<Rightarrow> string \<Rightarrow> database \<Rightarrow> error + database \<times> unit" where
  "insert_tag_stmt ctx i tag d =
     (if (i, tag) \<in> set (item_tags d) \<or> i \<notin> item_ids d then Inl (Sqlite ctx)
      else Inr (d\<lparr>item_tags := item_tags d @ [(i, tag)]\<rparr>, ()))"

definition insert_item_row ::
  "ulid \<Rightarrow> timestamp \<Rightarrow> new_item \<Rightarrow> string list \<Rightarrow> string option \<Rightarrow> unit op"
where
  "insert_item_row i t it ts sc =
     bindM (gets (\<lambda>s. ts_display (ext s) t)) (\<lambda>created.
     bindM (exec ''inserting item row'' (insert_item_stmt ''inserting item row''
       \<lparr>r_id = i, r_content = n_content it, r_created_at = created, r_supersedes = n_supersedes it,
        r_source = n_source it, r_metadata = n_metadata it, r_external_id = n_external_id it,
        r_scope = sc\<rparr>)) (\<lambda>_.
     bindM (mapM (\<lambda>tag. exec ''inserting item tag'' (insert_tag_stmt ''inserting item tag'' i tag)) ts)
       (\<lambda>_. ret ())))"

text \<open>\<open>SELECT 1 FROM items WHERE id = ?\<close>; \<open>ingest\<close> rolls back explicitly, \<open>ingest_many\<close> by dropping.\<close>

definition check_supersedes :: "string \<Rightarrow> unit op \<Rightarrow> ulid option \<Rightarrow> unit op" where
  "check_supersedes ctx on_missing target_opt =
     (case target_opt of
        None \<Rightarrow> ret ()
      | Some target \<Rightarrow>
          bindM (select ctx (\<lambda>d. target \<in> item_ids d)) (\<lambda>found.
            if found then ret ()
            else bindM on_missing (\<lambda>_. fail (SupersedesNotFound target))))"

section \<open>Hooks\<close>

definition fire_hook :: "item \<Rightarrow> unit op" where
  "fire_hook it =
     bindM (gets hook) (\<lambda>h. case h of
        None \<Rightarrow> ret ()
      | Some hk \<Rightarrow>
          bindM (call_hook hk (OnIngest it)) (\<lambda>r.
            case r of
              Some e \<Rightarrow> ret ()
            | None \<Rightarrow> bindM (call_hook hk HookCommit) (\<lambda>_. ret ())))"

definition fire_batch_hook :: "item list \<Rightarrow> unit op" where
  "fire_batch_hook its =
     bindM (gets hook) (\<lambda>h. case h of
        None \<Rightarrow> ret ()
      | Some hk \<Rightarrow>
          bindM (call_hook hk (OnIngestBatch its)) (\<lambda>_.
          bindM (call_hook hk HookCommit) (\<lambda>_. ret ())))"

section \<open>Operations\<close>

definition stored_item :: "ulid \<Rightarrow> timestamp \<Rightarrow> new_item \<Rightarrow> validated \<Rightarrow> item" where
  "stored_item i t it v =
     \<lparr>item_id = i, content = n_content it, created_at = t, supersedes = n_supersedes it,
      tags = v_tags v, source = n_source it, metadata = n_metadata it,
      external_id = n_external_id it, scope = v_scope v\<rparr>"

definition ingest :: "new_item \<Rightarrow> item op" where
  "ingest it =
     bindM (assert_writable ''ingest'') (\<lambda>_.
     bindM (lift (validate_item it)) (\<lambda>v.
     bindM now (\<lambda>t.
     bindM (mint_raw_ulid t) (\<lambda>i.
     bindM (transaction ''starting ingest transaction'' ''committing ingest transaction''
       (bindM (check_supersedes ''checking supersedes target existence''
                 (sql ''rolling back after SupersedesNotFound'') (n_supersedes it)) (\<lambda>_.
        insert_item_row i t it (v_tags v) (v_scope v)))) (\<lambda>_.
     bindM (fire_hook (stored_item i t it v)) (\<lambda>_.
     ret (stored_item i t it v)))))))"

definition ingest_one_of_many :: "timestamp \<Rightarrow> new_item \<times> validated \<Rightarrow> item op" where
  "ingest_one_of_many t p = (case p of (it, v) \<Rightarrow>
     bindM (check_supersedes ''checking supersedes target in bulk'' (ret ()) (n_supersedes it)) (\<lambda>_.
     bindM (mint_raw_ulid t) (\<lambda>i.
     bindM (insert_item_row i t it (v_tags v) (v_scope v)) (\<lambda>_.
     ret (stored_item i t it v)))))"

definition ingest_many :: "new_item list \<Rightarrow> item list op" where
  "ingest_many its =
     bindM (assert_writable ''ingest_many'') (\<lambda>_.
     bindM (lift (traverse validate_item its)) (\<lambda>vs.
     bindM now (\<lambda>t.
     bindM (transaction ''starting bulk ingest transaction'' ''committing bulk ingest transaction''
       (mapM (ingest_one_of_many t) (zip its vs))) (\<lambda>out.
     bindM (fire_batch_hook out) (\<lambda>_.
     ret out)))))"

definition clear_external_id_stmt :: "ulid \<Rightarrow> database \<Rightarrow> error + database \<times> nat" where
  "clear_external_id_stmt i d =
     Inr (d\<lparr>items := map (\<lambda>r. if r_id r = i then r\<lparr>r_external_id := None\<rparr> else r) (items d)\<rparr>,
          length (filter (\<lambda>r. r_id r = i) (items d)))"

definition ingest_replacing :: "new_item \<Rightarrow> ulid \<Rightarrow> item op" where
  "ingest_replacing it0 replaces =
     bindM (assert_writable ''ingest_replacing'') (\<lambda>_.
     let it = it0\<lparr>n_supersedes := Some replaces\<rparr> in
     bindM (lift (validate_item it)) (\<lambda>v.
     bindM now (\<lambda>t.
     bindM (mint_raw_ulid t) (\<lambda>i.
     bindM (transaction ''starting ingest_replacing transaction'' ''committing ingest_replacing transaction''
       (bindM (exec ''clearing external_id on replaced item'' (clear_external_id_stmt replaces)) (\<lambda>freed.
        if freed = 0 then fail (SupersedesNotFound replaces)
        else insert_item_row i t it (v_tags v) (v_scope v)))) (\<lambda>_.
     bindM (fire_hook (stored_item i t it v)) (\<lambda>_.
     ret (stored_item i t it v)))))))"

definition find_row :: "ulid \<Rightarrow> database \<Rightarrow> item_row option" where
  "find_row i d = find (\<lambda>r. r_id r = i) (items d)"

definition tags_of :: "ulid \<Rightarrow> database \<Rightarrow> string list" where
  "tags_of i d = sort (map snd (filter (\<lambda>(j, _). j = i) (item_tags d)))"

definition item_of_row :: "item_row \<Rightarrow> timestamp \<Rightarrow> string list \<Rightarrow> item" where
  "item_of_row r t ts =
     \<lparr>item_id = r_id r, content = r_content r, created_at = t, supersedes = r_supersedes r,
      tags = ts, source = r_source r, metadata = r_metadata r,
      external_id = r_external_id r, scope = r_scope r\<rparr>"

text \<open>\<open>load_item\<close> (\<open>query.rs\<close>), the body of \<open>Store::get\<close>.\<close>

definition load_item :: "ulid \<Rightarrow> item op" where
  "load_item i =
     bindM (sql ''preparing get statement'') (\<lambda>_.
     bindM (select ''fetching item row'' (find_row i)) (\<lambda>row. case row of
        None \<Rightarrow> fail (NotFound i)
      | Some r \<Rightarrow>
          bindM (gets (\<lambda>s. ts_parse (ext s) (r_created_at r))) (\<lambda>created. case created of
             None \<Rightarrow> fail (Sqlite ''parsing stored created_at'')
           | Some t \<Rightarrow>
               if \<not> serde_readable (r_metadata r) then fail (JsonError ''parsing stored metadata JSON'')
               else
               bindM (sql ''preparing tag query'') (\<lambda>_.
               bindM (select ''querying item tags'' (tags_of i)) (\<lambda>ts.
               bindM (sql ''reading item tag rows'') (\<lambda>_.
               ret (item_of_row r t ts)))))))"

definition get :: "ulid \<Rightarrow> item op" where
  "get i = load_item i"

definition set_scope_stmt :: "string option \<Rightarrow> ulid \<Rightarrow> database \<Rightarrow> error + database \<times> nat" where
  "set_scope_stmt sc i d =
     Inr (d\<lparr>items := map (\<lambda>r. if r_id r = i then r\<lparr>r_scope := sc\<rparr> else r) (items d)\<rparr>,
          length (filter (\<lambda>r. r_id r = i) (items d)))"

definition set_scope :: "ulid \<Rightarrow> string option \<Rightarrow> item op" where
  "set_scope i sc =
     bindM (assert_writable ''set_scope'') (\<lambda>_.
     bindM (lift (opt_traverse validate sc)) (\<lambda>normalised.
     bindM (exec ''updating scope'' (set_scope_stmt normalised i)) (\<lambda>changed.
       if changed = 0 then fail (NotFound i) else get i)))"

section \<open>The table invariant\<close>

text \<open>
  Ids and external ids are unique, tags belong to stored items, every row satisfies the rules of
  validation, and a row supersedes only a row inserted before it (so chains of supersession are
  acyclic).
\<close>

definition row_ok :: "item_row \<Rightarrow> bool" where
  "row_ok r \<longleftrightarrow>
     r_content r \<noteq> [] \<and> length (r_content r) \<le> 1048576 \<and>
     (\<forall>src. r_source r = Some src \<longrightarrow> length src \<le> 256) \<and>
     (\<forall>e. r_external_id r = Some e \<longrightarrow> good_external_id e) \<and>
     (\<exists>m. r_metadata r = JObject m) \<and>
     (\<forall>s. r_scope r = Some s \<longrightarrow> scope_ok s)"

fun chain_ok :: "ulid set \<Rightarrow> item_row list \<Rightarrow> bool" where
  "chain_ok seen [] = True"
| "chain_ok seen (r # rs) =
     ((\<forall>t. r_supersedes r = Some t \<longrightarrow> t \<in> seen) \<and> chain_ok (insert (r_id r) seen) rs)"

definition wf_items :: "database \<Rightarrow> bool" where
  "wf_items d \<longleftrightarrow>
     distinct (map r_id (items d)) \<and> distinct (ext_ids d) \<and> distinct (item_tags d) \<and>
     (\<forall>(i, t) \<in> set (item_tags d). i \<in> item_ids d \<and> good_tag t) \<and>
     (\<forall>r \<in> set (items d). row_ok r) \<and> chain_ok {} (items d)"

text \<open>The effect of storing an item, as a function on the tables.\<close>

definition row_of_item :: "externals \<Rightarrow> item \<Rightarrow> item_row" where
  "row_of_item x it =
     \<lparr>r_id = item_id it, r_content = content it, r_created_at = ts_display x (created_at it),
      r_supersedes = supersedes it, r_source = source it, r_metadata = metadata it,
      r_external_id = external_id it, r_scope = scope it\<rparr>"

definition add_item :: "externals \<Rightarrow> item \<Rightarrow> database \<Rightarrow> database" where
  "add_item x it d =
     d\<lparr>items := items d @ [row_of_item x it],
       item_tags := item_tags d @ map (Pair (item_id it)) (tags it)\<rparr>"

definition update_row :: "(item_row \<Rightarrow> item_row) \<Rightarrow> ulid \<Rightarrow> database \<Rightarrow> database" where
  "update_row f i d = d\<lparr>items := map (\<lambda>r. if r_id r = i then f r else r) (items d)\<rparr>"

abbreviation free_external_id :: "ulid \<Rightarrow> database \<Rightarrow> database" where
  "free_external_id \<equiv> update_row (r_external_id_update (\<lambda>_. None))"

abbreviation move_scope :: "string option \<Rightarrow> ulid \<Rightarrow> database \<Rightarrow> database" where
  "move_scope sc \<equiv> update_row (r_scope_update (\<lambda>_. sc))"

lemma update_row_ids:
  assumes "\<And>r. r_id (f r) = r_id r"
  shows "map r_id (items (update_row f i d)) = map r_id (items d)"
    "item_ids (update_row f i d) = item_ids d"
    "length (filter (\<lambda>r. r_id r = j) (items (update_row f i d))) = length (filter (\<lambda>r. r_id r = j) (items d))"
proof -
  show m: "map r_id (items (update_row f i d)) = map r_id (items d)"
    by (simp add: update_row_def assms)
  show "item_ids (update_row f i d) = item_ids d"
    unfolding item_ids_def by (metis m set_map)
  show "length (filter (\<lambda>r. r_id r = j) (items (update_row f i d))) = length (filter (\<lambda>r. r_id r = j) (items d))"
    by (metis (mono_tags) m filter_map length_map comp_apply filter_cong)
qed

lemma item_ids_update [simp]:
  "item_ids (free_external_id i d) = item_ids d" "item_ids (move_scope sc i d) = item_ids d"
  by (simp_all add: update_row_ids)

text \<open>What an item must satisfy for \<open>add_item\<close> to keep the invariant.\<close>

definition fits :: "item \<Rightarrow> database \<Rightarrow> bool" where
  "fits it d \<longleftrightarrow>
     item_id it \<notin> item_ids d \<and>
     (\<forall>e. external_id it = Some e \<longrightarrow> e \<notin> set (ext_ids d)) \<and>
     (\<forall>t. supersedes it = Some t \<longrightarrow> t \<in> item_ids d) \<and>
     content it \<noteq> [] \<and> length (content it) \<le> 1048576 \<and>
     (\<forall>src. source it = Some src \<longrightarrow> length src \<le> 256) \<and>
     (\<forall>e. external_id it = Some e \<longrightarrow> good_external_id e) \<and>
     (\<exists>m. metadata it = JObject m) \<and> (\<forall>s. scope it = Some s \<longrightarrow> scope_ok s) \<and>
     sorted (tags it) \<and> distinct (tags it) \<and> list_all good_tag (tags it)"

section \<open>Effects of the operations\<close>

named_theorems store_effects "what a successful step did to the tables"

lemma keeps_store_steps [keeps_intros]:
  assumes "\<And>s bs. f (s\<lparr>faults := bs\<rparr>) = f s"
  shows "keeps f (load_item i)"
  unfolding load_item_def by (intro keeps_intros assms)

lemma keeps_check_supersedes [keeps_intros]:
  assumes "\<And>s bs. f (s\<lparr>faults := bs\<rparr>) = f s" "keeps f m"
  shows "keeps f (check_supersedes c m x)"
  unfolding check_supersedes_def by (intro keeps_intros assms)

lemma keeps_insert_item_row [keeps_intros]:
  assumes "\<And>s bs. f (s\<lparr>faults := bs\<rparr>) = f s" "\<And>s d. f (s\<lparr>db := d\<rparr>) = f s"
  shows "keeps f (insert_item_row i t it ts sc)"
  unfolding insert_item_row_def by (intro keeps_intros assms)

lemma keeps_fire_hook [keeps_intros]:
  assumes "\<And>s n. f (s\<lparr>hook_log := n\<rparr>) = f s"
  shows "keeps f (fire_hook it)" "keeps f (fire_batch_hook its)"
  unfolding fire_hook_def fire_batch_hook_def by (intro keeps_intros assms)+

lemma infallible_fire_hook: "infallible (fire_hook it)" "infallible (fire_batch_hook its)"
  unfolding fire_hook_def fire_batch_hook_def
  by (intro infallible_intros; auto simp: infallible_intros split: option.splits)+

lemma insert_tags_effect:
  assumes "mapM (\<lambda>tag. exec c (insert_tag_stmt c i tag)) ts s = (Inr us, s')"
  shows "db s' = (db s)\<lparr>item_tags := item_tags (db s) @ map (Pair i) ts\<rparr>"
  using assms
proof (induction ts arbitrary: s us)
  case Nil then show ?case by (simp add: ret_def)
next
  case (Cons t ts)
  from Cons.prems obtain s1 u us' where
    s1: "exec c (insert_tag_stmt c i t) s = (Inr u, s1)"
    and rest: "mapM (\<lambda>tag. exec c (insert_tag_stmt c i tag)) ts s1 = (Inr us', s')"
    by (auto elim!: bindM_InrE simp: ret_def)
  from s1 have "db s1 = (db s)\<lparr>item_tags := item_tags (db s) @ [(i, t)]\<rparr>"
    by (auto elim!: exec_InrE simp: insert_tag_stmt_def split: if_splits)
  with Cons.IH[OF rest] show ?case by simp
qed

lemma insert_item_row_effect [store_effects]:
  assumes "insert_item_row i t it ts sc s = (Inr u, s')"
  shows "db s' = add_item (ext s) (stored_item i t it \<lparr>v_tags = ts, v_scope = sc\<rparr>) (db s)
     \<and> i \<notin> item_ids (db s)
     \<and> (\<forall>e. n_external_id it = Some e \<longrightarrow> e \<notin> set (ext_ids (db s)))"
proof -
  let ?r = "row_of_item (ext s) (stored_item i t it \<lparr>v_tags = ts, v_scope = sc\<rparr>)"
  from assms obtain s1 us v where
    ins: "exec ''inserting item row'' (insert_item_stmt ''inserting item row'' ?r) s = (Inr v, s1)"
    and tgs: "mapM (\<lambda>tag. exec ''inserting item tag'' (insert_tag_stmt ''inserting item tag'' i tag)) ts s1
      = (Inr us, s')"
    unfolding insert_item_row_def row_of_item_def stored_item_def
    by (auto elim!: bindM_InrE simp: op_defs)
  from ins have "db s1 = (db s)\<lparr>items := items (db s) @ [?r]\<rparr>" "r_id ?r \<notin> item_ids (db s)"
    "\<forall>e. r_external_id ?r = Some e \<longrightarrow> e \<notin> set (ext_ids (db s))"
    by (auto elim!: exec_InrE rbind_InrE simp: insert_item_stmt_def split: if_splits option.splits)
  with insert_tags_effect[OF tgs] show ?thesis
    by (simp add: add_item_def row_of_item_def stored_item_def)
qed

lemma check_supersedes_effect [store_effects]:
  assumes "check_supersedes c m x s = (Inr u, s')"
  shows "db s' = db s \<and> ext s' = ext s \<and> (\<forall>t. x = Some t \<longrightarrow> t \<in> item_ids (db s))"
  using assms
  by (auto simp: check_supersedes_def ret_def fail_def elim!: bindM_InrE select_InrE
      split: option.splits if_splits dest!: sql_Inr)

lemma mint_raw_ulid_effect [store_effects]:
  "mint_raw_ulid t s = (Inr i, s') \<Longrightarrow> db s' = db s \<and> ext s' = ext s"
  by (auto simp: mint_raw_ulid_def Let_def split: if_splits)

lemma now_effect [store_effects]: "now s = (Inr t, s') \<Longrightarrow> db s' = db s \<and> ext s' = ext s"
  by (auto simp: now_def)

lemma assert_writable_effect [store_effects]:
  "assert_writable c s = (Inr u, s') \<Longrightarrow> s' = s \<and> \<not> read_only s"
  by (auto simp: assert_writable_def split: if_splits)

lemma validate_item_stored:
  assumes "validate_item it = Inr v"
  shows "content (stored_item i t it v) \<noteq> []"
    "fits (stored_item i t it v) d \<longleftrightarrow>
       i \<notin> item_ids d \<and> (\<forall>e. n_external_id it = Some e \<longrightarrow> e \<notin> set (ext_ids d)) \<and>
       (\<forall>x. n_supersedes it = Some x \<longrightarrow> x \<in> item_ids d)"
  using assms validate_item_tags[OF assms] validate_item_scope[OF assms]
  by (auto simp: stored_item_def fits_def validate_item_Inr good_fields_def)

lemma insert_validated_effect:
  assumes "insert_item_row i t it (v_tags v) (v_scope v) s = (Inr u, s')"
  shows "db s' = add_item (ext s) (stored_item i t it v) (db s)"
    "i \<notin> item_ids (db s)" "n_external_id it = Some e \<Longrightarrow> e \<notin> set (ext_ids (db s))"
  using insert_item_row_effect[OF assms] by (simp_all add: stored_item_def)

lemma ingest_effect:
  assumes "ingest it s = (Inr x, s')"
  obtains v i t where "validate_item it = Inr v" "x = stored_item i t it v"
    "db s' = add_item (ext s) x (db s)" "fits x (db s)" "\<not> read_only s"
proof -
  from assms obtain v i t s1 s2 s3 where
    w: "\<not> read_only s" and v: "validate_item it = Inr v" and
    n: "now s = (Inr t, s1)" and m: "mint_raw_ulid t s1 = (Inr i, s2)" and
    tx: "transaction ''starting ingest transaction'' ''committing ingest transaction''
       (bindM (check_supersedes ''checking supersedes target existence''
                 (sql ''rolling back after SupersedesNotFound'') (n_supersedes it)) (\<lambda>_.
        insert_item_row i t it (v_tags v) (v_scope v))) s2 = (Inr (), s3)" and
    h: "fire_hook (stored_item i t it v) s3 = (Inr (), s')" and x: "x = stored_item i t it v"
    unfolding ingest_def
    by (auto elim!: bindM_InrE simp: op_defs dest!: assert_writable_effect)
  from tx obtain s4 s5 s6 u where
    bg: "sql ''starting ingest transaction'' s2 = (Inr (), s4)" and
    c: "check_supersedes ''checking supersedes target existence''
        (sql ''rolling back after SupersedesNotFound'') (n_supersedes it) s4 = (Inr u, s5)" and
    ins: "insert_item_row i t it (v_tags v) (v_scope v) s5 = (Inr (), s6)" and
    fin: "sql ''committing ingest transaction'' s6 = (Inr (), s3)"
    by (auto elim!: transaction_InrE bindM_InrE)
  have s5: "db s5 = db s" "ext s5 = ext s" "\<forall>x. n_supersedes it = Some x \<longrightarrow> x \<in> item_ids (db s)"
    using n m bg check_supersedes_effect[OF c] by (auto dest!: store_effects sql_Inr)
  have "db s3 = add_item (ext s) x (db s)" "fits x (db s)"
    using insert_validated_effect[OF ins] validate_item_stored(2)[OF v, of i t "db s"] s5 sql_Inr[OF fin] x
    by simp_all
  moreover have "db s' = db s3"
    using h by (rule keepsD[rotated]) (intro keeps_intros, simp)
  ultimately show ?thesis using that v x w by simp
qed

text \<open>The items stored by a batch, one after another, each fitting the tables it meets.\<close>

fun add_items :: "externals \<Rightarrow> item list \<Rightarrow> database \<Rightarrow> database" where
  "add_items x [] d = d"
| "add_items x (it # its) d = add_items x its (add_item x it d)"

fun all_fit :: "externals \<Rightarrow> item list \<Rightarrow> database \<Rightarrow> bool" where
  "all_fit x [] d = True"
| "all_fit x (it # its) d = (fits it d \<and> all_fit x its (add_item x it d))"

lemma ingest_one_of_many_effect:
  assumes "ingest_one_of_many t (it, v) s = (Inr x, s')" "validate_item it = Inr v"
  shows "(\<exists>i. x = stored_item i t it v) \<and> fits x (db s) \<and> db s' = add_item (ext s) x (db s)
    \<and> ext s' = ext s"
proof -
  from assms(1) obtain s1 s2 i where
    c: "check_supersedes ''checking supersedes target in bulk'' (ret ()) (n_supersedes it) s = (Inr (), s1)"
    and m: "mint_raw_ulid t s1 = (Inr i, s2)"
    and ins: "insert_item_row i t it (v_tags v) (v_scope v) s2 = (Inr (), s')"
    and x: "x = stored_item i t it v"
    by (auto simp: ingest_one_of_many_def op_defs elim!: bindM_InrE)
  have "ext s' = ext s2"
    using ins by (rule keepsD[rotated]) (intro keeps_intros; simp)
  moreover have "db s2 = db s" "ext s2 = ext s"
    "\<forall>x. n_supersedes it = Some x \<longrightarrow> x \<in> item_ids (db s)"
    using m check_supersedes_effect[OF c] by (auto dest!: store_effects)
  ultimately have "fits x (db s) \<and> db s' = add_item (ext s) x (db s) \<and> ext s' = ext s"
    using insert_validated_effect[OF ins] validate_item_stored(2)[OF assms(2), of i t "db s"] x
    by simp
  with x show ?thesis by blast
qed

lemma ingest_loop_effect:
  assumes "mapM (ingest_one_of_many t) (zip its vs) s = (Inr out, s')"
    "list_all2 (\<lambda>it v. validate_item it = Inr v) its vs"
  shows "db s' = add_items (ext s) out (db s) \<and> all_fit (ext s) out (db s) \<and>
    list_all2 (\<lambda>(it, v) x. \<exists>i. x = stored_item i t it v) (zip its vs) out"
  using assms
proof (induction its arbitrary: vs s out)
  case Nil then show ?case by (auto simp: ret_def)
next
  case (Cons it its)
  from Cons.prems(2) obtain v vs' where vs: "vs = v # vs'" "validate_item it = Inr v"
    "list_all2 (\<lambda>it v. validate_item it = Inr v) its vs'"
    by (auto simp: list_all2_Cons1)
  from Cons.prems(1) obtain x s1 out' where
    one: "ingest_one_of_many t (it, v) s = (Inr x, s1)" and
    rest: "mapM (ingest_one_of_many t) (zip its vs') s1 = (Inr out', s')" and out: "out = x # out'"
    by (auto simp: vs op_defs elim!: bindM_InrE)
  from ingest_one_of_many_effect[OF one vs(2)] Cons.IH[OF rest vs(3)]
  show ?case by (auto simp: out vs)
qed

lemma ingest_many_effect:
  assumes "ingest_many its s = (Inr out, s')"
  shows "db s' = add_items (ext s) out (db s)" "all_fit (ext s) out (db s)" "\<not> read_only s"
    "length out = length its" "map content out = map n_content its"
    "list_all2 (\<lambda>it x. \<exists>v i t. validate_item it = Inr v \<and> x = stored_item i t it v) its out"
proof -
  from assms obtain vs t s1 s2 where
    w: "\<not> read_only s" and v: "traverse validate_item its = Inr vs" and n: "now s = (Inr t, s1)" and
    tx: "transaction ''starting bulk ingest transaction'' ''committing bulk ingest transaction''
       (mapM (ingest_one_of_many t) (zip its vs)) s1 = (Inr out, s2)" and
    h: "fire_batch_hook out s2 = (Inr (), s')"
    unfolding ingest_many_def
    by (auto elim!: bindM_InrE simp: op_defs dest!: assert_writable_effect)
  from v have vs: "list_all2 (\<lambda>it v. validate_item it = Inr v) its vs"
    by (simp add: traverse_Inr_iff)
  from tx obtain s3 s4 where
    "sql ''starting bulk ingest transaction'' s1 = (Inr (), s3)" and
    loop: "mapM (ingest_one_of_many t) (zip its vs) s3 = (Inr out, s4)" and
    "sql ''committing bulk ingest transaction'' s4 = (Inr (), s2)"
    by (auto elim!: transaction_InrE)
  then have "ext s3 = ext s" "db s3 = db s" "db s2 = db s4"
    using n by (auto dest!: store_effects sql_Inr)
  moreover have "db s' = db s2"
    using h by (rule keepsD[rotated]) (intro keeps_intros, simp)
  moreover note eff = ingest_loop_effect[OF loop vs]
  ultimately show "db s' = add_items (ext s) out (db s)" "all_fit (ext s) out (db s)"
    by simp_all
  show "\<not> read_only s" by (rule w)
  have all2: "list_all2 (\<lambda>(it, v) x. \<exists>i. x = stored_item i t it v) (zip its vs) out"
    using eff by simp
  have len: "length vs = length its" using vs by (simp add: list_all2_lengthD)
  from list_all2_lengthD[OF all2] len show out: "length out = length its" by simp
  show "map content out = map n_content its"
    using all2 len out
    by (intro nth_equalityI) (auto simp: list_all2_conv_all_nth stored_item_def)
  show "list_all2 (\<lambda>it x. \<exists>v i t. validate_item it = Inr v \<and> x = stored_item i t it v) its out"
  proof (rule list_all2_all_nthI)
    fix k assume k: "k < length its"
    have "validate_item (its ! k) = Inr (vs ! k)" using list_all2_nthD[OF vs k] .
    moreover have "\<exists>i. out ! k = stored_item i t (its ! k) (vs ! k)"
      using list_all2_nthD[OF all2, of k] k len by simp
    ultimately show "\<exists>v i t. validate_item (its ! k) = Inr v \<and> out ! k = stored_item i t (its ! k) v"
      by blast
  qed (simp add: out)
qed

lemma ingest_replacing_effect:
  assumes "ingest_replacing it r s = (Inr x, s')"
  obtains v i t where "validate_item (it\<lparr>n_supersedes := Some r\<rparr>) = Inr v"
    "x = stored_item i t (it\<lparr>n_supersedes := Some r\<rparr>) v" "r \<in> item_ids (db s)"
    "db s' = add_item (ext s) x (free_external_id r (db s))" "fits x (free_external_id r (db s))"
    "\<not> read_only s"
proof -
  let ?it = "it\<lparr>n_supersedes := Some r\<rparr>"
  from assms obtain v i t s1 s2 s3 where
    w: "\<not> read_only s" and v: "validate_item ?it = Inr v" and
    n: "now s = (Inr t, s1)" and m: "mint_raw_ulid t s1 = (Inr i, s2)" and
    tx: "transaction ''starting ingest_replacing transaction'' ''committing ingest_replacing transaction''
       (bindM (exec ''clearing external_id on replaced item'' (clear_external_id_stmt r)) (\<lambda>freed.
        if freed = 0 then fail (SupersedesNotFound r)
        else insert_item_row i t ?it (v_tags v) (v_scope v))) s2 = (Inr (), s3)" and
    h: "fire_hook (stored_item i t ?it v) s3 = (Inr (), s')" and x: "x = stored_item i t ?it v"
    unfolding ingest_replacing_def Let_def
    by (auto elim!: bindM_InrE simp: op_defs dest!: assert_writable_effect)
  from tx obtain s4 s5 s6 freed where
    bg: "sql ''starting ingest_replacing transaction'' s2 = (Inr (), s4)" and
    upd: "exec ''clearing external_id on replaced item'' (clear_external_id_stmt r) s4 = (Inr freed, s5)" and
    ins: "(if freed = 0 then fail (SupersedesNotFound r)
        else insert_item_row i t ?it (v_tags v) (v_scope v)) s5 = (Inr (), s6)" and
    fin: "sql ''committing ingest_replacing transaction'' s6 = (Inr (), s3)"
    by (auto elim!: transaction_InrE bindM_InrE)
  from ins have freed: "freed \<noteq> 0" and ins': "insert_item_row i t ?it (v_tags v) (v_scope v) s5 = (Inr (), s6)"
    by (auto simp: fail_def split: if_splits)
  from upd have s5: "db s5 = free_external_id r (db s4)" "freed = length (filter (\<lambda>q. r_id q = r) (items (db s4)))"
    "ext s5 = ext s4"
    by (auto elim!: exec_InrE simp: clear_external_id_stmt_def update_row_def dest!: sql_Inr)
  have s4: "db s4 = db s" "ext s4 = ext s"
    using bg n m by (auto dest!: store_effects sql_Inr)
  have r: "r \<in> item_ids (db s)"
    using freed s5(2) s4(1) by (auto simp: item_ids_def filter_empty_conv)
  then have r': "r \<in> item_ids (free_external_id r (db s))"
    by simp
  have "db s3 = add_item (ext s) x (free_external_id r (db s))" "fits x (free_external_id r (db s))"
    using insert_validated_effect[OF ins'] sql_Inr[OF fin] s5 s4 r'
      validate_item_stored(2)[OF v, of i t "free_external_id r (db s)"] x
    by simp_all
  moreover have "db s' = db s3"
    using h by (rule keepsD[rotated]) (intro keeps_intros, simp)
  ultimately show ?thesis using that v x w r by simp
qed

lemma set_scope_effect:
  assumes "set_scope i sc s = (r, s')"
  shows "db s' = db s \<or> (\<exists>normalised. opt_traverse validate sc = Inr normalised \<and>
     db s' = move_scope normalised i (db s) \<and> \<not> read_only s)"
proof (cases "read_only s \<or> (\<exists>e. opt_traverse validate sc = Inl e)")
  case True
  then show ?thesis using assms
    by (auto simp: set_scope_def assert_writable_def lift_def bindM_def split: if_splits)
next
  case False
  then obtain n where n: "opt_traverse validate sc = Inr n" and w: "\<not> read_only s"
    by (cases "opt_traverse validate sc") auto
  let ?k = "\<lambda>c :: nat. if c = 0 then fail (NotFound i) else get i"
  have run: "bindM (exec ''updating scope'' (set_scope_stmt n i)) ?k s = (r, s')"
    using assms w n by (simp add: set_scope_def assert_writable_def lift_def bindM_def)
  obtain r1 s1 where e: "exec ''updating scope'' (set_scope_stmt n i) s = (r1, s1)" by fastforce
  have k: "keeps db (?k c)" for c
    unfolding get_def by (intro keeps_intros; simp)
  have "db s' = db s1"
    using run e keepsD[OF k] by (cases r1) (auto simp: bindM_def)
  moreover have "db s1 = db s \<or> db s1 = move_scope n i (db s)"
    using e by (auto simp: exec_def bindM_def set_scope_stmt_def update_row_def
        split: prod.splits sum.splits dest: sql_result_db)
  ultimately show ?thesis using n w by auto
qed

section \<open>The invariant is kept\<close>

lemma chain_ok_append:
  "chain_ok A (xs @ ys) \<longleftrightarrow> chain_ok A xs \<and> chain_ok (A \<union> r_id ` set xs) ys"
  by (induction xs arbitrary: A) auto

lemma chain_ok_cong:
  assumes "map r_id xs = map r_id ys" "map r_supersedes xs = map r_supersedes ys"
  shows "chain_ok A xs \<longleftrightarrow> chain_ok A ys"
  using assms
proof (induction xs arbitrary: ys A)
  case (Cons x xs)
  then obtain y ys' where ys: "ys = y # ys'" by (cases ys) auto
  with Cons.prems have e: "r_id x = r_id y" "r_supersedes x = r_supersedes y"
    "map r_id xs = map r_id ys'" "map r_supersedes xs = map r_supersedes ys'" by simp_all
  show ?case unfolding ys chain_ok.simps e(1,2) Cons.IH[OF e(3,4)] by (rule refl)
qed simp

lemma ext_ids_add [simp]:
  "ext_ids (add_item x it d) = ext_ids d @ (case external_id it of None \<Rightarrow> [] | Some e \<Rightarrow> [e])"
  by (auto simp: ext_ids_def add_item_def row_of_item_def map_filter_def split: option.splits)

lemma item_ids_add [simp]: "item_ids (add_item x it d) = insert (item_id it) (item_ids d)"
  by (auto simp: item_ids_def add_item_def row_of_item_def)

lemma wf_items_add:
  assumes "wf_items d" "fits it d" shows "wf_items (add_item x it d)"
proof -
  have tg: "distinct (item_tags d @ map (Pair (item_id it)) (tags it))"
    using assms by (auto simp: wf_items_def fits_def distinct_map inj_on_def)
  have "row_ok (row_of_item x it)" using assms(2)
    by (auto simp: row_ok_def row_of_item_def fits_def)
  moreover have "chain_ok {} (items d @ [row_of_item x it])"
    using assms by (auto simp: chain_ok_append wf_items_def fits_def item_ids_def row_of_item_def)
  moreover have "distinct (map r_id (items d @ [row_of_item x it]))"
    using assms by (auto simp: wf_items_def fits_def item_ids_def row_of_item_def)
  moreover have "distinct (ext_ids (add_item x it d))"
    using assms by (auto simp: wf_items_def fits_def split: option.splits)
  ultimately show ?thesis
    using assms tg
    unfolding wf_items_def item_ids_add
    by (auto simp: add_item_def fits_def list_all_iff)
qed

lemma wf_items_add_items:
  "wf_items d \<Longrightarrow> all_fit x its d \<Longrightarrow> wf_items (add_items x its d)"
  by (induction its arbitrary: d) (auto intro: wf_items_add)

lemma distinct_subseq: "subseq xs ys \<Longrightarrow> distinct ys \<Longrightarrow> distinct xs"
  by (metis subseq_conv_nths distinct_nthsI)

text \<open>A row update that keeps id and supersession, and keeps or clears the external id.\<close>

lemma wf_items_update:
  assumes "wf_items d" "\<And>r. r_id (f r) = r_id r" "\<And>r. r_supersedes (f r) = r_supersedes r"
    "\<And>r. r_external_id (f r) \<in> {None, r_external_id r}" "\<And>r. row_ok r \<Longrightarrow> row_ok (f r)"
  shows "wf_items (update_row f i d)"
proof -
  let ?up = "\<lambda>r. if r_id r = i then f r else r"
  have "subseq (List.map_filter r_external_id (map ?up rs)) (List.map_filter r_external_id rs)" for rs
  proof (induction rs)
    case (Cons r rs) then show ?case using assms(4)[of r]
      by (auto simp: map_filter_simps split: option.splits)
  qed (simp add: map_filter_simps)
  then have "subseq (ext_ids (update_row f i d)) (ext_ids d)" by (simp add: ext_ids_def update_row_def)
  then have "distinct (ext_ids (update_row f i d))"
    using assms(1) distinct_subseq by (auto simp: wf_items_def)
  moreover have "map r_supersedes (items (update_row f i d)) = map r_supersedes (items d)"
    by (simp add: update_row_def assms(3))
  then have "chain_ok {} (items (update_row f i d))"
    using assms(1) chain_ok_cong update_row_ids(1)[of f, OF assms(2)] by (metis wf_items_def)
  moreover have "\<forall>r \<in> set (items (update_row f i d)). row_ok r"
    using assms(1,5) by (auto simp: update_row_def wf_items_def)
  moreover have "item_tags (update_row f i d) = item_tags d" by (simp add: update_row_def)
  ultimately show ?thesis
    using assms(1) unfolding wf_items_def by (simp only: update_row_ids[of f, OF assms(2)]) simp
qed

lemma wf_items_free: "wf_items d \<Longrightarrow> wf_items (free_external_id i d)"
  by (rule wf_items_update) (auto simp: row_ok_def)

lemma wf_items_move:
  "wf_items d \<Longrightarrow> (\<And>s. sc = Some s \<Longrightarrow> scope_ok s) \<Longrightarrow> wf_items (move_scope sc i d)"
  by (rule wf_items_update) (auto simp: row_ok_def)

lemma wf_items_empty [simp]: "wf_items empty_db"
  by (simp add: wf_items_def empty_db_def ext_ids_def map_filter_simps)

section \<open>The interface of the writes\<close>

lemma refuse_first: "read_only s \<Longrightarrow> bindM (assert_writable c) k s = (Inl (ReadOnly c), s)"
  by (simp add: assert_writable_def bindM_def)

lemma ingest_keeps: "keeps handle (ingest it)"
  unfolding ingest_def fire_hook_def by (intro keeps_intros handle_updates)

lemma ingest_one_of_many_keeps: "keeps handle (ingest_one_of_many t p)"
  unfolding ingest_one_of_many_def by (cases p) (simp, intro keeps_intros handle_updates)

lemma ingest_many_keeps: "keeps handle (ingest_many its)"
  unfolding ingest_many_def fire_batch_hook_def
  by (intro keeps_intros handle_updates ingest_one_of_many_keeps)

lemma ingest_replacing_keeps: "keeps handle (ingest_replacing it r)"
  unfolding ingest_replacing_def fire_hook_def Let_def by (intro keeps_intros handle_updates)

lemma set_scope_keeps: "keeps handle (set_scope i sc)"
  unfolding set_scope_def get_def by (intro keeps_intros handle_updates)

lemma keeps_now_db: "keeps db now" "keeps db (mint_raw_ulid t)" "keeps db (assert_writable c)" "keeps db (lift r)"
  by (intro keeps_intros; simp)+

lemmas atomic_steps = atomic_bind_keeps[OF keeps_now_db(3)] atomic_bind_keeps[OF keeps_now_db(4)]
  atomic_bind_keeps[OF keeps_now_db(1)] atomic_bind_keeps[OF keeps_now_db(2)]
  atomic_bind_infallible[OF atomic_transaction] infallible_intros infallible_fire_hook

lemma atomic_ingest: "atomic (ingest it)"
  unfolding ingest_def by (intro atomic_steps)

lemma atomic_ingest_many: "atomic (ingest_many its)"
  unfolding ingest_many_def by (intro atomic_steps)

lemma atomic_ingest_replacing: "atomic (ingest_replacing it r)"
  unfolding ingest_replacing_def Let_def by (intro atomic_steps)

lemma atomic_keeps_inv:
  assumes "atomic m" "\<And>x s'. m s = (Inr x, s') \<Longrightarrow> I (db s')" "I (db s)" "m s = (r, s')"
  shows "I (db s')"
  using assms by (cases r) (auto simp: atomic_def)

lemma wf_ingest: "wf_items (db s) \<Longrightarrow> ingest it s = (r, s') \<Longrightarrow> wf_items (db s')"
  by (rule atomic_keeps_inv[OF atomic_ingest]) (auto elim!: ingest_effect intro: wf_items_add)

lemma wf_ingest_many:
  assumes "wf_items (db s)" "ingest_many its s = (r, s')" shows "wf_items (db s')"
proof (rule atomic_keeps_inv[where I = wf_items, OF atomic_ingest_many _ assms])
  fix out t assume "ingest_many its s = (Inr out, t)"
  from ingest_many_effect(1,2)[OF this] assms(1) show "wf_items (db t)"
    by (simp add: wf_items_add_items)
qed

lemma wf_ingest_replacing: "wf_items (db s) \<Longrightarrow> ingest_replacing it i s = (r, s') \<Longrightarrow> wf_items (db s')"
  by (rule atomic_keeps_inv[OF atomic_ingest_replacing])
    (auto elim!: ingest_replacing_effect intro: wf_items_add[OF wf_items_free])

lemma wf_set_scope:
  assumes "wf_items (db s)" "set_scope i sc s = (r, s')" shows "wf_items (db s')"
proof -
  from set_scope_effect[OF assms(2)] consider "db s' = db s"
    | n where "opt_traverse validate sc = Inr n" "db s' = move_scope n i (db s)" by blast
  then show ?thesis
  proof cases
    case 2
    have "scope_ok x" if "n = Some x" for x
      using 2(1) that by (cases sc) (auto elim!: rbind_InrE dest: validate_scope_ok)
    then show ?thesis using 2 assms(1) by (simp add: wf_items_move)
  qed (use assms in simp)
qed

lemma ingest_replacing_refused:
  "read_only s \<Longrightarrow> ingest_replacing it r s = (Inl (ReadOnly ''ingest_replacing''), s)"
  by (simp add: ingest_replacing_def refuse_first)

lemma set_scope_refused: "read_only s \<Longrightarrow> set_scope i sc s = (Inl (ReadOnly ''set_scope''), s)"
  by (simp add: set_scope_def refuse_first)

interpretation ingest: atomic_write ingest "''ingest''" "\<lambda>_. wf_items"
  by unfold_locales
    (simp_all add: ingest_keeps wf_ingest atomic_ingest, simp add: ingest_def refuse_first)

interpretation ingest_many: atomic_write ingest_many "''ingest_many''" "\<lambda>_. wf_items"
  by unfold_locales
    (simp_all add: ingest_many_keeps wf_ingest_many atomic_ingest_many,
      simp add: ingest_many_def refuse_first)

interpretation ingest_replacing: atomic_write "\<lambda>(it, r). ingest_replacing it r" "''ingest_replacing''" "\<lambda>_. wf_items"
  by unfold_locales
    (auto simp: ingest_replacing_keeps atomic_ingest_replacing ingest_replacing_refused
      intro: wf_ingest_replacing)

interpretation set_scope: guarded_write "\<lambda>(i, sc). set_scope i sc" "''set_scope''" "\<lambda>_. wf_items"
  by unfold_locales (auto simp: set_scope_keeps set_scope_refused intro: wf_set_scope)

section \<open>What \<open>ingest\<close> answers when the database does not fail\<close>

definition insert_outcome :: "new_item \<Rightarrow> ulid \<Rightarrow> database \<Rightarrow> error + unit" where
  "insert_outcome it i d =
     rbind (case n_supersedes it of None \<Rightarrow> Inr ()
       | Some x \<Rightarrow> if x \<in> item_ids d then Inr () else Inl (SupersedesNotFound x)) (\<lambda>_.
     rbind (if sql_length (n_content it) = 0 \<or> json_nesting (n_metadata it) > 1000
            then Inl (Sqlite ''inserting item row'') else Inr ()) (\<lambda>_.
     rbind (case n_external_id it of None \<Rightarrow> Inr ()
       | Some e \<Rightarrow> if e \<in> set (ext_ids d) then Inl (ExternalIdConflict e) else Inr ()) (\<lambda>_.
     if i \<in> item_ids d then Inl (Sqlite ''inserting item row'') else Inr ())))"

definition ingest_outcome :: "new_item \<Rightarrow> store \<Rightarrow> error + item" where
  "ingest_outcome it s =
     (if read_only s then Inl (ReadOnly ''ingest'')
      else rbind (validate_item it) (\<lambda>v.
        let t = clock s (ticks s); ms = as_millisecond (ext s) t;
            i = ulid_from_parts (ext s) (nat ms) (rng s (draws s))
        in if ms < 0 then Inl (Validation ''internal:timestamp'' ClockBeforeEpoch)
           else rbind (insert_outcome it i (db s)) (\<lambda>_. Inr (stored_item i t it v))))"

lemma sql_length_le: "sql_length s \<le> length s"
  unfolding sql_length_def by (metis length_filter_le length_takeWhile_le le_trans)

lemma insert_tags_no_faults:
  assumes "faults s = []" "distinct ts" "\<forall>t \<in> set ts. (i, t) \<notin> set (item_tags (db s))"
    "i \<in> item_ids (db s)"
  shows "mapM (\<lambda>tag. exec c (insert_tag_stmt c i tag)) ts s =
     (Inr (map (\<lambda>_. ()) ts), s\<lparr>db := (db s)\<lparr>item_tags := item_tags (db s) @ map (Pair i) ts\<rparr>\<rparr>)"
  using assms
proof (induction ts arbitrary: s)
  case (Cons t ts)
  let ?s1 = "s\<lparr>db := (db s)\<lparr>item_tags := item_tags (db s) @ [(i, t)]\<rparr>\<rparr>"
  have "exec c (insert_tag_stmt c i t) s = (Inr (), ?s1)"
    using Cons.prems by (simp add: exec_no_faults insert_tag_stmt_def)
  moreover have "mapM (\<lambda>tag. exec c (insert_tag_stmt c i tag)) ts ?s1 =
     (Inr (map (\<lambda>_. ()) ts), ?s1\<lparr>db := (db ?s1)\<lparr>item_tags := item_tags (db ?s1) @ map (Pair i) ts\<rparr>\<rparr>)"
    using Cons.prems by (intro Cons.IH) (auto simp: item_ids_def)
  ultimately show ?case by (simp add: op_simps)
qed (simp add: op_simps)

lemma insert_item_row_no_faults:
  assumes "faults s = []" "sql_length (n_content it) \<noteq> 0" "length (n_content it) \<le> 1048576"
    "n_metadata it = JObject m" "json_nesting (n_metadata it) \<le> 1000" "distinct (v_tags v)" "wf_items (db s)"
    "i \<notin> item_ids (db s)" "\<And>e. n_external_id it = Some e \<Longrightarrow> e \<notin> set (ext_ids (db s))"
  shows "insert_item_row i t it (v_tags v) (v_scope v) s =
     (Inr (), s\<lparr>db := add_item (ext s) (stored_item i t it v) (db s)\<rparr>)"
proof -
  let ?r = "row_of_item (ext s) (stored_item i t it v)"
  let ?s1 = "s\<lparr>db := (db s)\<lparr>items := items (db s) @ [?r]\<rparr>\<rparr>"
  have len: "sql_length (n_content it) \<le> 1048576" using assms(3) sql_length_le le_trans by blast
  have "exec ''inserting item row'' (insert_item_stmt ''inserting item row'' ?r) s = (Inr (), ?s1)"
    using assms len
    by (auto simp: exec_no_faults insert_item_stmt_def items_check_def rbind_def row_of_item_def stored_item_def
        split: option.splits)
  moreover have "\<forall>tg. (i, tg) \<notin> set (item_tags (db s))"
    using assms(7,8) by (auto simp: wf_items_def)
  then have "mapM (\<lambda>tag. exec ''inserting item tag'' (insert_tag_stmt ''inserting item tag'' i tag))
      (v_tags v) ?s1 = (Inr (map (\<lambda>_. ()) (v_tags v)),
        ?s1\<lparr>db := (db ?s1)\<lparr>item_tags := item_tags (db ?s1) @ map (Pair i) (v_tags v)\<rparr>\<rparr>)"
    using assms by (intro insert_tags_no_faults)
      (auto simp: item_ids_def row_of_item_def stored_item_def)
  ultimately show ?thesis
    by (simp add: insert_item_row_def op_simps row_of_item_def stored_item_def add_item_def)
qed

lemma insert_item_row_rejects:
  assumes "faults s = []" "n_metadata it = JObject m" "length (n_content it) \<le> 1048576"
  shows "sql_length (n_content it) = 0 \<or> json_nesting (n_metadata it) > 1000 \<Longrightarrow>
      insert_item_row i t it ts sc s = (Inl (Sqlite ''inserting item row''), s)"
    "sql_length (n_content it) \<noteq> 0 \<Longrightarrow> json_nesting (n_metadata it) \<le> 1000 \<Longrightarrow>
      n_external_id it = Some e \<Longrightarrow> e \<in> set (ext_ids (db s)) \<Longrightarrow>
      insert_item_row i t it ts sc s = (Inl (ExternalIdConflict e), s)"
    "sql_length (n_content it) \<noteq> 0 \<Longrightarrow> json_nesting (n_metadata it) \<le> 1000 \<Longrightarrow>
      (\<And>e. n_external_id it = Some e \<Longrightarrow> e \<notin> set (ext_ids (db s))) \<Longrightarrow> i \<in> item_ids (db s) \<Longrightarrow>
      insert_item_row i t it ts sc s = (Inl (Sqlite ''inserting item row''), s)"
proof -
  have len: "sql_length (n_content it) \<le> 1048576" using assms(3) sql_length_le le_trans by blast
  note d = insert_item_row_def op_simps exec_no_faults insert_item_stmt_def items_check_def rbind_def
  show "sql_length (n_content it) = 0 \<or> json_nesting (n_metadata it) > 1000 \<Longrightarrow>
      insert_item_row i t it ts sc s = (Inl (Sqlite ''inserting item row''), s)"
    using assms by (auto simp: d)
  show "sql_length (n_content it) \<noteq> 0 \<Longrightarrow> json_nesting (n_metadata it) \<le> 1000 \<Longrightarrow>
      n_external_id it = Some e \<Longrightarrow> e \<in> set (ext_ids (db s)) \<Longrightarrow>
      insert_item_row i t it ts sc s = (Inl (ExternalIdConflict e), s)"
    using assms len by (auto simp: d)
  show "sql_length (n_content it) \<noteq> 0 \<Longrightarrow> json_nesting (n_metadata it) \<le> 1000 \<Longrightarrow>
      (\<And>e. n_external_id it = Some e \<Longrightarrow> e \<notin> set (ext_ids (db s))) \<Longrightarrow> i \<in> item_ids (db s) \<Longrightarrow>
      insert_item_row i t it ts sc s = (Inl (Sqlite ''inserting item row''), s)"
    using assms len by (cases "n_external_id it") (auto simp: d)
qed

lemma deferred_fks_add_item:
  assumes "deferred_fks_ok d" "fits it d" shows "deferred_fks_ok (add_item x it d)"
  using assms by (auto simp: deferred_fks_ok_def add_item_def fits_def item_ids_def row_of_item_def)

lemma transaction_no_faults:
  assumes "faults s = []" "body s = (r, s1)" "faults s1 = []"
  shows "transaction b c body s =
     (case r of Inl e \<Rightarrow> (Inl e, s1\<lparr>db := db s\<rparr>)
      | Inr x \<Rightarrow> if deferred_fks_ok (db s1) then (Inr x, s1)
          else (Inl (Sqlite c), s1\<lparr>db := db s\<rparr>))"
  using assms by (auto simp: transaction_def bindM_def op_simps commit_tx_def op_defs sql_no_faults
      split: sum.splits)

lemma fire_hook_result:
  "\<exists>s'. fire_hook it s = (Inr (), s') \<and> db s' = db s"
proof -
  obtain u s' where "fire_hook it s = (Inr u, s')"
    using infallible_fire_hook(1) by (auto simp: infallible_def)
  moreover have "keeps db (fire_hook it)" by (intro keeps_intros) simp
  ultimately show ?thesis by (auto dest: keepsD)
qed

lemma ingest_unfold:
  assumes "\<not> read_only s" "validate_item it = Inr v" "t = clock s (ticks s)"
    "ms = as_millisecond (ext s) t" "0 \<le> ms" "i = ulid_from_parts (ext s) (nat ms) (rng s (draws s))"
    "s2 = s\<lparr>ticks := Suc (ticks s), draws := Suc (draws s)\<rparr>"
  shows "ingest it s = bindM (transaction ''starting ingest transaction'' ''committing ingest transaction''
       (bindM (check_supersedes ''checking supersedes target existence''
                 (sql ''rolling back after SupersedesNotFound'') (n_supersedes it)) (\<lambda>_.
        insert_item_row i t it (v_tags v) (v_scope v)))) (\<lambda>_.
     bindM (fire_hook (stored_item i t it v)) (\<lambda>_. ret (stored_item i t it v))) s2"
proof -
  have n: "now s = (Inr t, s\<lparr>ticks := Suc (ticks s)\<rparr>)" by (simp add: now_def assms)
  have m: "mint_raw_ulid t (s\<lparr>ticks := Suc (ticks s)\<rparr>) = (Inr i, s2)"
    using assms(4,5) by (simp add: mint_raw_ulid_def Let_def assms(6,7))
  show ?thesis
    using assms(1,2) n m by (simp add: ingest_def assert_writable_def bindM_simps lift_def)
qed

lemma insert_outcome_Inr:
  "insert_outcome it i d = Inr u \<longleftrightarrow>
     sql_length (n_content it) \<noteq> 0 \<and> json_nesting (n_metadata it) \<le> 1000 \<and> i \<notin> item_ids d \<and>
     (\<forall>e. n_external_id it = Some e \<longrightarrow> e \<notin> set (ext_ids d)) \<and>
     (\<forall>x. n_supersedes it = Some x \<longrightarrow> x \<in> item_ids d)"
  by (auto simp: insert_outcome_def rbind_def split: option.splits)

lemma ingest_db:
  assumes "ingest it s = (r, s')"
  shows "db s' = (case r of Inl e \<Rightarrow> db s | Inr x \<Rightarrow> add_item (ext s) x (db s))"
  using assms atomic_ingest[of it] by (cases r) (auto simp: atomic_def elim: ingest_effect)

lemma ingest_body_no_faults:
  assumes "faults s = []" "validate_item it = Inr v" "wf_items (db s)"
  shows "bindM (check_supersedes c (sql c') (n_supersedes it))
      (\<lambda>_. insert_item_row i t it (v_tags v) (v_scope v)) s =
     (case insert_outcome it i (db s) of
        Inl e \<Rightarrow> (Inl e, s)
      | Inr _ \<Rightarrow> (Inr (), s\<lparr>db := add_item (ext s) (stored_item i t it v) (db s)\<rparr>))"
proof -
  from assms(2) obtain m where v: "length (n_content it) \<le> 1048576" "n_metadata it = JObject m"
    "distinct (v_tags v)"
    using validate_item_tags[OF assms(2)] by (auto simp: validate_item_Inr good_fields_def)
  show ?thesis
    using insert_item_row_rejects[OF assms(1) v(2,1)]
      insert_item_row_no_faults[OF assms(1) _ v(1,2) _ v(3) assms(3)]
    by (cases "json_nesting (n_metadata it) \<le> 1000"; cases "n_supersedes it"; cases "n_external_id it")
      (simp_all add: bindM_def check_supersedes_def insert_outcome_def rbind_def op_defs
        select_no_faults[OF assms(1)] sql_no_faults[OF assms(1)])
qed

section \<open>The store as a map from ids to items\<close>

text \<open>
  What a caller of the store sees: the partial map from ids to items that \<open>get\<close> reads. Every
  write is an update of this map. An item whose metadata \<open>serde_json\<close> cannot read back is stored but
  is not in the map.
\<close>

definition as_read :: "item \<Rightarrow> item option" where
  "as_read it = (if serde_readable (metadata it) then Some it else None)"

definition item_at :: "externals \<Rightarrow> database \<Rightarrow> ulid \<Rightarrow> item option" where
  "item_at x d i =
     Option.bind (find_row i d) (\<lambda>r.
       if serde_readable (r_metadata r)
       then map_option (\<lambda>t. item_of_row r t (tags_of i d)) (ts_parse x (r_created_at r)) else None)"

lemma find_append: "find P (xs @ ys) = (case find P xs of None \<Rightarrow> find P ys | Some x \<Rightarrow> Some x)"
  by (induction xs) auto

lemma find_row_None: "find_row i d = None \<longleftrightarrow> i \<notin> item_ids d"
  by (auto simp: find_row_def find_None_iff item_ids_def)

lemma find_row_Some: "find_row i d = Some r \<Longrightarrow> r \<in> set (items d) \<and> r_id r = i"
  by (auto simp: find_row_def find_Some_iff)

lemma find_row_add:
  assumes "item_id it \<notin> item_ids d"
  shows "find_row i (add_item x it d) = (if i = item_id it then Some (row_of_item x it) else find_row i d)"
  using assms find_row_None[of "item_id it" d]
  by (auto simp: find_row_def add_item_def find_append row_of_item_def split: option.splits)

lemma tags_of_add:
  assumes "wf_items d" "fits it d"
  shows "tags_of i (add_item x it d) = (if i = item_id it then tags it else tags_of i d)"
proof -
  have "filter (\<lambda>(j, _). j = item_id it) (item_tags d) = []"
    using assms by (auto simp: filter_empty_conv wf_items_def fits_def)
  moreover have "sort (tags it) = tags it" using assms(2) by (simp add: fits_def sort_key_id_if_sorted)
  moreover have "filter (\<lambda>(j, _). j = i) (map (Pair (item_id it)) ts) =
      (if i = item_id it then map (Pair (item_id it)) ts else [])" for ts :: "string list"
    by (induction ts) auto
  ultimately show ?thesis by (auto simp: tags_of_def add_item_def comp_def)
qed

lemma item_of_row_of_item: "item_of_row (row_of_item x it) (created_at it) (tags it) = it"
  by (simp add: item_of_row_def row_of_item_def)

lemma item_at_add:
  assumes "prints_times x" "wf_items d" "fits it d"
  shows "item_at x (add_item x it d) = (item_at x d)(item_id it := as_read it)"
proof
  fix i
  have "item_id it \<notin> item_ids d" using assms(3) by (simp add: fits_def)
  then show "item_at x (add_item x it d) i = ((item_at x d)(item_id it := as_read it)) i"
    using assms item_of_row_of_item[of x it]
    by (cases "find_row i d")
      (auto simp: item_at_def find_row_add tags_of_add prints_times_def as_read_def row_of_item_def item_of_row_def)
qed

lemma find_row_update:
  assumes "\<And>r. r_id (f r) = r_id r"
  shows "find_row j (update_row f i d) = map_option (if j = i then f else id) (find_row j d)"
proof -
  have "find (\<lambda>r. r_id r = j) (map (\<lambda>r. if r_id r = i then f r else r) rs) =
      map_option (if j = i then f else id) (find (\<lambda>r. r_id r = j) rs)" for rs
    by (induction rs) (auto simp: assms)
  then show ?thesis by (simp add: find_row_def update_row_def)
qed

lemma item_at_update:
  assumes "\<And>r. r_id (f r) = r_id r" "\<And>r. r_created_at (f r) = r_created_at r"
    "\<And>r. r_metadata (f r) = r_metadata r" "\<And>r t ts. item_of_row (f r) t ts = g (item_of_row r t ts)"
  shows "item_at x (update_row f i d) = (item_at x d)(i := map_option g (item_at x d i))"
proof
  fix j
  have tg: "tags_of k (update_row f i d) = tags_of k d" for k by (simp add: tags_of_def update_row_def)
  show "item_at x (update_row f i d) j = ((item_at x d)(i := map_option g (item_at x d i))) j"
    by (cases "find_row j d")
      (auto simp: item_at_def find_row_update[of f, OF assms(1)] tg assms(2-4) option.map_comp comp_def)
qed

lemma item_at_free:
  "item_at x (free_external_id i d) =
     (item_at x d)(i := map_option (external_id_update (\<lambda>_. None)) (item_at x d i))"
  by (rule item_at_update) (simp_all add: item_of_row_def)

lemma item_at_move:
  "item_at x (move_scope sc i d) =
     (item_at x d)(i := map_option (scope_update (\<lambda>_. sc)) (item_at x d i))"
  by (rule item_at_update) (simp_all add: item_of_row_def)

lemma item_at_add_items:
  assumes "prints_times x" "wf_items d" "all_fit x its d"
  shows "item_at x (add_items x its d) = foldl (\<lambda>m it. m(item_id it := as_read it)) (item_at x d) its"
  using assms by (induction its arbitrary: d) (auto simp: item_at_add wf_items_add)

lemma item_at_Some:
  "item_at x d i = Some it \<longleftrightarrow>
     (\<exists>r t. find_row i d = Some r \<and> serde_readable (r_metadata r) \<and> ts_parse x (r_created_at r) = Some t \<and>
       it = item_of_row r t (tags_of i d))"
  by (cases "find_row i d") (auto simp: item_at_def)

text \<open>
  \<open>get\<close> reads this map. A stored time that does not parse is reported as a database error, and
  metadata nested too deeply as a JSON error.
\<close>

definition read_error :: "externals \<Rightarrow> database \<Rightarrow> ulid \<Rightarrow> error" where
  "read_error x d i =
     (case find_row i d of
        None \<Rightarrow> NotFound i
      | Some r \<Rightarrow> if ts_parse x (r_created_at r) = None then Sqlite ''parsing stored created_at''
          else JsonError ''parsing stored metadata JSON'')"

lemma get_no_faults:
  assumes "faults s = []"
  shows "get i s =
     (case item_at (ext s) (db s) i of
        Some it \<Rightarrow> (Inr it, s) | None \<Rightarrow> (Inl (read_error (ext s) (db s) i), s))"
  using assms
  by (auto simp: get_def load_item_def op_simps item_at_def read_error_def select_no_faults bindM_def gets_def
      fail_def ret_def sql_no_faults split: option.splits)

lemma get_keeps: "(\<And>s bs. f (s\<lparr>faults := bs\<rparr>) = f s) \<Longrightarrow> keeps f (get i)"
  unfolding get_def by (intro keeps_intros)

lemma get_Inr:
  assumes "get i s = (Inr it, s')"
  shows "item_at (ext s) (db s) i = Some it"
proof -
  from assms obtain s1 s2 row where
    "sql ''preparing get statement'' s = (Inr (), s1)" and row: "find_row i (db s) = Some row" and
    rest: "bindM (gets (\<lambda>s. ts_parse (ext s) (r_created_at row))) (\<lambda>created. case created of
             None \<Rightarrow> fail (Sqlite ''parsing stored created_at'')
           | Some t \<Rightarrow>
               if \<not> serde_readable (r_metadata row) then fail (JsonError ''parsing stored metadata JSON'')
               else
               bindM (sql ''preparing tag query'') (\<lambda>_.
               bindM (select ''querying item tags'' (tags_of i)) (\<lambda>ts.
               bindM (sql ''reading item tag rows'') (\<lambda>_.
               ret (item_of_row row t ts))))) s2 = (Inr it, s')"
    and "db s2 = db s" "ext s2 = ext s"
    unfolding get_def load_item_def
    by (elim bindM_InrE select_InrE) (auto simp: fail_def dest!: sql_Inr split: option.splits)
  from rest this(4,5) row show ?thesis
    by (auto elim!: bindM_InrE select_InrE simp: op_defs item_at_def dest!: sql_Inr split: option.splits if_splits)
qed

section \<open>Hook calls\<close>

lemma blind_check_supersedes [blind_intros]: "hook_blind m \<Longrightarrow> hook_blind (check_supersedes c m x)"
  unfolding check_supersedes_def by (intro blind_intros)

lemma blind_insert_item_row [blind_intros]: "hook_blind (insert_item_row i t it ts sc)"
  unfolding insert_item_row_def by (intro blind_intros) simp

definition told_of_item :: "index_hook option \<Rightarrow> hook_call list \<Rightarrow> item \<Rightarrow> hook_call list" where
  "told_of_item h log it =
     (case h of None \<Rightarrow> []
      | Some hk \<Rightarrow> OnIngest it # (if answer hk log (OnIngest it) = None then [HookCommit] else []))"

definition told_of_batch :: "index_hook option \<Rightarrow> item list \<Rightarrow> hook_call list" where
  "told_of_batch h its = (case h of None \<Rightarrow> [] | Some hk \<Rightarrow> [OnIngestBatch its, HookCommit])"

lemma fire_hook_calls:
  "fire_hook it s = (Inr (), s\<lparr>hook_log := hook_log s @ told_of_item (hook s) (hook_log s) it\<rparr>)"
  by (simp add: fire_hook_def bindM_def gets_def ret_def call_hook_def told_of_item_def split: option.splits)

lemma fire_batch_hook_calls:
  "fire_batch_hook its s = (Inr (), s\<lparr>hook_log := hook_log s @ told_of_batch (hook s) its\<rparr>)"
  by (simp add: fire_batch_hook_def bindM_def gets_def ret_def call_hook_def told_of_batch_def
      split: option.splits)

text \<open>
  A write is a body that does not see the hook, followed by the hook's notification: the hook cannot
  change its result or the tables, and is told only of what was committed.
\<close>

lemma bindM_assoc: "bindM (bindM m k) k' = bindM m (\<lambda>x. bindM (k x) k')"
  by (rule ext) (simp add: bindM_def split: prod.splits sum.splits)

lemma bindM_ret: "bindM (ret x) k = k x"
  by (rule ext) (simp add: bindM_def ret_def)

lemma notified_body:
  assumes "hook_blind body"
    "\<And>x s. notify x s = (Inr (), s\<lparr>hook_log := hook_log s @ told (hook s) (hook_log s) x\<rparr>)"
    "op = bindM body (\<lambda>x. bindM (notify x) (\<lambda>_. ret x))"
    "op s = (r, s')"
  shows "op (with_hook h l s) =
     (r, with_hook h (case r of Inl e \<Rightarrow> l | Inr x \<Rightarrow> l @ told h l x) s')"
    "hook_log s' = (case r of Inl e \<Rightarrow> hook_log s | Inr x \<Rightarrow> hook_log s @ told (hook s) (hook_log s) x)"
proof -
  obtain r0 t where b: "body s = (r0, t)" by fastforce
  have "body (with_hook h l s) = (r0, with_hook h l t)" for h l
    using assms(1) b by (simp add: hook_blind_def)
  then have b': "body (with_hook h l s) = (r0, with_hook h l t)" for h l by simp
  have s: "with_hook (hook s) (hook_log s) s = s" by (simp add: with_hook_def)
  have hl: "hook t = hook s \<and> hook_log t = hook_log s"
    using b'[of "hook s" "hook_log s"] b by (simp add: s) (metis with_hook_simps(9,10))
  show "op (with_hook h l s) =
     (r, with_hook h (case r of Inl e \<Rightarrow> l | Inr x \<Rightarrow> l @ told h l x) s')"
    "hook_log s' = (case r of Inl e \<Rightarrow> hook_log s | Inr x \<Rightarrow> hook_log s @ told (hook s) (hook_log s) x)"
    using assms(4) b b' hl unfolding assms(3)
    by (cases r0; auto simp: bindM_def ret_def assms(2) with_hook_def)+
qed

definition ingest_tx :: "new_item \<Rightarrow> item op" where
  "ingest_tx it =
     bindM (assert_writable ''ingest'') (\<lambda>_.
     bindM (lift (validate_item it)) (\<lambda>v.
     bindM now (\<lambda>t.
     bindM (mint_raw_ulid t) (\<lambda>i.
     bindM (transaction ''starting ingest transaction'' ''committing ingest transaction''
       (bindM (check_supersedes ''checking supersedes target existence''
                 (sql ''rolling back after SupersedesNotFound'') (n_supersedes it)) (\<lambda>_.
        insert_item_row i t it (v_tags v) (v_scope v)))) (\<lambda>_.
     ret (stored_item i t it v))))))"

definition ingest_replacing_tx :: "new_item \<Rightarrow> ulid \<Rightarrow> item op" where
  "ingest_replacing_tx it0 replaces =
     bindM (assert_writable ''ingest_replacing'') (\<lambda>_.
     bindM (lift (validate_item (it0\<lparr>n_supersedes := Some replaces\<rparr>))) (\<lambda>v.
     bindM now (\<lambda>t.
     bindM (mint_raw_ulid t) (\<lambda>i.
     bindM (transaction ''starting ingest_replacing transaction'' ''committing ingest_replacing transaction''
       (bindM (exec ''clearing external_id on replaced item'' (clear_external_id_stmt replaces)) (\<lambda>freed.
        if freed = 0 then fail (SupersedesNotFound replaces)
        else insert_item_row i t (it0\<lparr>n_supersedes := Some replaces\<rparr>) (v_tags v) (v_scope v)))) (\<lambda>_.
     ret (stored_item i t (it0\<lparr>n_supersedes := Some replaces\<rparr>) v))))))"

definition ingest_many_tx :: "new_item list \<Rightarrow> item list op" where
  "ingest_many_tx its =
     bindM (assert_writable ''ingest_many'') (\<lambda>_.
     bindM (lift (traverse validate_item its)) (\<lambda>vs.
     bindM now (\<lambda>t.
     bindM (transaction ''starting bulk ingest transaction'' ''committing bulk ingest transaction''
       (mapM (ingest_one_of_many t) (zip its vs))) ret)))"

lemma blind_ingest_tx: "hook_blind (ingest_tx it)"
  unfolding ingest_tx_def by (intro blind_intros)

lemma blind_ingest_replacing_tx: "hook_blind (ingest_replacing_tx it r)"
  unfolding ingest_replacing_tx_def by (intro blind_intros)

lemma blind_ingest_many_tx: "hook_blind (ingest_many_tx its)"
proof -
  have "hook_blind (ingest_one_of_many t p)" for t p
    unfolding ingest_one_of_many_def by (cases p) (simp, intro blind_intros)
  then show ?thesis unfolding ingest_many_tx_def by (intro blind_intros)
qed

lemma ingest_notifies: "ingest it = bindM (ingest_tx it) (\<lambda>x. bindM (fire_hook x) (\<lambda>_. ret x))"
  by (simp add: ingest_def ingest_tx_def bindM_assoc bindM_ret)

lemma ingest_replacing_notifies:
  "ingest_replacing it r = bindM (ingest_replacing_tx it r) (\<lambda>x. bindM (fire_hook x) (\<lambda>_. ret x))"
  by (simp add: ingest_replacing_def Let_def ingest_replacing_tx_def bindM_assoc bindM_ret)

lemma ingest_many_notifies:
  "ingest_many its = bindM (ingest_many_tx its) (\<lambda>x. bindM (fire_batch_hook x) (\<lambda>_. ret x))"
  by (simp add: ingest_many_def ingest_many_tx_def bindM_assoc bindM_ret)

section \<open>A concrete run\<close>

text \<open>An item stored in the fresh sample store, then a second one replacing it.\<close>

definition sample_item :: new_item where
  "sample_item = (new_item_text ''abc'')\<lparr>n_tags := [''b'', ''a'']\<rparr>"

definition sample_stored :: item where
  "sample_stored = \<lparr>item_id = 48, content = ''abc'', created_at = 3, supersedes = None,
     tags = [''a'', ''b''], source = None, metadata = default_metadata, external_id = None, scope = None\<rparr>"

lemma sample_stored_id [simp]: "item_id sample_stored = 48"
  by (simp add: sample_stored_def)

lemma serde_readable_default [simp]: "serde_readable default_metadata" "json_nesting default_metadata = 1"
  by (simp_all add: serde_readable_def default_metadata_def)

lemma as_read_default: "metadata it = default_metadata \<Longrightarrow> as_read it = Some it"
  by (simp add: as_read_def)

lemma as_read_sample [simp]: "as_read sample_stored = Some sample_stored"
  by (simp add: as_read_default sample_stored_def)

lemma empty_db_simps [simp]: "item_ids empty_db = {}" "deferred_fks_ok empty_db"
  by (simp_all add: item_ids_def empty_db_def deferred_fks_ok_def)

lemma validate_sample: "validate_item sample_item = Inr \<lparr>v_tags = [''a'', ''b''], v_scope = None\<rparr>"
  by (simp add: sample_item_def new_item_text_def validate_item_Inr good_fields_def good_tag_def
      contains_nul_def default_metadata_def)

lemma insert_outcome_sample: "insert_outcome sample_item 48 empty_db = Inr ()"
  by (simp add: insert_outcome_Inr sample_item_def new_item_text_def empty_db_def item_ids_def ext_ids_def
      map_filter_simps sql_length_def is_continuation_def)

lemma fks_sample: "deferred_fks_ok (add_item sample_ext sample_stored empty_db)"
  by (simp add: deferred_fks_ok_def add_item_def empty_db_def row_of_item_def sample_stored_def)

lemma stored_sample: "stored_item 48 3 sample_item \<lparr>v_tags = [''a'', ''b''], v_scope = None\<rparr> = sample_stored"
  by (simp add: stored_item_def sample_item_def sample_stored_def new_item_text_def)

lemma run_sample:
  "ingest sample_item sample_store =
     (Inr sample_stored, sample_store\<lparr>ticks := 4, draws := 1, db := add_item sample_ext sample_stored empty_db\<rparr>)"
proof -
  let ?s = "sample_store\<lparr>ticks := Suc (ticks sample_store), draws := Suc (draws sample_store)\<rparr>"
  have *: "ms = 3 \<Longrightarrow> t = 3 \<Longrightarrow> ulid_from_parts (ext sample_store) (nat 3) (rng sample_store (draws sample_store)) = 48" for ms t :: int
    by (simp add: sample_store_def sample_ext_def)
  have u: "ingest sample_item sample_store = bindM (transaction ''starting ingest transaction'' ''committing ingest transaction''
       (bindM (check_supersedes ''checking supersedes target existence''
                 (sql ''rolling back after SupersedesNotFound'') (n_supersedes sample_item)) (\<lambda>_.
        insert_item_row 48 3 sample_item [''a'', ''b''] None))) (\<lambda>_.
     bindM (fire_hook sample_stored) (\<lambda>_. ret sample_stored)) ?s"
    using ingest_unfold[OF _ validate_sample, of sample_store 3 3 48 ?s]
    by (simp add: stored_sample) (simp add: sample_store_def sample_ext_def)
  show ?thesis
    unfolding u
    using ingest_body_no_faults[OF _ validate_sample, of ?s _ _ 48 3] fks_sample insert_outcome_sample
    by (simp add: bindM_def transaction_no_faults stored_sample fire_hook_calls ret_def)
      (simp add: sample_store_def told_of_item_def)
qed

definition sample_store_1 :: store where
  "sample_store_1 = sample_store\<lparr>ticks := 4, draws := 1, db := add_item sample_ext sample_stored empty_db\<rparr>"

lemma sample_store_1_simps [simp]:
  "db sample_store_1 = add_item sample_ext sample_stored empty_db" "faults sample_store_1 = []"
  "ext sample_store_1 = sample_ext" "read_only sample_store_1 = False"
  by (simp_all add: sample_store_1_def)

definition sample_revision :: item where
  "sample_revision = sample_stored\<lparr>item_id := 65, created_at := 4, supersedes := Some 48\<rparr>"

lemma fits_sample: "fits sample_stored empty_db" 
  by (simp add: fits_def sample_stored_def empty_db_def item_ids_def ext_ids_def map_filter_simps
   good_tag_def contains_nul_def default_metadata_def)
lemma wf_sample_1: "wf_items (db sample_store_1)"
  by (simp add: sample_store_1_def wf_items_add fits_sample)

lemma run_many_one:
  assumes v: "validate_item it = Inr v" and ok: "insert_outcome it 48 empty_db = Inr ()"
    and sup: "n_supersedes it = None"
  shows "ingest_many [it] sample_store = (Inr [stored_item 48 3 it v],
    sample_store\<lparr>ticks := 4, draws := 1, db := add_item sample_ext (stored_item 48 3 it v) empty_db\<rparr>)"
proof -
  let ?s = "sample_store\<lparr>ticks := 4\<rparr>" and ?x = "stored_item 48 3 it v"
  let ?s' = "sample_store\<lparr>ticks := 4, draws := 1, db := add_item sample_ext ?x empty_db\<rparr>"
  obtain m where fields: "length (n_content it) \<le> 1048576" "n_metadata it = JObject m"
    using v by (auto simp: validate_item_Inr good_fields_def)
  have n: "now sample_store = (Inr 3, ?s)" by (simp add: now_def sample_store_def)
  have m: "mint_raw_ulid 3 ?s = (Inr 48, ?s\<lparr>draws := 1\<rparr>)"
    by (simp add: mint_raw_ulid_def Let_def sample_store_def sample_ext_def)
  have i: "insert_item_row 48 3 it (v_tags v) (v_scope v) (?s\<lparr>draws := 1\<rparr>) = (Inr (), ?s')"
    using insert_item_row_no_faults[of "?s\<lparr>draws := 1\<rparr>" it m v 48 3] validate_item_tags(2)[OF v] ok fields
    by (simp add: insert_outcome_Inr)
  have c: "check_supersedes c (ret ()) (n_supersedes it) = ret ()" for c
    by (simp add: check_supersedes_def sup)
  have fks: "deferred_fks_ok (add_item sample_ext ?x empty_db)"
    by (simp add: deferred_fks_ok_def add_item_def empty_db_def row_of_item_def stored_item_def sup)
  show ?thesis
    using n m i fks
    by (simp add: ingest_many_def assert_writable_def bindM_def lift_def v transaction_def
       commit_tx_def sql_no_faults gets_def ingest_one_of_many_def c ret_def fire_batch_hook_calls)
      (simp add: sample_store_def told_of_batch_def)
qed

lemma run_many_sample:
  "ingest_many [sample_item] sample_store = (Inr [sample_stored], sample_store_1)"
  using run_many_one[OF validate_sample insert_outcome_sample] stored_sample
  by (simp add: sample_store_1_def) (simp add: sample_item_def new_item_text_def)

lemma run_replacing_sample:
  "ingest_replacing sample_item 48 sample_store_1 =
     (Inr sample_revision, sample_store_1\<lparr>ticks := 5, draws := 2,
        db := add_item sample_ext sample_revision (free_external_id 48 (db sample_store_1))\<rparr>)"
proof -
  let ?it = "sample_item\<lparr>n_supersedes := Some 48\<rparr>" and ?v = "\<lparr>v_tags = [''a'', ''b''], v_scope = None\<rparr>"
  let ?s = "sample_store_1\<lparr>ticks := 5, draws := 2\<rparr>"
  let ?d = "free_external_id 48 (db sample_store_1)"
  have v: "validate_item ?it = Inr ?v"
    by (simp add: sample_item_def new_item_text_def validate_item_Inr good_fields_def good_tag_def
      contains_nul_def default_metadata_def)
  have n: "now sample_store_1 = (Inr 4, sample_store_1\<lparr>ticks := 5\<rparr>)"
    by (simp add: now_def sample_store_def sample_store_1_def)
  have m: "mint_raw_ulid 4 (sample_store_1\<lparr>ticks := 5\<rparr>) = (Inr 65, ?s)"
    by (simp add: mint_raw_ulid_def Let_def sample_store_def sample_ext_def sample_store_1_def)
  have st: "stored_item 65 4 ?it ?v = sample_revision"
    by (simp add: stored_item_def sample_revision_def sample_item_def sample_stored_def new_item_text_def)
  have ids: "item_ids (db sample_store_1) = {48}" "ext_ids ?d = []"
    by (simp_all add: sample_store_1_def sample_stored_def item_ids_def empty_db_def add_item_def
       row_of_item_def ext_ids_def update_row_def map_filter_simps)
  have u: "exec c (clear_external_id_stmt 48) ?s = (Inr 1, ?s\<lparr>db := ?d\<rparr>)" for c
    by (simp add: exec_no_faults sample_store_1_def clear_external_id_stmt_def update_row_def add_item_def empty_db_def
      row_of_item_def sample_stored_def)
  have i: "insert_item_row 65 4 ?it [''a'', ''b''] None (?s\<lparr>db := ?d\<rparr>)
     = (Inr (), ?s\<lparr>db := add_item sample_ext sample_revision ?d\<rparr>)"
    using insert_item_row_no_faults[of "?s\<lparr>db := ?d\<rparr>" ?it "[]" ?v 65 4] wf_sample_1
    by (simp add: wf_items_free ids st)
     (simp add: sample_item_def new_item_text_def default_metadata_def sql_length_def is_continuation_def)
  have f: "deferred_fks_ok (add_item sample_ext sample_revision ?d)"
    by (simp add: deferred_fks_ok_def add_item_def empty_db_def row_of_item_def sample_stored_def sample_revision_def
     sample_store_1_def update_row_def)
  show ?thesis
    using n m u i f v
    by (simp add: ingest_replacing_def assert_writable_def bindM_def lift_def transaction_def
       commit_tx_def sql_no_faults gets_def ret_def st fire_hook_calls Let_def)
      (simp add: sample_store_1_def sample_store_def told_of_item_def)
qed

section \<open>Properties\<close>





text \<open>
  \<open>ingest_many\<close> is all or nothing: it returns one item per input, in the order of the inputs, and
  the map gains exactly these, or it fails and the map is unchanged.
\<close>

theorem ingest_many_updates_map:
  assumes "prints_times (ext s)" "wf_items (db s)" "ingest_many its s = (r, s')"
  shows "item_at (ext s') (db s') = (case r of
      Inl e \<Rightarrow> item_at (ext s) (db s)
    | Inr xs \<Rightarrow> foldl (\<lambda>m x. m(item_id x := as_read x)) (item_at (ext s) (db s)) xs)
   \<and> (case r of Inl e \<Rightarrow> True | Inr xs \<Rightarrow> map content xs = map n_content its)"
proof -
  have ext: "ext s' = ext s" using keepsD[OF ingest_many_keeps assms(3)] by (simp add: handle_def)
  show ?thesis
  proof (cases r)
    case (Inl e) then show ?thesis using assms(3) atomic_ingest_many ext by (auto simp: atomic_def)
  next
    case (Inr xs)
    with ingest_many_effect[of its s xs s'] assms show ?thesis by (simp add: ext item_at_add_items)
  qed
qed

theorem ingest_many_updates_map_witness:
  "item_at sample_ext (db sample_store_1) = (item_at sample_ext empty_db)(48 \<mapsto> sample_stored)"
  using ingest_many_updates_map[OF _ _ run_many_sample] by simp

text \<open>
  \<open>ingest_replacing\<close> stores a new revision pointing at the replaced item and takes the external
  id away from it, both or neither; it fails when there is nothing to replace.
\<close>

theorem ingest_replacing_updates_map:
  assumes "prints_times (ext s)" "wf_items (db s)" "ingest_replacing it old s = (r, s')"
  shows "case r of
      Inl e \<Rightarrow> item_at (ext s') (db s') = item_at (ext s) (db s)
    | Inr x \<Rightarrow> old \<in> item_ids (db s) \<and> supersedes x = Some old \<and> item_id x \<notin> item_ids (db s) \<and>
        item_at (ext s') (db s') =
          (item_at (ext s) (db s))
            (old := map_option (external_id_update (\<lambda>_. None)) (item_at (ext s) (db s) old),
             item_id x := as_read x)"
proof -
  have ext: "ext s' = ext s" using keepsD[OF ingest_replacing_keeps assms(3)] by (simp add: handle_def)
  show ?thesis
  proof (cases r)
    case (Inl e) then show ?thesis using assms(3) atomic_ingest_replacing ext by (auto simp: atomic_def)
  next
    case (Inr x)
    with assms(3) obtain v i t where
      "x = stored_item i t (it\<lparr>n_supersedes := Some old\<rparr>) v" "old \<in> item_ids (db s)"
      "db s' = add_item (ext s) x (free_external_id old (db s))" "fits x (free_external_id old (db s))"
      by (auto elim: ingest_replacing_effect)
    then show ?thesis using Inr assms(1,2) ext
      by (simp add: item_at_add wf_items_free item_at_free) (simp add: fits_def stored_item_def)
  qed
qed

theorem ingest_replacing_updates_map_witness:
  "item_at sample_ext (add_item sample_ext sample_revision (free_external_id 48 (db sample_store_1))) 65
     = Some sample_revision"
  using ingest_replacing_updates_map[OF _ wf_sample_1 run_replacing_sample]
  by (simp add: sample_revision_def as_read_default sample_stored_def)

text \<open>
  the index hook cannot influence a write. Whatever hook is attached and whatever it answers,
  the result and the tables of \<open>ingest\<close> are the same, and the hook is told of the item, then asked to
  commit if it accepted, only when the item has been committed.
\<close>

theorem ingest_hook_isolated:
  assumes "ingest it (with_hook h l s) = (r, s1)" "ingest it (with_hook None [] s) = (q, s2)"
  shows "r = q \<and> db s1 = db s2 \<and>
    hook_log s1 = (case r of Inl e \<Rightarrow> l | Inr x \<Rightarrow> l @ told_of_item h l x)"
proof -
  obtain p s0 where run: "ingest it s = (p, s0)" by fastforce
  note n = notified_body(1)[OF blind_ingest_tx fire_hook_calls ingest_notifies run]
  from n[of h l] n[of None "[]"] assms
  show ?thesis by auto
qed

theorem ingest_hook_isolated_witness:
  "db (snd (ingest sample_item (with_hook (Some \<lparr>answer = (\<lambda>_ _. Some (IoError ''x''))\<rparr>) [] sample_store)))
     = db (snd (ingest sample_item (with_hook None [] sample_store)))"
  using ingest_hook_isolated[OF surjective_pairing surjective_pairing] by blast

text \<open>
  the same for the batch, whose hook gets one call for the whole batch and then the commit.\<close>

theorem ingest_many_hook_isolated:
  assumes "ingest_many its (with_hook h l s) = (r, s1)" "ingest_many its (with_hook None [] s) = (q, s2)"
  shows "r = q \<and> db s1 = db s2 \<and>
    hook_log s1 = (case r of Inl e \<Rightarrow> l | Inr xs \<Rightarrow> l @ told_of_batch h xs)"
proof -
  obtain p s0 where run: "ingest_many its s = (p, s0)" by fastforce
  note n = notified_body(1)[OF blind_ingest_many_tx fire_batch_hook_calls ingest_many_notifies run]
  from n[of h l] n[of None "[]"] assms
  show ?thesis by auto
qed

theorem ingest_many_hook_isolated_witness:
  "db (snd (ingest_many [sample_item] (with_hook (Some \<lparr>answer = (\<lambda>_ _. None)\<rparr>) [] sample_store)))
     = db (snd (ingest_many [sample_item] (with_hook None [] sample_store)))"
  using ingest_many_hook_isolated[OF surjective_pairing surjective_pairing] by blast

text \<open>
  \<open>set_scope\<close> changes the scope of the one item named and nothing else; when it reports success the
  returned item is the stored one with the normalised scope.
\<close>

theorem set_scope_updates_map:
  assumes "set_scope i sc s = (r, s')"
  shows "let m = item_at (ext s) (db s); m' = item_at (ext s') (db s') in case r of
       Inr it \<Rightarrow> m' i = Some it \<and> (\<exists>n. opt_traverse validate sc = Inr n \<and>
         m' = m(i := map_option (scope_update (\<lambda>_. n)) (m i)))
     | Inl e \<Rightarrow> \<forall>j. j \<noteq> i \<longrightarrow> m' j = m j"
proof -
  have ext: "ext s' = ext s" using keepsD[OF set_scope_keeps assms] by (simp add: handle_def)
  show ?thesis
  proof (cases r)
    case (Inl e)
    then show ?thesis using set_scope_effect[OF assms] ext by (auto simp: item_at_move Let_def)
  next
    case (Inr it)
    from assms Inr obtain n c s1 where n: "opt_traverse validate sc = Inr n"
      and u: "exec ''updating scope'' (set_scope_stmt n i) s = (Inr c, s1)" and g: "get i s1 = (Inr it, s')"
      unfolding set_scope_def
      by (auto elim!: bindM_InrE simp: op_defs split: if_splits dest!: assert_writable_effect)
    have d: "db s1 = move_scope n i (db s)" "ext s1 = ext s"
      using u by (auto elim!: exec_InrE simp: set_scope_stmt_def update_row_def dest!: sql_Inr)
    have "db s' = db s1" using get_keeps[of db i] g by (simp add: keepsD)
    then show ?thesis using get_Inr[OF g] Inr n d ext by (auto simp: item_at_move Let_def)
  qed
qed

lemma run_set_scope_sample:
  "set_scope 48 (Some ''a'') sample_store_1 = (Inr (sample_stored\<lparr>scope := Some ''a''\<rparr>),
     sample_store_1\<lparr>db := move_scope (Some ''a'') 48 (db sample_store_1)\<rparr>)"
proof -
  have v: "validate ''a'' = Inr ''a''" by code_simp
  have st: "set_scope_stmt (Some ''a'') 48 (db sample_store_1) = Inr (move_scope (Some ''a'') 48 (db sample_store_1), 1)"
    by (simp add: set_scope_stmt_def update_row_def add_item_def empty_db_def row_of_item_def sample_stored_def)
  show ?thesis
    using st
    by (simp add: set_scope_def assert_writable_def bindM_def lift_def v rbind_def exec_no_faults get_no_faults
        item_at_move item_at_add fits_sample)
qed

theorem set_scope_updates_map_witness:
  "item_at sample_ext (move_scope (Some ''a'') 48 (db sample_store_1)) 48 = Some (sample_stored\<lparr>scope := Some ''a''\<rparr>)"
  using set_scope_updates_map[OF run_set_scope_sample] by (simp add: Let_def)

text \<open>
  \<open>set_scope\<close> is not atomic: the update commits on its own, so that when the read that follows
  fails the caller gets an error although the scope has changed.
\<close>

theorem set_scope_error_after_change:
  "\<exists>s e s'. wf_items (db s) \<and> set_scope 48 (Some ''a'') s = (Inl e, s') \<and>
     db s' = move_scope (Some ''a'') 48 (db s) \<and> db s' \<noteq> db s"
proof -
  let ?s = "sample_store_1\<lparr>faults := [False, True]\<rparr>"
  have v: "validate ''a'' = Inr ''a''" by code_simp
  have st: "set_scope_stmt (Some ''a'') 48 (db sample_store_1) = Inr (move_scope (Some ''a'') 48 (db sample_store_1), 1)"
    by (simp add: set_scope_stmt_def update_row_def add_item_def empty_db_def row_of_item_def sample_stored_def)
  have "set_scope 48 (Some ''a'') ?s = (Inl (Sqlite ''preparing get statement''),
      sample_store_1\<lparr>faults := [], db := move_scope (Some ''a'') 48 (db sample_store_1)\<rparr>)"
    using st
    by (simp add: set_scope_def assert_writable_def bindM_def lift_def v rbind_def exec_def sql_def get_def load_item_def)
  moreover have "move_scope (Some ''a'') 48 (db sample_store_1) \<noteq> db sample_store_1"
    by (simp add: update_row_def add_item_def empty_db_def row_of_item_def sample_stored_def)
  ultimately show ?thesis using wf_sample_1 by (intro exI[of _ ?s]) auto
qed

text \<open>
  content that begins with a NUL byte passes \<open>NewItem::validate\<close>, but SQLite measures it as empty
  and the insertion fails with a database error instead of a validation error.
\<close>

theorem nul_content_is_a_database_error:
  assumes "faults s = []" "wf_items (db s)" "\<not> read_only s" "n_content it = CHR 0x00 # c"
    "validate_item it = Inr v" "n_supersedes it = None" "0 \<le> as_millisecond (ext s) (clock s (ticks s))"
  shows "fst (ingest it s) = Inl (Sqlite ''inserting item row'')"
proof -
  let ?s = "s\<lparr>ticks := Suc (ticks s), draws := Suc (draws s)\<rparr>"
  have "insert_outcome it i (db s) = Inl (Sqlite ''inserting item row'')" for i
    by (simp add: insert_outcome_def assms(4,6) sql_length_def rbind_def)
  then show ?thesis
    unfolding ingest_unfold[OF assms(3,5) refl refl assms(7) refl refl]
    by (simp add: bindM_def[of "transaction b d body" for b d body] transaction_no_faults
        ingest_body_no_faults[of ?s, OF _ assms(5)] assms(1,2))
qed

theorem nul_content_is_a_database_error_witness:
  "fst (ingest (new_item_text [CHR 0x00, CHR ''x'']) sample_store) = Inl (Sqlite ''inserting item row'')"
proof -
  have "validate_item (new_item_text [CHR 0x00, CHR ''x'']) = Inr \<lparr>v_tags = [], v_scope = None\<rparr>"
    by (simp add: validate_item_Inr good_fields_def new_item_text_def default_metadata_def)
  from nul_content_is_a_database_error[OF _ _ _ _ this] show ?thesis
    by (simp add: new_item_text_def) (simp add: sample_store_def sample_ext_def)
qed

end
