(* ===== verification/Query.thy ===== *)
theory Query
  imports Store
begin

text \<open>
  The read operations of the store (\<open>singularmem-core/src/query.rs\<close>): lookups, the tag and scope
  listings, counts, and the two walks along supersession, \<open>revision_history\<close> and \<open>latest_revision\<close>,
  whose loops are shown to end on every store the writes can produce.
\<close>

section \<open>Lookups\<close>

definition get_optional :: "ulid \<Rightarrow> item option op" where
  "get_optional i s =
     (case get i s of
        (Inr it, s') \<Rightarrow> (Inr (Some it), s')
      | (Inl e, s') \<Rightarrow> (case e of NotFound _ \<Rightarrow> (Inr None, s') | _ \<Rightarrow> (Inl e, s')))"

definition get_by_external_id :: "string \<Rightarrow> item option op" where
  "get_by_external_id e =
     bindM (select ''looking up external_id'' (\<lambda>d. find (\<lambda>r. r_external_id r = Some e) (items d)))
       (\<lambda>row. case row of
          None \<Rightarrow> ret None
        | Some r \<Rightarrow> bindM (load_item (r_id r)) (\<lambda>it. ret (Some it)))"

definition existing_external_ids :: "string list \<Rightarrow> string set op" where
  "existing_external_ids ids =
     bindM (sql ''preparing external_id existence query'') (\<lambda>_.
     bindM (mapM (\<lambda>i. bindM (select ''checking external_id existence'' (\<lambda>d. i \<in> set (ext_ids d)))
        (\<lambda>hit. ret (if hit then [i] else []))) ids) (\<lambda>hits.
     ret (set (concat hits))))"

definition scope_of :: "ulid \<Rightarrow> string option op" where
  "scope_of i =
     bindM (select ''reading scope'' (find_row i)) (\<lambda>row. case row of
        None \<Rightarrow> fail (NotFound i)
      | Some r \<Rightarrow> ret (r_scope r))"

section \<open>Listings\<close>

text \<open>A query is prepared, executed and its rows collected; each of the three can fail.\<close>

definition run_query :: "string \<Rightarrow> string \<Rightarrow> string \<Rightarrow> (database \<Rightarrow> 'a) \<Rightarrow> 'a op" where
  "run_query c1 c2 c3 q = bindM (sql c1) (\<lambda>_. bindM (sql c2) (\<lambda>_. select c3 q))"

text \<open>
  \<open>id IN (SELECT item_id FROM item_tags WHERE tag IN (..) GROUP BY item_id HAVING COUNT(DISTINCT tag) = n)\<close>
  with \<open>n\<close> the length of the requested list.
\<close>

definition has_tags :: "database \<Rightarrow> string list \<Rightarrow> item_row \<Rightarrow> bool" where
  "has_tags d ts r \<longleftrightarrow>
     ts = [] \<or>
     (let hits = {t. (r_id r, t) \<in> set (item_tags d) \<and> t \<in> set ts}
      in hits \<noteq> {} \<and> card hits = length ts)"

definition in_filter :: "scope_filter option \<Rightarrow> item_row \<Rightarrow> bool" where
  "in_filter f r = (case f of None \<Rightarrow> True | Some g \<Rightarrow> sql_matches g (r_scope r))"

definition list_by_tags_scoped :: "string list \<Rightarrow> scope_filter option \<Rightarrow> ulid list op" where
  "list_by_tags_scoped ts f =
     bindM (gets (\<lambda>s. scan_items (ext s))) (\<lambda>scan.
     run_query ''preparing scoped list query'' ''executing scoped list query'' ''collecting scoped list IDs''
       (\<lambda>d. map r_id (sort_key r_created_at
          (filter (\<lambda>r. has_tags d ts r \<and> in_filter f r) (scan (items d))))))"

definition list_scoped :: "scope_filter option \<Rightarrow> ulid list op" where
  "list_scoped f = list_by_tags_scoped [] f"

definition list_by_tags :: "string list \<Rightarrow> ulid list op" where
  "list_by_tags ts = list_by_tags_scoped ts None"

definition list_all_items :: "ulid list op" where
  "list_all_items = list_by_tags_scoped [] None"

text \<open>\<open>ItemIter::next\<close>: the ids were fetched when the listing ran, the items are read one by one.\<close>

definition item_iter_next :: "ulid list \<Rightarrow> ((error + item) \<times> ulid list) option op" where
  "item_iter_next pending s =
     (case pending of
        [] \<Rightarrow> (Inr None, s)
      | i # rest \<Rightarrow> (case get i s of (r, s') \<Rightarrow> (Inr (Some (r, rest)), s')))"

definition scopes :: "(string \<times> nat) list op" where
  "scopes = run_query ''preparing scopes query'' ''executing scopes query'' ''collecting scopes''
     (\<lambda>d. let present = List.map_filter r_scope (items d)
          in map (\<lambda>p. (p, count_list present p)) (remdups_adj (sort present)))"

text \<open>\<open>ORDER BY created_at DESC LIMIT n\<close>; a limit beyond \<open>i64::MAX\<close> is no limit.\<close>

definition recent :: "scope_filter option \<Rightarrow> nat \<Rightarrow> item list op" where
  "recent f limit =
     (if limit = 0 then ret []
      else bindM (gets (\<lambda>s. scan_items (ext s))) (\<lambda>scan.
        bindM (run_query ''preparing recent query'' ''executing recent query'' ''collecting recent IDs''
          (\<lambda>d. take limit (map r_id (rev (sort_key r_created_at
             (rev (filter (in_filter f) (scan (items d))))))))) (\<lambda>ids.
        mapM get ids)))"

definition count_scoped :: "scope_filter option \<Rightarrow> nat op" where
  "count_scoped f = select ''counting scoped items'' (\<lambda>d. length (filter (in_filter f) (items d)))"

definition count_scoped_any :: "scope_filter list \<Rightarrow> nat op" where
  "count_scoped_any fs =
     (if fs = [] then ret 0
      else select ''counting scoped items (union)''
        (\<lambda>d. length (filter (\<lambda>r. \<exists>f \<in> set fs. sql_matches f (r_scope r)) (items d))))"

section \<open>Revisions\<close>

text \<open>The loops have no bound of their own: a loop that does not return is \<open>None\<close>.\<close>

partial_function (option) history_loop ::
  "item \<Rightarrow> item list \<Rightarrow> store \<Rightarrow> ((error + item list) \<times> store) option"
where
  "history_loop cursor history s =
     (case supersedes cursor of
        None \<Rightarrow> Some (Inr history, s)
      | Some prev_id \<Rightarrow>
          (case get prev_id s of
             (Inl e, s') \<Rightarrow> Some (Inl e, s')
           | (Inr prev, s') \<Rightarrow> history_loop prev (history @ [prev]) s'))"

definition revision_history :: "ulid \<Rightarrow> store \<Rightarrow> ((error + item list) \<times> store) option" where
  "revision_history i s =
     (case get i s of
        (Inl e, s') \<Rightarrow> Some (Inl e, s')
      | (Inr it, s') \<Rightarrow> history_loop it [it] s')"

definition successors :: "ulid \<Rightarrow> ulid list op" where
  "successors i =
     bindM (gets (\<lambda>s. scan_items (ext s))) (\<lambda>scan.
     run_query ''preparing latest_revision walk'' ''executing latest_revision walk''
       ''collecting latest_revision walk IDs''
       (\<lambda>d. map r_id (filter (\<lambda>r. r_supersedes r = Some i) (scan (items d)))))"

partial_function (option) latest_loop :: "ulid \<Rightarrow> store \<Rightarrow> ((error + item) \<times> store) option" where
  "latest_loop cur s =
     (case successors cur s of
        (Inl e, s') \<Rightarrow> Some (Inl e, s')
      | (Inr next_ids, s') \<Rightarrow>
          (case next_ids of
             [] \<Rightarrow> Some (get cur s')
           | n # others \<Rightarrow>
               if others = [] then latest_loop n s' else Some (Inl (AmbiguousLatest next_ids), s')))"

definition latest_revision :: "ulid \<Rightarrow> store \<Rightarrow> ((error + item) \<times> store) option" where
  "latest_revision i s =
     (case get i s of
        (Inl e, s') \<Rightarrow> Some (Inl e, s')
      | (Inr _, s') \<Rightarrow> latest_loop i s')"

section \<open>Reads change nothing but the fault script\<close>

lemma keeps_load_get [keeps_intros]: "(\<And>s bs. f (s\<lparr>faults := bs\<rparr>) = f s) \<Longrightarrow> keeps f (get i)"
  by (rule get_keeps)

lemma keeps_run_query [keeps_intros]:
  "(\<And>s bs. f (s\<lparr>faults := bs\<rparr>) = f s) \<Longrightarrow> keeps f (run_query c1 c2 c3 q)"
  unfolding run_query_def by (intro keeps_intros)

lemma keeps_successors [keeps_intros]:
  "(\<And>s bs. f (s\<lparr>faults := bs\<rparr>) = f s) \<Longrightarrow> keeps f (successors i)"
  unfolding successors_def by (intro keeps_intros)

lemma run_query_Inr: "run_query c1 c2 c3 q s = (Inr x, s') \<Longrightarrow> x = q (db s)"
  unfolding run_query_def by (auto elim!: bindM_InrE select_InrE dest!: sql_Inr)

lemma run_query_no_faults [op_simps]: "faults s = [] \<Longrightarrow> run_query c1 c2 c3 q s = (Inr (q (db s)), s)"
  by (simp add: run_query_def bindM_def sql_no_faults select_no_faults)

definition view :: "store \<Rightarrow> database \<times> externals" where
  "view s = (db s, ext s)"

lemma view_faults [simp]: "view (s\<lparr>faults := b\<rparr>) = view s"
  by (simp add: view_def)

lemma get_view: "get i s = (r, s') \<Longrightarrow> view s' = view s"
  by (rule keepsD[OF get_keeps]) simp_all

lemma get_item_id: "get i s = (Inr it, s') \<Longrightarrow> item_id it = i \<and> i \<in> item_ids (db s)"
  by (drule get_Inr)
    (auto simp: item_at_Some item_of_row_def item_ids_def dest!: find_row_Some)

lemma get_supersedes:
  "get i s = (Inr it, s') \<Longrightarrow> \<exists>r \<in> set (items (db s)). r_id r = i \<and> r_supersedes r = supersedes it"
  by (drule get_Inr)
    (auto simp: item_at_Some item_of_row_def dest!: find_row_Some)

section \<open>Supersession goes back in insertion order\<close>

definition pos :: "database \<Rightarrow> ulid \<Rightarrow> nat" where
  "pos d i = length (takeWhile (\<lambda>r. r_id r \<noteq> i) (items d))"

lemma chain_ok_take:
  "chain_ok A xs \<Longrightarrow> k < length xs \<Longrightarrow> r_supersedes (xs ! k) = Some t \<Longrightarrow> t \<in> A \<union> r_id ` set (take k xs)"
proof (induction xs arbitrary: A k)
  case (Cons x xs) then show ?case by (cases k) auto
qed simp

lemma pos_nth:
  assumes "distinct (map r_id (items d))" "k < length (items d)"
  shows "pos d (r_id (items d ! k)) = k"
proof -
  have "takeWhile (\<lambda>r. r_id r \<noteq> r_id (items d ! k)) (items d) = take k (items d)"
    by (rule takeWhile_eq_take_P_nth)
      (use assms in \<open>auto simp: nth_eq_iff_index_eq[OF assms(1), simplified] distinct_conv_nth\<close>)
  then show ?thesis using assms(2) by (simp add: pos_def)
qed

lemma supersedes_pos:
  assumes "wf_items d" "r \<in> set (items d)" "r_supersedes r = Some t"
  shows "pos d t < pos d (r_id r)" "t \<in> item_ids d" "pos d (r_id r) < length (items d)"
proof -
  obtain k where k: "k < length (items d)" "r = items d ! k" using assms(2) by (metis in_set_conv_nth)
  have "t \<in> r_id ` set (take k (items d))"
    using chain_ok_take[of "{}" "items d" k t] assms k by (simp add: wf_items_def)
  then obtain j where j: "j < k" "t = r_id (items d ! j)" using k(1)
    by (auto simp: in_set_conv_nth)
  have "distinct (map r_id (items d))" using assms(1) by (simp add: wf_items_def)
  from pos_nth[OF this] show "pos d t < pos d (r_id r)" "pos d (r_id r) < length (items d)" using j k by auto
  show "t \<in> item_ids d" using j k by (simp add: item_ids_def)
qed

section \<open>Both walks end\<close>

definition scans :: "externals \<Rightarrow> bool" where
  "scans x \<longleftrightarrow> (\<forall>rs. mset (scan_items x rs) = mset rs) \<and> (\<forall>fs. mset (scan_facts x fs) = mset fs)"

lemma scans_set: "scans x \<Longrightarrow> set (scan_items x rs) = set rs"
  by (metis scans_def set_mset_mset)

lemma history_loop_ends:
  assumes "wf_items (db s)" "r \<in> set (items (db s))" "r_supersedes r = supersedes cursor"
  shows "\<exists>y. history_loop cursor h s = Some y"
  using assms
proof (induction "pos (db s) (r_id r)" arbitrary: r cursor h s rule: less_induct)
  case less
  show ?case
  proof (cases "supersedes cursor")
    case None then show ?thesis by (simp add: history_loop.simps)
  next
    case (Some t)
    obtain q s' where g: "get t s = (q, s')" by fastforce
    show ?thesis
    proof (cases q)
      case (Inl e) then show ?thesis using Some g by (simp add: history_loop.simps)
    next
      case (Inr it)
      have d: "db s' = db s" using get_view[OF g] by (simp add: view_def)
      obtain r' where r': "r' \<in> set (items (db s))" "r_id r' = t" "r_supersedes r' = supersedes it"
        using get_supersedes[OF g[unfolded Inr]] by blast
      have "pos (db s) (r_id r') < pos (db s) (r_id r)"
        using supersedes_pos(1)[OF less.prems(1,2)] less.prems(3) Some r'(2) by simp
      then have "\<exists>y. history_loop it (h @ [it]) s' = Some y"
        using less.hyps[of s' r' it "h @ [it]"] d r' less.prems(1) by simp
      then show ?thesis using Some g Inr by (simp add: history_loop.simps)
    qed
  qed
qed

lemma history_loop_chain:
  assumes "wf_items (db s)" "r \<in> set (items (db s))" "r_supersedes r = supersedes cursor"
    "history_loop cursor h s = Some (Inr hs, s')"
  shows "\<exists>tl. hs = h @ tl \<and> successively (\<lambda>a b. supersedes a = Some (item_id b)) (cursor # tl) \<and>
    supersedes (last (cursor # tl)) = None \<and>
    (\<forall>it \<in> set tl. item_at (ext s) (db s) (item_id it) = Some it)"
  using assms
proof (induction "pos (db s) (r_id r)" arbitrary: r cursor h s rule: less_induct)
  case less
  show ?case
  proof (cases "supersedes cursor")
    case None then show ?thesis using less.prems by (simp add: history_loop.simps)
  next
    case (Some t)
    with less.prems(4) obtain it s1 where g: "get t s = (Inr it, s1)"
      and rec: "history_loop it (h @ [it]) s1 = Some (Inr hs, s')"
      by (auto simp: history_loop.simps[of cursor] split: prod.splits sum.splits)
    have d: "db s1 = db s" "ext s1 = ext s" using get_view[OF g] by (simp_all add: view_def)
    obtain r' where r': "r' \<in> set (items (db s))" "r_id r' = t" "r_supersedes r' = supersedes it"
      using get_supersedes[OF g] by blast
    have "pos (db s) (r_id r') < pos (db s) (r_id r)"
      using supersedes_pos(1)[OF less.prems(1,2)] less.prems(3) Some r'(2) by simp
    then obtain tl where tl: "hs = (h @ [it]) @ tl"
      "successively (\<lambda>a b. supersedes a = Some (item_id b)) (it # tl)"
      "supersedes (last (it # tl)) = None"
      "\<forall>it \<in> set tl. item_at (ext s) (db s) (item_id it) = Some it"
      using less.hyps[of s1 r' it "h @ [it]"] d r' less.prems(1) rec by auto
    have "item_at (ext s) (db s) t = Some it" "item_id it = t"
      using get_Inr[OF g] get_item_id[OF g] by auto
    with tl Some show ?thesis by (intro exI[of _ "it # tl"]) auto
  qed
qed

lemma successors_Inr:
  assumes "successors i s = (Inr ids, s')" "scans (ext s)"
  shows "set ids = {r_id r | r. r \<in> set (items (db s)) \<and> r_supersedes r = Some i}" "view s' = view s"
proof -
  have "ids = map r_id (filter (\<lambda>r. r_supersedes r = Some i) (scan_items (ext s) (items (db s))))"
    using assms(1) unfolding successors_def
    by (auto elim!: bindM_InrE dest!: run_query_Inr simp: gets_def)
  then show "set ids = {r_id r | r. r \<in> set (items (db s)) \<and> r_supersedes r = Some i}"
    using scans_set[OF assms(2)] by auto
  have "keeps view (successors i)" by (intro keeps_intros) simp
  then show "view s' = view s" using assms(1) by (rule keepsD)
qed

lemma latest_step:
  assumes "wf_items (db s)" "scans (ext s)" "successors cur s = (Inr (n # more'), s1)"
  shows "pos (db s) cur < pos (db s) n" "pos (db s) n < length (items (db s))"
    "\<exists>r \<in> set (items (db s)). r_id r = n \<and> r_supersedes r = Some cur"
proof -
  obtain r where r: "r \<in> set (items (db s))" "r_id r = n" "r_supersedes r = Some cur"
    using successors_Inr(1)[OF assms(3,2)] insertI1[of n "set more'"] by auto
  then show "\<exists>r \<in> set (items (db s)). r_id r = n \<and> r_supersedes r = Some cur" by blast
  show "pos (db s) cur < pos (db s) n" "pos (db s) n < length (items (db s))"
    using supersedes_pos[OF assms(1) r(1,3)] r(2) by simp_all
qed

lemma latest_loop_ends:
  assumes "wf_items (db s)" "scans (ext s)"
  shows "\<exists>y. latest_loop cur s = Some y"
  using assms
proof (induction "length (items (db s)) - pos (db s) cur" arbitrary: cur s rule: less_induct)
  case less
  obtain q s1 where su: "successors cur s = (q, s1)" by fastforce
  show ?case
  proof (cases "\<exists>n. q = Inr [n]")
    case False
    then show ?thesis using su by (auto simp: latest_loop.simps split: sum.splits list.splits)
  next
    case True
    then obtain n where n: "q = Inr [n]" by blast
    have v: "db s1 = db s" "ext s1 = ext s"
      using successors_Inr(2)[OF su[unfolded n] less.prems(2)] by (simp_all add: view_def)
    have "length (items (db s)) - pos (db s) n < length (items (db s)) - pos (db s) cur"
      using latest_step[OF less.prems su[unfolded n]] by arith
    then have "\<exists>y. latest_loop n s1 = Some y" using less.hyps[of s1 n] v less.prems by simp
    then show ?thesis using su n by (simp add: latest_loop.simps)
  qed
qed

inductive revised_to :: "database \<Rightarrow> ulid \<Rightarrow> ulid \<Rightarrow> bool" for d where
  revised_refl: "revised_to d i i"
| revised_step: "r \<in> set (items d) \<Longrightarrow> r_supersedes r = Some i \<Longrightarrow> revised_to d (r_id r) k \<Longrightarrow> revised_to d i k"

lemma latest_loop_result:
  assumes "wf_items (db s)" "scans (ext s)" "latest_loop cur s = Some (res, s')"
  shows "case res of
      Inr it \<Rightarrow> revised_to (db s) cur (item_id it) \<and> (\<forall>r \<in> set (items (db s)). r_supersedes r \<noteq> Some (item_id it))
    | Inl e \<Rightarrow> \<forall>ids. e = AmbiguousLatest ids \<longrightarrow> 2 \<le> length ids"
  using assms
proof (induction "length (items (db s)) - pos (db s) cur" arbitrary: cur s rule: less_induct)
  case less
  obtain q s1 where su: "successors cur s = (q, s1)" by fastforce
  have v: "q = Inr ids \<Longrightarrow> db s1 = db s \<and> ext s1 = ext s" for ids
    using successors_Inr(2) su less.prems(2) by (auto simp: view_def)
  consider e where "q = Inl e" | "q = Inr []" | n where "q = Inr [n]"
    | n m ms where "q = Inr (n # m # ms)"
    by (cases q) (auto, metis neq_Nil_conv)
  then show ?case
  proof cases
    case 1
    have "e = AmbiguousLatest ids \<Longrightarrow> False" for ids
      using su 1 unfolding successors_def run_query_def select_def
      by (auto elim!: bindM_InlE simp: gets_def sql_def split: list.splits if_splits)
    then show ?thesis using less.prems(3) su 1 by (auto simp: latest_loop.simps[of cur])
  next
    case 2
    have none: "\<forall>r \<in> set (items (db s)). r_supersedes r \<noteq> Some cur"
      using successors_Inr(1)[OF su[unfolded 2] less.prems(2)] by auto
    have g: "get cur s1 = (res, s')" using less.prems(3) su 2 by (simp add: latest_loop.simps[of cur])
    show ?thesis
    proof (cases res)
      case (Inr it)
      then have "item_id it = cur" using g get_item_id by blast
      then show ?thesis using none Inr by (auto intro: revised_refl)
    next
      case (Inl e)
      have "e = AmbiguousLatest ids \<Longrightarrow> False" for ids
        using g Inl unfolding get_def load_item_def select_def
        by (auto elim!: bindM_InlE bindM_InrE simp: gets_def sql_def fail_def ret_def
            split: list.splits if_splits option.splits)
      then show ?thesis using Inl by auto
    qed
  next
    case 3
    have d: "db s1 = db s" "ext s1 = ext s" using v 3 by auto
    note st = latest_step[OF less.prems(1,2) su[unfolded 3]]
    have "length (items (db s)) - pos (db s) n < length (items (db s)) - pos (db s) cur"
      using st by arith
    moreover have "latest_loop n s1 = Some (res, s')"
      using less.prems(3) su 3 by (simp add: latest_loop.simps[of cur])
    ultimately show ?thesis
      using less.hyps[of s1 n] d less.prems(1,2) st(3) by (auto split: sum.splits intro: revised_step)
  next
    case 4
    then show ?thesis using less.prems(3) su by (auto simp: latest_loop.simps[of cur])
  qed
qed

section \<open>What the listings select\<close>

lemma in_tags_of: "t \<in> set (tags_of i d) \<longleftrightarrow> (i, t) \<in> set (item_tags d)"
  by (force simp: tags_of_def)

lemma has_tags_distinct:
  assumes "distinct ts"
  shows "has_tags d ts r \<longleftrightarrow> set ts \<subseteq> set (tags_of (r_id r) d)"
proof (cases "ts = []")
  case False
  let ?hits = "{t. (r_id r, t) \<in> set (item_tags d) \<and> t \<in> set ts}"
  have sub: "?hits \<subseteq> set ts" by blast
  have "card ?hits = length ts \<longleftrightarrow> ?hits = set ts"
    using card_subset_eq[OF _ sub] distinct_card[OF assms] by auto
  moreover have "?hits = set ts \<longleftrightarrow> set ts \<subseteq> set (tags_of (r_id r) d)" by (auto simp: in_tags_of)
  moreover have "?hits = set ts \<longrightarrow> ?hits \<noteq> {}" using False by simp
  ultimately show ?thesis using False unfolding has_tags_def Let_def by argo
qed (simp add: has_tags_def)

lemma has_tags_duplicate:
  assumes "\<not> distinct ts"
  shows "\<not> has_tags d ts r"
proof -
  have "card {t. (r_id r, t) \<in> set (item_tags d) \<and> t \<in> set ts} \<le> card (set ts)"
    by (rule card_mono) auto
  also have "\<dots> < length ts" using assms card_distinct card_length le_neq_implies_less by blast
  finally show ?thesis using assms by (auto simp: has_tags_def Let_def)
qed

definition filter_matches :: "scope_filter option \<Rightarrow> string option \<Rightarrow> bool" where
  "filter_matches f sc = (case f of None \<Rightarrow> True | Some g \<Rightarrow> matches g sc)"

lemma in_filter_eq:
  assumes "wf_items d" "r \<in> set (items d)" "\<And>g. f = Some g \<Longrightarrow> scope_ok (sf_path g)"
  shows "in_filter f r = filter_matches f (r_scope r)"
proof -
  have "r_scope r = Some sc \<Longrightarrow> scope_ok sc" for sc using assms(1,2) by (auto simp: wf_items_def row_ok_def)
  then show ?thesis using assms(3)
    by (auto simp: in_filter_def filter_matches_def sql_matches_eq_matches split: option.splits)
qed

definition selected_rows :: "string list \<Rightarrow> scope_filter option \<Rightarrow> store \<Rightarrow> item_row list" where
  "selected_rows ts f s = sort_key r_created_at
     (filter (\<lambda>r. has_tags (db s) ts r \<and> in_filter f r) (scan_items (ext s) (items (db s))))"

lemma list_by_tags_scoped_no_faults:
  "faults s = [] \<Longrightarrow> list_by_tags_scoped ts f s = (Inr (map r_id (selected_rows ts f s)), s)"
  by (simp add: list_by_tags_scoped_def bindM_def gets_def run_query_no_faults selected_rows_def)

lemma selected_rows:
  assumes "wf_items (db s)" "scans (ext s)"
  shows "set (selected_rows ts f s) = {r \<in> set (items (db s)). has_tags (db s) ts r \<and> in_filter f r}"
    "distinct (map r_id (selected_rows ts f s))" "sorted (map r_created_at (selected_rows ts f s))"
proof -
  show "set (selected_rows ts f s) = {r \<in> set (items (db s)). has_tags (db s) ts r \<and> in_filter f r}"
    using scans_set[OF assms(2)] by (auto simp: selected_rows_def)
  have "mset (selected_rows ts f s) =
      filter_mset (\<lambda>r. has_tags (db s) ts r \<and> in_filter f r) (mset (items (db s)))"
    using assms(2) by (simp add: selected_rows_def scans_def mset_filter)
  then have "mset (map r_id (selected_rows ts f s)) =
      mset (map r_id (filter (\<lambda>r. has_tags (db s) ts r \<and> in_filter f r) (items (db s))))"
    by (simp add: mset_map mset_filter)
  moreover have "distinct (map r_id (filter P (items (db s))))" for P
    using assms(1) by (simp add: wf_items_def distinct_map_filter)
  ultimately show "distinct (map r_id (selected_rows ts f s))"
    by (metis mset_eq_imp_distinct_iff)
  show "sorted (map r_created_at (selected_rows ts f s))" by (simp add: selected_rows_def)
qed

lemma mapM_length: "mapM f xs s = (Inr ys, s') \<Longrightarrow> length ys = length xs"
  by (induction xs arbitrary: s ys) (auto simp: ret_def elim!: bindM_InrE)

lemma mapM_get:
  assumes "mapM get ids s = (Inr its, s')"
  shows "list_all2 (\<lambda>i it. item_at (ext s) (db s) i = Some it) ids its"
  using assms
proof (induction ids arbitrary: s its)
  case (Cons i ids)
  then obtain it s1 its' where g: "get i s = (Inr it, s1)" "mapM get ids s1 = (Inr its', s')" "its = it # its'"
    by (auto simp: ret_def elim!: bindM_InrE)
  have "ext s1 = ext s" "db s1 = db s" using get_view[OF g(1)] by (simp_all add: view_def)
  then show ?case using g Cons.IH[OF g(2)] get_Inr[OF g(1)] by simp
qed (simp add: ret_def)

lemma find_row_in:
  assumes "wf_items d" "r \<in> set (items d)" shows "find_row (r_id r) d = Some r"
proof -
  obtain q where q: "find_row (r_id r) d = Some q"
    using assms(2) find_row_None[of "r_id r" d] by (auto simp: item_ids_def)
  then have "q \<in> set (items d)" "r_id q = r_id r" by (auto dest: find_row_Some)
  then show ?thesis using q assms by (auto simp: wf_items_def distinct_map dest: inj_onD)
qed

lemma item_at_id: "item_at x d i = Some it \<Longrightarrow> item_id it = i"
  by (auto simp: item_at_Some item_of_row_def dest: find_row_Some)

lemma item_ids_read:
  "list_all2 (\<lambda>i it. item_at x d i = Some it) is its \<Longrightarrow> map item_id its = is"
  by (induction rule: list_all2_induct) (auto dest: item_at_id)

lemma items_read:
  "list_all2 (\<lambda>i it. item_at x d i = Some it) is its \<Longrightarrow> \<forall>it \<in> set its. item_at x d (item_id it) = Some it"
  by (induction rule: list_all2_induct) (auto dest: item_at_id)

lemma item_at_row:
  "wf_items d \<Longrightarrow> r \<in> set (items d) \<Longrightarrow> item_at x d (r_id r) = Some it \<Longrightarrow> scope it = r_scope r"
  by (auto simp: item_at_Some item_of_row_def find_row_in)

lemma scans_sample [simp]: "scans sample_ext"
  by (simp add: scans_def sample_ext_def)

lemma scope_ok_sample: "scope_ok ''a''"
  by (simp add: scope_ok_def good_segment_def is_valid_byte_def is_ascii_lowercase_def)

lemma sample_scan [simp]: "scan_items sample_ext = (\<lambda>rs. rs)"
  by (simp add: sample_ext_def)

lemma sample_1_tables:
  "items (add_item sample_ext sample_stored empty_db) = [row_of_item sample_ext sample_stored]"
  "tags_of 48 (add_item sample_ext sample_stored empty_db) = [''a'', ''b'']"
  "r_id (row_of_item sample_ext sample_stored) = 48" "r_scope (row_of_item sample_ext sample_stored) = None"
  by (simp add: add_item_def empty_db_def, simp add: tags_of_add fits_sample, simp add: sample_stored_def,
      simp_all add: row_of_item_def) (simp_all add: sample_stored_def)

section \<open>Properties\<close>

lemma revision_history_returns:
  assumes "wf_items (db s)"
  shows "\<exists>r s'. revision_history i s = Some (r, s') \<and>
    (\<forall>hs. r = Inr hs \<longrightarrow> hs \<noteq> [] \<and> item_id (hd hs) = i \<and>
       successively (\<lambda>a b. supersedes a = Some (item_id b)) hs \<and> supersedes (last hs) = None \<and>
       (\<forall>it \<in> set hs. item_at (ext s) (db s) (item_id it) = Some it))"
proof -
  obtain q s1 where g: "get i s = (q, s1)" by fastforce
  show ?thesis
  proof (cases q)
    case (Inl e) then show ?thesis using g by (simp add: revision_history_def)
  next
    case (Inr it)
    have d: "db s1 = db s" "ext s1 = ext s" using get_view[OF g] by (simp_all add: view_def)
    obtain r where r: "r \<in> set (items (db s1))" "r_supersedes r = supersedes it"
      using get_supersedes[OF g[unfolded Inr]] d by auto
    obtain q2 s2 where run: "history_loop it [it] s1 = Some (q2, s2)"
      using history_loop_ends[of s1, OF _ r, of "[it]"] assms d by auto
    have hd: "item_id it = i" "item_at (ext s) (db s) i = Some it"
      using g Inr get_item_id get_Inr by blast+
    show ?thesis
    proof (cases q2)
      case (Inl e) then show ?thesis using g Inr run \<open>q = Inr it\<close> by (simp add: revision_history_def)
    next
      case (Inr hs)
      then show ?thesis
        using history_loop_chain[of s1, OF _ r run[unfolded Inr]] assms d g \<open>q = Inr it\<close> hd run
        by (auto simp: revision_history_def)
    qed
  qed
qed

text \<open>
  C21: \<open>revision_history\<close> returns on every store the writes can produce: its loop cannot run round a
  cycle. A successful answer is the chain of supersession from the requested item, each item
  superseding the next, down to an item that supersedes nothing.
\<close>

theorem revision_history_total:
  assumes "wf_items (db s)"
  shows "\<exists>r s'. revision_history i s = Some (r, s') \<and>
    (\<forall>hs. r = Inr hs \<longrightarrow> hs \<noteq> [] \<and> item_id (hd hs) = i \<and>
       successively (\<lambda>a b. supersedes a = Some (item_id b)) hs \<and> supersedes (last hs) = None \<and>
       (\<forall>it \<in> set hs. item_at (ext s) (db s) (item_id it) = Some it))"
  by (rule revision_history_returns[OF assms])

theorem revision_history_total_witness:
  "\<exists>r s'. revision_history 48 sample_store_1 = Some (r, s') \<and>
    (\<forall>hs. r = Inr hs \<longrightarrow> hs \<noteq> [] \<and> item_id (hd hs) = 48)"
  using revision_history_total[OF wf_sample_1, of 48] by blast

text \<open>
  \<open>latest_revision\<close> returns on every store the writes can produce; its answer is reached from the
  requested item by supersession and nothing supersedes it, and it reports ambiguity only on a fork.
\<close>

theorem latest_revision_total:
  assumes "wf_items (db s)" "scans (ext s)"
  shows "\<exists>r s'. latest_revision i s = Some (r, s') \<and> (case r of
      Inr it \<Rightarrow> revised_to (db s) i (item_id it) \<and>
        (\<forall>q \<in> set (items (db s)). r_supersedes q \<noteq> Some (item_id it))
    | Inl e \<Rightarrow> \<forall>ids. e = AmbiguousLatest ids \<longrightarrow> 2 \<le> length ids)"
proof -
  obtain q s1 where g: "get i s = (q, s1)" by fastforce
  show ?thesis
  proof (cases q)
    case (Inl e)
    have "e \<noteq> AmbiguousLatest ids" for ids
      using g Inl unfolding get_def load_item_def select_def
      by (auto elim!: bindM_InlE bindM_InrE simp: gets_def sql_def fail_def ret_def
          split: list.splits if_splits option.splits)
    then show ?thesis using g Inl by (simp add: latest_revision_def)
  next
    case (Inr it)
    have d: "db s1 = db s" "ext s1 = ext s" using get_view[OF g] by (simp_all add: view_def)
    obtain res s2 where run: "latest_loop i s1 = Some (res, s2)"
      using latest_loop_ends[of s1 i] assms d by auto
    from latest_loop_result[OF _ _ this] show ?thesis
      using run g Inr assms d by (cases res) (simp_all add: latest_revision_def)
  qed
qed

theorem latest_revision_total_witness: "\<exists>r s'. latest_revision 48 sample_store_1 = Some (r, s')"
  using latest_revision_total[OF wf_sample_1, of 48] scans_sample by auto

text \<open>
  \<open>list_by_tags_scoped\<close> with tags that are pairwise different lists each item that has all of them
  and lies in the filter exactly once, in the order of the stored time text.
\<close>

theorem list_by_tags_scoped_exact:
  assumes "faults s = []" "wf_items (db s)" "scans (ext s)" "distinct ts"
    "\<And>g. f = Some g \<Longrightarrow> scope_ok (sf_path g)"
  shows "\<exists>rows. list_by_tags_scoped ts f s = (Inr (map r_id rows), s) \<and> distinct (map r_id rows) \<and>
    sorted (map r_created_at rows) \<and>
    set rows = {r \<in> set (items (db s)). set ts \<subseteq> set (tags_of (r_id r) (db s)) \<and> filter_matches f (r_scope r)}"
  using selected_rows[OF assms(2,3), of ts f] has_tags_distinct[OF assms(4)] in_filter_eq[OF assms(2) _ assms(5)]
  by (intro exI[of _ "selected_rows ts f s"])
    (auto simp: list_by_tags_scoped_no_faults[OF assms(1)])

theorem list_by_tags_scoped_exact_witness:
  "\<exists>rows :: item_row list. list_by_tags_scoped [''a'', ''b''] None sample_store_1 = (Inr (map r_id rows), sample_store_1) \<and>
     r_id ` set rows = {48}"
proof -
  have "distinct [''a'', ''b'']" by simp
  from list_by_tags_scoped_exact[of sample_store_1 _ None, OF _ wf_sample_1 _ this]
  obtain rows where rows: "list_by_tags_scoped [''a'', ''b''] None sample_store_1 = (Inr (map r_id rows), sample_store_1)"
    "set rows = {r \<in> set (items (db sample_store_1)). set [''a'', ''b''] \<subseteq> set (tags_of (r_id r) (db sample_store_1))
       \<and> filter_matches None (r_scope r)}"
    by auto
  have "set rows = {row_of_item sample_ext sample_stored}"
    unfolding rows(2) by (auto simp: filter_matches_def sample_1_tables)
  with rows(1) show ?thesis using sample_1_tables(3) by (intro exI[of _ rows]) simp
qed

text \<open>
  a tag requested twice makes \<open>list_by_tags\<close> find nothing, whatever the store holds: the query
  compares the number of distinct tags found with the length of the request.
\<close>

theorem list_by_tags_repeated:
  assumes "faults s = []" "\<not> distinct ts"
  shows "list_by_tags ts s = (Inr [], s)"
  using assms by (simp add: list_by_tags_def list_by_tags_scoped_no_faults selected_rows_def has_tags_duplicate)

theorem list_by_tags_repeated_witness:
  "list_by_tags [''a'', ''a''] sample_store_1 = (Inr [], sample_store_1)"
  using list_by_tags_repeated[of sample_store_1 "[''a'', ''a'']"] by simp

text \<open>The rows \<open>recent\<close> reads the items of, newest first.\<close>

definition newest_rows :: "scope_filter option \<Rightarrow> store \<Rightarrow> item_row list" where
  "newest_rows f s = rev (sort_key r_created_at (rev (filter (in_filter f) (scan_items (ext s) (items (db s))))))"

lemma recent_reads:
  assumes "recent f n s = (Inr its, s')"
  shows "view s' = view s \<and>
    list_all2 (\<lambda>i it. item_at (ext s) (db s) i = Some it) (take n (map r_id (newest_rows f s))) its"
proof (cases "n = 0")
  case True then show ?thesis using assms by (simp add: recent_def ret_def)
next
  case False
  from assms False obtain ids s1 where q: "run_query ''preparing recent query'' ''executing recent query''
      ''collecting recent IDs'' (\<lambda>d. take n (map r_id (rev (sort_key r_created_at
        (rev (filter (in_filter f) (scan_items (ext s) (items d)))))))) s = (Inr ids, s1)"
    and m: "mapM get ids s1 = (Inr its, s')"
    unfolding recent_def by (auto elim!: bindM_InrE simp: gets_def)
  have "keeps view (run_query c1 c2 c3 g)" for c1 c2 c3 and g :: "database \<Rightarrow> ulid list" by (intro keeps_intros) simp
  from keepsD[OF this q] have v: "view s1 = view s" .
  have "keeps view (mapM get ids)" by (intro keeps_intros get_keeps) simp
  from keepsD[OF this m] have "view s' = view s" using v by simp
  moreover have "ids = take n (map r_id (newest_rows f s))" using run_query_Inr[OF q] by (simp add: newest_rows_def)
  ultimately show ?thesis using mapM_get[OF m] v by (simp add: view_def)
qed

lemma newest_rows_facts:
  assumes "wf_items (db s)" "scans (ext s)"
  shows "set (newest_rows f s) = {r \<in> set (items (db s)). in_filter f r}" "distinct (map r_id (newest_rows f s))"
    "sorted_wrt (\<lambda>a b. r_created_at b \<le> r_created_at a) (newest_rows f s)"
proof -
  have rows: "mset (newest_rows f s) = mset (filter (in_filter f) (items (db s)))"
    using assms(2) by (simp add: newest_rows_def scans_def mset_filter)
  then show "set (newest_rows f s) = {r \<in> set (items (db s)). in_filter f r}" by (metis set_filter set_mset_mset)
  show "distinct (map r_id (newest_rows f s))"
    using rows assms(1) distinct_map_filter[of r_id "items (db s)" "in_filter f"]
    by (metis mset_eq_imp_distinct_iff mset_map wf_items_def)
  show "sorted_wrt (\<lambda>a b. r_created_at b \<le> r_created_at a) (newest_rows f s)"
    unfolding newest_rows_def sorted_wrt_rev using sorted_sort_key by (simp add: sorted_map)
qed

text \<open>
  \<open>recent\<close> answers with stored items inside the filter, at most \<open>limit\<close> of them, each once.
\<close>

theorem recent_bounded:
  assumes "wf_items (db s)" "scans (ext s)" "recent f n s = (Inr its, s')"
    "\<And>g. f = Some g \<Longrightarrow> scope_ok (sf_path g)"
  shows "length its \<le> n \<and> distinct (map item_id its) \<and>
    (\<forall>it \<in> set its. item_at (ext s) (db s) (item_id it) = Some it \<and> filter_matches f (scope it))"
proof -
  note all2 = conjunct2[OF recent_reads[OF assms(3)]]
  note rows = newest_rows_facts[OF assms(1,2), of f]
  have ids: "map item_id its = take n (map r_id (newest_rows f s))"
    by (rule item_ids_read[OF all2])
  have "length its \<le> n" using list_all2_lengthD[OF all2] by simp
  moreover have "distinct (map item_id its)" using rows(2) by (simp add: ids distinct_take)
  moreover have "item_at (ext s) (db s) (item_id it) = Some it \<and> filter_matches f (scope it)"
    if it: "it \<in> set its" for it
  proof -
    have at: "item_at (ext s) (db s) (item_id it) = Some it" using items_read[OF all2] it by blast
    have "item_id it \<in> set (take n (map r_id (newest_rows f s)))" using it ids by (metis image_eqI list.set_map)
    then obtain r where r: "r \<in> set (newest_rows f s)" "r_id r = item_id it"
      using in_set_takeD by fastforce
    then show ?thesis
      using at item_at_row[OF assms(1), of r] rows(1) in_filter_eq[OF assms(1) _ assms(4)] by auto
  qed
  ultimately show ?thesis by blast
qed

theorem recent_bounded_witness:
  "\<exists>its s'. recent None 2 sample_store_1 = (Inr its, s') \<and> length its \<le> 2"
proof -
  have "item_at sample_ext (db sample_store_1) 48 = Some sample_stored"
    by (simp add: item_at_add fits_sample)
  then have "recent None 2 sample_store_1 = (Inr [sample_stored], sample_store_1)"
    by (simp add: recent_def bindM_def gets_def run_query_no_faults in_filter_def get_no_faults ret_def
        sample_1_tables)
  then show ?thesis using recent_bounded[OF wf_sample_1] scans_sample by simp
qed

text \<open>
  a count over several filters counts an item once however many of them it matches.\<close>

theorem count_scoped_any_union:
  assumes "faults s = []" "wf_items (db s)" "\<And>g. g \<in> set fs \<Longrightarrow> scope_ok (sf_path g)"
  shows "count_scoped_any fs s =
    (Inr (card {r_id r | r. r \<in> set (items (db s)) \<and> (\<exists>g \<in> set fs. matches g (r_scope r))}), s)"
proof -
  let ?P = "\<lambda>r. \<exists>g \<in> set fs. sql_matches g (r_scope r)"
  have ok: "r \<in> set (items (db s)) \<Longrightarrow> r_scope r = Some sc \<Longrightarrow> scope_ok sc" for r sc
    using assms(2) by (auto simp: wf_items_def row_ok_def)
  have "length (filter ?P (items (db s))) = card (r_id ` set (filter ?P (items (db s))))"
    using assms(2) distinct_card[of "map r_id (filter ?P (items (db s)))"]
    by (simp add: wf_items_def distinct_map_filter)
  also have "r_id ` set (filter ?P (items (db s))) =
      {r_id r | r. r \<in> set (items (db s)) \<and> (\<exists>g \<in> set fs. matches g (r_scope r))}"
    using ok assms(3) by (fastforce simp: sql_matches_eq_matches)
  finally show ?thesis by (simp add: count_scoped_any_def select_no_faults[OF assms(1)] ret_def)
qed

theorem count_scoped_any_union_witness:
  "count_scoped_any [\<lparr>sf_path = ''a'', sf_exact = True\<rparr>] sample_store_1 = (Inr 0, sample_store_1)"
proof -
  let ?f = "\<lparr>sf_path = ''a'', sf_exact = True\<rparr>"
  have "{r_id r | r. r \<in> set (items (db sample_store_1)) \<and> (\<exists>g \<in> set [?f]. matches g (r_scope r))} = {}"
    by (auto simp: sample_1_tables matches_def)
  then show ?thesis
    using count_scoped_any_union[of sample_store_1 "[?f]", OF _ wf_sample_1] scope_ok_sample by simp
qed

end
