(* ===== verification/Graph_Read.thy ===== *)
theory Graph_Read
  imports Query "HOL-Library.Product_Lexorder"
begin

text \<open>
  The knowledge graph's data and its reads (\<open>singularmem-core/src/graph/normalise.rs\<close>, \<open>time.rs\<close>,
  \<open>types.rs\<close>, \<open>read.rs\<close>): name normalisation, time points, the shared read predicate \<open>fact_where\<close>
  with its bind values, the queries built on it, and the revision walk \<open>fact_history\<close>.
\<close>

section \<open>Names and times\<close>

function split_ws_loop :: "string \<Rightarrow> string \<Rightarrow> string list" where
  "split_ws_loop word s =
     (if s = [] then (if word = [] then [] else [word])
      else if ws_len s = 0 then split_ws_loop (word @ [hd s]) (tl s)
      else (if word = [] then [] else [word]) @ split_ws_loop [] (drop (ws_len s) s))"
  by pat_completeness auto
termination
  by (relation "measure (\<lambda>(_, s). length s)") auto

text \<open>\<open>str::split_whitespace\<close>.\<close>

definition split_whitespace :: "string \<Rightarrow> string list" where
  "split_whitespace s = split_ws_loop [] s"

text \<open>\<open>normalise::base\<close>, with \<open>nfc\<close> and \<open>to_lowercase\<close> the two Unicode functions it calls.\<close>

definition name_base :: "externals \<Rightarrow> string \<Rightarrow> string" where
  "name_base x raw =
     join ''_'' (split_whitespace (replace_char (CHR 0x27) [] (to_lowercase x (trim (nfc x raw)))))"

definition entity_name :: "externals \<Rightarrow> string \<Rightarrow> error + string" where
  "entity_name x raw =
     (let n = name_base x raw
      in if n = [] then Inl (Validation ''entity'' MustBeNonEmpty)
         else if length n > 256 then Inl (Validation ''entity'' (ExceedsBytes 256))
         else Inr n)"

definition predicate_byte :: "char \<Rightarrow> bool" where
  "predicate_byte b \<longleftrightarrow> is_ascii_lowercase b \<or> is_ascii_digit b \<or> b = CHR ''_''"

definition predicate_name :: "externals \<Rightarrow> string \<Rightarrow> error + string" where
  "predicate_name x raw =
     (let n = name_base x raw
      in if n = [] then Inl (Validation ''predicate'' MustBeNonEmpty)
         else if length n > 64 then Inl (Validation ''predicate'' (ExceedsBytes 64))
         else if \<not> list_all predicate_byte n then Inl (Validation ''predicate'' BadPredicateBytes)
         else Inr n)"

definition parse_point :: "externals \<Rightarrow> string \<Rightarrow> error + timestamp" where
  "parse_point x raw =
     (let s = trim raw
      in case ts_parse x s of
           Some t \<Rightarrow> Inr t
         | None \<Rightarrow> (case date_parse x s of
             Some t \<Rightarrow> Inr t
           | None \<Rightarrow> Inl (Validation ''timestamp'' (NotATimePoint s))))"

section \<open>Facts\<close>

record entity_ref =
  er_id :: ulid
  er_name :: string

datatype fact_object = Entity_Object entity_ref | Value_Object string

record fact =
  fa_id :: ulid
  fa_subject :: entity_ref
  fa_predicate :: string
  fa_object :: fact_object
  fa_valid_from :: "timestamp option"
  fa_valid_to :: "timestamp option"
  fa_confidence :: f32
  fa_source_item_id :: "ulid option"
  fa_scope :: "string option"
  fa_supersedes :: "ulid option"
  fa_recorded_at :: timestamp

record entity =
  en_id :: ulid
  en_name :: string
  en_normalised_name :: string
  en_kind :: "string option"
  en_created_at :: timestamp

datatype direction = Outgoing | Incoming | Both

record graph_query =
  q_scope :: "scope_filter option"
  q_as_of :: "timestamp option"
  q_recorded_at :: "timestamp option"
  q_direction :: direction

record timeline_entry =
  tl_fact :: fact
  tl_current :: bool

record stats =
  gs_entities :: nat
  gs_open_facts :: nat
  gs_closed_facts :: nat
  gs_predicates :: nat

datatype validity = Window | Any_Head

section \<open>The shared read predicate\<close>

text \<open>
  The fragments \<open>fact_where\<close> joins with \<open>AND\<close>. A fragment consumes its bind values in the order of
  its placeholders; \<open>In_Scope\<close> is the clause of \<open>ScopeFilter::sql_clause\<close> on \<open>f.scope\<close>.
\<close>

datatype fact_clause = Recorded_Head | Current_Head | As_Of_Window | Open_Only | In_Scope sql_clause

definition fact_where :: "externals \<Rightarrow> graph_query \<Rightarrow> validity \<Rightarrow> fact_clause list \<times> string list" where
  "fact_where x q v =
     (let (c1, b1) = (case q_recorded_at q of
            Some r \<Rightarrow> ([Recorded_Head], [ts_to_sql x r, ts_to_sql x r])
          | None \<Rightarrow> ([Current_Head], []));
          (c2, b2) = (if v = Window then
              (case q_as_of q of
                 Some t \<Rightarrow> ([As_Of_Window], [ts_to_sql x t, ts_to_sql x t])
               | None \<Rightarrow> ([Open_Only], []))
            else ([], []));
          (c3, b3) = (case q_scope q of
            Some f \<Rightarrow> (case filter_sql_clause f of (c, vs) \<Rightarrow> ([In_Scope c], vs))
          | None \<Rightarrow> ([], []))
      in (c1 @ c2 @ c3, b1 @ b2 @ b3))"

fun placeholders_of :: "sql_clause \<Rightarrow> nat" where
  "placeholders_of Scope_Eq = 1"
| "placeholders_of Scope_Eq_Or_Like = 2"

definition superseded :: "database \<Rightarrow> ulid \<Rightarrow> bool" where
  "superseded d i \<longleftrightarrow> (\<exists>g \<in> set (facts d). f_supersedes g = Some i)"

fun clauses_hold :: "database \<Rightarrow> fact_clause list \<Rightarrow> string list \<Rightarrow> fact_row \<Rightarrow> bool" where
  "clauses_hold d [] bs f = (bs = [])"
| "clauses_hold d (Recorded_Head # cs) (a # b # bs) f =
     (f_recorded_at f \<le> a \<and>
      \<not> (\<exists>g \<in> set (facts d). f_supersedes g = Some (f_id f) \<and> f_recorded_at g \<le> b) \<and>
      clauses_hold d cs bs f)"
| "clauses_hold d (Current_Head # cs) bs f = (\<not> superseded d (f_id f) \<and> clauses_hold d cs bs f)"
| "clauses_hold d (As_Of_Window # cs) (a # b # bs) f =
     ((case f_valid_from f of None \<Rightarrow> True | Some v \<Rightarrow> v \<le> a) \<and>
      (case f_valid_to f of None \<Rightarrow> True | Some v \<Rightarrow> b < v) \<and> clauses_hold d cs bs f)"
| "clauses_hold d (Open_Only # cs) bs f = (f_valid_to f = None \<and> clauses_hold d cs bs f)"
| "clauses_hold d (In_Scope c # cs) bs f =
     (clause_holds (c, take (placeholders_of c) bs) (f_scope f) \<and>
      clauses_hold d cs (drop (placeholders_of c) bs) f)"
| "clauses_hold d _ _ f = False"

definition visible :: "externals \<Rightarrow> graph_query \<Rightarrow> validity \<Rightarrow> database \<Rightarrow> fact_row \<Rightarrow> bool" where
  "visible x q v d f = (case fact_where x q v of (cs, bs) \<Rightarrow> clauses_hold d cs bs f)"

definition scope_only :: "scope_filter option \<Rightarrow> graph_query" where
  "scope_only f = \<lparr>q_scope = f, q_as_of = None, q_recorded_at = None, q_direction = Both\<rparr>"

section \<open>Reading rows\<close>

record raw_fact =
  rf_row :: fact_row
  rf_subject_name :: string
  rf_object_name :: "string option"

definition find_entity_row :: "ulid \<Rightarrow> database \<Rightarrow> entity_row option" where
  "find_entity_row i d = find (\<lambda>e. e_id e = i) (entities d)"

text \<open>\<open>FACT_SELECT\<close>: the inner join on the subject drops a row without one, the object's is outer.\<close>

definition fact_select :: "database \<Rightarrow> (fact_row \<Rightarrow> bool) \<Rightarrow> fact_row list \<Rightarrow> raw_fact list" where
  "fact_select d P rows = List.map_filter (\<lambda>f.
     map_option (\<lambda>e. \<lparr>rf_row = f, rf_subject_name = e_name e,
         rf_object_name = Option.bind (f_object_id f) (\<lambda>i. map_option e_name (find_entity_row i d))\<rparr>)
       (find_entity_row (f_subject_id f) d)) (filter P rows)"

definition into_fact :: "externals \<Rightarrow> raw_fact \<Rightarrow> error + fact" where
  "into_fact x raw = (let f = rf_row raw in
     rbind (case f_object_id f of
         Some i \<Rightarrow> Inr (Entity_Object \<lparr>er_id = i,
             er_name = (case rf_object_name raw of None \<Rightarrow> [] | Some n \<Rightarrow> n)\<rparr>)
       | None \<Rightarrow> (case f_object_value f of
           Some v \<Rightarrow> Inr (Value_Object v)
         | None \<Rightarrow> Inl (Validation ''object'' (NoObjectColumn (f_id f))))) (\<lambda>obj.
     rbind (opt_traverse (parse_point x) (f_valid_from f)) (\<lambda>vf.
     rbind (opt_traverse (parse_point x) (f_valid_to f)) (\<lambda>vt.
     rbind (parse_point x (f_recorded_at f)) (\<lambda>rec.
     Inr \<lparr>fa_id = f_id f, fa_subject = \<lparr>er_id = f_subject_id f, er_name = rf_subject_name raw\<rparr>,
          fa_predicate = f_predicate f, fa_object = obj, fa_valid_from = vf, fa_valid_to = vt,
          fa_confidence = f_confidence f, fa_source_item_id = f_source_item_id f,
          fa_scope = f_scope f, fa_supersedes = f_supersedes f, fa_recorded_at = rec\<rparr>)))))"

definition select_facts :: "string \<Rightarrow> (database \<Rightarrow> raw_fact list) \<Rightarrow> fact list op" where
  "select_facts ctx q =
     bindM (run_query ctx ctx ctx q) (\<lambda>raws.
     bindM (gets ext) (\<lambda>x. lift (traverse (into_fact x) raws)))"

definition load_fact :: "ulid \<Rightarrow> fact option op" where
  "load_fact i =
     bindM (select_facts ''loading fact by id'' (\<lambda>d. fact_select d (\<lambda>f. f_id f = i) (facts d))) (\<lambda>fs.
     ret (if fs = [] then None else Some (last fs)))"

definition entity_ids_by_name :: "string \<Rightarrow> ulid list op" where
  "entity_ids_by_name nm =
     bindM (gets ext) (\<lambda>x. bindM (lift (entity_name x nm)) (\<lambda>n.
     run_query ''preparing entity lookup'' ''looking up entity by name'' ''collecting entity ids''
       (\<lambda>d. sort (map e_id (filter (\<lambda>e. e_normalised_name e = n) (entities d))))))"

definition direction_clause :: "direction \<Rightarrow> ulid list \<Rightarrow> fact_row \<Rightarrow> bool" where
  "direction_clause dir is f = (case dir of
     Outgoing \<Rightarrow> f_subject_id f \<in> set is
   | Incoming \<Rightarrow> (\<exists>o'. f_object_id f = Some o' \<and> o' \<in> set is)
   | Both \<Rightarrow> f_subject_id f \<in> set is \<or> (\<exists>o'. f_object_id f = Some o' \<and> o' \<in> set is))"

definition by_record :: "raw_fact list \<Rightarrow> raw_fact list" where
  "by_record = sort_key (\<lambda>r. (f_recorded_at (rf_row r), f_id (rf_row r)))"

definition query_entity :: "string \<Rightarrow> graph_query \<Rightarrow> fact list op" where
  "query_entity nm q =
     bindM (entity_ids_by_name nm) (\<lambda>ids.
       if ids = [] then ret []
       else bindM (gets ext) (\<lambda>x.
         select_facts ''querying facts by entity'' (\<lambda>d. by_record (fact_select d
           (\<lambda>f. direction_clause (q_direction q) ids f \<and> visible x q Window d f)
           (scan_facts x (facts d))))))"

definition query_predicate :: "string \<Rightarrow> graph_query \<Rightarrow> fact list op" where
  "query_predicate p q =
     bindM (gets ext) (\<lambda>x. bindM (lift (predicate_name x p)) (\<lambda>n.
       select_facts ''querying facts by predicate'' (\<lambda>d. by_record (fact_select d
         (\<lambda>f. f_predicate f = n \<and> visible x q Window d f) (scan_facts x (facts d))))))"

text \<open>\<open>ORDER BY valid_from IS NOT NULL, valid_from, recorded_at, id LIMIT 500\<close>.\<close>

definition timeline_key :: "raw_fact \<Rightarrow> bool \<times> string \<times> string \<times> ulid" where
  "timeline_key r = (f_valid_from (rf_row r) \<noteq> None,
     (case f_valid_from (rf_row r) of None \<Rightarrow> [] | Some v \<Rightarrow> v), f_recorded_at (rf_row r), f_id (rf_row r))"

definition timeline_rows ::
  "externals \<Rightarrow> scope_filter option \<Rightarrow> (fact_row \<Rightarrow> bool) \<Rightarrow> database \<Rightarrow> raw_fact list"
where
  "timeline_rows x sc P d = take 500 (sort_key timeline_key (fact_select d
     (\<lambda>f. visible x (scope_only sc) Any_Head d f \<and> P f) (scan_facts x (facts d))))"

definition timeline :: "string option \<Rightarrow> scope_filter option \<Rightarrow> timeline_entry list op" where
  "timeline ent sc =
     bindM (gets ext) (\<lambda>x.
     bindM (case ent of
         None \<Rightarrow> select_facts ''reading timeline'' (timeline_rows x sc (\<lambda>_. True))
       | Some nm \<Rightarrow> bindM (entity_ids_by_name nm) (\<lambda>ids.
           if ids = [] then ret []
           else select_facts ''reading timeline'' (timeline_rows x sc (direction_clause Both ids)))) (\<lambda>fs.
     ret (map (\<lambda>f. \<lparr>tl_fact = f, tl_current = (fa_valid_to f = None)\<rparr>) fs)))"

definition touches :: "fact_row \<Rightarrow> ulid \<Rightarrow> bool" where
  "touches f e \<longleftrightarrow> f_subject_id f = e \<or> f_object_id f = Some e"

definition graph_stats :: "scope_filter option \<Rightarrow> stats op" where
  "graph_stats sc =
     bindM (gets ext) (\<lambda>x.
     bindM (select ''counting graph facts'' (\<lambda>d.
        let heads = filter (visible x (scope_only sc) Any_Head d) (facts d)
        in (length (filter (\<lambda>f. f_valid_to f = None) heads),
            length (filter (\<lambda>f. f_valid_to f \<noteq> None) heads),
            card (f_predicate ` set heads)))) (\<lambda>(n_open, n_closed, n_preds).
     bindM (select ''counting graph entities'' (\<lambda>d.
        if sc = None then length (entities d)
        else length (filter (\<lambda>e. \<exists>f \<in> set (facts d). touches f (e_id e) \<and>
                visible x (scope_only sc) Any_Head d f) (entities d)))) (\<lambda>n_ents.
     ret \<lparr>gs_entities = n_ents, gs_open_facts = n_open, gs_closed_facts = n_closed,
          gs_predicates = n_preds\<rparr>)))"

definition into_entity :: "externals \<Rightarrow> entity_row \<Rightarrow> error + entity" where
  "into_entity x e = rbind (parse_point x (e_created_at e)) (\<lambda>t.
     Inr \<lparr>en_id = e_id e, en_name = e_name e, en_normalised_name = e_normalised_name e,
          en_kind = e_kind e, en_created_at = t\<rparr>)"

definition list_entities :: "scope_filter option \<Rightarrow> string option \<Rightarrow> (entity \<times> nat) list op" where
  "list_entities sc kind =
     bindM (gets ext) (\<lambda>x.
     bindM (run_query ''preparing entity listing'' ''listing entities'' ''collecting entities'' (\<lambda>d.
        let heads = filter (visible x (scope_only sc) Any_Head d) (facts d);
            count = (\<lambda>e. length (filter (\<lambda>f. touches f (e_id e)) heads))
        in map (\<lambda>e. (e, count e)) (sort_key e_normalised_name
             (filter (\<lambda>e. (kind = None \<or> e_kind e = kind) \<and> (sc = None \<or> 0 < count e)) (entities d))))) (\<lambda>rows.
     lift (traverse (\<lambda>(e, n). rbind (into_entity x e) (\<lambda>en. Inr (en, n))) rows)))"

definition get_fact :: "ulid \<Rightarrow> fact op" where
  "get_fact i = bindM (load_fact i) (\<lambda>f. case f of None \<Rightarrow> fail (FactIdNotFound i) | Some f \<Rightarrow> ret f)"

definition all_facts_chronological :: "fact list op" where
  "all_facts_chronological =
     bindM (gets ext) (\<lambda>x.
       select_facts ''reading all fact revisions chronologically''
         (\<lambda>d. by_record (fact_select d (\<lambda>_. True) (scan_facts x (facts d)))))"

definition get_entity :: "string \<Rightarrow> entity option op" where
  "get_entity nm =
     bindM (gets ext) (\<lambda>x. bindM (lift (entity_name x nm)) (\<lambda>n.
     bindM (select ''reading entity'' (\<lambda>d. find (\<lambda>e. e_normalised_name e = n) (entities d))) (\<lambda>row.
     lift (opt_traverse (into_entity x) row))))"

section \<open>The revision walk\<close>

definition successors_of :: "ulid \<Rightarrow> ulid list op" where
  "successors_of i =
     run_query ''walking the fact chain forwards'' ''walking the fact chain forwards''
       ''collecting fact chain successors''
       (\<lambda>d. map f_id (sort_key (\<lambda>f. (f_recorded_at f, f_id f))
          (filter (\<lambda>f. f_supersedes f = Some i) (facts d))))"

partial_function (option) older_loop ::
  "ulid option \<Rightarrow> ulid list \<Rightarrow> fact list \<Rightarrow> store \<Rightarrow> ((error + ulid list \<times> fact list) \<times> store) option"
where
  "older_loop cursor seen older s =
     (case cursor of
        None \<Rightarrow> Some (Inr (seen, older), s)
      | Some prev \<Rightarrow>
          if prev \<in> set seen then Some (Inr (seen, older), s)
          else (case get_fact prev s of
             (Inl e, s') \<Rightarrow> Some (Inl e, s')
           | (Inr f, s') \<Rightarrow> older_loop (fa_supersedes f) (seen @ [fa_id f]) (older @ [f]) s'))"

partial_function (option) newer_loop ::
  "fact list \<Rightarrow> ulid list \<Rightarrow> store \<Rightarrow> ((error + fact list) \<times> store) option"
where
  "newer_loop chain seen s =
     (case successors_of (fa_id (last chain)) s of
        (Inl e, s') \<Rightarrow> Some (Inl e, s')
      | (Inr succs, s') \<Rightarrow>
          (case succs of
             [] \<Rightarrow> Some (Inr chain, s')
           | nxt # others \<Rightarrow>
               if others \<noteq> [] then Some (Inl (AmbiguousFactRevision succs), s')
               else if nxt \<in> set seen then Some (Inr chain, s')
               else (case get_fact nxt s' of
                  (Inl e, s'') \<Rightarrow> Some (Inl e, s'')
                | (Inr f, s'') \<Rightarrow> newer_loop (chain @ [f]) (seen @ [nxt]) s'')))"

definition fact_history :: "ulid \<Rightarrow> store \<Rightarrow> ((error + fact list) \<times> store) option" where
  "fact_history i s =
     (case get_fact i s of
        (Inl e, s1) \<Rightarrow> Some (Inl e, s1)
      | (Inr start, s1) \<Rightarrow>
          (case older_loop (fa_supersedes start) [fa_id start] [] s1 of
             None \<Rightarrow> None
           | Some (Inl e, s2) \<Rightarrow> Some (Inl e, s2)
           | Some (Inr (seen, older), s2) \<Rightarrow> newer_loop (rev older @ [start]) seen s2))"

end
