(* ===== verification/Graph_Write.thy ===== *)
theory Graph_Write
  imports Graph_Read
begin

text \<open>
  The knowledge graph's writes (\<open>singularmem-core/src/graph/write.rs\<close>): \<open>add_fact\<close>,
  \<open>invalidate_fact\<close> and \<open>supersede_fact\<close> with the steps they run inside their transaction, the
  invariant \<open>wf_graph\<close> of the two graph tables, and the proof that the facts table only grows.
\<close>

section \<open>Confidence\<close>

text \<open>
  A confidence is an IEEE single in its 32 bits. \<open>(0.0..=1.0).contains\<close> holds of the patterns
  from \<open>+0.0\<close> to \<open>1.0\<close> and of \<open>-0.0\<close>, never of a NaN. \<open>f32_scaled\<close> is the value of a finite
  non-negative pattern times \<open>2^149\<close>; the rounded difference of two of them is below \<open>f32::EPSILON\<close>
  (\<open>2^-23\<close>) when the exact one is below the midpoint between it and the single before it.
\<close>

definition unit_interval :: "f32 \<Rightarrow> bool" where
  "unit_interval c \<longleftrightarrow> c \<le> 0x3F800000 \<or> c = 0x80000000"

definition f32_scaled :: "f32 \<Rightarrow> int" where
  "f32_scaled c =
     (let e = unat (drop_bit 23 c) mod 256; m = int (unat (take_bit 23 c))
      in if e = 0 then m else (2 ^ 23 + m) * 2 ^ (e - 1))"

definition within_epsilon :: "f32 \<Rightarrow> f32 \<Rightarrow> bool" where
  "within_epsilon a b \<longleftrightarrow> \<bar>f32_scaled a - f32_scaled b\<bar> < 2 ^ 126 - 2 ^ 101"

section \<open>Requests\<close>

datatype new_object = New_Entity string "string option" | New_Value string

record new_fact =
  nf_subject :: string
  nf_subject_kind :: "string option"
  nf_predicate :: string
  nf_object :: new_object
  nf_valid_from :: "timestamp option"
  nf_valid_to :: "timestamp option"
  nf_confidence :: f32
  nf_source_item_id :: "ulid option"
  nf_scope :: "string option"

definition triple_fact :: "string \<Rightarrow> string \<Rightarrow> string \<Rightarrow> new_fact" where
  "triple_fact subj p ob =
     \<lparr>nf_subject = subj, nf_subject_kind = None, nf_predicate = p, nf_object = New_Entity ob None,
      nf_valid_from = None, nf_valid_to = None, nf_confidence = 0x3F800000,
      nf_source_item_id = None, nf_scope = None\<rparr>"

record triple_ref =
  tr_subject :: string
  tr_predicate :: string
  tr_object :: new_object
  tr_scope :: "string option"

fun object_text :: "new_object \<Rightarrow> string" where
  "object_text (New_Entity n _) = n"
| "object_text (New_Value v) = v"

definition not_found :: "triple_ref \<Rightarrow> error" where
  "not_found t = FactNotFound (tr_subject t) (tr_predicate t) (object_text (tr_object t))"

type_synonym object_columns = "ulid option \<times> string option"

fun columns_of :: "fact_object \<Rightarrow> object_columns" where
  "columns_of (Entity_Object e) = (Some (er_id e), None)"
| "columns_of (Value_Object v) = (None, Some v)"

section \<open>Statements\<close>

text \<open>\<open>IFNULL(a, '') = IFNULL(b, '')\<close>; the text of an id is never empty.\<close>

definition ifnull_eq :: "string option \<Rightarrow> string option \<Rightarrow> bool" where
  "ifnull_eq a b \<longleftrightarrow>
     (case a of None \<Rightarrow> [] | Some s \<Rightarrow> s) = (case b of None \<Rightarrow> [] | Some s \<Rightarrow> s)"

definition is_open_head ::
  "database \<Rightarrow> ulid \<Rightarrow> string \<Rightarrow> object_columns \<Rightarrow> string option \<Rightarrow> fact_row \<Rightarrow> bool"
where
  "is_open_head d subj p cols sc f \<longleftrightarrow>
     f_subject_id f = subj \<and> f_predicate f = p \<and> f_object_id f = fst cols \<and>
     ifnull_eq (f_object_value f) (snd cols) \<and> ifnull_eq (f_scope f) sc \<and>
     f_valid_to f = None \<and> \<not> superseded d (f_id f)"

definition find_open_head ::
  "ulid \<Rightarrow> string \<Rightarrow> object_columns \<Rightarrow> string option \<Rightarrow> ulid option op"
where
  "find_open_head subj p cols sc =
     bindM (gets (\<lambda>s. scan_facts (ext s))) (\<lambda>scan.
     select ''looking for an open fact head''
       (\<lambda>d. map_option f_id (find (is_open_head d subj p cols sc) (scan (facts d)))))"

definition fact_row_of :: "externals \<Rightarrow> fact \<Rightarrow> fact_row" where
  "fact_row_of x f =
     \<lparr>f_id = fa_id f, f_subject_id = er_id (fa_subject f), f_predicate = fa_predicate f,
      f_object_id = fst (columns_of (fa_object f)), f_object_value = snd (columns_of (fa_object f)),
      f_valid_from = map_option (ts_to_sql x) (fa_valid_from f),
      f_valid_to = map_option (ts_to_sql x) (fa_valid_to f),
      f_confidence = fa_confidence f, f_source_item_id = fa_source_item_id f, f_scope = fa_scope f,
      f_supersedes = fa_supersedes f, f_recorded_at = ts_to_sql x (fa_recorded_at f)\<rparr>"

definition entity_ids :: "database \<Rightarrow> ulid set" where
  "entity_ids d = e_id ` set (entities d)"

definition window_check :: "fact_row \<Rightarrow> bool" where
  "window_check r = (case f_valid_from r of None \<Rightarrow> True
     | Some a \<Rightarrow> (case f_valid_to r of None \<Rightarrow> True | Some b \<Rightarrow> a \<le> b))"

definition insert_fact_stmt :: "fact_row \<Rightarrow> database \<Rightarrow> error + database \<times> unit" where
  "insert_fact_stmt r d =
     (if f_id r \<in> f_id ` set (facts d) \<or> f_subject_id r \<notin> entity_ids d \<or>
         (\<exists>i. f_object_id r = Some i \<and> i \<notin> entity_ids d) \<or>
         (f_object_id r = None) = (f_object_value r = None) \<or>
         \<not> unit_interval (f_confidence r) \<or> \<not> window_check r
      then Inl (Sqlite ''inserting fact revision'')
      else Inr (d\<lparr>facts := facts d @ [r]\<rparr>, ()))"

definition insert_fact_row :: "fact \<Rightarrow> unit op" where
  "insert_fact_row f =
     bindM (gets ext) (\<lambda>x. exec ''inserting fact revision'' (insert_fact_stmt (fact_row_of x f)))"

definition entity_named :: "string \<Rightarrow> database \<Rightarrow> entity_row option" where
  "entity_named n d = find (\<lambda>e. e_normalised_name e = n) (entities d)"

definition find_entity :: "string \<Rightarrow> entity_ref option op" where
  "find_entity nm =
     bindM (gets ext) (\<lambda>x. bindM (lift (entity_name x nm)) (\<lambda>n.
     bindM (select ''looking up entity'' (entity_named n)) (\<lambda>row.
     ret (map_option (\<lambda>e. \<lparr>er_id = e_id e, er_name = e_name e\<rparr>) row))))"

definition kind_or_none :: "string option \<Rightarrow> string option" where
  "kind_or_none k = (case map_option trim k of Some s \<Rightarrow> if s = [] then None else Some s | None \<Rightarrow> None)"

definition head_matches_request ::
  "fact \<Rightarrow> timestamp option \<times> timestamp option \<Rightarrow> f32 \<Rightarrow> bool"
where
  "head_matches_request head window c \<longleftrightarrow>
     (fa_valid_from head, fa_valid_to head) = window \<and> within_epsilon (fa_confidence head) c"

definition set_kind_stmt :: "string option \<Rightarrow> ulid \<Rightarrow> database \<Rightarrow> error + database \<times> unit" where
  "set_kind_stmt k i d =
     Inr (d\<lparr>entities := map (\<lambda>e. if e_id e = i then e\<lparr>e_kind := k\<rparr> else e) (entities d)\<rparr>, ())"

definition insert_entity_stmt :: "entity_row \<Rightarrow> database \<Rightarrow> error + database \<times> unit" where
  "insert_entity_stmt e d =
     (if e_id e \<in> entity_ids d \<or> e_normalised_name e \<in> e_normalised_name ` set (entities d) \<or>
         sql_length (e_name e) = 0
      then Inl (Sqlite ''inserting entity'')
      else Inr (d\<lparr>entities := entities d @ [e]\<rparr>, ()))"

section \<open>Steps inside a transaction\<close>

text \<open>The two branches of \<open>get_or_create_entity\<close>: an entity of that name exists, or it does not.\<close>

definition adopt_entity :: "string option \<Rightarrow> entity_row \<Rightarrow> entity_ref op" where
  "adopt_entity kind e =
     (if kind \<noteq> None \<and> e_kind e \<noteq> None \<and> kind \<noteq> e_kind e
      then fail (Validation ''kind'' (KindConflict (e_name e) (the (e_kind e))))
      else bindM (if kind \<noteq> None \<and> e_kind e = None
                  then exec ''setting entity kind'' (set_kind_stmt kind (e_id e)) else ret ()) (\<lambda>_.
        ret \<lparr>er_id = e_id e, er_name = e_name e\<rparr>))"

definition create_entity ::
  "externals \<Rightarrow> timestamp \<Rightarrow> string \<Rightarrow> string \<Rightarrow> string option \<Rightarrow> entity_ref op"
where
  "create_entity x t nm n kind =
     bindM (mint_raw_ulid t) (\<lambda>i.
     bindM (exec ''inserting entity'' (insert_entity_stmt
       \<lparr>e_id = i, e_name = trim nm, e_normalised_name = n, e_kind = kind,
        e_created_at = ts_to_sql x t\<rparr>)) (\<lambda>_.
     ret \<lparr>er_id = i, er_name = trim nm\<rparr>))"

definition get_or_create_entity :: "timestamp \<Rightarrow> string \<Rightarrow> string option \<Rightarrow> entity_ref op" where
  "get_or_create_entity t nm kind =
     bindM (gets ext) (\<lambda>x. bindM (lift (entity_name x nm)) (\<lambda>n.
     bindM (select ''looking up entity'' (entity_named n)) (\<lambda>existing. case existing of
        Some e \<Rightarrow> adopt_entity kind e
      | None \<Rightarrow> create_entity x t nm n kind)))"

definition check_new_fact :: "externals \<Rightarrow> new_fact \<Rightarrow> error + string \<times> string option" where
  "check_new_fact x f =
     rbind (predicate_name x (nf_predicate f)) (\<lambda>p.
     if \<not> unit_interval (nf_confidence f)
     then Inl (Validation ''confidence'' (ConfidenceOutside (nf_confidence f)))
     else rbind (case (nf_valid_from f, nf_valid_to f) of
         (Some a, Some b) \<Rightarrow> if b < a then Inl (Validation ''valid_window'' (WindowReversed a b)) else Inr ()
       | _ \<Rightarrow> Inr ()) (\<lambda>_.
     rbind (opt_traverse validate (nf_scope f)) (\<lambda>sc. Inr (p, sc))))"

definition check_source_item :: "ulid option \<Rightarrow> unit op" where
  "check_source_item src = (case src of
     None \<Rightarrow> ret ()
   | Some i \<Rightarrow> bindM (select ''checking fact source item'' (\<lambda>d. i \<in> item_ids d)) (\<lambda>found.
       if found then ret () else fail (Validation ''source_item_id'' (UnknownSourceItem i))))"

definition resolve_object :: "timestamp \<Rightarrow> new_object \<Rightarrow> fact_object op" where
  "resolve_object t ob = (case ob of
     New_Entity nm k \<Rightarrow> bindM (get_or_create_entity t nm (kind_or_none k)) (\<lambda>e. ret (Entity_Object e))
   | New_Value v \<Rightarrow> if trim v = [] then fail (Validation ''object'' ValueEmpty)
       else ret (Value_Object (trim v)))"

fun object_name :: "fact_object \<Rightarrow> string" where
  "object_name (Entity_Object e) = er_name e"
| "object_name (Value_Object v) = v"

text \<open>The two ends of \<open>add_fact_in_tx\<close>: an open head stands already, or a revision is appended.\<close>

definition return_standing :: "new_fact \<Rightarrow> ulid \<Rightarrow> fact op" where
  "return_standing f i =
     bindM (get_fact i) (\<lambda>head.
       if head_matches_request head (nf_valid_from f, nf_valid_to f) (nf_confidence f) then ret head
       else fail (Validation ''fact''
         (OpenFactDiffers (er_name (fa_subject head)) (fa_predicate head) (object_name (fa_object head)))))"

definition append_revision ::
  "timestamp \<Rightarrow> new_fact \<Rightarrow> string \<Rightarrow> string option \<Rightarrow> entity_ref \<Rightarrow> fact_object \<Rightarrow> fact op"
where
  "append_revision t f p sc subj ob =
     bindM (mint_raw_ulid t) (\<lambda>i.
     let fact = \<lparr>fa_id = i, fa_subject = subj, fa_predicate = p, fa_object = ob,
         fa_valid_from = nf_valid_from f, fa_valid_to = nf_valid_to f,
         fa_confidence = nf_confidence f, fa_source_item_id = nf_source_item_id f,
         fa_scope = sc, fa_supersedes = None, fa_recorded_at = t\<rparr>
     in bindM (insert_fact_row fact) (\<lambda>_. ret fact))"

definition add_fact_in_tx :: "timestamp \<Rightarrow> new_fact \<Rightarrow> fact op" where
  "add_fact_in_tx t f =
     bindM (gets ext) (\<lambda>x. bindM (lift (check_new_fact x f)) (\<lambda>(p, sc).
     bindM (check_source_item (nf_source_item_id f)) (\<lambda>_.
     bindM (get_or_create_entity t (nf_subject f) (kind_or_none (nf_subject_kind f))) (\<lambda>subj.
     bindM (resolve_object t (nf_object f)) (\<lambda>ob.
     bindM (find_open_head (er_id subj) p (columns_of ob) sc) (\<lambda>standing. case standing of
        Some i \<Rightarrow> return_standing f i
      | None \<Rightarrow> append_revision t f p sc subj ob))))))"

definition find_columns :: "triple_ref \<Rightarrow> object_columns op" where
  "find_columns tr = (case tr_object tr of
     New_Entity nm _ \<Rightarrow> bindM (find_entity nm) (\<lambda>e. case e of
         None \<Rightarrow> fail (not_found tr) | Some e \<Rightarrow> ret (Some (er_id e), None))
   | New_Value v \<Rightarrow> ret (None, Some (trim v)))"

definition close_head :: "timestamp \<Rightarrow> timestamp \<Rightarrow> ulid \<Rightarrow> fact op" where
  "close_head t at i =
     bindM (get_fact i) (\<lambda>head.
     if (case fa_valid_from head of None \<Rightarrow> False | Some from' \<Rightarrow> at < from')
     then fail (Validation ''valid_window'' (EndsBeforeStart at (the (fa_valid_from head))))
     else bindM (mint_raw_ulid t) (\<lambda>j.
       let closed = head\<lparr>fa_id := j, fa_valid_to := Some at, fa_supersedes := Some (fa_id head),
           fa_recorded_at := t\<rparr>
       in bindM (insert_fact_row closed) (\<lambda>_. ret closed)))"

definition invalidate_in_tx :: "timestamp \<Rightarrow> timestamp \<Rightarrow> triple_ref \<Rightarrow> fact op" where
  "invalidate_in_tx t at tr =
     bindM (gets ext) (\<lambda>x. bindM (lift (predicate_name x (tr_predicate tr))) (\<lambda>p.
     bindM (lift (opt_traverse validate (tr_scope tr))) (\<lambda>sc.
     bindM (find_entity (tr_subject tr)) (\<lambda>subj_opt. case subj_opt of
       None \<Rightarrow> fail (not_found tr)
     | Some subj \<Rightarrow>
       bindM (find_columns tr) (\<lambda>cols.
       bindM (find_open_head (er_id subj) p cols sc) (\<lambda>head_opt. case head_opt of
         None \<Rightarrow> fail (not_found tr)
       | Some i \<Rightarrow> close_head t at i))))))"

section \<open>Operations\<close>

definition add_fact :: "new_fact \<Rightarrow> fact op" where
  "add_fact f =
     bindM (assert_writable ''add_fact'') (\<lambda>_. bindM now (\<lambda>t.
     transaction ''starting add_fact transaction'' ''committing add_fact transaction''
       (add_fact_in_tx t f)))"

definition invalidate_fact :: "triple_ref \<Rightarrow> timestamp option \<Rightarrow> fact op" where
  "invalidate_fact tr at =
     bindM (assert_writable ''invalidate_fact'') (\<lambda>_. bindM now (\<lambda>t.
     transaction ''starting invalidate_fact transaction'' ''committing invalidate_fact transaction''
       (invalidate_in_tx t (case at of None \<Rightarrow> t | Some a \<Rightarrow> a) tr)))"

definition tolerate_not_found :: "'a op \<Rightarrow> 'a option op" where
  "tolerate_not_found m s = (case m s of
     (Inr x, s') \<Rightarrow> (Inr (Some x), s')
   | (Inl e, s') \<Rightarrow> (case e of FactNotFound _ _ _ \<Rightarrow> (Inr None, s') | _ \<Rightarrow> (Inl e, s')))"

definition explain_standing :: "'a op \<Rightarrow> 'a op" where
  "explain_standing m s = (case m s of
     (Inl (Validation field (OpenFactDiffers a b c)), s') \<Rightarrow>
        (Inl (Validation field (if field = ''fact'' then ReplacementStands a b c else OpenFactDiffers a b c)), s')
   | r \<Rightarrow> r)"

definition supersede_fact ::
  "triple_ref \<Rightarrow> new_object \<Rightarrow> timestamp option \<Rightarrow> (fact option \<times> fact) op"
where
  "supersede_fact tr new_ob at =
     bindM (assert_writable ''supersede_fact'') (\<lambda>_. bindM now (\<lambda>t.
     let a = (case at of None \<Rightarrow> t | Some a \<Rightarrow> a) in
     transaction ''starting supersede_fact transaction'' ''committing supersede_fact transaction''
       (bindM (tolerate_not_found (invalidate_in_tx t a tr)) (\<lambda>closed.
        bindM (explain_standing (add_fact_in_tx t
          \<lparr>nf_subject = tr_subject tr, nf_subject_kind = None, nf_predicate = tr_predicate tr,
           nf_object = new_ob, nf_valid_from = Some a, nf_valid_to = None,
           nf_confidence = 0x3F800000, nf_source_item_id = None, nf_scope = tr_scope tr\<rparr>)) (\<lambda>replacement.
        ret (closed, replacement))))))"

section \<open>The invariant of the graph tables\<close>

definition wf_entities :: "database \<Rightarrow> bool" where
  "wf_entities d \<longleftrightarrow>
     distinct (map e_id (entities d)) \<and> distinct (map e_normalised_name (entities d)) \<and>
     (\<forall>e \<in> set (entities d). e_normalised_name e \<noteq> [] \<and> length (e_normalised_name e) \<le> 256)"

type_synonym fact_key = "ulid \<times> string \<times> ulid option \<times> string option \<times> string option"

definition fact_key :: "fact_row \<Rightarrow> fact_key" where
  "fact_key f = (f_subject_id f, f_predicate f, f_object_id f, f_object_value f, f_scope f)"

definition fact_row_ok :: "database \<Rightarrow> fact_row \<Rightarrow> bool" where
  "fact_row_ok d f \<longleftrightarrow>
     f_subject_id f \<in> entity_ids d \<and> (\<forall>i. f_object_id f = Some i \<longrightarrow> i \<in> entity_ids d) \<and>
     (f_object_id f = None) \<noteq> (f_object_value f = None) \<and> f_object_value f \<noteq> Some [] \<and>
     f_scope f \<noteq> Some [] \<and> unit_interval (f_confidence f) \<and> window_check f"

definition open_head :: "database \<Rightarrow> fact_row \<Rightarrow> bool" where
  "open_head d f \<longleftrightarrow> f \<in> set (facts d) \<and> f_valid_to f = None \<and> \<not> superseded d (f_id f)"

text \<open>
  Every revision that supersedes another closes it: it has an end, the same subject, predicate,
  object and scope, and the one it supersedes had no end. No revision is superseded twice, and no
  two open heads say the same thing.
\<close>

definition wf_graph :: "database \<Rightarrow> bool" where
  "wf_graph d \<longleftrightarrow>
     wf_entities d \<and> distinct (map f_id (facts d)) \<and> (\<forall>f \<in> set (facts d). fact_row_ok d f) \<and>
     (\<forall>g \<in> set (facts d). \<forall>i. f_supersedes g = Some i \<longrightarrow> f_valid_to g \<noteq> None \<and>
        (\<exists>f \<in> set (facts d). f_id f = i \<and> f_valid_to f = None \<and> fact_key f = fact_key g)) \<and>
     distinct (List.map_filter f_supersedes (facts d)) \<and>
     (\<forall>f g. open_head d f \<and> open_head d g \<and> fact_key f = fact_key g \<longrightarrow> f = g)"

definition append_fact :: "fact_row \<Rightarrow> database \<Rightarrow> database" where
  "append_fact r d = d\<lparr>facts := facts d @ [r]\<rparr>"

text \<open>The entities of a store only grow; a name once given to an id stays.\<close>

definition entity_names :: "database \<Rightarrow> (ulid \<times> string \<times> string) list" where
  "entity_names d = map (\<lambda>e. (e_id e, e_name e, e_normalised_name e)) (entities d)"

definition entities_grow :: "database \<Rightarrow> database \<Rightarrow> bool" where
  "entities_grow d d' \<longleftrightarrow>
     items d' = items d \<and> item_tags d' = item_tags d \<and> facts d' = facts d \<and>
     prefix (entity_names d) (entity_names d') \<and>
     (wf_entities d \<longrightarrow> wf_entities d')"

lemma entities_grow_refl [simp]: "entities_grow d d"
  by (simp add: entities_grow_def)

lemma entities_grow_trans: "entities_grow d e \<Longrightarrow> entities_grow e f \<Longrightarrow> entities_grow d f"
  unfolding entities_grow_def using prefix_order.trans by auto

lemma entity_ids_grow: "entities_grow d d' \<Longrightarrow> entity_ids d \<subseteq> entity_ids d'"
proof -
  assume "entities_grow d d'"
  then have "set (entity_names d) \<subseteq> set (entity_names d')"
    unfolding entities_grow_def using set_mono_prefix by blast
  moreover have "entity_ids d = fst ` set (entity_names d)" for d
    by (simp add: entity_ids_def entity_names_def image_image)
  ultimately show ?thesis by auto
qed

lemma wf_graph_grow:
  assumes "wf_graph d" "entities_grow d d'" shows "wf_graph d'"
proof -
  have f: "facts d' = facts d" using assms(2) by (simp add: entities_grow_def)
  have "fact_row_ok d f \<Longrightarrow> fact_row_ok d' f" for f
    using entity_ids_grow[OF assms(2)] by (auto simp: fact_row_ok_def)
  then have "\<forall>f \<in> set (facts d). fact_row_ok d' f" using assms(1) by (simp add: wf_graph_def)
  moreover have "open_head d' f = open_head d f" for f by (simp add: open_head_def superseded_def f)
  moreover have "wf_entities d'" using assms by (simp add: entities_grow_def wf_graph_def)
  ultimately show ?thesis using assms(1) unfolding wf_graph_def f by simp
qed

lemma append_fact_simps [simp]:
  "facts (append_fact r d) = facts d @ [r]" "entities (append_fact r d) = entities d"
  "items (append_fact r d) = items d" "item_tags (append_fact r d) = item_tags d"
  "entity_ids (append_fact r d) = entity_ids d" "fact_row_ok (append_fact r d) f = fact_row_ok d f"
  "wf_entities (append_fact r d) = wf_entities d"
  by (simp_all add: append_fact_def entity_ids_def fact_row_ok_def wf_entities_def)

lemma superseded_append:
  "superseded (append_fact r d) i \<longleftrightarrow> superseded d i \<or> f_supersedes r = Some i"
  by (auto simp: superseded_def)

lemma superseded_exists:
  "wf_graph d \<Longrightarrow> superseded d i \<Longrightarrow> \<exists>f \<in> set (facts d). f_id f = i"
  unfolding wf_graph_def superseded_def by blast

lemma wf_graph_append_head:
  assumes wf: "wf_graph d" and ok: "fact_row_ok d r" and fresh: "f_id r \<notin> f_id ` set (facts d)"
    and new: "f_supersedes r = None" and none: "\<And>f. open_head d f \<Longrightarrow> fact_key f \<noteq> fact_key r"
  shows "wf_graph (append_fact r d)"
proof -
  have oh: "open_head (append_fact r d) f \<longleftrightarrow>
      open_head d f \<or> f = r \<and> f_valid_to r = None \<and> \<not> superseded d (f_id r)" for f
    using new by (auto simp: open_head_def superseded_append)
  have "open_head (append_fact r d) f \<and> open_head (append_fact r d) g \<and> fact_key f = fact_key g \<longrightarrow> f = g" for f g
    using wf none unfolding oh wf_graph_def by metis
  moreover have "\<forall>g \<in> set (facts d @ [r]). \<forall>i. f_supersedes g = Some i \<longrightarrow> f_valid_to g \<noteq> None \<and>
        (\<exists>f \<in> set (facts d @ [r]). f_id f = i \<and> f_valid_to f = None \<and> fact_key f = fact_key g)"
    using wf new unfolding wf_graph_def by auto
  moreover have "distinct (List.map_filter f_supersedes (facts d @ [r]))"
    using wf new by (simp add: wf_graph_def map_filter_def)
  moreover have "distinct (map f_id (facts d @ [r]))" "\<forall>f \<in> set (facts d @ [r]). fact_row_ok d f"
    "wf_entities d"
    using wf fresh ok by (auto simp: wf_graph_def)
  ultimately show ?thesis unfolding wf_graph_def append_fact_simps by blast
qed

lemma wf_graph_append_closing:
  assumes wf: "wf_graph d" and ok: "fact_row_ok d r" and fresh: "f_id r \<notin> f_id ` set (facts d)"
    and head: "open_head d h" and sup: "f_supersedes r = Some (f_id h)"
    and closed: "f_valid_to r \<noteq> None" and key: "fact_key r = fact_key h"
  shows "wf_graph (append_fact r d)"
proof -
  have h: "h \<in> set (facts d)" "f_valid_to h = None" "\<not> superseded d (f_id h)"
    using head by (auto simp: open_head_def)
  have oh: "open_head (append_fact r d) f \<Longrightarrow> open_head d f" for f
    using closed by (auto simp: open_head_def superseded_append)
  have uniq: "open_head (append_fact r d) f \<and> open_head (append_fact r d) g \<and> fact_key f = fact_key g \<longrightarrow> f = g" for f g
    using wf oh unfolding wf_graph_def by blast
  have dist: "distinct (List.map_filter f_supersedes (facts d @ [r]))"
    using wf sup h(3) by (auto simp: wf_graph_def superseded_def map_filter_def)
  have links: "\<forall>g \<in> set (facts d @ [r]). \<forall>i. f_supersedes g = Some i \<longrightarrow> f_valid_to g \<noteq> None \<and>
        (\<exists>f \<in> set (facts d @ [r]). f_id f = i \<and> f_valid_to f = None \<and> fact_key f = fact_key g)"
    using wf h sup closed key unfolding wf_graph_def by auto
  have ids: "distinct (map f_id (facts d @ [r]))" "\<forall>f \<in> set (facts d @ [r]). fact_row_ok d f"
    using wf fresh ok by (auto simp: wf_graph_def)
  have "wf_entities d" using wf by (simp add: wf_graph_def)
  then show ?thesis unfolding wf_graph_def append_fact_simps using uniq dist links ids by blast
qed

section \<open>Effects of the steps\<close>

lemma keeps_gets_ext: "gets ext s = (Inr x, s') \<Longrightarrow> x = ext s \<and> s' = s"
  by (auto simp: gets_def)

lemma keeps_case_new_object [keeps_intros]:
  "(\<And>n k. keeps f (a n k)) \<Longrightarrow> (\<And>v. keeps f (b v)) \<Longrightarrow>
     keeps f (case z of New_Entity n k \<Rightarrow> a n k | New_Value v \<Rightarrow> b v)"
  by (cases z) auto

lemma keeps_select_facts [keeps_intros]:
  "(\<And>s bs. f (s\<lparr>faults := bs\<rparr>) = f s) \<Longrightarrow> keeps f (select_facts c q)"
  unfolding select_facts_def by (intro keeps_intros)

lemma keeps_get_fact [keeps_intros]:
  assumes "\<And>s bs. f (s\<lparr>faults := bs\<rparr>) = f s" shows "keeps f (get_fact i)" "keeps f (load_fact i)"
  unfolding get_fact_def load_fact_def by (intro keeps_intros assms)+

lemma keeps_finds [keeps_intros]:
  assumes "\<And>s bs. f (s\<lparr>faults := bs\<rparr>) = f s"
  shows "keeps f (find_open_head a b c e)" "keeps f (find_entity n)" "keeps f (find_columns tr)"
    "keeps f (check_source_item src)"
proof -
  show "keeps f (find_entity n)" for n unfolding find_entity_def by (intro keeps_intros assms)
  note this [keeps_intros]
  show "keeps f (find_columns tr)"
    unfolding find_columns_def by (intro keeps_intros)
  show "keeps f (find_open_head a b c e)" "keeps f (check_source_item src)"
    unfolding find_open_head_def check_source_item_def by (intro keeps_intros assms)+
qed

lemma view_of: "keeps view m \<Longrightarrow> m s = (r, s') \<Longrightarrow> db s' = db s \<and> ext s' = ext s"
  by (drule keepsD, assumption) (simp add: view_def)

lemma list_all2_in_right: "list_all2 P xs ys \<Longrightarrow> y \<in> set ys \<Longrightarrow> \<exists>x \<in> set xs. P x y"
  by (induction rule: list_all2_induct) auto

lemma get_fact_Inr:
  assumes "get_fact i s = (Inr f, s')"
  shows "\<exists>h \<in> set (facts (db s)). f_id h = i \<and> (\<exists>sn on. into_fact (ext s) \<lparr>rf_row = h, rf_subject_name = sn, rf_object_name = on\<rparr> = Inr f)"
proof -
  from assms obtain raws fs s1 where
    q: "run_query ''loading fact by id'' ''loading fact by id'' ''loading fact by id''
      (\<lambda>d. fact_select d (\<lambda>f. f_id f = i) (facts d)) s = (Inr raws, s1)"
    and t: "traverse (into_fact (ext s1)) raws = Inr fs" and f: "fs \<noteq> []" "f = last fs"
    unfolding get_fact_def load_fact_def select_facts_def
    by (auto elim!: bindM_InrE simp: op_defs split: option.splits if_splits)
  have e: "ext s1 = ext s"
    using q view_of[OF keeps_run_query, OF view_faults] by blast
  have raws: "raws = fact_select (db s) (\<lambda>f. f_id f = i) (facts (db s))" by (rule run_query_Inr[OF q])
  have "list_all2 (\<lambda>raw f. into_fact (ext s) raw = Inr f) raws fs" using t by (simp add: e traverse_Inr_iff)
  from list_all2_in_right[OF this] f obtain raw where "raw \<in> set raws" "into_fact (ext s) raw = Inr f"
    by (metis last_in_set)
  then show ?thesis unfolding raws fact_select_def
    by (auto simp: map_filter_def split: option.splits if_splits) blast
qed

lemma into_fact_row:
  assumes "into_fact x \<lparr>rf_row = h, rf_subject_name = sn, rf_object_name = on\<rparr> = Inr f"
    "(f_object_id h = None) \<noteq> (f_object_value h = None)"
  shows "fa_id f = f_id h" "er_id (fa_subject f) = f_subject_id h" "fa_predicate f = f_predicate h"
    "columns_of (fa_object f) = (f_object_id h, f_object_value h)" "fa_scope f = f_scope h"
    "fa_confidence f = f_confidence h" "fa_source_item_id f = f_source_item_id h"
    "opt_traverse (parse_point x) (f_valid_from h) = Inr (fa_valid_from f)"
    "opt_traverse (parse_point x) (f_valid_to h) = Inr (fa_valid_to f)"
    "fa_supersedes f = f_supersedes h"
  using assms by (auto simp: into_fact_def Let_def elim!: rbind_InrE split: option.splits)

text \<open>Taking a successful sequence of steps apart, one step at a time.\<close>

lemma bind_getsD: "bindM (gets f) k s = (Inr y, t) \<Longrightarrow> k (f s) s = (Inr y, t)"
  by (simp add: bindM_def gets_def)

lemma bind_liftD: "bindM (lift r) k s = (Inr y, t) \<Longrightarrow> \<exists>v. r = Inr v \<and> k v s = (Inr y, t)"
  by (cases r) (simp_all add: bindM_def lift_def)

lemma bind_readD:
  "bindM m k s = (Inr y, t) \<Longrightarrow> keeps view m \<Longrightarrow>
     \<exists>x s1. m s = (Inr x, s1) \<and> db s1 = db s \<and> ext s1 = ext s \<and> k x s1 = (Inr y, t)"
  by (erule bindM_InrE) (metis view_of)

lemma bind_selectD:
  "bindM (select c q) k s = (Inr y, t) \<Longrightarrow>
     \<exists>s1. db s1 = db s \<and> ext s1 = ext s \<and> k (q (db s)) s1 = (Inr y, t)"
  by (erule bindM_InrE) (metis select_InrE view_of[OF keeps_select, OF view_faults])

lemma bind_mintD:
  "bindM (mint_raw_ulid u) k s = (Inr y, t) \<Longrightarrow>
     \<exists>i s1. db s1 = db s \<and> ext s1 = ext s \<and> k i s1 = (Inr y, t)"
  by (erule bindM_InrE) (metis mint_raw_ulid_effect)

lemma bind_execD:
  assumes "bindM (exec c f) k s = (Inr y, t)"
  shows "\<exists>d x s1. f (db s) = Inr (d, x) \<and> db s1 = d \<and> ext s1 = ext s \<and> k x s1 = (Inr y, t)"
proof -
  from assms obtain x s1 where e: "exec c f s = (Inr x, s1)" and k: "k x s1 = (Inr y, t)"
    by (rule bindM_InrE)
  from e obtain s0 d where "sql c s = (Inr (), s0)" "f (db s) = Inr (d, x)" "s1 = s0\<lparr>db := d\<rparr>"
    by (rule exec_InrE)
  moreover from this(1) have "ext s0 = ext s" by (auto dest: sql_Inr)
  ultimately show ?thesis using k by (intro exI[of _ d] exI[of _ x] exI[of _ s1]) simp
qed

text \<open>\<open>get_or_create_entity\<close> resolves to an entity of the store, creating at most that one.\<close>

lemma wf_entities_kind:
  assumes "wf_entities d"
  shows "wf_entities (d\<lparr>entities := map (\<lambda>e. if e_id e = i then e\<lparr>e_kind := k\<rparr> else e) (entities d)\<rparr>)"
    (is "wf_entities ?d")
proof -
  have "map e_id (entities ?d) = map e_id (entities d)"
    "map e_normalised_name (entities ?d) = map e_normalised_name (entities d)" by simp_all
  moreover have "\<forall>e \<in> set (entities ?d). e_normalised_name e \<noteq> [] \<and> length (e_normalised_name e) \<le> 256"
    using assms by (auto simp: wf_entities_def)
  ultimately show ?thesis using assms unfolding wf_entities_def by presburger
qed

lemma entities_grow_kind:
  "entities_grow d (d\<lparr>entities := map (\<lambda>e. if e_id e = i then e\<lparr>e_kind := k\<rparr> else e) (entities d)\<rparr>)"
  using wf_entities_kind[of d i k] by (simp add: entities_grow_def entity_names_def comp_def if_distrib cong: if_cong)

lemma entities_grow_insert:
  assumes "insert_entity_stmt e d = Inr (d', u)" "e_normalised_name e \<noteq> []" "length (e_normalised_name e) \<le> 256"
  shows "entities_grow d d'" "e_id e \<in> entity_ids d'"
  using assms
  by (auto simp: insert_entity_stmt_def entities_grow_def entity_names_def wf_entities_def entity_ids_def
      split: if_splits)

lemma entity_name_Inr: "entity_name x raw = Inr n \<Longrightarrow> n \<noteq> [] \<and> length n \<le> 256"
  by (auto simp: entity_name_def Let_def split: if_splits)

lemma adopt_entity_effect:
  assumes "adopt_entity kind old s = (Inr e, s')" "old \<in> set (entities (db s))"
  shows "entities_grow (db s) (db s') \<and> er_id e \<in> entity_ids (db s') \<and> ext s' = ext s"
proof -
  have r: "bindM (if kind \<noteq> None \<and> e_kind old = None
      then exec ''setting entity kind'' (set_kind_stmt kind (e_id old)) else ret ()) (\<lambda>_.
        ret \<lparr>er_id = e_id old, er_name = e_name old\<rparr>) s = (Inr e, s')"
    using assms(1) by (auto simp: adopt_entity_def fail_def split: if_splits)
  have e: "er_id e = e_id old" using r by (elim bindM_InrE) (auto simp: ret_def)
  have d: "(db s' = db s \<or> db s' = (db s)\<lparr>entities := map (\<lambda>e. if e_id e = e_id old then e\<lparr>e_kind := kind\<rparr> else e)
       (entities (db s))\<rparr>) \<and> ext s' = ext s"
  proof (cases "kind \<noteq> None \<and> e_kind old = None")
    case True
    show ?thesis using bind_execD[OF r[unfolded if_P[OF True]]]
      by (auto simp: set_kind_stmt_def ret_def)
  next
    case False
    show ?thesis using r[unfolded if_not_P[OF False]] by (simp add: bindM_def ret_def)
  qed
  then have g: "entities_grow (db s) (db s')" using entities_grow_kind by auto
  have "e_id old \<in> entity_ids (db s)" using assms(2) by (simp add: entity_ids_def)
  then show ?thesis using entity_ids_grow[OF g] g d e by auto
qed

lemma create_entity_effect:
  assumes "create_entity x t nm n kind s = (Inr e, s')" "n \<noteq> []" "length n \<le> 256"
  shows "entities_grow (db s) (db s') \<and> er_id e \<in> entity_ids (db s') \<and> ext s' = ext s"
proof -
  from bind_mintD[OF assms(1)[unfolded create_entity_def]] obtain i s2
    where v: "db s2 = db s" "ext s2 = ext s" and r: "bindM (exec ''inserting entity'' (insert_entity_stmt
       \<lparr>e_id = i, e_name = trim nm, e_normalised_name = n, e_kind = kind,
        e_created_at = ts_to_sql x t\<rparr>)) (\<lambda>_. ret \<lparr>er_id = i, er_name = trim nm\<rparr>) s2 = (Inr e, s')"
    by blast
  from bind_execD[OF r] v obtain u where ins: "insert_entity_stmt
       \<lparr>e_id = i, e_name = trim nm, e_normalised_name = n, e_kind = kind,
        e_created_at = ts_to_sql x t\<rparr> (db s) = Inr (db s', u)"
    and e: "e = \<lparr>er_id = i, er_name = trim nm\<rparr>" "ext s' = ext s"
    by (auto simp: ret_def)
  show ?thesis using entities_grow_insert[OF ins] assms(2,3) e by simp
qed

lemma get_or_create_entity_effect:
  assumes "get_or_create_entity t nm kind s = (Inr e, s')"
  shows "entities_grow (db s) (db s') \<and> er_id e \<in> entity_ids (db s') \<and> ext s' = ext s"
proof -
  from bind_liftD[OF bind_getsD[OF assms[unfolded get_or_create_entity_def]]] obtain n
    where n: "entity_name (ext s) nm = Inr n" and q: "bindM (select ''looking up entity'' (entity_named n))
      (\<lambda>existing. case existing of Some e \<Rightarrow> adopt_entity kind e
        | None \<Rightarrow> create_entity (ext s) t nm n kind) s = (Inr e, s')"
    by blast
  from bind_selectD[OF q] obtain s1 where v: "db s1 = db s" "ext s1 = ext s"
    and r: "(case entity_named n (db s) of Some e \<Rightarrow> adopt_entity kind e
        | None \<Rightarrow> create_entity (ext s) t nm n kind) s1 = (Inr e, s')" by blast
  show ?thesis
  proof (cases "entity_named n (db s)")
    case (Some old)
    then have "old \<in> set (entities (db s1))" by (auto simp: entity_named_def find_Some_iff v)
    with r Some show ?thesis using adopt_entity_effect[of kind old s1 e s'] v by simp
  next
    case None
    with r show ?thesis using create_entity_effect[of _ t nm n kind s1] entity_name_Inr[OF n] v by simp
  qed
qed

lemma resolve_object_effect:
  assumes "resolve_object t nob s = (Inr ob, s')"
  shows "entities_grow (db s) (db s') \<and> ext s' = ext s \<and>
    (\<forall>i. fst (columns_of ob) = Some i \<longrightarrow> i \<in> entity_ids (db s')) \<and>
    (fst (columns_of ob) = None) \<noteq> (snd (columns_of ob) = None) \<and> snd (columns_of ob) \<noteq> Some []"
proof (cases nob)
  case (New_Entity nm k)
  then obtain e where "get_or_create_entity t nm (kind_or_none k) s = (Inr e, s')" "ob = Entity_Object e"
    using assms by (auto simp: resolve_object_def ret_def elim!: bindM_InrE)
  then show ?thesis using get_or_create_entity_effect by simp
next
  case (New_Value v)
  then show ?thesis using assms by (auto simp: resolve_object_def ret_def fail_def split: if_splits)
qed

lemma find_open_head_result:
  assumes "find_open_head subj p cols sc s = (Inr r, s')" "scans (ext s)"
  shows "case r of
      None \<Rightarrow> \<forall>f \<in> set (facts (db s)). \<not> is_open_head (db s) subj p cols sc f
    | Some i \<Rightarrow> \<exists>f \<in> set (facts (db s)). f_id f = i \<and> is_open_head (db s) subj p cols sc f"
proof -
  have set: "set (scan_facts (ext s) fs) = set fs" for fs
    using assms(2) by (metis scans_def set_mset_mset)
  have "r = map_option f_id (find (is_open_head (db s) subj p cols sc) (scan_facts (ext s) (facts (db s))))"
    using bind_getsD[OF assms(1)[unfolded find_open_head_def]] by (rule select_InrE)
  then show ?thesis
    using set[of "facts (db s)"]
    by (cases "find (is_open_head (db s) subj p cols sc) (scan_facts (ext s) (facts (db s)))")
      (auto simp: find_None_iff dest!: find_SomeD)
qed

lemma check_new_fact_Inr:
  assumes "check_new_fact x f = Inr (p, sc)"
  shows "predicate_name x (nf_predicate f) = Inr p" "unit_interval (nf_confidence f)"
    "opt_traverse validate (nf_scope f) = Inr sc" "sc \<noteq> Some []"
    "\<And>a b. nf_valid_from f = Some a \<Longrightarrow> nf_valid_to f = Some b \<Longrightarrow> a \<le> b"
proof -
  show "predicate_name x (nf_predicate f) = Inr p" "unit_interval (nf_confidence f)"
    "opt_traverse validate (nf_scope f) = Inr sc"
    "\<And>a b. nf_valid_from f = Some a \<Longrightarrow> nf_valid_to f = Some b \<Longrightarrow> a \<le> b"
    using assms by (auto simp: check_new_fact_def elim!: rbind_InrE split: if_splits option.splits)
  then show "sc \<noteq> Some []"
    by (cases "nf_scope f") (auto elim!: rbind_InrE dest!: validate_scope_ok simp: scope_ok_def good_segment_def)
qed

text \<open>
  A row that starts at an instant: it was printed from it, or (a fact that stood already) its text
  parses to it.
\<close>

definition starts_at :: "externals \<Rightarrow> timestamp option \<Rightarrow> fact_row \<Rightarrow> bool" where
  "starts_at x from' g \<longleftrightarrow>
     f_valid_from g = map_option (ts_to_sql x) from' \<or> opt_traverse (parse_point x) (f_valid_from g) = Inr from'"

text \<open>What a successful \<open>add_fact_in_tx\<close> did: nothing but entities, or one fresh head more.\<close>

definition adds_head :: "database \<Rightarrow> fact_row \<Rightarrow> bool" where
  "adds_head d r \<longleftrightarrow>
     fact_row_ok d r \<and> f_id r \<notin> f_id ` set (facts d) \<and> f_supersedes r = None \<and>
     (\<forall>f. open_head d f \<longrightarrow> fact_key f \<noteq> fact_key r)"

lemma ifnull_eq_refl [simp]: "ifnull_eq a a"
  by (simp add: ifnull_eq_def)

lemma append_revision_effect:
  assumes "append_revision t f p sc subj ob s = (Inr new_fa, s')"
    "er_id subj \<in> entity_ids (db s)" "snd (columns_of ob) \<noteq> Some []" "sc \<noteq> Some []"
    "\<forall>g \<in> set (facts (db s)). \<not> is_open_head (db s) (er_id subj) p (columns_of ob) sc g"
  shows "\<exists>r. db s' = append_fact r (db s) \<and> adds_head (db s) r \<and> r = fact_row_of (ext s) new_fa \<and>
    fa_valid_from new_fa = nf_valid_from f \<and> fa_valid_to new_fa = nf_valid_to f \<and> fa_subject new_fa = subj \<and>
    fa_predicate new_fa = p \<and> fa_object new_fa = ob \<and> fa_scope new_fa = sc"
    "ext s' = ext s"
proof -
  let ?new = "\<lambda>i. \<lparr>fa_id = i, fa_subject = subj, fa_predicate = p, fa_object = ob,
         fa_valid_from = nf_valid_from f, fa_valid_to = nf_valid_to f,
         fa_confidence = nf_confidence f, fa_source_item_id = nf_source_item_id f,
         fa_scope = sc, fa_supersedes = None, fa_recorded_at = t\<rparr>"
  from bind_mintD[OF assms(1)[unfolded append_revision_def Let_def]] obtain i s1
    where v: "db s1 = db s" "ext s1 = ext s"
    and r: "bindM (insert_fact_row (?new i)) (\<lambda>_. ret (?new i)) s1 = (Inr new_fa, s')" by blast
  from r obtain u where ins: "insert_fact_row (?new i) s1 = (Inr u, s')" and new_fa: "new_fa = ?new i"
    by (auto elim!: bindM_InrE simp: ret_def)
  from bind_getsD[OF ins[unfolded insert_fact_row_def]] v
  have st: "insert_fact_stmt (fact_row_of (ext s) new_fa) (db s) = Inr (db s', u) \<and> ext s' = ext s"
    unfolding new_fa by (elim exec_InrE) (auto dest!: sql_Inr)
  let ?r = "fact_row_of (ext s) new_fa"
  have "db s' = append_fact ?r (db s)" "fact_row_ok (db s) ?r" "f_id ?r \<notin> f_id ` set (facts (db s))"
    using st assms(2,3,4)
    by (auto simp: insert_fact_stmt_def append_fact_def fact_row_ok_def fact_row_of_def new_fa split: if_splits)
  moreover have "fact_key g \<noteq> fact_key ?r" if "open_head (db s) g" for g
    using assms(5) that
    by (auto simp: open_head_def is_open_head_def fact_key_def fact_row_of_def new_fa)
  ultimately show "\<exists>r. db s' = append_fact r (db s) \<and> adds_head (db s) r \<and> r = fact_row_of (ext s) new_fa \<and>
    fa_valid_from new_fa = nf_valid_from f \<and> fa_valid_to new_fa = nf_valid_to f \<and> fa_subject new_fa = subj \<and>
    fa_predicate new_fa = p \<and> fa_object new_fa = ob \<and> fa_scope new_fa = sc"
    by (auto simp: adds_head_def new_fa) (simp_all add: fact_row_of_def)
  show "ext s' = ext s" using st by simp
qed

lemma return_standing_effect:
  "return_standing f i s = (Inr head, s') \<Longrightarrow>
     db s' = db s \<and> ext s' = ext s \<and> (\<exists>s1. get_fact i s = (Inr head, s1)) \<and>
     head_matches_request head (nf_valid_from f, nf_valid_to f) (nf_confidence f)"
proof -
  assume r: "return_standing f i s = (Inr head, s')"
  have "keeps view (return_standing f i)" unfolding return_standing_def by (intro keeps_intros) simp
  from view_of[OF this r] r show ?thesis
    unfolding return_standing_def by (auto elim!: bindM_InrE simp: ret_def fail_def split: if_splits)
qed

lemma add_fact_in_tx_split:
  assumes "add_fact_in_tx t f s = (Inr fa, s')"
  obtains p sc subj ob standing s1 s2 s3 s4 where
    "check_new_fact (ext s) f = Inr (p, sc)" "db s1 = db s" "ext s1 = ext s"
    "get_or_create_entity t (nf_subject f) (kind_or_none (nf_subject_kind f)) s1 = (Inr subj, s2)"
    "resolve_object t (nf_object f) s2 = (Inr ob, s3)"
    "find_open_head (er_id subj) p (columns_of ob) sc s3 = (Inr standing, s4)"
    "db s4 = db s3" "ext s4 = ext s3"
    "(case standing of Some i \<Rightarrow> return_standing f i | None \<Rightarrow> append_revision t f p sc subj ob) s4 = (Inr fa, s')"
proof -
  from bind_liftD[OF bind_getsD[OF assms(1)[unfolded add_fact_in_tx_def]]] obtain p sc
    where c: "check_new_fact (ext s) f = Inr (p, sc)" and q1: "bindM (check_source_item (nf_source_item_id f)) (\<lambda>_.
     bindM (get_or_create_entity t (nf_subject f) (kind_or_none (nf_subject_kind f))) (\<lambda>subj.
     bindM (resolve_object t (nf_object f)) (\<lambda>ob.
     bindM (find_open_head (er_id subj) p (columns_of ob) sc) (\<lambda>standing. case standing of
        Some i \<Rightarrow> return_standing f i
      | None \<Rightarrow> append_revision t f p sc subj ob)))) s = (Inr fa, s')"
    by auto
  have k: "keeps view (check_source_item src)" "keeps view (find_open_head a b c' e)" for src a b c' e
    by (intro keeps_intros; simp)+
  from bind_readD[OF q1 k(1)] obtain s1 where v1: "db s1 = db s" "ext s1 = ext s" and q2: "bindM
     (get_or_create_entity t (nf_subject f) (kind_or_none (nf_subject_kind f))) (\<lambda>subj.
     bindM (resolve_object t (nf_object f)) (\<lambda>ob.
     bindM (find_open_head (er_id subj) p (columns_of ob) sc) (\<lambda>standing. case standing of
        Some i \<Rightarrow> return_standing f i
      | None \<Rightarrow> append_revision t f p sc subj ob))) s1 = (Inr fa, s')" by blast
  from q2 obtain subj s2 where g1: "get_or_create_entity t (nf_subject f) (kind_or_none (nf_subject_kind f)) s1 = (Inr subj, s2)"
    and q3: "bindM (resolve_object t (nf_object f)) (\<lambda>ob.
     bindM (find_open_head (er_id subj) p (columns_of ob) sc) (\<lambda>standing. case standing of
        Some i \<Rightarrow> return_standing f i
      | None \<Rightarrow> append_revision t f p sc subj ob)) s2 = (Inr fa, s')" by (rule bindM_InrE)
  from q3 obtain ob s3 where g2: "resolve_object t (nf_object f) s2 = (Inr ob, s3)"
    and q4: "bindM (find_open_head (er_id subj) p (columns_of ob) sc) (\<lambda>standing. case standing of
        Some i \<Rightarrow> return_standing f i
      | None \<Rightarrow> append_revision t f p sc subj ob) s3 = (Inr fa, s')" by (rule bindM_InrE)
  from bind_readD[OF q4 k(2)] obtain standing s4 where
    "find_open_head (er_id subj) p (columns_of ob) sc s3 = (Inr standing, s4)"
    "db s4 = db s3" "ext s4 = ext s3" "(case standing of
        Some i \<Rightarrow> return_standing f i | None \<Rightarrow> append_revision t f p sc subj ob) s4 = (Inr fa, s')" by blast
  then show ?thesis by (intro that[OF c v1 g1 g2])
qed

lemma add_fact_in_tx_effect:
  assumes "add_fact_in_tx t f s = (Inr fa, s')" "scans (ext s)" "wf_graph (db s)"
  shows "ext s' = ext s"
    "\<exists>d. entities_grow (db s) d \<and> (db s' = d \<and> nf_valid_to f = None \<or>
      (\<exists>r. db s' = append_fact r d \<and> adds_head d r \<and> r = fact_row_of (ext s) fa))"
    "fa_valid_from fa = nf_valid_from f" "fa_valid_to fa = nf_valid_to f"
    "predicate_name (ext s) (nf_predicate f) = Inr (fa_predicate fa)"
    "\<exists>g \<in> set (facts (db s')). f_id g = fa_id fa \<and> starts_at (ext s) (nf_valid_from f) g"
proof -
  obtain p sc subj ob standing s1 s2 s3 s4 where
    c: "check_new_fact (ext s) f = Inr (p, sc)" and v1: "db s1 = db s" "ext s1 = ext s" and
    g1: "get_or_create_entity t (nf_subject f) (kind_or_none (nf_subject_kind f)) s1 = (Inr subj, s2)" and
    g2: "resolve_object t (nf_object f) s2 = (Inr ob, s3)" and
    fo: "find_open_head (er_id subj) p (columns_of ob) sc s3 = (Inr standing, s4)" and
    v4: "db s4 = db s3" "ext s4 = ext s3" and
    q5: "(case standing of Some i \<Rightarrow> return_standing f i | None \<Rightarrow> append_revision t f p sc subj ob) s4 = (Inr fa, s')"
    by (rule add_fact_in_tx_split[OF assms(1)])
  note e1 = get_or_create_entity_effect[OF g1] and e2 = resolve_object_effect[OF g2]
  have grow: "entities_grow (db s) (db s3)" using e1 e2 v1 entities_grow_trans by metis
  have subj: "er_id subj \<in> entity_ids (db s4)" using e1 e2 entity_ids_grow v4 by auto
  have x: "ext s3 = ext s" "ext s4 = ext s" using e1 e2 v1 v4 by simp_all
  note found = find_open_head_result[OF fo, unfolded x(1), OF assms(2)]
  note cs = check_new_fact_Inr[OF c]
  have wf3: "wf_graph (db s3)" using wf_graph_grow[OF assms(3) grow] .
  have "ext s' = ext s \<and>
    (\<exists>d. entities_grow (db s) d \<and> (db s' = d \<and> nf_valid_to f = None \<or>
      (\<exists>r. db s' = append_fact r d \<and> adds_head d r \<and> r = fact_row_of (ext s) fa))) \<and>
    fa_valid_from fa = nf_valid_from f \<and> fa_valid_to fa = nf_valid_to f \<and> fa_predicate fa = p \<and>
    (\<exists>g \<in> set (facts (db s')). f_id g = fa_id fa \<and> starts_at (ext s) (nf_valid_from f) g)"
  proof (cases standing)
    case None
    have "append_revision t f p sc subj ob s4 = (Inr fa, s')" using q5 None by simp
    from append_revision_effect[OF this subj _ cs(4)] e2 found[unfolded None] v4 x grow
    obtain r where "ext s' = ext s" "db s' = append_fact r (db s3)" "adds_head (db s3) r" "r = fact_row_of (ext s) fa"
      "fa_valid_from fa = nf_valid_from f" "fa_valid_to fa = nf_valid_to f" "fa_predicate fa = p" by auto
    moreover from this(4,5) have "f_id r = fa_id fa" "starts_at (ext s) (nf_valid_from f) r"
      by (simp_all add: fact_row_of_def starts_at_def)
    moreover from calculation(2) have "r \<in> set (facts (db s'))" by (simp add: append_fact_def)
    ultimately show ?thesis using grow by blast
  next
    case (Some i)
    have r: "return_standing f i s4 = (Inr fa, s')" using q5 Some by simp
    note rs = return_standing_effect[OF r]
    from found[unfolded Some] obtain h where h: "h \<in> set (facts (db s3))" "f_id h = i"
      "is_open_head (db s3) (er_id subj) p (columns_of ob) sc h" by auto
    obtain h' sn on where h': "h' \<in> set (facts (db s4))" "f_id h' = i"
      "into_fact (ext s4) \<lparr>rf_row = h', rf_subject_name = sn, rf_object_name = on\<rparr> = Inr fa"
      using rs get_fact_Inr by blast
    have "h' = h" using h h' v4 wf3 by (auto simp: wf_graph_def distinct_map dest: inj_onD)
    have one: "(f_object_id h' = None) \<noteq> (f_object_value h' = None)"
      using h'(1) v4 wf3 by (auto simp: wf_graph_def fact_row_ok_def)
    note row = into_fact_row[OF h'(3) one]
    have "fa_valid_to fa = None" using row(9) h(3) \<open>h' = h\<close> by (simp add: is_open_head_def)
    moreover have "h' \<in> set (facts (db s'))" "f_id h' = fa_id fa" using h'(1) rs row(1) by simp_all
    moreover have "starts_at (ext s) (nf_valid_from f) h'"
      using row(8) rs x by (auto simp: starts_at_def head_matches_request_def)
    ultimately show ?thesis
      using rs x v4 grow row(3) h(3) \<open>h' = h\<close> by (auto simp: head_matches_request_def is_open_head_def)
  qed
  then show "ext s' = ext s"
    "\<exists>d. entities_grow (db s) d \<and> (db s' = d \<and> nf_valid_to f = None \<or>
      (\<exists>r. db s' = append_fact r d \<and> adds_head d r \<and> r = fact_row_of (ext s) fa))"
    "fa_valid_from fa = nf_valid_from f" "fa_valid_to fa = nf_valid_to f"
    "predicate_name (ext s) (nf_predicate f) = Inr (fa_predicate fa)"
    "\<exists>g \<in> set (facts (db s')). f_id g = fa_id fa \<and> starts_at (ext s) (nf_valid_from f) g"
    using cs(1) by simp_all
qed

definition closes_head :: "database \<Rightarrow> fact_row \<Rightarrow> fact_row \<Rightarrow> bool" where
  "closes_head d h r \<longleftrightarrow>
     open_head d h \<and> fact_row_ok d r \<and> f_id r \<notin> f_id ` set (facts d) \<and>
     f_supersedes r = Some (f_id h) \<and> f_valid_to r \<noteq> None \<and> fact_key r = fact_key h"

lemma close_head_effect:
  assumes "close_head t at i s = (Inr fa, s')" "wf_graph (db s)"
    "\<And>h. h \<in> set (facts (db s)) \<Longrightarrow> f_id h = i \<Longrightarrow> open_head (db s) h"
  shows "ext s' = ext s"
    "\<exists>h r. db s' = append_fact r (db s) \<and> closes_head (db s) h r \<and> f_id h = i \<and> r = fact_row_of (ext s) fa \<and>
      opt_traverse (parse_point (ext s)) (f_valid_from h) = Inr (fa_valid_from fa)"
    "fa_valid_to fa = Some at" "\<And>v. fa_valid_from fa = Some v \<Longrightarrow> v \<le> at"
proof -
  have k: "keeps view (get_fact i)" by (intro keeps_intros) simp
  from bind_readD[OF assms(1)[unfolded close_head_def] k] obtain head s1 where
    g: "get_fact i s = (Inr head, s1)" and v: "db s1 = db s" "ext s1 = ext s" and
    q: "(if (case fa_valid_from head of None \<Rightarrow> False | Some from' \<Rightarrow> at < from')
     then fail (Validation ''valid_window'' (EndsBeforeStart at (the (fa_valid_from head))))
     else bindM (mint_raw_ulid t) (\<lambda>j.
       let closed = head\<lparr>fa_id := j, fa_valid_to := Some at, fa_supersedes := Some (fa_id head),
           fa_recorded_at := t\<rparr>
       in bindM (insert_fact_row closed) (\<lambda>_. ret closed))) s1 = (Inr fa, s')" by blast
  have le: "\<And>w. fa_valid_from head = Some w \<Longrightarrow> w \<le> at"
    using q by (auto simp: fail_def split: if_splits)
  let ?closed = "\<lambda>j. head\<lparr>fa_id := j, fa_valid_to := Some at, fa_supersedes := Some (fa_id head),
           fa_recorded_at := t\<rparr>"
  from q have q2: "bindM (mint_raw_ulid t) (\<lambda>j. bindM (insert_fact_row (?closed j)) (\<lambda>_. ret (?closed j))) s1 = (Inr fa, s')"
    by (auto simp: fail_def Let_def split: if_splits)
  from bind_mintD[OF q2] obtain j s2 where v2: "db s2 = db s1" "ext s2 = ext s1"
    and q3: "bindM (insert_fact_row (?closed j)) (\<lambda>_. ret (?closed j)) s2 = (Inr fa, s')" by blast
  from q3 obtain u where ins: "insert_fact_row (?closed j) s2 = (Inr u, s')" and fa: "fa = ?closed j"
    by (auto elim!: bindM_InrE simp: ret_def)
  from bind_getsD[OF ins[unfolded insert_fact_row_def]] v v2
  have st: "insert_fact_stmt (fact_row_of (ext s) fa) (db s) = Inr (db s', u) \<and> ext s' = ext s"
    unfolding fa by (elim exec_InrE) (auto dest!: sql_Inr)
  from get_fact_Inr[OF g] obtain h sn on where h: "h \<in> set (facts (db s))" "f_id h = i"
    "into_fact (ext s) \<lparr>rf_row = h, rf_subject_name = sn, rf_object_name = on\<rparr> = Inr head" by blast
  have okh: "fact_row_ok (db s) h" using h(1) assms(2) by (simp add: wf_graph_def)
  note row = into_fact_row[OF h(3)]
  let ?r = "fact_row_of (ext s) fa"
  have key: "fact_key ?r = fact_key h"
    using row okh by (simp add: fact_key_def fact_row_of_def fa fact_row_ok_def)
  have "closes_head (db s) h ?r"
    using st assms(3)[OF h(1,2)] key okh row
    by (auto simp: closes_head_def insert_fact_stmt_def fact_row_ok_def fact_key_def split: if_splits)
      (simp_all add: fact_row_of_def fa)
  moreover have "db s' = append_fact ?r (db s)"
    using st by (auto simp: insert_fact_stmt_def append_fact_def split: if_splits)
  moreover have "opt_traverse (parse_point (ext s)) (f_valid_from h) = Inr (fa_valid_from fa)"
    using row(8) okh by (simp add: fact_row_ok_def fa)
  ultimately show "\<exists>h r. db s' = append_fact r (db s) \<and> closes_head (db s) h r \<and> f_id h = i \<and> r = fact_row_of (ext s) fa \<and>
      opt_traverse (parse_point (ext s)) (f_valid_from h) = Inr (fa_valid_from fa)"
    using h(2) by blast
  show "ext s' = ext s" "fa_valid_to fa = Some at" "\<And>v. fa_valid_from fa = Some v \<Longrightarrow> v \<le> at"
    using st le by (simp_all add: fa)
qed

lemma find_columns_one:
  assumes "find_columns tr s = (Inr cols, s')"
  shows "fst cols = None \<Longrightarrow> snd cols \<noteq> None"
  using assms
  by (cases "tr_object tr")
    (auto simp: find_columns_def ret_def fail_def elim!: bindM_InrE split: option.splits)

lemma invalidate_in_tx_effect:
  assumes "invalidate_in_tx t at tr s = (Inr fa, s')" "scans (ext s)" "wf_graph (db s)"
  shows "ext s' = ext s"
    "\<exists>h r. db s' = append_fact r (db s) \<and> closes_head (db s) h r \<and> r = fact_row_of (ext s) fa \<and>
      opt_traverse (parse_point (ext s)) (f_valid_from h) = Inr (fa_valid_from fa)"
    "fa_valid_to fa = Some at" "\<And>v. fa_valid_from fa = Some v \<Longrightarrow> v \<le> at"
    "predicate_name (ext s) (tr_predicate tr) = Inr (fa_predicate fa)"
proof -
  have k: "keeps view (find_entity n)" "keeps view (find_columns tr)" "keeps view (find_open_head a b c e)"
    for n a b c e by (intro keeps_intros; simp)+
  from bind_liftD[OF bind_getsD[OF assms(1)[unfolded invalidate_in_tx_def]]] obtain p
    where p: "predicate_name (ext s) (tr_predicate tr) = Inr p" and q: "bindM (lift (opt_traverse validate (tr_scope tr))) (\<lambda>sc.
     bindM (find_entity (tr_subject tr)) (\<lambda>subj_opt. case subj_opt of
       None \<Rightarrow> fail (not_found tr)
     | Some subj \<Rightarrow>
       bindM (find_columns tr) (\<lambda>cols.
       bindM (find_open_head (er_id subj) p cols sc) (\<lambda>head_opt. case head_opt of
         None \<Rightarrow> fail (not_found tr)
       | Some i \<Rightarrow> close_head t at i)))) s = (Inr fa, s')" by auto
  from bind_liftD[OF q] obtain sc where q2: "bindM (find_entity (tr_subject tr)) (\<lambda>subj_opt. case subj_opt of
       None \<Rightarrow> fail (not_found tr)
     | Some subj \<Rightarrow>
       bindM (find_columns tr) (\<lambda>cols.
       bindM (find_open_head (er_id subj) p cols sc) (\<lambda>head_opt. case head_opt of
         None \<Rightarrow> fail (not_found tr)
       | Some i \<Rightarrow> close_head t at i))) s = (Inr fa, s')" by blast
  from bind_readD[OF q2 k(1)] obtain subj :: entity_ref and s1 where v1: "db s1 = db s" "ext s1 = ext s" and
    q3: "bindM (find_columns tr) (\<lambda>cols.
       bindM (find_open_head (er_id subj) p cols sc) (\<lambda>head_opt. case head_opt of
         None \<Rightarrow> fail (not_found tr)
       | Some i \<Rightarrow> close_head t at i)) s1 = (Inr fa, s')"
    by (auto simp: fail_def split: option.splits)
  from bind_readD[OF q3 k(2)] obtain cols s2 where v2: "db s2 = db s1" "ext s2 = ext s1" and
    q4: "bindM (find_open_head (er_id subj) p cols sc) (\<lambda>head_opt. case head_opt of
         None \<Rightarrow> fail (not_found tr)
       | Some i \<Rightarrow> close_head t at i) s2 = (Inr fa, s')" by blast
  from bind_readD[OF q4 k(3)] obtain i s3 where
    fo: "find_open_head (er_id subj) p cols sc s2 = (Inr (Some i), s3)" and
    v3: "db s3 = db s2" "ext s3 = ext s2" and c: "close_head t at i s3 = (Inr fa, s')"
    by (auto simp: fail_def split: option.splits)
  from find_open_head_result[OF fo] v1 v2 assms(2) obtain h where
    h: "h \<in> set (facts (db s))" "f_id h = i" "is_open_head (db s) (er_id subj) p cols sc h" by auto
  have uniq: "g = h" if "g \<in> set (facts (db s))" "f_id g = i" for g
    using that h(1,2) assms(3) by (auto simp: wf_graph_def distinct_map dest: inj_onD)
  then have op: "open_head (db s) g" if "g \<in> set (facts (db s))" "f_id g = i" for g
    using that h by (auto simp: open_head_def is_open_head_def)
  have v: "db s3 = db s" "ext s3 = ext s" using v1 v2 v3 by simp_all
  note e = close_head_effect[OF c, unfolded v, OF assms(3) op]
  from e(2) obtain h' r where hr: "db s' = append_fact r (db s)" "closes_head (db s) h' r" "f_id h' = i"
    "r = fact_row_of (ext s) fa" by blast
  then have "h' = h" using uniq by (auto simp: closes_head_def open_head_def)
  then have "fa_predicate fa = p"
    using hr(2,4) h(3) by (auto simp: closes_head_def fact_key_def is_open_head_def fact_row_of_def)
  then show "predicate_name (ext s) (tr_predicate tr) = Inr (fa_predicate fa)" using p by simp
  show "ext s' = ext s" "fa_valid_to fa = Some at" "\<And>v. fa_valid_from fa = Some v \<Longrightarrow> v \<le> at"
    using e by blast+
  show "\<exists>h r. db s' = append_fact r (db s) \<and> closes_head (db s) h r \<and> r = fact_row_of (ext s) fa \<and>
      opt_traverse (parse_point (ext s)) (f_valid_from h) = Inr (fa_valid_from fa)"
    using e(2) by blast
qed

lemma atomic_if: "(c \<Longrightarrow> atomic a) \<Longrightarrow> (\<not> c \<Longrightarrow> atomic b) \<Longrightarrow> atomic (if c then a else b)"
  by simp

lemma atomic_case_option: "atomic a \<Longrightarrow> (\<And>x. atomic (b x)) \<Longrightarrow> atomic (case z of None \<Rightarrow> a | Some x \<Rightarrow> b x)"
  by (cases z) auto

lemma atomic_fail: "atomic (fail e)" "atomic (ret x)"
  by (auto simp: atomic_def op_defs)

lemma atomic_exec: "atomic (exec c f)"
  by (auto simp: atomic_def exec_def elim!: bindM_InlE dest: sql_result_db sql_Inr split: sum.splits)

lemma atomic_insert_fact: "atomic (bindM (insert_fact_row f) (\<lambda>_. ret x))"
proof -
  have g: "keeps db (gets ext)" by (intro keeps_intros)
  have "atomic (insert_fact_row f)"
    unfolding insert_fact_row_def by (rule atomic_bind_keeps[OF g atomic_exec])
  then show ?thesis by (rule atomic_bind_infallible) (rule infallible_intros)
qed

lemma atomic_invalidate: "atomic (invalidate_in_tx t at tr)"
proof -
  have k: "keeps db (get_fact i)" "keeps db (find_entity n)" "keeps db (find_columns tr)"
    "keeps db (find_open_head a b c e)" "keeps db (gets ext)" for i n a b c e
    by (intro keeps_intros; simp)+
  have c: "atomic (close_head t at i)" for i
    unfolding close_head_def Let_def
    by (intro atomic_bind_keeps[OF k(1)] atomic_bind_keeps[OF keeps_now_db(2)] atomic_if atomic_fail
        atomic_insert_fact)
  show ?thesis
    unfolding invalidate_in_tx_def
    by (intro atomic_bind_keeps[OF k(5)] atomic_bind_keeps[OF keeps_now_db(4)] atomic_bind_keeps[OF k(2)]
        atomic_bind_keeps[OF k(3)] atomic_bind_keeps[OF k(4)] atomic_case_option atomic_fail c)
qed

lemma tolerate_not_found_Inr:
  assumes "tolerate_not_found (invalidate_in_tx t at tr) s = (Inr r, s')"
  shows "case r of Some fa \<Rightarrow> invalidate_in_tx t at tr s = (Inr fa, s')
    | None \<Rightarrow> db s' = db s \<and> (\<exists>a b c. invalidate_in_tx t at tr s = (Inl (FactNotFound a b c), s'))"
  using assms atomic_invalidate[of t at tr]
  by (auto simp: tolerate_not_found_def atomic_def split: prod.splits sum.splits error.splits)

lemma explain_standing_Inr: "explain_standing m s = (Inr x, s') \<Longrightarrow> m s = (Inr x, s')"
  by (auto simp: explain_standing_def split: prod.splits sum.splits error.splits reason.splits)

section \<open>The operations\<close>

lemma transaction_inner_effect:
  assumes "bindM (assert_writable c) (\<lambda>_. bindM now (\<lambda>t. transaction b e (body t))) s = (Inr x, s')"
  shows "\<exists>t s1 s2. t = clock s (ticks s) \<and> db s1 = db s \<and> ext s1 = ext s \<and> \<not> read_only s \<and>
    body t s1 = (Inr x, s2) \<and> db s' = db s2 \<and> ext s' = ext s2 \<and> deferred_fks_ok (db s')"
proof -
  from assms obtain t s0 where w: "\<not> read_only s" and n: "now s = (Inr t, s0)"
    and tx: "transaction b e (body t) s0 = (Inr x, s')"
    by (auto elim!: bindM_InrE dest!: assert_writable_effect)
  from tx obtain s1 s2 where 1: "sql b s0 = (Inr (), s1)" "body t s1 = (Inr x, s2)" "deferred_fks_ok (db s2)"
    "sql e s2 = (Inr (), s')" by (rule transaction_InrE)
  have "db s1 = db s" "ext s1 = ext s" "t = clock s (ticks s)" using n sql_Inr[OF 1(1)] by (auto simp: now_def)
  moreover have "db s' = db s2" "ext s' = ext s2" using sql_Inr[OF 1(4)] by simp_all
  ultimately show ?thesis using 1 w by metis
qed

lemma add_fact_effect:
  assumes "add_fact f s = (Inr fa, s')" "scans (ext s)" "wf_graph (db s)"
  shows "\<exists>d. entities_grow (db s) d \<and> (db s' = d \<and> nf_valid_to f = None \<or>
      (\<exists>r. db s' = append_fact r d \<and> adds_head d r \<and> r = fact_row_of (ext s) fa))"
    "fa_valid_from fa = nf_valid_from f" "fa_valid_to fa = nf_valid_to f"
proof -
  from transaction_inner_effect[OF assms(1)[unfolded add_fact_def]] obtain t s1 s2 where
    "db s1 = db s" "ext s1 = ext s" "add_fact_in_tx t f s1 = (Inr fa, s2)" "db s' = db s2" by blast
  with add_fact_in_tx_effect[of t f s1 fa s2] assms(2,3)
  show "\<exists>d. entities_grow (db s) d \<and> (db s' = d \<and> nf_valid_to f = None \<or>
      (\<exists>r. db s' = append_fact r d \<and> adds_head d r \<and> r = fact_row_of (ext s) fa))"
    "fa_valid_from fa = nf_valid_from f" "fa_valid_to fa = nf_valid_to f"
    by simp_all
qed

lemma invalidate_fact_effect:
  assumes "invalidate_fact tr at s = (Inr fa, s')" "scans (ext s)" "wf_graph (db s)"
  shows "\<exists>h r. db s' = append_fact r (db s) \<and> closes_head (db s) h r \<and> r = fact_row_of (ext s) fa \<and>
      opt_traverse (parse_point (ext s)) (f_valid_from h) = Inr (fa_valid_from fa)"
    "fa_valid_to fa = Some (case at of None \<Rightarrow> clock s (ticks s) | Some a \<Rightarrow> a)"
proof -
  from transaction_inner_effect[OF assms(1)[unfolded invalidate_fact_def]] obtain t s1 s2 where
    "t = clock s (ticks s)" "db s1 = db s" "ext s1 = ext s"
    "invalidate_in_tx t (case at of None \<Rightarrow> t | Some a \<Rightarrow> a) tr s1 = (Inr fa, s2)" "db s' = db s2" by blast
  with invalidate_in_tx_effect[of t "case at of None \<Rightarrow> t | Some a \<Rightarrow> a" tr s1 fa s2] assms(2,3)
  show "\<exists>h r. db s' = append_fact r (db s) \<and> closes_head (db s) h r \<and> r = fact_row_of (ext s) fa \<and>
      opt_traverse (parse_point (ext s)) (f_valid_from h) = Inr (fa_valid_from fa)"
    "fa_valid_to fa = Some (case at of None \<Rightarrow> clock s (ticks s) | Some a \<Rightarrow> a)"
    by (simp_all add: option.case_eq_if)
qed

lemma wf_graph_adds: "wf_graph d \<Longrightarrow> adds_head d r \<Longrightarrow> wf_graph (append_fact r d)"
  by (rule wf_graph_append_head) (auto simp: adds_head_def)

lemma wf_graph_closes: "wf_graph d \<Longrightarrow> closes_head d h r \<Longrightarrow> wf_graph (append_fact r d)"
  by (rule wf_graph_append_closing[of d r h]) (auto simp: closes_head_def)

text \<open>
  \<open>supersede_fact\<close>: the old open fact, if there was one, is closed at the time point, and then an
  open fact stands that is valid from it.
\<close>

definition replacement :: "triple_ref \<Rightarrow> new_object \<Rightarrow> timestamp \<Rightarrow> new_fact" where
  "replacement tr ob a =
     \<lparr>nf_subject = tr_subject tr, nf_subject_kind = None, nf_predicate = tr_predicate tr,
      nf_object = ob, nf_valid_from = Some a, nf_valid_to = None,
      nf_confidence = 0x3F800000, nf_source_item_id = None, nf_scope = tr_scope tr\<rparr>"

lemma supersede_fact_effect:
  assumes "supersede_fact tr ob at s = (Inr (closed, fa), s')" "scans (ext s)" "wf_graph (db s)"
  defines "a \<equiv> case at of None \<Rightarrow> clock s (ticks s) | Some a \<Rightarrow> a"
  shows "\<exists>d1 d2. (case closed of
        None \<Rightarrow> d1 = db s
      | Some c \<Rightarrow> fa_valid_to c = Some a \<and> (\<exists>h. closes_head (db s) h (fact_row_of (ext s) c)) \<and>
          d1 = append_fact (fact_row_of (ext s) c) (db s)) \<and>
      wf_graph d1 \<and> entities_grow d1 d2 \<and>
      (db s' = d2 \<or> adds_head d2 (fact_row_of (ext s) fa) \<and> db s' = append_fact (fact_row_of (ext s) fa) d2)"
    "fa_valid_from fa = Some a" "fa_valid_to fa = None"
    "\<exists>t u u'. add_fact_in_tx t (replacement tr ob a) u = (Inr fa, u') \<and> ext u = ext s \<and> wf_graph (db u) \<and> db s' = db u'"
proof -
  let ?nf = "\<lparr>nf_subject = tr_subject tr, nf_subject_kind = None, nf_predicate = tr_predicate tr,
           nf_object = ob, nf_valid_from = Some a, nf_valid_to = None,
           nf_confidence = 0x3F800000, nf_source_item_id = None, nf_scope = tr_scope tr\<rparr>"
  from transaction_inner_effect[OF assms(1)[unfolded supersede_fact_def Let_def]] obtain t s1 s2 where
    t: "t = clock s (ticks s)" and v: "db s1 = db s" "ext s1 = ext s" and fin: "db s' = db s2" and
    body: "bindM (tolerate_not_found (invalidate_in_tx t (case at of None \<Rightarrow> t | Some a \<Rightarrow> a) tr)) (\<lambda>closed.
        bindM (explain_standing (add_fact_in_tx t
          \<lparr>nf_subject = tr_subject tr, nf_subject_kind = None, nf_predicate = tr_predicate tr,
           nf_object = ob, nf_valid_from = Some (case at of None \<Rightarrow> t | Some a \<Rightarrow> a), nf_valid_to = None,
           nf_confidence = 0x3F800000, nf_source_item_id = None, nf_scope = tr_scope tr\<rparr>)) (\<lambda>replacement.
        ret (closed, replacement))) s1 = (Inr (closed, fa), s2)" by blast
  have a: "(case at of None \<Rightarrow> t | Some a \<Rightarrow> a) = a"
    by (cases at) (simp_all add: a_def t)
  from body obtain s3 where inv: "tolerate_not_found (invalidate_in_tx t a tr) s1 = (Inr closed, s3)"
    and add: "add_fact_in_tx t ?nf s3 = (Inr fa, s2)"
    unfolding a by (auto elim!: bindM_InrE simp: ret_def dest!: explain_standing_Inr)
  have mid: "wf_graph (db s3) \<and> ext s3 = ext s \<and> (case closed of
        None \<Rightarrow> db s3 = db s
      | Some c \<Rightarrow> fa_valid_to c = Some a \<and> (\<exists>h. closes_head (db s) h (fact_row_of (ext s) c)) \<and>
          db s3 = append_fact (fact_row_of (ext s) c) (db s))"
  proof (cases closed)
    case None
    then have "db s3 = db s1" using tolerate_not_found_Inr[OF inv] by simp
    moreover have "ext s3 = ext s1"
    proof -
      have "keeps ext (tolerate_not_found m)" if "keeps ext m" for m :: "fact op"
        using that by (auto simp: keeps_def tolerate_not_found_def split: prod.splits sum.splits error.splits) (metis snd_conv)+
      moreover have "keeps ext (invalidate_in_tx t a tr)"
        unfolding invalidate_in_tx_def close_head_def insert_fact_row_def Let_def
        by (intro keeps_intros; simp)
      ultimately show ?thesis using inv keepsD by blast
    qed
    ultimately show ?thesis using None v assms(3) by simp
  next
    case (Some c)
    then have "invalidate_in_tx t a tr s1 = (Inr c, s3)" using tolerate_not_found_Inr[OF inv] by simp
    from invalidate_in_tx_effect[OF this] v assms(2,3) show ?thesis
      using Some wf_graph_closes by auto
  qed
  note e = add_fact_in_tx_effect[OF add]
  show "\<exists>d1 d2. (case closed of
        None \<Rightarrow> d1 = db s
      | Some c \<Rightarrow> fa_valid_to c = Some a \<and> (\<exists>h. closes_head (db s) h (fact_row_of (ext s) c)) \<and>
          d1 = append_fact (fact_row_of (ext s) c) (db s)) \<and>
      wf_graph d1 \<and> entities_grow d1 d2 \<and>
      (db s' = d2 \<or> adds_head d2 (fact_row_of (ext s) fa) \<and> db s' = append_fact (fact_row_of (ext s) fa) d2)"
  proof -
    from e(2) mid assms(2) obtain d2 where "entities_grow (db s3) d2"
      "db s2 = d2 \<or> adds_head d2 (fact_row_of (ext s) fa) \<and> db s2 = append_fact (fact_row_of (ext s) fa) d2"
      by auto
    then show ?thesis using mid fin by (intro exI[of _ "db s3"] exI[of _ d2]) simp
  qed
  show "fa_valid_from fa = Some a" "fa_valid_to fa = None"
    using e(3,4) mid assms(2) by simp_all
  show "\<exists>t u u'. add_fact_in_tx t (replacement tr ob a) u = (Inr fa, u') \<and> ext u = ext s \<and> wf_graph (db u) \<and> db s' = db u'"
    using add mid fin unfolding replacement_def by blast
qed

section \<open>The interface of the graph writes\<close>

text \<open>
  The invariant the operations keep, on a store whose scans return the rows of the table; every row
  of the facts table is the image of a fact.
\<close>

definition facts_stored :: "externals \<Rightarrow> database \<Rightarrow> bool" where
  "facts_stored x d \<longleftrightarrow> (\<forall>r \<in> set (facts d). \<exists>fa. r = fact_row_of x fa)"

definition graph_inv :: "externals \<Rightarrow> database \<Rightarrow> bool" where
  "graph_inv x d \<longleftrightarrow> scans x \<and> wf_graph d \<and> facts_stored x d"

lemma facts_stored_grow: "entities_grow d d' \<Longrightarrow> facts_stored x d' = facts_stored x d"
  by (simp add: entities_grow_def facts_stored_def)

lemma facts_stored_append [simp]:
  "facts_stored x (append_fact r d) \<longleftrightarrow> facts_stored x d \<and> (\<exists>fa. r = fact_row_of x fa)"
  by (auto simp: facts_stored_def)

lemma atomic_writes:
  "atomic (bindM (assert_writable c) (\<lambda>_. bindM now (\<lambda>t. transaction b e (body t))))"
  by (intro atomic_bind_keeps[OF keeps_now_db(3)] atomic_bind_keeps[OF keeps_now_db(1)] atomic_transaction)

lemma atomic_add_fact: "atomic (add_fact f)"
  unfolding add_fact_def by (rule atomic_writes)

lemma atomic_invalidate_fact: "atomic (invalidate_fact tr at)"
  unfolding invalidate_fact_def by (rule atomic_writes)

lemma atomic_supersede_fact: "atomic (supersede_fact tr ob at)"
  unfolding supersede_fact_def Let_def by (rule atomic_writes)

lemma keeps_graph_steps:
  assumes "\<And>s bs. f (s\<lparr>faults := bs\<rparr>) = f s" "\<And>s d. f (s\<lparr>db := d\<rparr>) = f s"
    "\<And>s n. f (s\<lparr>draws := n\<rparr>) = f s"
  shows "keeps f (add_fact_in_tx t nf)" "keeps f (invalidate_in_tx t at tr)"
proof -
  have e: "keeps f (get_or_create_entity t nm k)" for nm k
    unfolding get_or_create_entity_def adopt_entity_def create_entity_def by (intro keeps_intros assms)
  have o: "keeps f (resolve_object t ob)" for ob
    unfolding resolve_object_def by (intro keeps_intros e)
  have i: "keeps f (insert_fact_row r)" for r
    unfolding insert_fact_row_def by (intro keeps_intros assms)
  have r: "keeps f (return_standing nf j)" "keeps f (append_revision t nf p sc subj ob)" for j p sc subj ob
    unfolding return_standing_def append_revision_def Let_def by (intro keeps_intros assms i)+
  have p: "keeps f (case pr of (p, sc) \<Rightarrow> k p sc)" if "\<And>p sc. keeps f (k p sc)"
    for pr :: "string \<times> string option" and k :: "string \<Rightarrow> string option \<Rightarrow> fact op"
    using that by (cases pr) simp
  show "keeps f (add_fact_in_tx t nf)"
    unfolding add_fact_in_tx_def by (intro keeps_intros p assms e o r)
  have c: "keeps f (close_head t at j)" for j
    unfolding close_head_def Let_def by (intro keeps_intros assms i)
  show "keeps f (invalidate_in_tx t at tr)"
    unfolding invalidate_in_tx_def by (intro keeps_intros assms c)
qed

lemma keeps_handlers:
  "keeps f m \<Longrightarrow> keeps f (tolerate_not_found m)" "keeps f m' \<Longrightarrow> keeps f (explain_standing m')"
  by (auto simp: keeps_def tolerate_not_found_def explain_standing_def
      split: prod.splits sum.splits error.splits reason.splits) (metis snd_conv)+

lemma graph_writes_keep_handle:
  "keeps handle (add_fact f)" "keeps handle (invalidate_fact tr at)" "keeps handle (supersede_fact tr ob at)"
  unfolding add_fact_def invalidate_fact_def supersede_fact_def Let_def
  by (intro keeps_intros keeps_graph_steps keeps_handlers handle_updates)+

lemma keeps_handle_ext: "keeps handle m \<Longrightarrow> m s = (r, s') \<Longrightarrow> ext s' = ext s"
  by (drule keepsD, assumption) (simp add: handle_def)

lemma wf_add_fact:
  assumes "graph_inv (ext s) (db s)" "add_fact f s = (r, s')" shows "graph_inv (ext s') (db s')"
proof -
  have "wf_graph (db s') \<and> facts_stored (ext s) (db s')"
  proof (cases r)
    case (Inr fa)
    from add_fact_effect(1)[OF assms(2)[unfolded Inr]] assms(1) obtain d where
      "entities_grow (db s) d" "db s' = d \<or> (\<exists>r. db s' = append_fact r d \<and> adds_head d r \<and> r = fact_row_of (ext s) fa)"
      by (auto simp: graph_inv_def)
    then show ?thesis using assms(1) wf_graph_grow wf_graph_adds facts_stored_grow
      by (auto simp: graph_inv_def)
  qed (use assms atomic_add_fact in \<open>auto simp: atomic_def graph_inv_def\<close>)
  then show ?thesis
    using assms(1) keeps_handle_ext[OF graph_writes_keep_handle(1) assms(2)] by (simp add: graph_inv_def)
qed

lemma wf_invalidate_fact:
  assumes "graph_inv (ext s) (db s)" "invalidate_fact tr at s = (r, s')" shows "graph_inv (ext s') (db s')"
proof -
  have "wf_graph (db s') \<and> facts_stored (ext s) (db s')"
  proof (cases r)
    case (Inr fa)
    with invalidate_fact_effect(1)[OF assms(2)[unfolded Inr]] assms(1) show ?thesis
      using wf_graph_closes by (auto simp: graph_inv_def)
  qed (use assms atomic_invalidate_fact in \<open>auto simp: atomic_def graph_inv_def\<close>)
  then show ?thesis
    using assms(1) keeps_handle_ext[OF graph_writes_keep_handle(2) assms(2)] by (simp add: graph_inv_def)
qed

lemma wf_supersede_fact:
  assumes "graph_inv (ext s) (db s)" "supersede_fact tr ob at s = (r, s')" shows "graph_inv (ext s') (db s')"
proof -
  have "wf_graph (db s') \<and> facts_stored (ext s) (db s')"
  proof (cases r)
    case (Inr p)
    obtain c fa where p: "p = (c, fa)" by fastforce
    have "scans (ext s)" "wf_graph (db s)" using assms(1) by (simp_all add: graph_inv_def)
    note e = supersede_fact_effect(1)[OF assms(2)[unfolded Inr p] this]
    obtain d1 d2 where
      1: "wf_graph d1" "entities_grow d1 d2"
      "db s' = d2 \<or> adds_head d2 (fact_row_of (ext s) fa) \<and> db s' = append_fact (fact_row_of (ext s) fa) d2"
      and c: "d1 = db s \<or> (\<exists>y. d1 = append_fact (fact_row_of (ext s) y) (db s))"
    proof (cases c)
      case None with e that show ?thesis by (simp only: option.case) blast
    next
      case (Some y) with e that show ?thesis by (simp only: option.case) blast
    qed
    have "facts_stored (ext s) d1" using c assms(1) by (auto simp: graph_inv_def)
    with 1 show ?thesis using wf_graph_grow wf_graph_adds facts_stored_grow by auto
  qed (use assms atomic_supersede_fact in \<open>auto simp: atomic_def graph_inv_def\<close>)
  then show ?thesis
    using assms(1) keeps_handle_ext[OF graph_writes_keep_handle(3) assms(2)] by (simp add: graph_inv_def)
qed

lemma graph_writes_refused:
  assumes "read_only s"
  shows "add_fact f s = (Inl (ReadOnly ''add_fact''), s)"
    "invalidate_fact tr at s = (Inl (ReadOnly ''invalidate_fact''), s)"
    "supersede_fact tr ob at s = (Inl (ReadOnly ''supersede_fact''), s)"
  unfolding add_fact_def invalidate_fact_def supersede_fact_def by (rule refuse_first[OF assms])+

interpretation add_fact: atomic_write add_fact "''add_fact''" graph_inv
  by unfold_locales
    (auto simp: graph_writes_refused graph_writes_keep_handle atomic_add_fact intro: wf_add_fact)

interpretation invalidate_fact: atomic_write "\<lambda>(tr, at). invalidate_fact tr at" "''invalidate_fact''" graph_inv
  by unfold_locales
    (auto simp: graph_writes_refused graph_writes_keep_handle atomic_invalidate_fact intro: wf_invalidate_fact)

interpretation supersede_fact: atomic_write "\<lambda>(tr, ob, at). supersede_fact tr ob at" "''supersede_fact''" graph_inv
  by unfold_locales
    (auto simp: graph_writes_refused graph_writes_keep_handle atomic_supersede_fact intro: wf_supersede_fact)

end
