(* ===== verification/Graph.thy ===== *)
theory Graph
  imports Graph_Write
begin

text \<open>
  What the knowledge graph promises: the meaning of the shared read predicate on both time axes, the
  append-only facts table, idempotent addition, closing and replacing of facts, and the revision
  walk, which returns on every file.
\<close>

section \<open>The read predicate\<close>

text \<open>
  \<open>jiff\<close>'s part of the bargain, for the years 0 to 9999: the fixed-width text of \<open>time::to_sql\<close> sorts
  as the instants do, and reads back.
\<close>

definition ce_time :: "timestamp \<Rightarrow> bool" where
  "ce_time t \<longleftrightarrow> - 62167219200000000000 \<le> t \<and> t < 253402300800000000000"

definition sql_time_laws :: "externals \<Rightarrow> bool" where
  "sql_time_laws x \<longleftrightarrow>
     (\<forall>a b. ce_time a \<and> ce_time b \<longrightarrow> (ts_to_sql x a \<le> ts_to_sql x b \<longleftrightarrow> a \<le> b)) \<and>
     (\<forall>t. ce_time t \<longrightarrow> parse_point x (ts_to_sql x t) = Inr t)"

definition head_part :: "externals \<Rightarrow> graph_query \<Rightarrow> database \<Rightarrow> fact_row \<Rightarrow> bool" where
  "head_part x q d f = (case q_recorded_at q of
     None \<Rightarrow> \<not> superseded d (f_id f)
   | Some r \<Rightarrow> f_recorded_at f \<le> ts_to_sql x r \<and>
       \<not> (\<exists>g \<in> set (facts d). f_supersedes g = Some (f_id f) \<and> f_recorded_at g \<le> ts_to_sql x r))"

definition window_part :: "externals \<Rightarrow> graph_query \<Rightarrow> validity \<Rightarrow> fact_row \<Rightarrow> bool" where
  "window_part x q v f \<longleftrightarrow> v = Any_Head \<or> (case q_as_of q of
     None \<Rightarrow> f_valid_to f = None
   | Some t \<Rightarrow> (case f_valid_from f of None \<Rightarrow> True | Some a \<Rightarrow> a \<le> ts_to_sql x t) \<and>
       (case f_valid_to f of None \<Rightarrow> True | Some b \<Rightarrow> ts_to_sql x t < b))"

definition scope_part :: "graph_query \<Rightarrow> fact_row \<Rightarrow> bool" where
  "scope_part q f = (case q_scope q of None \<Rightarrow> True | Some g \<Rightarrow> sql_matches g (f_scope f))"

text \<open>The bind values line up with the placeholders whichever fragments a query has.\<close>

lemma visible_parts:
  "visible x q v d f \<longleftrightarrow> head_part x q d f \<and> window_part x q v f \<and> scope_part q f"
  by (cases "q_recorded_at q"; cases "q_as_of q"; cases "q_scope q"; cases v)
    (simp_all add: visible_def fact_where_def head_part_def window_part_def scope_part_def sql_matches_def
      filter_sql_clause_def conj_assoc)

definition valid_at :: "timestamp option \<Rightarrow> timestamp option \<Rightarrow> timestamp \<Rightarrow> bool" where
  "valid_at from' until t \<longleftrightarrow>
     (case from' of None \<Rightarrow> True | Some a \<Rightarrow> a \<le> t) \<and> (case until of None \<Rightarrow> True | Some b \<Rightarrow> t < b)"

definition fact_times :: "fact \<Rightarrow> timestamp set" where
  "fact_times f = set_option (fa_valid_from f) \<union> set_option (fa_valid_to f) \<union> {fa_recorded_at f}"

lemma fact_row_of_simps [simp]:
  "f_id (fact_row_of x fa) = fa_id fa" "f_recorded_at (fact_row_of x fa) = ts_to_sql x (fa_recorded_at fa)"
  "f_scope (fact_row_of x fa) = fa_scope fa" "f_supersedes (fact_row_of x fa) = fa_supersedes fa"
  "f_valid_from (fact_row_of x fa) = map_option (ts_to_sql x) (fa_valid_from fa)"
  "f_valid_to (fact_row_of x fa) = map_option (ts_to_sql x) (fa_valid_to fa)"
  "f_predicate (fact_row_of x fa) = fa_predicate fa" "f_subject_id (fact_row_of x fa) = er_id (fa_subject fa)"
  by (simp_all add: fact_row_of_def)

definition visible_sample :: fact where
  "visible_sample = \<lparr>fa_id = 49, fa_subject = \<lparr>er_id = 48, er_name = ''ada''\<rparr>, fa_predicate = ''knows'',
     fa_object = Value_Object ''bob'', fa_valid_from = Some 5, fa_valid_to = Some 7,
     fa_confidence = 0x3F800000, fa_source_item_id = None, fa_scope = None, fa_supersedes = None,
     fa_recorded_at = 3\<rparr>"

text \<open>
  C16: the shared read predicate sees a stored fact exactly when: at the record time asked for it was
  recorded and not yet superseded (without a record time: it is not superseded now); its half-open
  validity window contains the instant asked for (without one: it has no end); its scope matches.
\<close>

theorem visible_meaning:
  assumes laws: "sql_time_laws x" and stored: "facts_stored x d" and
    row: "f = fact_row_of x fa" and range: "\<And>t. t \<in> fact_times fa \<Longrightarrow> ce_time t" and
    ranges: "\<And>ga. fact_row_of x ga \<in> set (facts d) \<Longrightarrow> ce_time (fa_recorded_at ga)" and
    qrange: "\<And>t. q_as_of q = Some t \<or> q_recorded_at q = Some t \<Longrightarrow> ce_time t" and
    scopes: "\<And>g. q_scope q = Some g \<Longrightarrow> scope_ok (sf_path g)" "\<And>s. fa_scope fa = Some s \<Longrightarrow> scope_ok s"
  shows "visible x q Window d f \<longleftrightarrow>
     (case q_recorded_at q of
        None \<Rightarrow> \<not> superseded d (fa_id fa)
      | Some r \<Rightarrow> fa_recorded_at fa \<le> r \<and> \<not> (\<exists>ga. fact_row_of x ga \<in> set (facts d) \<and>
          fa_supersedes ga = Some (fa_id fa) \<and> fa_recorded_at ga \<le> r)) \<and>
     (case q_as_of q of None \<Rightarrow> fa_valid_to fa = None | Some t \<Rightarrow> valid_at (fa_valid_from fa) (fa_valid_to fa) t) \<and>
     filter_matches (q_scope q) (fa_scope fa)"
proof -
  have le: "ts_to_sql x a \<le> ts_to_sql x b \<longleftrightarrow> a \<le> b" if "ce_time a" "ce_time b" for a b
    using laws that by (simp add: sql_time_laws_def)
  have lt: "ts_to_sql x a < ts_to_sql x b \<longleftrightarrow> a < b" if "ce_time a" "ce_time b" for a b
    using le[OF that(2,1)] by (simp add: not_le[symmetric])
  have sup: "(\<exists>g \<in> set (facts d). f_supersedes g = Some (f_id f) \<and> f_recorded_at g \<le> ts_to_sql x r) \<longleftrightarrow>
      (\<exists>ga. fact_row_of x ga \<in> set (facts d) \<and> fa_supersedes ga = Some (fa_id fa) \<and> fa_recorded_at ga \<le> r)"
    if "ce_time r" for r
  proof
    assume "\<exists>g \<in> set (facts d). f_supersedes g = Some (f_id f) \<and> f_recorded_at g \<le> ts_to_sql x r"
    then obtain g where g: "g \<in> set (facts d)" "f_supersedes g = Some (f_id f)" "f_recorded_at g \<le> ts_to_sql x r" by blast
    then obtain ga where ga: "g = fact_row_of x ga" using stored by (auto simp: facts_stored_def)
    then have "fa_recorded_at ga \<le> r" using g le[OF ranges that] by simp
    then show "\<exists>ga. fact_row_of x ga \<in> set (facts d) \<and> fa_supersedes ga = Some (fa_id fa) \<and> fa_recorded_at ga \<le> r"
      using g ga row by auto
  next
    assume "\<exists>ga. fact_row_of x ga \<in> set (facts d) \<and> fa_supersedes ga = Some (fa_id fa) \<and> fa_recorded_at ga \<le> r"
    then obtain ga where "fact_row_of x ga \<in> set (facts d)" "fa_supersedes ga = Some (fa_id fa)" "fa_recorded_at ga \<le> r" by blast
    then show "\<exists>g \<in> set (facts d). f_supersedes g = Some (f_id f) \<and> f_recorded_at g \<le> ts_to_sql x r"
      using le[OF ranges that] row by (intro bexI[of _ "fact_row_of x ga"]) auto
  qed
  have id: "f_id f = fa_id fa" "f_recorded_at f = ts_to_sql x (fa_recorded_at fa)" "f_scope f = fa_scope fa"
    "f_valid_from f = map_option (ts_to_sql x) (fa_valid_from fa)" "f_valid_to f = map_option (ts_to_sql x) (fa_valid_to fa)"
    by (simp_all add: row)
  have head: "head_part x q d f \<longleftrightarrow> (case q_recorded_at q of
        None \<Rightarrow> \<not> superseded d (fa_id fa)
      | Some r \<Rightarrow> fa_recorded_at fa \<le> r \<and> \<not> (\<exists>ga. fact_row_of x ga \<in> set (facts d) \<and>
          fa_supersedes ga = Some (fa_id fa) \<and> fa_recorded_at ga \<le> r))"
    using sup le[of "fa_recorded_at fa"] range qrange
    by (cases "q_recorded_at q") (simp_all add: head_part_def id fact_times_def)
  have win: "window_part x q Window f \<longleftrightarrow> (case q_as_of q of None \<Rightarrow> fa_valid_to fa = None
      | Some t \<Rightarrow> valid_at (fa_valid_from fa) (fa_valid_to fa) t)"
    using range qrange
    by (cases "q_as_of q"; cases "fa_valid_from fa"; cases "fa_valid_to fa")
      (simp_all add: window_part_def valid_at_def id fact_times_def le lt)
  have sc: "scope_part q f = filter_matches (q_scope q) (fa_scope fa)"
    using scopes by (cases "q_scope q") (simp_all add: scope_part_def filter_matches_def id sql_matches_eq_matches)
  show ?thesis unfolding visible_parts head win sc ..
qed

lemma visible_sample_simps [simp]:
  "fa_id visible_sample = 49" "fa_recorded_at visible_sample = 3" "fa_valid_from visible_sample = Some 5"
  "fa_valid_to visible_sample = Some 7" "fa_scope visible_sample = None" "fa_supersedes visible_sample = None"
  by (simp_all add: visible_sample_def)

theorem visible_meaning_witness:
  "visible sample_ext \<lparr>q_scope = None, q_as_of = Some 5, q_recorded_at = Some 4, q_direction = Both\<rparr> Window
     (empty_db\<lparr>facts := [fact_row_of sample_ext visible_sample]\<rparr>) (fact_row_of sample_ext visible_sample)"
    (is "visible _ ?q _ ?d ?f")
proof -
  have laws: "sql_time_laws sample_ext"
    by (simp add: sql_time_laws_def parse_point_def Let_def)
  have st: "facts_stored sample_ext ?d" by (auto simp: facts_stored_def)
  have same: "fa_recorded_at ga = 3 \<and> fa_supersedes ga = None" if "fact_row_of sample_ext ga \<in> set (facts ?d)" for ga
  proof -
    have "fact_row_of sample_ext ga = ?f" using that by simp
    from arg_cong[OF this, of "\<lambda>r. (time_of_unary (f_recorded_at r), f_supersedes r)"]
    show ?thesis by simp
  qed
  have t: "ce_time t" if "t \<in> fact_times visible_sample" for t
    using that by (auto simp: fact_times_def ce_time_def)
  have tr: "ce_time (fa_recorded_at ga)" if "fact_row_of sample_ext ga \<in> set (facts ?d)" for ga
    using same[OF that] by (simp add: ce_time_def)
  have tq: "ce_time t" if "q_as_of ?q = Some t \<or> q_recorded_at ?q = Some t" for t
    using that by (auto simp: ce_time_def)
  show ?thesis
    using visible_meaning[OF laws st refl t tr tq] same
    by (fastforce simp: valid_at_def filter_matches_def)
qed

section \<open>The revision walk\<close>

lemma get_fact_id:
  assumes "get_fact i s = (Inr f, s')"
  shows "fa_id f = i" "i \<in> f_id ` set (facts (db s))" "db s' = db s"
    "\<exists>h \<in> set (facts (db s)). f_id h = i \<and> f_supersedes h = fa_supersedes f"
proof -
  from get_fact_Inr[OF assms] obtain h sn on where h: "h \<in> set (facts (db s))" "f_id h = i"
    "into_fact (ext s) \<lparr>rf_row = h, rf_subject_name = sn, rf_object_name = on\<rparr> = Inr f" by blast
  then have "fa_id f = f_id h" "fa_supersedes f = f_supersedes h"
    by (auto simp: into_fact_def Let_def elim!: rbind_InrE)
  then show "fa_id f = i" "\<exists>h \<in> set (facts (db s)). f_id h = i \<and> f_supersedes h = fa_supersedes f"
    using h by auto
  show "i \<in> f_id ` set (facts (db s))" using h(1,2) by blast
  have "keeps db (get_fact i)" by (intro keeps_intros) simp
  then show "db s' = db s" using assms by (rule keepsD)
qed

abbreviation unseen :: "store \<Rightarrow> ulid list \<Rightarrow> nat" where
  "unseen s seen \<equiv> card (f_id ` set (facts (db s)) - set seen)"

lemma unseen_less:
  assumes "i \<in> f_id ` set (facts (db s))" "i \<notin> set seen"
  shows "unseen s (seen @ [i]) < unseen s seen"
  using assms by (intro psubset_card_mono) auto

lemma older_loop_ends: "\<exists>y. older_loop cursor seen older s = Some y"
proof (induction "unseen s seen" arbitrary: cursor seen older s rule: less_induct)
  case less
  show ?case
  proof (cases cursor)
    case None then show ?thesis by (simp add: older_loop.simps)
  next
    case (Some prev)
    obtain r s' where g: "get_fact prev s = (r, s')" by fastforce
    show ?thesis
    proof (cases "prev \<in> set seen \<or> (\<exists>e. r = Inl e)")
      case True then show ?thesis using Some g by (auto simp: older_loop.simps)
    next
      case False
      then obtain f where f: "r = Inr f" by (cases r) auto
      note gi = get_fact_id[OF g[unfolded f]]
      have "unseen s' (seen @ [fa_id f]) < unseen s seen"
        using unseen_less[OF gi(2)] False gi(1,3) by simp
      from less.hyps[OF this] show ?thesis using Some g f False by (simp add: older_loop.simps[of "Some prev"])
    qed
  qed
qed

lemma newer_loop_ends: "\<exists>y. newer_loop chain seen s = Some y"
proof (induction "unseen s seen" arbitrary: chain seen s rule: less_induct)
  case less
  obtain q s1 where su: "successors_of (fa_id (last chain)) s = (q, s1)" by fastforce
  have "keeps db (successors_of j)" for j unfolding successors_of_def by (intro keeps_intros) simp
  then have d: "db s1 = db s" using su by (rule keepsD)
  show ?case
  proof (cases "\<exists>n. q = Inr [n] \<and> n \<notin> set seen")
    case False
    then show ?thesis using su by (auto simp: newer_loop.simps[of chain] split: sum.splits list.splits)
  next
    case True
    then obtain n where n: "q = Inr [n]" "n \<notin> set seen" by blast
    obtain r s2 where g: "get_fact n s1 = (r, s2)" by fastforce
    show ?thesis
    proof (cases r)
      case (Inl e) then show ?thesis using su n g by (simp add: newer_loop.simps[of chain])
    next
      case (Inr f)
      note gi = get_fact_id[OF g[unfolded Inr]]
      have "unseen s2 (seen @ [n]) < unseen s seen"
        using unseen_less[of n s seen] gi d n(2) by simp
      from less.hyps[OF this] show ?thesis using su n g Inr by (simp add: newer_loop.simps[of chain])
    qed
  qed
qed

lemma successors_of_Inr:
  assumes "successors_of i s = (Inr ids, s')" "wf_graph (db s)"
  shows "n \<in> set ids \<longleftrightarrow> (\<exists>g \<in> set (facts (db s)). f_id g = n \<and> f_supersedes g = Some i)" "length ids \<le> 1"
    "db s' = db s"
proof -
  have ids: "ids = map f_id (sort_key (\<lambda>f. (f_recorded_at f, f_id f))
      (filter (\<lambda>f. f_supersedes f = Some i) (facts (db s))))"
    using assms(1) unfolding successors_of_def by (rule run_query_Inr)
  then show "n \<in> set ids \<longleftrightarrow> (\<exists>g \<in> set (facts (db s)). f_id g = n \<and> f_supersedes g = Some i)" by auto
  have in_mf: "f \<in> set fs \<Longrightarrow> f_supersedes f = Some i \<Longrightarrow> i \<in> set (List.map_filter f_supersedes fs)"
    for f :: fact_row and fs :: "fact_row list" by (induction fs) (auto simp: map_filter_simps split: option.splits)
  have "distinct (List.map_filter f_supersedes fs) \<Longrightarrow> length (filter (\<lambda>f. f_supersedes f = Some i) fs) \<le> 1"
    for fs :: "fact_row list"
  proof (induction fs)
    case (Cons f fs)
    then show ?case using in_mf[of _ fs]
      by (cases "f_supersedes f") (auto simp: map_filter_simps filter_empty_conv)
  qed simp
  then show "length ids \<le> 1" using assms(2) by (simp add: ids wf_graph_def)
  have "keeps db (successors_of i)" unfolding successors_of_def by (intro keeps_intros) simp
  then show "db s' = db s" using assms(1) by (rule keepsD)
qed

text \<open>
  \<open>fact_history\<close> returns on every file, also on one whose supersession links run in circles: the
  list of revisions seen bounds both walks.
\<close>

theorem fact_history_total: "\<exists>r s'. fact_history i s = Some (r, s')"
proof -
  obtain q s1 where g: "get_fact i s = (q, s1)" by fastforce
  show ?thesis
  proof (cases q)
    case (Inl e) then show ?thesis using g by (simp add: fact_history_def)
  next
    case (Inr start)
    obtain r s2 where o: "older_loop (fa_supersedes start) [fa_id start] [] s1 = Some (r, s2)"
      using older_loop_ends by fastforce
    show ?thesis
    proof (cases r)
      case (Inl e) then show ?thesis using g Inr o by (simp add: fact_history_def)
    next
      case (Inr p)
      obtain seen older where p: "p = (seen, older)" by fastforce
      obtain y where "newer_loop (rev older @ [start]) seen s2 = Some y" using newer_loop_ends by blast
      then show ?thesis using g \<open>q = Inr start\<close> o Inr p by (cases y) (simp add: fact_history_def)
    qed
  qed
qed

lemma linked_open:
  "wf_graph d \<Longrightarrow> g \<in> set (facts d) \<Longrightarrow> f_supersedes g = Some i \<Longrightarrow>
     f_valid_to g \<noteq> None \<and> (\<exists>f \<in> set (facts d). f_id f = i \<and> f_valid_to f = None)"
  by (fastforce simp: wf_graph_def)

lemma same_id: "wf_graph d \<Longrightarrow> f \<in> set (facts d) \<Longrightarrow> g \<in> set (facts d) \<Longrightarrow> f_id f = f_id g \<Longrightarrow> f = g"
  by (auto simp: wf_graph_def distinct_map dest: inj_onD)

lemma closing_not_superseded:
  assumes "wf_graph d" "g \<in> set (facts d)" "f_supersedes g \<noteq> None"
  shows "\<not> superseded d (f_id g)"
proof
  assume "superseded d (f_id g)"
  then obtain h where "h \<in> set (facts d)" "f_supersedes h = Some (f_id g)" by (auto simp: superseded_def)
  from linked_open[OF assms(1) this] obtain f where
    "f \<in> set (facts d)" "f_id f = f_id g" "f_valid_to f = None" by blast
  moreover from this have "f = g" using same_id[OF assms(1) _ assms(2)] by blast
  ultimately show False using linked_open[OF assms(1,2)] assms(3) by auto
qed

lemma parse_point_Inl: "parse_point x s = Inl e \<Longrightarrow> \<exists>f r. e = Validation f r"
  by (auto simp: parse_point_def Let_def split: option.splits)

lemma into_fact_Inl: "into_fact x raw = Inl e \<Longrightarrow> \<exists>f r. e = Validation f r"
proof -
  have o: "opt_traverse (parse_point x) z = Inl e \<Longrightarrow> \<exists>f r. e = Validation f r" for z
    by (cases z) (auto simp: rbind_def split: sum.splits dest: parse_point_Inl)
  show "into_fact x raw = Inl e \<Longrightarrow> \<exists>f r. e = Validation f r"
    by (auto simp: into_fact_def Let_def rbind_def split: sum.splits option.splits dest: o parse_point_Inl)
qed

lemma run_query_Inl: "run_query c1 c2 c3 q s = (Inl e, s') \<Longrightarrow> \<exists>c. e = Sqlite c"
  by (auto simp: run_query_def select_def gets_def sql_def elim!: bindM_InlE split: list.splits if_splits)

lemma get_fact_not_ambiguous: "get_fact i s = (Inl e, s') \<Longrightarrow> e \<noteq> AmbiguousFactRevision c"
  unfolding get_fact_def load_fact_def select_facts_def
  by (auto elim!: bindM_InlE bindM_InrE simp: op_defs split: option.splits if_splits
      dest!: run_query_Inl traverse_Inl_cases into_fact_Inl)

lemma newer_loop_stops:
  assumes "newer_loop chain seen s = Some (r, s')" "wf_graph (db s)" "\<not> superseded (db s) (fa_id (last chain))"
  shows "case r of Inr fs \<Rightarrow> fs = chain | Inl e \<Rightarrow> \<forall>c. e \<noteq> AmbiguousFactRevision c"
proof -
  obtain q s1 where su: "successors_of (fa_id (last chain)) s = (q, s1)" by fastforce
  show ?thesis
  proof (cases q)
    case (Inl e)
    then show ?thesis using assms(1) su run_query_Inl unfolding successors_of_def
      by (fastforce simp: newer_loop.simps[of chain] successors_of_def)
  next
    case (Inr ids)
    from successors_of_Inr(1)[OF su[unfolded Inr] assms(2), of "hd ids"] assms(3) have "ids = []"
      by (cases ids) (auto simp: superseded_def)
    then show ?thesis using assms(1) su Inr by (auto simp: newer_loop.simps[of chain])
  qed
qed

lemma newer_loop_steps:
  assumes "newer_loop chain seen s = Some (r, s')" "wf_graph (db s)" "superseded (db s) (fa_id (last chain))"
    "\<And>g. g \<in> set (facts (db s)) \<Longrightarrow> f_supersedes g = Some (fa_id (last chain)) \<Longrightarrow> f_id g \<notin> set seen"
  shows "case r of
      Inr fs \<Rightarrow> \<exists>g. fs = chain @ [g] \<and> fa_supersedes g = Some (fa_id (last chain)) \<and> \<not> superseded (db s) (fa_id g)
    | Inl e \<Rightarrow> \<forall>c. e \<noteq> AmbiguousFactRevision c"
proof -
  obtain q s1 where su: "successors_of (fa_id (last chain)) s = (q, s1)" by fastforce
  show ?thesis
  proof (cases q)
    case (Inl e)
    then show ?thesis using assms(1) su run_query_Inl unfolding successors_of_def
      by (fastforce simp: newer_loop.simps[of chain] successors_of_def)
  next
    case (Inr ids)
    note si = successors_of_Inr[OF su[unfolded Inr] assms(2)]
    from assms(3) obtain g where g: "g \<in> set (facts (db s))" "f_supersedes g = Some (fa_id (last chain))"
      by (auto simp: superseded_def)
    obtain n where n': "f_id g = n" by blast
    have "n \<in> set ids" using si(1) g n' by blast
    with si(2) have ids: "ids = [n]" by (cases ids) auto
    note g = g n'
    have n: "n \<notin> set seen" using assms(4)[OF g(1,2)] g(3) by simp
    obtain rr s2 where gf: "get_fact n s1 = (rr, s2)" by fastforce
    show ?thesis
    proof (cases rr)
      case (Inl e)
      then show ?thesis using assms(1) su Inr ids n gf get_fact_not_ambiguous
        by (auto simp: newer_loop.simps[of chain])
    next
      case (Inr f)
      note gi = get_fact_id[OF gf[unfolded Inr]]
      from gi(4) si(3) obtain h where h: "h \<in> set (facts (db s))" "f_id h = n" "f_supersedes h = fa_supersedes f"
        by auto
      have "h = g" using same_id[OF assms(2) h(1) g(1)] h(2) g(3) by simp
      then have f: "fa_id f = n" "fa_supersedes f = Some (fa_id (last chain))" "db s2 = db s"
        using gi(1,3) si(3) h(3) g(2) by simp_all
      have "\<not> superseded (db s) n" using closing_not_superseded[OF assms(2) g(1)] g by simp
      moreover have "newer_loop (chain @ [f]) (seen @ [n]) s2 = Some (r, s')"
        using assms(1) su \<open>q = Inr ids\<close> ids n gf Inr by (simp add: newer_loop.simps[of chain])
      ultimately show ?thesis
        using newer_loop_stops[of "chain @ [f]" "seen @ [n]" s2 r s'] assms(2) f by (auto split: sum.splits)
    qed
  qed
qed

lemma older_loop_root:
  assumes "older_loop cursor seen older s = Some (r, s')" "cursor = None"
  shows "r = Inr (seen, older)" "s' = s"
  using assms by (simp_all add: older_loop.simps)

lemma older_loop_parent:
  assumes "older_loop (Some p) [i] [] s = Some (r, s')" "p \<noteq> i"
  shows "(\<exists>e s1. get_fact p s = (Inl e, s1) \<and> r = Inl e) \<or>
    (\<exists>f s1. get_fact p s = (Inr f, s1) \<and> (fa_supersedes f = None \<longrightarrow> r = Inr ([i, fa_id f], [f]) \<and> s' = s1))"
proof (cases "get_fact p s")
  case (Pair q s1)
  then show ?thesis using assms
    by (cases q) (auto simp: older_loop.simps[of "Some p"] older_loop.simps[of None])
qed

text \<open>
  on a store that only the operations wrote, \<open>fact_history\<close> is never ambiguous: it answers with the
  fact as it was recorded and, when it has been closed, the one revision that closed it.
\<close>

theorem fact_history_shape:
  assumes "wf_graph (db s)" "fact_history i s = Some (r, s')"
  shows "case r of
      Inr fs \<Rightarrow> i \<in> fa_id ` set fs \<and> fa_supersedes (hd fs) = None \<and> \<not> superseded (db s) (fa_id (last fs)) \<and>
        (length fs = 1 \<or> length fs = 2 \<and> fa_supersedes (last fs) = Some (fa_id (hd fs)))
    | Inl e \<Rightarrow> \<forall>c. e \<noteq> AmbiguousFactRevision c"
proof (cases "\<exists>e s1. get_fact i s = (Inl e, s1)")
  case True
  then show ?thesis using assms(2) get_fact_not_ambiguous by (auto simp: fact_history_def)
next
  case False
  then obtain f s1 where g: "get_fact i s = (Inr f, s1)" by (metis old.sum.exhaust surj_pair)
  note gi = get_fact_id[OF g]
  from gi(4) obtain h where h: "h \<in> set (facts (db s))" "f_id h = i" "f_supersedes h = fa_supersedes f" by blast
  obtain r2 s2 where o: "older_loop (fa_supersedes f) [fa_id f] [] s1 = Some (r2, s2)"
    using older_loop_ends by fastforce
  show ?thesis
  proof (cases "fa_supersedes f")
    case None
    note o2 = older_loop_root[OF o None]
    have run: "newer_loop [f] [i] s1 = Some (r, s')"
      using assms(2) g o o2 gi(1) by (simp add: fact_history_def)
    show ?thesis
    proof (cases "superseded (db s) i")
      case False
      then show ?thesis using newer_loop_stops[OF run] assms(1) gi None by (auto split: sum.splits)
    next
      case True
      have "f_id k \<notin> set [i]" if "k \<in> set (facts (db s))" "f_supersedes k = Some i" for k
        using that h same_id[OF assms(1) that(1) h(1)] None by auto
      then show ?thesis using newer_loop_steps[OF run] True assms(1) gi None by (auto split: sum.splits)
    qed
  next
    case (Some p)
    from linked_open[OF assms(1) h(1)] h(3) Some obtain k where
      k: "k \<in> set (facts (db s))" "f_id k = p" "f_valid_to k = None" and h2: "f_valid_to h \<noteq> None" by auto
    have kn: "f_supersedes k = None" using linked_open[OF assms(1) k(1)] k(3) by (cases "f_supersedes k") auto
    have "p \<noteq> i" using same_id[OF assms(1) k(1) h(1)] k h h2 by auto
    from older_loop_parent[OF o[unfolded Some gi(1)] this]
    consider e s3 where "get_fact p s1 = (Inl e, s3)" "r2 = Inl e"
      | fp s3 where "get_fact p s1 = (Inr fp, s3)" "fa_supersedes fp = None \<longrightarrow> r2 = Inr ([i, fa_id fp], [fp]) \<and> s2 = s3"
      by auto
    then show ?thesis
    proof cases
      case 1
      then show ?thesis using assms(2) g o get_fact_not_ambiguous by (auto simp: fact_history_def)
    next
      case 2
      note gp = get_fact_id[OF 2(1)]
      from gp(4) obtain k' where "k' \<in> set (facts (db s))" "f_id k' = p" "f_supersedes k' = fa_supersedes fp"
        unfolding gi(3) by blast
      then have fp: "fa_supersedes fp = None" using same_id[OF assms(1) _ k(1), of k'] k(2) kn by simp
      with 2(2) have r2: "r2 = Inr ([i, p], [fp])" "s2 = s3" using gp(1) by simp_all
      have run: "newer_loop [fp, f] [i, p] s3 = Some (r, s')"
        using assms(2) g o r2 by (simp add: fact_history_def)
      have "\<not> superseded (db s) i" using closing_not_superseded[OF assms(1) h(1)] h Some by simp
      then show ?thesis
        using newer_loop_stops[OF run] assms(1) gi gp fp Some by (auto split: sum.splits)
    qed
  qed
qed

theorem fact_history_shape_witness:
  "\<exists>r s'. fact_history 49 sample_store = Some (r, s') \<and> (\<forall>c. r \<noteq> Inl (AmbiguousFactRevision c))"
proof -
  have wf: "wf_graph (db sample_store)"
    by (simp add: wf_graph_def wf_entities_def empty_db_def map_filter_def open_head_def)
  obtain r s' where "fact_history 49 sample_store = Some (r, s')"
    using newer_loop_ends older_loop_ends by (auto simp: fact_history_def get_fact_def load_fact_def select_facts_def
        bindM_def run_query_no_faults gets_def lift_def fact_select_def empty_db_def ret_def fail_def map_filter_simps)
  with fact_history_shape[OF wf this] show ?thesis by (auto split: sum.splits)
qed

section \<open>Names resolve once and for all\<close>

definition resolves :: "externals \<Rightarrow> database \<Rightarrow> string \<Rightarrow> ulid \<Rightarrow> bool" where
  "resolves x d nm i \<longleftrightarrow> (\<exists>n dn. entity_name x nm = Inr n \<and> (i, dn, n) \<in> set (entity_names d))"

definition object_resolves :: "externals \<Rightarrow> database \<Rightarrow> new_object \<Rightarrow> object_columns \<Rightarrow> bool" where
  "object_resolves x d nob cols = (case nob of
     New_Entity nm _ \<Rightarrow> (\<exists>i. cols = (Some i, None) \<and> resolves x d nm i)
   | New_Value v \<Rightarrow> cols = (None, Some (trim v)))"

lemma resolves_grow: "resolves x d nm i \<Longrightarrow> entities_grow d d' \<Longrightarrow> resolves x d' nm i"
  unfolding resolves_def entities_grow_def by (meson set_mono_prefix subsetD)

lemma object_resolves_grow: "object_resolves x d nob cols \<Longrightarrow> entities_grow d d' \<Longrightarrow> object_resolves x d' nob cols"
  by (cases nob) (auto simp: object_resolves_def intro: resolves_grow)

lemma resolves_append [simp]:
  "resolves x (append_fact r d) nm i = resolves x d nm i"
  "object_resolves x (append_fact r d) nob cols = object_resolves x d nob cols"
  by (auto simp: resolves_def object_resolves_def entity_names_def split: new_object.splits)

lemma resolves_unique:
  assumes "wf_entities d" "resolves x d nm i" "resolves x d nm j" shows "i = j"
proof -
  from assms(2,3) obtain e e' where "e \<in> set (entities d)" "e' \<in> set (entities d)" "e_id e = i" "e_id e' = j"
    "e_normalised_name e = e_normalised_name e'"
    by (auto simp: resolves_def entity_names_def)
  then show ?thesis using assms(1) by (auto simp: wf_entities_def distinct_map dest: inj_onD)
qed

lemma get_or_create_resolves:
  assumes "get_or_create_entity t nm kind s = (Inr e, s')"
  shows "resolves (ext s) (db s') nm (er_id e)"
proof -
  from bind_liftD[OF bind_getsD[OF assms[unfolded get_or_create_entity_def]]] obtain n
    where n: "entity_name (ext s) nm = Inr n" and q: "bindM (select ''looking up entity'' (entity_named n))
      (\<lambda>existing. case existing of Some e \<Rightarrow> adopt_entity kind e
        | None \<Rightarrow> create_entity (ext s) t nm n kind) s = (Inr e, s')"
    by blast
  from bind_selectD[OF q] obtain s1 where v: "db s1 = db s" "ext s1 = ext s"
    and r: "(case entity_named n (db s) of Some e \<Rightarrow> adopt_entity kind e
        | None \<Rightarrow> create_entity (ext s) t nm n kind) s1 = (Inr e, s')" by blast
  have "\<exists>dn. (er_id e, dn, n) \<in> set (entity_names (db s'))"
  proof (cases "entity_named n (db s)")
    case (Some old)
    then have old: "old \<in> set (entities (db s1))" "e_normalised_name old = n"
      by (auto simp: entity_named_def find_Some_iff v)
    have a: "adopt_entity kind old s1 = (Inr e, s')" using r Some by simp
    have g: "entities_grow (db s1) (db s')" using adopt_entity_effect[OF a old(1)] by simp
    have "er_id e = e_id old"
      using a by (auto simp: adopt_entity_def fail_def ret_def elim!: bindM_InrE split: if_splits)
    then have "(er_id e, e_name old, n) \<in> set (entity_names (db s1))"
      using old by (auto simp: entity_names_def)
    then show ?thesis using g unfolding entities_grow_def by (meson set_mono_prefix subsetD)
  next
    case None
    then have "create_entity (ext s) t nm n kind s1 = (Inr e, s')" using r by simp
    from bind_mintD[OF this[unfolded create_entity_def]] obtain i s2
      where "bindM (exec ''inserting entity'' (insert_entity_stmt
         \<lparr>e_id = i, e_name = trim nm, e_normalised_name = n, e_kind = kind,
          e_created_at = ts_to_sql (ext s) t\<rparr>)) (\<lambda>_. ret \<lparr>er_id = i, er_name = trim nm\<rparr>) s2 = (Inr e, s')"
      by blast
    from bind_execD[OF this] obtain u where st: "insert_entity_stmt
         \<lparr>e_id = i, e_name = trim nm, e_normalised_name = n, e_kind = kind,
          e_created_at = ts_to_sql (ext s) t\<rparr> (db s2) = Inr (db s', u)"
      and e: "e = \<lparr>er_id = i, er_name = trim nm\<rparr>" by (auto simp: ret_def)
    obtain d' where d': "d' = db s'" by blast
    have "entity_names d' = entity_names (db s2) @ [(i, trim nm, n)]"
      using st unfolding d'[symmetric] by (auto simp: insert_entity_stmt_def entity_names_def split: if_splits)
    then show ?thesis using e d' by auto
  qed
  then show ?thesis using n by (auto simp: resolves_def)
qed

lemma resolve_object_resolves:
  assumes "resolve_object t nob s = (Inr ob, s')"
  shows "object_resolves (ext s) (db s') nob (columns_of ob)"
proof (cases nob)
  case (New_Entity nm k)
  with assms obtain e where e: "get_or_create_entity t nm (kind_or_none k) s = (Inr e, s')" "ob = Entity_Object e"
    by (auto simp: resolve_object_def ret_def elim!: bindM_InrE)
  then show ?thesis using get_or_create_resolves[OF e(1)] New_Entity by (simp add: object_resolves_def)
next
  case (New_Value v)
  then show ?thesis using assms by (auto simp: resolve_object_def object_resolves_def ret_def fail_def split: if_splits)
qed

lemma get_or_create_again:
  assumes "get_or_create_entity t nm kind s = (Inr e, s')" "wf_entities (db s)" "resolves (ext s) (db s) nm i"
  shows "er_id e = i"
proof -
  note g = get_or_create_entity_effect[OF assms(1)]
  then have "wf_entities (db s')" using assms(2) by (simp add: entities_grow_def)
  then show ?thesis
    using resolves_unique get_or_create_resolves[OF assms(1)] resolves_grow[OF assms(3)] g by blast
qed

lemma resolve_object_again:
  assumes "resolve_object t nob s = (Inr ob, s')" "wf_entities (db s)" "object_resolves (ext s) (db s) nob cols"
  shows "columns_of ob = cols"
proof (cases nob)
  case (New_Entity nm k)
  with assms(1) obtain e where e: "get_or_create_entity t nm (kind_or_none k) s = (Inr e, s')" "ob = Entity_Object e"
    by (auto simp: resolve_object_def ret_def elim!: bindM_InrE)
  then show ?thesis using get_or_create_again[OF e(1) assms(2)] assms(3) New_Entity
    by (auto simp: object_resolves_def)
next
  case (New_Value v)
  then show ?thesis using assms by (auto simp: resolve_object_def object_resolves_def ret_def fail_def split: if_splits)
qed

text \<open>After a successful addition without an end, an open head stands for exactly that triple.\<close>

definition stands :: "externals \<Rightarrow> new_fact \<Rightarrow> database \<Rightarrow> ulid \<Rightarrow> bool" where
  "stands x f d j \<longleftrightarrow> (\<exists>i cols p sc g. resolves x d (nf_subject f) i \<and> object_resolves x d (nf_object f) cols \<and>
     check_new_fact x f = Inr (p, sc) \<and> g \<in> set (facts d) \<and> f_id g = j \<and> is_open_head d i p cols sc g)"

lemma add_in_tx_stands:
  assumes "add_fact_in_tx t f s = (Inr fa, s')" "scans (ext s)" "wf_graph (db s)" "nf_valid_to f = None"
  shows "stands (ext s) f (db s') (fa_id fa)"
proof -
  obtain p sc subj ob standing s1 s2 s3 s4 where
    c: "check_new_fact (ext s) f = Inr (p, sc)" and v1: "db s1 = db s" "ext s1 = ext s" and
    g1: "get_or_create_entity t (nf_subject f) (kind_or_none (nf_subject_kind f)) s1 = (Inr subj, s2)" and
    g2: "resolve_object t (nf_object f) s2 = (Inr ob, s3)" and
    fo: "find_open_head (er_id subj) p (columns_of ob) sc s3 = (Inr standing, s4)" and
    v4: "db s4 = db s3" "ext s4 = ext s3" and
    q5: "(case standing of Some i \<Rightarrow> return_standing f i | None \<Rightarrow> append_revision t f p sc subj ob) s4 = (Inr fa, s')"
    by (rule add_fact_in_tx_split[OF assms(1)])
  note e1 = get_or_create_entity_effect[OF g1] and e2 = resolve_object_effect[OF g2]
  have x: "ext s2 = ext s" "ext s3 = ext s" "ext s4 = ext s" using e1 e2 v1 v4 by simp_all
  have r: "resolves (ext s) (db s3) (nf_subject f) (er_id subj)"
    "object_resolves (ext s) (db s3) (nf_object f) (columns_of ob)"
    using get_or_create_resolves[OF g1] resolve_object_resolves[OF g2] e2 x v1 resolves_grow by auto
  note found = find_open_head_result[OF fo, unfolded x, OF assms(2)]
  show ?thesis
  proof (cases standing)
    case (Some j)
    have rs: "return_standing f j s4 = (Inr fa, s')" using q5 Some by simp
    from return_standing_effect[OF rs] obtain s5 where "get_fact j s4 = (Inr fa, s5)" "db s' = db s4" by blast
    then have "fa_id fa = j" "db s' = db s3" using get_fact_id(1) v4 by auto
    from found[unfolded Some] obtain g where "g \<in> set (facts (db s3))" "f_id g = j"
      "is_open_head (db s3) (er_id subj) p (columns_of ob) sc g" by auto
    with \<open>fa_id fa = j\<close> \<open>db s' = db s3\<close> r c show ?thesis
      unfolding stands_def
      by (intro exI[of _ "er_id subj"] exI[of _ "columns_of ob"] exI[of _ p] exI[of _ sc] exI[of _ g]) simp
  next
    case None
    have ap: "append_revision t f p sc subj ob s4 = (Inr fa, s')" using q5 None by simp
    have "er_id subj \<in> entity_ids (db s4)" using e1 e2 entity_ids_grow v4 by auto
    from append_revision_effect(1)[OF ap this _ check_new_fact_Inr(4)[OF c]] e2 found[unfolded None] v4 x
    obtain row where row: "db s' = append_fact row (db s3)" "adds_head (db s3) row" "row = fact_row_of (ext s) fa"
      "fa_valid_to fa = None" "fa_subject fa = subj" "fa_predicate fa = p" "fa_object fa = ob" "fa_scope fa = sc"
      using assms(4) by auto
    have "wf_graph (db s3)" using wf_graph_grow[OF assms(3)] e1 e2 v1 entities_grow_trans by metis
    then have "\<not> superseded (db s3) (f_id row)"
      using row(2) superseded_exists[of "db s3" "f_id row"] unfolding adds_head_def
      by (metis image_eqI)
    then have "\<not> superseded (db s') (f_id row)"
      using row(1,2) by (simp add: adds_head_def superseded_append)
    then have "is_open_head (db s') (er_id subj) p (columns_of ob) sc row"
      using row(3-) by (simp add: is_open_head_def) (simp add: fact_row_of_def)
    then show ?thesis
      using r c row(1,3) unfolding stands_def
      by (intro exI[of _ "er_id subj"] exI[of _ "columns_of ob"] exI[of _ p] exI[of _ sc] exI[of _ row]) simp
  qed
qed

lemma add_in_tx_again:
  assumes "add_fact_in_tx t f s = (Inr fa, s')" "scans (ext s)" "wf_graph (db s)" "stands (ext s) f (db s) j"
  shows "fa_id fa = j \<and> facts (db s') = facts (db s)"
proof -
  obtain p sc subj ob standing s1 s2 s3 s4 where
    c: "check_new_fact (ext s) f = Inr (p, sc)" and v1: "db s1 = db s" "ext s1 = ext s" and
    g1: "get_or_create_entity t (nf_subject f) (kind_or_none (nf_subject_kind f)) s1 = (Inr subj, s2)" and
    g2: "resolve_object t (nf_object f) s2 = (Inr ob, s3)" and
    fo: "find_open_head (er_id subj) p (columns_of ob) sc s3 = (Inr standing, s4)" and
    v4: "db s4 = db s3" "ext s4 = ext s3" and
    q5: "(case standing of Some i \<Rightarrow> return_standing f i | None \<Rightarrow> append_revision t f p sc subj ob) s4 = (Inr fa, s')"
    by (rule add_fact_in_tx_split[OF assms(1)])
  note e1 = get_or_create_entity_effect[OF g1] and e2 = resolve_object_effect[OF g2]
  have x: "ext s2 = ext s" "ext s3 = ext s" "ext s4 = ext s" using e1 e2 v1 v4 by simp_all
  from assms(4) c obtain i cols g where st: "resolves (ext s) (db s) (nf_subject f) i"
    "object_resolves (ext s) (db s) (nf_object f) cols" "g \<in> set (facts (db s))" "f_id g = j"
    "is_open_head (db s) i p cols sc g" by (auto simp: stands_def)
  have we: "wf_entities (db s1)" "wf_entities (db s2)"
    using assms(3) e1 v1 by (auto simp: wf_graph_def entities_grow_def)
  have i: "er_id subj = i" using get_or_create_again[OF g1 we(1)] st(1) v1 by simp
  have cols: "columns_of ob = cols"
    using resolve_object_again[OF g2 we(2)] object_resolves_grow[OF st(2)] e1 v1 x by simp
  have f3: "facts (db s3) = facts (db s)" using e1 e2 v1 by (simp add: entities_grow_def)
  then have same: "is_open_head (db s3) a b u v k = is_open_head (db s) a b u v k" for a b u v k
    by (simp add: is_open_head_def superseded_def)
  note found = find_open_head_result[OF fo, unfolded x, OF assms(2), unfolded i cols f3 same]
  obtain j' where j': "standing = Some j'" using found st(3,5) by (cases standing) auto
  with found obtain g' where g': "g' \<in> set (facts (db s))" "f_id g' = j'" "is_open_head (db s) i p cols sc g'" by auto
  have oks: "fact_row_ok (db s) g" "fact_row_ok (db s) g'" using assms(3) st(3) g'(1) by (auto simp: wf_graph_def)
  have "fact_key g = fact_key g'"
    using st(5) g'(3) oks by (cases g; cases g') (auto simp: is_open_head_def fact_key_def ifnull_eq_def fact_row_ok_def split: option.splits)
  then have "g = g'" using assms(3) st(3,5) g'(1,3)
    by (auto simp: wf_graph_def open_head_def is_open_head_def)
  have rs: "return_standing f j' s4 = (Inr fa, s')" using q5 j' by simp
  from return_standing_effect[OF rs] obtain s5 where "get_fact j' s4 = (Inr fa, s5)" "db s' = db s4" by blast
  then have "fa_id fa = j'" "facts (db s') = facts (db s)" using get_fact_id(1) v4 f3 by auto
  then show ?thesis using \<open>g = g'\<close> st(4) g'(2) by simp
qed

section \<open>A concrete run\<close>

text \<open>One fact recorded in the fresh sample store, and then closed.\<close>

definition sample_new_fact :: new_fact where
  "sample_new_fact = (triple_fact ''ada'' ''knows'' [])\<lparr>nf_object := New_Value ''bob''\<rparr>"

lemma sample_new_fact_simps [simp]:
  "nf_subject sample_new_fact = ''ada''" "nf_subject_kind sample_new_fact = None"
  "nf_predicate sample_new_fact = ''knows''" "nf_object sample_new_fact = New_Value ''bob''"
  "nf_valid_from sample_new_fact = None" "nf_valid_to sample_new_fact = None"
  "nf_confidence sample_new_fact = 0x3F800000" "nf_source_item_id sample_new_fact = None"
  "nf_scope sample_new_fact = None"
  by (simp_all add: sample_new_fact_def triple_fact_def)

definition sample_fact :: fact where
  "sample_fact = \<lparr>fa_id = 49, fa_subject = \<lparr>er_id = 48, er_name = ''ada''\<rparr>, fa_predicate = ''knows'',
     fa_object = Value_Object ''bob'', fa_valid_from = None, fa_valid_to = None,
     fa_confidence = 0x3F800000, fa_source_item_id = None, fa_scope = None, fa_supersedes = None,
     fa_recorded_at = 3\<rparr>"

definition sample_graph :: database where
  "sample_graph = empty_db\<lparr>entities := [\<lparr>e_id = 48, e_name = ''ada'', e_normalised_name = ''ada'',
       e_kind = None, e_created_at = unary_time 3\<rparr>], facts := [fact_row_of sample_ext sample_fact]\<rparr>"

definition sample_store_f :: store where
  "sample_store_f = sample_store\<lparr>ticks := 4, draws := 2, db := sample_graph\<rparr>"

lemma sample_names: "entity_name sample_ext ''ada'' = Inr ''ada''" "predicate_name sample_ext ''knows'' = Inr ''knows''"
  "trim ''ada'' = ''ada''" "trim ''bob'' = ''bob''"
  by code_simp+

lemma run_add_fact_sample: "add_fact sample_new_fact sample_store = (Inr sample_fact, sample_store_f)"
proof -
  let ?s1 = "sample_store\<lparr>ticks := 4\<rparr>"
  let ?e = "\<lparr>e_id = 48, e_name = ''ada'', e_normalised_name = ''ada'', e_kind = None, e_created_at = unary_time 3\<rparr> :: entity_row"
  let ?s2 = "?s1\<lparr>draws := 1, db := empty_db\<lparr>entities := [?e]\<rparr>\<rparr>"
  have n: "now sample_store = (Inr 3, ?s1)" by (simp add: now_def sample_store_def)
  have m: "mint_raw_ulid 3 ?s1 = (Inr 48, ?s1\<lparr>draws := 1\<rparr>)"
    by (simp add: mint_raw_ulid_def Let_def sample_store_def sample_ext_def)
  have m2: "mint_raw_ulid 3 ?s2 = (Inr 49, ?s2\<lparr>draws := 2\<rparr>)"
    by (simp add: mint_raw_ulid_def Let_def sample_store_def sample_ext_def)
  have c: "check_new_fact sample_ext sample_new_fact = Inr (''knows'', None)"
    by (simp add: check_new_fact_def sample_names unit_interval_def)
  have e: "get_or_create_entity 3 ''ada'' None ?s1 = (Inr \<lparr>er_id = 48, er_name = ''ada''\<rparr>, ?s2)"
    using m by (simp add: get_or_create_entity_def create_entity_def bindM_def gets_def lift_def sample_names
        select_no_faults entity_named_def empty_db_def exec_no_faults insert_entity_stmt_def entity_ids_def
        sql_length_def is_continuation_def ret_def)
  have o: "find_open_head 48 ''knows'' (None, Some ''bob'') None ?s2 = (Inr None, ?s2)"
    by (simp add: find_open_head_def bindM_def gets_def select_no_faults empty_db_def)
  have a: "append_revision 3 sample_new_fact ''knows'' None \<lparr>er_id = 48, er_name = ''ada''\<rparr> (Value_Object ''bob'') ?s2
      = (Inr sample_fact, sample_store_f)"
    using m2
    by (simp add: append_revision_def bindM_def Let_def insert_fact_row_def gets_def exec_no_faults
        insert_fact_stmt_def fact_row_of_def entity_ids_def empty_db_def sample_new_fact_def triple_fact_def
        window_check_def unit_interval_def ret_def sample_fact_def sample_store_f_def sample_graph_def)
  have f: "deferred_fks_ok sample_graph"
    by (simp add: deferred_fks_ok_def sample_graph_def empty_db_def fact_row_of_def sample_fact_def)
  have tx: "add_fact_in_tx 3 sample_new_fact ?s1 = (Inr sample_fact, sample_store_f)"
    using e o a
    by (simp add: add_fact_in_tx_def bindM_def gets_def lift_def c check_source_item_def ret_def
        kind_or_none_def resolve_object_def sample_names)
  show ?thesis
    using n tx f
    by (simp add: add_fact_def assert_writable_def bindM_def transaction_def sql_no_faults commit_tx_def gets_def ret_def)
     (simp add: sample_store_f_def sql_no_faults ret_def)
qed

lemma graph_inv_sample: "graph_inv sample_ext empty_db" "graph_inv sample_ext sample_graph"
proof -
  show e: "graph_inv sample_ext empty_db"
    by (simp add: graph_inv_def wf_graph_def wf_entities_def facts_stored_def empty_db_def map_filter_def
        open_head_def)
  show "graph_inv sample_ext sample_graph"
    using wf_add_fact[OF _ run_add_fact_sample] e by (simp add: sample_store_f_def)
qed

definition sample_triple :: triple_ref where
  "sample_triple = \<lparr>tr_subject = ''ada'', tr_predicate = ''knows'', tr_object = New_Value ''bob'', tr_scope = None\<rparr>"

definition sample_closed :: fact where
  "sample_closed = sample_fact\<lparr>fa_id := 66, fa_valid_to := Some 9, fa_supersedes := Some 49, fa_recorded_at := 4\<rparr>"

definition sample_eve :: fact where
  "sample_eve = sample_fact\<lparr>fa_id := 67, fa_object := Value_Object ''eve'', fa_valid_from := Some 9, fa_recorded_at := 4\<rparr>"

lemma sample_store_f_simps [simp]:
  "db sample_store_f = sample_graph" "faults sample_store_f = []" "ext sample_store_f = sample_ext"
  "read_only sample_store_f = False" "ticks sample_store_f = 4" "draws sample_store_f = 2"
  "clock sample_store_f = int" "rng sample_store_f = (\<lambda>n. n)"
  by (simp_all add: sample_store_f_def sample_store_def)

lemma sample_graph_simps [simp]:
  "facts sample_graph = [fact_row_of sample_ext sample_fact]"
  "entities sample_graph = [\<lparr>e_id = 48, e_name = ''ada'', e_normalised_name = ''ada'',
       e_kind = None, e_created_at = unary_time 3\<rparr>]"
  by (simp_all add: sample_graph_def)

lemma mint_sample_f: "mint_raw_ulid 4 (sample_store_f\<lparr>ticks := 5\<rparr>) = (Inr 66, sample_store_f\<lparr>ticks := 5, draws := 3\<rparr>)"
  by (simp add: mint_raw_ulid_def Let_def) (simp add: sample_ext_def)

lemma get_sample_fact:
  "db s = sample_graph \<Longrightarrow> faults s = [] \<Longrightarrow> ext s = sample_ext \<Longrightarrow> get_fact 49 s = (Inr sample_fact, s)"
  by (simp add: get_fact_def load_fact_def select_facts_def bindM_def run_query_no_faults gets_def lift_def
      fact_select_def find_entity_row_def map_filter_simps into_fact_def Let_def ret_def)
    (simp add: sample_fact_def fact_row_of_def parse_point_def Let_def ret_def)

lemma run_invalidate_in_tx:
  "invalidate_in_tx 4 9 sample_triple (sample_store_f\<lparr>ticks := 5\<rparr>) =
     (Inr sample_closed, sample_store_f\<lparr>ticks := 5, draws := 3, db := append_fact (fact_row_of sample_ext sample_closed) sample_graph\<rparr>)"
proof -
  have o: "find_open_head 48 ''knows'' (None, Some ''bob'') None (sample_store_f\<lparr>ticks := 5\<rparr>) = (Inr (Some 49), sample_store_f\<lparr>ticks := 5\<rparr>)"
    by (simp add: find_open_head_def bindM_def gets_def select_no_faults is_open_head_def superseded_def)
      (simp add: sample_fact_def fact_row_of_def)
  have e: "find_entity ''ada'' (sample_store_f\<lparr>ticks := 5\<rparr>) = (Inr (Some \<lparr>er_id = 48, er_name = ''ada''\<rparr>), sample_store_f\<lparr>ticks := 5\<rparr>)"
    by (simp add: find_entity_def bindM_def gets_def lift_def sample_names select_no_faults entity_named_def ret_def)
  have c: "find_columns sample_triple s = (Inr (None, Some ''bob''), s)" for s
    by (simp add: find_columns_def sample_triple_def ret_def sample_names)
  have i: "insert_fact_stmt (fact_row_of sample_ext sample_closed) sample_graph
     = Inr (append_fact (fact_row_of sample_ext sample_closed) sample_graph, ())"
    by (simp add: insert_fact_stmt_def entity_ids_def append_fact_def)
      (simp add: sample_closed_def fact_row_of_def sample_fact_def unit_interval_def window_check_def)
  have h: "fa_valid_from sample_fact = None" "fa_id sample_fact = 49"
    "sample_fact\<lparr>fa_id := 66, fa_valid_to := Some 9, fa_supersedes := Some 49, fa_recorded_at := 4\<rparr> = sample_closed"
    by (simp_all add: sample_fact_def sample_closed_def)
  have ch: "close_head 4 9 49 (sample_store_f\<lparr>ticks := 5\<rparr>) = (Inr sample_closed,
     sample_store_f\<lparr>ticks := 5, draws := 3, db := append_fact (fact_row_of sample_ext sample_closed) sample_graph\<rparr>)"
    by (simp add: close_head_def bindM_def get_sample_fact h mint_sample_f Let_def insert_fact_row_def gets_def
        exec_no_faults i ret_def)
  show ?thesis
    by (simp add: invalidate_in_tx_def bindM_def gets_def lift_def e c o ch sample_names[unfolded])
      (simp add: sample_triple_def sample_names e o c[unfolded sample_triple_def] ch bindM_def gets_def lift_def)
qed

abbreviation sample_graph_c :: database where
  "sample_graph_c \<equiv> append_fact (fact_row_of sample_ext sample_closed) sample_graph"

lemma fks_sample_c: "deferred_fks_ok sample_graph_c"
  "deferred_fks_ok (append_fact (fact_row_of sample_ext sample_eve) sample_graph_c)"
  by (auto simp: deferred_fks_ok_def sample_graph_def empty_db_def append_fact_def fact_row_of_def sample_fact_def
      sample_closed_def sample_eve_def)

lemma now_sample_f: "now sample_store_f = (Inr 4, sample_store_f\<lparr>ticks := 5\<rparr>)"
  by (simp add: now_def)

lemma run_invalidate_sample:
  "invalidate_fact sample_triple (Some 9) sample_store_f =
     (Inr sample_closed, sample_store_f\<lparr>ticks := 5, draws := 3, db := sample_graph_c\<rparr>)"
  by (simp add: invalidate_fact_def assert_writable_def bindM_def now_sample_f transaction_def sql_no_faults
      commit_tx_def gets_def run_invalidate_in_tx fks_sample_c ret_def)

lemma run_supersede_sample:
  "supersede_fact sample_triple (New_Value ''eve'') (Some 9) sample_store_f =
     (Inr (Some sample_closed, sample_eve),
      sample_store_f\<lparr>ticks := 5, draws := 4, db := append_fact (fact_row_of sample_ext sample_eve) sample_graph_c\<rparr>)"
proof -
  let ?s = "sample_store_f\<lparr>ticks := 5, draws := 3, db := sample_graph_c\<rparr>"
  let ?f = "\<lparr>nf_subject = tr_subject sample_triple, nf_subject_kind = None, nf_predicate = tr_predicate sample_triple,
           nf_object = New_Value ''eve'', nf_valid_from = Some 9, nf_valid_to = None,
           nf_confidence = 0x3F800000, nf_source_item_id = None, nf_scope = tr_scope sample_triple\<rparr>"
  have c: "check_new_fact sample_ext ?f = Inr (''knows'', None)"
    by (simp add: check_new_fact_def sample_triple_def sample_names unit_interval_def)
  have e: "get_or_create_entity 4 (tr_subject sample_triple) None ?s = (Inr \<lparr>er_id = 48, er_name = ''ada''\<rparr>, ?s)"
    by (simp add: get_or_create_entity_def adopt_entity_def bindM_def gets_def lift_def sample_names
        select_no_faults entity_named_def ret_def sample_triple_def)
  have o: "find_open_head 48 ''knows'' (None, Some ''eve'') None ?s = (Inr None, ?s)"
    by (simp add: find_open_head_def bindM_def gets_def select_no_faults is_open_head_def)
      (simp add: sample_fact_def sample_closed_def fact_row_of_def ifnull_eq_def)
  have m: "mint_raw_ulid 4 ?s = (Inr 67, ?s\<lparr>draws := 4\<rparr>)"
    by (simp add: mint_raw_ulid_def Let_def) (simp add: sample_ext_def)
  have fa: "\<lparr>fa_id = 67, fa_subject = \<lparr>er_id = 48, er_name = ''ada''\<rparr>, fa_predicate = ''knows'', fa_object = Value_Object ''eve'',
         fa_valid_from = Some 9, fa_valid_to = None, fa_confidence = 0x3F800000, fa_source_item_id = None,
         fa_scope = None, fa_supersedes = None, fa_recorded_at = 4\<rparr> = sample_eve"
    by (simp add: sample_eve_def sample_fact_def)
  have i: "insert_fact_stmt (fact_row_of sample_ext sample_eve) sample_graph_c
     = Inr (append_fact (fact_row_of sample_ext sample_eve) sample_graph_c, ())"
    by (simp add: insert_fact_stmt_def append_fact_def[of "fact_row_of sample_ext sample_eve"])
      (simp add: sample_closed_def sample_eve_def fact_row_of_def sample_fact_def unit_interval_def window_check_def entity_ids_def)
  have a: "append_revision 4 ?f ''knows'' None \<lparr>er_id = 48, er_name = ''ada''\<rparr> (Value_Object ''eve'') ?s
      = (Inr sample_eve, ?s\<lparr>draws := 4, db := append_fact (fact_row_of sample_ext sample_eve) sample_graph_c\<rparr>)"
    by (simp add: append_revision_def bindM_def m Let_def fa insert_fact_row_def gets_def exec_no_faults i ret_def)
  have tv: "trim ''eve'' = ''eve''" by code_simp
  have tx: "add_fact_in_tx 4 ?f ?s = (Inr sample_eve, ?s\<lparr>draws := 4, db := append_fact (fact_row_of sample_ext sample_eve) sample_graph_c\<rparr>)"
    using c e o a
    by (simp add: add_fact_in_tx_def bindM_def gets_def lift_def check_source_item_def ret_def
        kind_or_none_def resolve_object_def tv)
  show ?thesis
    using tx
    by (simp add: supersede_fact_def assert_writable_def bindM_def now_sample_f Let_def transaction_def sql_no_faults
        tolerate_not_found_def run_invalidate_in_tx explain_standing_def commit_tx_def gets_def ret_def fks_sample_c)
qed

section \<open>Properties\<close>

text \<open>The three writes as one step.\<close>

datatype graph_write =
    Add new_fact
  | Invalidate triple_ref "timestamp option"
  | Supersede triple_ref new_object "timestamp option"

fun run_graph_write :: "graph_write \<Rightarrow> store \<Rightarrow> store" where
  "run_graph_write (Add f) s = snd (add_fact f s)"
| "run_graph_write (Invalidate tr at) s = snd (invalidate_fact tr at s)"
| "run_graph_write (Supersede tr ob at) s = snd (supersede_fact tr ob at s)"

lemma snd_result: "m s = (r, s') \<Longrightarrow> snd (m s) = s'"
  by simp

lemma adds_grow_prefix:
  "entities_grow d e \<Longrightarrow> d' = e \<or> d' = append_fact r e \<Longrightarrow>
     prefix (facts d) (facts d') \<and> prefix (entity_names d) (entity_names d') \<and> items d' = items d \<and> item_tags d' = item_tags d"
  by (auto simp: entities_grow_def entity_names_def)

text \<open>
  C14: the graph is append-only. Whatever a write answers, every stored revision is still there,
  unchanged and in its place, every entity keeps its id, display name and normalised name, and the
  item tables are not touched.
\<close>

theorem facts_append_only:
  assumes "graph_inv (ext s) (db s)"
  shows "prefix (facts (db s)) (facts (db (run_graph_write w s))) \<and>
    prefix (entity_names (db s)) (entity_names (db (run_graph_write w s))) \<and>
    items (db (run_graph_write w s)) = items (db s) \<and> item_tags (db (run_graph_write w s)) = item_tags (db s)"
proof (cases w)
  case (Add f)
  obtain r s' where run: "add_fact f s = (r, s')" by fastforce
  show ?thesis
  proof (cases r)
    case (Inr fa)
    have "scans (ext s)" "wf_graph (db s)" using assms by (simp_all add: graph_inv_def)
    from add_fact_effect(1)[OF run[unfolded Inr] this] obtain d r where
      "entities_grow (db s) d" "db s' = d \<or> db s' = append_fact r d" by blast
    from adds_grow_prefix[OF this] show ?thesis using run Add by simp
  qed (use run Add atomic_add_fact in \<open>simp add: atomic_def\<close>)
next
  case (Invalidate tr at)
  obtain r s' where run: "invalidate_fact tr at s = (r, s')" by fastforce
  show ?thesis
  proof (cases r)
    case (Inr fa)
    have "scans (ext s)" "wf_graph (db s)" using assms by (simp_all add: graph_inv_def)
    from invalidate_fact_effect(1)[OF run[unfolded Inr] this] obtain r where
      "db s' = append_fact r (db s)" by blast
    then show ?thesis using run Invalidate by (simp add: entity_names_def)
  qed (use run Invalidate atomic_invalidate_fact in \<open>simp add: atomic_def\<close>)
next
  case (Supersede tr ob at)
  obtain r s' where run: "supersede_fact tr ob at s = (r, s')" by fastforce
  show ?thesis
  proof (cases r)
    case (Inr p)
    obtain c fa where p: "p = (c, fa)" by fastforce
    have "scans (ext s)" "wf_graph (db s)" using assms by (simp_all add: graph_inv_def)
    note e = supersede_fact_effect(1)[OF run[unfolded Inr p] this]
    have "\<exists>d1 d2 r r'. (d1 = db s \<or> d1 = append_fact r (db s)) \<and> entities_grow d1 d2 \<and>
        (db s' = d2 \<or> db s' = append_fact r' d2)"
    proof (cases c)
      case None with e show ?thesis by (simp only: option.case) blast
    next
      case (Some y) with e show ?thesis by (simp only: option.case) blast
    qed
    then obtain d1 d2 r r' where d: "d1 = db s \<or> d1 = append_fact r (db s)" "entities_grow d1 d2"
      "db s' = d2 \<or> db s' = append_fact r' d2" by blast
    have "prefix (facts (db s)) (facts d1) \<and> entity_names d1 = entity_names (db s) \<and> items d1 = items (db s) \<and>
        item_tags d1 = item_tags (db s)"
      using d(1) by (auto simp: entity_names_def)
    then show ?thesis using adds_grow_prefix[OF d(2,3)] run Supersede
      by (auto intro: prefix_order.trans)
  qed (use run Supersede atomic_supersede_fact in \<open>simp add: atomic_def\<close>)
qed

theorem facts_append_only_witness:
  "prefix (facts sample_graph) (facts (db (run_graph_write (Add (triple_fact ''a'' ''b'' ''c'')) sample_store_f)))"
  using facts_append_only[of sample_store_f "Add (triple_fact ''a'' ''b'' ''c'')"] graph_inv_sample
  by (simp add: sample_store_f_def)

text \<open>
  \<open>add_fact\<close> is idempotent for open facts: once an addition without an end has succeeded, repeating
  it either fails or returns the same revision, and never appends another one.
\<close>

theorem add_fact_idempotent:
  assumes "graph_inv (ext s) (db s)" "nf_valid_to f = None"
    "add_fact f s = (Inr a, s1)" "add_fact f s1 = (r, s2)"
  shows "facts (db s2) = facts (db s1) \<and> (\<forall>b. r = Inr b \<longrightarrow> fa_id b = fa_id a)"
proof -
  from assms(1) have sc: "scans (ext s)" and wf: "wf_graph (db s)" by (simp_all add: graph_inv_def)
  from transaction_inner_effect[OF assms(3)[unfolded add_fact_def]] obtain t u u' where
    b: "db u = db s" "ext u = ext s" "add_fact_in_tx t f u = (Inr a, u')" "db s1 = db u'" "ext s1 = ext u'" by blast
  have st: "stands (ext s) f (db s1) (fa_id a)"
    using add_in_tx_stands[OF b(3)] b(1,2,4) sc wf assms(2) by simp
  have inv: "graph_inv (ext s1) (db s1)" by (rule wf_add_fact[OF assms(1,3)])
  have x: "ext s1 = ext s" using keeps_handle_ext[OF graph_writes_keep_handle(1) assms(3)] .
  show ?thesis
  proof (cases r)
    case (Inl e) then show ?thesis using assms(4) atomic_add_fact by (auto simp: atomic_def)
  next
    case (Inr b')
    from transaction_inner_effect[OF assms(4)[unfolded add_fact_def Inr]] obtain t2 v v' where
      v: "db v = db s1" "ext v = ext s1" "add_fact_in_tx t2 f v = (Inr b', v')" "db s2 = db v'" by blast
    have "fa_id b' = fa_id a \<and> facts (db v') = facts (db v)"
      using add_in_tx_again[OF v(3)] v(1,2) x inv st by (simp add: graph_inv_def)
    then show ?thesis using Inr v by simp
  qed
qed

theorem add_fact_idempotent_witness:
  "facts (db (snd (add_fact sample_new_fact sample_store_f))) = facts sample_graph"
  using add_fact_idempotent[OF _ _ run_add_fact_sample surjective_pairing] graph_inv_sample
  by (simp add: sample_store_f_def)

text \<open>
  \<open>invalidate_fact\<close> closes one open head by appending one revision: same subject, predicate, object
  and scope, same start, ending at the instant asked for (now by default), pointing at the head it
  closes; afterwards no open head says the same thing.
\<close>

theorem invalidate_fact_closes:
  assumes "graph_inv (ext s) (db s)" "invalidate_fact tr at s = (Inr fa, s')"
  shows "\<exists>h. open_head (db s) h \<and> fa_supersedes fa = Some (f_id h) \<and>
     facts (db s') = facts (db s) @ [fact_row_of (ext s) fa] \<and> entities (db s') = entities (db s) \<and>
     fact_key (fact_row_of (ext s) fa) = fact_key h \<and>
     opt_traverse (parse_point (ext s)) (f_valid_from h) = Inr (fa_valid_from fa) \<and>
     fa_valid_to fa = Some (case at of None \<Rightarrow> clock s (ticks s) | Some a \<Rightarrow> a) \<and>
     \<not> (\<exists>g. open_head (db s') g \<and> fact_key g = fact_key h)"
proof -
  have wf: "scans (ext s)" "wf_graph (db s)" using assms(1) by (simp_all add: graph_inv_def)
  from invalidate_fact_effect(1)[OF assms(2) wf] obtain h where
    e: "db s' = append_fact (fact_row_of (ext s) fa) (db s)" "closes_head (db s) h (fact_row_of (ext s) fa)"
      "opt_traverse (parse_point (ext s)) (f_valid_from h) = Inr (fa_valid_from fa)" by blast
  have "\<not> (open_head (db s') g \<and> fact_key g = fact_key h)" for g
  proof
    assume g: "open_head (db s') g \<and> fact_key g = fact_key h"
    then have "open_head (db s) g" "f_id g \<noteq> f_id h"
      using e(1,2) by (auto simp: open_head_def superseded_append closes_head_def)
    moreover have "open_head (db s) h" using e(2) by (simp add: closes_head_def)
    ultimately show False using wf(2) g unfolding wf_graph_def by blast
  qed
  then show ?thesis using e invalidate_fact_effect(2)[OF assms(2) wf]
    by (intro exI[of _ h]) (simp add: closes_head_def)
qed

theorem invalidate_fact_closes_witness:
  "facts (append_fact (fact_row_of sample_ext sample_closed) sample_graph)
     = facts sample_graph @ [fact_row_of sample_ext sample_closed] \<and>
   \<not> (\<exists>g. open_head (append_fact (fact_row_of sample_ext sample_closed) sample_graph) g \<and>
        fact_key g = fact_key (fact_row_of sample_ext sample_closed))"
  using invalidate_fact_closes[OF _ run_invalidate_sample] graph_inv_sample(2) by fastforce

text \<open>
  C15: \<open>supersede_fact\<close> is one transaction. On success the tables hold an open head that says what was
  asked (its subject and object resolve to those named, its predicate and scope are theirs), starts at
  the instant asked for and has the returned id; and the old fact, if an open one was found, is closed
  at that same instant. On any error (the tolerated absence of the old fact apart) nothing is written,
  so that the old fact is never left closed without its replacement.
\<close>

theorem supersede_fact_atomic:
  assumes "graph_inv (ext s) (db s)" "supersede_fact tr ob at s = (r, s')"
  defines "a \<equiv> case at of None \<Rightarrow> clock s (ticks s) | Some a \<Rightarrow> a"
  shows "case r of
      Inl e \<Rightarrow> db s' = db s
    | Inr (closed, fa) \<Rightarrow> fa_valid_from fa = Some a \<and> fa_valid_to fa = None \<and> graph_inv (ext s') (db s') \<and>
        stands (ext s) (replacement tr ob a) (db s') (fa_id fa) \<and>
        (\<exists>g. open_head (db s') g \<and> f_id g = fa_id fa \<and> starts_at (ext s) (Some a) g) \<and>
        (case closed of None \<Rightarrow> True
         | Some c \<Rightarrow> fa_valid_to c = Some a \<and> fact_row_of (ext s) c \<in> set (facts (db s')) \<and>
             (\<exists>h. open_head (db s) h \<and> fa_supersedes c = Some (f_id h) \<and> \<not> open_head (db s') h))"
proof (cases r)
  case (Inl e)
  then show ?thesis using assms(2) atomic_supersede_fact by (auto simp: atomic_def)
next
  case (Inr p)
  obtain closed fa where p: "p = (closed, fa)" by fastforce
  have wf: "scans (ext s)" "wf_graph (db s)" using assms(1) by (simp_all add: graph_inv_def)
  note e = supersede_fact_effect[OF assms(2)[unfolded Inr p] wf, folded a_def]
  have "fa_valid_to c = Some a \<and> fact_row_of (ext s) c \<in> set (facts (db s')) \<and>
      (\<exists>h. open_head (db s) h \<and> fa_supersedes c = Some (f_id h) \<and> \<not> open_head (db s') h)"
    if c: "closed = Some c" for c
  proof -
    from e(1)[unfolded c option.case] obtain d1 d2 h where d: "fa_valid_to c = Some a"
      "closes_head (db s) h (fact_row_of (ext s) c)" "d1 = append_fact (fact_row_of (ext s) c) (db s)"
      "entities_grow d1 d2" "db s' = d2 \<or> db s' = append_fact (fact_row_of (ext s) fa) d2" by blast
    have m: "fact_row_of (ext s) c \<in> set (facts (db s'))"
      using d(3-5) by (auto simp: entities_grow_def)
    moreover have h: "open_head (db s) h" "fa_supersedes c = Some (f_id h)" using d(2) by (simp_all add: closes_head_def)
    moreover have "superseded (db s') (f_id h)"
      unfolding superseded_def using m h(2) by (intro bexI[of _ "fact_row_of (ext s) c"]) simp_all
    then have "\<not> open_head (db s') h" by (simp add: open_head_def)
    ultimately show ?thesis using d(1) by blast
  qed
  moreover have inv: "graph_inv (ext s') (db s')" by (rule wf_supersede_fact[OF assms(1,2)])
  moreover obtain t u u' where u: "add_fact_in_tx t (replacement tr ob a) u = (Inr fa, u')" "ext u = ext s"
    "wf_graph (db u)" "db s' = db u'" using e(4) by blast
  then have st: "stands (ext s) (replacement tr ob a) (db s') (fa_id fa)"
    using add_in_tx_stands[OF u(1)] wf by (simp add: replacement_def)
  moreover have "\<exists>g. open_head (db s') g \<and> f_id g = fa_id fa \<and> starts_at (ext s) (Some a) g"
  proof -
    from add_fact_in_tx_effect(6)[OF u(1)] u wf obtain g where
      "g \<in> set (facts (db s'))" "f_id g = fa_id fa" "starts_at (ext s) (Some a) g"
      by (auto simp: replacement_def)
    moreover from st obtain g' where "open_head (db s') g'" "f_id g' = fa_id fa"
      by (auto simp: stands_def is_open_head_def open_head_def)
    moreover have "distinct (map f_id (facts (db s')))" using inv by (simp add: graph_inv_def wf_graph_def)
    ultimately show ?thesis by (metis distinct_map inj_onD open_head_def)
  qed
  ultimately show ?thesis using Inr p e(2,3) by (simp split: option.splits)
qed

theorem supersede_fact_atomic_witness:
  "fa_valid_from sample_eve = Some 9 \<and> fa_valid_to sample_closed = Some 9 \<and>
     stands sample_ext (replacement sample_triple (New_Value ''eve'') 9)
       (append_fact (fact_row_of sample_ext sample_eve) sample_graph_c) (fa_id sample_eve) \<and>
     graph_inv sample_ext (append_fact (fact_row_of sample_ext sample_eve) sample_graph_c)"
  using supersede_fact_atomic[OF _ run_supersede_sample] graph_inv_sample(2) by simp

end
