(* ===== verification/Store_History.thy ===== *)
theory Store_History
  imports Graph
begin

text \<open>
  A store over its life: every write of the item tables and of the graph, in any order, through any
  number of handles, as a step relation on the store. The invariants of the two groups of tables
  hold together in every reachable store, and no step loses what an earlier one recorded.
\<close>

section \<open>Steps\<close>

datatype store_write =
    Ingest new_item
  | Ingest_Many "new_item list"
  | Ingest_Replacing new_item ulid
  | Set_Scope ulid "string option"
  | Graph_Write graph_write

fun run_write :: "store_write \<Rightarrow> store \<Rightarrow> store" where
  "run_write (Ingest it) s = snd (ingest it s)"
| "run_write (Ingest_Many its) s = snd (ingest_many its s)"
| "run_write (Ingest_Replacing it i) s = snd (ingest_replacing it i s)"
| "run_write (Set_Scope i sc) s = snd (set_scope i sc s)"
| "run_write (Graph_Write w) s = run_graph_write w s"

text \<open>
  The handle of another process, or of a later one, on the same database: its own clock, random
  numbers, hook and read-only flag, and any faults of the database.
\<close>

definition other_handle ::
  "(nat \<Rightarrow> timestamp) \<Rightarrow> (nat \<Rightarrow> nat) \<Rightarrow> index_hook option \<Rightarrow> bool \<Rightarrow> bool list \<Rightarrow> store \<Rightarrow> store"
where
  "other_handle c r h ro bs s =
     s\<lparr>clock := c, ticks := 0, rng := r, draws := 0, hook := h, read_only := ro, faults := bs\<rparr>"

inductive step :: "store \<Rightarrow> store \<Rightarrow> bool" where
  written: "step s (run_write w s)"
| switched: "step s (other_handle c r h ro bs s)"

inductive_cases stepE: "step s s'"

inductive reachable :: "externals \<Rightarrow> store \<Rightarrow> bool" for x where
  created: "db s = empty_db \<Longrightarrow> ext s = x \<Longrightarrow> scans x \<Longrightarrow> reachable x s"
| stepped: "reachable x s \<Longrightarrow> step s s' \<Longrightarrow> reachable x s'"

inductive later :: "store \<Rightarrow> store \<Rightarrow> bool" for s where
  same: "later s s"
| after: "later s t \<Longrightarrow> step t t' \<Longrightarrow> later s t'"

section \<open>The invariant of a store\<close>

text \<open>
  The items and the graph are well-formed, and no foreign key dangles: what an item supersedes, the
  item a fact comes from and the revision it supersedes are all stored.
\<close>

definition store_inv :: "externals \<Rightarrow> database \<Rightarrow> bool" where
  "store_inv x d \<longleftrightarrow> wf_items d \<and> graph_inv x d \<and> deferred_fks_ok d"

lemma graph_inv_items:
  "entities d' = entities d \<Longrightarrow> facts d' = facts d \<Longrightarrow> graph_inv x d' = graph_inv x d"
  by (simp add: graph_inv_def wf_graph_def wf_entities_def entity_ids_def fact_row_ok_def facts_stored_def
      open_head_def superseded_def)

lemma item_steps_keep_graph [simp]:
  "facts (add_item x it d) = facts d" "entities (add_item x it d) = entities d"
  "facts (update_row f i d) = facts d" "entities (update_row f i d) = entities d"
  by (simp_all add: add_item_def update_row_def)

lemma add_items_keep_graph [simp]:
  "facts (add_items x its d) = facts d" "entities (add_items x its d) = entities d"
  by (induction its arbitrary: d) simp_all

lemma fks_update:
  assumes "deferred_fks_ok d" "\<And>r. r_id (f r) = r_id r" "\<And>r. r_supersedes (f r) = r_supersedes r"
  shows "deferred_fks_ok (update_row f i d)"
proof -
  have "r_id ` set (items (update_row f i d)) = r_id ` set (items d)"
    using update_row_ids(2)[of f, OF assms(2)] by (simp add: item_ids_def)
  then show ?thesis
    using assms by (auto simp: deferred_fks_ok_def update_row_def)
qed

lemma fks_add: "deferred_fks_ok d \<Longrightarrow> fits it d \<Longrightarrow> deferred_fks_ok (add_item x it d)"
  by (auto simp: deferred_fks_ok_def add_item_def row_of_item_def fits_def item_ids_def)

lemma fks_add_items: "deferred_fks_ok d \<Longrightarrow> all_fit x its d \<Longrightarrow> deferred_fks_ok (add_items x its d)"
  by (induction its arbitrary: d) (auto intro: fks_add)

lemma fks_writes:
  assumes "bindM (assert_writable c) (\<lambda>_. bindM now (\<lambda>t. transaction b e (body t))) s = (Inr y, s')"
  shows "deferred_fks_ok (db s')"
  using assms by (auto elim!: bindM_InrE transaction_InrE dest!: sql_Inr)

lemma fks_step:
  assumes "m = bindM (assert_writable c) (\<lambda>_. bindM now (\<lambda>t. transaction b e (body t)))" "atomic m"
    "deferred_fks_ok (db s)"
  shows "deferred_fks_ok (db (snd (m s)))"
proof -
  obtain r s' where run: "m s = (r, s')" by fastforce
  show ?thesis
  proof (cases r)
    case (Inl err)
    then show ?thesis using run assms(2,3) by (auto simp: atomic_def)
  next
    case (Inr y)
    then show ?thesis using fks_writes[of c b e body s y s'] run assms(1) by simp
  qed
qed

section \<open>What is never lost\<close>

text \<open>
  An item's row without the two columns that may change, its external id (freed by
  \<open>ingest_replacing\<close>) and its scope (moved by \<open>set_scope\<close>).
\<close>

definition lasting :: "item_row \<Rightarrow> item_row" where
  "lasting r = r\<lparr>r_external_id := None, r_scope := None\<rparr>"

lemma lasting_fields:
  "lasting r' = lasting r \<Longrightarrow> r_id r' = r_id r \<and> r_content r' = r_content r \<and> r_created_at r' = r_created_at r \<and>
     r_supersedes r' = r_supersedes r \<and> r_source r' = r_source r \<and> r_metadata r' = r_metadata r"
  by (cases r; cases r') (simp add: lasting_def)

definition kept_item :: "database \<Rightarrow> database \<Rightarrow> ulid \<Rightarrow> bool" where
  "kept_item d d' i \<longleftrightarrow> (\<forall>r. find_row i d = Some r \<longrightarrow> tags_of i d' = tags_of i d \<and>
     (\<exists>r'. find_row i d' = Some r' \<and> lasting r' = lasting r \<and> r_external_id r' \<in> {None, r_external_id r}))"

definition extends :: "database \<Rightarrow> database \<Rightarrow> bool" where
  "extends d d' \<longleftrightarrow>
     prefix (map lasting (items d)) (map lasting (items d')) \<and> (\<forall>i. kept_item d d' i) \<and>
     prefix (entity_names d) (entity_names d') \<and> prefix (facts d) (facts d')"

lemma extends_refl [simp]: "extends d d"
  by (simp add: extends_def kept_item_def)

lemma kept_item_trans:
  assumes "kept_item d e i" "kept_item e d' i" shows "kept_item d d' i"
  unfolding kept_item_def
proof (intro allI impI)
  fix r assume r: "find_row i d = Some r"
  obtain r1 where 1: "find_row i e = Some r1" "tags_of i e = tags_of i d" "lasting r1 = lasting r"
    "r_external_id r1 \<in> {None, r_external_id r}"
    using assms(1) r unfolding kept_item_def by blast
  obtain r2 where 2: "find_row i d' = Some r2" "tags_of i d' = tags_of i e" "lasting r2 = lasting r1"
    "r_external_id r2 \<in> {None, r_external_id r1}"
    using assms(2) 1(1) unfolding kept_item_def by blast
  show "tags_of i d' = tags_of i d \<and> (\<exists>r'. find_row i d' = Some r' \<and> lasting r' = lasting r \<and>
      r_external_id r' \<in> {None, r_external_id r})"
    using 1 2 by auto
qed

lemma extends_trans: "extends d e \<Longrightarrow> extends e d' \<Longrightarrow> extends d d'"
  unfolding extends_def by (blast intro: prefix_order.trans kept_item_trans)

lemma extends_update:
  assumes "\<And>r. lasting (f r) = lasting r" "\<And>r. r_id (f r) = r_id r"
    "\<And>r. r_external_id (f r) \<in> {None, r_external_id r}"
  shows "extends d (update_row f i d)"
proof -
  have "map lasting (items (update_row f i d)) = map lasting (items d)"
    by (simp add: update_row_def assms)
  moreover have "tags_of j (update_row f i d) = tags_of j d" for j
    by (simp add: tags_of_def update_row_def)
  then have "kept_item d (update_row f i d) j" for j
    using assms by (auto simp: kept_item_def find_row_update)
  ultimately show ?thesis by (simp add: extends_def) (simp add: update_row_def entity_names_def)
qed

lemma extends_add:
  assumes "wf_items d" "fits it d" shows "extends d (add_item x it d)"
proof -
  have "item_id it \<notin> item_ids d" using assms(2) by (simp add: fits_def)
  then have "kept_item d (add_item x it d) i" for i
    using find_row_None[of "item_id it" d] assms
    by (cases "i = item_id it") (simp_all add: kept_item_def find_row_add tags_of_add)
  then show ?thesis by (simp add: extends_def) (simp add: add_item_def entity_names_def)
qed

lemma extends_add_items: "wf_items d \<Longrightarrow> all_fit x its d \<Longrightarrow> extends d (add_items x its d)"
  by (induction its arbitrary: d) (auto intro: extends_trans[OF extends_add] wf_items_add)

section \<open>Every write, as a change of the tables\<close>

lemma write_keeps_ext: "ext (run_write w s) = ext s"
proof (cases w)
  case (Graph_Write g)
  then show ?thesis
    by (cases g) (simp_all, (rule keeps_handle_ext[OF graph_writes_keep_handle(1)]
      keeps_handle_ext[OF graph_writes_keep_handle(2)] keeps_handle_ext[OF graph_writes_keep_handle(3)],
      rule surjective_pairing)+)
qed (simp_all, (rule keeps_handle_ext[OF ingest_keeps] keeps_handle_ext[OF ingest_many_keeps]
    keeps_handle_ext[OF ingest_replacing_keeps] keeps_handle_ext[OF set_scope_keeps], rule surjective_pairing)+)

text \<open>A write that does not fail midway either leaves the tables or applies these changes.\<close>

lemma failed_write:
  "atomic m \<Longrightarrow> m s = (Inl e, s') \<Longrightarrow> db s' = db s"
  by (auto simp: atomic_def)

lemma item_write:
  assumes "wf_items (db s)" "deferred_fks_ok (db s)" "\<And>g. w \<noteq> Graph_Write g"
  shows "wf_items (db (run_write w s)) \<and> deferred_fks_ok (db (run_write w s)) \<and> extends (db s) (db (run_write w s)) \<and>
    facts (db (run_write w s)) = facts (db s) \<and> entities (db (run_write w s)) = entities (db s)"
    (is "?goal (run_write w s)")
proof (cases w)
  case (Ingest it)
  obtain r s' where run: "ingest it s = (r, s')" by fastforce
  have "?goal s'"
  proof (cases r)
    case (Inl e) then show ?thesis using failed_write[OF atomic_ingest run[unfolded Inl]] assms by simp
  next
    case (Inr x)
    from run[unfolded Inr] obtain v i t where "db s' = add_item (ext s) x (db s)" "fits x (db s)"
      by (rule ingest_effect)
    then show ?thesis using assms by (simp add: wf_items_add fks_add extends_add)
  qed
  then show ?thesis using run Ingest by simp
next
  case (Ingest_Many its)
  obtain r s' where run: "ingest_many its s = (r, s')" by fastforce
  have "?goal s'"
  proof (cases r)
    case (Inl e) then show ?thesis using failed_write[OF atomic_ingest_many run[unfolded Inl]] assms by simp
  next
    case (Inr out)
    show ?thesis using ingest_many_effect(1,2)[OF run[unfolded Inr]] assms
      by (simp add: wf_items_add_items fks_add_items extends_add_items)
  qed
  then show ?thesis using run Ingest_Many by simp
next
  case (Ingest_Replacing it i)
  obtain r s' where run: "ingest_replacing it i s = (r, s')" by fastforce
  have "?goal s'"
  proof (cases r)
    case (Inl e) then show ?thesis using failed_write[OF atomic_ingest_replacing run[unfolded Inl]] assms by simp
  next
    case (Inr x)
    from run[unfolded Inr] obtain v j t where e: "db s' = add_item (ext s) x (free_external_id i (db s))"
      "fits x (free_external_id i (db s))" by (rule ingest_replacing_effect)
    have "extends (db s) (free_external_id i (db s))" by (rule extends_update) (simp_all add: lasting_def)
    then have "extends (db s) (db s')" unfolding e(1)
      by (rule extends_trans[OF _ extends_add]) (simp_all add: e assms wf_items_free)
    moreover have "deferred_fks_ok (free_external_id i (db s))"
      by (rule fks_update) (simp_all add: assms)
    ultimately show ?thesis
      using e assms by (simp add: wf_items_add wf_items_free fks_add)
  qed
  then show ?thesis using run Ingest_Replacing by simp
next
  case (Set_Scope i sc)
  obtain r s' where run: "set_scope i sc s = (r, s')" by fastforce
  from set_scope_effect[OF run] consider "db s' = db s" | n where "db s' = move_scope n i (db s)" by blast
  then have "deferred_fks_ok (db s') \<and> extends (db s) (db s') \<and> facts (db s') = facts (db s) \<and> entities (db s') = entities (db s)"
  proof cases
    case 2
    have "extends (db s) (move_scope n i (db s))" by (rule extends_update) (simp_all add: lasting_def)
    then show ?thesis using 2 assms fks_update[of "db s" "r_scope_update (\<lambda>_. n)" i] by simp
  qed (use assms in simp)
  then show ?thesis using run Set_Scope wf_set_scope[OF assms(1) run] by simp
qed (use assms in simp)

lemma graph_fks: "deferred_fks_ok (db s) \<Longrightarrow> deferred_fks_ok (db (run_graph_write g s))"
  by (cases g) (simp_all add: fks_step[OF add_fact_def atomic_add_fact]
      fks_step[OF invalidate_fact_def atomic_invalidate_fact]
      fks_step[OF supersede_fact_def[unfolded Let_def] atomic_supersede_fact])

lemma write_ok:
  assumes "store_inv (ext s) (db s)"
  shows "store_inv (ext s) (db (run_write w s)) \<and> extends (db s) (db (run_write w s))"
proof (cases "\<exists>g. w = Graph_Write g")
  case True
  then obtain g where w: "w = Graph_Write g" by blast
  have inv: "graph_inv (ext s) (db s)" and wf: "wf_items (db s)" and fks: "deferred_fks_ok (db s)"
    using assms by (simp_all add: store_inv_def)
  note app = facts_append_only[OF inv, of g]
  have "graph_inv (ext (run_graph_write g s)) (db (run_graph_write g s))"
    by (cases g) (simp_all, (rule wf_add_fact[OF inv] wf_invalidate_fact[OF inv] wf_supersede_fact[OF inv],
      rule surjective_pairing)+)
  then have "graph_inv (ext s) (db (run_graph_write g s))"
    using write_keeps_ext[of w s] w by simp
  moreover have "wf_items (db (run_graph_write g s))"
    using wf app by (simp add: wf_items_def item_ids_def ext_ids_def)
  ultimately show ?thesis
    using graph_fks[OF fks, of g] app w
    by (simp add: store_inv_def extends_def kept_item_def find_row_def tags_of_def)
next
  case False
  then show ?thesis
    using item_write[of s w] assms graph_inv_items[of "db (run_write w s)" "db s" "ext s"]
    by (auto simp: store_inv_def)
qed

lemma later_trans: "later s t \<Longrightarrow> step t t' \<Longrightarrow> later s t'"
  by (rule later.after)

lemma step_ok:
  assumes "step s s'" "store_inv (ext s) (db s)"
  shows "ext s' = ext s \<and> store_inv (ext s) (db s') \<and> extends (db s) (db s')"
  using assms(1)
proof (rule stepE)
  fix w assume "s' = run_write w s"
  then show ?thesis using write_ok[OF assms(2)] write_keeps_ext by simp
next
  fix c r h ro bs assume "s' = other_handle c r h ro bs s"
  then show ?thesis using assms(2) by (simp add: other_handle_def)
qed

lemma store_inv_empty: "scans x \<Longrightarrow> store_inv x empty_db"
  by (simp add: store_inv_def graph_inv_def wf_graph_def wf_entities_def facts_stored_def deferred_fks_ok_def
      open_head_def) (simp add: empty_db_def)

lemma reachable_inv: "reachable x s \<Longrightarrow> ext s = x \<and> store_inv x (db s)"
proof (induction rule: reachable.induct)
  case (created s) then show ?case using store_inv_empty by simp
next
  case (stepped s s') then show ?case using step_ok by blast
qed

lemma later_ok:
  assumes "later s s'" "store_inv (ext s) (db s)"
  shows "ext s' = ext s \<and> store_inv (ext s) (db s') \<and> extends (db s) (db s')"
  using assms
proof induction
  case (after t t')
  then have "ext t = ext s" "store_inv (ext t) (db t)" "extends (db s) (db t)" by simp_all
  with step_ok[OF after.hyps(2)] show ?case by (auto intro: extends_trans)
qed simp

section \<open>Properties\<close>

text \<open>
  C3: the invariant of the store. Whatever writes reached an initially empty database, through however
  many handles, in whatever order and with whatever statements failing, ids and external ids are
  unique, every row satisfies the rules of validation, supersession among items is acyclic, no two
  open facts say the same thing, every closed fact has one successor at most, and no foreign key dangles.
\<close>

theorem reachable_store_inv:
  assumes "reachable x s"
  shows "ext s = x \<and> store_inv x (db s)"
  by (rule reachable_inv[OF assms])

lemma item_at_extends:
  assumes "extends d d'" "item_at x d i = Some it"
  obtains e sc where "item_at x d' i = Some (it\<lparr>external_id := e, scope := sc\<rparr>)" "e = None \<or> e = external_id it"
proof -
  from assms(2) obtain r t where r: "find_row i d = Some r" "serde_readable (r_metadata r)"
    "ts_parse x (r_created_at r) = Some t" "it = item_of_row r t (tags_of i d)"
    by (auto simp: item_at_Some)
  have "kept_item d d' i" using assms(1) by (simp add: extends_def)
  with r(1) obtain r' where r': "find_row i d' = Some r'" "lasting r' = lasting r"
    "r_external_id r' \<in> {None, r_external_id r}" "tags_of i d' = tags_of i d"
    unfolding kept_item_def by blast
  note lasting_fields[OF r'(2)]
  then have "item_at x d' i = Some (it\<lparr>external_id := r_external_id r', scope := r_scope r'\<rparr>)"
    using r r' by (simp add: item_at_Some item_of_row_def)
  moreover have "external_id it = r_external_id r" using r(4) by (simp add: item_of_row_def)
  ultimately show thesis using r'(3) that by auto
qed

lemma item_lasts:
  assumes "reachable x s" "get i s = (Inr it, s1)" "later s s'" "faults s' = []"
  shows "\<exists>e sc. get i s' = (Inr (it\<lparr>external_id := e, scope := sc\<rparr>), s') \<and> (e = None \<or> e = external_id it) \<and>
    prefix (facts (db s)) (facts (db s'))"
proof -
  have x: "ext s = x" "ext s' = x" "extends (db s) (db s')"
    using reachable_inv[OF assms(1)] later_ok[OF assms(3)] by auto
  from item_at_extends[OF x(3) get_Inr[OF assms(2), unfolded x]] obtain e sc where
    "item_at x (db s') i = Some (it\<lparr>external_id := e, scope := sc\<rparr>)" "e = None \<or> e = external_id it" .
  moreover have "prefix (facts (db s)) (facts (db s'))" using x(3) by (simp add: extends_def)
  ultimately show ?thesis
    using get_no_faults[OF assms(4), of i] x(2) by (intro exI[of _ e] exI[of _ sc]) simp
qed

text \<open>
  C4: nothing that was stored is lost. An item that could be read once can be read in every later state
  of the store as it was, except that its scope may have moved and its external id may have been
  freed (never changed); and every revision of the graph is still in its place.
\<close>

theorem stored_items_last:
  assumes "reachable x s" "get i s = (Inr it, s1)" "later s s'" "faults s' = []"
  shows "\<exists>e sc. get i s' = (Inr (it\<lparr>external_id := e, scope := sc\<rparr>), s') \<and> (e = None \<or> e = external_id it) \<and>
    prefix (facts (db s)) (facts (db s'))"
  by (rule item_lasts[OF assms])

section \<open>A run\<close>

text \<open>The sample item is stored, then moved to the scope \<open>a\<close>.\<close>

definition moved_store :: store where
  "moved_store = run_write (Set_Scope 48 (Some ''a'')) sample_store_1"

lemma sample_run:
  "reachable sample_ext sample_store_1" "later sample_store_1 moved_store" "faults moved_store = []"
proof -
  have "scans sample_ext" using graph_inv_sample(1) by (simp add: graph_inv_def)
  then have "reachable sample_ext sample_store" by (intro created) simp_all
  moreover have "sample_store_1 = run_write (Ingest sample_item) sample_store"
    using run_sample by (simp add: sample_store_1_def)
  ultimately show "reachable sample_ext sample_store_1"
    using stepped[OF _ step.written[of sample_store "Ingest sample_item"]] by simp
  show "later sample_store_1 moved_store"
    unfolding moved_store_def by (rule later.after[OF later.same step.written])
  show "faults moved_store = []"
    unfolding moved_store_def using run_set_scope_sample by simp
qed

theorem reachable_store_inv_witness: "store_inv sample_ext (add_item sample_ext sample_stored empty_db)"
  using reachable_store_inv[OF sample_run(1)] by simp

theorem stored_items_last_witness:
  "\<exists>e sc. get 48 moved_store = (Inr (sample_stored\<lparr>external_id := e, scope := sc\<rparr>), moved_store)"
proof -
  have "get 48 sample_store_1 = (Inr sample_stored, sample_store_1)"
    using get_no_faults[of sample_store_1 48] item_at_add[OF prints_times_sample _ fits_sample]
    by simp
  from stored_items_last[OF sample_run(1) this sample_run(2,3)] show ?thesis by blast
qed

end
