(* ===== verification/Schema.thy ===== *)
theory Schema
  imports Store_History "HOL-Library.AList"
begin

text \<open>
  \<open>schema.rs\<close>: the tables and indexes of each version of the store's format, the statements that
  create and migrate them, and the transactions that run those statements. A column and a constraint
  keep the text of their declaration. The rows are the \<open>database\<close> of \<open>Db\<close>, which reads a
  column that is not there yet as \<open>NULL\<close>.
\<close>

section \<open>Statements\<close>

datatype statement =
    Create_Table string "(string \<times> string) list" "string list"
  | Create_Index bool string string string "string option"
  | Add_Column string string string

text \<open>What \<open>sqlite_master\<close> records of a table and of an index.\<close>

record table =
  tb_columns :: "(string \<times> string) list"
  tb_constraints :: "string list"

record index_def =
  ix_unique :: bool
  ix_table :: string
  ix_column :: string
  ix_where :: "string option"

record layout =
  lo_tables :: "(string \<times> table) list"
  lo_indexes :: "(string \<times> index_def) list"

definition no_layout :: layout where
  "no_layout = \<lparr>lo_tables = [], lo_indexes = []\<rparr>"

definition taken :: "string \<Rightarrow> layout \<Rightarrow> bool" where
  "taken n l \<longleftrightarrow> n \<in> set (map fst (lo_tables l)) \<union> set (map fst (lo_indexes l))"

text \<open>Whether rows that exist already keep a unique index on a column from being built.\<close>

definition duplicates :: "database \<Rightarrow> string \<Rightarrow> string \<Rightarrow> bool" where
  "duplicates d t c \<longleftrightarrow>
     (t = ''items'' \<and> c = ''external_id'' \<and> \<not> distinct (List.map_filter r_external_id (items d))) \<or>
     (t = ''entities'' \<and> c = ''normalised_name'' \<and> \<not> distinct (map e_normalised_name (entities d)))"

text \<open>One statement; an error of SQLite is its message.\<close>

fun run_statement :: "database \<Rightarrow> statement \<Rightarrow> layout \<Rightarrow> string + layout" where
  "run_statement d (Create_Table n cs ks) l =
     (if taken n l then Inl (n @ '' already exists'')
      else Inr (l\<lparr>lo_tables := lo_tables l @ [(n, \<lparr>tb_columns = cs, tb_constraints = ks\<rparr>)]\<rparr>))"
| "run_statement d (Create_Index u n t c wh) l =
     (if taken n l then Inl (n @ '' already exists'')
      else case map_of (lo_tables l) t of
        None \<Rightarrow> Inl (''no such table: '' @ t)
      | Some tb \<Rightarrow>
          if c \<notin> set (map fst (tb_columns tb)) then Inl (''no such column: '' @ c)
          else if u \<and> duplicates d t c then Inl ''UNIQUE constraint failed''
          else Inr (l\<lparr>lo_indexes := lo_indexes l @ [(n, \<lparr>ix_unique = u, ix_table = t, ix_column = c, ix_where = wh\<rparr>)]\<rparr>))"
| "run_statement d (Add_Column t c decl) l =
     (case map_of (lo_tables l) t of
        None \<Rightarrow> Inl (''no such table: '' @ t)
      | Some tb \<Rightarrow>
          if c \<in> set (map fst (tb_columns tb)) then Inl (''duplicate column name: '' @ c)
          else Inr (l\<lparr>lo_tables := AList.update t (tb\<lparr>tb_columns := tb_columns tb @ [(c, decl)]\<rparr>) (lo_tables l)\<rparr>))"

text \<open>\<open>execute_batch\<close> on a database that answers every statement.\<close>

fun run_statements :: "database \<Rightarrow> statement list \<Rightarrow> layout \<Rightarrow> string + layout" where
  "run_statements d [] l = Inr l"
| "run_statements d (st # sts) l = rbind (run_statement d st l) (run_statements d sts)"

section \<open>The DDL\<close>

definition MIGRATE_1_TO_2_DDL :: "statement list" where
  "MIGRATE_1_TO_2_DDL =
     [Add_Column ''items'' ''external_id'' ''TEXT'',
      Create_Index True ''idx_items_external_id'' ''items'' ''external_id'' (Some ''external_id IS NOT NULL'')]"

definition MIGRATE_2_TO_3_DDL :: "statement list" where
  "MIGRATE_2_TO_3_DDL =
     [Add_Column ''items'' ''scope'' ''TEXT'',
      Create_Index False ''idx_items_scope'' ''items'' ''scope'' (Some ''scope IS NOT NULL'')]"

definition MIGRATE_3_TO_4_DDL :: "statement list" where
  "MIGRATE_3_TO_4_DDL =
     [Create_Table ''entities''
        [(''id'', ''TEXT PRIMARY KEY NOT NULL''), (''name'', ''TEXT NOT NULL''), (''normalised_name'', ''TEXT NOT NULL''),
         (''kind'', ''TEXT''), (''created_at'', ''TEXT NOT NULL'')]
        [''CHECK (length(name) > 0)''],
      Create_Index True ''idx_entities_identity'' ''entities'' ''normalised_name'' None,
      Create_Table ''facts''
        [(''id'', ''TEXT PRIMARY KEY NOT NULL''), (''subject_id'', ''TEXT NOT NULL''), (''predicate'', ''TEXT NOT NULL''),
         (''object_id'', ''TEXT''), (''object_value'', ''TEXT''), (''valid_from'', ''TEXT''), (''valid_to'', ''TEXT''),
         (''confidence'', ''REAL NOT NULL DEFAULT 1.0''), (''source_item_id'', ''TEXT''), (''scope'', ''TEXT''),
         (''supersedes'', ''TEXT''), (''recorded_at'', ''TEXT NOT NULL'')]
        [''FOREIGN KEY (subject_id) REFERENCES entities(id)'',
         ''FOREIGN KEY (object_id) REFERENCES entities(id)'',
         ''FOREIGN KEY (source_item_id) REFERENCES items(id) DEFERRABLE INITIALLY DEFERRED'',
         ''FOREIGN KEY (supersedes) REFERENCES facts(id) DEFERRABLE INITIALLY DEFERRED'',
         ''CHECK ((object_id IS NULL) <> (object_value IS NULL))'',
         ''CHECK (confidence >= 0.0 AND confidence <= 1.0)'',
         ''CHECK (valid_to IS NULL OR valid_from IS NULL OR valid_to >= valid_from)''],
      Create_Index False ''idx_facts_subject'' ''facts'' ''subject_id'' None,
      Create_Index False ''idx_facts_object'' ''facts'' ''object_id'' (Some ''object_id IS NOT NULL''),
      Create_Index False ''idx_facts_predicate'' ''facts'' ''predicate'' None,
      Create_Index False ''idx_facts_supersedes'' ''facts'' ''supersedes'' (Some ''supersedes IS NOT NULL''),
      Create_Index False ''idx_facts_scope'' ''facts'' ''scope'' (Some ''scope IS NOT NULL'')]"

definition DDL_V4 :: "statement list" where
  "DDL_V4 =
     [Create_Table ''singularmem_meta'' [(''key'', ''TEXT PRIMARY KEY NOT NULL''), (''value'', ''TEXT NOT NULL'')] [],
      Create_Table ''items''
        [(''id'', ''TEXT PRIMARY KEY NOT NULL''), (''content'', ''TEXT NOT NULL''), (''created_at'', ''TEXT NOT NULL''),
         (''supersedes'', ''TEXT''), (''source'', ''TEXT''), (''metadata'', ''TEXT NOT NULL DEFAULT '{}'' @ [CHR 0x27]),
         (''external_id'', ''TEXT''), (''scope'', ''TEXT'')]
        [''FOREIGN KEY (supersedes) REFERENCES items(id) DEFERRABLE INITIALLY DEFERRED'',
         ''CHECK (length(content) > 0)'', ''CHECK (length(content) <= 1048576)'',
         ''CHECK (json_valid(metadata) AND json_type(metadata) = 'object')''],
      Create_Table ''item_tags'' [(''item_id'', ''TEXT NOT NULL''), (''tag'', ''TEXT NOT NULL'')]
        [''PRIMARY KEY (item_id, tag)'', ''FOREIGN KEY (item_id) REFERENCES items(id) ON DELETE CASCADE''],
      Create_Index False ''idx_items_created_at'' ''items'' ''created_at'' None,
      Create_Index False ''idx_items_supersedes'' ''items'' ''supersedes'' (Some ''supersedes IS NOT NULL''),
      Create_Index False ''idx_item_tags_tag'' ''item_tags'' ''tag'' None,
      Create_Index True ''idx_items_external_id'' ''items'' ''external_id'' (Some ''external_id IS NOT NULL''),
      Create_Index False ''idx_items_scope'' ''items'' ''scope'' (Some ''scope IS NOT NULL''),
      Create_Table ''entities''
        [(''id'', ''TEXT PRIMARY KEY NOT NULL''), (''name'', ''TEXT NOT NULL''), (''normalised_name'', ''TEXT NOT NULL''),
         (''kind'', ''TEXT''), (''created_at'', ''TEXT NOT NULL'')]
        [''CHECK (length(name) > 0)''],
      Create_Index True ''idx_entities_identity'' ''entities'' ''normalised_name'' None,
      Create_Table ''facts''
        [(''id'', ''TEXT PRIMARY KEY NOT NULL''), (''subject_id'', ''TEXT NOT NULL''), (''predicate'', ''TEXT NOT NULL''),
         (''object_id'', ''TEXT''), (''object_value'', ''TEXT''), (''valid_from'', ''TEXT''), (''valid_to'', ''TEXT''),
         (''confidence'', ''REAL NOT NULL DEFAULT 1.0''), (''source_item_id'', ''TEXT''), (''scope'', ''TEXT''),
         (''supersedes'', ''TEXT''), (''recorded_at'', ''TEXT NOT NULL'')]
        [''FOREIGN KEY (subject_id) REFERENCES entities(id)'',
         ''FOREIGN KEY (object_id) REFERENCES entities(id)'',
         ''FOREIGN KEY (source_item_id) REFERENCES items(id) DEFERRABLE INITIALLY DEFERRED'',
         ''FOREIGN KEY (supersedes) REFERENCES facts(id) DEFERRABLE INITIALLY DEFERRED'',
         ''CHECK ((object_id IS NULL) <> (object_value IS NULL))'',
         ''CHECK (confidence >= 0.0 AND confidence <= 1.0)'',
         ''CHECK (valid_to IS NULL OR valid_from IS NULL OR valid_to >= valid_from)''],
      Create_Index False ''idx_facts_subject'' ''facts'' ''subject_id'' None,
      Create_Index False ''idx_facts_object'' ''facts'' ''object_id'' (Some ''object_id IS NOT NULL''),
      Create_Index False ''idx_facts_predicate'' ''facts'' ''predicate'' None,
      Create_Index False ''idx_facts_supersedes'' ''facts'' ''supersedes'' (Some ''supersedes IS NOT NULL''),
      Create_Index False ''idx_facts_scope'' ''facts'' ''scope'' (Some ''scope IS NOT NULL'')]"

text \<open>The first format, as \<open>docs/formats/store-v1.md\<close> gives it: no code creates it any more.\<close>

definition DDL_V1 :: "statement list" where
  "DDL_V1 =
     [Create_Table ''singularmem_meta'' [(''key'', ''TEXT PRIMARY KEY NOT NULL''), (''value'', ''TEXT NOT NULL'')] [],
      Create_Table ''items''
        [(''id'', ''TEXT PRIMARY KEY NOT NULL''), (''content'', ''TEXT NOT NULL''), (''created_at'', ''TEXT NOT NULL''),
         (''supersedes'', ''TEXT''), (''source'', ''TEXT''), (''metadata'', ''TEXT NOT NULL DEFAULT '{}'' @ [CHR 0x27])]
        [''FOREIGN KEY (supersedes) REFERENCES items(id) DEFERRABLE INITIALLY DEFERRED'',
         ''CHECK (length(content) > 0)'', ''CHECK (length(content) <= 1048576)'',
         ''CHECK (json_valid(metadata) AND json_type(metadata) = 'object')''],
      Create_Table ''item_tags'' [(''item_id'', ''TEXT NOT NULL''), (''tag'', ''TEXT NOT NULL'')]
        [''PRIMARY KEY (item_id, tag)'', ''FOREIGN KEY (item_id) REFERENCES items(id) ON DELETE CASCADE''],
      Create_Index False ''idx_items_created_at'' ''items'' ''created_at'' None,
      Create_Index False ''idx_items_supersedes'' ''items'' ''supersedes'' (Some ''supersedes IS NOT NULL''),
      Create_Index False ''idx_item_tags_tag'' ''item_tags'' ''tag'' None]"

section \<open>The layout of each version\<close>

text \<open>What the statements leave on a database without rows, from nothing and from the version before.\<close>

definition layout_after :: "statement list \<Rightarrow> layout \<Rightarrow> layout" where
  "layout_after sts l = (case run_statements empty_db sts l of Inl e \<Rightarrow> l | Inr l' \<Rightarrow> l')"

fun layout_of :: "string \<Rightarrow> layout" where
  "layout_of v =
     (if v = ''1'' then layout_after DDL_V1 no_layout
      else if v = ''2'' then layout_after MIGRATE_1_TO_2_DDL (layout_after DDL_V1 no_layout)
      else if v = ''3'' then layout_after (MIGRATE_1_TO_2_DDL @ MIGRATE_2_TO_3_DDL) (layout_after DDL_V1 no_layout)
      else layout_after DDL_V4 no_layout)"

end
