(* ===== verification/Store_Open.thy ===== *)
theory Store_Open
  imports Schema
begin

text \<open>
  The transactions of \<open>schema.rs\<close> and \<open>Store::open\<close> of \<open>store.rs\<close>, on a database file that several
  processes may open at once. A connection carries a script of faults: every SQL call takes the next
  entry and fails with its message, if it has one.
\<close>

section \<open>A file and a connection\<close>

record db_file =
  df_layout :: layout
  df_meta :: "(string \<times> string) list"
  df_rows :: database

record conn =
  cn_file :: db_file
  cn_faults :: "string option list"

type_synonym 'a on_conn = "conn \<Rightarrow> (error + 'a) \<times> conn"

definition conn_ret :: "'a \<Rightarrow> 'a on_conn" where
  "conn_ret x c = (Inr x, c)"

definition conn_bind :: "'a on_conn \<Rightarrow> ('a \<Rightarrow> 'b on_conn) \<Rightarrow> 'b on_conn" where
  "conn_bind m k c = (case m c of (Inl e, c') \<Rightarrow> (Inl e, c') | (Inr x, c') \<Rightarrow> k x c')"

text \<open>One SQL call that changes nothing, and its error.\<close>

definition sql_call :: "(string \<Rightarrow> error) \<Rightarrow> unit on_conn" where
  "sql_call err c = (case cn_faults c of
     [] \<Rightarrow> (Inr (), c)
   | None # fs \<Rightarrow> (Inr (), c\<lparr>cn_faults := fs\<rparr>)
   | Some e # fs \<Rightarrow> (Inl (err e), c\<lparr>cn_faults := fs\<rparr>))"

definition map_err :: "(error \<Rightarrow> error) \<Rightarrow> 'a on_conn \<Rightarrow> 'a on_conn" where
  "map_err f m c = apfst (map_sum f id) (m c)"

text \<open>An error inside a transaction puts the file back.\<close>

definition in_tx :: "'a on_conn \<Rightarrow> 'a on_conn" where
  "in_tx m c = (case m c of (Inl e, c') \<Rightarrow> (Inl e, c'\<lparr>cn_file := cn_file c\<rparr>) | (Inr x, c') \<Rightarrow> (Inr x, c'))"

fun execute_batch :: "(string \<Rightarrow> error) \<Rightarrow> statement list \<Rightarrow> unit on_conn" where
  "execute_batch err [] c = (Inr (), c)"
| "execute_batch err (st # sts) c =
     conn_bind (sql_call err) (\<lambda>_ c.
       case run_statement (df_rows (cn_file c)) st (df_layout (cn_file c)) of
         Inl e \<Rightarrow> (Inl (err e), c)
       | Inr l \<Rightarrow> execute_batch err sts (c\<lparr>cn_file := (cn_file c)\<lparr>df_layout := l\<rparr>\<rparr>)) c"

definition insert_meta :: "string \<Rightarrow> string \<Rightarrow> string \<Rightarrow> unit on_conn" where
  "insert_meta ctx k v =
     conn_bind (sql_call (\<lambda>_. Sqlite ctx)) (\<lambda>_ c.
       if k \<in> set (map fst (df_meta (cn_file c))) then (Inl (Sqlite ctx), c)
       else (Inr (), c\<lparr>cn_file := (cn_file c)\<lparr>df_meta := df_meta (cn_file c) @ [(k, v)]\<rparr>\<rparr>))"

definition update_version :: "(string \<Rightarrow> error) \<Rightarrow> string \<Rightarrow> unit on_conn" where
  "update_version err v =
     conn_bind (sql_call err) (\<lambda>_ c.
       (Inr (), c\<lparr>cn_file := (cn_file c)\<lparr>df_meta :=
         map (\<lambda>(k, w). if k = ''format_version'' then (k, v) else (k, w)) (df_meta (cn_file c))\<rparr>\<rparr>))"

section \<open>The transactions of schema.rs\<close>

definition FORMAT_VERSION :: string where "FORMAT_VERSION = ''4''"

text \<open>A table that is missing is no version, not an error.\<close>

definition read_format_version :: "string option on_conn" where
  "read_format_version =
     conn_bind (sql_call (\<lambda>_. Sqlite ''preparing format_version query'')) (\<lambda>_ c.
       if map_of (lo_tables (df_layout (cn_file c))) ''singularmem_meta'' = None then (Inr None, c)
       else conn_bind (sql_call (\<lambda>_. Sqlite ''reading format_version meta row''))
         (\<lambda>_ c. (Inr (map_of (df_meta (cn_file c)) ''format_version''), c)) c)"

definition run_migration :: "(error \<Rightarrow> string) \<Rightarrow> string \<Rightarrow> string \<Rightarrow> statement list \<Rightarrow> unit on_conn" where
  "run_migration shown from to ddl =
     conn_bind (sql_call (Migration from to)) (\<lambda>_.
     conn_bind (map_err (\<lambda>e. Migration from to (shown e)) read_format_version) (\<lambda>current.
     if current \<noteq> Some from then sql_call (Migration from to)
     else in_tx (
       conn_bind (execute_batch (Migration from to) ddl) (\<lambda>_.
       conn_bind (update_version (Migration from to) to) (\<lambda>_.
       sql_call (Migration from to))))))"

definition migrate_1_to_2 :: "(error \<Rightarrow> string) \<Rightarrow> unit on_conn" where
  "migrate_1_to_2 shown = run_migration shown ''1'' ''2'' MIGRATE_1_TO_2_DDL"

definition migrate_2_to_3 :: "(error \<Rightarrow> string) \<Rightarrow> unit on_conn" where
  "migrate_2_to_3 shown = run_migration shown ''2'' ''3'' MIGRATE_2_TO_3_DDL"

definition migrate_3_to_4 :: "(error \<Rightarrow> string) \<Rightarrow> unit on_conn" where
  "migrate_3_to_4 shown = run_migration shown ''3'' ''4'' MIGRATE_3_TO_4_DDL"

definition apply_current :: "string \<Rightarrow> unit on_conn" where
  "apply_current created =
     conn_bind (sql_call (\<lambda>_. Sqlite ''beginning fresh-store bootstrap transaction'')) (\<lambda>_.
     conn_bind read_format_version (\<lambda>v.
     if v \<noteq> None then sql_call (\<lambda>_. Sqlite ''rolling back a bootstrap another process already did'')
     else in_tx (
       conn_bind (execute_batch (\<lambda>_. Sqlite ''applying v4 schema'') DDL_V4) (\<lambda>_.
       conn_bind (insert_meta ''writing format_version meta row'' ''format_version'' FORMAT_VERSION) (\<lambda>_.
       conn_bind (insert_meta ''writing created_at meta row'' ''created_at'' created) (\<lambda>_.
       sql_call (\<lambda>_. Sqlite ''committing fresh-store bootstrap'')))))))"

section \<open>Opening\<close>

text \<open>
  The \<open>match\<close> of \<open>open_inner\<close> on the version it read, as the transactions it then runs one after the
  other; between two of them another process may run its own.
\<close>

datatype open_step = Bootstrap string | Migrate_1_2 | Migrate_2_3 | Migrate_3_4

definition opening_plan :: "string \<Rightarrow> string option \<Rightarrow> error + open_step list" where
  "opening_plan created v = (case v of
     None \<Rightarrow> Inr [Bootstrap created]
   | Some w \<Rightarrow>
       if w = FORMAT_VERSION then Inr []
       else if w = ''1'' then Inr [Migrate_1_2, Migrate_2_3, Migrate_3_4]
       else if w = ''2'' then Inr [Migrate_2_3, Migrate_3_4]
       else if w = ''3'' then Inr [Migrate_3_4]
       else Inl (UnsupportedFormatVersion w FORMAT_VERSION))"

fun run_opening :: "(error \<Rightarrow> string) \<Rightarrow> open_step \<Rightarrow> unit on_conn" where
  "run_opening shown (Bootstrap created) = apply_current created"
| "run_opening shown Migrate_1_2 = migrate_1_to_2 shown"
| "run_opening shown Migrate_2_3 = migrate_2_to_3 shown"
| "run_opening shown Migrate_3_4 = migrate_3_to_4 shown"

fun run_openings :: "(error \<Rightarrow> string) \<Rightarrow> open_step list \<Rightarrow> unit on_conn" where
  "run_openings shown [] c = (Inr (), c)"
| "run_openings shown (a # as) c = conn_bind (run_opening shown a) (\<lambda>_. run_openings shown as) c"

definition open_writable :: "(error \<Rightarrow> string) \<Rightarrow> string \<Rightarrow> unit on_conn" where
  "open_writable shown created =
     conn_bind read_format_version (\<lambda>v. case opening_plan created v of
       Inl e \<Rightarrow> (\<lambda>c. (Inl e, c)) | Inr as \<Rightarrow> run_openings shown as)"

text \<open>A read-only connection does not migrate.\<close>

definition check_version :: "unit on_conn" where
  "check_version =
     conn_bind read_format_version (\<lambda>v c. case v of
       None \<Rightarrow> (Inl (UnsupportedFormatVersion ''<missing>'' FORMAT_VERSION), c)
     | Some w \<Rightarrow>
         if w = ''1'' \<or> w = ''2'' \<or> w = ''3''
         then (Inl (Migration w FORMAT_VERSION ''store is opened read-only; open it writable once to migrate''), c)
         else if w \<noteq> FORMAT_VERSION then (Inl (UnsupportedFormatVersion w FORMAT_VERSION), c)
         else (Inr (), c))"

definition format_version :: "string on_conn" where
  "format_version = conn_bind read_format_version (\<lambda>v c. case v of
     None \<Rightarrow> (Inl (UnsupportedFormatVersion ''<missing>'' FORMAT_VERSION), c) | Some w \<Rightarrow> (Inr w, c))"

text \<open>
  \<open>set_wal_journal_mode\<close>: \<open>ans\<close> says of each attempt whether the pragma took effect and whether the mode
  reads as \<open>wal\<close> when it did not. The delays slept are collected.
\<close>

fun wal_attempts :: "(nat \<Rightarrow> bool \<times> bool) \<Rightarrow> nat \<Rightarrow> nat \<Rightarrow> nat list \<Rightarrow> (error + unit) \<times> nat list" where
  "wal_attempts ans attempt 0 slept = (Inl (Sqlite ''setting WAL journal mode''), slept)"
| "wal_attempts ans attempt (Suc n) slept =
     (case ans attempt of (updated, already_wal) \<Rightarrow>
        if updated \<or> already_wal then (Inr (), slept)
        else wal_attempts ans (Suc attempt) n (slept @ [min (min (50 * 2 ^ min attempt 31) (2 ^ 64 - 1)) 500]))"

definition set_wal_journal_mode :: "(nat \<Rightarrow> bool \<times> bool) \<Rightarrow> error + unit" where
  "set_wal_journal_mode ans = fst (wal_attempts ans 0 10 [])"

text \<open>What the file system and the clock answer to one call of \<open>open_inner\<close>.\<close>

record open_env =
  oe_exists :: bool
  oe_has_parent :: bool
  oe_create_dirs :: "string option"
  oe_wal :: "nat \<Rightarrow> bool \<times> bool"
  oe_now :: string
  oe_display :: "error \<Rightarrow> string"

definition open_checks :: "open_env \<Rightarrow> bool \<Rightarrow> error + unit" where
  "open_checks en ro =
     (if ro then (if oe_exists en then Inr () else Inl (IoError ''refusing to create in read-only mode''))
      else if oe_has_parent en then (case oe_create_dirs en of Some e \<Rightarrow> Inl (IoError e) | None \<Rightarrow> Inr ())
      else Inr ())"

definition open_inner :: "open_env \<Rightarrow> bool \<Rightarrow> unit on_conn" where
  "open_inner en ro =
     conn_bind (\<lambda>c. (open_checks en ro, c)) (\<lambda>_.
     conn_bind (sql_call (\<lambda>_. Sqlite ''opening database file'')) (\<lambda>_.
     conn_bind (sql_call (\<lambda>_. Sqlite ''setting busy_timeout'')) (\<lambda>_.
     conn_bind (\<lambda>c. (if ro then Inr () else set_wal_journal_mode (oe_wal en), c)) (\<lambda>_.
     conn_bind (sql_call (\<lambda>_. Sqlite ''enabling foreign_keys pragma'')) (\<lambda>_.
     if ro then check_version else open_writable (oe_display en) (oe_now en))))))"

text \<open>\<open>open_with_options\<close>, \<open>open_with\<close> and \<open>open_with_hook\<close>: the handle that results.\<close>

definition opened_handle ::
  "externals \<Rightarrow> (nat \<Rightarrow> timestamp) \<Rightarrow> (nat \<Rightarrow> nat) \<Rightarrow> index_hook option \<Rightarrow> bool \<Rightarrow> conn \<Rightarrow> store"
where
  "opened_handle x clk rg h ro c =
    \<lparr>db = df_rows (cn_file c), faults = [], clock = clk, ticks = 0, rng = rg, draws = 0, read_only = ro,
     hook = h, hook_log = [], ext = x\<rparr>"

definition open_store ::
  "open_env \<Rightarrow> externals \<Rightarrow> (nat \<Rightarrow> timestamp) \<Rightarrow> (nat \<Rightarrow> nat) \<Rightarrow> index_hook option \<Rightarrow> bool \<Rightarrow> store on_conn"
where
  "open_store en x clk rg h ro =
     conn_bind (open_inner en ro) (\<lambda>_ c. (Inr (opened_handle x clk rg h ro c), c))"

end
