(* ===== verification/Migrations.thy ===== *)
theory Migrations
  imports Store_Open
begin

text \<open>
  What opening a store does to its file: each transaction moves the file from one version to the next
  or leaves it, whichever call fails and however many processes open the file at once.
\<close>

section \<open>The statements on a file with rows\<close>

text \<open>No rows stand in the way of a unique index.\<close>

definition unique_rows :: "database \<Rightarrow> bool" where
  "unique_rows d \<longleftrightarrow> distinct (List.map_filter r_external_id (items d)) \<and> distinct (map e_normalised_name (entities d))"

lemma no_duplicates: "unique_rows d \<Longrightarrow> duplicates d = (\<lambda>t c. False)"
  by (auto simp: unique_rows_def duplicates_def fun_eq_iff)

lemma unique_rows_empty [simp]: "unique_rows empty_db"
  by (simp add: unique_rows_def empty_db_def map_filter_simps)

lemma run_statement_rows: "unique_rows d \<Longrightarrow> run_statement d st l = run_statement empty_db st l"
  by (cases st) (simp_all add: no_duplicates)

lemma run_statements_rows:
  assumes "unique_rows d" shows "run_statements d sts l = run_statements empty_db sts l"
proof -
  have "run_statements d sts = run_statements empty_db sts"
  proof (induction sts)
    case (Cons st sts)
    show ?case by (rule ext) (simp add: Cons run_statement_rows[OF assms, of st])
  qed (simp add: fun_eq_iff)
  then show ?thesis by simp
qed

lemma run_statements_append:
  "run_statements d (xs @ ys) l = rbind (run_statements d xs l) (run_statements d ys)"
  by (induction xs arbitrary: l) (simp_all add: rbind_def split: sum.split)

lemmas layout_simps = no_layout_def taken_def layout_after_def no_duplicates[OF unique_rows_empty] rbind_def

lemma ddl_v1: "run_statements empty_db DDL_V1 no_layout = Inr (layout_of ''1'')"
proof -
  have "\<exists>l. run_statements empty_db DDL_V1 no_layout = Inr l" by (simp add: DDL_V1_def layout_simps)
  then show ?thesis by (auto simp: layout_after_def)
qed

lemma ddl_1_2: "run_statements empty_db MIGRATE_1_TO_2_DDL (layout_of ''1'') = Inr (layout_of ''2'')"
  by (simp add: DDL_V1_def MIGRATE_1_TO_2_DDL_def layout_simps)

lemma ddl_2_3: "run_statements empty_db MIGRATE_2_TO_3_DDL (layout_of ''2'') = Inr (layout_of ''3'')"
  by (simp add: DDL_V1_def MIGRATE_1_TO_2_DDL_def MIGRATE_2_TO_3_DDL_def layout_simps)

lemma ddl_v4_items: "run_statements empty_db (take 8 DDL_V4) no_layout = Inr (layout_of ''3'')"
  by (simp add: DDL_V1_def DDL_V4_def MIGRATE_1_TO_2_DDL_def MIGRATE_2_TO_3_DDL_def layout_simps)

lemma ddl_v4_graph: "DDL_V4 = take 8 DDL_V4 @ MIGRATE_3_TO_4_DDL"
  by (simp add: DDL_V4_def MIGRATE_3_TO_4_DDL_def)

lemma ddl_3_4: "run_statements empty_db MIGRATE_3_TO_4_DDL (layout_of ''3'') = Inr (layout_of ''4'')"
proof -
  have "\<exists>l. run_statements empty_db MIGRATE_3_TO_4_DDL (layout_of ''3'') = Inr l"
    by (simp add: DDL_V1_def MIGRATE_1_TO_2_DDL_def MIGRATE_2_TO_3_DDL_def MIGRATE_3_TO_4_DDL_def layout_simps)
  moreover have "layout_of ''4'' = layout_after (take 8 DDL_V4 @ MIGRATE_3_TO_4_DDL) no_layout"
    using ddl_v4_graph by simp
  ultimately show ?thesis
    by (auto simp: layout_after_def run_statements_append ddl_v4_items rbind_def simp del: layout_of.simps)
qed

lemma ddl_v4: "run_statements empty_db DDL_V4 no_layout = Inr (layout_of ''4'')"
  by (subst ddl_v4_graph) (simp add: run_statements_append ddl_v4_items ddl_3_4 rbind_def del: layout_of.simps)

text \<open>
  C8: a migrated store and a fresh one have the same schema. The three migrations, run one after the
  other on the tables and indexes of the first format, leave exactly what \<open>DDL_V4\<close> creates in an empty
  file: the same tables with the same columns and constraints and the same indexes, in the same order,
  and no statement of either fails, whatever rows there are, as long as external ids and entity names are unique.
\<close>

theorem migrated_schema_is_fresh:
  assumes "unique_rows d"
  shows "\<exists>v1 v4. run_statements d DDL_V1 no_layout = Inr v1 \<and> run_statements d DDL_V4 no_layout = Inr v4 \<and>
    run_statements d (MIGRATE_1_TO_2_DDL @ MIGRATE_2_TO_3_DDL @ MIGRATE_3_TO_4_DDL) v1 = Inr v4"
  by (simp add: run_statements_rows[OF assms] run_statements_append ddl_v1 ddl_1_2 ddl_2_3 ddl_3_4 ddl_v4 rbind_def
      del: layout_of.simps)

theorem migrated_schema_is_fresh_witness:
  "\<exists>v1 v4. run_statements (add_item sample_ext sample_stored empty_db) DDL_V1 no_layout = Inr v1 \<and>
    run_statements (add_item sample_ext sample_stored empty_db) DDL_V4 no_layout = Inr v4"
proof -
  have "unique_rows (add_item sample_ext sample_stored empty_db)"
    by (simp add: unique_rows_def add_item_def empty_db_def map_filter_simps split: option.split)
  from migrated_schema_is_fresh[OF this] show ?thesis by blast
qed

declare layout_of.simps [simp del]

section \<open>Files\<close>

text \<open>A file of a version, or a new one.\<close>

definition file_at :: "string option \<Rightarrow> db_file \<Rightarrow> bool" where
  "file_at v f \<longleftrightarrow> (case v of
     None \<Rightarrow> df_layout f = no_layout \<and> df_meta f = []
   | Some w \<Rightarrow> w \<in> {''1'', ''2'', ''3'', ''4''} \<and> df_layout f = layout_of w \<and>
       map_of (df_meta f) ''format_version'' = Some w)"

fun age :: "string option \<Rightarrow> nat" where
  "age None = 0"
| "age (Some w) = (if w = ''1'' then 1 else if w = ''2'' then 2 else if w = ''3'' then 3 else 4)"

lemma meta_table:
  "w \<in> {''1'', ''2'', ''3'', ''4''} \<Longrightarrow> map_of (lo_tables (layout_of w)) ''singularmem_meta'' \<noteq> None"
proof -
  have n: "map_of (lo_tables l) ''singularmem_meta'' \<noteq> None \<Longrightarrow> run_statement d st l = Inr l' \<Longrightarrow>
      map_of (lo_tables l') ''singularmem_meta'' \<noteq> None" for d st l l'
    by (cases st) (auto simp: update_conv' split: if_splits option.splits)
  have ns: "map_of (lo_tables l) ''singularmem_meta'' \<noteq> None \<Longrightarrow> run_statements d sts l = Inr l' \<Longrightarrow>
      map_of (lo_tables l') ''singularmem_meta'' \<noteq> None" for d sts l l'
  proof (induction sts arbitrary: l)
    case (Cons st sts)
    then obtain l1 where "run_statement d st l = Inr l1" "run_statements d sts l1 = Inr l'"
      by (auto simp: rbind_def split: sum.splits)
    then show ?case using Cons.IH[OF n] Cons.prems(1) by blast
  qed simp
  have "\<exists>l. run_statement empty_db (hd DDL_V1) no_layout = Inr l \<and> map_of (lo_tables l) ''singularmem_meta'' \<noteq> None \<and>
      run_statements empty_db (tl DDL_V1) l = Inr (layout_of ''1'')"
    using ddl_v1 by (simp add: DDL_V1_def layout_simps)
  then have 1: "map_of (lo_tables (layout_of ''1'')) ''singularmem_meta'' \<noteq> None" using ns by blast
  note 2 = ns[OF 1 ddl_1_2] note 3 = ns[OF 2 ddl_2_3] note 4 = ns[OF 3 ddl_3_4]
  show "w \<in> {''1'', ''2'', ''3'', ''4''} \<Longrightarrow> ?thesis" using 1 2 3 4 by blast
qed

section \<open>Transactions\<close>

lemma sql_call_cases:
  "sql_call err c = (r, c') \<Longrightarrow> cn_file c' = cn_file c \<and> (\<forall>e. r = Inl e \<longrightarrow> (\<exists>m. e = err m \<and> Some m \<in> set (cn_faults c))) \<and>
     set (cn_faults c') \<subseteq> set (cn_faults c)"
  by (cases "cn_faults c") (auto simp: sql_call_def split: list.splits option.splits)

text \<open>\<open>quiet c\<close>: no call on the connection will fail.\<close>

definition quiet :: "conn \<Rightarrow> bool" where
  "quiet c \<longleftrightarrow> set (cn_faults c) \<subseteq> {None}"

lemma quiet_file [simp]: "quiet (c\<lparr>cn_file := f\<rparr>) = quiet c"
  by (simp add: quiet_def)

lemma sql_call_file: "sql_call err c = (r, c') \<Longrightarrow> cn_file c' = cn_file c"
  using sql_call_cases by blast

lemma sql_call_quiet: "sql_call err c = (r, c') \<Longrightarrow> quiet c \<Longrightarrow> r = Inr () \<and> quiet c'"
  using sql_call_cases[of err c r c'] by (cases r) (auto simp: quiet_def)

lemma conn_bindE:
  assumes "conn_bind m k c = (r, c')"
  obtains e where "m c = (Inl e, c')" "r = Inl e" | x c1 where "m c = (Inr x, c1)" "k x c1 = (r, c')"
  using assms by (cases "m c"; cases "fst (m c)") (auto simp: conn_bind_def)

lemma execute_batch_cases:
  "execute_batch err sts c = (r, c') \<Longrightarrow>
     df_rows (cn_file c') = df_rows (cn_file c) \<and> df_meta (cn_file c') = df_meta (cn_file c) \<and>
     (r = Inr () \<longrightarrow> run_statements (df_rows (cn_file c)) sts (df_layout (cn_file c)) = Inr (df_layout (cn_file c'))) \<and>
     (\<forall>e. r = Inl e \<longrightarrow> (\<exists>m. e = err m)) \<and>
     (quiet c \<longrightarrow> (\<exists>l. run_statements (df_rows (cn_file c)) sts (df_layout (cn_file c)) = Inr l) \<longrightarrow> r = Inr () \<and> quiet c')"
proof (induction err sts c arbitrary: r c' rule: execute_batch.induct)
  case (2 err st sts c)
  from 2(2)[unfolded execute_batch.simps] show ?case
  proof (cases rule: conn_bindE)
    case (1 e)
    then show ?thesis using sql_call_cases[of err c r c'] sql_call_quiet[of err c r c'] by auto
  next
    case (2 x c1)
    note f = sql_call_file[OF 2(1)] and q = sql_call_quiet[OF 2(1)]
    show ?thesis
    proof (cases "run_statement (df_rows (cn_file c1)) st (df_layout (cn_file c1))")
      case (Inl e) then show ?thesis using 2(2) f by (auto simp: rbind_def)
    next
      case (Inr l)
      from 2(2) Inr have "execute_batch err sts (c1\<lparr>cn_file := (cn_file c1)\<lparr>df_layout := l\<rparr>\<rparr>) = (r, c')" by simp
      from "2.IH"[OF Inr this] Inr f q show ?thesis by (auto simp: rbind_def quiet_def)
    qed
  qed
qed simp

lemma read_version_cases:
  assumes "read_format_version c = (r, c')" "file_at v (cn_file c)"
  shows "cn_file c' = cn_file c \<and> (\<forall>w. r = Inr w \<longrightarrow> w = v) \<and> (quiet c \<longrightarrow> r = Inr v \<and> quiet c')"
  using assms(1)[unfolded read_format_version_def]
proof (cases rule: conn_bindE)
  case (1 e) then show ?thesis using sql_call_file[OF 1(1)] sql_call_quiet[OF 1(1)] by auto
next
  case (2 x c1)
  note f = sql_call_file[OF 2(1)] and q = sql_call_quiet[OF 2(1)]
  show ?thesis
  proof (cases v)
    case None then show ?thesis using 2(2) f q assms(2) by (auto simp: file_at_def no_layout_def)
  next
    case (Some w)
    then have t: "map_of (lo_tables (df_layout (cn_file c1))) ''singularmem_meta'' \<noteq> None"
      using assms(2) f meta_table[of w] by (simp add: file_at_def)
    with 2(2) have "conn_bind (sql_call (\<lambda>_. Sqlite ''reading format_version meta row''))
        (\<lambda>_ c. (Inr (map_of (df_meta (cn_file c)) ''format_version''), c)) c1 = (r, c')" by auto
    then show ?thesis
    proof (cases rule: conn_bindE)
      case (1 e) then show ?thesis using sql_call_file[OF 1(1)] sql_call_quiet[OF 1(1)] f q by auto
    next
      case (2 y c2)
      then show ?thesis using sql_call_file[OF 2(1)] sql_call_quiet[OF 2(1)] f q assms(2) Some by (auto simp: file_at_def)
    qed
  qed
qed

lemma map_err_cases:
  "map_err f m c = (r, c') \<Longrightarrow> \<exists>r0. m c = (r0, c') \<and> r = map_sum f id r0"
  by (cases "m c") (auto simp: map_err_def)

text \<open>
  What a transaction does to a file: \<open>moves v w f f'\<close> if the file may go from version \<open>v\<close> to \<open>w\<close>; the
  rows stay.
\<close>

definition moves :: "string option \<Rightarrow> string option \<Rightarrow> db_file \<Rightarrow> db_file \<Rightarrow> bool" where
  "moves v w f f' \<longleftrightarrow> df_rows f' = df_rows f \<and> (f' = f \<or> file_at v f \<and> file_at w f')"

lemma in_txE:
  assumes "in_tx m c = (r, c')"
  obtains e c1 where "m c = (Inl e, c1)" "r = Inl e" "c' = c1\<lparr>cn_file := cn_file c\<rparr>" | x where "m c = (Inr x, c')" "r = Inr x"
  using assms by (cases "m c"; cases "fst (m c)") (auto simp: in_tx_def)

lemma update_version_cases:
  "update_version err w c = (r, c') \<Longrightarrow> r = Inr () \<Longrightarrow>
     cn_file c' = (cn_file c)\<lparr>df_meta := map (\<lambda>(k, u). if k = ''format_version'' then (k, w) else (k, u)) (df_meta (cn_file c))\<rparr>"
  unfolding update_version_def by (erule conn_bindE) (auto dest: sql_call_file)

lemma update_version_quiet: "update_version err w c = (r, c') \<Longrightarrow> quiet c \<Longrightarrow> r = Inr () \<and> quiet c'"
  unfolding update_version_def by (erule conn_bindE) (auto dest: sql_call_quiet)

lemma map_of_replaced:
  "map_of m k = Some v \<Longrightarrow> map_of (map (\<lambda>(k', u). if k' = k then (k', w) else (k', u)) m) k = Some w"
  by (induction m) (auto split: if_splits)

text \<open>One migration: the file moves from \<open>from\<close> to \<open>to\<close> if it was there and no call fails.\<close>

lemma run_migration_cases:
  assumes "run_migration shown from to ddl c = (r, c')" "file_at v (cn_file c)" "unique_rows (df_rows (cn_file c))"
    "run_statements empty_db ddl (layout_of from) = Inr (layout_of to)" "to \<in> {''1'', ''2'', ''3'', ''4''}"
  shows "df_rows (cn_file c') = df_rows (cn_file c) \<and>
    (\<forall>e. r = Inl e \<longrightarrow> cn_file c' = cn_file c \<and> (\<exists>why. e = Migration from to why)) \<and>
    (r = Inr () \<longrightarrow> (if v = Some from then file_at (Some to) (cn_file c') else cn_file c' = cn_file c)) \<and>
    (quiet c \<longrightarrow> r = Inr () \<and> quiet c')"
proof -
  let ?err = "Migration from to"
  from assms(1)[unfolded run_migration_def] show ?thesis
  proof (cases rule: conn_bindE)
    case (1 e) then show ?thesis using sql_call_cases[OF 1(1)] sql_call_quiet[OF 1(1)] by auto
  next
    case (2 x c1)
    note f1 = sql_call_file[OF 2(1)] and q1 = sql_call_quiet[OF 2(1)]
    from 2(2) show ?thesis
    proof (cases rule: conn_bindE)
      case (1 e)
      from map_err_cases[OF 1(1)] obtain r0 where r0: "read_format_version c1 = (r0, c')" "Inl e = map_sum (\<lambda>e. ?err (shown e)) id r0" by blast
      then show ?thesis using 1(2) f1 q1 read_version_cases[OF r0(1), of v] assms(2) by (cases r0) auto
    next
      case (2 w c2)
      from map_err_cases[OF 2(1)] obtain r0 where r0: "read_format_version c1 = (r0, c2)" "Inr w = map_sum (\<lambda>e. ?err (shown e)) id r0" by blast
      then have w: "w = v" "cn_file c2 = cn_file c" "quiet c1 \<longrightarrow> quiet c2"
        using read_version_cases[OF r0(1), of v] f1 assms(2) by (cases r0; simp)+
      show ?thesis
      proof (cases "v = Some from")
        case False
        then have "sql_call ?err c2 = (r, c')" using 2(2) w by simp
        then show ?thesis using sql_call_cases[of ?err c2 r c'] sql_call_quiet[of ?err c2 r c'] w q1 False by auto
      next
        case True
        let ?body = "conn_bind (execute_batch ?err ddl) (\<lambda>_. conn_bind (update_version ?err to) (\<lambda>_. sql_call ?err))"
        from True 2(2) w have "in_tx ?body c2 = (r, c')" by simp
        then obtain cb where b: "?body c2 = (r, cb)" "c' = (if \<exists>e. r = Inl e then cb\<lparr>cn_file := cn_file c2\<rparr> else cb)"
          by (cases rule: in_txE) auto
        have ok: "run_statements (df_rows (cn_file c2)) ddl (df_layout (cn_file c2)) = Inr (layout_of to)"
          using assms(2,4) True w run_statements_rows[OF assms(3)] by (simp add: file_at_def)
        from b(1) have "(\<forall>e. r = Inl e \<longrightarrow> (\<exists>why. e = ?err why)) \<and> (quiet c2 \<longrightarrow> r = Inr () \<and> quiet cb) \<and>
            (r = Inr () \<longrightarrow> df_rows (cn_file cb) = df_rows (cn_file c2) \<and> file_at (Some to) (cn_file cb))"
        proof (cases rule: conn_bindE)
          case (1 e) then show ?thesis using execute_batch_cases[OF 1(1)] ok by auto
        next
          case (2 x c3)
          note e = execute_batch_cases[OF 2(1)]
          from 2(2) show ?thesis
          proof (cases rule: conn_bindE)
            case (1 e)
            then show ?thesis using update_version_quiet[OF 1(1)] e ok
              by (auto simp: update_version_def elim!: conn_bindE dest: sql_call_cases)
          next
            case (2 y c4)
            have "cn_file cb = (cn_file c3)\<lparr>df_meta := map (\<lambda>(k, u). if k = ''format_version'' then (k, to) else (k, u)) (df_meta (cn_file c3))\<rparr>"
              using update_version_cases[OF 2(1)] sql_call_file[OF 2(2)] by simp
            moreover have "map_of (df_meta (cn_file c3)) ''format_version'' = Some from"
              using e assms(2) True w by (simp add: file_at_def)
            moreover have "df_layout (cn_file c3) = layout_of to" using e ok by auto
            ultimately show ?thesis
              using e ok sql_call_cases[OF 2(2)] sql_call_quiet[OF 2(2)] update_version_quiet[OF 2(1)] assms(5)
              by (auto simp: file_at_def map_of_replaced)
          qed
        qed
        then show ?thesis using b(2) w q1 True by (cases r) auto
      qed
    qed
  qed
qed

lemma insert_meta_cases:
  assumes "insert_meta ctx k w c = (r, c')" "k \<notin> set (map fst (df_meta (cn_file c)))"
  shows "(\<forall>e. r = Inl e \<longrightarrow> e = Sqlite ctx) \<and> (quiet c \<longrightarrow> r = Inr () \<and> quiet c') \<and>
    (r = Inr () \<longrightarrow> cn_file c' = (cn_file c)\<lparr>df_meta := df_meta (cn_file c) @ [(k, w)]\<rparr>)"
  using assms(1)[unfolded insert_meta_def]
proof (cases rule: conn_bindE)
  case (1 e) then show ?thesis using sql_call_cases[OF 1(1)] sql_call_quiet[OF 1(1)] by auto
next
  case (2 x c1)
  then show ?thesis using sql_call_file[OF 2(1)] sql_call_quiet[OF 2(1)] assms(2) by (auto split: if_splits)
qed

text \<open>The bootstrap: a new file becomes one of the current version, any other is left as it was.\<close>

lemma bootstrap_body:
  assumes "conn_bind (execute_batch (\<lambda>_. Sqlite ''applying v4 schema'') DDL_V4) (\<lambda>_.
       conn_bind (insert_meta ''writing format_version meta row'' ''format_version'' FORMAT_VERSION) (\<lambda>_.
       conn_bind (insert_meta ''writing created_at meta row'' ''created_at'' created) (\<lambda>_.
       sql_call (\<lambda>_. Sqlite ''committing fresh-store bootstrap'')))) c = (r, c')"
    "file_at None (cn_file c)" "unique_rows (df_rows (cn_file c))"
  shows "(\<forall>e. r = Inl e \<longrightarrow> (\<exists>why. e = Sqlite why)) \<and> (quiet c \<longrightarrow> r = Inr () \<and> quiet c') \<and>
    (r = Inr () \<longrightarrow> df_rows (cn_file c') = df_rows (cn_file c) \<and> file_at (Some FORMAT_VERSION) (cn_file c'))"
proof -
  have ok: "run_statements (df_rows (cn_file c)) DDL_V4 (df_layout (cn_file c)) = Inr (layout_of ''4'')"
    using assms(2) ddl_v4 run_statements_rows[OF assms(3)] by (simp add: file_at_def)
  from assms(1) show ?thesis
  proof (cases rule: conn_bindE)
    case (1 e) then show ?thesis using execute_batch_cases[OF 1(1)] ok by auto
  next
    case (2 x c1)
    note e = execute_batch_cases[OF 2(1)]
    have m: "df_meta (cn_file c1) = []" using e assms(2) by (simp add: file_at_def)
    from 2(2) show ?thesis
    proof (cases rule: conn_bindE)
      case (1 e') then show ?thesis using insert_meta_cases[OF 1(1)] m e ok by auto
    next
      case (2 y c2)
      have i: "cn_file c2 = (cn_file c1)\<lparr>df_meta := [(''format_version'', FORMAT_VERSION)]\<rparr>" "quiet c1 \<longrightarrow> quiet c2"
        using insert_meta_cases[OF 2(1)] m by auto
      from 2(2) show ?thesis
      proof (cases rule: conn_bindE)
        case (1 e') then show ?thesis using insert_meta_cases[OF 1(1)] i e ok by auto
      next
        case (2 z c3)
        have "cn_file c3 = (cn_file c1)\<lparr>df_meta := [(''format_version'', FORMAT_VERSION), (''created_at'', created)]\<rparr>"
          "quiet c2 \<longrightarrow> quiet c3"
          using insert_meta_cases[OF 2(1)] i by auto
        then show ?thesis using sql_call_cases[OF 2(2)] sql_call_quiet[OF 2(2)] e ok i
          by (auto simp: file_at_def FORMAT_VERSION_def)
      qed
    qed
  qed
qed

lemma apply_current_cases:
  assumes "apply_current created c = (r, c')" "file_at v (cn_file c)" "unique_rows (df_rows (cn_file c))"
  shows "df_rows (cn_file c') = df_rows (cn_file c) \<and> (\<forall>e. r = Inl e \<longrightarrow> cn_file c' = cn_file c \<and> (\<exists>why. e = Sqlite why)) \<and>
    (r = Inr () \<longrightarrow> (if v = None then file_at (Some FORMAT_VERSION) (cn_file c') else cn_file c' = cn_file c)) \<and>
    (quiet c \<longrightarrow> r = Inr () \<and> quiet c')"
  using assms(1)[unfolded apply_current_def]
proof (cases rule: conn_bindE)
  case (1 e) then show ?thesis using sql_call_cases[OF 1(1)] sql_call_quiet[OF 1(1)] by auto
next
  case (2 x c1)
  note f1 = sql_call_file[OF 2(1)] and q1 = sql_call_quiet[OF 2(1)]
  from 2(2) show ?thesis
  proof (cases rule: conn_bindE)
    case (1 e)
    have "\<exists>why. e = Sqlite why" using 1(1)
      by (auto simp: read_format_version_def elim!: conn_bindE dest!: sql_call_cases split: if_splits)
    then show ?thesis using read_version_cases[OF 1(1), of v] f1 q1 1(2) assms(2) by auto
  next
    case (2 w c2)
    have w: "w = v" "cn_file c2 = cn_file c" "quiet c1 \<longrightarrow> quiet c2"
      using read_version_cases[OF 2(1), of v] f1 assms(2) by auto
    show ?thesis
    proof (cases v)
      case (Some u)
      then have "sql_call (\<lambda>_. Sqlite ''rolling back a bootstrap another process already did'') c2 = (r, c')"
        using 2(2) w by simp
      from sql_call_cases[OF this] sql_call_quiet[OF this] show ?thesis using w q1 Some by auto
    next
      case None
      from 2(2) w None have "in_tx (conn_bind (execute_batch (\<lambda>_. Sqlite ''applying v4 schema'') DDL_V4) (\<lambda>_.
         conn_bind (insert_meta ''writing format_version meta row'' ''format_version'' FORMAT_VERSION) (\<lambda>_.
         conn_bind (insert_meta ''writing created_at meta row'' ''created_at'' created) (\<lambda>_.
         sql_call (\<lambda>_. Sqlite ''committing fresh-store bootstrap''))))) c2 = (r, c')" by simp
      then show ?thesis
      proof (cases rule: in_txE)
        case (1 e cb)
        with bootstrap_body[OF 1(1)] assms(2,3) None w q1 show ?thesis by auto
      next
        case (2 y)
        with bootstrap_body[OF 2(1)] assms(2,3) None w q1 show ?thesis by auto
      qed
    qed
  qed
qed

text \<open>
  Every transaction of an opening, from the version it starts at (the bootstrap from none) to the one
  it ends at; on any other version it does nothing.
\<close>

fun step_from :: "open_step \<Rightarrow> string option" where
  "step_from (Bootstrap t) = None"
| "step_from Migrate_1_2 = Some ''1''"
| "step_from Migrate_2_3 = Some ''2''"
| "step_from Migrate_3_4 = Some ''3''"

fun step_to :: "open_step \<Rightarrow> string" where
  "step_to (Bootstrap t) = ''4''"
| "step_to Migrate_1_2 = ''2''"
| "step_to Migrate_2_3 = ''3''"
| "step_to Migrate_3_4 = ''4''"

lemma run_opening_cases:
  assumes "run_opening shown a c = (r, c')" "file_at v (cn_file c)" "unique_rows (df_rows (cn_file c))"
  shows "df_rows (cn_file c') = df_rows (cn_file c) \<and> (\<forall>e. r = Inl e \<longrightarrow> cn_file c' = cn_file c) \<and>
    (r = Inr () \<longrightarrow> (if v = step_from a then file_at (Some (step_to a)) (cn_file c') else cn_file c' = cn_file c)) \<and>
    (quiet c \<longrightarrow> r = Inr () \<and> quiet c')"
proof (cases a)
  case (Bootstrap t)
  then show ?thesis using apply_current_cases[of t c r c' v] assms by (auto simp: FORMAT_VERSION_def)
next
  case Migrate_1_2
  then show ?thesis using run_migration_cases[OF _ assms(2,3) ddl_1_2] assms(1) by (auto simp: migrate_1_to_2_def)
next
  case Migrate_2_3
  then show ?thesis using run_migration_cases[OF _ assms(2,3) ddl_2_3] assms(1) by (auto simp: migrate_2_to_3_def)
next
  case Migrate_3_4
  then show ?thesis using run_migration_cases[OF _ assms(2,3) ddl_3_4] assms(1) by (auto simp: migrate_3_to_4_def)
qed

end
