(* ===== verification/Open_Race.thy ===== *)
theory Open_Race
  imports Migrations
begin

text \<open>
  Openings of one file, alone and in a race: what a call of \<open>open_inner\<close> leaves behind, and the step
  relation in which any number of processes open, migrate and write the same file, interleaved
  between transactions.
\<close>

section \<open>One opening\<close>

text \<open>\<open>due v as\<close>: a process that still has the transactions \<open>as\<close> to run may find the file at \<open>v\<close>.\<close>

fun due :: "string option \<Rightarrow> open_step list \<Rightarrow> bool" where
  "due v [] = (v = Some ''4'')"
| "due v (a # as) = (due (Some (step_to a)) as \<and> (v = step_from a \<or> due v as))"

text \<open>Where a transaction takes a file.\<close>

definition step_version :: "open_step \<Rightarrow> string option \<Rightarrow> string option" where
  "step_version a v = (if v = step_from a then Some (step_to a) else v)"

lemma due_step:
  "due v (a # as) \<Longrightarrow> due (step_version a v) as" "age v \<le> age (step_version a v)"
  by (auto simp: step_version_def simp del: age.simps) (cases a; simp)

lemma step_from_to: "step_from a = step_from b \<Longrightarrow> step_to a = step_to b" "step_from a \<noteq> Some ''4''"
  by (cases a; cases b; simp)+

lemma due_other: "due v as \<Longrightarrow> due (step_version b v) as"
proof (induction as)
  case (Cons a as)
  then show ?case using step_from_to(1)[of a b] by (auto simp: step_version_def split: if_splits)
qed (auto simp: step_version_def dest: step_from_to(2)[THEN notE, OF sym])

lemma due_plan: "opening_plan t v = Inr as \<Longrightarrow> due v as"
  by (auto simp: opening_plan_def FORMAT_VERSION_def split: option.splits if_splits)

lemma known_plan: "file_at v f \<Longrightarrow> \<exists>as. opening_plan t v = Inr as"
  by (auto simp: opening_plan_def file_at_def FORMAT_VERSION_def split: option.splits)

lemma run_opening_version:
  assumes "run_opening shown a c = (r, c')" "file_at v (cn_file c)" "unique_rows (df_rows (cn_file c))"
  shows "df_rows (cn_file c') = df_rows (cn_file c)"
    "r = Inr () \<Longrightarrow> file_at (step_version a v) (cn_file c')" "r = Inl e \<Longrightarrow> cn_file c' = cn_file c"
    "quiet c \<Longrightarrow> r = Inr () \<and> quiet c'"
  using run_opening_cases[OF assms] assms(2) by (auto simp: step_version_def)

lemma run_openings_cases:
  "run_openings shown as c = (r, c') \<Longrightarrow> due v as \<Longrightarrow> file_at v (cn_file c) \<Longrightarrow> unique_rows (df_rows (cn_file c)) \<Longrightarrow>
     \<exists>w. file_at w (cn_file c') \<and> age v \<le> age w \<and> df_rows (cn_file c') = df_rows (cn_file c) \<and>
       (r = Inr () \<longrightarrow> w = Some ''4'') \<and> (quiet c \<longrightarrow> r = Inr ())"
proof (induction as arbitrary: c v)
  case Nil
  then show ?case by auto
next
  case (Cons a as)
  from Cons.prems(1)[unfolded run_openings.simps] show ?case
  proof (cases rule: conn_bindE)
    case (1 e)
    from run_opening_version[OF 1(1) Cons.prems(3,4)] 1(2) Cons.prems(3) show ?thesis
      by (intro exI[of _ v]) auto
  next
    case (2 x c1)
    note s = run_opening_version[OF 2(1) Cons.prems(3,4)]
    have u: "file_at (step_version a v) (cn_file c1)" "unique_rows (df_rows (cn_file c1))"
      using s Cons.prems(4) by auto
    from Cons.IH[OF 2(2) due_step(1)[OF Cons.prems(2)] u] obtain w where
      "file_at w (cn_file c')" "age (step_version a v) \<le> age w" "df_rows (cn_file c') = df_rows (cn_file c1)"
      "r = Inr () \<longrightarrow> w = Some ''4''" "quiet c1 \<longrightarrow> r = Inr ()" by blast
    then show ?thesis using s due_step(2)[of v a] by (intro exI[of _ w]) auto
  qed
qed

text \<open>
  \<open>upgrade v ro ok c r c'\<close>: an opening that found the file at \<open>v\<close> ended with \<open>r\<close> on \<open>c'\<close>; it succeeds
  when no call fails and \<open>ok\<close> holds.
\<close>

definition upgrade :: "string option \<Rightarrow> bool \<Rightarrow> bool \<Rightarrow> conn \<Rightarrow> error + unit \<Rightarrow> conn \<Rightarrow> bool" where
  "upgrade v ro ok c r c' \<longleftrightarrow>
     (\<exists>w. file_at w (cn_file c') \<and> age v \<le> age w \<and> (r = Inr () \<longrightarrow> w = Some ''4'')) \<and>
     df_rows (cn_file c') = df_rows (cn_file c) \<and> (ro \<longrightarrow> cn_file c' = cn_file c) \<and> (quiet c \<and> ok \<longrightarrow> r = Inr ())"

lemma upgrade_stays:
  "file_at v (cn_file c) \<Longrightarrow> cn_file c' = cn_file c \<Longrightarrow> \<not> (quiet c \<and> ok) \<Longrightarrow> upgrade v ro ok c (Inl e) c'"
  by (auto simp: upgrade_def)

lemma upgrade_same: "cn_file c1 = cn_file c \<Longrightarrow> (quiet c \<Longrightarrow> quiet c1) \<Longrightarrow> upgrade v ro ok c1 r c' \<Longrightarrow> upgrade v ro ok c r c'"
  by (auto simp: upgrade_def)

lemma upgrade_call:
  assumes "conn_bind (sql_call err) k c = (r, c')" "file_at v (cn_file c)"
    "\<And>c1. k () c1 = (r, c') \<Longrightarrow> cn_file c1 = cn_file c \<Longrightarrow> upgrade v ro ok c1 r c'"
  shows "upgrade v ro ok c r c'"
  using assms(1)
proof (cases rule: conn_bindE)
  case (1 e)
  then show ?thesis using upgrade_stays[OF assms(2)] sql_call_file[OF 1(1)] sql_call_quiet[OF 1(1)] by auto
next
  case (2 x c1)
  note f = sql_call_file[OF 2(1)]
  show ?thesis using upgrade_same[OF f _ assms(3)] sql_call_quiet[OF 2(1)] 2(2) f by auto
qed

lemma upgrade_check:
  assumes "conn_bind (\<lambda>c. (q, c)) k c = (r, c')" "file_at v (cn_file c)" "ok \<Longrightarrow> q = Inr ()"
    "q = Inr () \<Longrightarrow> k () c = (r, c') \<Longrightarrow> upgrade v ro ok c r c'"
  shows "upgrade v ro ok c r c'"
  using assms(1)
proof (cases rule: conn_bindE)
  case (1 e) then show ?thesis using upgrade_stays[OF assms(2)] assms(3) by auto
qed (use assms(4) in auto)

lemma open_writable_upgrade:
  assumes "open_writable shown t c = (r, c')" "file_at v (cn_file c)" "unique_rows (df_rows (cn_file c))"
  shows "upgrade v False True c r c'"
  using assms(1)[unfolded open_writable_def]
proof (cases rule: conn_bindE)
  case (1 e) then show ?thesis using read_version_cases[OF 1(1) assms(2)] upgrade_stays[OF assms(2)] by auto
next
  case (2 u c1)
  have u: "u = v" "cn_file c1 = cn_file c" "quiet c \<longrightarrow> quiet c1" using read_version_cases[OF 2(1) assms(2)] by auto
  obtain as where as: "opening_plan t v = Inr as" using known_plan[OF assms(2)] by blast
  then have "run_openings shown as c1 = (r, c')" using 2(2) u by simp
  from run_openings_cases[OF this due_plan[OF as]] assms(2,3) u show ?thesis by (auto simp: upgrade_def)
qed

lemma check_version_upgrade:
  assumes "check_version c = (r, c')" "file_at v (cn_file c)"
  shows "upgrade v True (v = Some ''4'') c r c'"
  using assms(1)[unfolded check_version_def]
proof (cases rule: conn_bindE)
  case (1 e) then show ?thesis using read_version_cases[OF 1(1) assms(2)] upgrade_stays[OF assms(2)] by auto
next
  case (2 u c1)
  then show ?thesis using read_version_cases[OF 2(1) assms(2)] assms(2)
    by (auto simp: upgrade_def FORMAT_VERSION_def split: option.splits if_splits)
qed

lemma open_inner_upgrade:
  assumes "open_inner en ro c = (r, c')" "file_at v (cn_file c)" "unique_rows (df_rows (cn_file c))"
  shows "upgrade v ro (open_checks en ro = Inr () \<and> (if ro then v = Some ''4'' else set_wal_journal_mode (oe_wal en) = Inr ())) c r c'"
    (is "upgrade v ro ?ok c r c'")
proof -
  let ?last = "if ro then check_version else open_writable (oe_display en) (oe_now en)"
  let ?fk = "conn_bind (sql_call (\<lambda>_. Sqlite ''enabling foreign_keys pragma'')) (\<lambda>_. ?last)"
  let ?wal = "conn_bind (\<lambda>c. (if ro then Inr () else set_wal_journal_mode (oe_wal en), c)) (\<lambda>_. ?fk)"
  let ?busy = "conn_bind (sql_call (\<lambda>_. Sqlite ''setting busy_timeout'')) (\<lambda>_. ?wal)"
  let ?open = "conn_bind (sql_call (\<lambda>_. Sqlite ''opening database file'')) (\<lambda>_. ?busy)"
  have last: "upgrade v ro ?ok d r c'" if "?last d = (r, c')" "cn_file d = cn_file c" for d
    using that assms(2,3) check_version_upgrade[of d r c' v] open_writable_upgrade[of _ _ d r c' v]
    by (cases ro) (auto simp: upgrade_def)
  have fk: "upgrade v ro ?ok d r c'" if "?fk d = (r, c')" "cn_file d = cn_file c" for d
    by (rule upgrade_call[OF that(1)]) (use that(2) assms(2) last in auto)
  have wal: "upgrade v ro ?ok d r c'" if "?wal d = (r, c')" "cn_file d = cn_file c" for d
    by (rule upgrade_check[OF that(1)]) (use that(2) assms(2) fk in \<open>auto split: if_splits\<close>)
  have busy: "upgrade v ro ?ok d r c'" if "?busy d = (r, c')" "cn_file d = cn_file c" for d
    by (rule upgrade_call[OF that(1)]) (use that(2) assms(2) wal in auto)
  have op: "upgrade v ro ?ok d r c'" if "?open d = (r, c')" "cn_file d = cn_file c" for d
    by (rule upgrade_call[OF that(1)]) (use that(2) assms(2) busy in auto)
  show ?thesis
    by (rule upgrade_check[OF assms(1)[unfolded open_inner_def]]) (use assms(2) op in auto)
qed

text \<open>
  C7: opening a store upgrades it or leaves it intact. Whatever the version of a file and whichever SQL
  call fails, a writable opening keeps every row and leaves the tables and indexes of one version, not
  an older one; if it succeeds, that is version 4. When no call fails it succeeds, so an interrupted
  migration is completed by any later opening. A read-only opening changes nothing, and succeeds only
  at version 4.
\<close>

theorem opening_upgrades_or_keeps:
  assumes "open_inner en ro c = (r, c')" "file_at v (cn_file c)" "unique_rows (df_rows (cn_file c))"
  shows "(\<exists>w. file_at w (cn_file c') \<and> age v \<le> age w \<and> (r = Inr () \<longrightarrow> w = Some ''4'')) \<and>
    df_rows (cn_file c') = df_rows (cn_file c) \<and> (ro \<longrightarrow> cn_file c' = cn_file c) \<and>
    (cn_faults c = [] \<and> open_checks en ro = Inr () \<and>
       (if ro then v = Some ''4'' else set_wal_journal_mode (oe_wal en) = Inr ()) \<longrightarrow> r = Inr ())"
  using open_inner_upgrade[OF assms] by (auto simp: upgrade_def quiet_def)

section \<open>Many openings at once\<close>

text \<open>
  Where each process is: it has not read the version yet, has transactions left to run, has the store
  open, or was refused. Processes are numbered, and there is no bound on how many there are.
\<close>

datatype phase = Starting | Working "open_step list" | Ready | Refused error

record race =
  ra_file :: db_file
  ra_phase :: "nat \<Rightarrow> phase"

text \<open>What the version that was read, or the answer of a transaction, makes of a process.\<close>

definition working :: "open_step list \<Rightarrow> phase" where
  "working as = (if as = [] then Ready else Working as)"

definition after_read :: "string \<Rightarrow> error + string option \<Rightarrow> phase" where
  "after_read t r = (case r of Inl e \<Rightarrow> Refused e
     | Inr v \<Rightarrow> (case opening_plan t v of Inl e \<Rightarrow> Refused e | Inr as \<Rightarrow> working as))"

definition after_answer :: "phase \<Rightarrow> error + unit \<Rightarrow> phase" where
  "after_answer ph r = (case r of Inl e \<Rightarrow> Refused e | Inr _ \<Rightarrow> ph)"

text \<open>
  One step of one process: \<open>BEGIN IMMEDIATE\<close> takes the write lock, so a transaction is a step of its
  own; a read outside a transaction is one too. A process that has the store open may write to it. The
  parameter \<open>ok\<close> restricts the faults of the calls of a step.
\<close>

inductive race_step :: "(error \<Rightarrow> string) \<Rightarrow> externals \<Rightarrow> (string option list \<Rightarrow> bool) \<Rightarrow> race \<Rightarrow> race \<Rightarrow> bool"
  for shown x ok where
  reads: "ra_phase R p = Starting \<Longrightarrow> ok fs \<Longrightarrow>
    read_format_version \<lparr>cn_file = ra_file R, cn_faults = fs\<rparr> = (r, c) \<Longrightarrow>
    race_step shown x ok R (R\<lparr>ra_phase := (ra_phase R)(p := after_read t r)\<rparr>)"
| checks: "ra_phase R p = Starting \<Longrightarrow> ok fs \<Longrightarrow>
    check_version \<lparr>cn_file = ra_file R, cn_faults = fs\<rparr> = (r, c) \<Longrightarrow>
    race_step shown x ok R (R\<lparr>ra_phase := (ra_phase R)(p := after_answer Ready r)\<rparr>)"
| migrates: "ra_phase R p = Working (a # as) \<Longrightarrow> ok fs \<Longrightarrow>
    run_opening shown a \<lparr>cn_file = ra_file R, cn_faults = fs\<rparr> = (r, c) \<Longrightarrow>
    race_step shown x ok R \<lparr>ra_file = cn_file c, ra_phase = (ra_phase R)(p := after_answer (working as) r)\<rparr>"
| writes: "ra_phase R p = Ready \<Longrightarrow> db s = df_rows (ra_file R) \<Longrightarrow> ext s = x \<Longrightarrow>
    race_step shown x ok R (R\<lparr>ra_file := (ra_file R)\<lparr>df_rows := db (run_write w s)\<rparr>\<rparr>)"

inductive raced :: "(error \<Rightarrow> string) \<Rightarrow> externals \<Rightarrow> (string option list \<Rightarrow> bool) \<Rightarrow> race \<Rightarrow> race \<Rightarrow> bool"
  for shown x ok R where
  start: "raced shown x ok R R"
| further: "raced shown x ok R S \<Longrightarrow> race_step shown x ok S T \<Longrightarrow> raced shown x ok R T"

section \<open>The invariant of the race\<close>

text \<open>Whoever is refused without a failing call opened read-only, before the file was at version 4.\<close>

definition refusals :: "error set" where
  "refusals = insert (UnsupportedFormatVersion ''<missing>'' FORMAT_VERSION)
     ((\<lambda>w. Migration w FORMAT_VERSION ''store is opened read-only; open it writable once to migrate'') ` {''1'', ''2'', ''3''})"

definition phase_ok :: "bool \<Rightarrow> string option \<Rightarrow> phase \<Rightarrow> bool" where
  "phase_ok sound v ph \<longleftrightarrow> (case ph of
     Starting \<Rightarrow> True | Working as \<Rightarrow> due v as | Ready \<Rightarrow> v = Some ''4''
   | Refused e \<Rightarrow> sound \<longrightarrow> e \<in> refusals)"

definition race_inv :: "externals \<Rightarrow> bool \<Rightarrow> string option \<Rightarrow> race \<Rightarrow> bool" where
  "race_inv x sound v R \<longleftrightarrow> file_at v (ra_file R) \<and> store_inv x (df_rows (ra_file R)) \<and>
     (\<forall>p. phase_ok sound v (ra_phase R p))"

lemma store_inv_unique: "store_inv x d \<Longrightarrow> unique_rows d"
  by (simp add: store_inv_def unique_rows_def wf_items_def ext_ids_def graph_inv_def wf_graph_def wf_entities_def)

lemma phase_ok_working: "phase_ok b v (working as) \<longleftrightarrow> due v as"
  by (auto simp: phase_ok_def working_def)

lemma phase_ok_other: "phase_ok b v ph \<Longrightarrow> phase_ok b (step_version a v) ph"
  using due_other[of v _ a] due_other[of v "[]" a] by (auto simp: phase_ok_def split: phase.splits)

lemma file_at_rows [simp]: "file_at v (f\<lparr>df_rows := d\<rparr>) = file_at v f"
  by (simp add: file_at_def split: option.split)

lemma read_phase:
  assumes "read_format_version c = (r, c')" "file_at v (cn_file c)" "sound \<Longrightarrow> quiet c"
  shows "phase_ok sound v (after_read t r)"
  using read_version_cases[OF assms(1,2)] assms(3) known_plan[OF assms(2), of t] due_plan[of t v]
  by (cases r) (auto simp: after_read_def phase_ok_working, auto simp: phase_ok_def)

lemma check_phase:
  assumes "check_version c = (r, c')" "file_at v (cn_file c)" "sound \<Longrightarrow> quiet c"
  shows "phase_ok sound v (after_answer Ready r)"
proof (cases r)
  case (Inr u)
  then show ?thesis using check_version_upgrade[OF assms(1,2)] assms(2)
    by (auto simp: upgrade_def after_answer_def phase_ok_def) (auto simp: file_at_def split: option.splits)
next
  case (Inl e)
  have "e \<in> refusals" if "sound"
    using assms(1)[unfolded check_version_def]
  proof (cases rule: conn_bindE)
    case (1 e')
    have "quiet c" using assms(3) that by simp
    with read_version_cases[OF 1(1) assms(2)] show ?thesis by simp
  next
    case (2 u c1)
    have u: "u = v" using read_version_cases[OF 2(1) assms(2)] by simp
    show ?thesis
    proof (cases v)
      case None then show ?thesis using 2(2) Inl u by (simp add: refusals_def)
    next
      case (Some w)
      then have "w \<in> {''1'', ''2'', ''3''} \<or> w = ''4''" using assms(2) by (simp add: file_at_def)
      then show ?thesis
      proof
        assume w: "w \<in> {''1'', ''2'', ''3''}"
        then have "e = Migration w FORMAT_VERSION ''store is opened read-only; open it writable once to migrate''"
          using 2(2) Inl u Some by simp
        then show ?thesis using w by (simp add: refusals_def)
      qed (use 2(2) Inl u Some in \<open>simp add: FORMAT_VERSION_def\<close>)
    qed
  qed
  then show ?thesis using Inl by (simp add: after_answer_def phase_ok_def)
qed

lemma race_step_ok:
  assumes "race_step shown x ok R R'" "race_inv x sound v R" "\<And>fs. sound \<Longrightarrow> ok fs \<Longrightarrow> set fs \<subseteq> {None}"
  shows "\<exists>w. race_inv x sound w R' \<and> age v \<le> age w \<and> extends (df_rows (ra_file R)) (df_rows (ra_file R'))"
  using assms(1)
proof (cases rule: race_step.cases)
  case (reads p fs r c t)
  have "phase_ok sound v (after_read t r)"
    using read_phase[OF reads(4), of v sound t] assms(2,3) reads(3) by (auto simp: race_inv_def quiet_def)
  then show ?thesis using assms(2) reads(1) by (intro exI[of _ v]) (auto simp: race_inv_def)
next
  case (checks p fs r c)
  have "phase_ok sound v (after_answer Ready r)"
    using check_phase[OF checks(4), of v sound] assms(2,3) checks(3) by (auto simp: race_inv_def quiet_def)
  then show ?thesis using assms(2) checks(1) by (intro exI[of _ v]) (auto simp: race_inv_def)
next
  case (migrates p a as fs r c)
  have f: "file_at v (ra_file R)" "store_inv x (df_rows (ra_file R))" "phase_ok sound v (ra_phase R q)" for q
    using assms(2) by (simp_all add: race_inv_def)
  from run_opening_version[OF migrates(4), of v] f store_inv_unique[OF f(2)]
  have s: "df_rows (cn_file c) = df_rows (ra_file R)" "r = Inr () \<Longrightarrow> file_at (step_version a v) (cn_file c)"
    "\<And>e. r = Inl e \<Longrightarrow> cn_file c = ra_file R" "sound \<Longrightarrow> r = Inr ()"
    using assms(3)[OF _ migrates(3)] by (auto simp: quiet_def)
  have d: "due v (a # as)" using f(3)[of p] migrates(2) by (simp add: phase_ok_def)
  show ?thesis
  proof (cases r)
    case (Inl e)
    then show ?thesis using s f migrates(1)
      by (intro exI[of _ v]) (auto simp: race_inv_def after_answer_def phase_ok_def)
  next
    case (Inr u)
    then show ?thesis using s f migrates(1) due_step(1)[OF d] due_step(2)[of v a] phase_ok_other[OF f(3), of a]
      by (intro exI[of _ "step_version a v"]) (auto simp: race_inv_def after_answer_def phase_ok_working)
  qed
next
  case (writes p s w)
  then show ?thesis using assms(2) write_ok[of s w]
    by (intro exI[of _ v]) (auto simp: race_inv_def)
qed

lemma raced_ok:
  assumes "raced shown x ok R S" "race_inv x sound v R" "\<And>fs. sound \<Longrightarrow> ok fs \<Longrightarrow> set fs \<subseteq> {None}"
  shows "\<exists>w. race_inv x sound w S \<and> age v \<le> age w \<and> extends (df_rows (ra_file R)) (df_rows (ra_file S))"
  using assms(1)
proof induction
  case start then show ?case using assms(2) by (intro exI[of _ v]) simp
next
  case (further S T)
  from further.IH obtain w where w: "race_inv x sound w S" "age v \<le> age w" "extends (df_rows (ra_file R)) (df_rows (ra_file S))"
    by blast
  from race_step_ok[OF further.hyps(2) w(1) assms(3)] obtain u where
    "race_inv x sound u T" "age w \<le> age u" "extends (df_rows (ra_file S)) (df_rows (ra_file T))" by blast
  then show ?case using w(2) extends_trans[OF w(3)] by (intro exI[of _ u]) auto
qed

lemma race_inv_start:
  assumes "file_at v (ra_file R)" "store_inv x (df_rows (ra_file R))" "\<forall>p. ra_phase R p = Starting"
  shows "race_inv x sound v R"
  using assms by (simp add: race_inv_def phase_ok_def)

text \<open>
  C5: processes that open one file at the same moment cannot harm it. From a file of any version, in
  whatever order any number of processes read the version, migrate, fail half-way and write, the file
  has at every moment the tables and indexes of exactly one version, never an older one than before;
  the invariant of the store holds and nothing that was stored is lost; and a process that has the
  store open has it open at version 4.
\<close>

theorem racing_opens_are_safe:
  assumes "raced shown x (\<lambda>_. True) R S" "file_at v (ra_file R)" "store_inv x (df_rows (ra_file R))"
    "\<forall>p. ra_phase R p = Starting"
  shows "\<exists>w. file_at w (ra_file S) \<and> age v \<le> age w \<and> store_inv x (df_rows (ra_file S)) \<and>
    extends (df_rows (ra_file R)) (df_rows (ra_file S)) \<and> (\<forall>p. ra_phase S p = Ready \<longrightarrow> w = Some ''4'')"
proof -
  from raced_ok[OF assms(1) race_inv_start[OF assms(2,3,4), of False]] obtain w where
    w: "race_inv x False w S" "age v \<le> age w" "extends (df_rows (ra_file R)) (df_rows (ra_file S))" by auto
  have "w = Some ''4''" if "ra_phase S p = Ready" for p
  proof -
    have "phase_ok False w (ra_phase S p)" using w(1) by (simp add: race_inv_def)
    then show ?thesis by (simp add: that phase_ok_def)
  qed
  then show ?thesis using w by (auto simp: race_inv_def)
qed

text \<open>
  C6: nobody loses the race. As long as the database answers every call, no process that opens the
  file for writing is ever refused because of what the others do: each one that has been refused
  opened it read-only before the file had reached version 4.
\<close>

theorem racing_opens_succeed:
  assumes "raced shown x (\<lambda>fs. set fs \<subseteq> {None}) R S" "file_at v (ra_file R)" "store_inv x (df_rows (ra_file R))"
    "\<forall>p. ra_phase R p = Starting" "ra_phase S p = Refused e"
  shows "e \<in> refusals"
proof -
  from raced_ok[OF assms(1) race_inv_start[OF assms(2,3,4), of True]] obtain w where "race_inv x True w S" by auto
  then have "phase_ok True w (ra_phase S p)" by (simp add: race_inv_def)
  then show ?thesis using assms(5) by (simp add: phase_ok_def)
qed

section \<open>A run\<close>

text \<open>A file of the first format, without rows, and a machine that answers every call.\<close>

definition old_file :: db_file where
  "old_file = \<lparr>df_layout = layout_of ''1'', df_meta = [(''format_version'', ''1'')], df_rows = empty_db\<rparr>"

definition calm_env :: open_env where
  "calm_env = \<lparr>oe_exists = True, oe_has_parent = True, oe_create_dirs = None, oe_wal = (\<lambda>_. (True, False)),
     oe_now = ''t'', oe_display = (\<lambda>_. ''e'')\<rparr>"

definition sample_race :: race where
  "sample_race = \<lparr>ra_file = old_file, ra_phase = (\<lambda>_. Starting)\<rparr>"

lemma old_file_simps [simp]: "df_rows old_file = empty_db" "file_at (Some ''1'') old_file"
  by (simp_all add: old_file_def file_at_def)

lemma sample_race_simps [simp]: "ra_file sample_race = old_file" "ra_phase sample_race p = Starting"
  by (simp_all add: sample_race_def)

lemma sample_inv: "store_inv sample_ext empty_db"
  using store_inv_empty[of sample_ext] graph_inv_sample(1) by (simp add: graph_inv_def)

lemma quiet_conn [simp]: "quiet \<lparr>cn_file = f, cn_faults = []\<rparr>"
  by (simp add: quiet_def)

lemma one_reads:
  assumes "ok []"
  shows "raced shown x ok sample_race (sample_race\<lparr>ra_phase := (\<lambda>_. Starting)(0 := Working [Migrate_1_2, Migrate_2_3, Migrate_3_4])\<rparr>)"
proof -
  obtain r c where r: "read_format_version \<lparr>cn_file = old_file, cn_faults = []\<rparr> = (r, c)" by (rule prod.exhaust)
  from read_version_cases[OF this, of "Some ''1''", unfolded conn.simps] quiet_conn[of old_file] old_file_simps(2)
  have "r = Inr (Some ''1'')" by blast
  then have a: "after_read ''t'' r = Working [Migrate_1_2, Migrate_2_3, Migrate_3_4]"
    by (simp add: after_read_def opening_plan_def FORMAT_VERSION_def working_def)
  have "race_step shown x ok sample_race (sample_race\<lparr>ra_phase := (ra_phase sample_race)(0 := after_read ''t'' r)\<rparr>)"
    using r assms by (intro race_step.reads) simp_all
  then have "raced shown x ok sample_race (sample_race\<lparr>ra_phase := (ra_phase sample_race)(0 := after_read ''t'' r)\<rparr>)"
    by (rule raced.further[OF raced.start])
  moreover have "ra_phase sample_race = (\<lambda>_. Starting)" by (simp add: sample_race_def)
  ultimately show ?thesis unfolding a by simp
qed

theorem opening_upgrades_or_keeps_witness:
  "fst (open_inner calm_env False \<lparr>cn_file = old_file, cn_faults = []\<rparr>) = Inr () \<and>
   file_at (Some ''4'') (cn_file (snd (open_inner calm_env False \<lparr>cn_file = old_file, cn_faults = []\<rparr>)))"
proof -
  obtain r c where rc: "open_inner calm_env False \<lparr>cn_file = old_file, cn_faults = []\<rparr> = (r, c)" by (rule prod.exhaust)
  have "open_checks calm_env False = Inr ()" "set_wal_journal_mode (oe_wal calm_env) = Inr ()"
    by (simp_all add: open_checks_def set_wal_journal_mode_def calm_env_def eval_nat_numeral)
  then have "r = Inr () \<and> file_at (Some ''4'') (cn_file c)"
    using opening_upgrades_or_keeps[OF rc, of "Some ''1''"] by simp blast
  then show ?thesis by (simp add: rc)
qed

theorem racing_opens_are_safe_witness:
  "\<exists>S w. raced (\<lambda>_. ''e'') sample_ext (\<lambda>_. True) sample_race S \<and> ra_phase S 0 \<noteq> Starting \<and> file_at w (ra_file S) \<and>
     store_inv sample_ext (df_rows (ra_file S))"
proof -
  let ?S = "sample_race\<lparr>ra_phase := (\<lambda>_. Starting)(0 := Working [Migrate_1_2, Migrate_2_3, Migrate_3_4])\<rparr>"
  have "raced (\<lambda>_. ''e'') sample_ext (\<lambda>_. True) sample_race ?S" by (rule one_reads) simp
  moreover from racing_opens_are_safe[OF this, of "Some ''1''"] sample_inv
  have "\<exists>w. file_at w (ra_file ?S) \<and> store_inv sample_ext (df_rows (ra_file ?S))" by auto
  ultimately show ?thesis by (intro exI[of _ ?S]) auto
qed

theorem racing_opens_succeed_witness:
  "\<exists>(S::race) e. ra_phase S 0 = Refused e \<and> e \<in> refusals"
proof -
  obtain r c where r: "check_version \<lparr>cn_file = old_file, cn_faults = []\<rparr> = (r, c)" by (rule prod.exhaust)
  have "r \<noteq> Inr ()" using check_version_upgrade[OF r, of "Some ''1''"] by (auto simp: upgrade_def file_at_def old_file_def)
  then obtain e where e: "r = Inl e" by (cases r) auto
  let ?S = "sample_race\<lparr>ra_phase := (ra_phase sample_race)(0 := after_answer Ready r)\<rparr>"
  have "race_step (\<lambda>_. ''e'') sample_ext (\<lambda>fs. set fs \<subseteq> {None}) sample_race ?S"
    using r by (intro race_step.checks) simp_all
  then have s: "raced (\<lambda>_. ''e'') sample_ext (\<lambda>fs. set fs \<subseteq> {None}) sample_race ?S" by (rule raced.further[OF raced.start])
  have "ra_phase ?S 0 = Refused e" by (simp add: e after_answer_def)
  moreover from racing_opens_succeed[OF s, of "Some ''1''" 0 e] this sample_inv have "e \<in> refusals" by simp
  ultimately show ?thesis by (intro exI[of _ ?S] exI[of _ e]) simp
qed

end
