(* ===== verification/Search_Types.thy ===== *)
theory Search_Types
  imports Core_Types
begin

text \<open>
  What the components of \<open>singularmem-search\<close> share: the errors of \<open>error.rs\<close>, the files they
  write, and a state-passing monad over them.

  A disk is a map from paths to file contents. Every system call is one numbered step, and a
  script says which steps fail and how many bytes of a failing write reach the file. A crash is
  the failure of a step after which no other call of that process is made, so a statement about
  every script is a statement about every crash point as well.
\<close>

type_synonym bytes = "8 word list"

datatype corruption = Reason string | Journal_Version "16 word" | Index_Format string

datatype search_error =
    Tantivy string
  | Query_Parse string
  | Index_Missing string
  | Index_Corrupted string corruption
  | Index_Schema_Mismatch string
  | Scope_Lookup_Missing
  | Search_Io string
  | Embedding string string
  | Model_Download string string
  | Invalid_Model_Files string string
  | Dim_Mismatch nat nat
  | Model_Mismatch string string string
  | Usearch string string
  | No_Indexes
  | Hybrid_Missing_Index string string
  | Panic string

text \<open>
  \<open>Panic\<close> is not a variant of the enum: it is the value of a call that reaches a failing \<open>expect\<close>.
  \<open>usize\<close> is 64 bits wide, as on every platform the program is released for.
\<close>

definition USIZE_MAX :: nat where "USIZE_MAX = 2 ^ 64 - 1"

section \<open>Bytes\<close>

text \<open>\<open>to_le_bytes\<close> and \<open>from_le_bytes\<close> of an integer of \<open>n\<close> bytes.\<close>

primrec le_bytes :: "nat \<Rightarrow> 'a :: len word \<Rightarrow> bytes" where
  "le_bytes 0 w = []"
| "le_bytes (Suc n) w = ucast w # le_bytes n (drop_bit 8 w)"

primrec of_le_bytes :: "bytes \<Rightarrow> 'a :: len word" where
  "of_le_bytes [] = 0"
| "of_le_bytes (b # bs) = or (ucast b) (push_bit 8 (of_le_bytes bs))"

named_theorems byte_simps "lengths and round trips of the byte encodings"

lemma length_le_bytes [simp, byte_simps]: "length (le_bytes n w) = n"
  by (induction n arbitrary: w) auto

lemma of_le_le_bytes: "of_le_bytes (le_bytes n w) = take_bit (8 * n) w"
proof (induction n arbitrary: w)
  case (Suc n)
  show ?case
  proof (rule bit_word_eqI)
    fix i assume "i < LENGTH('a)"
    then show "bit (of_le_bytes (le_bytes (Suc n) w) :: 'a word) i = bit (take_bit (8 * Suc n) w) i"
      by (auto simp: Suc bit_or_iff bit_push_bit_iff bit_take_bit_iff bit_drop_bit_eq bit_ucast_iff
          bit_imp_le_length)
  qed
qed simp

lemma le_bytes_inverse [byte_simps]:
  "LENGTH('a) \<le> 8 * n \<Longrightarrow> of_le_bytes (le_bytes n w) = (w :: 'a :: len word)"
  by (simp add: of_le_le_bytes take_bit_word_eq_self)

lemma nth_le_bytes: "k < n \<Longrightarrow> le_bytes n w ! k = ucast (drop_bit (8 * k) w)"
proof (induction n arbitrary: w k)
  case (Suc n)
  then show ?case by (cases k) (auto simp: drop_bit_drop_bit add.commute)
qed simp

lemma bit_of_le_bytes:
  "bit (of_le_bytes bs :: 'a :: len word) i \<longleftrightarrow>
     i < LENGTH('a) \<and> i < 8 * length bs \<and> bit (bs ! (i div 8)) (i mod 8)"
proof (induction bs arbitrary: i)
  case (Cons b bs)
  show ?case
  proof (cases "i < 8")
    case True
    then show ?thesis by (auto simp: bit_or_iff bit_push_bit_iff bit_ucast_iff dest: bit_imp_le_length)
  next
    case False
    then obtain k where k: "i = k + 8" by (metis add.commute le_Suc_ex not_less)
    have "\<not> bit b i" using False by (auto dest: bit_imp_le_length)
    moreover have "(k + 8) div 8 = Suc (k div 8)" by simp
    ultimately    show ?thesis
      by (auto simp: bit_or_iff bit_push_bit_iff bit_ucast_iff k Cons.IH)
  qed
qed simp

lemma of_le_bytes_inverse:
  assumes "8 * length bs \<le> LENGTH('a :: len)"
  shows "le_bytes (length bs) (of_le_bytes bs :: 'a word) = bs"
proof (rule nth_equalityI)
  fix k assume "k < length (le_bytes (length bs) (of_le_bytes bs :: 'a word))"
  then have k: "k < length bs" by simp
  have "bit (ucast (drop_bit (8 * k) (of_le_bytes bs :: 'a word)) :: 8 word) i = bit (bs ! k) i"
    if i: "i < 8" for i
  proof -
    have d: "(8 * k + i) div 8 = k" "(8 * k + i) mod 8 = i" using i by simp_all
    have "8 * k + i < 8 * length bs" using i k by linarith
    then show ?thesis using i assms
      by (simp add: bit_ucast_iff bit_drop_bit_eq bit_of_le_bytes d)
  qed
  then show "le_bytes (length bs) (of_le_bytes bs :: 'a word) ! k = bs ! k"
    unfolding nth_le_bytes[OF k] by (intro bit_word_eqI) simp
qed simp

text \<open>The bytes of a Rust string, and \<open>String::from_utf8\<close>'s test.\<close>

definition str_bytes :: "string \<Rightarrow> bytes" where "str_bytes s = map (\<lambda>c. word_of_nat (of_char c)) s"

definition bytes_str :: "bytes \<Rightarrow> string" where "bytes_str bs = map (\<lambda>b. char_of (unat b)) bs"

lemma bytes_str_bytes [simp, byte_simps]: "bytes_str (str_bytes s) = s"
  by (simp add: bytes_str_def str_bytes_def comp_def map_idI unat_of_nat)

lemma length_str_bytes [simp, byte_simps]: "length (str_bytes s) = length s"
  by (simp add: str_bytes_def)

lemma bytes_str_inverse [simp, byte_simps]: "str_bytes (bytes_str bs) = bs"
proof -
  have "unat b mod 256 = unat b" for b :: "8 word" using unsigned_less[of b, where ?'a = nat] by simp
  then show ?thesis
    by (simp add: str_bytes_def bytes_str_def comp_def map_idI of_char_of)
qed

definition utf8_tail :: "8 word \<Rightarrow> bool" where "utf8_tail b \<longleftrightarrow> 0x80 \<le> b \<and> b \<le> 0xBF"

fun utf8_valid :: "bytes \<Rightarrow> bool" where
  "utf8_valid [] = True"
| "utf8_valid (b # bs) =
    (if b < 0x80 then utf8_valid bs
     else if 0xC2 \<le> b \<and> b \<le> 0xDF then
       (case bs of c # cs \<Rightarrow> utf8_tail c \<and> utf8_valid cs | _ \<Rightarrow> False)
     else if 0xE0 \<le> b \<and> b \<le> 0xEF then
       (case bs of c # d # cs \<Rightarrow>
          utf8_tail c \<and> (b = 0xE0 \<longrightarrow> 0xA0 \<le> c) \<and> (b = 0xED \<longrightarrow> c \<le> 0x9F) \<and>
          utf8_tail d \<and> utf8_valid cs
        | _ \<Rightarrow> False)
     else if 0xF0 \<le> b \<and> b \<le> 0xF4 then
       (case bs of c # d # e # cs \<Rightarrow>
          utf8_tail c \<and> (b = 0xF0 \<longrightarrow> 0x90 \<le> c) \<and> (b = 0xF4 \<longrightarrow> c \<le> 0x8F) \<and>
          utf8_tail d \<and> utf8_tail e \<and> utf8_valid cs
        | _ \<Rightarrow> False)
     else False)"

section \<open>The disk\<close>

type_synonym files = "string \<Rightarrow> bytes option"

text \<open>An attempt to take an advisory lock, as scripted; an exhausted script grants it.\<close>

datatype lock_answer = Taken | Busy | Denied | Broken

record disk =
  files :: files
  io_script :: "nat \<Rightarrow> nat option"
  io_count :: nat
  lock_script :: "lock_answer list"

type_synonym ('s, 'a) st = "'s \<Rightarrow> (search_error + 'a) \<times> 's"

type_synonym 'a io = "(disk, 'a) st"

definition io_ret :: "'a \<Rightarrow> ('s, 'a) st" where "io_ret x d = (Inr x, d)"

definition io_fail :: "search_error \<Rightarrow> ('s, 'a) st" where "io_fail e d = (Inl e, d)"

definition io_lift :: "search_error + 'a \<Rightarrow> ('s, 'a) st" where "io_lift r d = (r, d)"

definition io_bind :: "('s, 'a) st \<Rightarrow> ('a \<Rightarrow> ('s, 'b) st) \<Rightarrow> ('s, 'b) st" where
  "io_bind m f d = (case m d of (Inl e, d') \<Rightarrow> (Inl e, d') | (Inr x, d') \<Rightarrow> f x d')"

text \<open>
  One system call: on success it maps the files by \<open>act\<close>; a call that fails after \<open>n\<close> bytes leaves
  \<open>partly n\<close> of its effect.
\<close>

definition syscall :: "string \<Rightarrow> (nat \<Rightarrow> files \<Rightarrow> files) \<Rightarrow> (files \<Rightarrow> files) \<Rightarrow> unit io" where
  "syscall what partly act d =
    (let d' = d\<lparr>io_count := Suc (io_count d)\<rparr> in
     case io_script d (io_count d) of
       None \<Rightarrow> (Inr (), d'\<lparr>files := act (files d)\<rparr>)
     | Some n \<Rightarrow> (Inl (Search_Io what), d'\<lparr>files := partly n (files d)\<rparr>))"

definition quiet :: "string \<Rightarrow> unit io" where
  "quiet what = syscall what (\<lambda>_ fs. fs) (\<lambda>fs. fs)"

definition contents :: "string \<Rightarrow> bytes option io" where
  "contents p d = (Inr (files d p), d)"

text \<open>\<open>Path::exists\<close>, \<open>File::create\<close>, an appending \<open>write_all\<close>, \<open>fsync\<close>, \<open>set_len\<close> and \<open>rename\<close>.\<close>

definition create_empty :: "string \<Rightarrow> unit io" where
  "create_empty p = syscall p (\<lambda>_ fs. fs) (\<lambda>fs. fs(p \<mapsto> []))"

definition append_to :: "string \<Rightarrow> bytes \<Rightarrow> files \<Rightarrow> files" where
  "append_to p bs fs = (case fs p of None \<Rightarrow> fs | Some old \<Rightarrow> fs(p \<mapsto> old @ bs))"

definition write_all :: "string \<Rightarrow> bytes \<Rightarrow> unit io" where
  "write_all p bs = syscall p (\<lambda>n. append_to p (take n bs)) (append_to p bs)"

definition resize :: "nat \<Rightarrow> bytes \<Rightarrow> bytes" where
  "resize n bs = take n bs @ replicate (n - length bs) 0"

definition set_len :: "string \<Rightarrow> nat \<Rightarrow> unit io" where
  "set_len p n = syscall p (\<lambda>_ fs. fs)
     (\<lambda>fs. case fs p of None \<Rightarrow> fs | Some old \<Rightarrow> fs(p \<mapsto> resize n old))"

text \<open>\<open>fs::write\<close>, \<open>fs::rename\<close>, \<open>fs::remove_file\<close> and \<open>fs::read\<close>.\<close>

definition write_file :: "string \<Rightarrow> bytes \<Rightarrow> unit io" where
  "write_file p bs = io_bind (create_empty p) (\<lambda>_. write_all p bs)"

definition rename_file :: "string \<Rightarrow> string \<Rightarrow> unit io" where
  "rename_file p q = syscall p (\<lambda>_ fs. fs) (\<lambda>fs. fs(q := fs p, p := None))"

definition remove_file :: "string \<Rightarrow> unit io" where
  "remove_file p = syscall p (\<lambda>_ fs. fs) (\<lambda>fs. fs(p := None))"

definition read_file :: "string \<Rightarrow> bytes io" where
  "read_file p = io_bind (quiet p) (\<lambda>_. io_bind (contents p) (\<lambda>file.
     case file of Some bs \<Rightarrow> io_ret bs | None \<Rightarrow> io_fail (Search_Io p)))"

text \<open>\<open>fsync.rs\<close>: open the file (or directory), then fsync it.\<close>

definition sync_file :: "string \<Rightarrow> unit io" where
  "sync_file p = io_bind (quiet p) (\<lambda>_. quiet p)"

definition sync_dir :: "string \<Rightarrow> unit io" where
  "sync_dir p = io_bind (quiet p) (\<lambda>_. quiet p)"

named_theorems io_simps "computation rules of the file operations"

lemma io_run [simp, io_simps]:
  "io_ret x d = (Inr x, d)" "io_fail e d = (Inl e, d)" "io_lift r d = (r, d)"
  by (simp_all add: io_ret_def io_fail_def io_lift_def)

lemma contents_run [simp, io_simps]: "contents p d = (Inr (files d p), d)"
  by (simp add: contents_def)

lemma io_bind_cases:
  assumes "io_bind m f d = (r, d')"
  obtains (Err) e where "m d = (Inl e, d')" "r = Inl e"
    | (Val) x d1 where "m d = (Inr x, d1)" "f x d1 = (r, d')"
  using assms by (auto simp: io_bind_def split: prod.splits sum.splits)

lemma io_bind_Inr [simp]: "m d = (Inr x, d1) \<Longrightarrow> io_bind m f d = f x d1"
  by (simp add: io_bind_def)

lemma io_bind_Inl [simp]: "m d = (Inl e, d1) \<Longrightarrow> io_bind m f d = (Inl e, d1)"
  by (simp add: io_bind_def)

lemma io_bind_ret [simp, io_simps]:
  "io_bind (io_ret x) f = f x" "io_bind (io_fail e) f = io_fail e"
  "io_bind (io_lift (Inr x)) f = f x" "io_bind (io_lift (Inl e)) f = io_fail e"
  by (auto simp: io_bind_def fun_eq_iff)

lemma io_bind_contents [simp, io_simps]: "io_bind (contents p) g d = g (files d p) d"
  by (simp add: io_bind_def contents_def)

lemma syscall_cases:
  assumes "syscall what partly act d = (r, d')"
  obtains (succeeded) "r = Inr ()" "files d' = act (files d)"
    | (failed) n where "r = Inl (Search_Io what)" "files d' = partly n (files d)"
  using assms by (auto simp: syscall_def Let_def split: option.splits)

lemma quiet_cases:
  assumes "quiet what d = (r, d')"
  obtains "files d' = files d" "r = Inr () \<or> r = Inl (Search_Io what)"
  using assms unfolding quiet_def by (cases rule: syscall_cases) auto

text \<open>A disk on which no call fails any more.\<close>

definition sound_disk :: "disk \<Rightarrow> bool" where
  "sound_disk d \<longleftrightarrow> (\<forall>n. io_script d n = None)"

lemma syscall_sound [simp]:
  "sound_disk d \<Longrightarrow> syscall what partly act d =
     (Inr (), d\<lparr>io_count := Suc (io_count d), files := act (files d)\<rparr>)"
  by (simp add: syscall_def sound_disk_def)

lemma sound_disk_update [simp]:
  "sound_disk (d\<lparr>io_count := n\<rparr>) = sound_disk d" "sound_disk (d\<lparr>files := fs\<rparr>) = sound_disk d"
  by (simp_all add: sound_disk_def)

text \<open>Operations that change no file.\<close>

definition reads_only :: "'a io \<Rightarrow> bool" where
  "reads_only m \<longleftrightarrow> (\<forall>d. files (snd (m d)) = files d)"

named_theorems reads_intros "operations that change no file"

lemma reads_only_prims [reads_intros, intro]:
  "reads_only (io_ret x)" "reads_only (io_fail e)" "reads_only (io_lift r)"
  "reads_only (contents p)" "reads_only (quiet what)"
  by (auto simp: reads_only_def quiet_def syscall_def Let_def split: option.splits)

lemma reads_only_bind [reads_intros, intro]:
  assumes "reads_only m" and "\<And>x. reads_only (f x)" shows "reads_only (io_bind m f)"
  unfolding reads_only_def
proof
  fix d
  obtain r d' where m: "m d = (r, d')" by (cases "m d") auto
  have "files d' = files d" using assms(1) m unfolding reads_only_def by (metis snd_conv)
  then show "files (snd (io_bind m f d)) = files d"
    using assms(2) m by (cases r) (auto simp: reads_only_def)
qed

lemma reads_onlyD: "reads_only m \<Longrightarrow> m d = (r, d') \<Longrightarrow> files d' = files d"
  unfolding reads_only_def by (metis snd_conv)

end
