(* ===== verification/Journal.thy ===== *)
theory Journal
  imports Search_Types
begin

text \<open>
  \<open>vector_journal.rs\<close>: the append-only file of vectors added since the last compaction. The file is
  a header (magic, version, dimension, model id) followed by fixed-size records of a 16-byte id
  and \<open>dim\<close> little-endian floats; nothing marks a record's end, so a reader relies on the
  alignment of the file alone.
\<close>

section \<open>The header\<close>

definition JOURNAL_MAGIC :: bytes where "JOURNAL_MAGIC = str_bytes ''SMVJ''"
definition JOURNAL_VERSION :: "16 word" where "JOURNAL_VERSION = 1"
definition ID_BYTES :: nat where "ID_BYTES = 16"
definition HEADER_PREFIX_LEN :: nat where "HEADER_PREFIX_LEN = 4 + 2 + 4 + 2"
definition MAX_MODEL_ID_LEN :: nat where "MAX_MODEL_ID_LEN = 512"

record journal_header =
  jdim :: "32 word"
  jmodel_id :: string

definition encoded :: "journal_header \<Rightarrow> search_error + bytes" where
  "encoded h =
    (if length (jmodel_id h) < 2 ^ 16
     then Inr (JOURNAL_MAGIC @ le_bytes 2 JOURNAL_VERSION @ le_bytes 4 (jdim h) @
       le_bytes 2 (word_of_nat (length (jmodel_id h)) :: 16 word) @ str_bytes (jmodel_id h))
     else Inl (Panic ''model id fits in a u16 length''))"

definition id_len_of :: "bytes \<Rightarrow> nat" where
  "id_len_of bs = unat (of_le_bytes [bs ! 10, bs ! 11] :: 16 word)"

definition decode :: "string \<Rightarrow> bytes \<Rightarrow> search_error + journal_header" where
  "decode path bs =
    (if length bs < HEADER_PREFIX_LEN \<or> take 4 bs \<noteq> JOURNAL_MAGIC
     then Inl (Index_Corrupted path (Reason ''journal header magic missing or truncated''))
     else let version = of_le_bytes [bs ! 4, bs ! 5] in
       if version \<noteq> JOURNAL_VERSION
       then Inl (Index_Corrupted path (Journal_Version version))
       else let id_len = id_len_of bs in
         if length bs < HEADER_PREFIX_LEN + id_len
         then Inl (Index_Corrupted path (Reason ''journal header model id truncated''))
         else let id = take id_len (drop HEADER_PREFIX_LEN bs) in
           if \<not> utf8_valid id
           then Inl (Index_Corrupted path (Reason ''journal header model id is not valid UTF-8''))
           else Inr \<lparr>jdim = of_le_bytes [bs ! 6, bs ! 7, bs ! 8, bs ! 9], jmodel_id = bytes_str id\<rparr>)"

section \<open>The journal\<close>

text \<open>A handle: every operation opens the file afresh.\<close>

record journal =
  jpath :: string
  jheader :: journal_header
  header_len :: nat

text \<open>\<open>read_exact\<close> of the next \<open>n\<close> bytes, with the error \<open>open\<close> makes of an unexpected end.\<close>

definition read_exact :: "string \<Rightarrow> string \<Rightarrow> nat \<Rightarrow> nat \<Rightarrow> bytes \<Rightarrow> bytes io" where
  "read_exact path why from n bs = io_bind (quiet path) (\<lambda>_.
    if length bs < from + n then io_fail (Index_Corrupted path (Reason why))
    else io_ret (take n (drop from bs)))"

definition read_header :: "string \<Rightarrow> bytes \<Rightarrow> (journal_header \<times> nat) io" where
  "read_header path bs =
    io_bind (read_exact path ''journal header truncated'' 0 HEADER_PREFIX_LEN bs) (\<lambda>pre.
    io_bind (read_exact path ''journal header model id truncated''
               HEADER_PREFIX_LEN (id_len_of pre) bs) (\<lambda>id.
    io_bind (io_lift (decode path (pre @ id))) (\<lambda>found.
    io_ret (found, HEADER_PREFIX_LEN + id_len_of pre))))"

definition check_header :: "string \<Rightarrow> journal_header \<Rightarrow> nat \<Rightarrow> journal_header \<Rightarrow> search_error + unit" where
  "check_header path wanted dim found =
    (if jmodel_id found \<noteq> jmodel_id wanted
     then Inl (Model_Mismatch path (jmodel_id found) (jmodel_id wanted))
     else if jdim found \<noteq> jdim wanted then Inl (Dim_Mismatch (unat (jdim found)) dim)
     else Inr ())"

definition open_existing :: "string \<Rightarrow> journal_header \<Rightarrow> nat \<Rightarrow> bytes \<Rightarrow> journal io" where
  "open_existing path wanted dim bs =
    io_bind (quiet path) (\<lambda>_.
    io_bind (read_header path bs) (\<lambda>(found, len).
    io_bind (io_lift (check_header path wanted dim found)) (\<lambda>_.
    io_ret \<lparr>jpath = path, jheader = found, header_len = len\<rparr>)))"

definition open_absent :: "string \<Rightarrow> journal_header \<Rightarrow> journal io" where
  "open_absent path wanted =
    (if MAX_MODEL_ID_LEN < length (jmodel_id wanted)
     then io_fail (Embedding ''journal model id'' ''model id longer than 512 bytes'')
     else io_bind (io_lift (encoded wanted)) (\<lambda>bs.
       io_ret \<lparr>jpath = path, jheader = wanted, header_len = length bs\<rparr>))"

definition open_journal :: "string \<Rightarrow> nat \<Rightarrow> string \<Rightarrow> journal io" where
  "open_journal path dim model_id =
    (if 2 ^ 32 \<le> dim then io_fail (Dim_Mismatch dim USIZE_MAX)
     else let wanted = \<lparr>jdim = word_of_nat dim, jmodel_id = model_id\<rparr> in
       io_bind (contents path) (\<lambda>file.
         case file of Some bs \<Rightarrow> open_existing path wanted dim bs
                    | None \<Rightarrow> open_absent path wanted))"

text \<open>
  \<open>Path::parent\<close> of a path that names a file. The last step of \<open>create_file\<close> is the fsync of the
  directory, left out for a bare file name, whose parent is the empty path.
\<close>

definition parent :: "string \<Rightarrow> string" where
  "parent p = (if CHR ''/'' \<in> set p
     then let dir = rev (tl (dropWhile (\<lambda>c. c \<noteq> CHR ''/'') (rev p))) in
       if dir = [] then ''/'' else dir
     else [])"

definition create_file :: "journal \<Rightarrow> unit io" where
  "create_file j =
    io_bind (create_empty (jpath j)) (\<lambda>_.
    io_bind (io_lift (encoded (jheader j))) (\<lambda>bs.
    io_bind (write_all (jpath j) bs) (\<lambda>_.
    io_bind (quiet (jpath j)) (\<lambda>_.
    if parent (jpath j) \<noteq> [] then sync_dir (parent (jpath j)) else io_ret ()))))"

definition dim_of :: "journal \<Rightarrow> nat" where "dim_of j = unat (jdim (jheader j))"

definition record_len :: "journal \<Rightarrow> nat" where
  "record_len j = ID_BYTES + dim_of j * 4"

definition id_bytes :: "ulid \<Rightarrow> bytes" where "id_bytes i = rev (le_bytes 16 i)"

definition id_of_bytes :: "bytes \<Rightarrow> ulid" where "id_of_bytes bs = of_le_bytes (rev bs)"

type_synonym vec = "f32 list"

definition record_bytes :: "ulid \<times> vec \<Rightarrow> bytes" where
  "record_bytes r = id_bytes (fst r) @ concat (map (le_bytes 4) (snd r))"

definition encode_record :: "nat \<Rightarrow> ulid \<times> vec \<Rightarrow> search_error + bytes" where
  "encode_record dim r =
    (if length (snd r) \<noteq> dim then Inl (Dim_Mismatch dim (length (snd r)))
     else Inr (record_bytes r))"

definition append_bytes :: "journal \<Rightarrow> bytes \<Rightarrow> unit io" where
  "append_bytes j bs =
    io_bind (contents (jpath j)) (\<lambda>file.
    io_bind (if file = None then create_file j else io_ret ()) (\<lambda>_.
    io_bind (quiet (jpath j)) (\<lambda>_.
    io_bind (write_all (jpath j) bs) (\<lambda>_.
    quiet (jpath j)))))"

definition append_records :: "journal \<Rightarrow> (ulid \<times> vec) list \<Rightarrow> unit io" where
  "append_records j rs =
    (if rs = [] then io_ret ()
     else io_bind (io_lift (traverse (encode_record (dim_of j)) rs)) (\<lambda>bs.
       append_bytes j (concat bs)))"

text \<open>\<open>chunks_exact(n)\<close>: the complete chunks, the remainder left out.\<close>

function chunks_exact :: "nat \<Rightarrow> 'a list \<Rightarrow> 'a list list" where
  "chunks_exact n xs =
    (if n = 0 \<or> length xs < n then [] else take n xs # chunks_exact n (drop n xs))"
  by pat_completeness auto
termination by (relation "measure (\<lambda>(n, xs). length xs)") auto

declare chunks_exact.simps [simp del]

definition decode_record :: "bytes \<Rightarrow> ulid \<times> vec" where
  "decode_record bs =
    (id_of_bytes (take ID_BYTES bs), map of_le_bytes (chunks_exact 4 (drop ID_BYTES bs)))"

definition decode_body :: "journal \<Rightarrow> bytes \<Rightarrow> (ulid \<times> vec) list" where
  "decode_body j bs =
    map decode_record (chunks_exact (record_len j) (take (length bs div record_len j * record_len j) bs))"

definition replay :: "journal \<Rightarrow> (ulid \<times> vec) list io" where
  "replay j =
    io_bind (quiet (jpath j)) (\<lambda>_.
    io_bind (contents (jpath j)) (\<lambda>file.
    case file of None \<Rightarrow> io_ret []
    | Some bs \<Rightarrow>
        io_bind (quiet (jpath j)) (\<lambda>_.
        io_bind (quiet (jpath j)) (\<lambda>_.
        io_ret (decode_body j (drop (header_len j) bs))))))"

definition journal_len :: "journal \<Rightarrow> nat io" where
  "journal_len j =
    io_bind (quiet (jpath j)) (\<lambda>_.
    io_bind (contents (jpath j)) (\<lambda>file.
    case file of None \<Rightarrow> io_ret 0
    | Some bs \<Rightarrow> io_ret ((length bs - header_len j) div record_len j)))"

definition clear_journal :: "journal \<Rightarrow> unit io" where
  "clear_journal j =
    io_bind (quiet (jpath j)) (\<lambda>_.
    io_bind (contents (jpath j)) (\<lambda>file.
    if file = None then io_ret ()
    else io_bind (set_len (jpath j) (header_len j)) (\<lambda>_. quiet (jpath j))))"


section \<open>The layout of the file\<close>

lemma chunks_exact_append [simp]:
  assumes "length x = n" "0 < n" shows "chunks_exact n (x @ ys) = x # chunks_exact n ys"
  using assms by (subst chunks_exact.simps) auto

lemma chunks_exact_short [simp]: "length ys < n \<Longrightarrow> chunks_exact n ys = []"
  by (subst chunks_exact.simps) auto

lemma chunks_exact_concat:
  assumes "0 < n" and "\<And>x. x \<in> set xs \<Longrightarrow> length x = n"
  shows "chunks_exact n (concat xs @ ys) = xs @ chunks_exact n ys"
  using assms(2) by (induction xs) (simp_all add: assms(1))

lemma chunks_exact_complete:
  assumes "0 < n" shows "chunks_exact n (take (length xs div n * n) xs) = chunks_exact n xs"
proof (induction "length xs" arbitrary: xs rule: less_induct)
  case less
  show ?case
  proof (cases "length xs < n")
    case False
    define ys where "ys = drop n xs"
    have xs: "xs = take n xs @ ys" "length (take n xs) = n" using False by (auto simp: ys_def)
    have "length ys < length xs" using False assms by (simp add: ys_def)
    moreover have "length xs div n * n = n + length ys div n * n"
      using False assms by (simp add: ys_def le_div_geq)
    then have "take (length xs div n * n) xs = take n xs @ take (length ys div n * n) ys"
      by (subst (2) xs(1)) (use xs(2) in \<open>simp only: take_append, simp\<close>)
    ultimately show ?thesis
      using less[of ys] xs assms by (metis chunks_exact_append)
  qed auto
qed

lemma length_chunks_exact: "0 < n \<Longrightarrow> length (chunks_exact n xs) = length xs div n"
proof (induction xs rule: measure_induct_rule[of length])
  case (less xs)
  show ?case
  proof (cases "length xs < n")
    case False
    then have "length (chunks_exact n (drop n xs)) = length (drop n xs) div n"
      using less(1)[of "drop n xs"] less(2) by (cases xs) auto
    then show ?thesis using False less(2)
      by (subst chunks_exact.simps) (simp add: le_div_geq)
  qed simp
qed

lemma record_len_pos [simp]: "0 < record_len j"
  by (simp add: record_len_def ID_BYTES_def)

lemma decode_body_chunks: "decode_body j bs = map decode_record (chunks_exact (record_len j) bs)"
  by (simp add: decode_body_def chunks_exact_complete)

lemma length_id_bytes [simp]: "length (id_bytes i) = 16"
  by (simp add: id_bytes_def)

lemma id_bytes_inverse [simp]: "id_of_bytes (id_bytes i) = i"
  by (simp add: id_bytes_def id_of_bytes_def le_bytes_inverse)

lemma length_record_bytes: "length (record_bytes r) = 16 + 4 * length (snd r)"
proof -
  have "length (concat (map (le_bytes 4) (v :: vec))) = 4 * length v" for v by (induction v) auto
  then show ?thesis by (simp add: record_bytes_def)
qed

lemma decode_record_bytes [simp]: "decode_record (record_bytes r) = r"
proof -
  have "chunks_exact 4 (concat (map (le_bytes 4) (v :: vec))) = map (le_bytes 4) v" for v
    using chunks_exact_concat[of 4 "map (le_bytes 4) v" "[]"] by force
  then show ?thesis
    by (cases r) (simp add: decode_record_def record_bytes_def ID_BYTES_def le_bytes_inverse comp_def)
qed

text \<open>The body written for a list of records, whatever incomplete record follows it.\<close>

definition fits_dim :: "journal \<Rightarrow> (ulid \<times> vec) list \<Rightarrow> bool" where
  "fits_dim j rs \<longleftrightarrow> (\<forall>r \<in> set rs. length (snd r) = dim_of j)"

abbreviation body :: "(ulid \<times> vec) list \<Rightarrow> bytes" where
  "body rs \<equiv> concat (map record_bytes rs)"

lemma length_record_bytes_fits:
  "fits_dim j rs \<Longrightarrow> r \<in> set rs \<Longrightarrow> length (record_bytes r) = record_len j"
  by (simp add: length_record_bytes fits_dim_def record_len_def ID_BYTES_def)

lemma length_body: "fits_dim j rs \<Longrightarrow> length (body rs) = length rs * record_len j"
  using length_record_bytes_fits[of j rs]
  by (induction rs) (auto simp: fits_dim_def)

lemma decode_body_append:
  assumes "fits_dim j rs" shows "decode_body j (body rs @ bs) = rs @ decode_body j bs"
proof -
  have "chunks_exact (record_len j) (body rs @ bs) = map record_bytes rs @ chunks_exact (record_len j) bs"
    by (rule chunks_exact_concat) (use length_record_bytes_fits[OF assms] in auto)
  then show ?thesis by (simp add: decode_body_chunks comp_def)
qed

lemma decode_body_short [simp]: "length bs < record_len j \<Longrightarrow> decode_body j bs = []"
  by (simp add: decode_body_chunks)

lemma encode_records:
  "traverse (encode_record (dim_of j)) rs = Inr bss \<longleftrightarrow> fits_dim j rs \<and> bss = map record_bytes rs"
proof -
  have "encode_record (dim_of j) r = Inr y \<longleftrightarrow> length (snd r) = dim_of j \<and> y = record_bytes r" for r y
    by (auto simp: encode_record_def)
  then show ?thesis
    unfolding traverse_Inr_iff
    by (induction rs arbitrary: bss) (auto simp: fits_dim_def list_all2_Cons1)
qed

section \<open>Headers\<close>

definition header_bytes :: "journal \<Rightarrow> bytes" where
  "header_bytes j = (case encoded (jheader j) of Inr bs \<Rightarrow> bs | Inl _ \<Rightarrow> [])"

text \<open>What \<open>open\<close> guarantees of a handle.\<close>

definition journal_ok :: "journal \<Rightarrow> bool" where
  "journal_ok j \<longleftrightarrow>
     encoded (jheader j) = Inr (header_bytes j) \<and> header_len j = length (header_bytes j)"

lemma length_magic [simp]: "length JOURNAL_MAGIC = 4"
  by (simp add: JOURNAL_MAGIC_def)

lemma encoded_Inr:
  assumes "encoded h = Inr bs"
  shows "length bs = HEADER_PREFIX_LEN + length (jmodel_id h)"
    and "take 4 bs = JOURNAL_MAGIC"
    and "drop HEADER_PREFIX_LEN bs = str_bytes (jmodel_id h)"
    and "id_len_of bs = length (jmodel_id h)"
    and "of_le_bytes [bs ! 4, bs ! 5] = JOURNAL_VERSION"
    and "of_le_bytes [bs ! 6, bs ! 7, bs ! 8, bs ! 9] = jdim h"
proof -
  let ?n = "word_of_nat (length (jmodel_id h)) :: 16 word"
  have n: "length (jmodel_id h) < 2 ^ 16"
    and bs: "bs = JOURNAL_MAGIC @ le_bytes 2 JOURNAL_VERSION @ le_bytes 4 (jdim h) @
       le_bytes 2 ?n @ str_bytes (jmodel_id h)"
    using assms by (auto simp: encoded_def split: if_splits)
  show "length bs = HEADER_PREFIX_LEN + length (jmodel_id h)" "take 4 bs = JOURNAL_MAGIC"
    "drop HEADER_PREFIX_LEN bs = str_bytes (jmodel_id h)"
    by (simp_all add: bs HEADER_PREFIX_LEN_def)
  have "[bs ! 10, bs ! 11] = le_bytes 2 ?n" "[bs ! 4, bs ! 5] = le_bytes 2 JOURNAL_VERSION"
    "[bs ! 6, bs ! 7, bs ! 8, bs ! 9] = le_bytes 4 (jdim h)"
    by (simp_all add: bs nth_append numeral_eq_Suc)
  then show "id_len_of bs = length (jmodel_id h)" "of_le_bytes [bs ! 4, bs ! 5] = JOURNAL_VERSION"
    "of_le_bytes [bs ! 6, bs ! 7, bs ! 8, bs ! 9] = jdim h"
    using n by (simp_all add: id_len_of_def le_bytes_inverse unat_of_nat take_bit_nat_eq_self)
qed


lemma decode_encoded:
  assumes "encoded h = Inr bs" "utf8_valid (str_bytes (jmodel_id h))"
  shows "decode path bs = Inr h"
  using encoded_Inr[OF assms(1)] assms(2)
  by (simp add: decode_def Let_def)

lemma le_bytes_pair: "le_bytes 2 (of_le_bytes [a, b] :: 16 word) = [a, b]"
  using of_le_bytes_inverse[of "[a, b]", where 'a = 16]
  by (simp del: le_bytes.simps of_le_bytes.simps add: numeral_eq_Suc)

lemma le_bytes_quad: "le_bytes 4 (of_le_bytes [a, b, c, d] :: 32 word) = [a, b, c, d]"
  using of_le_bytes_inverse[of "[a, b, c, d]", where 'a = 32]
  by (simp del: le_bytes.simps of_le_bytes.simps add: numeral_eq_Suc)

lemma decode_Inr:
  assumes "decode path bs = Inr h" "length bs = HEADER_PREFIX_LEN + id_len_of bs"
  shows "encoded h = Inr bs"
proof -
  let ?id = "take (id_len_of bs) (drop HEADER_PREFIX_LEN bs)"
  have 12: "12 \<le> length bs" and m: "take 4 bs = JOURNAL_MAGIC"
    and v: "of_le_bytes [bs ! 4, bs ! 5] = JOURNAL_VERSION"
    and h: "h = \<lparr>jdim = of_le_bytes [bs ! 6, bs ! 7, bs ! 8, bs ! 9], jmodel_id = bytes_str ?id\<rparr>"
    using assms(1) by (auto simp: decode_def HEADER_PREFIX_LEN_def Let_def split: if_splits)
  have id: "?id = drop 12 bs" using assms(2) by (simp add: HEADER_PREFIX_LEN_def)
  have len: "length (jmodel_id h) = id_len_of bs" using assms(2) id
    by (simp add: h bytes_str_def HEADER_PREFIX_LEN_def)
  have small: "id_len_of bs < 2 ^ 16" unfolding id_len_of_def using unsigned_less[of "of_le_bytes [bs ! 10, bs ! 11] :: 16 word", where ?'a = nat] by simp
  have n: "word_of_nat (id_len_of bs) = (of_le_bytes [bs ! 10, bs ! 11] :: 16 word)"
    by (simp add: id_len_of_def)
  have "bs = take 4 bs @ [bs ! 4, bs ! 5] @ [bs ! 6, bs ! 7, bs ! 8, bs ! 9] @ [bs ! 10, bs ! 11]
      @ drop 12 bs"
  proof -
    have "drop k bs = bs ! k # drop (Suc k) bs" if "k < 12" for k
      using that 12 by (simp add: Cons_nth_drop_Suc)
    from this[of 4] this[of 5] this[of 6] this[of 7] this[of 8] this[of 9] this[of 10] this[of 11]
    have "drop 4 bs = [bs ! 4, bs ! 5] @ [bs ! 6, bs ! 7, bs ! 8, bs ! 9] @ [bs ! 10, bs ! 11]
      @ drop 12 bs" by simp
    then show ?thesis by (metis append_take_drop_id)
  qed
  moreover have "le_bytes 2 JOURNAL_VERSION = [bs ! 4, bs ! 5]"
    by (simp add: v[symmetric] le_bytes_pair del: le_bytes.simps of_le_bytes.simps)
  moreover have "le_bytes 4 (jdim h) = [bs ! 6, bs ! 7, bs ! 8, bs ! 9]"
    by (simp add: h le_bytes_quad del: le_bytes.simps of_le_bytes.simps)
  moreover have "le_bytes 2 (word_of_nat (id_len_of bs) :: 16 word) = [bs ! 10, bs ! 11]"
    by (simp add: n le_bytes_pair del: le_bytes.simps of_le_bytes.simps)
  ultimately show ?thesis
    using small by (simp add: encoded_def len m[symmetric]) (simp add: h id)
qed


section \<open>Opening\<close>

definition fresh_journal :: "string \<Rightarrow> nat \<Rightarrow> string \<Rightarrow> journal" where
  "fresh_journal path dim model_id =
    \<lparr>jpath = path, jheader = \<lparr>jdim = word_of_nat dim, jmodel_id = model_id\<rparr>,
     header_len = HEADER_PREFIX_LEN + length model_id\<rparr>"

lemma journal_okI:
  assumes "encoded h = Inr bs"
  shows "journal_ok \<lparr>jpath = p, jheader = h, header_len = HEADER_PREFIX_LEN + length (jmodel_id h)\<rparr>"
  using assms encoded_Inr(1)[OF assms] by (simp add: journal_ok_def header_bytes_def)

lemma reads_only_open_existing: "reads_only (open_existing path wanted dim bs)"
  unfolding open_existing_def read_header_def read_exact_def
  by (intro reads_intros | simp split: prod.split | intro conjI impI allI)+

lemma read_exact_Inr:
  "read_exact path why from n bs d = (Inr x, d') \<Longrightarrow> from + n \<le> length bs \<and> x = take n (drop from bs)"
  by (auto simp: read_exact_def elim!: io_bind_cases split: if_splits)

lemma read_header_Inr:
  assumes "read_header path bs d = (Inr (found, len), d')"
  obtains hb where "encoded found = Inr hb" "prefix hb bs" "len = length hb"
    "len = HEADER_PREFIX_LEN + length (jmodel_id found)"
proof -
  obtain pre d1 id d2 where pre: "read_exact path ''journal header truncated'' 0 HEADER_PREFIX_LEN bs d = (Inr pre, d1)"
    and id: "read_exact path ''journal header model id truncated'' HEADER_PREFIX_LEN (id_len_of pre) bs d1 = (Inr id, d2)"
    and dec: "decode path (pre @ id) = Inr found" and len: "len = HEADER_PREFIX_LEN + id_len_of pre"
    using assms unfolding read_header_def
    by (auto elim!: io_bind_cases simp: io_lift_def io_fail_def io_ret_def)
  note P = read_exact_Inr[OF pre] and I = read_exact_Inr[OF id]
  have app: "pre @ id = take len bs" using P I by (simp add: len take_add)
  have "id_len_of (pre @ id) = id_len_of pre"
    using P by (simp add: id_len_of_def nth_append HEADER_PREFIX_LEN_def)
  moreover have "length (pre @ id) = HEADER_PREFIX_LEN + id_len_of pre"
    using P I by (metis app le_add_same_cancel1 length_take len min_absorb2)
  ultimately have enc: "encoded found = Inr (take len bs)"
    using decode_Inr[OF dec] by (simp add: app)
  moreover have "length (take len bs) = len" using P I by (simp add: len)
  ultimately show thesis using that encoded_Inr(1)[OF enc] by (metis take_is_prefix)
qed

lemma read_header_encoded:
  assumes "encoded h = Inr hb" "utf8_valid (str_bytes (jmodel_id h))" "prefix hb bs" "sound_disk d"
  shows "\<exists>d'. read_header path bs d = (Inr (h, length hb), d') \<and> sound_disk d'"
proof -
  note E = encoded_Inr[OF assms(1)]
  obtain rest where bs: "bs = hb @ rest" using assms(3) by (auto simp: prefix_def)
  have pre: "take HEADER_PREFIX_LEN bs = take HEADER_PREFIX_LEN hb" using E(1) by (simp add: bs)
  have "id_len_of (take HEADER_PREFIX_LEN hb) = length (jmodel_id h)"
    using E(1,4) by (simp add: id_len_of_def HEADER_PREFIX_LEN_def)
  moreover have "take (length (jmodel_id h)) (drop HEADER_PREFIX_LEN bs) = drop HEADER_PREFIX_LEN hb"
    using E(1) by (simp add: bs)
  ultimately show ?thesis
    using assms(4) E(1) decode_encoded[OF assms(1,2), of path]
    by (simp add: read_header_def read_exact_def quiet_def pre bs io_bind_def)
qed

lemma encoded_shape:
  "encoded h = Inr hb \<Longrightarrow> length hb = HEADER_PREFIX_LEN + length (jmodel_id h) \<and> length (jmodel_id h) < 2 ^ 16"
  using encoded_Inr(1) by (auto simp: encoded_def split: if_splits)

text \<open>What a handle promises about the file it was opened on.\<close>

definition opened_on :: "journal \<Rightarrow> files \<Rightarrow> bool" where
  "opened_on j fs \<longleftrightarrow> journal_ok j \<and>
     (case fs (jpath j) of
        None \<Rightarrow> length (jmodel_id (jheader j)) \<le> MAX_MODEL_ID_LEN
      | Some bs \<Rightarrow> prefix (header_bytes j) bs)"

lemma open_journal_Inr:
  assumes "open_journal path dim model_id d = (Inr j, d')"
  shows "files d' = files d" "dim < 2 ^ 32" "j = fresh_journal path dim model_id"
    "opened_on j (files d)"
proof -
  let ?w = "\<lparr>jdim = word_of_nat dim, jmodel_id = model_id\<rparr> :: journal_header"
  show dim: "dim < 2 ^ 32"
    using assms by (auto simp: open_journal_def io_fail_def split: if_splits)
  have "files d' = files d \<and> j = fresh_journal path dim model_id \<and> opened_on j (files d)"
  proof (cases "files d path")
    case None
    then have "open_absent path ?w d = (Inr j, d')"
      using assms dim by (simp add: open_journal_def Let_def)
    then obtain hb where "encoded ?w = Inr hb" "length model_id \<le> MAX_MODEL_ID_LEN" "d' = d"
      "j = \<lparr>jpath = path, jheader = ?w, header_len = length hb\<rparr>"
      by (auto simp: open_absent_def io_fail_def io_lift_def io_ret_def elim!: io_bind_cases split: if_splits)
    then show ?thesis using None encoded_shape journal_okI[of ?w hb path]
      by (simp add: opened_on_def fresh_journal_def)
  next
    case (Some bs)
    then have o: "open_existing path ?w dim bs d = (Inr j, d')"
      using assms dim by (simp add: open_journal_def Let_def)
    obtain d1 d2 found len where h: "read_header path bs d1 = (Inr (found, len), d2)"
      and c: "check_header path ?w dim found = Inr ()"
      and j: "j = \<lparr>jpath = path, jheader = found, header_len = len\<rparr>"
      using o by (auto simp: open_existing_def io_lift_def io_ret_def elim!: io_bind_cases)
    have found: "found = ?w" using c by (auto simp: check_header_def split: if_splits)
    from h show ?thesis
      by (rule read_header_Inr)
        (use reads_onlyD[OF reads_only_open_existing o] Some journal_okI[of ?w _ path] in
          \<open>auto simp: j found opened_on_def fresh_journal_def header_bytes_def\<close>)
  qed
  then show "files d' = files d" "j = fresh_journal path dim model_id" "opened_on j (files d)"
    by blast+
qed


lemma open_journal_back:
  assumes "opened_on (fresh_journal path dim model_id) (files d)" "dim < 2 ^ 32"
    and "utf8_valid (str_bytes model_id)" "sound_disk d"
  shows "\<exists>d'. open_journal path dim model_id d = (Inr (fresh_journal path dim model_id), d') \<and>
    sound_disk d' \<and> files d' = files d"
proof -
  let ?j = "fresh_journal path dim model_id"
  let ?w = "\<lparr>jdim = word_of_nat dim, jmodel_id = model_id\<rparr> :: journal_header"
  have ok: "encoded ?w = Inr (header_bytes ?j)" "header_len ?j = length (header_bytes ?j)"
    using assms(1) by (simp_all add: opened_on_def journal_ok_def fresh_journal_def)
  have "\<exists>d'. open_journal path dim model_id d = (Inr ?j, d') \<and> sound_disk d'"
  proof (cases "files d path")
    case None
    then show ?thesis
      using assms ok by (auto simp: open_journal_def Let_def open_absent_def opened_on_def fresh_journal_def)
  next
    case (Some bs)
    then have "prefix (header_bytes ?j) bs"
      using assms(1) by (simp add: opened_on_def fresh_journal_def)
    then obtain d1 where "read_header path bs (snd (quiet path d)) = (Inr (?w, header_len ?j), d1)" "sound_disk d1"
      using read_header_encoded[OF ok(1), of bs "snd (quiet path d)" path] assms(3,4)
      by (auto simp: quiet_def ok(2))
    then show ?thesis using assms(2,4) Some
      by (simp add: open_journal_def Let_def open_existing_def io_bind_def quiet_def check_header_def)
        (simp add: fresh_journal_def)
  qed
  then show ?thesis using open_journal_Inr(1) by blast
qed

section \<open>Records\<close>

text \<open>
  The file of \<open>j\<close> holds the records \<open>rs\<close> and then \<open>tail\<close>, which is empty in a clean file and an
  incomplete record after a crash.
\<close>

definition holds :: "journal \<Rightarrow> (ulid \<times> vec) list \<Rightarrow> bytes \<Rightarrow> files \<Rightarrow> bool" where
  "holds j rs tail fs \<longleftrightarrow> journal_ok j \<and> fits_dim j rs \<and>
     (case fs (jpath j) of
        None \<Rightarrow> rs = [] \<and> tail = []
      | Some bs \<Rightarrow> bs = header_bytes j @ body rs @ tail)"

lemma reads_only_replay: "reads_only (replay j)" "reads_only (journal_len j)"
  unfolding replay_def journal_len_def
  by (intro reads_intros | simp split: option.split | intro conjI impI allI)+

lemma replay_sound:
  assumes "holds j rs tail (files d)" "sound_disk d"
  shows "fst (replay j d) = Inr (rs @ decode_body j tail)"
  using assms
  by (auto simp: replay_def quiet_def holds_def journal_ok_def decode_body_append
      io_bind_def split: option.splits)

lemma journal_len_sound:
  assumes "holds j rs tail (files d)" "sound_disk d"
  shows "fst (journal_len j d) = Inr (length rs + length tail div record_len j)"
  using assms
  by (auto simp: journal_len_def quiet_def holds_def journal_ok_def length_body
      io_bind_def split: option.splits)

lemma clear_sound:
  assumes "holds j rs tail (files d)" "clear_journal j d = (Inr (), d')"
  shows "holds j [] [] (files d')" "files d' (jpath j) = None \<longleftrightarrow> files d (jpath j) = None"
  using assms unfolding clear_journal_def set_len_def
  by (auto simp: holds_def fits_dim_def journal_ok_def resize_def contents_def io_ret_def
      elim!: io_bind_cases quiet_cases syscall_cases split: option.splits if_splits)

text \<open>What an append may leave, whatever calls fail: some of the new bytes, after a whole header.\<close>

lemma append_bytes_existing:
  assumes "append_bytes j bs d = (r, d')" "files d (jpath j) = Some old"
  shows "\<exists>n. files d' (jpath j) = Some (old @ take n bs) \<and> (r = Inr () \<longrightarrow> n = length bs)"
proof -
  have "io_bind (quiet (jpath j)) (\<lambda>_. io_bind (write_all (jpath j) bs) (\<lambda>_. quiet (jpath j))) d = (r, d')"
    using assms by (simp add: append_bytes_def)
  then show ?thesis
  proof (cases rule: io_bind_cases)
    case (Err e)
    from Err(1) show ?thesis
      by (rule quiet_cases) (use Err assms(2) in \<open>auto intro!: exI[of _ 0]\<close>)
  next
    case (Val x d1)
    from Val(1) have d1: "files d1 = files d" by (rule quiet_cases)
    from Val(2) show ?thesis
    proof (cases rule: io_bind_cases)
      case (Err e)
      from Err(1) show ?thesis unfolding write_all_def
        by (rule syscall_cases) (use Err d1 assms(2) in \<open>auto simp: append_to_def\<close>)
    next
      case (Val y d2)
      from Val(1) have "files d2 (jpath j) = Some (old @ bs)" unfolding write_all_def
        by (rule syscall_cases) (use d1 assms(2) in \<open>auto simp: append_to_def\<close>)
      moreover from Val(2) have "files d' = files d2" by (rule quiet_cases)
      ultimately show ?thesis by (auto intro!: exI[of _ "length bs"])
    qed
  qed
qed


lemma take_body:
  assumes "fits_dim j new"
  shows "\<exists>n tail. take k (body new) = body (take n new) @ tail \<and> length tail < record_len j \<and>
    (length (body new) \<le> k \<longrightarrow> n = length new \<and> tail = [])"
  using assms
proof (induction new arbitrary: k)
  case (Cons r new)
  have r: "length (record_bytes r) = record_len j" and new: "fits_dim j new"
    using Cons.prems length_record_bytes_fits[OF Cons.prems, of r] by (auto simp: fits_dim_def)
  show ?case
  proof (cases "k < record_len j")
    case True
    then show ?thesis using r by (intro exI[of _ 0] exI[of _ "take k (record_bytes r)"]) auto
  next
    case False
    obtain n tail where "take (k - record_len j) (body new) = body (take n new) @ tail"
      "length tail < record_len j"
      "length (body new) \<le> k - record_len j \<longrightarrow> n = length new \<and> tail = []"
      using Cons.IH[OF new, of "k - record_len j"] by blast
    then show ?thesis using r False by (intro exI[of _ "Suc n"] exI[of _ tail]) auto
  qed
qed (auto intro!: exI[of _ 0])

lemma append_records_cases:
  assumes "append_records j new d = (r, d')"
  obtains (Nothing) "new = []" "r = Inr ()" "d' = d"
    | (Mismatch) e where "r = Inl e" "d' = d" "\<not> fits_dim j new"
    | (Write) "new \<noteq> []" "fits_dim j new" "append_bytes j (body new) d = (r, d')"
proof (cases "traverse (encode_record (dim_of j)) new")
  case (Inl e)
  then have "\<not> fits_dim j new" using encode_records[of j new] by auto
  then show thesis
    using assms Inl that(1,2) by (auto simp: append_records_def io_ret_def io_fail_def split: if_splits)
next
  case (Inr bss)
  then have "fits_dim j new" "bss = map record_bytes new" using encode_records[of j new] by auto
  then show thesis
    using assms Inr that(1,3) by (auto simp: append_records_def io_ret_def split: if_splits)
qed

lemma append_bytes_absent:
  assumes "append_bytes j bs d = (Inr (), d')" "files d (jpath j) = None" "journal_ok j"
  shows "files d' (jpath j) = Some (header_bytes j @ bs)"
proof -
  obtain d1 where c: "create_file j d = (Inr (), d1)"
    and w: "io_bind (quiet (jpath j)) (\<lambda>_. io_bind (write_all (jpath j) bs) (\<lambda>_. quiet (jpath j))) d1 = (Inr (), d')"
    using assms(1,2) by (auto simp: append_bytes_def elim!: io_bind_cases)
  obtain d2 d3 where "files d2 = (files d)(jpath j \<mapsto> [])"
    and "write_all (jpath j) (header_bytes j) d2 = (Inr (), d3)"
    and "files d1 = files d3"
    using c assms(3) unfolding create_file_def journal_ok_def create_empty_def
    by (auto elim!: io_bind_cases quiet_cases syscall_cases simp: io_ret_def sync_dir_def split: if_splits)
  then have "files d1 (jpath j) = Some (header_bytes j)"
    by (auto simp: write_all_def append_to_def elim!: syscall_cases)
  moreover from this have "append_bytes j bs d1 = (Inr (), d')" using w by (simp add: append_bytes_def)
  ultimately show ?thesis using append_bytes_existing by fastforce
qed

lemma append_bytes_creating:
  assumes "append_bytes j bs d = (r, d')" "files d (jpath j) = None" "journal_ok j"
  shows "files d' (jpath j) = None \<and> r \<noteq> Inr () \<or>
    (\<exists>k. files d' (jpath j) = Some (take k (header_bytes j)) \<and> r \<noteq> Inr ()) \<or>
    (\<exists>k. files d' (jpath j) = Some (header_bytes j @ take k bs) \<and> (r = Inr () \<longrightarrow> k = length bs))"
proof -
  let ?rest = "io_bind (quiet (jpath j)) (\<lambda>_. io_bind (write_all (jpath j) bs) (\<lambda>_. quiet (jpath j)))"
  have hb: "encoded (jheader j) = Inr (header_bytes j)" using assms(3) by (simp add: journal_ok_def)
  have cut: "\<exists>k. files d1 (jpath j) = Some (take k (header_bytes j)) \<and> (q = Inr () \<longrightarrow> k = length (header_bytes j))"
    if c: "create_file j d = (q, d1)" "files d1 (jpath j) \<noteq> None" for q d1
    using c assms(2) unfolding create_file_def create_empty_def write_all_def sync_dir_def
    by (auto simp: append_to_def hb io_ret_def elim!: io_bind_cases quiet_cases syscall_cases split: if_splits
        intro: exI[of _ 0] exI[of _ "length (header_bytes j)"])
  have made: "files d1 (jpath j) \<noteq> None" if c: "create_file j d = (Inr (), d1)" for d1
    using c unfolding create_file_def create_empty_def write_all_def sync_dir_def
    by (auto simp: append_to_def hb io_ret_def elim!: io_bind_cases quiet_cases syscall_cases split: if_splits)
  have "io_bind (create_file j) (\<lambda>_. ?rest) d = (r, d')" using assms(1,2) by (simp add: append_bytes_def)
  then show ?thesis
  proof (cases rule: io_bind_cases)
    case (Err e)
    with cut[OF Err(1)] show ?thesis by (cases "files d' (jpath j)") auto
  next
    case (Val u d1)
    from cut[of "Inr ()" d1] made[of d1] Val(1) have "files d1 (jpath j) = Some (header_bytes j)" by auto
    moreover from this Val(2) have "append_bytes j bs d1 = (r, d')" by (simp add: append_bytes_def)
    ultimately obtain n where "files d' (jpath j) = Some (header_bytes j @ take n bs)" "r = Inr () \<longrightarrow> n = length bs"
      using append_bytes_existing by blast
    then show ?thesis by blast
  qed
qed


lemma append_holds:
  assumes "holds j rs tail (files d)" "append_records j new d = (Inr (), d')"
  shows "fits_dim j new"
    and "new \<noteq> [] \<Longrightarrow> files d' (jpath j) = Some (header_bytes j @ body rs @ tail @ body new)"
    and "new = [] \<Longrightarrow> files d' = files d"
proof -
  have new: "fits_dim j new \<and> (new = [] \<longrightarrow> files d' = files d) \<and>
    (new \<noteq> [] \<longrightarrow> append_bytes j (body new) d = (Inr (), d'))"
    using assms(2) by (cases rule: append_records_cases) (auto simp: fits_dim_def)
  then show "fits_dim j new" "new = [] \<Longrightarrow> files d' = files d" by auto
  assume "new \<noteq> []"
  with new have w: "append_bytes j (body new) d = (Inr (), d')" by simp
  show "files d' (jpath j) = Some (header_bytes j @ body rs @ tail @ body new)"
  proof (cases "files d (jpath j)")
    case None
    then show ?thesis using append_bytes_absent[OF w] assms(1) by (simp add: holds_def)
  next
    case (Some old)
    then show ?thesis using append_bytes_existing[OF w] assms(1) by (auto simp: holds_def)
  qed
qed

lemma holds_opened:
  assumes "holds j rs tail fs" "opened_on j fs0" "fs (jpath j) = None \<longrightarrow> fs0 (jpath j) = None"
  shows "opened_on j fs"
  using assms by (auto simp: holds_def opened_on_def split: option.splits)

lemma fresh_journal_simps [simp]:
  "jpath (fresh_journal path dim model_id) = path"
  "dim < 2 ^ 32 \<Longrightarrow> dim_of (fresh_journal path dim model_id) = dim"
  by (simp_all add: fresh_journal_def dim_of_def unat_of_nat take_bit_nat_eq_self)

text \<open>
  C17: The journal round trip. Open a clean journal, append a batch, and open the file again, in this
  process or the next: the second handle is the first, it replays the old records followed by the
  new ones bit for bit, and \<open>len\<close> is their number. The first append creates the file.
\<close>

theorem journal_round_trip:
  assumes "open_journal path dim model_id d = (Inr j, d1)" "utf8_valid (str_bytes model_id)"
    and "holds j rs [] (files d1)"
    and "append_records j new d1 = (Inr (), d2)"
    and "sound_disk d3" "files d3 = files d2"
  shows "\<exists>d4. open_journal path dim model_id d3 = (Inr j, d4) \<and>
    fst (replay j d4) = Inr (rs @ new) \<and>
    fst (journal_len j d4) = Inr (length rs + length new)"
proof -
  note O = open_journal_Inr[OF assms(1)]
  have fs: "files d1 (jpath j) = None \<Longrightarrow> rs = []" using assms(3) by (auto simp: holds_def)
  have H: "holds j (rs @ new) [] (files d2)"
    using append_holds[OF assms(3,4)] assms(3)
    by (cases "new = []") (auto simp: holds_def fits_dim_def split: option.splits)
  have "files d2 (jpath j) = None \<longrightarrow> files d1 (jpath j) = None"
    using append_holds(2,3)[OF assms(3,4)] by (cases "new = []") auto
  with H O have "opened_on j (files d3)" using holds_opened assms(6) by metis
  then obtain d4 where "open_journal path dim model_id d3 = (Inr j, d4)" "sound_disk d4" "files d4 = files d3"
    using open_journal_back O(2,3) assms(2,5) by blast
  then show ?thesis
    using replay_sound[of j "rs @ new" "[]" d4] journal_len_sound[of j "rs @ new" "[]" d4] H assms(6)
    by auto
qed

text \<open>
  An append after a torn record is lost. When a crash has left an incomplete record at the end
  of the file, the next \<open>append\<close> writes its records after the torn bytes and returns Ok, but the
  next replay reads them at the wrong offset: the id of the first record it yields consists of
  the torn bytes and the first bytes of the record appended, and every later one is shifted alike.
\<close>

theorem append_after_torn_tail:
  assumes "holds j rs tail (files d)" "tail \<noteq> []" "length tail < ID_BYTES"
    and "append_records j (r # new) d = (Inr (), d')"
    and "sound_disk d2" "files d2 = files d'"
  shows "\<exists>shifted. fst (replay j d2) = Inr (rs @ shifted) \<and> length shifted = Suc (length new) \<and>
    fst (hd shifted) = id_of_bytes (tail @ take (ID_BYTES - length tail) (id_bytes (fst r)))"
proof -
  note A = append_holds[OF assms(1,4)]
  let ?x = "tail @ body (r # new)"
  have "holds j rs ?x (files d2)" using A(2) assms(1,6) by (simp add: holds_def)
  then have rep: "fst (replay j d2) = Inr (rs @ decode_body j ?x)" using replay_sound assms(5) by blast
  have L: "ID_BYTES \<le> record_len j" by (simp add: record_len_def)
  have lb: "length (body (r # new)) = Suc (length new) * record_len j"
    using length_body[OF A(1)] by simp
  have len: "length ?x = length tail + Suc (length new) * record_len j"
    using lb by simp
  have "length ?x div record_len j = Suc (length new)"
    unfolding len using assms(3) L by (intro div_nat_eqI) auto
  then have n: "length (decode_body j ?x) = Suc (length new)"
    by (simp add: decode_body_chunks length_chunks_exact)
  have ge: "record_len j \<le> length ?x" unfolding len by simp
  have "hd (decode_body j ?x) = decode_record (take (record_len j) ?x)"
    using ge record_len_pos[of j]
    by (subst decode_body_chunks, subst chunks_exact.simps) (simp add: not_less del: record_len_pos)
  moreover have "fst (decode_record (take (record_len j) y)) = id_of_bytes (take ID_BYTES y)" for y
    using L by (simp add: decode_record_def min_absorb1)
  ultimately have "fst (hd (decode_body j ?x)) = id_of_bytes (take ID_BYTES ?x)" by metis
  also have "take ID_BYTES ?x = tail @ take (ID_BYTES - length tail) (id_bytes (fst r))"
    using assms(3) by (simp add: record_bytes_def ID_BYTES_def)
  finally show ?thesis using rep n by blast
qed


text \<open>
  When \<open>open\<close> succeeds. On a disk that answers, a journal opens if the dimension fits 32 bits and
  either there is no file and the model id is at most 512 bytes, or the file starts with the
  encoding of exactly this dimension and model id, whatever follows. No file is created or changed.
\<close>

theorem open_journal_iff:
  assumes "sound_disk d" "utf8_valid (str_bytes model_id)"
  shows "(\<exists>j d'. open_journal path dim model_id d = (Inr j, d') \<and> files d' = files d) \<longleftrightarrow>
    dim < 2 ^ 32 \<and>
    (case files d path of
       None \<Rightarrow> length model_id \<le> MAX_MODEL_ID_LEN
     | Some bs \<Rightarrow> \<exists>hb. encoded \<lparr>jdim = word_of_nat dim, jmodel_id = model_id\<rparr> = Inr hb \<and> prefix hb bs)"
    (is "?opens \<longleftrightarrow> ?cond")
proof
  assume ?opens
  then obtain j d' where o: "open_journal path dim model_id d = (Inr j, d')" by blast
  note O = open_journal_Inr[OF o]
  show ?cond
    using O(2,4) unfolding O(3) opened_on_def journal_ok_def
    by (auto simp: fresh_journal_def split: option.splits)
next
  assume c: ?cond
  let ?w = "\<lparr>jdim = word_of_nat dim, jmodel_id = model_id\<rparr> :: journal_header"
  have "length model_id \<le> MAX_MODEL_ID_LEN \<Longrightarrow> \<exists>hb. encoded ?w = Inr hb"
    by (simp add: encoded_def MAX_MODEL_ID_LEN_def)
  then obtain hb where "encoded ?w = Inr hb" using c by (auto split: option.splits)
  then have "opened_on (fresh_journal path dim model_id) (files d)"
    using c journal_okI[of ?w hb path]
    by (auto simp: opened_on_def fresh_journal_def header_bytes_def split: option.splits)
  then show ?opens using open_journal_back c assms by blast
qed

text \<open>
  A crash during the first append of a directory's life leaves a journal that no later \<open>open\<close>
  accepts: \<open>create_file\<close> writes the header in place, so when that write stops early the file is a
  truncated header, and \<open>open\<close> reports the index as corrupted instead of as empty.
\<close>

theorem torn_header_is_corruption:
  assumes "open_journal path dim model_id d = (Inr j, d1)" "files d1 path = None"
    and "new \<noteq> []" "fits_dim j new"
    and "io_script d1 (io_count d1) = None" "io_script d1 (Suc (io_count d1)) = Some n" "n < header_len j"
    and "append_records j new d1 = (r, d2)"
    and "sound_disk d3" "files d3 = files d2"
  shows "r = Inl (Search_Io path) \<and>
    (\<exists>why. fst (open_journal path dim model_id d3) = Inl (Index_Corrupted path (Reason why)))"
proof -
  note O = open_journal_Inr[OF assms(1)]
  have j: "jpath j = path" by (simp add: O(3))
  have hb: "encoded (jheader j) = Inr (header_bytes j)" "header_len j = length (header_bytes j)"
    using O(4) by (auto simp: opened_on_def journal_ok_def)
  have "\<exists>bss. traverse (encode_record (dim_of j)) new = Inr bss"
    using encode_records assms(4) by blast
  then obtain bss where "traverse (encode_record (dim_of j)) new = Inr bss" ..
  then have "append_bytes j (concat bss) d1 = (r, d2)"
    using assms(3,8) by (simp add: append_records_def)
  then have r: "r = Inl (Search_Io path)" and f: "files d2 path = Some (take n (header_bytes j))"
    using assms(2,5,6) hb(1) j
    by (auto simp: append_bytes_def create_file_def create_empty_def write_all_def io_bind_def
        syscall_def Let_def append_to_def split: prod.splits)
  let ?bs = "take n (header_bytes j)"
  have len: "length ?bs = n" using assms(7) hb(2) by simp
  have dim: "\<not> 2 ^ 32 \<le> dim" using O(2) by simp
  have "\<exists>why. fst (read_header path ?bs e) = Inl (Index_Corrupted path (Reason why))" if "sound_disk e" for e
  proof (cases "n < HEADER_PREFIX_LEN")
    case True
    then show ?thesis using that len
      by (simp add: read_header_def read_exact_def quiet_def io_bind_def)
  next
    case False
    have "take HEADER_PREFIX_LEN ?bs = take HEADER_PREFIX_LEN (header_bytes j)" using False by simp
    moreover have "id_len_of (take HEADER_PREFIX_LEN (header_bytes j)) = length (jmodel_id (jheader j))"
      using encoded_Inr(1,4)[OF hb(1)] by (simp add: id_len_of_def HEADER_PREFIX_LEN_def)
    moreover have "n < HEADER_PREFIX_LEN + length (jmodel_id (jheader j))"
      using assms(7) hb encoded_Inr(1)[OF hb(1)] by simp
    ultimately show ?thesis using that len False
      by (simp add: read_header_def read_exact_def quiet_def io_bind_def)
  qed
  from this[of "snd (quiet path d3)"] obtain why e
    where "read_header path ?bs (snd (quiet path d3)) = (Inl (Index_Corrupted path (Reason why)), e)"
    using assms(9) by (auto simp: quiet_def) (metis prod.collapse)
  then have "fst (open_journal path dim model_id d3) = Inl (Index_Corrupted path (Reason why))"
    using f assms(9,10) dim
    by (simp add: open_journal_def Let_def open_existing_def quiet_def io_bind_def)
  then show ?thesis using r by blast
qed


section \<open>Concrete journals\<close>

definition sample_journal :: journal where
  "sample_journal = fresh_journal ''v/journal.bin'' 1 ''m''"

definition sample_record :: "ulid \<times> vec" where "sample_record = (5, [7])"

definition quiet_disk :: "files \<Rightarrow> disk" where
  "quiet_disk fs = \<lparr>files = fs, io_script = (\<lambda>_. None), io_count = 0, lock_script = []\<rparr>"

definition journal_disk :: "bytes \<Rightarrow> (nat \<Rightarrow> nat option) \<Rightarrow> disk" where
  "journal_disk bs script =
    \<lparr>files = [''v/journal.bin'' \<mapsto> bs], io_script = script, io_count = 0, lock_script = []\<rparr>"

lemma quiet_disk_simps [simp]: "sound_disk (quiet_disk fs)" "files (quiet_disk fs) = fs"
  by (simp_all add: quiet_disk_def sound_disk_def)

lemma journal_disk_simps [simp]:
  "files (journal_disk bs script) ''v/journal.bin'' = Some bs"
  "sound_disk (journal_disk bs (\<lambda>_. None))"
  by (simp_all add: journal_disk_def sound_disk_def)

lemma sample_encoded: "encoded (jheader sample_journal) = Inr (header_bytes sample_journal)"
  by (simp add: encoded_def header_bytes_def sample_journal_def fresh_journal_def)

lemma sample_journal_ok [simp]: "journal_ok sample_journal" "jpath sample_journal = ''v/journal.bin''"
  "dim_of sample_journal = 1"
  using sample_encoded encoded_Inr(1)[OF sample_encoded]
  by (simp_all add: journal_ok_def sample_journal_def fresh_journal_def dim_of_def)

lemma sample_fits [simp]: "fits_dim sample_journal [sample_record]" "fits_dim sample_journal []"
  by (simp_all add: fits_dim_def sample_record_def)

lemma sample_utf8 [simp]: "utf8_valid (str_bytes ''m'')"
  by (simp add: str_bytes_def)

lemma sample_open:
  "sound_disk d \<Longrightarrow> files d ''v/journal.bin'' = None \<or>
     (\<exists>rest. files d ''v/journal.bin'' = Some (header_bytes sample_journal @ rest)) \<Longrightarrow>
   \<exists>d'. open_journal ''v/journal.bin'' 1 ''m'' d = (Inr sample_journal, d') \<and> sound_disk d' \<and> files d' = files d"
  using open_journal_back[of "''v/journal.bin''" 1 "''m''" d] sample_journal_ok(1)
  by (auto simp: opened_on_def sample_journal_def MAX_MODEL_ID_LEN_def)
    (auto simp: fresh_journal_def)


theorem journal_round_trip_witness:
  "\<exists>d j d4. open_journal ''v/journal.bin'' 1 ''m'' d = (Inr j, d4) \<and>
    fst (replay j d4) = Inr [sample_record]"
proof -
  obtain d1 where o: "open_journal ''v/journal.bin'' 1 ''m'' (quiet_disk Map.empty) = (Inr sample_journal, d1)"
    "sound_disk d1" "files d1 = Map.empty" using sample_open[of "quiet_disk Map.empty"] by auto
  have "fst (append_records sample_journal [sample_record] d1) = Inr ()"
    using o sample_encoded
    by (simp add: append_records_def encode_record_def sample_record_def append_bytes_def
        create_file_def create_empty_def write_all_def sync_dir_def quiet_def io_bind_def parent_def)
  then obtain d2 where "append_records sample_journal [sample_record] d1 = (Inr (), d2)"
    by (metis prod.collapse)
  with journal_round_trip[OF o(1) sample_utf8 _ this, of "[]" "quiet_disk (files d2)"] o
  show ?thesis by (fastforce simp: holds_def)
qed

theorem append_after_torn_tail_witness:
  "\<exists>d x. fst (append_records sample_journal [sample_record] d) = Inr () \<and>
    fst (replay sample_journal (quiet_disk (files (snd (append_records sample_journal [sample_record] d)))))
      = Inr [x] \<and> fst x \<noteq> fst sample_record"
proof -
  let ?d = "journal_disk (header_bytes sample_journal @ [0]) (\<lambda>_. None)"
  have ok: "fst (append_records sample_journal [sample_record] ?d) = Inr ()"
    by (simp add: append_records_def encode_record_def sample_record_def append_bytes_def
        write_all_def quiet_def io_bind_def)
  then obtain d' where a: "append_records sample_journal [sample_record] ?d = (Inr (), d')"
    by (metis prod.collapse)
  have "holds sample_journal [] [0] (files ?d)" by (simp add: holds_def)
  moreover have "length [0 :: 8 word] < ID_BYTES" by (simp add: ID_BYTES_def)
  ultimately obtain shifted where s: "fst (replay sample_journal (quiet_disk (files d'))) = Inr ([] @ shifted)"
    "length shifted = Suc (length ([] :: (ulid \<times> vec) list))"
    "fst (hd shifted) = id_of_bytes ([0] @ take (ID_BYTES - length [0 :: 8 word]) (id_bytes (fst sample_record)))"
    using append_after_torn_tail[OF _ _ _ a quiet_disk_simps] by blast
  have "id_of_bytes ([0] @ take (ID_BYTES - length [0 :: 8 word]) (id_bytes (fst sample_record))) \<noteq> fst sample_record"
  proof -
    have zeros: "le_bytes n (0 :: 128 word) = replicate n 0" for n by (induction n) auto
    have "le_bytes (Suc 15) (5 :: 128 word) = 5 # replicate 15 0"
      by (simp only: le_bytes.simps) (simp add: zeros drop_bit_eq_div)
    then have "id_bytes 5 = replicate 15 0 @ [5]" by (simp add: id_bytes_def)
    moreover have "of_le_bytes (replicate n 0) = (0 :: 128 word)" for n by (induction n) auto
    from this[of 15] have "of_le_bytes (0 # replicate 15 0) = (0 :: 128 word)" by simp
    then have "of_le_bytes (replicate 15 0 @ [0]) = (0 :: 128 word)"
      by (simp only: replicate_append_same)
    ultimately show ?thesis by (simp add: id_of_bytes_def ID_BYTES_def sample_record_def)
  qed
  then have "fst (hd shifted) \<noteq> fst sample_record" using s(3) by simp
  moreover have "shifted = [hd shifted]" using s(2) by (cases shifted) auto
  ultimately show ?thesis using a s(1) ok
    by (intro exI[of _ ?d] exI[of _ "hd shifted"]) simp
qed

theorem open_journal_iff_witness:
  "\<exists>j d'. open_journal ''v/journal.bin'' 1 ''m'' (quiet_disk Map.empty) = (Inr j, d') \<and>
     files d' = Map.empty"
  using open_journal_iff[of "quiet_disk Map.empty" "''m''" "''v/journal.bin''" 1]
  by (simp add: MAX_MODEL_ID_LEN_def)

theorem torn_header_is_corruption_witness:
  "\<exists>d why. fst (open_journal ''v/journal.bin'' 1 ''m'' d) =
     Inl (Index_Corrupted ''v/journal.bin'' (Reason why))"
proof -
  let ?d = "\<lparr>files = Map.empty, io_script = (\<lambda>n. if n = 1 then Some 3 else None), io_count = 0, lock_script = []\<rparr> :: disk"
  have "open_journal ''v/journal.bin'' 1 ''m'' ?d = (Inr sample_journal, ?d)"
    using sample_encoded encoded_Inr(1)[OF sample_encoded]
    by (simp add: open_journal_def Let_def open_absent_def MAX_MODEL_ID_LEN_def io_bind_def)
      (simp add: sample_journal_def fresh_journal_def)
  from torn_header_is_corruption[OF this, of "[sample_record]" 3,
      OF _ _ _ _ _ _ prod.collapse[symmetric] quiet_disk_simps]
  moreover have "3 < header_len sample_journal"
    by (simp add: sample_journal_def fresh_journal_def HEADER_PREFIX_LEN_def)
  ultimately show ?thesis by auto
qed

end
