(* ===== verification/Float32.thy ===== *)
theory Float32
  imports Complex_Main "HOL-Library.Log_Nat" "HOL-Library.Product_Lexorder"
begin

text \<open>
  Arithmetic on \<open>f32\<close>. A finite value is the rational number it denotes; an operation computes the
  exact result and rounds it to a 24-bit significand, to nearest with ties to even, as IEEE 754
  binary32 does. The exponent is not bounded: the program computes with numbers between
  \<open>2\<^sup>-\<^sup>6\<^sup>6\<close> and \<open>2\<^sup>6\<^sup>5\<close>, far from overflow and from the subnormal range.
\<close>

section \<open>Rounding\<close>

definition round_even :: "rat \<Rightarrow> int" where
  "round_even q =
    (let n = \<lfloor>q\<rfloor>; f = q - of_int n in
     if f < 1 / 2 then n else if 1 / 2 < f then n + 1 else if even n then n else n + 1)"

definition two_to :: "int \<Rightarrow> rat" where
  "two_to e = (if 0 \<le> e then 2 ^ nat e else 1 / 2 ^ nat (- e))"

text \<open>The exponent of the leading bit of a positive rational.\<close>

definition leading :: "rat \<Rightarrow> int" where
  "leading q = (let (a, b) = quotient_of q; e = int (floorlog 2 (nat a)) - int (floorlog 2 (nat b)) in
     if two_to e \<le> q then e else e - 1)"

definition round_pos :: "rat \<Rightarrow> rat" where
  "round_pos q = (let e = leading q - 23 in of_int (round_even (q / two_to e)) * two_to e)"

definition f32_round :: "rat \<Rightarrow> rat" where
  "f32_round q = (if q = 0 then 0 else if 0 < q then round_pos q else - round_pos (- q))"

definition f32_add :: "rat \<Rightarrow> rat \<Rightarrow> rat" where "f32_add a b = f32_round (a + b)"
definition f32_sub :: "rat \<Rightarrow> rat \<Rightarrow> rat" where "f32_sub a b = f32_round (a - b)"
definition f32_div :: "rat \<Rightarrow> rat \<Rightarrow> rat" where "f32_div a b = f32_round (a / b)"
definition f32_of_usize :: "nat \<Rightarrow> rat" where "f32_of_usize n = f32_round (of_nat n)"

section \<open>Powers of two\<close>

lemma two_to_pos [simp]: "0 < two_to e"
  by (simp add: two_to_def)

lemma two_to_nonzero [simp]: "two_to e \<noteq> 0" "\<not> two_to e < 0"
  using two_to_pos[of e] by (simp_all add: less_le_not_le)

lemma two_to_powi: "two_to e = 2 powi e"
  by (simp only: two_to_def power_int_def inverse_eq_divide power_one_over)

lemma two_to_add: "two_to (a + b) = two_to a * two_to b"
  unfolding two_to_powi by (rule power_int_add) simp

lemma two_to_0 [simp]: "two_to 0 = 1"
  by (simp add: two_to_def)

lemma two_to_numeral [simp]: "two_to (numeral n) = 2 ^ numeral n" "two_to 1 = 2"
  by (simp_all add: two_to_def)

lemma two_to_mono: "a \<le> b \<Longrightarrow> two_to a \<le> two_to b"
  unfolding two_to_powi by (rule power_int_increasing) simp_all

lemma two_to_less: "two_to a < two_to b \<longleftrightarrow> a < b"
proof
  show "two_to a < two_to b" if "a < b"
    unfolding two_to_powi using that by (rule power_int_strict_increasing) simp
  show "a < b" if "two_to a < two_to b"
    using that two_to_mono[of b a] by (cases "a < b") simp_all
qed

section \<open>Rounding to an integer\<close>

lemma round_even_bounds: "\<lfloor>q\<rfloor> \<le> round_even q" "round_even q \<le> \<lfloor>q\<rfloor> + 1"
  by (simp_all add: round_even_def Let_def)

lemma round_even_of_int [simp]: "round_even (of_int n) = n"
  by (simp add: round_even_def)

lemma round_even_mono:
  assumes "p \<le> q" shows "round_even p \<le> round_even q"
proof (cases "\<lfloor>p\<rfloor> = \<lfloor>q\<rfloor>")
  case True
  then show ?thesis using assms by (auto simp: round_even_def Let_def)
next
  case False
  then have "\<lfloor>p\<rfloor> + 1 \<le> \<lfloor>q\<rfloor>" using floor_mono[OF assms] by linarith
  then show ?thesis using round_even_bounds[of p] round_even_bounds[of q] by linarith
qed

section \<open>The leading exponent\<close>

lemma leading_bounds:
  assumes "0 < q" shows "two_to (leading q) \<le> q" "q < two_to (leading q + 1)"
proof -
  obtain a b where ab: "quotient_of q = (a, b)" by fastforce
  have b: "0 < b" and q: "q = of_int a / of_int b"
    using quotient_of_denom_pos[OF ab] quotient_of_div[OF ab] by simp_all
  have a: "0 < a" using assms b by (simp add: q zero_less_divide_iff)
  define m n where "m = floorlog 2 (nat a)" and "n = floorlog 2 (nat b)"
  have "2 ^ (m - 1) \<le> nat a \<and> nat a < 2 ^ m" "2 ^ (n - 1) \<le> nat b \<and> nat b < 2 ^ n" "0 < m" "0 < n"
    using a b floorlog_bounds[of "nat a" 2] floorlog_bounds[of "nat b" 2]
    by (auto simp: m_def n_def floorlog_def)
  then obtain i j where i: "2 ^ i \<le> nat a" "nat a < 2 * 2 ^ i" "m = Suc i"
    and j: "2 ^ j \<le> nat b" "nat b < 2 * 2 ^ j" "n = Suc j"
    by (metis Suc_pred' power_Suc diff_Suc_1)
  have [simp]: "two_to (int k) = 2 ^ k" for k by (simp add: two_to_def)
  have real: "(of_nat x :: rat) \<le> of_nat y \<longleftrightarrow> x \<le> y" "(of_nat x :: rat) < of_nat y \<longleftrightarrow> x < y" for x y
    by simp_all
  have ai: "two_to (int i) \<le> of_int a" "of_int a < 2 * two_to (int i)"
    using i(1,2) a real[of "2 ^ i" "nat a"] real[of "nat a" "2 * 2 ^ i"] by simp_all
  have bj: "two_to (int j) \<le> of_int b" "of_int b < 2 * two_to (int j)"
    using j(1,2) b real[of "2 ^ j" "nat b"] real[of "nat b" "2 * 2 ^ j"] by simp_all
  let ?e = "int i - int j"
  have split: "two_to (int i) = two_to ?e * two_to (int j)"
    using two_to_add[of ?e "int j"] by simp
  have up: "q < 2 * two_to ?e"
  proof -
    have "of_int a < 2 * (two_to ?e * of_int b)"
    proof -
      have "two_to ?e * two_to (int j) \<le> two_to ?e * of_int b"
        using bj(1) by (intro mult_left_mono) (simp_all add: order_less_imp_le)
      then show ?thesis using ai(2) split by linarith
    qed
    then show ?thesis using b by (simp add: q pos_divide_less_eq algebra_simps)
  qed
  have low: "two_to ?e < 2 * q"
  proof -
    have "two_to ?e * of_int b < two_to ?e * (2 * two_to (int j))" using bj(2) by simp
    also have "\<dots> \<le> 2 * of_int a" using ai(1) split by linarith
    finally show ?thesis using b by (simp add: q pos_less_divide_eq)
  qed
  have lead: "leading q = (if two_to ?e \<le> q then ?e else ?e - 1)"
    by (simp add: leading_def ab m_def[symmetric] n_def[symmetric] i(3) j(3))
  have half: "two_to (?e - 1) * 2 = two_to ?e" "two_to (?e + 1) = two_to ?e * 2"
    using two_to_add[of "?e - 1" 1] two_to_add[of ?e 1] by simp_all
  show "two_to (leading q) \<le> q" "q < two_to (leading q + 1)"
    using up low half by (auto simp: lead)
qed

lemma leading_unique: "two_to e \<le> q \<Longrightarrow> q < two_to (e + 1) \<Longrightarrow> leading q = e"
proof -
  assume e: "two_to e \<le> q" "q < two_to (e + 1)"
  then have "0 < q" using two_to_pos[of e] by linarith
  note L = leading_bounds[OF this]
  have "two_to e < two_to (leading q + 1)" "two_to (leading q) < two_to (e + 1)" using e L by linarith+
  then show ?thesis by (simp add: two_to_less)
qed

section \<open>The laws of rounding\<close>

lemma round_pos_bounds:
  assumes "0 < q"
  shows "two_to (leading q) \<le> round_pos q" "round_pos q \<le> two_to (leading q + 1)"
proof -
  let ?e = "leading q - 23"
  have s: "two_to (leading q) = 2 ^ 23 * two_to ?e" "two_to (leading q + 1) = 2 ^ 24 * two_to ?e"
    using two_to_add[of 23 ?e] two_to_add[of 24 ?e] by (simp_all add: add.commute)
  have "of_int (2 ^ 23) \<le> q / two_to ?e" "q / two_to ?e \<le> of_int (2 ^ 24)"
    using leading_bounds[OF assms] by (simp_all add: s pos_le_divide_eq pos_divide_le_eq)
  then have "2 ^ 23 \<le> round_even (q / two_to ?e)" "round_even (q / two_to ?e) \<le> 2 ^ 24"
    using round_even_mono round_even_of_int by metis+
  then have "(of_int (2 ^ 23) :: rat) \<le> of_int (round_even (q / two_to ?e))"
    "(of_int (round_even (q / two_to ?e)) :: rat) \<le> of_int (2 ^ 24)"
    by (simp_all only: of_int_le_iff)
  then show "two_to (leading q) \<le> round_pos q" "round_pos q \<le> two_to (leading q + 1)"
    by (simp_all add: s round_pos_def Let_def)
qed

lemma round_pos_pos: "0 < q \<Longrightarrow> 0 < round_pos q"
  using round_pos_bounds(1) two_to_pos by (meson less_le_trans)

lemma round_pos_mono:
  assumes "0 < p" "p \<le> q" shows "round_pos p \<le> round_pos q"
proof -
  have q: "0 < q" using assms by simp
  have "two_to (leading p) < two_to (leading q + 1)"
    using leading_bounds[OF assms(1)] leading_bounds[OF q] assms(2) by linarith
  then have le: "leading p \<le> leading q" by (simp add: two_to_less)
  show ?thesis
  proof (cases "leading p = leading q")
    case True
    have "round_even (p / two_to (leading q - 23)) \<le> round_even (q / two_to (leading q - 23))"
      using assms by (intro round_even_mono divide_right_mono) (simp_all add: order_less_imp_le)
    then show ?thesis by (simp add: round_pos_def Let_def True)
  next
    case False
    then have "two_to (leading p + 1) \<le> two_to (leading q)" using le by (intro two_to_mono) simp
    then show ?thesis
      using round_pos_bounds(2)[OF assms(1)] round_pos_bounds(1)[OF q] by linarith
  qed
qed

lemma round_pos_idem:
  assumes "0 < q" shows "round_pos (round_pos q) = round_pos q"
proof (cases "round_pos q = two_to (leading q + 1)")
  case True
  have "leading (two_to (leading q + 1)) = leading q + 1"
    by (rule leading_unique) (simp_all add: two_to_less)
  moreover have "two_to (leading q + 1) / two_to (leading q - 22) = of_int (2 ^ 23)"
    using two_to_add[of 23 "leading q - 22"] by (simp add: add.commute)
  ultimately have "round_pos (two_to (leading q + 1)) = of_int (round_even (of_int (2 ^ 23))) * two_to (leading q - 22)"
    by (simp only: round_pos_def Let_def) (simp add: algebra_simps)
  also have "\<dots> = two_to (leading q + 1)"
    unfolding round_even_of_int using two_to_add[of 23 "leading q - 22"] by (simp add: add.commute)
  finally show ?thesis by (simp add: True)
next
  case False
  then have "leading (round_pos q) = leading q"
    using round_pos_bounds[OF assms] by (intro leading_unique) simp_all
  then show ?thesis by (simp add: round_pos_def Let_def)
qed

lemma f32_round_idem [simp]: "f32_round (f32_round q) = f32_round q"
  using round_pos_pos[of q] round_pos_pos[of "- q"]
  by (auto simp: f32_round_def round_pos_idem)

lemma f32_round_0 [simp]: "f32_round 0 = 0"
  by (simp add: f32_round_def)

lemma f32_round_pos: "0 < q \<Longrightarrow> 0 < f32_round q"
  by (simp add: f32_round_def round_pos_pos)

lemma f32_round_mono: "p \<le> q \<Longrightarrow> f32_round p \<le> f32_round q"
  using round_pos_mono[of p q] round_pos_mono[of "- q" "- p"] round_pos_pos[of q] round_pos_pos[of "- p"]
  by (auto simp: f32_round_def)

lemma f32_round_1: "f32_round 1 = 1"
proof -
  have "leading 1 = 0" by (rule leading_unique) (simp_all add: two_to_def)
  moreover have "1 / two_to (- 23) = of_int (2 ^ 23)" by (simp add: two_to_def)
  ultimately have "round_pos 1 = of_int (2 ^ 23) * two_to (- 23)"
    by (simp only: round_pos_def Let_def round_even_of_int diff_0)
  then show ?thesis by (simp add: f32_round_def two_to_def)
qed

end
