(* ===== verification/Hybrid.thy ===== *)
theory Hybrid
  imports Search_Types Scope Float32 "HOL-Library.AList"
begin

text \<open>
  \<open>hybrid_query.rs\<close>: search over the lexical and the semantic index, fused by reciprocal rank
  when both are there. The two rankers answer from libraries (Tantivy; an ONNX model and USearch),
  so they are arguments of the model: functions from the query and the options to ranked hits.
\<close>

section \<open>Options, hits and results\<close>

record hybrid_options =
  limit :: nat
  fetch_multiplier :: nat
  rrf_k :: nat
  include_snippets :: bool
  hy_scope :: "scope_filter option"

definition default_hybrid_options :: hybrid_options where
  "default_hybrid_options =
    \<lparr>limit = 20, fetch_multiplier = 3, rrf_k = 60, include_snippets = True, hy_scope = None\<rparr>"

datatype score_kind = Rrf | Bm25 | Cosine

record hybrid_hit =
  hh_id :: ulid
  hh_score :: rat
  hh_kind :: score_kind
  hh_lexical_rank :: "nat option"
  hh_semantic_rank :: "nat option"
  hh_snippet :: "string option"

text \<open>The elapsed time of a result is left out: nothing depends on it.\<close>

record hybrid_results =
  hr_hits :: "hybrid_hit list"
  hr_total_fused :: nat
  hr_lexical_hits :: "nat option"
  hr_semantic_hits :: "nat option"

record lexical_options =
  lo_limit :: nat
  lo_offset :: nat
  lo_snippets :: bool
  lo_scope :: "scope_filter option"

record lexical_hit =
  lh_id :: ulid
  lh_score :: rat
  lh_snippet :: "string option"

record lexical_results =
  lr_hits :: "lexical_hit list"
  lr_total_matched :: nat

record semantic_hit =
  sh_id :: ulid
  sh_score :: rat

record semantic_results =
  sr_hits :: "semantic_hit list"
  sr_total_indexed :: nat

text \<open>
  The lexical ranker parses the query and searches; the semantic ranker takes a limit and a minimal
  score.
\<close>

type_synonym lexical = "string \<Rightarrow> lexical_options \<Rightarrow> search_error + lexical_results"
type_synonym semantic = "string \<Rightarrow> nat \<Rightarrow> rat \<Rightarrow> search_error + semantic_results"
type_synonym scope_lookup = "ulid \<Rightarrow> string option"

record searcher =
  lexical :: "lexical option"
  semantic :: "semantic option"
  lookup :: "scope_lookup option"

section \<open>Reciprocal rank fusion\<close>

definition rrf_term :: "nat \<Rightarrow> nat \<Rightarrow> rat" where
  "rrf_term k rank0 = f32_div 1 (f32_add (f32_of_usize k) (f32_of_usize (rank0 + 1)))"

text \<open>\<open>*scores.entry(id).or_insert(0.0) += t\<close> on an association list.\<close>

definition entry_add :: "ulid \<Rightarrow> rat \<Rightarrow> (ulid \<times> rat) list \<Rightarrow> (ulid \<times> rat) list" where
  "entry_add i t m = AList.update i (f32_add (case map_of m i of None \<Rightarrow> 0 | Some x \<Rightarrow> x) t) m"

definition accumulate :: "nat \<Rightarrow> ulid list \<Rightarrow> (ulid \<times> rat) list \<Rightarrow> (ulid \<times> rat) list" where
  "accumulate k ids m = fold (\<lambda>(rank0, i). entry_add i (rrf_term k rank0)) (List.enumerate 0 ids) m"

text \<open>Descending score, then ascending id; every score is finite, so \<open>partial_cmp\<close> always decides.\<close>

definition fuse_key :: "ulid \<times> rat \<Rightarrow> rat \<times> ulid" where
  "fuse_key e = (- snd e, fst e)"

definition rrf_fuse :: "ulid list \<Rightarrow> ulid list \<Rightarrow> nat \<Rightarrow> (ulid \<times> rat) list" where
  "rrf_fuse lx sem k = sort_key fuse_key (accumulate k sem (accumulate k lx []))"

section \<open>Searching\<close>

definition saturating_mul :: "nat \<Rightarrow> nat \<Rightarrow> nat" where
  "saturating_mul a b = min (a * b) USIZE_MAX"

definition scope_filter_hits ::
  "semantic_hit list \<Rightarrow> scope_filter option \<Rightarrow> scope_lookup option \<Rightarrow> search_error + semantic_hit list" where
  "scope_filter_hits hits f l =
    (case f of None \<Rightarrow> Inr hits
     | Some flt \<Rightarrow> (case l of None \<Rightarrow> Inl Scope_Lookup_Missing
        | Some look \<Rightarrow> Inr (filter (\<lambda>h. matches flt (look (sh_id h))) hits)))"

definition lexical_hit_of :: "nat \<times> lexical_hit \<Rightarrow> hybrid_hit" where
  "lexical_hit_of p = (case p of (rank0, h) \<Rightarrow>
    \<lparr>hh_id = lh_id h, hh_score = lh_score h, hh_kind = Bm25, hh_lexical_rank = Some (rank0 + 1),
     hh_semantic_rank = None, hh_snippet = lh_snippet h\<rparr>)"

definition search_lexical_only ::
  "lexical \<Rightarrow> string \<Rightarrow> hybrid_options \<Rightarrow> search_error + hybrid_results" where
  "search_lexical_only lx q opts =
    rbind (lx q \<lparr>lo_limit = limit opts, lo_offset = 0, lo_snippets = include_snippets opts,
                  lo_scope = hy_scope opts\<rparr>) (\<lambda>res.
    let hits = map lexical_hit_of (List.enumerate 0 (lr_hits res)) in
    Inr \<lparr>hr_hits = hits, hr_total_fused = length hits,
         hr_lexical_hits = Some (lr_total_matched res), hr_semantic_hits = None\<rparr>)"

definition semantic_hit_of :: "nat \<times> semantic_hit \<Rightarrow> hybrid_hit" where
  "semantic_hit_of p = (case p of (rank0, h) \<Rightarrow>
    \<lparr>hh_id = sh_id h, hh_score = sh_score h, hh_kind = Cosine, hh_lexical_rank = None,
     hh_semantic_rank = Some (rank0 + 1), hh_snippet = None\<rparr>)"

definition search_semantic_only ::
  "semantic \<Rightarrow> scope_lookup option \<Rightarrow> string \<Rightarrow> hybrid_options \<Rightarrow> nat \<Rightarrow> search_error + hybrid_results" where
  "search_semantic_only sem look q opts fetch_n =
    (if hy_scope opts \<noteq> None \<and> look = None then Inl Scope_Lookup_Missing
     else
      rbind (sem q (if hy_scope opts \<noteq> None then saturating_mul fetch_n 2 else limit opts) 0) (\<lambda>res.
      rbind (scope_filter_hits (sr_hits res) (hy_scope opts) look) (\<lambda>kept.
      let hits = map semantic_hit_of (List.enumerate 0 (take (limit opts) kept)) in
      Inr \<lparr>hr_hits = hits, hr_total_fused = length hits,
           hr_lexical_hits = None, hr_semantic_hits = Some (sr_total_indexed res)\<rparr>)))"

text \<open>
  \<open>collect\<close> into a \<open>HashMap\<close> keeps the last entry of a repeated key.
\<close>

definition rank_map :: "ulid list \<Rightarrow> ulid \<Rightarrow> nat option" where
  "rank_map ids = map_of (rev (map (\<lambda>(i, id). (id, i + 1)) (List.enumerate 0 ids)))"

definition snippet_map :: "lexical_hit list \<Rightarrow> ulid \<Rightarrow> string option" where
  "snippet_map hits i = Option.bind (map_of (rev (map (\<lambda>h. (lh_id h, lh_snippet h)) hits)) i) (\<lambda>s. s)"

definition search_hybrid ::
  "lexical \<Rightarrow> semantic \<Rightarrow> scope_lookup option \<Rightarrow> string \<Rightarrow> hybrid_options \<Rightarrow> nat \<Rightarrow>
   search_error + hybrid_results" where
  "search_hybrid lx sem look q opts fetch_n =
    (if hy_scope opts \<noteq> None \<and> look = None then Inl Scope_Lookup_Missing
     else
      rbind (lx q \<lparr>lo_limit = fetch_n, lo_offset = 0, lo_snippets = include_snippets opts,
                    lo_scope = hy_scope opts\<rparr>) (\<lambda>lres.
      rbind (sem q (if hy_scope opts \<noteq> None then saturating_mul fetch_n 2 else fetch_n) 0) (\<lambda>sres.
      rbind (scope_filter_hits (sr_hits sres) (hy_scope opts) look) (\<lambda>kept.
      let lex_ids = map lh_id (lr_hits lres);
          sem_ids = map sh_id (take fetch_n kept);
          fused = rrf_fuse lex_ids sem_ids (rrf_k opts);
          hit = (\<lambda>(i, s). \<lparr>hh_id = i, hh_score = s, hh_kind = Rrf,
                   hh_lexical_rank = rank_map lex_ids i, hh_semantic_rank = rank_map sem_ids i,
                   hh_snippet = snippet_map (lr_hits lres) i\<rparr>) in
      Inr \<lparr>hr_hits = map hit (take (limit opts) fused), hr_total_fused = length fused,
           hr_lexical_hits = Some (lr_total_matched lres),
           hr_semantic_hits = Some (sr_total_indexed sres)\<rparr>))))"

definition search :: "searcher \<Rightarrow> string \<Rightarrow> hybrid_options \<Rightarrow> search_error + hybrid_results" where
  "search s q opts =
    (let fetch_n = max (saturating_mul (limit opts) (fetch_multiplier opts)) 1 in
     case (lexical s, semantic s) of
       (Some lx, None) \<Rightarrow> search_lexical_only lx q opts
     | (None, Some sem) \<Rightarrow> search_semantic_only sem (lookup s) q opts fetch_n
     | (Some lx, Some sem) \<Rightarrow> search_hybrid lx sem (lookup s) q opts fetch_n
     | (None, None) \<Rightarrow> Inl No_Indexes)"


section \<open>The scores\<close>

text \<open>Ranks start at 1; an id that a ranker did not return has none.\<close>

fun index_from :: "nat \<Rightarrow> ulid list \<Rightarrow> ulid \<Rightarrow> nat option" where
  "index_from n [] i = None"
| "index_from n (x # xs) i = (if x = i then Some n else index_from (Suc n) xs i)"

abbreviation rank :: "ulid list \<Rightarrow> ulid \<Rightarrow> nat option" where
  "rank ids \<equiv> index_from 1 ids"

lemma index_from_None [simp]: "index_from n ids i = None \<longleftrightarrow> i \<notin> set ids"
  by (induction n ids i rule: index_from.induct) auto

lemma index_from_absent [simp]: "i \<notin> set ids \<Longrightarrow> index_from n ids i = None"
  by simp

lemma index_from_Suc: "index_from (Suc n) ids i = map_option Suc (index_from n ids i)"
  by (induction n ids i rule: index_from.induct) auto

lemma index_from_ge: "index_from n ids i = Some r \<Longrightarrow> n \<le> r \<and> r < n + length ids"
  by (induction n ids i rule: index_from.induct) (force split: if_splits)+

lemma rank_map_index:
  "distinct ids \<Longrightarrow> map_of (rev (map (\<lambda>(i, id). (id, i + 1)) (List.enumerate n ids))) i = index_from (Suc n) ids i"
  by (induction ids arbitrary: n) (auto simp del: index_from_None simp: map_add_def split: option.splits)

lemma rank_map_rank: "distinct ids \<Longrightarrow> rank_map ids = rank ids"
  using rank_map_index[of ids 0] by (simp add: rank_map_def fun_eq_iff)

definition rank_score :: "nat \<Rightarrow> nat \<Rightarrow> rat" where
  "rank_score k r = f32_div 1 (f32_add (f32_of_usize k) (f32_of_usize r))"

definition rrf_score :: "nat \<Rightarrow> nat option \<Rightarrow> nat option \<Rightarrow> rat option" where
  "rrf_score k a b =
    (case a of
       None \<Rightarrow> map_option (rank_score k) b
     | Some r \<Rightarrow> Some (case b of None \<Rightarrow> rank_score k r
                                 | Some r' \<Rightarrow> f32_add (rank_score k r) (rank_score k r')))"

lemma f32_of_usize_mono: "m \<le> n \<Longrightarrow> f32_of_usize m \<le> f32_of_usize n"
  by (simp add: f32_of_usize_def f32_round_mono)

lemma denominator_pos:
  assumes "1 \<le> r" shows "0 < f32_add (f32_of_usize k) (f32_of_usize r)"
proof -
  have "0 \<le> f32_of_usize k" using f32_of_usize_mono[of 0 k] by (simp add: f32_of_usize_def)
  moreover have "1 \<le> f32_of_usize r"
    using f32_of_usize_mono[OF assms] by (simp add: f32_of_usize_def f32_round_1)
  ultimately show ?thesis unfolding f32_add_def by (intro f32_round_pos) linarith
qed

lemma rank_score_pos: "1 \<le> r \<Longrightarrow> 0 < rank_score k r"
  using denominator_pos[of r k] by (simp add: rank_score_def f32_div_def f32_round_pos)

lemma rank_score_antimono:
  assumes "1 \<le> r" "r \<le> r'" shows "rank_score k r' \<le> rank_score k r"
proof -
  have "f32_add (f32_of_usize k) (f32_of_usize r) \<le> f32_add (f32_of_usize k) (f32_of_usize r')"
    unfolding f32_add_def using f32_of_usize_mono[OF assms(2)] by (intro f32_round_mono) simp
  then show ?thesis
    unfolding rank_score_def f32_div_def using denominator_pos[OF assms(1), of k]
    by (intro f32_round_mono divide_left_mono) (auto intro!: mult_pos_pos)
qed

lemma rank_score_round [simp]: "f32_round (rank_score k r) = rank_score k r"
  by (simp add: rank_score_def f32_div_def)

lemma f32_add_0 [simp]: "f32_add 0 (rank_score k r) = rank_score k r"
  by (simp add: f32_add_def)

lemma f32_add_commute: "f32_add a b = f32_add b a"
  by (simp add: f32_add_def add.commute)

lemma f32_add_mono: "a \<le> a' \<Longrightarrow> b \<le> b' \<Longrightarrow> f32_add a b \<le> f32_add a' b'"
  unfolding f32_add_def by (intro f32_round_mono add_mono)

section \<open>What the fusion computes\<close>

lemma map_of_entry_add:
  "map_of (entry_add i t m) j =
     (if i = j then Some (f32_add (case map_of m i of None \<Rightarrow> 0 | Some x \<Rightarrow> x) t) else map_of m j)"
  by (simp add: entry_add_def update_conv')

lemma distinct_entry_add: "distinct (map fst m) \<Longrightarrow> distinct (map fst (entry_add i t m))"
  by (simp add: entry_add_def distinct_update)

lemma distinct_accumulate: "distinct (map fst m) \<Longrightarrow> distinct (map fst (accumulate k ids m))"
proof -
  have "distinct (map fst m) \<Longrightarrow>
    distinct (map fst (fold (\<lambda>(rank0, i). entry_add i (rrf_term k rank0)) (List.enumerate n ids) m))" for n
    by (induction ids arbitrary: m n) (simp_all add: distinct_entry_add)
  then show "distinct (map fst m) \<Longrightarrow> ?thesis" by (simp add: accumulate_def)
qed

lemma map_of_accumulate:
  assumes "distinct ids"
  shows "map_of (accumulate k ids m) i =
    (case rank ids i of None \<Rightarrow> map_of m i
     | Some r \<Rightarrow> Some (f32_add (case map_of m i of None \<Rightarrow> 0 | Some x \<Rightarrow> x) (rank_score k r)))"
proof -
  have "map_of (fold (\<lambda>(rank0, i). entry_add i (rrf_term k rank0)) (List.enumerate n ids) m) i =
    (case index_from (Suc n) ids i of None \<Rightarrow> map_of m i
     | Some r \<Rightarrow> Some (f32_add (case map_of m i of None \<Rightarrow> 0 | Some x \<Rightarrow> x) (rank_score k r)))" for n
    using assms
  proof (induction ids arbitrary: m n)
    case (Cons x ids)
    then show ?case
      by (cases "x = i") (auto simp del: index_from_None simp: map_of_entry_add rrf_term_def rank_score_def split: option.split)
  qed simp
  then show ?thesis by (simp add: accumulate_def)
qed

lemma map_of_sort_key:
  assumes "distinct (map fst m)" shows "map_of (sort_key f m) = map_of m"
  using assms by (intro map_of_inject_set[THEN iffD2]) (simp_all add: distinct_map)


lemma accumulated:
  assumes "distinct lx" "distinct sem"
  shows "map_of (accumulate k sem (accumulate k lx [])) i = rrf_score k (rank lx i) (rank sem i)"
  unfolding map_of_accumulate[OF assms(2)] map_of_accumulate[OF assms(1)]
  by (simp add: rrf_score_def split: option.split)

lemma distinct_accumulated: "distinct (map fst (accumulate k sem (accumulate k lx [])))"
  by (simp add: distinct_accumulate)

lemma sort_fuse_key:
  assumes "distinct (map fst m)" "map_of m = map_of m'" "distinct (map fst m')"
  shows "sort_key fuse_key m = sort_key fuse_key m'"
proof (rule sort_key_inj_key_eq)
  have set: "set m = set m'" using assms by (simp add: map_of_inject_set)
  moreover have "distinct m" "distinct m'" using assms(1,3) by (simp_all add: distinct_map)
  ultimately have "mset m = mset m'" by (simp add: set_eq_iff_mset_eq_distinct)
  then show "mset m = mset (sort_key fuse_key m')" by simp
  show "inj_on fuse_key (set m)" by (auto simp: inj_on_def fuse_key_def)
qed simp

lemma rrf_fuse_map: "distinct lx \<Longrightarrow> distinct sem \<Longrightarrow>
    map_of (rrf_fuse lx sem k) i = rrf_score k (rank lx i) (rank sem i)"
  unfolding rrf_fuse_def by (simp add: map_of_sort_key distinct_accumulated accumulated)

lemma rrf_fuse_distinct: "distinct (map fst (rrf_fuse lx sem k))"
proof -
  have "mset (map fst (rrf_fuse lx sem k)) = mset (map fst (accumulate k sem (accumulate k lx [])))"
    by (simp add: rrf_fuse_def)
  from mset_eq_imp_distinct_iff[OF this] show ?thesis by (simp only: distinct_accumulated)
qed

lemma rrf_score_None: "rrf_score k a b = None \<longleftrightarrow> a = None \<and> b = None"
  by (simp add: rrf_score_def split: option.split)

lemma fst_rrf_fuse: "distinct lx \<Longrightarrow> distinct sem \<Longrightarrow> set (map fst (rrf_fuse lx sem k)) = set lx \<union> set sem"
proof -
  assume d: "distinct lx" "distinct sem"
  have "i \<in> fst ` set (rrf_fuse lx sem k) \<longleftrightarrow> rrf_score k (rank lx i) (rank sem i) \<noteq> None" for i
    by (metis rrf_fuse_map[OF d] map_of_eq_None_iff)
  then show ?thesis by (auto simp: rrf_score_None)
qed

lemma sorted_fuse_key:
  "sorted (map fuse_key m) \<Longrightarrow> distinct (map fst m) \<Longrightarrow>
   sorted_wrt (\<lambda>(i, s) (j, t). t < s \<or> t = s \<and> i < j) m"
proof (induction m)
  case (Cons a m)
  have "t < s \<or> t = s \<and> i < j" if "a = (i, s)" "(j, t) \<in> set m" for i s j t
  proof -
    have "fuse_key (i, s) \<le> fuse_key (j, t)" "i \<noteq> j" using Cons.prems that by force+
    then show ?thesis by (auto simp: fuse_key_def less_eq_prod_def)
  qed
  then show ?case using Cons by (cases a) auto
qed simp

text \<open>
  C32: Reciprocal rank fusion. For rankings without repetitions the fused list holds the union of their
  ids, each once, with the score \<open>1/(k+r)\<close>, summed over the rankings that have it and rounded as \<open>f32\<close>
  arithmetic rounds, by descending score and then ascending id.
\<close>

theorem rrf_fuse_meaning:
  assumes "distinct lx" "distinct sem"
  shows "distinct (map fst (rrf_fuse lx sem k)) \<and>
    set (map fst (rrf_fuse lx sem k)) = set lx \<union> set sem \<and>
    (\<forall>(i, s) \<in> set (rrf_fuse lx sem k). rrf_score k (rank lx i) (rank sem i) = Some s) \<and>
    sorted_wrt (\<lambda>(i, s) (j, t). t < s \<or> t = s \<and> i < j) (rrf_fuse lx sem k)"
proof -
  let ?out = "rrf_fuse lx sem k"
  have "rrf_score k (rank lx i) (rank sem i) = Some s" if "(i, s) \<in> set ?out" for i s
    using that rrf_fuse_distinct rrf_fuse_map[OF assms] by (metis map_of_eq_Some_iff)
  moreover have "sorted (map fuse_key ?out)" by (simp add: rrf_fuse_def)
  then have "sorted_wrt (\<lambda>(i, s) (j, t). t < s \<or> t = s \<and> i < j) ?out"
    by (rule sorted_fuse_key) (rule rrf_fuse_distinct)
  ultimately show ?thesis
    using rrf_fuse_distinct fst_rrf_fuse[OF assms] by blast
qed


text \<open>
  Fusion is symmetric in its two rankings.
\<close>

theorem rrf_fuse_symmetric:
  assumes "distinct lx" "distinct sem"
  shows "rrf_fuse lx sem k = rrf_fuse sem lx k"
proof -
  have "rrf_score k a b = rrf_score k b a" for a b
    by (simp add: rrf_score_def f32_add_commute split: option.split)
  then have "map_of (accumulate k sem (accumulate k lx [])) = map_of (accumulate k lx (accumulate k sem []))"
    by (simp add: fun_eq_iff accumulated assms)
  then show ?thesis unfolding rrf_fuse_def
    by (intro sort_fuse_key distinct_accumulated)
qed

text \<open>An absent rank is worse than any rank.\<close>

fun rank_le :: "nat option \<Rightarrow> nat option \<Rightarrow> bool" where
  "rank_le a None = True"
| "rank_le None (Some r) = False"
| "rank_le (Some r) (Some r') = (r \<le> r')"

lemma rank_le_Some: "rank_le a (Some r) \<Longrightarrow> \<exists>r'. a = Some r' \<and> r' \<le> r"
  by (cases a) auto

lemma rank_score_add_le:
  assumes "rank_score k r \<le> rank_score k a" "1 \<le> b"
  shows "rank_score k r \<le> f32_add (rank_score k a) (rank_score k b)"
proof -
  have "f32_add 0 (rank_score k r) \<le> f32_add (rank_score k b) (rank_score k a)"
    using assms(1) rank_score_pos[OF assms(2), of k] by (intro f32_add_mono) simp_all
  then show ?thesis by (simp add: f32_add_commute)
qed

lemma rrf_score_mono:
  assumes le: "rank_le a c" "rank_le b d"
    and pos: "\<And>r. a = Some r \<Longrightarrow> 1 \<le> r" "\<And>r. b = Some r \<Longrightarrow> 1 \<le> r"
    and sc: "rrf_score k a b = Some s" "rrf_score k c d = Some t"
  shows "t \<le> s"
proof (cases c)
  case None
  then obtain r where d: "d = Some r" and t: "t = rank_score k r"
    using sc(2) by (auto simp: rrf_score_def)
  obtain r' where b: "b = Some r'" "r' \<le> r" using le(2) d rank_le_Some by blast
  have "t \<le> rank_score k r'" using b pos(2) by (simp add: t rank_score_antimono)
  then show ?thesis
    using sc(1) b(1) pos(1) rank_score_add_le[of k r r'] t
    by (cases a) (auto simp: rrf_score_def f32_add_commute)
next
  case (Some r)
  obtain r' where a: "a = Some r'" "r' \<le> r" using le(1) Some rank_le_Some by blast
  have A: "rank_score k r \<le> rank_score k r'" using a pos(1) by (simp add: rank_score_antimono)
  show ?thesis
  proof (cases d)
    case None
    then have "t = rank_score k r" using sc(2) Some by (simp add: rrf_score_def)
    then show ?thesis
      using sc(1) a(1) pos(2) A rank_score_add_le[of k r r'] by (cases b) (auto simp: rrf_score_def)
  next
    case d: (Some u)
    obtain u' where b: "b = Some u'" "u' \<le> u" using le(2) d rank_le_Some by blast
    have "rank_score k u \<le> rank_score k u'" using b pos(2) by (simp add: rank_score_antimono)
    then show ?thesis
      using sc a(1) b(1) d Some A by (auto simp: rrf_score_def intro: f32_add_mono)
  qed
qed

text \<open>
  Fusion respects the rankings: an item that both rankers place at least as high as another one
  (an absent item being last) has at least its score, in spite of rounding, so it comes first
  unless the scores are equal.
\<close>

theorem rrf_fuse_dominance:
  assumes "distinct lx" "distinct sem" "(i, s) \<in> set (rrf_fuse lx sem k)" "(j, t) \<in> set (rrf_fuse lx sem k)"
    and "rank_le (rank lx i) (rank lx j)" "rank_le (rank sem i) (rank sem j)"
  shows "t \<le> s"
proof -
  have sc: "rrf_score k (rank lx i) (rank sem i) = Some s" "rrf_score k (rank lx j) (rank sem j) = Some t"
    using assms(3,4) rrf_fuse_distinct rrf_fuse_map[OF assms(1,2)] by (metis map_of_eq_Some_iff)+
  have pos: "1 \<le> r" if "rank xs x = Some r" for xs x r using index_from_ge[OF that] by simp
  show ?thesis by (rule rrf_score_mono[OF assms(5,6) _ _ sc]) (blast intro: pos)+
qed


section \<open>What a search returns\<close>

text \<open>
  What the code relies on of the two rankers. Tantivy, over an index with one document per item,
  returns each document at most once, at most as many as asked for and, given a scope, only documents
  that carry the scope's term (which \<open>Scope\<close> shows to be the ones the filter matches): \<open>idx\<close> are the
  scopes the documents were indexed with, which need not be those of the store, since \<open>set_scope\<close> does
  not tell the index. USearch returns each vector at most once and at most as many as asked for.
\<close>

definition lexical_law :: "scope_lookup \<Rightarrow> lexical \<Rightarrow> bool" where
  "lexical_law idx lx \<longleftrightarrow> (\<forall>q opts res. lx q opts = Inr res \<longrightarrow>
     distinct (map lh_id (lr_hits res)) \<and> length (lr_hits res) \<le> lo_limit opts \<and>
     (\<forall>f h. lo_scope opts = Some f \<and> h \<in> set (lr_hits res) \<longrightarrow> matches f (idx (lh_id h))))"

definition semantic_law :: "semantic \<Rightarrow> bool" where
  "semantic_law sem \<longleftrightarrow> (\<forall>q n m res. sem q n m = Inr res \<longrightarrow>
     distinct (map sh_id (sr_hits res)) \<and> length (sr_hits res) \<le> n)"

text \<open>A lookup may fail, and then answers \<open>None\<close>; otherwise it answers with the scope \<open>sc\<close> of the store.\<close>

definition lookup_law :: "scope_lookup \<Rightarrow> scope_lookup \<Rightarrow> bool" where
  "lookup_law sc look \<longleftrightarrow> (\<forall>i. look i = sc i \<or> look i = None)"

definition in_scope :: "scope_lookup \<Rightarrow> hybrid_options \<Rightarrow> ulid \<Rightarrow> bool" where
  "in_scope sc opts i \<longleftrightarrow> (\<forall>f. hy_scope opts = Some f \<longrightarrow> matches f (sc i))"

text \<open>
  What justifies a hit: the lexical ranker vouches for it by the indexed scopes, the semantic one by
  those of the store.
\<close>

definition justified :: "scope_lookup \<Rightarrow> scope_lookup \<Rightarrow> hybrid_options \<Rightarrow> hybrid_hit \<Rightarrow> bool" where
  "justified idx sc opts h \<longleftrightarrow>
     (hh_lexical_rank h \<noteq> None \<longrightarrow> in_scope idx opts (hh_id h)) \<and>
     (hh_semantic_rank h \<noteq> None \<longrightarrow> in_scope sc opts (hh_id h)) \<and>
     (hh_lexical_rank h \<noteq> None \<or> hh_semantic_rank h \<noteq> None)"

lemma rbind_InrD: "rbind r f = Inr y \<Longrightarrow> \<exists>x. r = Inr x \<and> f x = Inr y"
  by (cases r) auto

lemma enumerate_ids:
  assumes "\<And>p. fst' (g p) = f (snd p)"
  shows "map fst' (map g (List.enumerate n xs)) = map f xs"
  by (induction xs arbitrary: n) (simp_all add: assms)

lemma scope_filter_hits_sound:
  assumes "scope_filter_hits hits f l = Inr kept" "distinct (map sh_id hits)"
    and "\<And>look. l = Some look \<Longrightarrow> lookup_law sc look"
  shows "distinct (map sh_id kept)" "set kept \<subseteq> set hits"
    "f = Some flt \<Longrightarrow> h \<in> set kept \<Longrightarrow> matches flt (sc (sh_id h))"
proof -
  show "distinct (map sh_id kept)" "set kept \<subseteq> set hits"
    using assms(1,2) by (auto simp: scope_filter_hits_def distinct_map inj_on_def split: option.splits)
  assume f: "f = Some flt" and h: "h \<in> set kept"
  then obtain look where l: "l = Some look" and m: "matches flt (look (sh_id h))"
    using assms(1) by (auto simp: scope_filter_hits_def split: option.splits)
  have "look (sh_id h) \<noteq> None" using m by (cases "look (sh_id h)") (auto simp: matches_def)
  then show "matches flt (sc (sh_id h))"
    using assms(3)[OF l] m unfolding lookup_law_def by metis
qed

lemma search_lexical_only_sound:
  assumes "lexical_law idx lx" "search_lexical_only lx q opts = Inr res"
  shows "length (hr_hits res) \<le> limit opts \<and> distinct (map hh_id (hr_hits res)) \<and>
    (\<forall>h \<in> set (hr_hits res). justified idx sc opts h \<and> hh_semantic_rank h = None)"
proof -
  obtain r where r: "lx q \<lparr>lo_limit = limit opts, lo_offset = 0, lo_snippets = include_snippets opts,
      lo_scope = hy_scope opts\<rparr> = Inr r"
    and hits: "hr_hits res = map lexical_hit_of (List.enumerate 0 (lr_hits r))"
    using assms(2) by (auto simp: search_lexical_only_def Let_def dest!: rbind_InrD)
  have law: "distinct (map lh_id (lr_hits r))" "length (lr_hits r) \<le> limit opts"
    "\<And>h. h \<in> set (lr_hits r) \<Longrightarrow> in_scope idx opts (lh_id h)"
    using assms(1) r unfolding lexical_law_def in_scope_def by fastforce+
  have "map hh_id (hr_hits res) = map lh_id (lr_hits r)"
    unfolding hits by (rule enumerate_ids) (simp add: lexical_hit_of_def split: prod.split)
  then show ?thesis using law
    by (auto simp: hits lexical_hit_of_def justified_def dest!: in_set_enumerate_eq[THEN iffD1])
qed


lemma filtered_semantic_sound:
  assumes "semantic_law sem" "sem q n m = Inr r" "scope_filter_hits (sr_hits r) (hy_scope opts) look = Inr kept"
    and "\<And>l. look = Some l \<Longrightarrow> lookup_law sc l"
  shows "distinct (map sh_id (take k kept))" "\<And>h. h \<in> set (take k kept) \<Longrightarrow> in_scope sc opts (sh_id h)"
proof -
  have "distinct (map sh_id (sr_hits r))" using assms(1,2) by (simp add: semantic_law_def)
  note F = scope_filter_hits_sound[OF assms(3) this assms(4)]
  show "distinct (map sh_id (take k kept))" using F(1) by (simp add: take_map[symmetric])
  show "in_scope sc opts (sh_id h)" if "h \<in> set (take k kept)" for h
    using F(3) that in_set_takeD unfolding in_scope_def by metis
qed

lemma search_semantic_only_sound:
  assumes "semantic_law sem" "\<And>l. look = Some l \<Longrightarrow> lookup_law sc l"
    and "search_semantic_only sem look q opts n = Inr res"
  shows "length (hr_hits res) \<le> limit opts \<and> distinct (map hh_id (hr_hits res)) \<and>
    (\<forall>h \<in> set (hr_hits res). justified idx sc opts h \<and> hh_lexical_rank h = None)"
proof -
  obtain m r kept where r: "sem q m 0 = Inr r"
    and kept: "scope_filter_hits (sr_hits r) (hy_scope opts) look = Inr kept"
    and hits: "hr_hits res = map semantic_hit_of (List.enumerate 0 (take (limit opts) kept))"
    using assms(3) by (auto simp: search_semantic_only_def Let_def dest!: rbind_InrD split: if_splits)
  note F = filtered_semantic_sound[OF assms(1) r kept assms(2), where k = "limit opts"]
  have ids: "map hh_id (hr_hits res) = map sh_id (take (limit opts) kept)"
    unfolding hits by (rule enumerate_ids) (simp add: semantic_hit_of_def split: prod.split)
  have "in_scope sc opts (hh_id h)" if "h \<in> set (hr_hits res)" for h
  proof -
    have "hh_id h \<in> set (map hh_id (hr_hits res))" using that by simp
    then show ?thesis unfolding ids using F(2) by auto
  qed
  moreover have "\<forall>h \<in> set (hr_hits res). hh_semantic_rank h \<noteq> None \<and> hh_lexical_rank h = None" "length (hr_hits res) \<le> limit opts"
    by (auto simp: hits semantic_hit_of_def)
  ultimately show ?thesis using F(1) by (simp add: ids justified_def)
qed

lemma search_hybrid_sound:
  assumes "lexical_law idx lx" "semantic_law sem" "\<And>l. look = Some l \<Longrightarrow> lookup_law sc l"
    and "search_hybrid lx sem look q opts n = Inr res"
  shows "length (hr_hits res) \<le> limit opts \<and> distinct (map hh_id (hr_hits res)) \<and>
    (\<forall>h \<in> set (hr_hits res). justified idx sc opts h \<and>
      rrf_score (rrf_k opts) (hh_lexical_rank h) (hh_semantic_rank h) = Some (hh_score h)) \<and>
    sorted_wrt (\<lambda>g h. hh_score h \<le> hh_score g) (hr_hits res)"
proof -
  obtain lr m sr kept where lr: "lx q \<lparr>lo_limit = n, lo_offset = 0, lo_snippets = include_snippets opts,
      lo_scope = hy_scope opts\<rparr> = Inr lr"
    and sr: "sem q m 0 = Inr sr" and kept: "scope_filter_hits (sr_hits sr) (hy_scope opts) look = Inr kept"
    and hits: "hr_hits res = map (\<lambda>(i, s). \<lparr>hh_id = i, hh_score = s, hh_kind = Rrf,
         hh_lexical_rank = rank_map (map lh_id (lr_hits lr)) i,
         hh_semantic_rank = rank_map (map sh_id (take n kept)) i, hh_snippet = snippet_map (lr_hits lr) i\<rparr>)
       (take (limit opts) (rrf_fuse (map lh_id (lr_hits lr)) (map sh_id (take n kept)) (rrf_k opts)))"
    using assms(4) by (auto simp: search_hybrid_def Let_def dest!: rbind_InrD split: if_splits)
  let ?l = "map lh_id (lr_hits lr)" and ?s = "map sh_id (take n kept)"
  let ?fused = "rrf_fuse ?l ?s (rrf_k opts)"
  have l: "distinct ?l" "\<And>i. i \<in> set ?l \<Longrightarrow> in_scope idx opts i"
    using assms(1) lr unfolding lexical_law_def in_scope_def by fastforce+
  have s: "distinct ?s" "\<And>i. i \<in> set ?s \<Longrightarrow> in_scope sc opts i"
    using filtered_semantic_sound[OF assms(2) sr kept assms(3), where k = n] by auto
  have M: "set (map fst ?fused) = set ?l \<union> set ?s"
    by (rule fst_rrf_fuse[OF l(1) s(1)])
  have sorted: "sorted_wrt (\<lambda>(i, s) (j, t). t < s \<or> t = s \<and> i < j) ?fused"
    by (rule sorted_fuse_key[OF _ rrf_fuse_distinct]) (simp add: rrf_fuse_def)
  have in_sc: "i \<in> set ?l \<or> i \<in> set ?s" and score: "rrf_score (rrf_k opts) (rank ?l i) (rank ?s i) = Some x"
    if "(i, x) \<in> set (take (limit opts) ?fused)" for i x
  proof -
    have f: "(i, x) \<in> set ?fused" using that by (rule in_set_takeD)
    then show "i \<in> set ?l \<or> i \<in> set ?s" using M by force
    show "rrf_score (rrf_k opts) (rank ?l i) (rank ?s i) = Some x"
      using f rrf_fuse_distinct rrf_fuse_map[OF l(1) s(1)] by (metis map_of_eq_Some_iff)
  qed
  have "distinct (map hh_id (hr_hits res))"
    using rrf_fuse_distinct[of ?l ?s "rrf_k opts"]
    by (simp add: hits comp_def case_prod_unfold take_map[symmetric])
  moreover have "sorted_wrt (\<lambda>g h. hh_score h \<le> hh_score g) (hr_hits res)"
    unfolding hits sorted_wrt_map
    by (rule sorted_wrt_mono_rel[OF _ sorted_wrt_take[OF sorted]]) auto
  moreover have "length (hr_hits res) \<le> limit opts" by (simp add: hits)
  moreover have "justified idx sc opts h \<and>
      rrf_score (rrf_k opts) (hh_lexical_rank h) (hh_semantic_rank h) = Some (hh_score h)"
    if "h \<in> set (hr_hits res)" for h
  proof -
    from that obtain i x where h: "(i, x) \<in> set (take (limit opts) ?fused)" "hh_id h = i" "hh_score h = x"
      "hh_lexical_rank h = rank ?l i" "hh_semantic_rank h = rank ?s i"
      unfolding hits by (auto simp: rank_map_rank[OF l(1)] rank_map_rank[OF s(1)] simp del: index_from_None)
    have "rank ?l i \<noteq> None \<longleftrightarrow> i \<in> set ?l" "rank ?s i \<noteq> None \<longleftrightarrow> i \<in> set ?s"
      by (simp_all only: index_from_None not_not)
    then show ?thesis using h in_sc[OF h(1)] score[OF h(1)] l(2) s(2) unfolding justified_def by metis
  qed
  ultimately show ?thesis by blast
qed

text \<open>
  Whatever rankers a searcher has, a search answers with at most \<open>limit\<close> hits for different items,
  all inside the requested scope: a hit of the lexical ranker by the scope its document was indexed
  with, a hit of the semantic one by the scope of the store (a failing scope lookup drops a hit, it
  never lets one through).
\<close>

theorem search_sound:
  assumes "search s q opts = Inr res"
    and "\<And>lx. lexical s = Some lx \<Longrightarrow> lexical_law idx lx"
    and "\<And>sem. semantic s = Some sem \<Longrightarrow> semantic_law sem"
    and "\<And>look. lookup s = Some look \<Longrightarrow> lookup_law sc look"
  shows "length (hr_hits res) \<le> limit opts \<and> distinct (map hh_id (hr_hits res)) \<and>
    (\<forall>h \<in> set (hr_hits res). justified idx sc opts h \<and> (lexical s = None \<longrightarrow> hh_lexical_rank h = None))"
proof (cases "lexical s"; cases "semantic s")
  fix sem assume "lexical s = None" and sem: "semantic s = Some sem"
  then obtain n where "search_semantic_only sem (lookup s) q opts n = Inr res"
    using assms(1) by (auto simp: search_def Let_def)
  from search_semantic_only_sound[OF assms(3)[OF sem] assms(4) this, of idx] show ?thesis by blast
next
  fix lx assume lx: "lexical s = Some lx" and "semantic s = None"
  then have "search_lexical_only lx q opts = Inr res"
    using assms(1) by (auto simp: search_def Let_def)
  from search_lexical_only_sound[OF assms(2)[OF lx] this, of sc] lx show ?thesis by simp
next
  fix lx sem assume lx: "lexical s = Some lx" and sem: "semantic s = Some sem"
  then obtain n where "search_hybrid lx sem (lookup s) q opts n = Inr res"
    using assms(1) by (auto simp: search_def Let_def)
  note S = search_hybrid_sound[OF assms(2)[OF lx] assms(3)[OF sem] assms(4) this]
  with lx show ?thesis by simp
qed (use assms(1) in \<open>simp add: search_def Let_def\<close>)

text \<open>
  With a scope, a semantic ranker and no scope lookup, every search fails, whatever the rankers
  would answer: out-of-scope hits are never returned for want of a filter.
\<close>

theorem scope_without_lookup_fails:
  assumes "hy_scope opts \<noteq> None" "semantic s \<noteq> None" "lookup s = None"
  shows "search s q opts = Inl Scope_Lookup_Missing"
  using assms by (auto simp: search_def Let_def search_semantic_only_def search_hybrid_def split: option.splits)


section \<open>Concrete searches\<close>

theorem rrf_fuse_meaning_witness:
  "set (map fst (rrf_fuse [1, 2] [2, 3] 60)) = {1, 2, 3}"
proof -
  have "distinct [1, 2 :: ulid]" "distinct [2, 3 :: ulid]" by simp_all
  from rrf_fuse_meaning[OF this, of 60] show ?thesis by auto
qed

theorem rrf_fuse_symmetric_witness: "rrf_fuse [1, 2] [2, 3] 60 = rrf_fuse [2, 3] [1, 2] 60"
  by (rule rrf_fuse_symmetric) simp_all

theorem rrf_fuse_dominance_witness:
  "\<exists>s t. (1, s) \<in> set (rrf_fuse [1, 2] [1, 2] 60) \<and> (2, t) \<in> set (rrf_fuse [1, 2] [1, 2] 60) \<and> t \<le> s"
proof -
  have d: "distinct [1, 2 :: ulid]" by simp
  have "1 \<in> set (map fst (rrf_fuse [1, 2] [1, 2] 60))" "2 \<in> set (map fst (rrf_fuse [1, 2] [1, 2] 60))"
    using fst_rrf_fuse[OF d d] by simp_all
  then obtain s t where st: "(1, s) \<in> set (rrf_fuse [1, 2] [1, 2] 60)" "(2, t) \<in> set (rrf_fuse [1, 2] [1, 2] 60)"
    by auto
  have "t \<le> s" by (rule rrf_fuse_dominance[OF d d st]) simp_all
  then show ?thesis using st by blast
qed

definition sample_lexical :: lexical where
  "sample_lexical q opts = Inr \<lparr>lr_hits = if lo_scope opts = None
       then take (lo_limit opts) [\<lparr>lh_id = 1, lh_score = 2, lh_snippet = Some ''a''\<rparr>] else [],
     lr_total_matched = 1\<rparr>"

definition sample_semantic :: semantic where
  "sample_semantic q n m = Inr \<lparr>sr_hits = take n [\<lparr>sh_id = 1, sh_score = 1\<rparr>, \<lparr>sh_id = 2, sh_score = 0\<rparr>],
     sr_total_indexed = 2\<rparr>"

lemma sample_rankers: "lexical_law sc sample_lexical" "semantic_law sample_semantic"
  by (auto simp: lexical_law_def semantic_law_def sample_lexical_def sample_semantic_def
      take_map[symmetric] simp del: take_map)

theorem search_sound_witness:
  "\<exists>res. search \<lparr>lexical = Some sample_lexical, semantic = Some sample_semantic, lookup = None\<rparr> ''a''
      (default_hybrid_options\<lparr>limit := 1\<rparr>) = Inr res \<and> length (hr_hits res) \<le> 1"
proof -
  let ?s = "\<lparr>lexical = Some sample_lexical, semantic = Some sample_semantic, lookup = None\<rparr>"
  obtain res where run: "search ?s ''a'' (default_hybrid_options\<lparr>limit := 1\<rparr>) = Inr res"
    by (simp add: search_def Let_def search_hybrid_def sample_lexical_def sample_semantic_def
        scope_filter_hits_def default_hybrid_options_def)
  have "length (hr_hits res) \<le> limit (default_hybrid_options\<lparr>limit := 1\<rparr>)"
    using search_sound[OF run, of "\<lambda>_. None" "\<lambda>_. None"] sample_rankers by auto
  then show ?thesis using run by auto
qed

theorem scope_without_lookup_fails_witness:
  "search \<lparr>lexical = None, semantic = Some sample_semantic, lookup = None\<rparr> ''a''
     (default_hybrid_options\<lparr>hy_scope := Some \<lparr>sf_path = ''w'', sf_exact = False\<rparr>\<rparr>) = Inl Scope_Lookup_Missing"
  by (rule scope_without_lookup_fails) simp_all

end
