(* ===== verification/Vector_Index.thy ===== *)
theory Vector_Index
  imports Journal Float32 "HOL-Library.AList"
begin

text \<open>
  \<open>vector_index.rs\<close>: the vector index kept in a directory. A handle holds a USearch graph in memory,
  the keymap that names its keys, the vectors not yet on disk and the journal. A commit appends
  the pending vectors to the journal or rewrites \<open>index.usearch\<close> and \<open>keymap.bin\<close> (a compaction).

  USearch, the serialisation of the two metadata files and the embedding model are libraries: they
  are the fields of the record \<open>vext\<close>, an argument of the definitions. A commit runs under an
  exclusive file lock, a load under a shared one, so each is one step of the model on the disk.
\<close>

section \<open>The libraries\<close>

record usearch_options =
  uo_dimensions :: nat
  uo_connectivity :: nat
  uo_expansion_add :: nat
  uo_expansion_search :: nat

record vmeta =
  format_version :: string
  model_id :: string
  dim :: nat
  distance :: string
  hnsw_m :: nat
  hnsw_ef_construction :: nat
  created_at :: timestamp

text \<open>The two directions are association lists; keys (\<open>u64\<close>) are issued one by one and never reused.\<close>

record keymap =
  generation :: nat
  next_key :: nat
  forward :: "(nat \<times> ulid) list"
  reverse :: "(ulid \<times> nat) list"

record keymap_v1 =
  v1_next_key :: nat
  v1_forward :: "(nat \<times> ulid) list"
  v1_reverse :: "(ulid \<times> nat) list"

record 'g vext =
  us_new :: "usearch_options \<Rightarrow> string + 'g"
  us_reserve :: "nat \<Rightarrow> 'g \<Rightarrow> string + 'g"
  us_capacity :: "'g \<Rightarrow> nat"
  us_size :: "'g \<Rightarrow> nat"
  us_contains :: "nat \<Rightarrow> 'g \<Rightarrow> bool"
  us_add :: "nat \<Rightarrow> vec \<Rightarrow> 'g \<Rightarrow> string + 'g"
  us_remove :: "nat \<Rightarrow> 'g \<Rightarrow> string + 'g"
  us_search :: "vec \<Rightarrow> nat \<Rightarrow> 'g \<Rightarrow> string + (nat \<times> rat) list"
  us_save :: "'g \<Rightarrow> string + bytes"
  us_load :: "bytes \<Rightarrow> 'g \<Rightarrow> string + 'g"
  put_keymap :: "keymap \<Rightarrow> string + bytes"
  get_keymap :: "bytes \<Rightarrow> string + keymap"
  get_keymap_v1 :: "bytes \<Rightarrow> string + keymap_v1"
  put_meta :: "vmeta \<Rightarrow> string + bytes"
  get_meta :: "bytes \<Rightarrow> string + vmeta"
  get_format :: "bytes \<Rightarrow> string + string"
  em_model_id :: string
  em_dim :: nat
  em_embed :: "string \<Rightarrow> search_error + vec"
  em_embed_batch :: "string list \<Rightarrow> search_error + vec list"
  wall_clock :: timestamp

record 'g vindex =
  vi_path :: string
  vi_meta :: vmeta
  vi_inner :: 'g
  vi_keymap :: keymap
  vi_expansion_search :: nat
  vi_journal :: journal
  vi_pending :: "(ulid \<times> vec) list"
  vi_generation :: nat
  vi_upgrade :: bool
  vi_tombstones :: "ulid list"

record index_options =
  opt_hnsw_m :: nat
  opt_ef_construction :: nat
  opt_expansion_search :: nat

definition default_index_options :: index_options where
  "default_index_options =
    \<lparr>opt_hnsw_m = 16, opt_ef_construction = 128, opt_expansion_search = 64\<rparr>"

definition EMBED_CHUNK :: nat where "EMBED_CHUNK = 64"
definition COMPACT_THRESHOLD :: nat where "COMPACT_THRESHOLD = 256"
definition JOURNAL_APPEND_CHUNK :: nat where "JOURNAL_APPEND_CHUNK = 1024"
definition LOCK_ATTEMPTS :: nat where "LOCK_ATTEMPTS = 5"
definition FORMAT_VERSION :: string where "FORMAT_VERSION = ''2''"
definition FORMAT_VERSION_V1 :: string where "FORMAT_VERSION_V1 = ''1''"

definition default_keymap :: keymap where
  "default_keymap = \<lparr>generation = 0, next_key = 0, forward = [], reverse = []\<rparr>"

definition keymap_of_v1 :: "keymap_v1 \<Rightarrow> keymap" where
  "keymap_of_v1 v = \<lparr>generation = 0, next_key = v1_next_key v, forward = v1_forward v,
     reverse = v1_reverse v\<rparr>"

definition in_dir :: "string \<Rightarrow> string \<Rightarrow> string" where "in_dir dir name = dir @ ''/'' @ name"

abbreviation usearch_path :: "string \<Rightarrow> string" where "usearch_path dir \<equiv> in_dir dir ''index.usearch''"
abbreviation keymap_path :: "string \<Rightarrow> string" where "keymap_path dir \<equiv> in_dir dir ''keymap.bin''"
abbreviation meta_path :: "string \<Rightarrow> string" where "meta_path dir \<equiv> in_dir dir ''.meta.json''"
abbreviation journal_path :: "string \<Rightarrow> string" where "journal_path dir \<equiv> in_dir dir ''journal.bin''"
abbreviation temp_of :: "string \<Rightarrow> string" where "temp_of p \<equiv> p @ ''.tmp''"

section \<open>Keys\<close>

text \<open>The graph and its keymap, the state of \<open>insert_entries\<close>.\<close>

type_synonym ('g, 'a) table_op = "('g \<times> keymap, 'a) st"

definition usearch_result :: "string \<Rightarrow> string + 'a \<Rightarrow> search_error + 'a" where
  "usearch_result what r = (case r of Inl why \<Rightarrow> Inl (Usearch what why) | Inr x \<Rightarrow> Inr x)"

definition graph_op :: "string \<Rightarrow> ('g \<Rightarrow> string + 'g) \<Rightarrow> ('g, unit) table_op" where
  "graph_op what f t = (case f (fst t) of
      Inl why \<Rightarrow> (Inl (Usearch what why), t)
    | Inr g \<Rightarrow> (Inr (), (g, snd t)))"

definition forget_key :: "ulid \<Rightarrow> nat \<Rightarrow> keymap \<Rightarrow> keymap" where
  "forget_key i k m = m\<lparr>reverse := AList.delete i (reverse m), forward := AList.delete k (forward m)\<rparr>"

definition record_key :: "ulid \<Rightarrow> nat \<Rightarrow> keymap \<Rightarrow> keymap" where
  "record_key i k m = m\<lparr>forward := AList.update k i (forward m), reverse := AList.update i k (reverse m)\<rparr>"

definition evict_previous :: "'g vext \<Rightarrow> ulid \<Rightarrow> ('g, unit) table_op" where
  "evict_previous x i t =
    (case map_of (reverse (snd t)) i of
       None \<Rightarrow> (Inr (), t)
     | Some old \<Rightarrow>
        (let t' = (fst t, forget_key i old (snd t)) in
         if us_contains x old (fst t')
         then graph_op ''evicting the previous vector of a re-added id'' (us_remove x old) t'
         else (Inr (), t')))"

definition issue_key :: "('g, nat) table_op" where
  "issue_key t = (Inr (next_key (snd t)), (fst t, (snd t)\<lparr>next_key := next_key (snd t) + 1\<rparr>))"

definition evict_orphan :: "'g vext \<Rightarrow> nat \<Rightarrow> ('g, unit) table_op" where
  "evict_orphan x k t =
    (if us_contains x k (fst t)
     then graph_op ''evicting an orphan usearch key during replay'' (us_remove x k) t
     else (Inr (), t))"

definition insert_one :: "'g vext \<Rightarrow> ulid \<times> vec \<Rightarrow> ('g, unit) table_op" where
  "insert_one x e =
    io_bind (evict_previous x (fst e)) (\<lambda>_.
    io_bind issue_key (\<lambda>k.
    io_bind (evict_orphan x k) (\<lambda>_.
    io_bind (graph_op ''usearch add'' (us_add x k (snd e))) (\<lambda>_.
    (\<lambda>t. (Inr (), (fst t, record_key (fst e) k (snd t))))))))"

fun for_each :: "('a \<Rightarrow> ('s, unit) st) \<Rightarrow> 'a list \<Rightarrow> ('s, unit) st" where
  "for_each f [] = io_ret ()"
| "for_each f (x # xs) = io_bind (f x) (\<lambda>_. for_each f xs)"

definition reserve_for :: "'g vext \<Rightarrow> nat \<Rightarrow> ('g, unit) table_op" where
  "reserve_for x n t =
    (let capacity = us_capacity x (fst t); needed = us_size x (fst t) + n in
     if capacity < needed
     then graph_op ''auto-reserving usearch capacity before add_batch''
       (us_reserve x (max (capacity + 1) (needed + 1024))) t
     else (Inr (), t))"

definition insert_entries :: "'g vext \<Rightarrow> (ulid \<times> vec) list \<Rightarrow> ('g, unit) table_op" where
  "insert_entries x es =
    (if es = [] then io_ret ()
     else io_bind (reserve_for x (length es)) (\<lambda>_. for_each (insert_one x) es))"


section \<open>Operations on a handle\<close>

type_synonym ('g, 'a) vop = "('g vindex \<times> disk, 'a) st"

definition on_disk :: "'a io \<Rightarrow> ('g, 'a) vop" where
  "on_disk m s = (case m (snd s) of (r, d) \<Rightarrow> (r, (fst s, d)))"

definition on_handle :: "('g vindex \<Rightarrow> 'g vindex) \<Rightarrow> ('g, unit) vop" where
  "on_handle f s = (Inr (), (f (fst s), snd s))"

definition with_handle :: "('g vindex \<Rightarrow> ('g, 'a) vop) \<Rightarrow> ('g, 'a) vop" where
  "with_handle f s = f (fst s) s"

text \<open>An operation on the graph and the keymap of the handle; its effects stay on an error.\<close>

definition on_table :: "('g, 'a) table_op \<Rightarrow> ('g, 'a) vop" where
  "on_table m s = (case m (vi_inner (fst s), vi_keymap (fst s)) of (r, g, km) \<Rightarrow>
     (r, ((fst s)\<lparr>vi_inner := g, vi_keymap := km\<rparr>, snd s)))"

fun check_dims :: "nat \<Rightarrow> (ulid \<times> vec) list \<Rightarrow> search_error + unit" where
  "check_dims n [] = Inr ()"
| "check_dims n (e # es) =
     (if length (snd e) \<noteq> n then Inl (Dim_Mismatch n (length (snd e))) else check_dims n es)"

definition add_entries :: "'g vext \<Rightarrow> (ulid \<times> vec) list \<Rightarrow> bool \<Rightarrow> ('g, unit) vop" where
  "add_entries x es queue = with_handle (\<lambda>h.
    io_bind (io_lift (check_dims (dim (vi_meta h)) es)) (\<lambda>_.
    io_bind (on_table (insert_entries x es)) (\<lambda>_.
    on_handle (\<lambda>h. if queue then h\<lparr>vi_pending := vi_pending h @ es\<rparr> else h))))"

definition add_batch :: "'g vext \<Rightarrow> (ulid \<times> vec) list \<Rightarrow> ('g, unit) vop" where
  "add_batch x es = add_entries x es True"

definition add :: "'g vext \<Rightarrow> ulid \<Rightarrow> vec \<Rightarrow> ('g, unit) vop" where
  "add x i v = add_batch x [(i, v)]"

definition remove_key :: "'g vext \<Rightarrow> ulid \<Rightarrow> ('g, nat option) table_op" where
  "remove_key x i t =
    (case map_of (reverse (snd t)) i of
       None \<Rightarrow> (Inr None, t)
     | Some k \<Rightarrow> io_bind (graph_op ''usearch remove'' (us_remove x k)) (\<lambda>_. io_ret (Some k))
         (fst t, forget_key i k (snd t)))"

definition remove :: "'g vext \<Rightarrow> ulid \<Rightarrow> ('g, unit) vop" where
  "remove x i =
    io_bind (on_table (remove_key x i)) (\<lambda>k.
    on_handle (\<lambda>h. h\<lparr>vi_pending := filter (\<lambda>(j, _). j \<noteq> i) (vi_pending h),
      vi_tombstones := (if k = None then vi_tombstones h else List.insert i (vi_tombstones h))\<rparr>))"

definition absorb_journal :: "'g vext \<Rightarrow> ('g, unit) vop" where
  "absorb_journal x = with_handle (\<lambda>h.
    io_bind (on_disk (replay (vi_journal h))) (\<lambda>records.
    if records = [] then io_ret ()
    else
      let missing = filter (\<lambda>(i, _). map_of (reverse (vi_keymap h)) i = None \<and>
            i \<notin> set (vi_tombstones h)) records in
      if missing = [] then io_ret () else add_entries x missing False))"

section \<open>The metadata files\<close>

definition embedding_result :: "string \<Rightarrow> string + 'a \<Rightarrow> search_error + 'a" where
  "embedding_result what r = (case r of Inl why \<Rightarrow> Inl (Embedding what why) | Inr x \<Rightarrow> Inr x)"

definition or_else :: "string + 'a \<Rightarrow> string + 'a \<Rightarrow> string + 'a" where
  "or_else r r' = (case r of Inr x \<Rightarrow> Inr x | Inl e \<Rightarrow> (case r' of Inr x \<Rightarrow> Inr x | Inl _ \<Rightarrow> Inl e))"

definition decode_keymap :: "'g vext \<Rightarrow> string \<Rightarrow> bytes \<Rightarrow> string + keymap" where
  "decode_keymap x version bs =
    (let v2 = get_keymap x bs; v1 = (case get_keymap_v1 x bs of Inl e \<Rightarrow> Inl e | Inr m \<Rightarrow> Inr (keymap_of_v1 m)) in
     if version = FORMAT_VERSION_V1 then or_else v1 v2 else or_else v2 v1)"

definition read_keymap :: "'g vext \<Rightarrow> string \<Rightarrow> string \<Rightarrow> keymap io" where
  "read_keymap x path version = io_bind (read_file path) (\<lambda>bs.
     io_lift (embedding_result ''deserializing keymap.bin'' (decode_keymap x version bs)))"

definition read_to_string :: "string \<Rightarrow> bytes io" where
  "read_to_string p = io_bind (read_file p) (\<lambda>bs.
     if utf8_valid bs then io_ret bs else io_fail (Search_Io p))"

definition disk_format_version :: "'g vext \<Rightarrow> string \<Rightarrow> string option io" where
  "disk_format_version x path = io_bind (contents path) (\<lambda>file.
     if file = None then io_bind (quiet path) (\<lambda>_. io_ret None)
     else io_bind (read_to_string path) (\<lambda>bs.
       io_bind (io_lift (embedding_result ''parsing existing .meta.json'' (get_format x bs)))
         (\<lambda>v. io_ret (Some v))))"

text \<open>
  \<open>write_meta_atomic\<close>: write, fsync, rename, fsync the directory. Losing the rename to another
  writer of the same file is no error as long as the file exists. The name of the temporary file
  carries the process and a sequence number, which only keeps writers apart.
\<close>

definition rename_meta :: "string \<Rightarrow> string \<Rightarrow> unit io" where
  "rename_meta tmp path d =
    (case rename_file tmp path d of
       (Inr _, d') \<Rightarrow> (Inr (), d')
     | (Inl e, d') \<Rightarrow> (case remove_file tmp d' of (_, d'') \<Rightarrow>
         if files d'' path = None then (Inl e, d'') else (Inr (), d'')))"

definition write_meta_atomic :: "'g vext \<Rightarrow> string \<Rightarrow> vmeta \<Rightarrow> unit io" where
  "write_meta_atomic x path m =
    io_bind (io_lift (embedding_result ''serializing .meta.json'' (put_meta x m))) (\<lambda>bs.
    io_bind (write_file (temp_of path) bs) (\<lambda>_.
    io_bind (sync_file (temp_of path)) (\<lambda>_.
    io_bind (rename_meta (temp_of path) path) (\<lambda>_.
    if parent path \<noteq> [] then sync_dir (parent path) else io_ret ()))))"

definition fresh_meta :: "'g vext \<Rightarrow> index_options \<Rightarrow> vmeta" where
  "fresh_meta x opts =
    \<lparr>format_version = FORMAT_VERSION, model_id = em_model_id x, dim = em_dim x, distance = ''cosine'',
     hnsw_m = opt_hnsw_m opts, hnsw_ef_construction = opt_ef_construction opts,
     created_at = wall_clock x\<rparr>"

definition check_meta :: "'g vext \<Rightarrow> string \<Rightarrow> vmeta \<Rightarrow> search_error + unit" where
  "check_meta x dir m =
    (if format_version m \<noteq> FORMAT_VERSION \<and> format_version m \<noteq> FORMAT_VERSION_V1
     then Inl (Index_Corrupted dir (Index_Format (format_version m)))
     else if model_id m \<noteq> em_model_id x then Inl (Model_Mismatch dir (model_id m) (em_model_id x))
     else if dim m \<noteq> em_dim x then Inl (Dim_Mismatch (dim m) (em_dim x))
     else Inr ())"

definition load_meta :: "'g vext \<Rightarrow> string \<Rightarrow> index_options \<Rightarrow> (vmeta \<times> string option) io" where
  "load_meta x dir opts =
    io_bind (contents (meta_path dir)) (\<lambda>file.
    if file = None
    then io_bind (write_meta_atomic x (meta_path dir) (fresh_meta x opts)) (\<lambda>_.
      io_ret (fresh_meta x opts, None))
    else io_bind (read_to_string (meta_path dir)) (\<lambda>bs.
      io_bind (io_lift (embedding_result ''parsing existing .meta.json'' (get_meta x bs))) (\<lambda>m.
      io_bind (io_lift (check_meta x dir m)) (\<lambda>_.
      io_ret (m\<lparr>format_version := FORMAT_VERSION\<rparr>, Some (format_version m))))))"


section \<open>Loading\<close>

definition usearch_options_of :: "vmeta \<Rightarrow> nat \<Rightarrow> usearch_options" where
  "usearch_options_of m expansion =
    \<lparr>uo_dimensions = dim m, uo_connectivity = hnsw_m m,
     uo_expansion_add = hnsw_ef_construction m, uo_expansion_search = expansion\<rparr>"

text \<open>
  Both \<open>load\<close> and \<open>reload_if_stale\<close> build a graph and fill it from \<open>index.usearch\<close>, or reserve room
  when there is no file; they differ in the contexts of their errors.
\<close>

definition load_graph ::
  "'g vext \<Rightarrow> string \<Rightarrow> usearch_options \<Rightarrow> string \<Rightarrow> string \<Rightarrow> ('g \<times> bool) io" where
  "load_graph x dir opts ctx_new ctx_load =
    io_bind (io_lift (usearch_result ctx_new (us_new x opts))) (\<lambda>g.
    io_bind (contents (usearch_path dir)) (\<lambda>file.
    case file of
      Some bs \<Rightarrow> io_bind (quiet (usearch_path dir)) (\<lambda>_.
        io_bind (io_lift (usearch_result ctx_load (us_load x bs g))) (\<lambda>g'. io_ret (g', True)))
    | None \<Rightarrow>
        io_bind (io_lift (usearch_result ''reserving initial usearch capacity'' (us_reserve x 1024 g)))
          (\<lambda>g'. io_ret (g', False))))"

definition load_keymap :: "'g vext \<Rightarrow> string \<Rightarrow> string \<Rightarrow> keymap io" where
  "load_keymap x dir version = io_bind (contents (keymap_path dir)) (\<lambda>file.
     if file = None then io_ret default_keymap else read_keymap x (keymap_path dir) version)"

definition reset_stale :: "bool \<Rightarrow> keymap \<Rightarrow> keymap" where
  "reset_stale index_present m =
    (if \<not> index_present \<and> forward m \<noteq> [] then m\<lparr>forward := [], reverse := []\<rparr> else m)"

definition load_handle :: "'g vext \<Rightarrow> string \<Rightarrow> index_options \<Rightarrow> 'g vindex io" where
  "load_handle x dir opts =
    io_bind (load_meta x dir opts) (\<lambda>(m, disk_format).
    let version = (case disk_format of Some v \<Rightarrow> v | None \<Rightarrow> FORMAT_VERSION) in
    io_bind (load_graph x dir (usearch_options_of m (opt_expansion_search opts))
      ''constructing usearch::Index'' ''loading existing usearch index'') (\<lambda>(g, index_present).
    io_bind (load_keymap x dir version) (\<lambda>km.
    io_bind (open_journal (journal_path dir) (dim m) (model_id m)) (\<lambda>j.
    io_ret \<lparr>vi_path = dir, vi_meta = m, vi_inner = g, vi_keymap = reset_stale index_present km,
      vi_expansion_search = opt_expansion_search opts, vi_journal = j, vi_pending = [],
      vi_generation = generation km, vi_upgrade = (version = FORMAT_VERSION_V1),
      vi_tombstones = []\<rparr>))))"

definition load :: "'g vext \<Rightarrow> string \<Rightarrow> index_options \<Rightarrow> 'g vindex io" where
  "load x dir opts = io_bind (load_handle x dir opts) (\<lambda>h d.
    case absorb_journal x (h, d) of
      (Inl e, (_, d')) \<Rightarrow> (Inl e, d')
    | (Inr _, (h', d')) \<Rightarrow> (Inr h', d'))"

text \<open>
  The lock: up to five attempts (the sleeps between them change nothing here). A directory that
  cannot be written to is loaded without the lock.
\<close>

definition PERMISSION :: string where "PERMISSION = ''permission denied''"

fun lock_attempts :: "nat \<Rightarrow> string \<Rightarrow> unit io" where
  "lock_attempts 0 p = io_fail (Usearch ''acquiring vector index lock'' ''busy after 5 attempts'')"
| "lock_attempts (Suc n) p = (\<lambda>d.
    case lock_script d of
      [] \<Rightarrow> (Inr (), d)
    | a # as \<Rightarrow>
       (let d' = d\<lparr>lock_script := as\<rparr> in
        case a of
          Taken \<Rightarrow> (Inr (), d')
        | Busy \<Rightarrow> lock_attempts n p d'
        | Denied \<Rightarrow> (Inl (Search_Io PERMISSION), d')
        | Broken \<Rightarrow> (Inl (Search_Io p), d')))"

definition acquire_lock_at :: "string \<Rightarrow> unit io" where
  "acquire_lock_at p = lock_attempts LOCK_ATTEMPTS p"

definition acquire_load_lock :: "string \<Rightarrow> unit io" where
  "acquire_load_lock p d =
    (case acquire_lock_at p d of
       (Inl (Search_Io what), d') \<Rightarrow>
         if what = PERMISSION then (Inr (), d') else (Inl (Search_Io what), d')
     | other \<Rightarrow> other)"

text \<open>Best effort: when the directory cannot be changed the litter stays.\<close>

definition is_temp :: "string \<Rightarrow> string \<Rightarrow> bool" where
  "is_temp dir p = (prefix (dir @ ''/'') p \<and> CHR ''/'' \<notin> set (drop (length dir + 1) p) \<and> suffix ''.tmp'' p)"

definition sweep_temp_files :: "string \<Rightarrow> unit io" where
  "sweep_temp_files dir d =
    (case syscall dir (\<lambda>_ fs. fs) (\<lambda>fs p. if is_temp dir p then None else fs p) d of
       (_, d') \<Rightarrow> (Inr (), d'))"

fun is_retryable_load_error :: "search_error \<Rightarrow> bool" where
  "is_retryable_load_error (Usearch _ _) = True"
| "is_retryable_load_error (Embedding what _) = (what = ''deserializing keymap.bin'')"
| "is_retryable_load_error _ = False"

definition locked_load :: "'g vext \<Rightarrow> string \<Rightarrow> index_options \<Rightarrow> (search_error + 'g vindex) io" where
  "locked_load x dir opts =
    io_bind (acquire_load_lock (in_dir dir ''lock'')) (\<lambda>_.
    io_bind (sweep_temp_files dir) (\<lambda>_ d.
    case load x dir opts d of (r, d') \<Rightarrow> (Inr r, d')))"

definition open_with_options :: "'g vext \<Rightarrow> string \<Rightarrow> index_options \<Rightarrow> 'g vindex io" where
  "open_with_options x dir opts =
    io_bind (quiet dir) (\<lambda>_.
    io_bind (locked_load x dir opts) (\<lambda>first.
    case first of
      Inr h \<Rightarrow> io_ret h
    | Inl e \<Rightarrow>
        if is_retryable_load_error e then io_bind (locked_load x dir opts) io_lift
        else io_fail e))"

definition open_index :: "'g vext \<Rightarrow> string \<Rightarrow> 'g vindex io" where
  "open_index x dir = open_with_options x dir default_index_options"

section \<open>Committing\<close>

text \<open>\<open>?\<close> with an action on the handle when the first operation fails (\<open>inspect_err\<close>).\<close>

definition on_error :: "('g vindex \<Rightarrow> 'g vindex) \<Rightarrow> ('g, 'a) vop \<Rightarrow> ('g, 'a) vop" where
  "on_error f m s = (case m s of
      (Inl e, (h, d)) \<Rightarrow> (Inl e, (f h, d))
    | ok \<Rightarrow> ok)"

definition requeue :: "(ulid \<times> vec) list \<Rightarrow> 'g vindex \<Rightarrow> 'g vindex" where
  "requeue rs h = (if rs = [] then h else h\<lparr>vi_pending := rs @ vi_pending h\<rparr>)"

definition write_meta_upgrade :: "'g vext \<Rightarrow> ('g, unit) vop" where
  "write_meta_upgrade x = with_handle (\<lambda>h.
    if \<not> vi_upgrade h then io_ret ()
    else io_bind (on_handle (\<lambda>h. h\<lparr>vi_upgrade := False\<rparr>)) (\<lambda>_.
      on_error (\<lambda>h. h\<lparr>vi_upgrade := True\<rparr>)
        (on_disk (write_meta_atomic x (meta_path (vi_path h)) (vi_meta h)))))"

definition adopt_newer :: "'g vext \<Rightarrow> 'g vindex \<Rightarrow> keymap \<Rightarrow> ('g, unit) vop" where
  "adopt_newer x h disk_keymap =
    (if generation disk_keymap = vi_generation h then io_ret ()
     else
       io_bind (on_disk (load_graph x (vi_path h) (usearch_options_of (vi_meta h) (vi_expansion_search h))
         ''constructing usearch::Index for a stale-handle reload''
         ''reloading usearch index after another handle compacted'')) (\<lambda>(fresh, _).
       case insert_entries x (vi_pending h) (fresh, disk_keymap) of
         (Inl e, _) \<Rightarrow> io_fail e
       | (Inr _, (g, km)) \<Rightarrow> on_handle (\<lambda>h. h\<lparr>vi_inner := g, vi_keymap := km,
            vi_generation := generation disk_keymap\<rparr>)))"

definition reload_if_stale :: "'g vext \<Rightarrow> ('g, unit) vop" where
  "reload_if_stale x = with_handle (\<lambda>h.
    io_bind (on_disk (contents (keymap_path (vi_path h)))) (\<lambda>file.
    if file = None then io_ret ()
    else
      io_bind (on_disk (disk_format_version x (meta_path (vi_path h)))) (\<lambda>v.
      io_bind (on_disk (read_keymap x (keymap_path (vi_path h))
          (case v of Some v \<Rightarrow> v | None \<Rightarrow> FORMAT_VERSION))) (adopt_newer x h))))"

definition publish_compaction :: "'g vext \<Rightarrow> nat \<Rightarrow> ('g, unit) vop" where
  "publish_compaction x size_now = with_handle (\<lambda>h.
    let dir = vi_path h; idx = usearch_path dir; kmp = keymap_path dir; gen = vi_generation h + 1 in
    io_bind (on_disk (
      if 0 < size_now then io_bind (sync_file (temp_of idx)) (\<lambda>_. rename_file (temp_of idx) idx)
      else io_bind (contents idx) (\<lambda>file. if file = None then io_ret () else remove_file idx))) (\<lambda>_.
    io_bind (on_handle (\<lambda>h. h\<lparr>vi_keymap := (vi_keymap h)\<lparr>generation := gen\<rparr>\<rparr>)) (\<lambda>_.
    io_bind (io_lift (embedding_result ''serializing keymap''
      (put_keymap x ((vi_keymap h)\<lparr>generation := gen\<rparr>)))) (\<lambda>bs.
    io_bind (on_disk (write_file (temp_of kmp) bs)) (\<lambda>_.
    io_bind (on_disk (sync_file (temp_of kmp))) (\<lambda>_.
    io_bind (on_disk (rename_file (temp_of kmp) kmp)) (\<lambda>_.
    io_bind (on_disk (sync_dir dir)) (\<lambda>_.
    io_bind (on_disk (clear_journal (vi_journal h))) (\<lambda>_.
    on_handle (\<lambda>h. h\<lparr>vi_tombstones := [], vi_generation := gen\<rparr>))))))))))"

text \<open>\<open>usearch::Index::save\<close> writes the file itself.\<close>

definition save_graph :: "'g vext \<Rightarrow> string \<Rightarrow> 'g \<Rightarrow> unit io" where
  "save_graph x path g d =
    (case us_save x g of
       Inl why \<Rightarrow> (Inl (Usearch ''usearch save'' why), d)
     | Inr bs \<Rightarrow> (case write_file path bs d of
          (Inl _, d') \<Rightarrow> (Inl (Usearch ''usearch save'' ''write failed''), d')
        | ok \<Rightarrow> ok))"

definition save_and_publish :: "'g vext \<Rightarrow> ('g, unit) vop" where
  "save_and_publish x = with_handle (\<lambda>h.
    let size_now = us_size x (vi_inner h) in
    io_bind (if 0 < size_now then on_disk (save_graph x (temp_of (usearch_path (vi_path h))) (vi_inner h))
             else io_ret ()) (\<lambda>_.
    publish_compaction x size_now))"

definition compact_locked :: "'g vext \<Rightarrow> ('g, unit) vop" where
  "compact_locked x =
    io_bind (reload_if_stale x) (\<lambda>_.
    io_bind (absorb_journal x) (\<lambda>_.
    with_handle (\<lambda>h.
      io_bind (on_handle (\<lambda>h. h\<lparr>vi_pending := []\<rparr>)) (\<lambda>_.
      on_error (requeue (vi_pending h)) (save_and_publish x)))))"

function chunks :: "nat \<Rightarrow> 'a list \<Rightarrow> 'a list list" where
  "chunks n xs = (if n = 0 \<or> xs = [] then [] else take n xs # chunks n (drop n xs))"
  by pat_completeness auto
termination by (relation "measure (\<lambda>(n, xs). length xs)") auto

declare chunks.simps [simp del]

fun append_chunks :: "(ulid \<times> vec) list \<Rightarrow> nat \<Rightarrow> (ulid \<times> vec) list list \<Rightarrow> ('g, unit) vop" where
  "append_chunks drained written [] = io_ret ()"
| "append_chunks drained written (c # cs) = with_handle (\<lambda>h.
    io_bind (on_error (requeue (drop written drained)) (on_disk (append_records (vi_journal h) c))) (\<lambda>_.
    append_chunks drained (written + length c) cs))"

definition commit_locked :: "'g vext \<Rightarrow> bool \<Rightarrow> ('g, unit) vop" where
  "commit_locked x end_of_batch =
    io_bind (write_meta_upgrade x) (\<lambda>_.
    if end_of_batch then compact_locked x
    else with_handle (\<lambda>h.
      io_bind (on_handle (\<lambda>h. h\<lparr>vi_pending := []\<rparr>)) (\<lambda>_.
      io_bind (append_chunks (vi_pending h) 0 (chunks JOURNAL_APPEND_CHUNK (vi_pending h))) (\<lambda>_.
      io_bind (on_disk (journal_len (vi_journal h))) (\<lambda>n.
      if COMPACT_THRESHOLD < n then compact_locked x else io_ret ())))))"

definition commit :: "'g vext \<Rightarrow> bool \<Rightarrow> ('g, unit) vop" where
  "commit x end_of_batch = with_handle (\<lambda>h.
    io_bind (on_disk (acquire_lock_at (in_dir (vi_path h) ''lock''))) (\<lambda>_.
    commit_locked x end_of_batch))"

definition compact :: "'g vext \<Rightarrow> ('g, unit) vop" where
  "compact x = with_handle (\<lambda>h.
    io_bind (on_disk (acquire_lock_at (in_dir (vi_path h) ''lock''))) (\<lambda>_. commit_locked x True))"

definition save :: "'g vext \<Rightarrow> ('g, unit) vop" where "save x = compact x"

section \<open>Reading\<close>

definition index_len :: "'g vindex \<Rightarrow> nat" where "index_len h = length (forward (vi_keymap h))"

definition is_empty :: "'g vindex \<Rightarrow> bool" where "is_empty h \<longleftrightarrow> index_len h = 0"

definition doc_count :: "'g vindex \<Rightarrow> search_error + nat" where "doc_count h = Inr (index_len h)"

definition contains :: "'g vindex \<Rightarrow> ulid \<Rightarrow> bool" where
  "contains h i \<longleftrightarrow> map_of (reverse (vi_keymap h)) i \<noteq> None"

definition index_journal_len :: "('g, nat) vop" where
  "index_journal_len = with_handle (\<lambda>h. on_disk (journal_len (vi_journal h)))"

definition vector_search :: "'g vext \<Rightarrow> 'g vindex \<Rightarrow> vec \<Rightarrow> nat \<Rightarrow> search_error + (ulid \<times> rat) list" where
  "vector_search x h q k =
    (if length q \<noteq> dim (vi_meta h) then Inl (Dim_Mismatch (dim (vi_meta h)) (length q))
     else rbind (usearch_result ''usearch search'' (us_search x q k (vi_inner h))) (\<lambda>ms.
       Inr (List.map_filter (\<lambda>(key, dist). map_option (\<lambda>i. (i, f32_sub 1 dist))
              (map_of (forward (vi_keymap h)) key)) ms)))"

section \<open>The index hook over the embedder\<close>

record 'g embedder_index =
  ei_index :: "'g vindex"
  ei_batch_end :: bool

type_synonym ('g, 'a) eop = "('g embedder_index \<times> disk, 'a) st"

definition on_index :: "('g, 'a) vop \<Rightarrow> ('g, 'a) eop" where
  "on_index m s = (case m (ei_index (fst s), snd s) of (r, (h, d)) \<Rightarrow>
     (r, ((fst s)\<lparr>ei_index := h\<rparr>, d)))"

definition open_embedder_index :: "'g vext \<Rightarrow> string \<Rightarrow> 'g embedder_index io" where
  "open_embedder_index x dir = io_bind (open_index x dir) (\<lambda>h.
     io_ret \<lparr>ei_index = h, ei_batch_end = False\<rparr>)"

definition hook_on_ingest :: "'g vext \<Rightarrow> item \<Rightarrow> ('g, unit) eop" where
  "hook_on_ingest x it = io_bind (io_lift (em_embed x (content it))) (\<lambda>v.
     on_index (add x (item_id it) v))"

definition hook_on_reindex :: "'g vext \<Rightarrow> item \<Rightarrow> ('g, unit) eop" where
  "hook_on_reindex = hook_on_ingest"

definition ingest_chunk :: "'g vext \<Rightarrow> item list \<Rightarrow> ('g, unit) eop" where
  "ingest_chunk x chunk = io_bind (io_lift (em_embed_batch x (map content chunk))) (\<lambda>vs.
     if length vs \<noteq> length chunk
     then io_fail (Embedding ''embed_batch returned a short result'' [])
     else on_index (add_batch x (zip (map item_id chunk) vs)))"

definition hook_on_ingest_batch :: "'g vext \<Rightarrow> item list \<Rightarrow> ('g, unit) eop" where
  "hook_on_ingest_batch x its =
    io_bind (for_each (ingest_chunk x) (chunks EMBED_CHUNK its)) (\<lambda>_ s.
      (Inr (), ((fst s)\<lparr>ei_batch_end := True\<rparr>, snd s)))"

definition hook_commit :: "'g vext \<Rightarrow> ('g, unit) eop" where
  "hook_commit x s =
    (let end_of_batch = ei_batch_end (fst s) in
     io_bind (on_index (commit x end_of_batch)) (\<lambda>_ s.
       (Inr (), (if end_of_batch then ((fst s)\<lparr>ei_batch_end := False\<rparr>, snd s) else s))) s)"

definition semantic_search ::
  "'g vext \<Rightarrow> 'g vindex \<Rightarrow> string \<Rightarrow> nat \<Rightarrow> rat \<Rightarrow> search_error + (ulid \<times> rat) list \<times> nat" where
  "semantic_search x h q top_k min_score =
    rbind (em_embed x q) (\<lambda>qv.
    rbind (vector_search x h qv top_k) (\<lambda>raw.
    rbind (doc_count h) (\<lambda>total.
    Inr (filter (\<lambda>(_, sc). min_score \<le> sc) raw, total))))"

end
