(* ===== verification/Vector_Keys.thy ===== *)
theory Vector_Keys
  imports Vector_Index
begin

text \<open>
  The table of a vector index: the USearch graph and the keymap as one map from item ids to
  vectors. The invariant says that the two directions of the keymap are inverse to each other and
  that every key it names is in the graph; every operation keeps it, also when it fails half-way,
  and changes the map the way its name says.
\<close>

section \<open>What the libraries promise\<close>

text \<open>
  \<open>vecs g\<close> is the content of a graph: one vector for each key. USearch documents that adding,
  removing, saving and loading change it accordingly, and that a search returns at most \<open>k\<close>
  different keys of the graph by ascending distance. The serialisers read back what they wrote.
\<close>

definition graph_laws :: "'g vext \<Rightarrow> ('g \<Rightarrow> nat \<Rightarrow> vec option) \<Rightarrow> bool" where
  "graph_laws x vecs \<longleftrightarrow>
    (\<forall>opts g. us_new x opts = Inr g \<longrightarrow> vecs g = Map.empty) \<and>
    (\<forall>n g g'. us_reserve x n g = Inr g' \<longrightarrow> vecs g' = vecs g) \<and>
    (\<forall>k g. us_contains x k g \<longleftrightarrow> vecs g k \<noteq> None) \<and>
    (\<forall>k v g g'. us_add x k v g = Inr g' \<longrightarrow> vecs g' = (vecs g)(k \<mapsto> v)) \<and>
    (\<forall>k g g'. us_remove x k g = Inr g' \<longrightarrow> vecs g' = (vecs g)(k := None)) \<and>
    (\<forall>g. us_size x g = 0 \<longrightarrow> vecs g = Map.empty) \<and>
    (\<forall>g bs g0 g'. us_save x g = Inr bs \<and> us_load x bs g0 = Inr g' \<longrightarrow> vecs g' = vecs g) \<and>
    (\<forall>q k g ms. us_search x q k g = Inr ms \<longrightarrow>
       distinct (map fst ms) \<and> length ms \<le> k \<and> sorted (map snd ms))"

definition codec_laws :: "'g vext \<Rightarrow> bool" where
  "codec_laws x \<longleftrightarrow>
    (\<forall>m bs. put_keymap x m = Inr bs \<longrightarrow> get_keymap x bs = Inr m) \<and>
    (\<forall>m bs. put_meta x m = Inr bs \<longrightarrow>
       get_meta x bs = Inr m \<and> get_format x bs = Inr (format_version m) \<and> utf8_valid bs)"

lemma graph_lawsD:
  assumes "graph_laws x vecs"
  shows "us_new x opts = Inr g \<Longrightarrow> vecs g = Map.empty"
    and "us_reserve x n g = Inr g' \<Longrightarrow> vecs g' = vecs g"
    and "us_contains x k g \<longleftrightarrow> vecs g k \<noteq> None"
    and "us_add x k v g = Inr g' \<Longrightarrow> vecs g' = (vecs g)(k \<mapsto> v)"
    and "us_remove x k g = Inr g' \<Longrightarrow> vecs g' = (vecs g)(k := None)"
    and "us_size x g = 0 \<Longrightarrow> vecs g = Map.empty"
    and "us_save x g = Inr bs \<Longrightarrow> us_load x bs g0 = Inr g' \<Longrightarrow> vecs g' = vecs g"
    and "us_search x q k g = Inr ms \<Longrightarrow> distinct (map fst ms)"
    and "us_search x q k g = Inr ms \<Longrightarrow> length ms \<le> k"
    and "us_search x q k g = Inr ms \<Longrightarrow> sorted (map snd ms)"
proof -
  note A = assms[unfolded graph_laws_def]
  note R = A[THEN conjunct2] A[THEN conjunct2, THEN conjunct2] A[THEN conjunct2, THEN conjunct2, THEN conjunct2]
  note S = R(3)[THEN conjunct2] R(3)[THEN conjunct2, THEN conjunct2] R(3)[THEN conjunct2, THEN conjunct2, THEN conjunct2]
  show "us_new x opts = Inr g \<Longrightarrow> vecs g = Map.empty" by (rule A[THEN conjunct1, rule_format])
  show "us_reserve x n g = Inr g' \<Longrightarrow> vecs g' = vecs g" by (rule R(1)[THEN conjunct1, rule_format])
  show "us_contains x k g \<longleftrightarrow> vecs g k \<noteq> None" by (rule R(2)[THEN conjunct1, rule_format])
  show "us_add x k v g = Inr g' \<Longrightarrow> vecs g' = (vecs g)(k \<mapsto> v)" by (rule R(3)[THEN conjunct1, rule_format])
  show "us_remove x k g = Inr g' \<Longrightarrow> vecs g' = (vecs g)(k := None)" by (rule S(1)[THEN conjunct1, rule_format])
  show "us_size x g = 0 \<Longrightarrow> vecs g = Map.empty" by (rule S(2)[THEN conjunct1, rule_format])
  show "us_save x g = Inr bs \<Longrightarrow> us_load x bs g0 = Inr g' \<Longrightarrow> vecs g' = vecs g"
    by (rule S(3)[THEN conjunct1, rule_format]) blast
  show "us_search x q k g = Inr ms \<Longrightarrow> distinct (map fst ms)" "us_search x q k g = Inr ms \<Longrightarrow> length ms \<le> k"
    "us_search x q k g = Inr ms \<Longrightarrow> sorted (map snd ms)"
    using S(3)[THEN conjunct2] by blast+
qed

section \<open>The invariant and the map\<close>

text \<open>The forward and the reverse direction, the graph's content and the next key.\<close>

definition maps_ok ::
  "(nat \<Rightarrow> ulid option) \<Rightarrow> (ulid \<Rightarrow> nat option) \<Rightarrow> (nat \<Rightarrow> vec option) \<Rightarrow> nat \<Rightarrow> bool" where
  "maps_ok fw rv vs n \<longleftrightarrow>
    (\<forall>k i. fw k = Some i \<longleftrightarrow> rv i = Some k) \<and> (\<forall>k i. fw k = Some i \<longrightarrow> k < n \<and> vs k \<noteq> None)"

definition named :: "(ulid \<Rightarrow> nat option) \<Rightarrow> (nat \<Rightarrow> vec option) \<Rightarrow> ulid \<Rightarrow> vec option" where
  "named rv vs i = (case rv i of None \<Rightarrow> None | Some k \<Rightarrow> vs k)"

definition table_ok :: "('g \<Rightarrow> nat \<Rightarrow> vec option) \<Rightarrow> 'g \<times> keymap \<Rightarrow> bool" where
  "table_ok vecs t \<longleftrightarrow>
    maps_ok (map_of (forward (snd t))) (map_of (reverse (snd t))) (vecs (fst t)) (next_key (snd t)) \<and>
    distinct (map fst (forward (snd t)))"

definition vectors :: "('g \<Rightarrow> nat \<Rightarrow> vec option) \<Rightarrow> 'g \<times> keymap \<Rightarrow> ulid \<Rightarrow> vec option" where
  "vectors vecs t = named (map_of (reverse (snd t))) (vecs (fst t))"

lemma maps_okD:
  assumes "maps_ok fw rv vs n"
  shows "rv i = Some k \<Longrightarrow> fw k = Some i" "fw k = Some i \<Longrightarrow> rv i = Some k"
    "rv i = Some k \<Longrightarrow> k < n" "rv i = Some k \<Longrightarrow> \<exists>v. vs k = Some v"
proof -
  note A = assms[unfolded maps_ok_def, THEN conjunct1, rule_format]
  note B = assms[unfolded maps_ok_def, THEN conjunct2, rule_format]
  show "rv i = Some k \<Longrightarrow> fw k = Some i" "fw k = Some i \<Longrightarrow> rv i = Some k" using A by blast+
  show "rv i = Some k \<Longrightarrow> k < n" "rv i = Some k \<Longrightarrow> \<exists>v. vs k = Some v" using A B by blast+
qed

lemma maps_okI:
  assumes "\<And>k i. fw k = Some i \<Longrightarrow> rv i = Some k" "\<And>k i. rv i = Some k \<Longrightarrow> fw k = Some i"
    and "\<And>k i. rv i = Some k \<Longrightarrow> k < n \<and> vs k \<noteq> None"
  shows "maps_ok fw rv vs n"
  using assms unfolding maps_ok_def by blast

lemma maps_ok_forget:
  assumes ok: "maps_ok fw rv vs n" and i: "rv i = Some k" and vs': "vs' = vs \<or> vs' = vs(k := None)"
  shows "maps_ok (fw(k := None)) (rv(i := None)) vs' n"
    and "named (rv(i := None)) vs' = (named rv vs)(i := None)"
proof -
  have inj: "j = i" if "rv j = Some k" for j
    using maps_okD(1)[OF ok i] maps_okD(1)[OF ok that] by simp
  have keep: "vs' l = vs l" if "rv j = Some l" "j \<noteq> i" for j l
    using that inj vs' by (cases "l = k") auto
  show "maps_ok (fw(k := None)) (rv(i := None)) vs' n"
  proof (rule maps_okI)
    show "(rv(i := None)) b = Some a" if "(fw(k := None)) a = Some b" for a b
      using that maps_okD(2)[OF ok, of a b] maps_okD(1)[OF ok i] i by (auto split: if_splits)
    show "(fw(k := None)) a = Some b" if "(rv(i := None)) b = Some a" for a b
      using that maps_okD(1)[OF ok, of b a] inj[of b] by (auto split: if_splits)
    show "a < n \<and> vs' a \<noteq> None" if "(rv(i := None)) b = Some a" for a b
      using that maps_okD(3,4)[OF ok, of b a] keep[of b a] by (auto split: if_splits)
  qed
  show "named (rv(i := None)) vs' = (named rv vs)(i := None)"
  proof (rule ext)
    fix j show "named (rv(i := None)) vs' j = ((named rv vs)(i := None)) j"
      by (cases "rv j") (simp_all add: named_def keep)
  qed
qed

lemma maps_ok_record:
  assumes ok: "maps_ok fw rv vs n" and i: "rv i = None" and m: "n < m"
  shows "maps_ok (fw(n \<mapsto> i)) (rv(i \<mapsto> n)) (vs(n \<mapsto> v)) m"
    and "named (rv(i \<mapsto> n)) (vs(n \<mapsto> v)) = (named rv vs)(i \<mapsto> v)"
proof -
  have old: "a \<noteq> n" "a < m" if "rv b = Some a" for a b
    using maps_okD(3)[OF ok that] m by simp_all
  show "maps_ok (fw(n \<mapsto> i)) (rv(i \<mapsto> n)) (vs(n \<mapsto> v)) m"
  proof (rule maps_okI)
    show "(rv(i \<mapsto> n)) b = Some a" if "(fw(n \<mapsto> i)) a = Some b" for a b
      using that maps_okD(2)[OF ok, of a b] i by (auto split: if_splits)
    show "(fw(n \<mapsto> i)) a = Some b" if "(rv(i \<mapsto> n)) b = Some a" for a b
      using that maps_okD(1)[OF ok, of b a] old by (auto split: if_splits)
    show "a < m \<and> (vs(n \<mapsto> v)) a \<noteq> None" if "(rv(i \<mapsto> n)) b = Some a" for a b
      using that maps_okD(4)[OF ok, of b a] old m by (auto split: if_splits)
  qed
  show "named (rv(i \<mapsto> n)) (vs(n \<mapsto> v)) = (named rv vs)(i \<mapsto> v)"
  proof (rule ext)
    fix j show "named (rv(i \<mapsto> n)) (vs(n \<mapsto> v)) j = ((named rv vs)(i \<mapsto> v)) j"
      by (cases "rv j") (simp_all add: named_def old)
  qed
qed

lemma maps_ok_orphan:
  assumes ok: "maps_ok fw rv vs n" shows "maps_ok fw rv (vs(n := None)) n" "named rv (vs(n := None)) = named rv vs"
proof -
  have old: "a \<noteq> n" if "rv b = Some a" for a b using maps_okD(3)[OF ok that] by simp
  show "maps_ok fw rv (vs(n := None)) n"
  proof (rule maps_okI)
    show "rv b = Some a" if "fw a = Some b" for a b by (rule maps_okD(2)[OF ok that])
    show "fw a = Some b" if "rv b = Some a" for a b by (rule maps_okD(1)[OF ok that])
    show "a < n \<and> (vs(n := None)) a \<noteq> None" if "rv b = Some a" for a b
      using maps_okD(3,4)[OF ok that] by auto
  qed
  show "named rv (vs(n := None)) = named rv vs"
  proof (rule ext)
    fix j show "named rv (vs(n := None)) j = named rv vs j"
      by (cases "rv j") (simp_all add: named_def old)
  qed
qed

lemma maps_ok_grow: "maps_ok fw rv vs n \<Longrightarrow> n \<le> m \<Longrightarrow> maps_ok fw rv vs m"
  unfolding maps_ok_def by (meson less_le_trans)

lemma vectors_None:
  "table_ok vecs t \<Longrightarrow> vectors vecs t i = None \<longleftrightarrow> map_of (reverse (snd t)) i = None"
  unfolding table_ok_def vectors_def maps_ok_def named_def
  by (cases "map_of (reverse (snd t)) i") (simp_all del: map_of_eq_Some_iff, blast)

lemma graph_op_cases:
  assumes "graph_op what f t = (r, t')"
  obtains (failed) why where "r = Inl (Usearch what why)" "t' = t"
    | (succeeded) g where "f (fst t) = Inr g" "r = Inr ()" "t' = (g, snd t)"
  using assms by (auto simp: graph_op_def split: sum.splits)

lemma table_ok_forget:
  assumes "table_ok vecs t" "map_of (reverse (snd t)) i = Some k"
    and "vecs g = vecs (fst t) \<or> vecs g = (vecs (fst t))(k := None)"
  shows "table_ok vecs (g, forget_key i k (snd t))"
    and "vectors vecs (g, forget_key i k (snd t)) = (vectors vecs t)(i := None)"
proof -
  have "maps_ok (map_of (forward (snd t))) (map_of (reverse (snd t))) (vecs (fst t)) (next_key (snd t))"
    using assms(1) by (simp add: table_ok_def)
  note F = maps_ok_forget[OF this assms(2,3)]
  show "table_ok vecs (g, forget_key i k (snd t))"
    using F(1) assms(1) by (simp add: table_ok_def forget_key_def delete_conv' distinct_delete)
  show "vectors vecs (g, forget_key i k (snd t)) = (vectors vecs t)(i := None)"
    using F(2) by (simp add: vectors_def forget_key_def delete_conv')
qed

section \<open>Inserting\<close>

text \<open>An operation keeps the table and, when it succeeds, changes the map by \<open>f\<close>.\<close>

definition updates ::
  "('g \<Rightarrow> nat \<Rightarrow> vec option) \<Rightarrow> ('g, 'a) table_op \<Rightarrow> ((ulid \<Rightarrow> vec option) \<Rightarrow> ulid \<Rightarrow> vec option) \<Rightarrow> bool" where
  "updates vecs m f \<longleftrightarrow> (\<forall>t r t'. table_ok vecs t \<longrightarrow> m t = (r, t') \<longrightarrow>
     table_ok vecs t' \<and> next_key (snd t) \<le> next_key (snd t') \<and> generation (snd t') = generation (snd t) \<and>
     (\<forall>y. r = Inr y \<longrightarrow> vectors vecs t' = f (vectors vecs t)))"

lemma updatesD:
  assumes "updates vecs m f" "table_ok vecs t" "m t = (r, t')"
  shows "table_ok vecs t'" "generation (snd t') = generation (snd t)"
    "r = Inr y \<Longrightarrow> vectors vecs t' = f (vectors vecs t)"
  using assms unfolding updates_def by blast+

lemma updates_ret: "updates vecs (io_ret y) (\<lambda>m. m)"
  by (simp add: updates_def)

lemma updates_bind:
  assumes "updates vecs m f" "\<And>y. updates vecs (n y) g"
  shows "updates vecs (io_bind m n) (\<lambda>v. g (f v))"
  unfolding updates_def
proof (intro allI impI)
  fix t r t' assume ok: "table_ok vecs t" and run: "io_bind m n t = (r, t')"
  from run show "table_ok vecs t' \<and> next_key (snd t) \<le> next_key (snd t') \<and>
      generation (snd t') = generation (snd t) \<and> (\<forall>y. r = Inr y \<longrightarrow> vectors vecs t' = g (f (vectors vecs t)))"
  proof (cases rule: io_bind_cases)
    case (Err e) then show ?thesis using assms(1) ok unfolding updates_def by blast
  next
    case (Val y t1)
    have 1: "table_ok vecs t1" "next_key (snd t) \<le> next_key (snd t1)" "generation (snd t1) = generation (snd t)"
      "vectors vecs t1 = f (vectors vecs t)"
      using assms(1) ok Val(1) unfolding updates_def by blast+
    then show ?thesis using assms(2)[of y] Val(2) unfolding updates_def
      by (metis order.trans)
  qed
qed

lemma updates_reserve:
  assumes "graph_laws x vecs" shows "updates vecs (reserve_for x n) (\<lambda>m. m)"
  unfolding updates_def reserve_for_def
  by (auto simp: Let_def table_ok_def vectors_def graph_lawsD(2)[OF assms] elim!: graph_op_cases split: if_splits)

lemma evict_previous_effect:
  assumes L: "graph_laws x vecs" and ok: "table_ok vecs t" and run: "evict_previous x i t = (r, t')"
  shows "table_ok vecs t'" "next_key (snd t') = next_key (snd t)" "generation (snd t') = generation (snd t)"
    "r = Inr () \<Longrightarrow> map_of (reverse (snd t')) i = None \<and> vectors vecs t' = (vectors vecs t)(i := None)"
proof -
  have "table_ok vecs t' \<and> next_key (snd t') = next_key (snd t) \<and> generation (snd t') = generation (snd t) \<and>
    (r = Inr () \<longrightarrow> map_of (reverse (snd t')) i = None \<and> vectors vecs t' = (vectors vecs t)(i := None))"
  proof (cases "map_of (reverse (snd t)) i")
    case None
    then show ?thesis using run ok vectors_None[OF ok]
      by (auto simp: evict_previous_def fun_eq_iff)
  next
    case (Some old)
    let ?t = "(fst t, forget_key i old (snd t))"
    have F: "table_ok vecs (g, forget_key i old (snd t)) \<and>
        vectors vecs (g, forget_key i old (snd t)) = (vectors vecs t)(i := None)"
      if "vecs g = vecs (fst t) \<or> vecs g = (vecs (fst t))(old := None)" for g
      using table_ok_forget[OF ok Some that] by blast
    have K: "map_of (reverse (forget_key i old (snd t))) i = None"
      "next_key (forget_key i old (snd t)) = next_key (snd t)"
      "generation (forget_key i old (snd t)) = generation (snd t)"
      by (simp_all add: forget_key_def delete_conv')
    show ?thesis
    proof (cases "us_contains x old (fst t)")
      case True
      then have "graph_op ''evicting the previous vector of a re-added id'' (us_remove x old) ?t = (r, t')"
        using run Some by (simp add: evict_previous_def Let_def)
      then show ?thesis
        by (cases rule: graph_op_cases) (use F K graph_lawsD(5)[OF L] in auto)
    next
      case False
      then show ?thesis using run Some F K by (auto simp: evict_previous_def Let_def)
    qed
  qed
  then show "table_ok vecs t'" "next_key (snd t') = next_key (snd t)" "generation (snd t') = generation (snd t)"
    "r = Inr () \<Longrightarrow> map_of (reverse (snd t')) i = None \<and> vectors vecs t' = (vectors vecs t)(i := None)"
    by blast+
qed

text \<open>Issuing a key and recording it: in between the key is in the graph, but nothing names it.\<close>

lemma updates_insert_one:
  assumes L: "graph_laws x vecs" shows "updates vecs (insert_one x (i, v)) (\<lambda>m. m(i \<mapsto> v))"
  unfolding updates_def
proof (intro allI impI)
  fix t r t' assume ok: "table_ok vecs t" and run: "insert_one x (i, v) t = (r, t')"
  from run show "table_ok vecs t' \<and> next_key (snd t) \<le> next_key (snd t') \<and>
      generation (snd t') = generation (snd t) \<and> (\<forall>y. r = Inr y \<longrightarrow> vectors vecs t' = (vectors vecs t)(i \<mapsto> v))"
    unfolding insert_one_def
  proof (cases rule: io_bind_cases)
    case (Err e)
    then show ?thesis using evict_previous_effect[OF L ok, of i] by simp
  next
    case (Val y t1)
    note E = evict_previous_effect[OF L ok, of i "Inr y" t1]
    have t1: "evict_previous x i t = (Inr (), t1)" using Val(1) by simp
    let ?k = "next_key (snd t1)" and ?km = "(snd t1)\<lparr>next_key := next_key (snd t1) + 1\<rparr>"
    have ok1: "maps_ok (map_of (forward (snd t1))) (map_of (reverse (snd t1))) (vecs (fst t1)) ?k"
      "distinct (map fst (forward (snd t1)))" using E(1) Val(1) by (simp_all add: table_ok_def)
    have rest: "io_bind (evict_orphan x ?k) (\<lambda>_. io_bind (graph_op ''usearch add'' (us_add x ?k v))
        (\<lambda>_ t. (Inr (), (fst t, record_key i ?k (snd t))))) (fst t1, ?km) = (r, t')"
      using Val(2) by (simp add: issue_key_def io_bind_def)
    have plain: "maps_ok (map_of (forward (snd t1))) (map_of (reverse (snd t1))) (vecs g) (?k + 1) \<and>
        named (map_of (reverse (snd t1))) (vecs g) = vectors vecs t1"
      if "vecs g = vecs (fst t1) \<or> vecs g = (vecs (fst t1))(?k := None)" for g
      using that maps_ok_grow[OF ok1(1), of "?k + 1"] maps_ok_orphan[OF ok1(1)]
        maps_ok_grow[OF maps_ok_orphan(1)[OF ok1(1)], of "?k + 1"]
      by (auto simp: vectors_def)
    have settled: "table_ok vecs (g, ?km)" if "vecs g = vecs (fst t1) \<or> vecs g = (vecs (fst t1))(?k := None)" for g
      using plain[OF that] ok1(2) by (simp add: table_ok_def)
    from rest show ?thesis
    proof (cases rule: io_bind_cases)
      case (Err e)
      then show ?thesis using settled E(2,3) t1 Val(1)
        by (auto simp: evict_orphan_def elim!: graph_op_cases split: if_splits)
    next
      case (Val z t2)
      obtain g where t2: "t2 = (g, ?km)" and g: "vecs g = vecs (fst t1) \<or> vecs g = (vecs (fst t1))(?k := None)"
        using Val(1) graph_lawsD(5)[OF L]
        by (auto simp: evict_orphan_def elim!: graph_op_cases split: if_splits)
      from Val(2) show ?thesis
      proof (cases rule: io_bind_cases)
        case (Err e)
        then show ?thesis using settled[OF g] E(2,3) t1 t2
          by (auto elim!: graph_op_cases)
      next
        case (Val w t3)
        then obtain g' where g': "vecs g' = (vecs g)(?k \<mapsto> v)" "t3 = (g', ?km)"
          using graph_lawsD(4)[OF L] t2 by (auto elim!: graph_op_cases)
        then have vs: "vecs g' = (vecs (fst t1))(?k \<mapsto> v)" using g by (auto simp: fun_eq_iff)
        have none: "map_of (reverse (snd t1)) i = None" "vectors vecs t1 = (vectors vecs t)(i := None)"
          using E(4) t1 by simp_all
        note R = maps_ok_record[OF ok1(1) none(1), of "?k + 1" v]
        have t': "t' = (g', record_key i ?k ?km)" "r = Inr ()" using Val(2) g'(2) by auto
        have "table_ok vecs t'" using R(1) ok1(2) vs
          by (simp add: t' table_ok_def record_key_def update_conv' distinct_update)
        moreover have "vectors vecs t' = (vectors vecs t)(i \<mapsto> v)"
          using R(2) none(2) vs by (simp add: t' vectors_def record_key_def update_conv')
        ultimately show ?thesis using E(2,3) t1 by (simp add: t' record_key_def)
      qed
    qed
  qed
qed


lemma updates_for_each:
  assumes "\<And>i v. updates vecs (f (i, v)) (\<lambda>m. m(i \<mapsto> v))"
  shows "updates vecs (for_each f es) (\<lambda>m. m ++ map_of (rev es))"
proof (induction es)
  case Nil then show ?case by (simp add: updates_def)
next
  case (Cons e es)
  obtain i v where e: "e = (i, v)" by (cases e)
  have "updates vecs (io_bind (f (i, v)) (\<lambda>_. for_each f es)) (\<lambda>m. m(i \<mapsto> v) ++ map_of (rev es))"
    by (rule updates_bind[OF assms Cons.IH])
  moreover have "(\<lambda>m. m(i \<mapsto> v) ++ map_of (rev es)) = (\<lambda>m. m ++ map_of (rev (e # es)))"
    by (rule ext) (simp add: e)
  ultimately show ?case by (simp only: e for_each.simps)
qed

lemma updates_insert_entries:
  assumes "graph_laws x vecs"
  shows "updates vecs (insert_entries x es) (\<lambda>m. m ++ map_of (rev es))"
proof (cases "es = []")
  case True then show ?thesis by (simp add: insert_entries_def updates_def)
next
  case False
  then show ?thesis
    using updates_bind[OF updates_reserve[OF assms] updates_for_each[OF updates_insert_one[OF assms]], of "length es"]
    by (simp add: insert_entries_def)
qed

lemma updates_remove_key:
  assumes L: "graph_laws x vecs" shows "updates vecs (remove_key x i) (\<lambda>m. m(i := None))"
  unfolding updates_def
proof (intro allI impI)
  fix t r t' assume ok: "table_ok vecs t" and run: "remove_key x i t = (r, t')"
  show "table_ok vecs t' \<and> next_key (snd t) \<le> next_key (snd t') \<and>
      generation (snd t') = generation (snd t) \<and> (\<forall>y. r = Inr y \<longrightarrow> vectors vecs t' = (vectors vecs t)(i := None))"
  proof (cases "map_of (reverse (snd t)) i")
    case None
    then show ?thesis using run ok vectors_None[OF ok] by (auto simp: remove_key_def fun_eq_iff)
  next
    case (Some k)
    have F: "table_ok vecs (g, forget_key i k (snd t)) \<and>
        vectors vecs (g, forget_key i k (snd t)) = (vectors vecs t)(i := None)"
      if "vecs g = vecs (fst t) \<or> vecs g = (vecs (fst t))(k := None)" for g
      using table_ok_forget[OF ok Some that] by blast
    have "io_bind (graph_op ''usearch remove'' (us_remove x k)) (\<lambda>_. io_ret (Some k))
        (fst t, forget_key i k (snd t)) = (r, t')"
      using run Some by (simp add: remove_key_def)
    then show ?thesis
      by (cases rule: io_bind_cases)
        (use F graph_lawsD(5)[OF L] in \<open>auto elim!: graph_op_cases simp: forget_key_def\<close>)
  qed
qed

section \<open>Handles\<close>

abbreviation table :: "'g vindex \<Rightarrow> 'g \<times> keymap" where "table h \<equiv> (vi_inner h, vi_keymap h)"

definition index_ok :: "('g \<Rightarrow> nat \<Rightarrow> vec option) \<Rightarrow> 'g vindex \<Rightarrow> bool" where
  "index_ok vecs h \<longleftrightarrow> table_ok vecs (table h)"

definition contents_of :: "('g \<Rightarrow> nat \<Rightarrow> vec option) \<Rightarrow> 'g vindex \<Rightarrow> ulid \<Rightarrow> vec option" where
  "contents_of vecs h = vectors vecs (table h)"

lemma on_table_cases:
  assumes "on_table m s = (r, s')"
  obtains t where "m (table (fst s)) = (r, t)"
    "s' = ((fst s)\<lparr>vi_inner := fst t, vi_keymap := snd t\<rparr>, snd s)"
  using assms by (auto simp: on_table_def split: prod.splits)

lemma check_dims_Inr: "check_dims n es = Inr () \<longleftrightarrow> (\<forall>e \<in> set es. length (snd e) = n)"
  by (induction n es rule: check_dims.induct) auto

lemma add_entries_effect:
  assumes L: "graph_laws x vecs" and ok: "index_ok vecs h" and run: "add_entries x es q (h, d) = (r, (h', d'))"
  shows "index_ok vecs h' \<and> d' = d \<and> (\<exists>g km p. h' = h\<lparr>vi_inner := g, vi_keymap := km, vi_pending := p\<rparr> \<and>
      generation km = generation (vi_keymap h) \<and> (r \<noteq> Inr () \<or> \<not> q \<longrightarrow> p = vi_pending h)) \<and>
    (r = Inr () \<longrightarrow> (\<forall>e \<in> set es. length (snd e) = dim (vi_meta h)) \<and>
      contents_of vecs h' = contents_of vecs h ++ map_of (rev es) \<and> (q \<longrightarrow> vi_pending h' = vi_pending h @ es))"
proof (cases "check_dims (dim (vi_meta h)) es")
  case (Inl e)
  then show ?thesis using run ok
    by (auto simp: add_entries_def with_handle_def intro!: exI[of _ "vi_inner h"] exI[of _ "vi_keymap h"]
      exI[of _ "vi_pending h"])
next
  case (Inr u)
  then have "check_dims (dim (vi_meta h)) es = Inr ()" by simp
  then have dims: "\<forall>e \<in> set es. length (snd e) = dim (vi_meta h)"
    and rest: "io_bind (on_table (insert_entries x es)) (\<lambda>_. on_handle
        (\<lambda>h. if q then h\<lparr>vi_pending := vi_pending h @ es\<rparr> else h)) (h, d) = (r, (h', d'))"
    using run by (simp_all add: add_entries_def with_handle_def check_dims_Inr)
  note U = updatesD[OF updates_insert_entries[OF L] ok[unfolded index_ok_def]]
  from rest show ?thesis
  proof (cases rule: io_bind_cases)
    case (Err e)
    from Err(1) obtain t where t: "insert_entries x es (table h) = (Inl e, t)"
      "h' = h\<lparr>vi_inner := fst t, vi_keymap := snd t\<rparr>" "d' = d" by (rule on_table_cases) auto
    show ?thesis using U(1,2)[OF t(1)] Err(2) t(2,3)
      by (auto simp: index_ok_def intro!: exI[of _ "fst t"] exI[of _ "snd t"])
  next
    case (Val y s1)
    from Val(1) obtain t where t: "insert_entries x es (table h) = (Inr y, t)"
      "s1 = (h\<lparr>vi_inner := fst t, vi_keymap := snd t\<rparr>, d)" by (rule on_table_cases) auto
    have h': "h' = h\<lparr>vi_inner := fst t, vi_keymap := snd t,
        vi_pending := (if q then vi_pending h @ es else vi_pending h)\<rparr>" "d' = d" "r = Inr ()"
      using Val(2) t(2) by (auto simp: on_handle_def)
    show ?thesis using U(1,2)[OF t(1)] U(3)[OF t(1) refl] dims
      by (auto simp: h' index_ok_def contents_of_def intro!: exI[of _ "fst t"] exI[of _ "snd t"])
  qed
qed

text \<open>
  Adding vectors. \<open>add_batch\<close> refuses the whole batch when a dimension is wrong, and otherwise
  replaces or adds the vector of each id, the last one of a repeated id winning; the keymap stays a
  bijection onto keys of the graph even when the library fails half-way, and nothing reaches
  the disk before a commit.
\<close>

theorem add_batch_updates_map:
  assumes "graph_laws x vecs" "index_ok vecs h" "add_batch x es (h, d) = (r, (h', d'))"
  shows "index_ok vecs h' \<and> d' = d \<and>
    (case r of
       Inr _ \<Rightarrow> contents_of vecs h' = contents_of vecs h ++ map_of (rev es) \<and> vi_pending h' = vi_pending h @ es
     | Inl e \<Rightarrow> vi_pending h' = vi_pending h \<and>
         ((\<exists>v \<in> set es. length (snd v) \<noteq> dim (vi_meta h)) \<longrightarrow> h' = h))"
proof (cases r)
  case (Inr u)
  then show ?thesis using add_entries_effect[OF assms(1,2) assms(3)[unfolded add_batch_def]] by simp
next
  case (Inl e)
  have "h' = h" if "\<exists>v \<in> set es. length (snd v) \<noteq> dim (vi_meta h)"
  proof -
    have "check_dims (dim (vi_meta h)) es \<noteq> Inr ()" using that by (auto simp: check_dims_Inr)
    then obtain e where "check_dims (dim (vi_meta h)) es = Inl e" by (cases "check_dims (dim (vi_meta h)) es") auto
    then show ?thesis using assms(3) by (simp add: add_batch_def add_entries_def with_handle_def)
  qed
  then show ?thesis using add_entries_effect[OF assms(1,2) assms(3)[unfolded add_batch_def]] Inl by auto
qed


lemma remove_key_Inl:
  assumes L: "graph_laws x vecs" and ok: "table_ok vecs t" and run: "remove_key x i t = (Inl e, t')"
  shows "vectors vecs t' = (vectors vecs t)(i := None)"
proof (cases "map_of (reverse (snd t)) i")
  case None then show ?thesis using run by (simp add: remove_key_def)
next
  case (Some k)
  have "io_bind (graph_op ''usearch remove'' (us_remove x k)) (\<lambda>_. io_ret (Some k))
      (fst t, forget_key i k (snd t)) = (Inl e, t')"
    using run Some by (simp add: remove_key_def)
  then have "t' = (fst t, forget_key i k (snd t))"
    by (cases rule: io_bind_cases) (auto elim!: graph_op_cases)
  then show ?thesis using table_ok_forget(2)[OF ok Some, of "fst t"] by simp
qed

text \<open>
  Removing a vector. Afterwards the id has no vector, every other id keeps its own, the keymap is
  still a bijection onto keys of the graph, and the vector is no longer waiting to be written. When
  the library refuses the removal the id is forgotten all the same, but the vector stays queued.
\<close>

theorem remove_updates_map:
  assumes "graph_laws x vecs" "index_ok vecs h" "remove x i (h, d) = (r, (h', d'))"
  shows "index_ok vecs h' \<and> d' = d \<and> contents_of vecs h' = (contents_of vecs h)(i := None) \<and>
    vi_pending h' = (if r = Inr () then filter (\<lambda>(j, _). j \<noteq> i) (vi_pending h) else vi_pending h)"
  using assms(3) unfolding remove_def
proof (cases rule: io_bind_cases)
  case (Err e)
  from Err(1) obtain t where t: "remove_key x i (table h) = (Inl e, t)"
    "h' = h\<lparr>vi_inner := fst t, vi_keymap := snd t\<rparr>" "d' = d" by (rule on_table_cases) auto
  note ok = assms(2)[unfolded index_ok_def]
  show ?thesis using updatesD(1)[OF updates_remove_key[OF assms(1)] ok t(1)] remove_key_Inl[OF assms(1) ok t(1)] t Err(2)
    by (simp add: index_ok_def contents_of_def)
next
  case (Val k s1)
  from Val(1) obtain t where t: "remove_key x i (table h) = (Inr k, t)"
    "s1 = (h\<lparr>vi_inner := fst t, vi_keymap := snd t\<rparr>, d)" by (rule on_table_cases) auto
  note U = updatesD[OF updates_remove_key[OF assms(1)] assms(2)[unfolded index_ok_def] t(1)]
  show ?thesis using U(1) U(3)[OF refl] Val(2) t(2)
    by (auto simp: on_handle_def index_ok_def contents_of_def)
qed

section \<open>Searching\<close>

lemma map_filter_fst:
  assumes "distinct (map fst ms)" "\<And>a b i. fw a = Some i \<Longrightarrow> fw b = Some i \<Longrightarrow> a = b"
  shows "distinct (map fst (List.map_filter (\<lambda>(k, s). map_option (\<lambda>i. (i, f s)) (fw k)) ms))"
  using assms(1)
proof (induction ms)
  case (Cons m ms)
  have "i \<notin> fst ` set (List.map_filter (\<lambda>(k, s). map_option (\<lambda>i. (i, f s)) (fw k)) ms)"
    if i: "fw (fst m) = Some i" for i
  proof
    assume "i \<in> fst ` set (List.map_filter (\<lambda>(k, s). map_option (\<lambda>i. (i, f s)) (fw k)) ms)"
    then obtain b where "b \<in> set ms" "fw (fst b) = Some i" by (auto simp: map_filter_def)
    then show False using assms(2)[OF i, of "fst b"] Cons.prems by force
  qed
  then show ?case using Cons by (cases m) (auto simp: map_filter_simps split: option.splits)
qed (simp add: map_filter_simps)

lemma map_filter_sorted:
  assumes "sorted (map snd ms)" "\<And>a b :: rat. a \<le> b \<Longrightarrow> f b \<le> f a"
  shows "sorted_wrt (\<ge>) (map snd (List.map_filter (\<lambda>(k, s). map_option (\<lambda>i. (i, f s)) (fw k)) ms))"
  using assms(1)
proof (induction ms)
  case (Cons m ms)
  have "\<forall>s \<in> snd ` set (List.map_filter (\<lambda>(k, s). map_option (\<lambda>i. (i, f s)) (fw k)) ms). s \<le> f (snd m)"
    using Cons.prems assms(2) by (force simp: map_filter_def)
  then show ?case using Cons by (cases m) (auto simp: map_filter_simps split: option.splits)
qed (simp add: map_filter_simps)

lemma length_map_filter: "length (List.map_filter f xs) \<le> length xs"
  by (simp add: map_filter_def)

text \<open>
  Nearest neighbours. Whatever the graph library answers within its contract, the hits of a search
  are at most \<open>k\<close> different ids, each of them with a vector in the index, by descending score.
\<close>

theorem vector_search_sound:
  assumes "graph_laws x vecs" "index_ok vecs h" "vector_search x h q k = Inr hits"
  shows "length q = dim (vi_meta h) \<and> distinct (map fst hits) \<and> length hits \<le> k \<and>
    sorted_wrt (\<ge>) (map snd hits) \<and> (\<forall>i \<in> fst ` set hits. contents_of vecs h i \<noteq> None)"
proof -
  let ?fw = "map_of (forward (vi_keymap h))"
  obtain ms where ms: "us_search x q k (vi_inner h) = Inr ms"
    and hits: "hits = List.map_filter (\<lambda>(key, dist). map_option (\<lambda>i. (i, f32_sub 1 dist)) (?fw key)) ms"
    and q: "length q = dim (vi_meta h)"
    using assms(3) by (auto simp: vector_search_def usearch_result_def rbind_def split: if_splits sum.splits)
  note L = graph_lawsD(8-10)[OF assms(1) ms]
  have ok: "maps_ok ?fw (map_of (reverse (vi_keymap h))) (vecs (vi_inner h)) (next_key (vi_keymap h))"
    using assms(2) by (simp add: index_ok_def table_ok_def)
  have inj: "a = b" if "?fw a = Some i" "?fw b = Some i" for a b i
    using maps_okD(2)[OF ok that(1)] maps_okD(2)[OF ok that(2)] by simp
  have named: "contents_of vecs h i \<noteq> None" if "?fw a = Some i" for a i
    using maps_okD(2)[OF ok that] maps_okD(4)[OF ok maps_okD(2)[OF ok that]]
    by (auto simp: contents_of_def vectors_def named_def)
  have "\<forall>i \<in> fst ` set hits. contents_of vecs h i \<noteq> None"
    using named by (force simp: hits map_filter_def)
  moreover have "sorted_wrt (\<ge>) (map snd hits)"
    unfolding hits by (rule map_filter_sorted[OF L(3)]) (simp add: f32_sub_def f32_round_mono)
  moreover have "length hits \<le> k"
    using length_map_filter[of _ ms] L(2) unfolding hits by (rule le_trans)
  ultimately show ?thesis using q map_filter_fst[OF L(1) inj] by (simp add: hits)
qed

end
