(* ===== verification/Vector_Sample.thy ===== *)
theory Vector_Sample
  imports Vector_Keys
begin

text \<open>
  A concrete graph library: the graph is a capacity and a list of keys and vectors, searched by the
  number of coordinates that differ. As USearch does, it refuses a key it has, a vector of another
  dimension and one there is no room for, and a loaded graph has no room left. A serialiser is a table of the values it can write, so the tables are
  arguments. It satisfies the laws the properties assume, and the properties are applied to it.
\<close>

type_synonym sample_graph = "nat \<times> (nat \<times> vec) list"

definition held :: "sample_graph \<Rightarrow> nat \<Rightarrow> vec option" where
  "held g = map_of (snd g)"

definition differences :: "vec \<Rightarrow> vec \<Rightarrow> rat" where
  "differences q v = of_nat (length (filter (\<lambda>(a, b). a \<noteq> b) (zip q v)))"

definition nearest :: "vec \<Rightarrow> nat \<Rightarrow> (nat \<times> vec) list \<Rightarrow> (nat \<times> rat) list" where
  "nearest q k g = take k (sort_key snd (map (\<lambda>(key, v). (key, differences q v)) (AList.clearjunk g)))"

definition put_in :: "('a \<times> bytes) list \<Rightarrow> 'a \<Rightarrow> string + bytes" where
  "put_in book v = (case map_of book v of None \<Rightarrow> Inl ''no room'' | Some bs \<Rightarrow> Inr bs)"

definition get_from :: "('a \<times> bytes) list \<Rightarrow> bytes \<Rightarrow> string + 'a" where
  "get_from book bs =
    (case map_of (map prod.swap book) bs of None \<Rightarrow> Inl ''not a value'' | Some v \<Rightarrow> Inr v)"

definition add_in :: "nat \<Rightarrow> vec \<Rightarrow> sample_graph \<Rightarrow> string + sample_graph" where
  "add_in k v g =
     (if held g k \<noteq> None then Inl ''duplicate key'' else if length v \<noteq> 1 then Inl ''wrong dimension''
      else if fst g \<le> length (snd g) then Inl ''reserve capacity'' else Inr (fst g, (k, v) # snd g))"

definition library ::
  "((nat \<times> vec) list \<times> bytes) list \<Rightarrow> (keymap \<times> bytes) list \<Rightarrow> (vmeta \<times> bytes) list \<Rightarrow> sample_graph vext" where
  "library gs ks ms =
    \<lparr>us_new = (\<lambda>_. Inr (0, [])), us_reserve = (\<lambda>n g. Inr (max n (fst g), snd g)), us_capacity = fst,
     us_size = (\<lambda>g. length (snd g)), us_contains = (\<lambda>k g. held g k \<noteq> None), us_add = add_in,
     us_remove = (\<lambda>k g. Inr (apsnd (AList.delete k) g)), us_search = (\<lambda>q k g. Inr (nearest q k (snd g))),
     us_save = (\<lambda>g. put_in gs (snd g)), us_load = (\<lambda>bs _. map_sum id (\<lambda>es. (length es, es)) (get_from gs bs)),
     put_keymap = put_in ks, get_keymap = get_from ks, get_keymap_v1 = (\<lambda>_. Inl ''not version 1''),
     put_meta = put_in ms, get_meta = get_from ms,
     get_format = (\<lambda>bs. map_sum (\<lambda>e. e) format_version (get_from ms bs)),
     em_model_id = ''m'', em_dim = 1, em_embed = (\<lambda>s. Inr [word_of_nat (length s)]),
     em_embed_batch = (\<lambda>ss. Inr (map (\<lambda>s. [word_of_nat (length s)]) ss)), wall_clock = 0\<rparr>"

lemma nearest_laws:
  "distinct (map fst (nearest q k g))" "length (nearest q k g) \<le> k" "sorted (map snd (nearest q k g))"
proof -
  let ?f = "\<lambda>(key, v). (key, differences q v)"
  have "map fst (map ?f g) = map fst g" for g :: "(nat \<times> vec) list" by (induction g) auto
  then have "distinct (map fst (map ?f (AList.clearjunk g)))" by (simp add: distinct_clearjunk del: map_map)
  moreover have "mset (map fst (sort_key snd xs)) = mset (map fst xs)" for xs :: "(nat \<times> rat) list"
    by (simp only: mset_map mset_sort)
  ultimately have "distinct (map fst (sort_key snd (map ?f (AList.clearjunk g))))"
    using mset_eq_imp_distinct_iff by blast
  then show "distinct (map fst (nearest q k g))" by (simp add: nearest_def take_map [symmetric])
  show "length (nearest q k g) \<le> k" by (simp add: nearest_def)
  show "sorted (map snd (nearest q k g))" by (simp add: nearest_def take_map [symmetric] sorted_wrt_take)
qed

lemma put_in_mem: "put_in book v = Inr bs \<Longrightarrow> (v, bs) \<in> set book"
  by (auto simp: put_in_def dest: map_of_SomeD split: option.splits)

lemma get_from_mem: "distinct (map snd book) \<Longrightarrow> (v, bs) \<in> set book \<Longrightarrow> get_from book bs = Inr v"
proof -
  assume "distinct (map snd book)" "(v, bs) \<in> set book"
  then have "map_of (map prod.swap book) bs = Some v"
    by (intro map_of_is_SomeI) (force simp: comp_def)+
  then show ?thesis by (simp add: get_from_def)
qed

lemma book_round_trip:
  "distinct (map snd book) \<Longrightarrow> put_in book v = Inr bs \<Longrightarrow> get_from book bs = Inr v"
  by (rule get_from_mem) (simp_all add: put_in_mem)

lemma library_graph_laws: "distinct (map snd gs) \<Longrightarrow> graph_laws (library gs ks ms) held"
  unfolding graph_laws_def
  by (auto simp: library_def held_def add_in_def nearest_laws delete_conv' dest: book_round_trip split: if_splits)

lemma library_removes: "length (AList.delete k es) \<le> length es"
  by (simp add: AList.delete_eq)

lemma library_codec_laws:
  "distinct (map snd ks) \<Longrightarrow> distinct (map snd ms) \<Longrightarrow> \<forall>e \<in> set ms. utf8_valid (snd e) \<Longrightarrow>
   codec_laws (library gs ks ms)"
  unfolding codec_laws_def
  by (auto simp: library_def get_from_mem dest!: put_in_mem)

section \<open>A handle\<close>

definition sample_meta :: vmeta where
  "sample_meta = \<lparr>format_version = ''2'', model_id = ''m'', dim = 1, distance = ''cosine'', hnsw_m = 16,
     hnsw_ef_construction = 128, created_at = 0\<rparr>"

definition sample_keymap :: keymap where
  "sample_keymap = \<lparr>generation = 1, next_key = 1, forward = [(0, 5)], reverse = [(5, 0)]\<rparr>"

definition sample_index :: "sample_graph vindex" where
  "sample_index = \<lparr>vi_path = ''v'', vi_meta = sample_meta, vi_inner = (Suc 0, [(0, [7])]), vi_keymap = sample_keymap,
     vi_expansion_search = 64, vi_journal = sample_journal, vi_pending = [], vi_generation = 1,
     vi_upgrade = False, vi_tombstones = []\<rparr>"

lemma sample_index_ok: "index_ok held sample_index"
  by (simp add: index_ok_def table_ok_def maps_ok_def sample_index_def sample_keymap_def held_def)

lemmas sample_defs = sample_index_def sample_keymap_def sample_meta_def library_def held_def add_in_def

theorem add_batch_updates_map_witness:
  "\<exists>r h' d'. add_batch (library [] [] []) [(5, [8]), (6, [9])] (sample_index, quiet_disk Map.empty) = (r, (h', d')) \<and>
    r = Inr () \<and> contents_of held h' = [5 \<mapsto> [8], 6 \<mapsto> [9]]"
proof -
  obtain r h' d' where run: "add_batch (library [] [] []) [(5, [8]), (6, [9])] (sample_index, quiet_disk Map.empty) = (r, (h', d'))"
    by (metis surj_pair)
  have "r = Inr ()" using run[THEN arg_cong, of fst]
    by (simp add: add_batch_def add_entries_def with_handle_def on_table_def on_handle_def insert_entries_def
        reserve_for_def insert_one_def evict_previous_def issue_key_def evict_orphan_def graph_op_def
        record_key_def forget_key_def io_bind_def sample_defs)
  moreover have "contents_of held sample_index = [5 \<mapsto> [7]]"
    by (auto simp: contents_of_def vectors_def named_def sample_defs)
  ultimately show ?thesis
    using add_batch_updates_map[OF library_graph_laws sample_index_ok run] run by (simp add: map_add_def fun_eq_iff)
qed

theorem remove_updates_map_witness:
  "\<exists>r h' d'. remove (library [] [] []) 5 (sample_index, quiet_disk Map.empty) = (r, (h', d')) \<and>
    contents_of held h' 5 = None"
proof -
  obtain r h' d' where run: "remove (library [] [] []) 5 (sample_index, quiet_disk Map.empty) = (r, (h', d'))"
    by (metis surj_pair)
  then show ?thesis
    using remove_updates_map[OF library_graph_laws sample_index_ok run] by simp
qed

theorem vector_search_sound_witness:
  "\<exists>hits. vector_search (library [] [] []) sample_index [7] 3 = Inr hits \<and> distinct (map fst hits) \<and> length hits \<le> 3"
proof -
  obtain hits where run: "vector_search (library [] [] []) sample_index [7] 3 = Inr hits"
    by (simp add: vector_search_def usearch_result_def rbind_def sample_defs)
  then show ?thesis
    using vector_search_sound[OF library_graph_laws sample_index_ok run] by simp
qed

end
