(* ===== verification/Vector_Durability.thy ===== *)
theory Vector_Durability
  imports Vector_Sample
begin

text \<open>
  What a vector index keeps on disk. \<open>saved\<close> says which graph, keymap and journal records the files
  of a directory stand for; a commit and a compaction take one such state to another, and a load
  gives back what it stands for.
\<close>

section \<open>Effects of the file operations\<close>

lemma io_bind_InrE:
  assumes "io_bind m f d = (Inr y, d')"
  obtains x d1 where "m d = (Inr x, d1)" "f x d1 = (Inr y, d')"
  using assms by (auto elim: io_bind_cases)

lemma quiet_Inr: "quiet p d = (Inr u, d') \<Longrightarrow> files d' = files d"
  by (erule quiet_cases)

lemma sync_Inr:
  "sync_file p d = (Inr u, d') \<Longrightarrow> files d' = files d"
  "sync_dir p d = (Inr u, d') \<Longrightarrow> files d' = files d"
  unfolding sync_file_def sync_dir_def by (auto elim!: io_bind_InrE quiet_cases)

lemma write_file_Inr: "write_file p bs d = (Inr u, d') \<Longrightarrow> files d' = (files d)(p \<mapsto> bs)"
  unfolding write_file_def create_empty_def write_all_def
  by (auto simp: append_to_def elim!: io_bind_InrE syscall_cases)

lemma rename_file_Inr: "rename_file p q d = (Inr u, d') \<Longrightarrow> files d' = (files d)(q := files d p, p := None)"
  unfolding rename_file_def by (auto elim!: syscall_cases)

lemma remove_file_Inr: "remove_file p d = (Inr u, d') \<Longrightarrow> files d' = (files d)(p := None)"
  unfolding remove_file_def by (auto elim!: syscall_cases)

lemma clear_journal_others:
  assumes "clear_journal j d = (r, d')" "p \<noteq> jpath j" shows "files d' p = files d p"
  using assms unfolding clear_journal_def set_len_def
  by (auto simp: contents_def io_ret_def elim!: io_bind_cases quiet_cases syscall_cases
      split: option.splits if_splits)

lemma lock_attempts_files: "lock_attempts n p d = (r, d') \<Longrightarrow> files d' = files d"
  by (induction n arbitrary: d)
    (auto simp: io_fail_def Let_def split: list.splits lock_answer.splits)

lemmas file_effects = quiet_Inr sync_Inr write_file_Inr rename_file_Inr remove_file_Inr

lemma in_dir_eq [simp]: "in_dir dir a = in_dir dir b \<longleftrightarrow> a = b"
  by (simp add: in_dir_def)

lemma temp_of_in_dir [simp]: "temp_of (in_dir dir a) = in_dir dir (a @ ''.tmp'')"
  by (simp add: in_dir_def)

section \<open>What a directory stands for\<close>

definition index_journal :: "string \<Rightarrow> vmeta \<Rightarrow> journal" where
  "index_journal dir m = fresh_journal (journal_path dir) (vmeta.dim m) (model_id m)"

text \<open>The embedder is the one the directory was created for.\<close>

definition meta_ok :: "'g vext \<Rightarrow> vmeta \<Rightarrow> bool" where
  "meta_ok x m \<longleftrightarrow> format_version m = FORMAT_VERSION \<and> model_id m = em_model_id x \<and>
     vmeta.dim m = em_dim x \<and> vmeta.dim m < 2 ^ 32 \<and> utf8_valid (str_bytes (model_id m))"

definition meta_saved :: "'g vext \<Rightarrow> string \<Rightarrow> vmeta \<Rightarrow> files \<Rightarrow> bool" where
  "meta_saved x dir m fs \<longleftrightarrow> (\<exists>bs. fs (meta_path dir) = Some bs \<and> utf8_valid bs \<and>
     get_meta x bs = Inr m \<and> get_format x bs = Inr (format_version m))"

definition graph_saved :: "'g vext \<Rightarrow> ('g \<Rightarrow> nat \<Rightarrow> vec option) \<Rightarrow> string \<Rightarrow> 'g \<Rightarrow> files \<Rightarrow> bool" where
  "graph_saved x vecs dir g fs \<longleftrightarrow>
     (case fs (usearch_path dir) of None \<Rightarrow> vecs g = Map.empty | Some bs \<Rightarrow> us_save x g = Inr bs)"

definition keymap_saved :: "'g vext \<Rightarrow> string \<Rightarrow> keymap \<Rightarrow> files \<Rightarrow> bool" where
  "keymap_saved x dir km fs \<longleftrightarrow>
     (case fs (keymap_path dir) of None \<Rightarrow> km = default_keymap | Some bs \<Rightarrow> get_keymap x bs = Inr km)"

definition table_saved ::
  "'g vext \<Rightarrow> ('g \<Rightarrow> nat \<Rightarrow> vec option) \<Rightarrow> string \<Rightarrow> 'g \<times> keymap \<Rightarrow> files \<Rightarrow> bool" where
  "table_saved x vecs dir t fs \<longleftrightarrow>
     table_ok vecs t \<and> graph_saved x vecs dir (fst t) fs \<and> keymap_saved x dir (snd t) fs"

lemmas saved_defs = table_saved_def graph_saved_def keymap_saved_def

definition saved ::
  "'g vext \<Rightarrow> ('g \<Rightarrow> nat \<Rightarrow> vec option) \<Rightarrow> string \<Rightarrow> vmeta \<Rightarrow> 'g \<times> keymap \<Rightarrow> (ulid \<times> vec) list \<Rightarrow> files \<Rightarrow> bool"
where
  "saved x vecs dir m t rs fs \<longleftrightarrow> meta_ok x m \<and> meta_saved x dir m fs \<and> table_saved x vecs dir t fs \<and>
     holds (index_journal dir m) rs [] fs \<and> opened_on (index_journal dir m) fs"

text \<open>
  A graph library that works: USearch takes a new vector of the right dimension under a key it does
  not have, as long as there is room (it refuses a key it has, and it does not grow by itself);
  \<open>reserve\<close> makes the room asked for, \<open>remove\<close> takes none, and a load reads what a save wrote.
\<close>

definition reliable :: "'g vext \<Rightarrow> bool" where
  "reliable x \<longleftrightarrow> (\<forall>opts. \<exists>g. us_new x opts = Inr g) \<and>
     (\<forall>n g. \<exists>g'. us_reserve x n g = Inr g' \<and> n \<le> us_capacity x g' \<and> us_size x g' = us_size x g) \<and>
     (\<forall>k v g. \<not> us_contains x k g \<and> us_size x g < us_capacity x g \<and> length v = em_dim x \<longrightarrow>
        (\<exists>g'. us_add x k v g = Inr g' \<and> us_size x g' = us_size x g + 1 \<and> us_capacity x g' = us_capacity x g)) \<and>
     (\<forall>k g. \<exists>g'. us_remove x k g = Inr g' \<and> us_size x g' \<le> us_size x g \<and> us_capacity x g' = us_capacity x g) \<and>
     (\<forall>g bs g0. us_save x g = Inr bs \<longrightarrow> (\<exists>g'. us_load x bs g0 = Inr g'))"

lemma empty_table:
  assumes "table_ok vecs t" "vecs (fst t) = Map.empty" shows "forward (snd t) = []" "reverse (snd t) = []"
proof -
  have ok: "maps_ok (map_of (forward (snd t))) (map_of (reverse (snd t))) (vecs (fst t)) (next_key (snd t))"
    using assms(1) by (simp add: table_ok_def)
  have none: "map_of (reverse (snd t)) i = None" for i
    using maps_okD(4)[OF ok, of i] assms(2) by (cases "map_of (reverse (snd t)) i") simp_all
  moreover have "map_of (forward (snd t)) k = None" for k
    using maps_okD(2)[OF ok, of k] none by (cases "map_of (forward (snd t)) k") simp_all
  ultimately have "map_of (forward (snd t)) = Map.empty" "map_of (reverse (snd t)) = Map.empty" by blast+
  then show "forward (snd t) = []" "reverse (snd t) = []" by (simp_all only: map_of_eq_empty_iff)
qed

section \<open>Loading\<close>

lemma reliableD:
  assumes "reliable x"
  shows "\<exists>g. us_new x opts = Inr g"
    "\<exists>g'. us_reserve x n g = Inr g' \<and> n \<le> us_capacity x g' \<and> us_size x g' = us_size x g"
    "\<not> us_contains x k g \<Longrightarrow> us_size x g < us_capacity x g \<Longrightarrow> length v = em_dim x \<Longrightarrow>
       \<exists>g'. us_add x k v g = Inr g' \<and> us_size x g' = us_size x g + 1 \<and> us_capacity x g' = us_capacity x g"
    "\<exists>g'. us_remove x k g = Inr g' \<and> us_size x g' \<le> us_size x g \<and> us_capacity x g' = us_capacity x g"
    "us_save x g = Inr bs \<Longrightarrow> \<exists>g'. us_load x bs g0 = Inr g'"
  using assms unfolding reliable_def by blast+

text \<open>
  An insertion succeeds when there is room for it, and leaves the room for the ones to come: the
  eviction of the old vector and of an orphan take none, and the key issued is then a fresh one.
\<close>

definition room :: "'g vext \<Rightarrow> nat \<Rightarrow> 'g \<Rightarrow> bool" where
  "room x n g \<longleftrightarrow> us_size x g + n \<le> us_capacity x g"

lemma removal_room:
  assumes "reliable x" "room x n g"
  shows "\<exists>g'. us_remove x k g = Inr g' \<and> room x n g'"
  using reliableD(4)[OF assms(1), of k g] assms(2) unfolding room_def by force

lemma evict_previous_room:
  assumes "reliable x" "room x n g"
  shows "\<exists>g' km'. evict_previous x i (g, km) = (Inr (), (g', km')) \<and> room x n g'"
proof (cases "map_of (reverse km) i")
  case (Some old)
  obtain g' where "us_remove x old g = Inr g'" "room x n g'" using removal_room[OF assms] by blast
  then show ?thesis using Some assms(2) by (simp add: evict_previous_def Let_def graph_op_def)
qed (use assms(2) in \<open>simp add: evict_previous_def\<close>)

lemma evict_orphan_room:
  assumes "graph_laws x vecs" "reliable x" "room x n g"
  shows "\<exists>g'. evict_orphan x k (g, km) = (Inr (), (g', km)) \<and> room x n g' \<and> \<not> us_contains x k g'"
proof (cases "us_contains x k g")
  case True
  obtain g' where g': "us_remove x k g = Inr g'" "room x n g'" using removal_room[OF assms(2,3)] by blast
  then have "\<not> us_contains x k g'" using graph_lawsD(3,5)[OF assms(1)] by simp
  then show ?thesis using True g' by (simp add: evict_orphan_def graph_op_def)
qed (use assms(3) in \<open>simp add: evict_orphan_def\<close>)

lemma insert_one_room:
  assumes "graph_laws x vecs" "reliable x" "room x (Suc n) g" "length v = em_dim x"
  shows "\<exists>g' km'. insert_one x (i, v) (g, km) = (Inr (), (g', km')) \<and> room x n g'"
proof -
  obtain g1 km1 where 1: "evict_previous x i (g, km) = (Inr (), (g1, km1))" "room x (Suc n) g1"
    using evict_previous_room[OF assms(2,3)] by blast
  let ?k = "next_key km1" and ?km = "km1\<lparr>next_key := next_key km1 + 1\<rparr>"
  obtain g2 where 2: "evict_orphan x ?k (g1, ?km) = (Inr (), (g2, ?km))" "room x (Suc n) g2" "\<not> us_contains x ?k g2"
    using evict_orphan_room[OF assms(1,2) 1(2)] by blast
  then obtain g3 where "us_add x ?k v g2 = Inr g3" "us_size x g3 = us_size x g2 + 1" "us_capacity x g3 = us_capacity x g2"
    using reliableD(3)[OF assms(2) 2(3) _ assms(4)] by (auto simp: room_def)
  then show ?thesis using 1(1) 2(1,2) by (simp add: insert_one_def issue_key_def graph_op_def room_def)
qed

lemma insert_each_room:
  assumes "graph_laws x vecs" "reliable x" "room x (length es) g" "\<forall>e \<in> set es. length (snd e) = em_dim x"
  shows "\<exists>t'. for_each (insert_one x) es (g, km) = (Inr (), t')"
  using assms(3,4)
proof (induction es arbitrary: g km)
  case (Cons e es)
  obtain g' km' where "insert_one x e (g, km) = (Inr (), (g', km'))" "room x (length es) g'"
    using insert_one_room[OF assms(1,2), of "length es" g "snd e" "fst e" km] Cons.prems by auto
  moreover from this(2) obtain t' where "for_each (insert_one x) es (g', km') = (Inr (), t')"
    using Cons.IH[of g' km'] Cons.prems(2) by auto
  ultimately show ?case by simp
qed (simp add: io_ret_def)

lemma insert_entries_succeeds:
  assumes "graph_laws x vecs" "reliable x" "\<forall>e \<in> set es. length (snd e) = em_dim x"
  shows "\<exists>t'. insert_entries x es t = (Inr (), t')"
proof (cases "es = []")
  case False
  obtain g km where t: "t = (g, km)" by fastforce
  have "\<exists>g'. reserve_for x (length es) (g, km) = (Inr (), (g', km)) \<and> room x (length es) g'"
    using reliableD(2)[OF assms(2), of "max (us_capacity x g + 1) (us_size x g + length es + 1024)" g]
    by (auto simp: reserve_for_def Let_def graph_op_def room_def)
  then show ?thesis using insert_each_room[OF assms(1,2) _ assms(3)] False
    by (force simp: insert_entries_def t)
qed (simp add: insert_entries_def io_ret_def)

lemma map_of_filter_ids: "map_of (filter (\<lambda>(i, _). P i) xs) = map_of xs |` {i. P i}"
  by (induction xs) (auto simp: restrict_map_def fun_eq_iff)

lemma vectors_dom: "index_ok vecs h \<Longrightarrow> map_of (reverse (vi_keymap h)) i = None \<longleftrightarrow> contents_of vecs h i = None"
  using vectors_None[of vecs "table h" i] by (simp add: index_ok_def contents_of_def)

text \<open>Absorbing adds the journal below what the handle has, without the ids it removed itself.\<close>

definition absorbed :: "ulid set \<Rightarrow> (ulid \<times> vec) list \<Rightarrow> (ulid \<Rightarrow> vec option) \<Rightarrow> ulid \<Rightarrow> vec option" where
  "absorbed tombs rs m = (map_of (rev rs) |` (- tombs)) ++ m"

lemma absorbed_empty [simp]: "absorbed tombs [] m = m"
  by (simp add: absorbed_def)

definition missing_from :: "'g vindex \<Rightarrow> (ulid \<times> vec) list \<Rightarrow> (ulid \<times> vec) list" where
  "missing_from h rs = filter (\<lambda>(i, _). map_of (reverse (vi_keymap h)) i = None \<and> i \<notin> set (vi_tombstones h)) rs"

lemma absorb_run:
  assumes "replay (vi_journal h) d = (Inr rs, d1)"
  shows "absorb_journal x (h, d) =
    (if missing_from h rs = [] then (Inr (), (h, d1)) else add_entries x (missing_from h rs) False (h, d1))"
proof -
  have "on_disk (replay (vi_journal h)) (h, d) = (Inr rs, (h, d1))" using assms by (simp add: on_disk_def)
  then have "absorb_journal x (h, d) = (if rs = [] then io_ret () else if missing_from h rs = [] then io_ret ()
      else add_entries x (missing_from h rs) False) (h, d1)"
    by (simp add: absorb_journal_def with_handle_def missing_from_def Let_def)
  then show ?thesis by (simp add: missing_from_def)
qed

lemma absorb_effect:
  assumes L: "graph_laws x vecs" and ok: "index_ok vecs h"
    and rep: "replay (vi_journal h) d = (Inr rs, d1)" and run: "absorb_journal x (h, d) = (r, (h', d'))"
  shows "d' = d1 \<and> index_ok vecs h' \<and> (\<exists>g km. h' = h\<lparr>vi_inner := g, vi_keymap := km\<rparr> \<and>
      generation km = generation (vi_keymap h)) \<and>
    (r = Inr () \<longrightarrow> contents_of vecs h' = absorbed (set (vi_tombstones h)) rs (contents_of vecs h))"
proof -
  let ?missing = "missing_from h rs"
  have below: "contents_of vecs h ++ map_of (rev ?missing) = absorbed (set (vi_tombstones h)) rs (contents_of vecs h)"
  proof
    fix i
    have "map_of (rev ?missing) = map_of (rev rs) |` {i. contents_of vecs h i = None \<and> i \<notin> set (vi_tombstones h)}"
      unfolding missing_from_def vectors_dom[OF ok] by (simp only: rev_filter map_of_filter_ids)
    then show "(contents_of vecs h ++ map_of (rev ?missing)) i =
        absorbed (set (vi_tombstones h)) rs (contents_of vecs h) i"
      by (auto simp: absorbed_def map_add_def restrict_map_def split: option.split)
  qed
  show ?thesis
  proof (cases "?missing = []")
    case True
    then have "r = Inr ()" "h' = h" "d' = d1" using run by (simp_all add: absorb_run[OF rep])
    then show ?thesis using ok below True
      by (auto intro!: exI[of _ "vi_inner h"] exI[of _ "vi_keymap h"])
  next
    case False
    then have "add_entries x ?missing False (h, d1) = (r, (h', d'))"
      using run by (simp add: absorb_run[OF rep])
    from add_entries_effect[OF L ok this] show ?thesis using below
      by (auto intro!: exI)
  qed
qed

lemma absorb_succeeds:
  assumes "graph_laws x vecs" "reliable x" and rep: "replay (vi_journal h) d = (Inr rs, d1)"
    and "\<forall>e \<in> set rs. length (snd e) = vmeta.dim (vi_meta h)" "vmeta.dim (vi_meta h) = em_dim x"
  shows "\<exists>h' d'. absorb_journal x (h, d) = (Inr (), (h', d'))"
proof -
  have "\<exists>h' d'. add_entries x es False (h, d1) = (Inr (), (h', d'))" if "set es \<subseteq> set rs" for es
  proof -
    have "check_dims (vmeta.dim (vi_meta h)) es = Inr ()" using assms(4) that by (auto simp: check_dims_Inr)
    moreover have "\<forall>e \<in> set es. length (snd e) = em_dim x" using assms(4,5) that by auto
    then obtain g km where "insert_entries x es (table h) = (Inr (), (g, km))"
      using insert_entries_succeeds[OF assms(1,2)] by (metis surj_pair)
    ultimately show ?thesis
      by (simp add: add_entries_def with_handle_def on_table_def on_handle_def io_bind_def)
  qed
  then show ?thesis by (simp add: absorb_run[OF rep] missing_from_def)
qed

text \<open>On a disk where no call fails: the operation returns \<open>y\<close> and changes no file.\<close>

definition gives :: "'a io \<Rightarrow> disk \<Rightarrow> 'a \<Rightarrow> bool" where
  "gives m d y \<longleftrightarrow> (\<exists>d'. m d = (Inr y, d') \<and> files d' = files d \<and> sound_disk d')"

lemma gives_bind:
  assumes "gives m d y" "\<And>d'. files d' = files d \<Longrightarrow> sound_disk d' \<Longrightarrow> gives (n y) d' z"
  shows "gives (io_bind m n) d z"
proof -
  obtain d1 where 1: "m d = (Inr y, d1)" "files d1 = files d" "sound_disk d1" using assms(1) by (auto simp: gives_def)
  obtain d2 where "n y d1 = (Inr z, d2)" "files d2 = files d1" "sound_disk d2"
    using assms(2)[OF 1(2,3)] by (auto simp: gives_def)
  then show ?thesis using 1 by (auto simp: gives_def)
qed

lemma gives_prims:
  assumes "sound_disk d"
  shows "gives (io_ret y) d y" "gives (quiet p) d ()" "gives (contents p) d (files d p)"
    "r = Inr y \<Longrightarrow> gives (io_lift r) d y"
  using assms by (simp_all add: gives_def quiet_def)

lemma gives_read_file:
  assumes "sound_disk d" "files d p = Some bs" shows "gives (read_file p) d bs"
  unfolding read_file_def
proof (rule gives_bind[OF gives_prims(2)[OF assms(1)]])
  fix d' assume "files d' = files d" "sound_disk d'"
  then show "gives (io_bind (contents p) (\<lambda>file. case file of Some bs \<Rightarrow> io_ret bs | None \<Rightarrow> io_fail (Search_Io p))) d' bs"
    using assms(2) by (simp add: gives_def)
qed

lemma gives_read_to_string:
  assumes "sound_disk d" "files d p = Some bs" "utf8_valid bs" shows "gives (read_to_string p) d bs"
  unfolding read_to_string_def
  by (rule gives_bind[OF gives_read_file[OF assms(1,2)]]) (simp add: assms(3) gives_prims)

lemma gives_load_meta:
  assumes "sound_disk d" "meta_ok x m" "meta_saved x dir m (files d)"
  shows "gives (load_meta x dir opts) d (m, Some FORMAT_VERSION)"
proof -
  obtain bs where bs: "files d (meta_path dir) = Some bs" "utf8_valid bs" "get_meta x bs = Inr m"
    using assms(3) by (auto simp: meta_saved_def)
  have "check_meta x dir m = Inr ()" using assms(2) by (simp add: check_meta_def meta_ok_def)
  moreover have "format_version m = FORMAT_VERSION" using assms(2) by (simp add: meta_ok_def)
  moreover from this have "m\<lparr>format_version := FORMAT_VERSION\<rparr> = m" by (metis vmeta.surjective vmeta.update_convs(1))
  ultimately have rest: "gives (io_bind (io_lift (embedding_result ''parsing existing .meta.json'' (get_meta x bs))) (\<lambda>m.
      io_bind (io_lift (check_meta x dir m)) (\<lambda>_.
      io_ret (m\<lparr>format_version := FORMAT_VERSION\<rparr>, Some (format_version m))))) d' (m, Some FORMAT_VERSION)"
    if "sound_disk d'" for d' using that bs(3) by (simp add: embedding_result_def gives_def)
  show ?thesis unfolding load_meta_def
  proof (rule gives_bind[OF gives_prims(3)[OF assms(1)]])
    fix d' assume d': "files d' = files d" "sound_disk d'"
    have f: "files d' (meta_path dir) = Some bs" by (simp only: d'(1) bs(1))
    have "files d (meta_path dir) \<noteq> None" using bs(1) by simp
    moreover have "gives (io_bind (read_to_string (meta_path dir)) (\<lambda>bs.
      io_bind (io_lift (embedding_result ''parsing existing .meta.json'' (get_meta x bs))) (\<lambda>m.
      io_bind (io_lift (check_meta x dir m)) (\<lambda>_.
      io_ret (m\<lparr>format_version := FORMAT_VERSION\<rparr>, Some (format_version m)))))) d' (m, Some FORMAT_VERSION)"
      by (rule gives_bind[OF gives_read_to_string[OF d'(2) f bs(2)]]) (erule rest)
    ultimately show "gives (if files d (meta_path dir) = None
        then io_bind (write_meta_atomic x (meta_path dir) (fresh_meta x opts)) (\<lambda>_. io_ret (fresh_meta x opts, None))
        else io_bind (read_to_string (meta_path dir)) (\<lambda>bs.
          io_bind (io_lift (embedding_result ''parsing existing .meta.json'' (get_meta x bs))) (\<lambda>m.
          io_bind (io_lift (check_meta x dir m)) (\<lambda>_.
          io_ret (m\<lparr>format_version := FORMAT_VERSION\<rparr>, Some (format_version m)))))) d' (m, Some FORMAT_VERSION)"
      by (simp only: if_False)
  qed
qed

lemma gives_load_graph:
  assumes "sound_disk d" "graph_laws x vecs" "reliable x" "graph_saved x vecs dir g1 (files d)"
  shows "\<exists>g. gives (load_graph x dir opts c1 c2) d (g, files d (usearch_path dir) \<noteq> None) \<and> vecs g = vecs g1"
proof -
  obtain g0 where g0: "us_new x opts = Inr g0" using reliableD(1)[OF assms(3)] by blast
  show ?thesis
  proof (cases "files d (usearch_path dir)")
    case None
    obtain g where g: "us_reserve x 1024 g0 = Inr g" using reliableD(2)[OF assms(3)] by blast
    have "vecs g = vecs g1"
      using graph_lawsD(1)[OF assms(2) g0] graph_lawsD(2)[OF assms(2) g] assms(4) None by (simp add: graph_saved_def)
    then show ?thesis using None g g0 assms(1)
      by (auto simp: gives_def load_graph_def usearch_result_def io_bind_def io_lift_def)
  next
    case (Some bs)
    then have bs: "us_save x g1 = Inr bs" using assms(4) by (simp add: graph_saved_def)
    obtain g where g: "us_load x bs g0 = Inr g" using reliableD(5)[OF assms(3) bs] by blast
    then show ?thesis using graph_lawsD(7)[OF assms(2) bs g] Some g0 assms(1)
      by (auto simp: gives_def load_graph_def usearch_result_def io_bind_def io_lift_def quiet_def)
  qed
qed

lemma gives_load_keymap:
  assumes "sound_disk d" "keymap_saved x dir km (files d)"
  shows "gives (load_keymap x dir FORMAT_VERSION) d km"
proof (cases "files d (keymap_path dir)")
  case None
  then show ?thesis using assms by (simp add: load_keymap_def gives_def keymap_saved_def)
next
  case (Some bs)
  then have "get_keymap x bs = Inr km" using assms(2) by (simp add: keymap_saved_def)
  then have "decode_keymap x FORMAT_VERSION bs = Inr km"
    by (simp add: decode_keymap_def or_else_def FORMAT_VERSION_def FORMAT_VERSION_V1_def)
  then have "gives (read_keymap x (keymap_path dir) FORMAT_VERSION) d km"
    unfolding read_keymap_def
    by (intro gives_bind[OF gives_read_file[OF assms(1) Some]]) (simp add: gives_prims embedding_result_def)
  then show ?thesis using Some by (simp add: load_keymap_def gives_def)
qed

text \<open>A handle that has just loaded the directory, before it absorbs the journal.\<close>

definition loaded :: "string \<Rightarrow> vmeta \<Rightarrow> index_options \<Rightarrow> 'g \<Rightarrow> keymap \<Rightarrow> 'g vindex" where
  "loaded dir m opts g km = \<lparr>vi_path = dir, vi_meta = m, vi_inner = g, vi_keymap = km,
     vi_expansion_search = opt_expansion_search opts, vi_journal = index_journal dir m, vi_pending = [],
     vi_generation = generation km, vi_upgrade = False, vi_tombstones = []\<rparr>"

lemma gives_load_handle:
  assumes L: "graph_laws x vecs" and R: "reliable x" and m: "meta_ok x m" "meta_saved x dir m (files d)"
    and G: "graph_saved x vecs dir g1 (files d)" and K: "keymap_saved x dir km (files d)"
    and J: "opened_on (index_journal dir m) (files d)" and d: "sound_disk d"
    and present: "files d (usearch_path dir) \<noteq> None \<or> forward km = []"
  shows "\<exists>g. gives (load_handle x dir opts) d (loaded dir m opts g km) \<and> vecs g = vecs g1"
proof -
  obtain d1 where 1: "load_meta x dir opts d = (Inr (m, Some FORMAT_VERSION), d1)" "files d1 = files d" "sound_disk d1"
    using gives_load_meta[OF d m] by (auto simp: gives_def)
  obtain g d2 where 2: "load_graph x dir (usearch_options_of m (opt_expansion_search opts))
      ''constructing usearch::Index'' ''loading existing usearch index'' d1 = (Inr (g, files d (usearch_path dir) \<noteq> None), d2)"
    "files d2 = files d" "sound_disk d2" and g: "vecs g = vecs g1"
    using gives_load_graph[OF 1(3) L R, of dir g1 "usearch_options_of m (opt_expansion_search opts)"
        "''constructing usearch::Index''" "''loading existing usearch index''"] G 1(2)
    by (auto simp: gives_def)
  obtain d3 where 3: "load_keymap x dir FORMAT_VERSION d2 = (Inr km, d3)" "files d3 = files d" "sound_disk d3"
    using gives_load_keymap[OF 2(3), of x dir km] K 2(2) by (auto simp: gives_def)
  obtain d4 where 4: "open_journal (journal_path dir) (vmeta.dim m) (model_id m) d3 = (Inr (index_journal dir m), d4)"
    "files d4 = files d" "sound_disk d4"
    using open_journal_back[of "journal_path dir" "vmeta.dim m" "model_id m" d3] J m(1) 3(2,3)
    by (auto simp: index_journal_def meta_ok_def)
  have "reset_stale (files d (usearch_path dir) \<noteq> None) km = km"
    using present by (auto simp: reset_stale_def)
  moreover have "(FORMAT_VERSION = FORMAT_VERSION_V1) = False" by (simp add: FORMAT_VERSION_def FORMAT_VERSION_V1_def)
  ultimately have "load_handle x dir opts d = (Inr (loaded dir m opts g km), d4)"
    by (simp add: load_handle_def 1 2 3 4 loaded_def)
  then show ?thesis using 4 g by (auto simp: gives_def)
qed

lemma load_saved:
  assumes L: "graph_laws x vecs" and R: "reliable x" and S: "saved x vecs dir m t rs (files d)" and d: "sound_disk d"
  shows "\<exists>g km h. gives (load x dir opts) d h \<and> index_ok vecs h \<and> h = loaded dir m opts g km \<and>
    generation km = generation (snd t) \<and> contents_of vecs h = absorbed {} rs (vectors vecs t)"
proof -
  have T: "meta_ok x m" "meta_saved x dir m (files d)" "graph_saved x vecs dir (fst t) (files d)"
    "keymap_saved x dir (snd t) (files d)" "opened_on (index_journal dir m) (files d)" and t: "table_ok vecs t"
    using S by (simp_all add: saved_def table_saved_def)
  have "files d (usearch_path dir) \<noteq> None \<or> forward (snd t) = []"
    using empty_table(1)[OF t] T(3) by (cases "files d (usearch_path dir)") (simp_all add: graph_saved_def)
  then obtain g d1 where 1: "load_handle x dir opts d = (Inr (loaded dir m opts g (snd t)), d1)"
    "files d1 = files d" "sound_disk d1" and g: "vecs g = vecs (fst t)"
    using gives_load_handle[OF L R T d, of opts] by (auto simp: gives_def)
  let ?h = "loaded dir m opts g (snd t)"
  have ok: "index_ok vecs ?h" and c: "contents_of vecs ?h = vectors vecs t"
    using S g by (simp_all add: saved_def table_saved_def index_ok_def table_ok_def loaded_def contents_of_def vectors_def)
  have H: "holds (index_journal dir m) rs [] (files d1)" using S 1(2) by (simp add: saved_def)
  obtain d2 where 2: "replay (vi_journal ?h) d1 = (Inr rs, d2)"
    using replay_sound[OF H 1(3)] by (cases "replay (index_journal dir m) d1") (auto simp: loaded_def)
  have "files d2 = files d" using reads_onlyD[OF reads_only_replay(1) 2] 1(2) by simp
  moreover have "sound_disk d2" using 2 1(3) H
    by (auto simp: replay_def quiet_def io_bind_def holds_def loaded_def split: option.splits)
  moreover have "\<forall>e \<in> set rs. length (snd e) = vmeta.dim (vi_meta ?h)"
    using H S by (auto simp: holds_def fits_dim_def index_journal_def saved_def meta_ok_def loaded_def)
  then obtain h' d' where run: "absorb_journal x (?h, d1) = (Inr (), (h', d'))"
    using absorb_succeeds[OF L R 2] S by (auto simp: saved_def meta_ok_def loaded_def)
  note E = absorb_effect[OF L ok 2 run]
  then obtain g' km where "h' = loaded dir m opts g' km" "generation km = generation (snd t)" "d' = d2"
    by (auto simp: loaded_def)
  ultimately show ?thesis using E run 1(1) c
    by (intro exI[of _ g'] exI[of _ km] exI[of _ h']) (simp add: gives_def load_def loaded_def)
qed

section \<open>Opening\<close>

text \<open>The sweep of temporary files leaves every file a load reads.\<close>

lemma saved_cong:
  assumes "\<And>a. a \<in> {''index.usearch'', ''keymap.bin'', ''.meta.json'', ''journal.bin''} \<Longrightarrow>
    fs' (in_dir dir a) = fs (in_dir dir a)"
  shows "saved x vecs dir m t rs fs' = saved x vecs dir m t rs fs"
  using assms by (simp add: saved_def meta_saved_def saved_defs holds_def opened_on_def index_journal_def)

lemma not_temp: "a \<in> {''index.usearch'', ''keymap.bin'', ''.meta.json'', ''journal.bin''} \<Longrightarrow> \<not> is_temp dir (in_dir dir a)"
  by (auto simp: is_temp_def in_dir_def suffix_def append_eq_append_conv2 append_eq_Cons_conv)

text \<open>Opening is a load after the sweep, when the lock is free and nothing fails.\<close>

lemma open_loads:
  assumes "sound_disk d" "lock_script d = []"
    and load: "\<And>d1. sound_disk d1 \<Longrightarrow> (\<And>a. a \<in> {''index.usearch'', ''keymap.bin'', ''.meta.json'', ''journal.bin''} \<Longrightarrow>
      files d1 (in_dir dir a) = files d (in_dir dir a)) \<Longrightarrow> \<exists>h. gives (load x dir opts) d1 h \<and> P h (files d1)"
  shows "\<exists>h d'. open_with_options x dir opts d = (Inr h, d') \<and> P h (files d')"
proof -
  define d0 where "d0 = d\<lparr>io_count := Suc (io_count d)\<rparr>"
  define fs where "fs = (\<lambda>p. if is_temp dir p then None else files d0 p)"
  define d1 where "d1 = d0\<lparr>io_count := Suc (io_count d0), files := fs\<rparr>"
  have d0: "sound_disk d0" "files d0 = files d" "lock_script d0 = []" using assms(1,2) by (simp_all add: d0_def)
  then have "sound_disk d1" by (simp add: d1_def)
  moreover have "files d1 (in_dir dir a) = files d (in_dir dir a)"
    if "a \<in> {''index.usearch'', ''keymap.bin'', ''.meta.json'', ''journal.bin''}" for a
    using not_temp[OF that] by (simp add: d1_def fs_def d0_def)
  ultimately obtain h d2 where l: "load x dir opts d1 = (Inr h, d2)" "files d2 = files d1" and P: "P h (files d1)"
    using load[of d1] by (auto simp: gives_def)
  have "acquire_load_lock (in_dir dir ''lock'') d0 = (Inr (), d0)"
    using d0(3) by (simp add: acquire_load_lock_def acquire_lock_at_def LOCK_ATTEMPTS_def numeral_eq_Suc)
  moreover have "sweep_temp_files dir d0 = (Inr (), d1)"
    using d0(1,2) by (simp add: sweep_temp_files_def d1_def fs_def)
  moreover have "quiet dir d = (Inr (), d0)" using assms(1) by (simp add: quiet_def d0_def)
  ultimately have "open_with_options x dir opts d = (Inr h, d2)"
    by (simp add: open_with_options_def locked_load_def l(1))
  then show ?thesis using l(2) P by auto
qed

lemma open_saved:
  assumes "graph_laws x vecs" "reliable x" "saved x vecs dir m t rs (files d)" "sound_disk d" "lock_script d = []"
  shows "\<exists>h d'. open_with_options x dir opts d = (Inr h, d') \<and> (\<exists>g km. index_ok vecs h \<and> h = loaded dir m opts g km \<and>
    generation km = generation (snd t) \<and> contents_of vecs h = absorbed {} rs (vectors vecs t) \<and>
    saved x vecs dir m t rs (files d'))"
proof (rule open_loads[OF assms(4,5)])
  fix d1 assume d1: "sound_disk d1" and "\<And>a. a \<in> {''index.usearch'', ''keymap.bin'', ''.meta.json'', ''journal.bin''} \<Longrightarrow>
    files d1 (in_dir dir a) = files d (in_dir dir a)"
  then have S: "saved x vecs dir m t rs (files d1)"
    using saved_cong[of "files d1" dir "files d" x vecs m t rs] assms(3) by simp
  show "\<exists>h. gives (load x dir opts) d1 h \<and> (\<exists>g km. index_ok vecs h \<and> h = loaded dir m opts g km \<and>
    generation km = generation (snd t) \<and> contents_of vecs h = absorbed {} rs (vectors vecs t) \<and>
    saved x vecs dir m t rs (files d1))"
    using load_saved[OF assms(1,2) S d1, of opts] S by blast
qed

section \<open>Successful commits\<close>

text \<open>A handle together with what its directory stands for; nobody else has compacted since it loaded.\<close>

definition attached ::
  "'g vext \<Rightarrow> ('g \<Rightarrow> nat \<Rightarrow> vec option) \<Rightarrow> 'g vindex \<Rightarrow> files \<Rightarrow> 'g \<times> keymap \<Rightarrow> (ulid \<times> vec) list \<Rightarrow> bool" where
  "attached x vecs h fs t rs \<longleftrightarrow> saved x vecs (vi_path h) (vi_meta h) t rs fs \<and> index_ok vecs h \<and>
     vi_journal h = index_journal (vi_path h) (vi_meta h) \<and> vi_generation h = generation (snd t) \<and>
     \<not> vi_upgrade h"

lemma on_disk_InrE:
  assumes "on_disk m s = (Inr y, s')" obtains d' where "m (snd s) = (Inr y, d')" "s' = (fst s, d')"
  using assms by (auto simp: on_disk_def split: prod.splits)

lemma decode_body_all: "fits_dim j rs \<Longrightarrow> decode_body j (body rs) = rs"
  using decode_body_append[of j rs "[]"] by simp

lemma replay_Inr:
  "holds j rs [] (files d) \<Longrightarrow> replay j d = (Inr rs', d') \<Longrightarrow> rs' = rs \<and> files d' = files d"
  by (auto simp: replay_def holds_def journal_ok_def decode_body_all contents_def io_ret_def
      elim!: io_bind_InrE quiet_cases split: option.splits)

lemma read_file_Inr: "read_file p d = (Inr bs, d') \<Longrightarrow> files d p = Some bs \<and> files d' = files d"
  unfolding read_file_def by (auto simp: io_fail_def io_ret_def elim!: io_bind_InrE quiet_cases split: option.splits)

lemma read_keymap_Inr:
  assumes "read_keymap x p FORMAT_VERSION d = (Inr km, d')" "files d p = Some bs" "get_keymap x bs = Inr km'"
  shows "km = km' \<and> files d' = files d"
  using assms unfolding read_keymap_def
  by (auto simp: io_lift_def embedding_result_def decode_keymap_def or_else_def FORMAT_VERSION_def
      FORMAT_VERSION_V1_def elim!: io_bind_InrE dest!: read_file_Inr)

lemma disk_format_version_Inr:
  assumes "disk_format_version x p d = (Inr v, d')" "files d p = Some bs" "get_format x bs = Inr f"
  shows "v = Some f \<and> files d' = files d"
  using assms unfolding disk_format_version_def read_to_string_def
  by (auto simp: io_ret_def io_lift_def io_fail_def embedding_result_def
      elim!: io_bind_InrE dest!: read_file_Inr split: if_splits)

lemma on_disk_contents [simp]:
  "io_bind (on_disk (contents p)) n s = n (files (snd s) p) s"
  by (simp add: io_bind_def on_disk_def)

lemma attachedD:
  assumes "attached x vecs h fs t rs"
  shows "saved x vecs (vi_path h) (vi_meta h) t rs fs" "index_ok vecs h" "\<not> vi_upgrade h"
    "vi_journal h = index_journal (vi_path h) (vi_meta h)" "vi_generation h = generation (snd t)"
    "holds (vi_journal h) rs [] fs" "opened_on (vi_journal h) fs" "table_saved x vecs (vi_path h) t fs"
    "meta_saved x (vi_path h) (vi_meta h) fs" "meta_ok x (vi_meta h)"
  using assms by (simp_all add: attached_def saved_def)

lemma reload_if_stale_noop:
  assumes A: "attached x vecs h (files d) t rs" and run: "reload_if_stale x (h, d) = (Inr u, (h', d'))"
  shows "h' = h \<and> files d' = files d"
proof (cases "files d (keymap_path (vi_path h))")
  case None
  then show ?thesis using run by (simp add: reload_if_stale_def with_handle_def)
next
  case (Some kbs)
  then have k: "get_keymap x kbs = Inr (snd t)" using attachedD(8)[OF A] by (simp add: saved_defs)
  obtain mbs where m: "files d (meta_path (vi_path h)) = Some mbs" "get_format x mbs = Inr FORMAT_VERSION"
    using attachedD(9,10)[OF A] by (auto simp: meta_saved_def meta_ok_def)
  have "io_bind (on_disk (disk_format_version x (meta_path (vi_path h)))) (\<lambda>v.
      io_bind (on_disk (read_keymap x (keymap_path (vi_path h))
          (case v of Some v \<Rightarrow> v | None \<Rightarrow> FORMAT_VERSION))) (adopt_newer x h)) (h, d) = (Inr u, (h', d'))"
    using run Some by (simp add: reload_if_stale_def with_handle_def)
  then obtain v s1 where v: "on_disk (disk_format_version x (meta_path (vi_path h))) (h, d) = (Inr v, s1)"
    and rest: "io_bind (on_disk (read_keymap x (keymap_path (vi_path h))
          (case v of Some v \<Rightarrow> v | None \<Rightarrow> FORMAT_VERSION))) (adopt_newer x h) s1 = (Inr u, (h', d'))"
    by (rule io_bind_InrE)
  obtain d1 where v': "disk_format_version x (meta_path (vi_path h)) d = (Inr v, d1)" "s1 = (h, d1)"
    using v by (auto elim: on_disk_InrE)
  then have d1: "s1 = (h, d1)" "v = Some FORMAT_VERSION" "files d1 = files d"
    using disk_format_version_Inr[OF v'(1) m] by blast+
  obtain km s2 where km: "on_disk (read_keymap x (keymap_path (vi_path h)) FORMAT_VERSION) (h, d1) = (Inr km, s2)"
    and last: "adopt_newer x h km s2 = (Inr u, (h', d'))"
    using rest unfolding d1(1,2) option.case by (rule io_bind_InrE)
  have "files d1 (keymap_path (vi_path h)) = Some kbs" using d1(3) Some by simp
  moreover obtain d2 where r: "read_keymap x (keymap_path (vi_path h)) FORMAT_VERSION d1 = (Inr km, d2)" "s2 = (h, d2)"
    using km by (auto elim: on_disk_InrE)
  ultimately have "s2 = (h, d2)" "km = snd t" "files d2 = files d1"
    using read_keymap_Inr[OF r(1) _ k] by blast+
  then show ?thesis using last attachedD(5)[OF A] d1(3) by (simp add: adopt_newer_def)
qed

lemma absorb_attached:
  assumes L: "graph_laws x vecs" and A: "attached x vecs h (files d) t rs"
    and run: "absorb_journal x (h, d) = (Inr u, (h', d'))"
  shows "files d' = files d \<and> index_ok vecs h' \<and> (\<exists>g km. h' = h\<lparr>vi_inner := g, vi_keymap := km\<rparr>) \<and>
    contents_of vecs h' = absorbed (set (vi_tombstones h)) rs (contents_of vecs h)"
proof -
  obtain rs' s1 where "on_disk (replay (vi_journal h)) (h, d) = (Inr rs', s1)"
    using run by (auto simp: absorb_journal_def with_handle_def elim: io_bind_InrE)
  then obtain d1 where rep: "replay (vi_journal h) d = (Inr rs', d1)" by (auto elim: on_disk_InrE)
  have "rs' = rs" "files d1 = files d" using replay_Inr[OF attachedD(6)[OF A] rep] by blast+
  then show ?thesis using absorb_effect[OF L attachedD(2)[OF A] rep run] by auto
qed

text \<open>A compaction that succeeds replaces the pair of files and empties the journal.\<close>

definition stamped :: "nat \<Rightarrow> keymap \<Rightarrow> keymap" where
  "stamped gen km = km\<lparr>generation := gen\<rparr>"

lemma stamped_simps [simp]:
  "generation (stamped gen km) = gen" "next_key (stamped gen km) = next_key km"
  "forward (stamped gen km) = forward km" "reverse (stamped gen km) = reverse km"
  by (simp_all add: stamped_def)

lemma publish_effect:
  assumes run: "publish_compaction x n (h, d) = (Inr u, (h', d'))"
    and J: "vi_journal h = index_journal (vi_path h) m" "holds (vi_journal h) rs [] (files d)"
  defines "gen \<equiv> vi_generation h + 1"
  shows "h' = h\<lparr>vi_keymap := stamped gen (vi_keymap h), vi_tombstones := [], vi_generation := gen\<rparr>"
    and "files d' (usearch_path (vi_path h)) = (if 0 < n then files d (temp_of (usearch_path (vi_path h))) else None)"
    and "\<exists>bs. put_keymap x (stamped gen (vi_keymap h)) = Inr bs \<and> files d' (keymap_path (vi_path h)) = Some bs"
    and "files d' (meta_path (vi_path h)) = files d (meta_path (vi_path h))"
    and "holds (vi_journal h) [] [] (files d')"
    and "files d' (jpath (vi_journal h)) = None \<longleftrightarrow> files d (jpath (vi_journal h)) = None"
proof -
  let ?dir = "vi_path h" let ?kt = "temp_of (keymap_path (vi_path h))" let ?it = "temp_of (usearch_path (vi_path h))"
  define swap :: "unit io" where "swap = (if 0 < n
      then io_bind (sync_file ?it) (\<lambda>_. rename_file ?it (usearch_path ?dir))
      else io_bind (contents (usearch_path ?dir)) (\<lambda>file. if file = None then io_ret () else remove_file (usearch_path ?dir)))"
  have jp: "jpath (vi_journal h) = journal_path ?dir" by (simp add: J(1) index_journal_def)
  let ?km = "stamped gen (vi_keymap h)"
  obtain s1 where s1: "on_disk swap (h, d) = (Inr (), s1)"
    and rest: "io_bind (on_handle (\<lambda>h. h\<lparr>vi_keymap := (vi_keymap h)\<lparr>generation := gen\<rparr>\<rparr>)) (\<lambda>_.
      io_bind (io_lift (embedding_result ''serializing keymap'' (put_keymap x ?km))) (\<lambda>bs.
      io_bind (on_disk (write_file ?kt bs)) (\<lambda>_.
      io_bind (on_disk (sync_file ?kt)) (\<lambda>_.
      io_bind (on_disk (rename_file ?kt (keymap_path ?dir))) (\<lambda>_.
      io_bind (on_disk (sync_dir ?dir)) (\<lambda>_.
      io_bind (on_disk (clear_journal (vi_journal h))) (\<lambda>_.
      on_handle (\<lambda>h. h\<lparr>vi_tombstones := [], vi_generation := gen\<rparr>)))))))) s1 = (Inr (), (h', d'))"
    using run unfolding publish_compaction_def with_handle_def Let_def fst_conv gen_def stamped_def swap_def
    by (auto elim: io_bind_InrE)
  obtain d1 where d1: "swap d = (Inr (), d1)" "s1 = (h, d1)" using s1 by (auto elim: on_disk_InrE)
  have f1: "files d1 (usearch_path ?dir) = (if 0 < n then files d ?it else None)"
    "files d1 (meta_path ?dir) = files d (meta_path ?dir)" "files d1 (journal_path ?dir) = files d (journal_path ?dir)"
    using d1(1) unfolding swap_def
    by (auto simp: io_ret_def dest!: file_effects elim!: io_bind_InrE split: if_splits)
  obtain bs d2 d3 d4 d5 d6 where bs: "put_keymap x ?km = Inr bs"
    and d2: "write_file ?kt bs d1 = (Inr (), d2)" and d3: "sync_file ?kt d2 = (Inr (), d3)"
    and d4: "rename_file ?kt (keymap_path ?dir) d3 = (Inr (), d4)" and d5: "sync_dir ?dir d4 = (Inr (), d5)"
    and d6: "clear_journal (vi_journal h) d5 = (Inr (), d6)"
    and h': "h' = h\<lparr>vi_keymap := ?km, vi_tombstones := [], vi_generation := gen\<rparr>" "d' = d6"
    using rest unfolding d1(2) stamped_def
    by (auto simp: on_handle_def io_lift_def embedding_result_def elim!: io_bind_InrE on_disk_InrE split: sum.splits)
  have f5: "files d5 = (files d1)(?kt := None, keymap_path ?dir \<mapsto> bs)"
    using write_file_Inr[OF d2] sync_Inr(1)[OF d3] rename_file_Inr[OF d4] sync_Inr(2)[OF d5]
    by (auto simp: fun_eq_iff)
  have "holds (vi_journal h) rs [] (files d5)" using J(2) f1(3) by (simp add: holds_def jp f5)
  note C = clear_sound[OF this d6]
  have other: "files d6 p = files d5 p" if "p \<noteq> journal_path ?dir" for p
    using clear_journal_others[OF d6] that jp by simp
  show "h' = h\<lparr>vi_keymap := ?km, vi_tombstones := [], vi_generation := gen\<rparr>" by (rule h')
  show "files d' (usearch_path ?dir) = (if 0 < n then files d ?it else None)"
    "\<exists>bs. put_keymap x ?km = Inr bs \<and> files d' (keymap_path ?dir) = Some bs"
    "files d' (meta_path ?dir) = files d (meta_path ?dir)"
    using f1 f5 bs by (simp_all add: h' other)
  show "holds (vi_journal h) [] [] (files d')"
    "files d' (jpath (vi_journal h)) = None \<longleftrightarrow> files d (jpath (vi_journal h)) = None"
    using C f5 f1(3) jp by (simp_all add: h')
qed

lemma save_graph_Inr:
  assumes "save_graph x p g d = (Inr u, d')"
  shows "\<exists>bs. us_save x g = Inr bs \<and> files d' = (files d)(p \<mapsto> bs)"
  using assms write_file_Inr by (fastforce simp: save_graph_def split: sum.splits prod.splits)

lemma on_error_Inr: "on_error f m s = (Inr y, s') \<Longrightarrow> m s = (Inr y, s')"
  by (auto simp: on_error_def split: prod.splits sum.splits)

lemma save_and_publish_effect:
  assumes L: "graph_laws x vecs" and C: "codec_laws x" and A: "attached x vecs h (files d) t rs"
    and h1: "h1 = h\<lparr>vi_inner := g, vi_keymap := km, vi_pending := []\<rparr>" and ok: "index_ok vecs h1"
    and run: "save_and_publish x (h1, d) = (Inr u, (h', d'))"
  shows "\<exists>t'. attached x vecs h' (files d') t' [] \<and> vectors vecs t' = contents_of vecs h' \<and>
    contents_of vecs h' = contents_of vecs h1 \<and> vi_pending h' = [] \<and> vi_tombstones h' = [] \<and> vi_meta h' = vi_meta h \<and> vi_path h' = vi_path h"
proof -
  let ?dir = "vi_path h" let ?it = "temp_of (usearch_path ?dir)" let ?n = "us_size x g"
  have J: "vi_journal h1 = index_journal (vi_path h1) (vi_meta h)" using attachedD(4)[OF A] by (simp add: h1)
  have fields: "vi_inner h1 = g" "vi_path h1 = ?dir" by (simp_all add: h1)
  obtain y s1 where "(if 0 < ?n then on_disk (save_graph x ?it g) else io_ret ()) (h1, d) = (Inr y, s1)"
    and rest: "publish_compaction x ?n s1 = (Inr u, (h', d'))"
    using run unfolding save_and_publish_def with_handle_def Let_def fst_conv fields by (rule io_bind_InrE)
  then obtain d1 where s1: "s1 = (h1, d1)"
    and new: "0 < ?n \<longrightarrow> (\<exists>bs. us_save x g = Inr bs \<and> files d1 ?it = Some bs)"
    and same: "\<And>p. p \<noteq> ?it \<Longrightarrow> files d1 p = files d p"
    by (auto simp: io_ret_def elim!: on_disk_InrE dest!: save_graph_Inr split: if_splits)
  have "holds (vi_journal h1) rs [] (files d1)"
    using attachedD(6)[OF A] same[of "journal_path ?dir"] attachedD(4)[OF A]
    by (simp add: holds_def h1 index_journal_def)
  note P = publish_effect[OF rest[unfolded s1] J this]
  let ?gen = "vi_generation h + 1" let ?t = "(g, stamped ?gen km)"
  have h': "h' = h\<lparr>vi_inner := g, vi_keymap := stamped ?gen km, vi_pending := [],
      vi_tombstones := [], vi_generation := ?gen\<rparr>" using P(1) by (simp add: h1)
  have T: "table_ok vecs ?t" using ok by (simp add: h1 index_ok_def table_ok_def)
  have c: "vectors vecs ?t = contents_of vecs h'" "contents_of vecs h' = contents_of vecs h1"
    by (simp_all add: h' h1 contents_of_def vectors_def)
  obtain kbs where kbs: "put_keymap x (stamped ?gen km) = Inr kbs" "files d' (keymap_path ?dir) = Some kbs"
    using P(3) by (auto simp: h1)
  have "get_keymap x kbs = Inr (stamped ?gen km)" using C kbs(1) by (auto simp: codec_laws_def)
  moreover have "case files d' (usearch_path ?dir) of None \<Rightarrow> vecs g = Map.empty | Some bs \<Rightarrow> us_save x g = Inr bs"
    using P(2) new graph_lawsD(6)[OF L, of g] by (auto simp: h1 split: if_splits option.splits)
  ultimately have "table_saved x vecs ?dir ?t (files d')"
    using T kbs(2) by (simp add: saved_defs cong: option.case_cong)
  moreover have "meta_saved x ?dir (vi_meta h) (files d')"
    using attachedD(9)[OF A] P(4) same[of "meta_path ?dir"] by (simp add: meta_saved_def h1)
  moreover have "holds (vi_journal h) [] [] (files d')" using P(5) by (simp add: h1)
  moreover from this have "opened_on (vi_journal h) (files d')"
    using holds_opened[OF _ attachedD(7)[OF A]] P(6) same[of "journal_path ?dir"] attachedD(4)[OF A]
    by (simp add: h1 index_journal_def)
  ultimately have "attached x vecs h' (files d') ?t []"
    using attachedD(3,4,10)[OF A] T by (simp add: attached_def saved_def h' index_ok_def)
  then show ?thesis using c by (intro exI[of _ ?t]) (simp add: h')
qed

lemma compact_adopted:
  assumes L: "graph_laws x vecs" and C: "codec_laws x" and A: "attached x vecs h (files d) t rs"
    and run: "io_bind (absorb_journal x) (\<lambda>_. with_handle (\<lambda>h.
      io_bind (on_handle (\<lambda>h. h\<lparr>vi_pending := []\<rparr>)) (\<lambda>_.
      on_error (requeue (vi_pending h)) (save_and_publish x)))) (h, d) = (Inr u, (h', d'))"
  shows "\<exists>t'. attached x vecs h' (files d') t' [] \<and> vectors vecs t' = contents_of vecs h' \<and>
    contents_of vecs h' = absorbed (set (vi_tombstones h)) rs (contents_of vecs h) \<and>
    vi_pending h' = [] \<and> vi_tombstones h' = [] \<and> vi_meta h' = vi_meta h \<and> vi_path h' = vi_path h"
proof -
  obtain y s2 where s2: "absorb_journal x (h, d) = (Inr y, s2)" and last: "with_handle (\<lambda>h.
      io_bind (on_handle (\<lambda>h. h\<lparr>vi_pending := []\<rparr>)) (\<lambda>_.
      on_error (requeue (vi_pending h)) (save_and_publish x))) s2 = (Inr u, (h', d'))"
    using run by (rule io_bind_InrE)
  obtain h2 d2 where p2: "s2 = (h2, d2)" by (cases s2) auto
  note B = absorb_attached[OF L A s2[unfolded p2]]
  then obtain g km where h2: "h2 = h\<lparr>vi_inner := g, vi_keymap := km\<rparr>" by blast
  have A2: "attached x vecs h (files d2) t rs" using A B by simp
  let ?h3 = "h\<lparr>vi_inner := g, vi_keymap := km, vi_pending := []\<rparr>"
  have "on_error (requeue (vi_pending h2)) (save_and_publish x) (?h3, d2) = (Inr u, (h', d'))"
    using last by (auto simp: p2 with_handle_def h2 on_handle_def io_bind_def)
  note run' = on_error_Inr[OF this]
  have ok: "index_ok vecs ?h3" "contents_of vecs ?h3 = contents_of vecs h2"
    using B by (simp_all add: h2 index_ok_def contents_of_def)
  show ?thesis using save_and_publish_effect[OF L C A2 refl ok(1) run'] ok(2) B by auto
qed

lemma compact_effect:
  assumes L: "graph_laws x vecs" and C: "codec_laws x" and A: "attached x vecs h (files d) t rs"
    and run: "compact_locked x (h, d) = (Inr u, (h', d'))"
  shows "\<exists>t'. attached x vecs h' (files d') t' [] \<and> vectors vecs t' = contents_of vecs h' \<and>
    contents_of vecs h' = absorbed (set (vi_tombstones h)) rs (contents_of vecs h) \<and>
    vi_pending h' = [] \<and> vi_tombstones h' = [] \<and> vi_meta h' = vi_meta h \<and> vi_path h' = vi_path h"
proof -
  obtain y s1 where s1: "reload_if_stale x (h, d) = (Inr y, s1)"
    and rest: "io_bind (absorb_journal x) (\<lambda>_. with_handle (\<lambda>h.
      io_bind (on_handle (\<lambda>h. h\<lparr>vi_pending := []\<rparr>)) (\<lambda>_.
      on_error (requeue (vi_pending h)) (save_and_publish x)))) s1 = (Inr u, (h', d'))"
    using run unfolding compact_locked_def by (rule io_bind_InrE)
  obtain d1 where d1: "s1 = (h, d1)" "files d1 = files d"
    using s1 reload_if_stale_noop[OF A] by (metis surj_pair)
  have "attached x vecs h (files d1) t rs" using A d1(2) by simp
  from compact_adopted[OF L C this rest[unfolded d1(1)]] show ?thesis .
qed

lemma append_others:
  assumes "append_records j new d = (r, d')" "p \<noteq> jpath j" shows "files d' p = files d p"
proof -
  have created: "files d2 p = files d1 p" if "create_file j d1 = (r', d2)" for r' d1 d2
    using that assms(2) unfolding create_file_def create_empty_def write_all_def sync_dir_def
    by (auto simp: io_ret_def io_lift_def append_to_def elim!: io_bind_cases quiet_cases syscall_cases
        split: if_splits option.splits)
  have written: "files d2 p = files d1 p" if "write_all (jpath j) bs d1 = (r', d2)" for r' d1 d2 bs
    using that assms(2) unfolding write_all_def
    by (auto simp: append_to_def elim!: syscall_cases split: option.splits)
  show ?thesis using assms(1)
  proof (cases rule: append_records_cases)
    case Write
    from Write(3) show ?thesis unfolding append_bytes_def
      by (auto simp: io_ret_def elim!: io_bind_cases quiet_cases dest!: created written split: if_splits)
  qed simp_all
qed

lemma journal_len_Inr:
  assumes "holds j rs [] (files d)" "journal_len j d = (Inr n, d')"
  shows "n = length rs \<and> files d' = files d"
  using assms
  by (auto simp: journal_len_def holds_def journal_ok_def length_body io_ret_def
      elim!: io_bind_InrE quiet_cases split: option.splits)

lemma concat_chunks: "0 < n \<Longrightarrow> concat (chunks n xs) = xs"
proof (induction n xs rule: chunks.induct)
  case (1 n xs)
  show ?case
  proof (cases "xs = []")
    case False
    then have "concat (chunks n (drop n xs)) = drop n xs" using 1 by simp
    then show ?thesis using False 1(2) by (subst chunks.simps) simp
  qed (simp add: chunks.simps)
qed

lemma append_chunks_effect:
  assumes "append_chunks drained w cs (h, d) = (Inr u, (h', d'))" "holds (vi_journal h) rs [] (files d)"
    and "opened_on (vi_journal h) (files d)"
  shows "h' = h \<and> holds (vi_journal h) (rs @ concat cs) [] (files d') \<and> opened_on (vi_journal h) (files d') \<and>
    (\<forall>p. p \<noteq> jpath (vi_journal h) \<longrightarrow> files d' p = files d p)"
  using assms
proof (induction cs arbitrary: w d rs)
  case Nil then show ?case by (simp add: io_ret_def)
next
  case (Cons c cs)
  from Cons.prems(1) obtain y s1 where c: "on_error (requeue (drop w drained)) (on_disk (append_records (vi_journal h) c)) (h, d) = (Inr y, s1)"
    and rest: "append_chunks drained (w + length c) cs s1 = (Inr u, (h', d'))"
    unfolding append_chunks.simps with_handle_def fst_conv by (rule io_bind_InrE)
  obtain d1 where d1: "append_records (vi_journal h) c d = (Inr y, d1)" "s1 = (h, d1)"
    using on_error_Inr[OF c] by (auto elim: on_disk_InrE)
  have a: "append_records (vi_journal h) c d = (Inr (), d1)" using d1(1) by simp
  note H = append_holds[OF Cons.prems(2) a]
  have holds: "holds (vi_journal h) (rs @ c) [] (files d1)"
    using H Cons.prems(2) by (cases "c = []") (auto simp: holds_def fits_dim_def)
  have "files d1 (jpath (vi_journal h)) = None \<longrightarrow> files d (jpath (vi_journal h)) = None"
    using H by (cases "c = []") auto
  then have "opened_on (vi_journal h) (files d1)" by (rule holds_opened[OF holds Cons.prems(3)])
  note I = Cons.IH[OF rest[unfolded d1(2)] holds this]
  have "files d' p = files d p" if "p \<noteq> jpath (vi_journal h)" for p
    using I that append_others[OF a that] by simp
  then show ?case using I by simp
qed

text \<open>On a disk where no call fails, an append of vectors of the right dimension succeeds.\<close>

lemma append_records_sound:
  assumes "sound_disk d" "journal_ok j" "fits_dim j rs"
  shows "\<exists>d'. append_records j rs d = (Inr (), d') \<and> sound_disk d' \<and> lock_script d' = lock_script d"
proof -
  have "traverse (encode_record (dim_of j)) rs = Inr (map record_bytes rs)" using assms(3) encode_records by blast
  then show ?thesis using assms(1,2)
    by (auto simp: append_records_def append_bytes_def create_file_def create_empty_def write_all_def sync_dir_def
        quiet_def io_bind_def journal_ok_def)
qed

lemma append_chunks_sound:
  assumes "sound_disk d" "journal_ok (vi_journal h)" "\<forall>c \<in> set cs. fits_dim (vi_journal h) c"
  shows "\<exists>d'. append_chunks drained w cs (h, d) = (Inr (), (h, d')) \<and> sound_disk d'"
  using assms
proof (induction cs arbitrary: w d)
  case (Cons c cs)
  obtain d1 where "append_records (vi_journal h) c d = (Inr (), d1)" and d1: "sound_disk d1"
    using append_records_sound[OF Cons.prems(1,2)] Cons.prems(3) by auto
  then have "on_error (requeue (drop w drained)) (on_disk (append_records (vi_journal h) c)) (h, d) = (Inr (), (h, d1))"
    by (simp add: on_error_def on_disk_def)
  then show ?case using Cons.IH[OF d1 Cons.prems(2)] Cons.prems(3) by (simp add: with_handle_def)
qed (simp add: with_handle_def)

lemma set_chunks: "c \<in> set (chunks n xs) \<Longrightarrow> set c \<subseteq> set xs"
proof (induction n xs rule: chunks.induct)
  case (1 n xs)
  then show ?case
    by (cases "n = 0 \<or> xs = []") (auto simp: chunks.simps[of n xs] dest: in_set_takeD in_set_dropD)
qed

lemma commit_append_sound:
  assumes A: "attached x vecs h (files d) t rs" and d: "sound_disk d" "lock_script d = []"
    and fits: "fits_dim (vi_journal h) (vi_pending h)" and len: "length rs + length (vi_pending h) \<le> COMPACT_THRESHOLD"
  shows "\<exists>h' d'. commit x False (h, d) = (Inr (), (h', d'))"
proof -
  let ?h = "h\<lparr>vi_pending := []\<rparr>" and ?ps = "vi_pending h" and ?cs = "chunks JOURNAL_APPEND_CHUNK (vi_pending h)"
  have "journal_ok (vi_journal ?h)" using attachedD(6)[OF A] by (simp add: holds_def)
  moreover have "\<forall>c \<in> set ?cs. fits_dim (vi_journal ?h) c" using fits set_chunks by (fastforce simp: fits_dim_def)
  ultimately obtain d1 where a: "append_chunks ?ps 0 ?cs (?h, d) = (Inr (), (?h, d1))" and s1: "sound_disk d1"
    using append_chunks_sound[OF d(1)] by blast
  have "holds (vi_journal h) (rs @ ?ps) [] (files d1)"
    using append_chunks_effect[OF a, of rs] attachedD(6,7)[OF A] by (simp add: concat_chunks JOURNAL_APPEND_CHUNK_def)
  then obtain n d2 where n: "journal_len (vi_journal h) d1 = (Inr n, d2)" "n \<le> COMPACT_THRESHOLD"
    using journal_len_sound[OF _ s1] len by (cases "journal_len (vi_journal h) d1") fastforce
  have "acquire_lock_at (in_dir (vi_path h) ''lock'') d = (Inr (), d)"
    using d(2) by (simp add: acquire_lock_at_def LOCK_ATTEMPTS_def numeral_eq_Suc)
  then have "on_disk (acquire_lock_at (in_dir (vi_path h) ''lock'')) (h, d) = (Inr (), (h, d))"
    by (simp add: on_disk_def)
  moreover have "write_meta_upgrade x (h, d) = (Inr (), (h, d))"
    using attachedD(3)[OF A] by (simp add: write_meta_upgrade_def with_handle_def)
  moreover have "on_disk (journal_len (vi_journal h)) (?h, d1) = (Inr n, (?h, d2))" by (simp add: on_disk_def n(1))
  moreover have "on_handle (\<lambda>h. h\<lparr>vi_pending := []\<rparr>) (h, d) = (Inr (), (?h, d))" by (simp add: on_handle_def)
  ultimately show ?thesis using a n(2) by (simp add: commit_def commit_locked_def with_handle_def)
qed

text \<open>What a commit of a handle makes of the directory.\<close>

lemma commit_effect:
  assumes L: "graph_laws x vecs" and C: "codec_laws x" and A: "attached x vecs h (files d) t rs"
    and run: "commit x end_of_batch (h, d) = (Inr u, (h', d'))"
  shows "(\<exists>t'. attached x vecs h' (files d') t' [] \<and> vectors vecs t' = contents_of vecs h' \<and>
      contents_of vecs h' = absorbed (set (vi_tombstones h)) (rs @ (if end_of_batch then [] else vi_pending h)) (contents_of vecs h) \<and>
      vi_pending h' = [] \<and> vi_tombstones h' = [] \<and> vi_meta h' = vi_meta h \<and> vi_path h' = vi_path h \<and>
      (end_of_batch \<or> COMPACT_THRESHOLD < length rs + length (vi_pending h))) \<or>
    (\<not> end_of_batch \<and> attached x vecs h' (files d') t (rs @ vi_pending h) \<and> h' = h\<lparr>vi_pending := []\<rparr> \<and>
      length rs + length (vi_pending h) \<le> COMPACT_THRESHOLD)"
proof -
  obtain y s1 where "on_disk (acquire_lock_at (in_dir (vi_path h) ''lock'')) (h, d) = (Inr y, s1)"
    and c: "commit_locked x end_of_batch s1 = (Inr u, (h', d'))"
    using run unfolding commit_def with_handle_def fst_conv by (rule io_bind_InrE)
  then obtain d1 where d1: "s1 = (h, d1)" "files d1 = files d"
    by (auto simp: acquire_lock_at_def elim!: on_disk_InrE dest!: lock_attempts_files)
  have A1: "attached x vecs h (files d1) t rs" using A d1(2) by simp
  have "write_meta_upgrade x (h, d1) = (Inr (), (h, d1))"
    using attachedD(3)[OF A] by (simp add: write_meta_upgrade_def with_handle_def)
  with c have c: "(if end_of_batch then compact_locked x else with_handle (\<lambda>h.
      io_bind (on_handle (\<lambda>h. h\<lparr>vi_pending := []\<rparr>)) (\<lambda>_.
      io_bind (append_chunks (vi_pending h) 0 (chunks JOURNAL_APPEND_CHUNK (vi_pending h))) (\<lambda>_.
      io_bind (on_disk (journal_len (vi_journal h))) (\<lambda>n.
      if COMPACT_THRESHOLD < n then compact_locked x else io_ret ()))))) (h, d1) = (Inr u, (h', d'))"
    by (simp add: commit_locked_def d1(1))
  show ?thesis
  proof (cases end_of_batch)
    case True
    then have "compact_locked x (h, d1) = (Inr u, (h', d'))" using c by simp
    from compact_effect[OF L C A1 this] show ?thesis using True by auto
  next
    case False
    let ?h = "h\<lparr>vi_pending := []\<rparr>" and ?ps = "vi_pending h"
    have "io_bind (append_chunks ?ps 0 (chunks JOURNAL_APPEND_CHUNK ?ps)) (\<lambda>_.
      io_bind (on_disk (journal_len (vi_journal h))) (\<lambda>n.
      if COMPACT_THRESHOLD < n then compact_locked x else io_ret ())) (?h, d1) = (Inr u, (h', d'))"
      using c False by (simp add: with_handle_def on_handle_def io_bind_def[of "\<lambda>s. (Inr (), _ s)"])
    then obtain y2 s2 where a: "append_chunks ?ps 0 (chunks JOURNAL_APPEND_CHUNK ?ps) (?h, d1) = (Inr y2, s2)"
      and rest: "io_bind (on_disk (journal_len (vi_journal h))) (\<lambda>n.
        if COMPACT_THRESHOLD < n then compact_locked x else io_ret ()) s2 = (Inr u, (h', d'))"
      by (rule io_bind_InrE)
    obtain h2 d2 where s2: "s2 = (h2, d2)" by (cases s2) auto
    have "h2 = ?h \<and> holds (vi_journal h) (rs @ ?ps) [] (files d2) \<and> opened_on (vi_journal h) (files d2) \<and>
      (\<forall>p. p \<noteq> jpath (vi_journal h) \<longrightarrow> files d2 p = files d1 p)"
      using append_chunks_effect[OF a[unfolded s2], of rs] attachedD(6,7)[OF A1]
      by (simp add: concat_chunks JOURNAL_APPEND_CHUNK_def)
    note E = this
    have A2: "attached x vecs ?h (files d2) t (rs @ ?ps)"
      using A1 E by (simp add: attached_def saved_def meta_saved_def saved_defs index_journal_def
          index_ok_def cong: option.case_cong)
    obtain n s3 where n: "on_disk (journal_len (vi_journal h)) (?h, d2) = (Inr n, s3)"
      and last: "(if COMPACT_THRESHOLD < n then compact_locked x else io_ret ()) s3 = (Inr u, (h', d'))"
      using rest E unfolding s2 by (auto elim: io_bind_InrE)
    obtain d3 where d3: "journal_len (vi_journal h) d2 = (Inr n, d3)" "s3 = (?h, d3)" using n by (auto elim: on_disk_InrE)
    have len: "n = length rs + length ?ps" "files d3 = files d2" using journal_len_Inr[OF _ d3(1), of "rs @ ?ps"] E by simp_all
    have A3: "attached x vecs ?h (files d3) t (rs @ ?ps)" using A2 len(2) by simp
    show ?thesis
    proof (cases "COMPACT_THRESHOLD < n")
      case True
      then have "compact_locked x (?h, d3) = (Inr u, (h', d'))" using last d3(2) by simp
      from compact_effect[OF L C A3 this] show ?thesis using True False len(1)
        by (auto simp: contents_of_def)
    next
      case n: False
      then show ?thesis using last d3(2) A3 False len(1) by (simp add: io_ret_def)
    qed
  qed
qed

section \<open>From one process to the next\<close>

text \<open>A handle as \<open>open\<close> returns it.\<close>

definition opened ::
  "'g vext \<Rightarrow> ('g \<Rightarrow> nat \<Rightarrow> vec option) \<Rightarrow> 'g vindex \<Rightarrow> files \<Rightarrow> 'g \<times> keymap \<Rightarrow> (ulid \<times> vec) list \<Rightarrow> bool" where
  "opened x vecs h fs t rs \<longleftrightarrow> attached x vecs h fs t rs \<and> vi_pending h = [] \<and> vi_tombstones h = [] \<and>
     contents_of vecs h = absorbed {} rs (vectors vecs t)"

lemma open_opened:
  assumes "graph_laws x vecs" "reliable x" "saved x vecs dir m t rs (files d)" "sound_disk d" "lock_script d = []"
  shows "\<exists>h d'. open_with_options x dir opts d = (Inr h, d') \<and> opened x vecs h (files d') t rs \<and>
    vi_path h = dir \<and> vi_meta h = m"
  using open_saved[OF assms, of opts] by (auto simp: opened_def attached_def loaded_def)

lemma absorbed_known:
  "fst ` set rs \<subseteq> dom m \<Longrightarrow> absorbed tombs rs m = m"
  by (auto simp: absorbed_def fun_eq_iff map_add_def restrict_map_def map_of_eq_None_iff rev_map
      split: option.split)

lemma absorbed_append:
  "m i = None \<Longrightarrow> absorbed {} (rs @ es) m i = (absorbed {} rs m ++ map_of (rev es)) i"
  by (simp add: absorbed_def map_add_def split: option.split)

lemma dom_absorbed: "dom (absorbed {} rs m) = fst ` set rs \<union> dom m"
  by (auto simp: absorbed_def dom_map_of_conv_image_fst)

lemma add_batch_attached:
  assumes L: "graph_laws x vecs" and A: "attached x vecs h (files d) t rs"
    and add: "add_batch x es (h, d) = (Inr u, (h1, d1))"
  shows "attached x vecs h1 (files d1) t rs \<and> vi_pending h1 = vi_pending h @ es \<and> d1 = d \<and>
    vi_journal h1 = vi_journal h \<and> vi_tombstones h1 = vi_tombstones h \<and> vi_path h1 = vi_path h \<and> vi_meta h1 = vi_meta h \<and>
    contents_of vecs h1 = contents_of vecs h ++ map_of (rev es)"
proof -
  note E = add_entries_effect[OF L attachedD(2)[OF A] add[unfolded add_batch_def]]
  then obtain g km p where h1: "h1 = h\<lparr>vi_inner := g, vi_keymap := km, vi_pending := p\<rparr>" by blast
  have ok: "index_ok vecs h1" "vi_pending h1 = vi_pending h @ es" "d1 = d"
    "contents_of vecs h1 = contents_of vecs h ++ map_of (rev es)" using E by simp_all
  have "attached x vecs h1 (files d1) t rs" using A ok(1,3) by (simp add: h1 attached_def)
  then show ?thesis using ok by (simp add: h1)
qed

text \<open>The vectors that a directory gives back after a batch was added to a fresh handle and committed.\<close>

lemma reopened_contents:
  assumes L: "graph_laws x vecs" and C: "codec_laws x" and O: "opened x vecs h (files d) t rs"
    and add: "add_batch x es (h, d) = (Inr u, (h1, d1))"
    and com: "commit x end_of_batch (h1, d1) = (Inr u2, (h2, d2))"
  shows "(\<exists>t'. saved x vecs (vi_path h) (vi_meta h) t' [] (files d2) \<and>
      vectors vecs t' = contents_of vecs h ++ map_of (rev es) \<and>
      (end_of_batch \<or> COMPACT_THRESHOLD < length rs + length es)) \<or>
    (\<not> end_of_batch \<and> length rs + length es \<le> COMPACT_THRESHOLD \<and>
      saved x vecs (vi_path h) (vi_meta h) t (rs @ es) (files d2))"
proof -
  have A: "attached x vecs h (files d) t rs" and P: "vi_pending h = []" "vi_tombstones h = []"
    and cont: "contents_of vecs h = absorbed {} rs (vectors vecs t)" using O by (simp_all add: opened_def)
  note E = add_batch_attached[OF L A add]
  have A1: "attached x vecs h1 (files d1) t rs" and p: "vi_pending h1 = es" "vi_path h1 = vi_path h" "vi_meta h1 = vi_meta h"
    and c1: "contents_of vecs h1 = contents_of vecs h ++ map_of (rev es)" using E P by auto
  have known: "fst ` set rs \<subseteq> dom (contents_of vecs h1)" "fst ` set es \<subseteq> dom (contents_of vecs h1)"
    by (auto simp: c1 cont dom_absorbed dom_map_of_conv_image_fst)
  then have same: "absorbed (set (vi_tombstones h1)) (rs @ (if end_of_batch then [] else vi_pending h1)) (contents_of vecs h1)
      = contents_of vecs h1" by (intro absorbed_known) (auto simp: p image_Un)
  from commit_effect[OF L C A1 com] show ?thesis
  proof (elim disjE)
    assume "\<exists>t'. attached x vecs h2 (files d2) t' [] \<and> vectors vecs t' = contents_of vecs h2 \<and>
      contents_of vecs h2 = absorbed (set (vi_tombstones h1)) (rs @ (if end_of_batch then [] else vi_pending h1)) (contents_of vecs h1) \<and>
      vi_pending h2 = [] \<and> vi_tombstones h2 = [] \<and> vi_meta h2 = vi_meta h1 \<and> vi_path h2 = vi_path h1 \<and>
      (end_of_batch \<or> COMPACT_THRESHOLD < length rs + length (vi_pending h1))"
    then show ?thesis unfolding same using c1 by (auto simp: attached_def p)
  next
    assume "\<not> end_of_batch \<and> attached x vecs h2 (files d2) t (rs @ vi_pending h1) \<and> h2 = h1\<lparr>vi_pending := []\<rparr> \<and>
      length rs + length (vi_pending h1) \<le> COMPACT_THRESHOLD"
    then show ?thesis by (auto simp: attached_def p)
  qed
qed


text \<open>
  A replaced vector is not durable before a compaction. A commit that only appends to the journal
  returns Ok for a vector that replaces one of the compacted files, but a replay skips every id
  the keymap names, so the next process answers with the old vector.
\<close>

theorem replacement_lost_without_compaction:
  assumes "graph_laws x vecs" "codec_laws x" "reliable x" "opened x vecs h (files d) t rs"
    and "add_batch x es (h, d) = (Inr u, (h1, d1))" "commit x False (h1, d1) = (Inr u2, (h2, d2))"
    and "length rs + length es \<le> COMPACT_THRESHOLD"
    and "sound_disk d3" "files d3 = files d2" "lock_script d3 = []"
    and "vectors vecs t i = Some old"
  shows "\<exists>h3 d4. open_with_options x (vi_path h) opts d3 = (Inr h3, d4) \<and> contents_of vecs h3 i = Some old"
proof -
  have "saved x vecs (vi_path h) (vi_meta h) t (rs @ es) (files d3)"
    using reopened_contents[OF assms(1,2,4-6)] assms(7,9) by auto
  from open_opened[OF assms(1,3) this assms(8,10), of opts] show ?thesis
    using assms(11) by (auto simp: opened_def absorbed_def)
qed

section \<open>Two handles\<close>

text \<open>A handle on a directory that another handle has compacted since this one loaded it.\<close>

definition overtaken ::
  "'g vext \<Rightarrow> ('g \<Rightarrow> nat \<Rightarrow> vec option) \<Rightarrow> 'g vindex \<Rightarrow> files \<Rightarrow> 'g \<times> keymap \<Rightarrow> (ulid \<times> vec) list \<Rightarrow> bool" where
  "overtaken x vecs h fs t rs \<longleftrightarrow> saved x vecs (vi_path h) (vi_meta h) t rs fs \<and>
     vi_journal h = index_journal (vi_path h) (vi_meta h) \<and> fs (keymap_path (vi_path h)) \<noteq> None \<and>
     vi_generation h \<noteq> generation (snd t) \<and> \<not> vi_upgrade h"

lemma load_graph_Inr:
  assumes L: "graph_laws x vecs" and T: "table_saved x vecs dir t (files d)"
    and run: "load_graph x dir opts c1 c2 d = (Inr (g, present), d')"
  shows "vecs g = vecs (fst t) \<and> files d' = files d"
proof -
  obtain g0 where g0: "us_new x opts = Inr g0"
    using run by (auto simp: load_graph_def io_lift_def usearch_result_def elim!: io_bind_InrE split: sum.splits)
  show ?thesis
  proof (cases "files d (usearch_path dir)")
    case None
    then obtain "us_reserve x 1024 g0 = Inr g" "files d' = files d"
      using run g0 by (auto simp: load_graph_def usearch_result_def io_lift_def io_ret_def elim!: io_bind_InrE split: sum.splits)
    then show ?thesis using graph_lawsD(1)[OF L g0] graph_lawsD(2)[OF L] T None by (simp add: saved_defs)
  next
    case (Some bs)
    then obtain "us_load x bs g0 = Inr g" "files d' = files d"
      using run g0 by (auto simp: load_graph_def usearch_result_def io_lift_def io_ret_def
          elim!: io_bind_InrE quiet_cases split: sum.splits)
    then show ?thesis using graph_lawsD(7)[OF L] T Some by (simp add: saved_defs)
  qed
qed

lemma reload_if_stale_effect:
  assumes L: "graph_laws x vecs" and A: "overtaken x vecs h (files d) t rs"
    and run: "reload_if_stale x (h, d) = (Inr u, (h', d'))"
  shows "files d' = files d \<and> attached x vecs h' (files d') t rs \<and>
    contents_of vecs h' = vectors vecs t ++ map_of (rev (vi_pending h)) \<and>
    vi_pending h' = vi_pending h \<and> vi_tombstones h' = vi_tombstones h \<and> vi_path h' = vi_path h \<and> vi_meta h' = vi_meta h"
proof -
  have S: "saved x vecs (vi_path h) (vi_meta h) t rs (files d)" and gen: "vi_generation h \<noteq> generation (snd t)"
    using A by (simp_all add: overtaken_def)
  then have T: "table_saved x vecs (vi_path h) t (files d)" by (simp add: saved_def)
  obtain kbs where kbs: "files d (keymap_path (vi_path h)) = Some kbs" and k: "get_keymap x kbs = Inr (snd t)"
    using A T by (auto simp: overtaken_def saved_defs)
  obtain mbs where m: "files d (meta_path (vi_path h)) = Some mbs" "get_format x mbs = Inr FORMAT_VERSION"
    using S by (auto simp: saved_def meta_saved_def meta_ok_def)
  have "io_bind (on_disk (disk_format_version x (meta_path (vi_path h)))) (\<lambda>v.
      io_bind (on_disk (read_keymap x (keymap_path (vi_path h))
          (case v of Some v \<Rightarrow> v | None \<Rightarrow> FORMAT_VERSION))) (adopt_newer x h)) (h, d) = (Inr u, (h', d'))"
    using run kbs by (simp add: reload_if_stale_def with_handle_def)
  then obtain v s1 where v: "on_disk (disk_format_version x (meta_path (vi_path h))) (h, d) = (Inr v, s1)"
    and rest: "io_bind (on_disk (read_keymap x (keymap_path (vi_path h))
          (case v of Some v \<Rightarrow> v | None \<Rightarrow> FORMAT_VERSION))) (adopt_newer x h) s1 = (Inr u, (h', d'))"
    by (rule io_bind_InrE)
  obtain d1 where v': "disk_format_version x (meta_path (vi_path h)) d = (Inr v, d1)" "s1 = (h, d1)"
    using v by (auto elim: on_disk_InrE)
  then have d1: "s1 = (h, d1)" "v = Some FORMAT_VERSION" "files d1 = files d"
    using disk_format_version_Inr[OF v'(1) m] by blast+
  obtain km s2 where km: "on_disk (read_keymap x (keymap_path (vi_path h)) FORMAT_VERSION) (h, d1) = (Inr km, s2)"
    and last: "adopt_newer x h km s2 = (Inr u, (h', d'))"
    using rest unfolding d1(1,2) option.case by (rule io_bind_InrE)
  have "files d1 (keymap_path (vi_path h)) = Some kbs" using d1(3) kbs by simp
  moreover obtain d2 where r: "read_keymap x (keymap_path (vi_path h)) FORMAT_VERSION d1 = (Inr km, d2)" "s2 = (h, d2)"
    using km by (auto elim: on_disk_InrE)
  ultimately have s2: "s2 = (h, d2)" "km = snd t" "files d2 = files d"
    using read_keymap_Inr[OF r(1) _ k] d1(3) by simp_all
  obtain g p d3 where g: "load_graph x (vi_path h) (usearch_options_of (vi_meta h) (vi_expansion_search h))
         ''constructing usearch::Index for a stale-handle reload''
         ''reloading usearch index after another handle compacted'' d2 = (Inr (g, p), d3)"
    and ins: "(case insert_entries x (vi_pending h) (g, snd t) of
         (Inl e, _) \<Rightarrow> io_fail e
       | (Inr _, (g, km)) \<Rightarrow> on_handle (\<lambda>h. h\<lparr>vi_inner := g, vi_keymap := km,
            vi_generation := generation (snd t)\<rparr>)) (h, d3) = (Inr u, (h', d'))"
    using last gen unfolding adopt_newer_def s2 by (auto elim!: io_bind_InrE on_disk_InrE)
  have "vecs g = vecs (fst t) \<and> files d3 = files d2" using load_graph_Inr[OF L _ g, of t] T s2(3) by simp
  then have ok: "table_ok vecs (g, snd t)" "vectors vecs (g, snd t) = vectors vecs t" "files d3 = files d"
    using T s2(3) by (simp_all add: saved_defs table_ok_def vectors_def)
  obtain y g' km' where i: "insert_entries x (vi_pending h) (g, snd t) = (Inr y, (g', km'))"
    and h': "h' = h\<lparr>vi_inner := g', vi_keymap := km', vi_generation := generation (snd t)\<rparr>" "d' = d3"
    using ins by (cases "insert_entries x (vi_pending h) (g, snd t)")
      (auto simp: io_fail_def on_handle_def split: sum.splits)
  note U = updatesD[OF updates_insert_entries[OF L] ok(1) i]
  have "attached x vecs h' (files d') t rs"
    using A S U(1) ok(3) by (simp add: attached_def overtaken_def index_ok_def h')
  then show ?thesis using U(3)[OF refl] ok(2,3) by (simp add: h' contents_of_def)
qed

lemma stale_commit_effect:
  assumes "graph_laws x vecs" "codec_laws x" "overtaken x vecs h (files d) t rs"
    and "commit x True (h, d) = (Inr u, (h', d'))"
  shows "\<exists>t'. saved x vecs (vi_path h) (vi_meta h) t' [] (files d') \<and> vectors vecs t' = contents_of vecs h' \<and>
    contents_of vecs h' = absorbed (set (vi_tombstones h)) rs (vectors vecs t ++ map_of (rev (vi_pending h))) \<and>
    vi_pending h' = []"
proof -
  obtain y s1 where "on_disk (acquire_lock_at (in_dir (vi_path h) ''lock'')) (h, d) = (Inr y, s1)"
    and c: "commit_locked x True s1 = (Inr u, (h', d'))"
    using assms(4) unfolding commit_def with_handle_def fst_conv by (rule io_bind_InrE)
  then obtain d1 where d1: "s1 = (h, d1)" "files d1 = files d"
    by (auto simp: acquire_lock_at_def elim!: on_disk_InrE dest!: lock_attempts_files)
  have O: "overtaken x vecs h (files d1) t rs" using assms(3) d1(2) by simp
  have "write_meta_upgrade x (h, d1) = (Inr (), (h, d1))"
    using O by (simp add: write_meta_upgrade_def with_handle_def overtaken_def)
  with c have "compact_locked x (h, d1) = (Inr u, (h', d'))" by (simp add: commit_locked_def d1(1))
  then obtain y s2 where r: "reload_if_stale x (h, d1) = (Inr y, s2)"
    and rest: "io_bind (absorb_journal x) (\<lambda>_. with_handle (\<lambda>h.
      io_bind (on_handle (\<lambda>h. h\<lparr>vi_pending := []\<rparr>)) (\<lambda>_.
      on_error (requeue (vi_pending h)) (save_and_publish x)))) s2 = (Inr u, (h', d'))"
    unfolding compact_locked_def by (rule io_bind_InrE)
  obtain h2 d2 where s2: "s2 = (h2, d2)" by (cases s2) auto
  note R = reload_if_stale_effect[OF assms(1) O r[unfolded s2]]
  then have A: "attached x vecs h2 (files d2) t rs" by blast
  obtain t' where "attached x vecs h' (files d') t' []" "vectors vecs t' = contents_of vecs h'"
    "contents_of vecs h' = absorbed (set (vi_tombstones h)) rs (contents_of vecs h2)"
    "vi_pending h' = []" "vi_meta h' = vi_meta h2" "vi_path h' = vi_path h2"
    using compact_adopted[OF assms(1,2) A rest[unfolded s2]] R by auto
  then show ?thesis using R by (intro exI[of _ t']) (simp add: attached_def)
qed

text \<open>
  A compaction loses no other handle's work. When another handle has compacted in the meantime, a
  compaction that returns Ok keeps every vector of the newer files and every journal record,
  adds what this handle had queued, and leaves the directory standing for exactly the result.
\<close>

theorem stale_compaction_merges:
  assumes "graph_laws x vecs" "codec_laws x" "overtaken x vecs h (files d) t rs"
    and "commit x True (h, d) = (Inr u, (h', d'))"
  shows "\<exists>t'. saved x vecs (vi_path h) (vi_meta h) t' [] (files d') \<and> vectors vecs t' = contents_of vecs h' \<and>
    contents_of vecs h' = absorbed (set (vi_tombstones h)) rs (vectors vecs t ++ map_of (rev (vi_pending h))) \<and>
    vi_pending h' = []"
  by (rule stale_commit_effect[OF assms])

text \<open>
  A removal is undone by another handle's compaction. The reload adopts the newer keymap without
  the ids this handle removed, and the compaction then forgets the tombstones, so a vector that
  was removed through this handle is back, in memory and on disk, although the commit returned Ok.
\<close>

theorem removal_undone_by_reload:
  assumes "graph_laws x vecs" "codec_laws x" "overtaken x vecs h (files d) t rs"
    and "commit x True (h, d) = (Inr u, (h', d'))"
    and "i \<in> set (vi_tombstones h)" "vectors vecs t i = Some v" "i \<notin> fst ` set (vi_pending h)"
  shows "contents_of vecs h' i = Some v"
proof -
  have "map_of (rev (vi_pending h)) i = None" using assms(7) by (simp add: map_of_eq_None_iff)
  then have "(vectors vecs t ++ map_of (rev (vi_pending h))) i = Some v" using assms(6) by (simp add: map_add_def)
  then show ?thesis using stale_commit_effect[OF assms(1-4)] by (auto simp: absorbed_def map_add_def)
qed

end
