(* ===== verification/Vector_Runs.thy ===== *)
theory Vector_Runs
  imports Vector_Durability
begin

text \<open>
  The durability properties applied to concrete runs over the sample library: a directory with one
  compacted vector, a handle that replaces it, and a handle that has been overtaken.
\<close>

definition sample_library :: "sample_graph vext" where
  "sample_library = library [([(0, [7])], [1]), ([(1, [8])], [2])]
     [(sample_keymap, [1]),
      (\<lparr>generation = 2, next_key = 2, forward = [(1, 5)], reverse = [(5, 1)]\<rparr>, [2]),
      (\<lparr>generation = 2, next_key = 1, forward = [(0, 5)], reverse = [(5, 0)]\<rparr>, [3])]
     [(sample_meta, [65])]"

definition sample_dir :: disk where
  "sample_dir = quiet_disk [''v/.meta.json'' \<mapsto> [65], ''v/index.usearch'' \<mapsto> [1], ''v/keymap.bin'' \<mapsto> [1]]"

definition sample_handle :: "sample_graph vindex" where
  "sample_handle = loaded ''v'' sample_meta default_index_options (Suc 0, [(0, [7])]) sample_keymap"

definition overtaken_handle :: "sample_graph vindex" where
  "overtaken_handle = sample_handle\<lparr>vi_generation := 0, vi_tombstones := [5]\<rparr>"

abbreviation sample_table :: "sample_graph \<times> keymap" where
  "sample_table \<equiv> ((Suc 0, [(0, [7])]), sample_keymap)"

definition is_ok :: "(search_error + 'a) \<times> 's \<Rightarrow> bool" where
  "is_ok r = (case fst r of Inl _ \<Rightarrow> False | Inr _ \<Rightarrow> True)"

lemma sample_laws: "graph_laws sample_library held" "codec_laws sample_library" "reliable sample_library"
proof -
  show "graph_laws sample_library held" unfolding sample_library_def by (rule library_graph_laws) simp
  show "codec_laws sample_library" unfolding sample_library_def
    by (rule library_codec_laws) (simp_all add: sample_keymap_def)
  show "reliable sample_library"
    by (auto simp: reliable_def sample_library_def library_def held_def add_in_def put_in_def get_from_def library_removes
        split: if_splits option.splits)
qed

lemma sample_saved: "saved sample_library held ''v'' sample_meta sample_table [] (files sample_dir)"
proof -
  have j: "index_journal ''v'' sample_meta = sample_journal"
    by (simp add: index_journal_def sample_journal_def in_dir_def sample_meta_def)
  have "table_ok held sample_table" using sample_index_ok by (simp add: index_ok_def sample_index_def)
  then have "table_saved sample_library held ''v'' sample_table (files sample_dir)"
    by (simp add: saved_defs sample_dir_def in_dir_def sample_library_def library_def put_in_def get_from_def)
  moreover have "meta_saved sample_library ''v'' sample_meta (files sample_dir)"
    by (simp add: meta_saved_def sample_dir_def in_dir_def sample_library_def library_def get_from_def)
  moreover have "meta_ok sample_library sample_meta"
    by (simp add: meta_ok_def sample_meta_def FORMAT_VERSION_def sample_library_def library_def)
  moreover have "holds sample_journal [] [] (files sample_dir) \<and> opened_on sample_journal (files sample_dir)"
    using sample_journal_ok(1)
    by (simp add: holds_def opened_on_def fits_dim_def sample_dir_def MAX_MODEL_ID_LEN_def)
      (simp add: sample_journal_def fresh_journal_def)
  ultimately show ?thesis by (simp add: saved_def j)
qed

lemma sample_vectors: "vectors held sample_table = [5 \<mapsto> [7]]"
  by (auto simp: vectors_def named_def held_def sample_keymap_def)

lemma sample_opened: "opened sample_library held sample_handle (files sample_dir) sample_table []"
proof -
  have "index_ok held sample_handle"
    using sample_index_ok by (simp add: index_ok_def sample_index_def sample_handle_def loaded_def)
  then show ?thesis using sample_saved
    by (simp add: opened_def attached_def sample_handle_def loaded_def contents_of_def)
qed

lemma sample_overtaken: "overtaken sample_library held overtaken_handle (files sample_dir) sample_table []"
  using sample_saved
  by (simp add: overtaken_def overtaken_handle_def sample_handle_def loaded_def sample_dir_def in_dir_def)
    (simp add: sample_keymap_def)

lemma is_ok_pairE:
  assumes "is_ok (m s)" obtains h d where "(m :: ('g, unit) vop) s = (Inr (), (h, d))"
  using assms by (cases "m s") (auto simp: is_ok_def split: sum.splits)

lemma sample_runs:
  "is_ok (add_batch sample_library [(5, [8])] (sample_handle, sample_dir))"
  "is_ok (io_bind (add_batch sample_library [(5, [8])]) (\<lambda>_. commit sample_library True) (sample_handle, sample_dir))"
  "is_ok (commit sample_library True (overtaken_handle, sample_dir))"
  by code_simp+

lemma sample_add:
  obtains h1 d1 where "add_batch sample_library [(5, [8])] (sample_handle, sample_dir) = (Inr (), (h1, d1))"
  using sample_runs(1) by (rule is_ok_pairE)

lemma sample_path: "vi_path sample_handle = ''v''"
  by (simp add: sample_handle_def loaded_def)


theorem replacement_lost_without_compaction_witness:
  "\<exists>h1 d1 h2 d2 d h d'. add_batch sample_library [(5, [8])] (sample_handle, sample_dir) = (Inr (), (h1, d1)) \<and>
    commit sample_library False (h1, d1) = (Inr (), (h2, d2)) \<and> files d = files d2 \<and>
    open_with_options sample_library ''v'' default_index_options d = (Inr h, d') \<and> contents_of held h 5 = Some [7]"
proof -
  obtain h1 d1 where a: "add_batch sample_library [(5, [8])] (sample_handle, sample_dir) = (Inr (), (h1, d1))"
    by (rule sample_add)
  have O: "attached sample_library held sample_handle (files sample_dir) sample_table []" "vi_pending sample_handle = []"
    using sample_opened by (simp_all add: opened_def)
  have "vi_journal sample_handle = sample_journal"
    by (simp add: sample_handle_def loaded_def index_journal_def sample_journal_def in_dir_def sample_meta_def)
  then have h1: "attached sample_library held h1 (files d1) sample_table []" "d1 = sample_dir"
    "vi_pending h1 = [(5, [8])]" "dim_of (vi_journal h1) = 1"
    using add_batch_attached[OF sample_laws(1) O(1) a] O(2) by auto
  have "\<exists>h2 d2. commit sample_library False (h1, d1) = (Inr (), (h2, d2))"
    by (rule commit_append_sound[OF h1(1)])
      (simp_all add: h1 fits_dim_def COMPACT_THRESHOLD_def sample_dir_def quiet_disk_def sound_disk_def)
  then obtain h2 d2 where "commit sample_library False (h1, d1) = (Inr (), (h2, d2))" by blast
  note r = a this
  have "\<exists>h d'. open_with_options sample_library (vi_path sample_handle) default_index_options (quiet_disk (files d2)) =
      (Inr h, d') \<and> contents_of held h 5 = Some [7]"
    by (rule replacement_lost_without_compaction[OF sample_laws sample_opened r])
      (simp_all add: COMPACT_THRESHOLD_def quiet_disk_def sound_disk_def sample_vectors)
  then obtain h d' where "open_with_options sample_library ''v'' default_index_options (quiet_disk (files d2)) =
      (Inr h, d') \<and> contents_of held h 5 = Some [7]" unfolding sample_path by blast
  then show ?thesis using r
    by (intro exI[of _ h1] exI[of _ d1] exI[of _ h2] exI[of _ d2] exI[of _ "quiet_disk (files d2)"] exI[of _ h] exI[of _ d'])
      simp
qed

theorem stale_compaction_merges_witness:
  "\<exists>h' d'. commit sample_library True (overtaken_handle, sample_dir) = (Inr (), (h', d')) \<and>
    contents_of held h' = [5 \<mapsto> [7]]"
proof -
  obtain h' d' where r: "commit sample_library True (overtaken_handle, sample_dir) = (Inr (), (h', d'))"
    using sample_runs(3) by (rule is_ok_pairE)
  show ?thesis using stale_compaction_merges[OF sample_laws(1,2) sample_overtaken r] r
    by (auto simp: sample_vectors overtaken_handle_def sample_handle_def loaded_def)
qed

theorem removal_undone_by_reload_witness:
  "\<exists>h' d'. commit sample_library True (overtaken_handle, sample_dir) = (Inr (), (h', d')) \<and>
    5 \<in> set (vi_tombstones overtaken_handle) \<and> contents_of held h' 5 = Some [7]"
proof -
  obtain h' d' where r: "commit sample_library True (overtaken_handle, sample_dir) = (Inr (), (h', d'))"
    using sample_runs(3) by (rule is_ok_pairE)
  have "contents_of held h' 5 = Some [7]"
    by (rule removal_undone_by_reload[OF sample_laws(1,2) sample_overtaken r])
      (simp_all add: sample_vectors overtaken_handle_def sample_handle_def loaded_def)
  then show ?thesis using r by (auto simp: overtaken_handle_def)
qed

end
