(* ===== verification/Vector_Crash.thy ===== *)
theory Vector_Crash
  imports Vector_Runs
begin

text \<open>
  Crashes in the middle of a compaction. Every system call of a commit may fail, and a crash is a
  failure after which nothing else runs, so a statement on the files after a commit with any
  result is a statement on every crash point.
\<close>

section \<open>Effects of the file operations, whatever they return\<close>

lemma sync_files: "sync_file p d = (r, d') \<Longrightarrow> files d' = files d" "sync_dir p d = (r, d') \<Longrightarrow> files d' = files d"
  unfolding sync_file_def sync_dir_def by (auto elim!: io_bind_cases quiet_cases)

lemma write_file_others: "write_file p bs d = (r, d') \<Longrightarrow> q \<noteq> p \<Longrightarrow> files d' q = files d q"
  unfolding write_file_def create_empty_def write_all_def
  by (auto simp: append_to_def elim!: io_bind_cases syscall_cases split: option.splits)

lemma rename_file_files:
  "rename_file p q d = (r, d') \<Longrightarrow> files d' = (if r = Inr () then (files d)(q := files d p, p := None) else files d)"
  unfolding rename_file_def by (auto elim!: syscall_cases)

lemma remove_file_files:
  "remove_file p d = (r, d') \<Longrightarrow> files d' = (if r = Inr () then (files d)(p := None) else files d)"
  unfolding remove_file_def by (auto elim!: syscall_cases)

lemma on_disk_cases:
  assumes "on_disk m s = (r, s')" obtains d' where "m (snd s) = (r, d')" "s' = (fst s, d')"
  using assms by (auto simp: on_disk_def split: prod.splits)

section \<open>Operations on a handle that only read the disk\<close>

definition disk_kept :: "('g, 'a) vop \<Rightarrow> bool" where
  "disk_kept m \<longleftrightarrow> (\<forall>s. files (snd (snd (m s))) = files (snd s))"

named_theorems kept_intros "operations that change no file"

lemma disk_kept_prims [kept_intros]:
  "disk_kept (io_ret y)" "disk_kept (io_fail e)" "disk_kept (io_lift r)" "disk_kept (on_handle f)" "disk_kept (on_table m)"
  by (simp_all add: disk_kept_def on_handle_def on_table_def split: prod.split)

lemma disk_kept_on_disk [kept_intros]: "reads_only m \<Longrightarrow> disk_kept (on_disk m)"
  by (simp add: disk_kept_def reads_only_def on_disk_def split: prod.split) (metis snd_conv)

lemma disk_kept_with_handle [kept_intros]: "(\<And>h. disk_kept (f h)) \<Longrightarrow> disk_kept (with_handle f)"
  by (simp add: disk_kept_def with_handle_def)

lemma disk_kept_bind [kept_intros]:
  assumes "disk_kept m" "\<And>y. disk_kept (n y)" shows "disk_kept (io_bind m n)"
  unfolding disk_kept_def
proof
  fix s
  obtain r h d where m: "m s = (r, (h, d))" by (metis surj_pair)
  have "files d = files (snd s)" using assms(1) m unfolding disk_kept_def by (metis snd_conv)
  then show "files (snd (snd (io_bind m n s))) = files (snd s)"
    using assms(2) m by (cases r) (simp_all add: disk_kept_def)
qed

lemma disk_keptD: "disk_kept m \<Longrightarrow> m (h, d) = (r, (h', d')) \<Longrightarrow> files d' = files d"
  unfolding disk_kept_def by (metis snd_conv)

lemma reads_only_files [reads_intros]:
  "reads_only (read_file p)" "reads_only (read_to_string p)" "reads_only (disk_format_version x p)"
  "reads_only (read_keymap x p v)" "reads_only (load_graph x dir opts c1 c2)"
  unfolding read_to_string_def disk_format_version_def read_keymap_def load_graph_def read_file_def
  by (intro reads_intros | simp split: option.split | intro conjI impI allI)+

lemma disk_kept_add_entries [kept_intros]: "disk_kept (add_entries x es q)"
  unfolding add_entries_def by (intro kept_intros)

lemma disk_kept_absorb [kept_intros]: "disk_kept (absorb_journal x)"
  unfolding absorb_journal_def Let_def
  by (intro kept_intros reads_only_replay | simp | intro conjI impI)+

lemma disk_kept_adopt [kept_intros]: "disk_kept (adopt_newer x h km)"
  unfolding adopt_newer_def
  by (intro kept_intros reads_intros | simp split: sum.split prod.split | intro conjI impI allI)+

lemma disk_kept_reload [kept_intros]: "disk_kept (reload_if_stale x)"
  unfolding reload_if_stale_def by (intro kept_intros reads_intros | simp | intro conjI impI)+

section \<open>The order of a compaction\<close>

text \<open>
  The pair of files a compaction may leave: the old keymap with the journal untouched and the old or
  the new graph, or the new keymap, and then the new graph.
\<close>

definition compaction_step ::
  "string \<Rightarrow> bytes option \<Rightarrow> string + bytes \<Rightarrow> files \<Rightarrow> files \<Rightarrow> bool" where
  "compaction_step dir graph km old new \<longleftrightarrow> new (meta_path dir) = old (meta_path dir) \<and>
    (new (keymap_path dir) = old (keymap_path dir) \<and> new (journal_path dir) = old (journal_path dir) \<and>
       new (usearch_path dir) \<in> {old (usearch_path dir), graph} \<or>
     (\<exists>bs. km = Inr bs \<and> new (keymap_path dir) = Some bs) \<and> new (usearch_path dir) = graph)"

lemma publish_any:
  assumes run: "publish_compaction x n (h, d) = (r, (h', d'))"
    and jp: "jpath (vi_journal h) = journal_path (vi_path h)"
  shows "compaction_step (vi_path h) (if 0 < n then files d (temp_of (usearch_path (vi_path h))) else None)
    (put_keymap x (stamped (vi_generation h + 1) (vi_keymap h))) (files d) (files d')"
proof -
  let ?dir = "vi_path h" let ?gen = "vi_generation h + 1" let ?kt = "temp_of (keymap_path ?dir)"
  let ?it = "temp_of (usearch_path ?dir)" let ?G = "if 0 < n then files d ?it else None"
  define swap :: "unit io" where "swap = (if 0 < n
      then io_bind (sync_file ?it) (\<lambda>_. rename_file ?it (usearch_path ?dir))
      else io_bind (contents (usearch_path ?dir)) (\<lambda>file. if file = None then io_ret () else remove_file (usearch_path ?dir)))"
  define clear where "clear = (\<lambda>_ :: unit. io_bind (on_disk (clear_journal (vi_journal h))) (\<lambda>_.
      on_handle (\<lambda>h. h\<lparr>vi_tombstones := [], vi_generation := ?gen\<rparr>)) :: ('a, unit) vop)"
  define name where "name = (\<lambda>bs. io_bind (on_disk (write_file ?kt bs)) (\<lambda>_.
      io_bind (on_disk (sync_file ?kt)) (\<lambda>_.
      io_bind (on_disk (rename_file ?kt (keymap_path ?dir))) (\<lambda>_.
      io_bind (on_disk (sync_dir ?dir)) clear))) :: ('a, unit) vop)"
  have "io_bind (on_disk swap) (\<lambda>_.
      io_bind (on_handle (\<lambda>h. h\<lparr>vi_keymap := (vi_keymap h)\<lparr>generation := ?gen\<rparr>\<rparr>)) (\<lambda>_.
      io_bind (io_lift (embedding_result ''serializing keymap'' (put_keymap x (stamped ?gen (vi_keymap h))))) name)) (h, d) = (r, (h', d'))"
    using run unfolding publish_compaction_def with_handle_def Let_def fst_conv stamped_def swap_def name_def clear_def .
  then show ?thesis
  proof (cases rule: io_bind_cases)
    case (Err e)
    then obtain d1 where "swap d = (Inl e, d')" by (auto elim: on_disk_cases)
    then have "files d' = files d"
      unfolding swap_def by (auto simp: io_ret_def elim!: io_bind_cases dest!: sync_files rename_file_files remove_file_files split: if_splits)
    then show ?thesis by (simp add: compaction_step_def)
  next
    case (Val y s1)
    from Val(1) obtain d1 where d1: "swap d = (Inr y, d1)" "s1 = (h, d1)" by (auto elim: on_disk_cases)
    have f1: "files d1 (usearch_path ?dir) = ?G" "\<And>p. p \<noteq> usearch_path ?dir \<Longrightarrow> p \<noteq> ?it \<Longrightarrow> files d1 p = files d p"
      using d1(1) unfolding swap_def
      by (auto simp: io_ret_def elim!: io_bind_cases dest!: sync_files rename_file_files remove_file_files split: if_splits)
    let ?h = "h\<lparr>vi_keymap := (vi_keymap h)\<lparr>generation := ?gen\<rparr>\<rparr>"
    have after: "io_bind (io_lift (embedding_result ''serializing keymap'' (put_keymap x (stamped ?gen (vi_keymap h)))))
        name (?h, d1) = (r, (h', d'))"
      using Val(2) by (simp add: d1(2) on_handle_def io_bind_def[of "\<lambda>s. (Inr (), _ s)"])
    show ?thesis
    proof (cases "put_keymap x (stamped ?gen (vi_keymap h))")
      case (Inl e)
      then have "files d' = files d1" using after by (auto simp: embedding_result_def io_fail_def)
      then show ?thesis using f1 by (simp add: compaction_step_def)
    next
    case (Inr bs)
    note new = this
    have "name bs (?h, d1) = (r, (h', d'))" using after new by (simp add: embedding_result_def)
    then show ?thesis unfolding name_def
    proof (cases rule: io_bind_cases)
      case (Err e)
      then have "files d' p = files d1 p" if "p \<noteq> ?kt" for p
        using that by (auto elim!: on_disk_cases dest: write_file_others)
      then show ?thesis using f1 by (simp add: compaction_step_def)
    next
      case (Val y s2)
      from Val(1) obtain d2 where d2: "write_file ?kt bs d1 = (Inr y, d2)" "s2 = (?h, d2)" by (auto elim: on_disk_cases)
      have f2: "files d2 = (files d1)(?kt \<mapsto> bs)" by (rule write_file_Inr[OF d2(1)])
      from Val(2) show ?thesis unfolding d2(2)
      proof (cases rule: io_bind_cases)
        case (Err e)
        then have "files d' = files d2" by (auto elim!: on_disk_cases dest: sync_files)
        then show ?thesis using f1 f2 by (simp add: compaction_step_def)
      next
        case (Val y s3)
        from Val(1) obtain d3 where d3: "files d3 = files d2" "s3 = (?h, d3)"
          by (auto elim!: on_disk_cases dest: sync_files)
        from Val(2) show ?thesis unfolding d3(2)
        proof (cases rule: io_bind_cases)
          case (Err e)
          then have "files d' = files d3" by (auto elim!: on_disk_cases dest: rename_file_files)
          then show ?thesis using f1 f2 d3(1) by (simp add: compaction_step_def)
        next
          case (Val y s4)
          from Val(1) obtain d4 where d4: "files d4 = (files d3)(keymap_path ?dir := files d3 ?kt, ?kt := None)" "s4 = (?h, d4)"
            by (auto elim!: on_disk_cases dest: rename_file_Inr)
          have done4: "files d4 (keymap_path ?dir) = Some bs" "files d4 (usearch_path ?dir) = ?G"
            "files d4 (meta_path ?dir) = files d (meta_path ?dir)"
            using f1 f2 d3(1) d4(1) by simp_all
          have "files d' p = files d4 p" if p: "p \<noteq> journal_path ?dir" for p
          proof -
            have p: "p \<noteq> jpath (vi_journal h)" using p jp by simp
            show ?thesis using Val(2) unfolding d4(2) clear_def
              by (auto simp: on_handle_def elim!: io_bind_cases on_disk_cases dest!: sync_files clear_journal_others[OF _ p])
          qed
          then show ?thesis using done4 new by (simp add: compaction_step_def)
        qed
      qed
    qed
    qed
  qed
qed

text \<open>What a compacting commit reaches: nothing changed, or it published the handle's graph.\<close>

definition untouched :: "string \<Rightarrow> files \<Rightarrow> files \<Rightarrow> bool" where
  "untouched dir old new \<longleftrightarrow> (\<forall>a \<in> {''index.usearch'', ''keymap.bin'', ''.meta.json'', ''journal.bin''}.
     new (in_dir dir a) = old (in_dir dir a))"

definition published ::
  "'g vext \<Rightarrow> ('g \<Rightarrow> nat \<Rightarrow> vec option) \<Rightarrow> string \<Rightarrow> (ulid \<Rightarrow> vec option) \<Rightarrow> files \<Rightarrow> files \<Rightarrow> bool" where
  "published x vecs dir m old new \<longleftrightarrow> new (meta_path dir) = old (meta_path dir) \<and>
     (\<exists>t. table_ok vecs t \<and> vectors vecs t = m \<and> graph_saved x vecs dir (fst t) new \<and>
       (new (keymap_path dir) = old (keymap_path dir) \<and> new (journal_path dir) = old (journal_path dir) \<or>
        table_saved x vecs dir t new))"

lemma save_and_publish_any:
  assumes L: "graph_laws x vecs" and C: "codec_laws x" and ok: "index_ok vecs h"
    and jp: "jpath (vi_journal h) = journal_path (vi_path h)"
    and run: "save_and_publish x (h, d) = (r, (h', d'))"
  shows "untouched (vi_path h) (files d) (files d') \<or>
    published x vecs (vi_path h) (contents_of vecs h) (files d) (files d')"
proof -
  let ?dir = "vi_path h" let ?it = "temp_of (usearch_path ?dir)" let ?n = "us_size x (vi_inner h)"
  let ?km = "stamped (vi_generation h + 1) (vi_keymap h)" let ?t = "(vi_inner h, ?km)"
  have "io_bind (if 0 < ?n then on_disk (save_graph x ?it (vi_inner h)) else io_ret ())
      (\<lambda>_. publish_compaction x ?n) (h, d) = (r, (h', d'))"
    using run unfolding save_and_publish_def with_handle_def Let_def fst_conv .
  then show ?thesis
  proof (cases rule: io_bind_cases)
    case (Err e)
    then have "files d' p = files d p" if "p \<noteq> ?it" for p
      using that by (auto simp: io_ret_def save_graph_def elim!: on_disk_cases dest!: write_file_others
          split: if_splits sum.splits prod.splits)
    then show ?thesis by (simp add: untouched_def)
  next
    case (Val y s1)
    then obtain d1 where s1: "s1 = (h, d1)" and new: "0 < ?n \<longrightarrow> (\<exists>bs. us_save x (vi_inner h) = Inr bs \<and> files d1 ?it = Some bs)"
      and same: "\<And>p. p \<noteq> ?it \<Longrightarrow> files d1 p = files d p"
      by (auto simp: io_ret_def elim!: on_disk_InrE dest!: save_graph_Inr split: if_splits)
    have T: "table_ok vecs ?t" "vectors vecs ?t = contents_of vecs h"
      using ok by (simp_all add: index_ok_def table_ok_def contents_of_def vectors_def)
    have G: "graph_saved x vecs ?dir (vi_inner h) fs" if "fs (usearch_path ?dir) = (if 0 < ?n then files d1 ?it else None)" for fs
      using that new graph_lawsD(6)[OF L, of "vi_inner h"] by (auto simp: graph_saved_def split: if_splits option.splits)
    have K: "get_keymap x bs = Inr ?km" if "put_keymap x ?km = Inr bs" for bs using C that by (simp add: codec_laws_def)
    let ?G = "if 0 < ?n then files d1 ?it else None"
    note P = publish_any[OF Val(2)[unfolded s1] jp, unfolded compaction_step_def]
    have meta: "files d' (meta_path ?dir) = files d (meta_path ?dir)" using P same by simp
    consider (Old) "untouched ?dir (files d) (files d')"
      | (Torn) "files d' (keymap_path ?dir) = files d (keymap_path ?dir)"
          "files d' (journal_path ?dir) = files d (journal_path ?dir)" "files d' (usearch_path ?dir) = ?G"
      | (New) bs where "put_keymap x ?km = Inr bs" "files d' (keymap_path ?dir) = Some bs" "files d' (usearch_path ?dir) = ?G"
      using P same by (auto simp: untouched_def)
    then show ?thesis
    proof cases
      case Old then show ?thesis by simp
    next
      case Torn
      then have "published x vecs ?dir (contents_of vecs h) (files d) (files d')"
        using meta T G[of "files d'"] by (auto simp: published_def intro!: exI[of _ "vi_inner h"] exI[of _ ?km])
      then show ?thesis ..
    next
      case New
      then have "table_saved x vecs ?dir ?t (files d')"
        using T(1) G[of "files d'"] K by (simp add: saved_defs cong: option.case_cong)
      then have "published x vecs ?dir (contents_of vecs h) (files d) (files d')"
        using meta T G[of "files d'"] New(3) by (auto simp: published_def intro!: exI[of _ "vi_inner h"] exI[of _ ?km])
      then show ?thesis ..
    qed
  qed
qed

lemma on_error_files: "on_error f m s = (r, (h', d')) \<Longrightarrow> \<exists>r' h2. m s = (r', (h2, d'))"
  by (auto simp: on_error_def split: prod.splits sum.splits)


text \<open>
  The torn pair loses replaced vectors. When the old keymap stays beside a newer graph and the
  journal is empty, as after a crash between the two renames of a bulk commit, an id whose vector
  the batch replaced still names its old key, which the graph no longer has: the reopened index
  says it contains the id, and counts it, but has neither the old vector nor the new one, although
  the old one had been committed.
\<close>

theorem torn_pair_loses_replaced:
  assumes "graph_laws x vecs" "reliable x" "meta_ok x m" "meta_saved x dir m (files d)"
    and "us_save x g = Inr bs" "files d (usearch_path dir) = Some bs" "keymap_saved x dir km (files d)"
    and "holds (index_journal dir m) [] [] (files d)" "opened_on (index_journal dir m) (files d)"
    and "sound_disk d" "lock_script d = []"
    and "map_of (reverse km) i = Some k" "vecs g k = None"
  shows "\<exists>h d'. open_with_options x dir opts d = (Inr h, d') \<and> contains h i \<and>
    doc_count h = Inr (length (forward km)) \<and> contents_of vecs h i = None"
  using assms(10,11)
proof (rule open_loads)
  fix d1 assume d1: "sound_disk d1" and same: "\<And>a. a \<in> {''index.usearch'', ''keymap.bin'', ''.meta.json'', ''journal.bin''} \<Longrightarrow>
    files d1 (in_dir dir a) = files d (in_dir dir a)"
  have S: "meta_saved x dir m (files d1)" "graph_saved x vecs dir g (files d1)" "keymap_saved x dir km (files d1)"
    "opened_on (index_journal dir m) (files d1)" "holds (index_journal dir m) [] [] (files d1)"
    "files d1 (usearch_path dir) \<noteq> None \<or> forward km = []"
    using assms(4-9) same by (simp_all add: meta_saved_def saved_defs opened_on_def holds_def index_journal_def)
  obtain g' d2 where l: "load_handle x dir opts d1 = (Inr (loaded dir m opts g' km), d2)" "files d2 = files d1"
    "sound_disk d2" and g': "vecs g' = vecs g"
    using gives_load_handle[OF assms(1-3) S(1-4) d1 S(6), of opts] by (auto simp: gives_def)
  let ?h = "loaded dir m opts g' km"
  have "holds (index_journal dir m) [] [] (files d2)" using S(5) l(2) by simp
  from replay_sound[OF this l(3)] obtain d3 where rep: "replay (vi_journal ?h) d2 = (Inr [], d3)"
    by (cases "replay (index_journal dir m) d2") (auto simp: loaded_def)
  have "files d3 = files d1 \<and> sound_disk d3"
    using rep l(2,3) S(5) reads_onlyD[OF reads_only_replay(1) rep]
    by (auto simp: replay_def quiet_def io_bind_def holds_def loaded_def split: option.splits)
  moreover have "load x dir opts d1 = (Inr ?h, d3)"
    by (simp add: load_def l(1) absorb_run[OF rep] missing_from_def)
  moreover have "contents_of vecs ?h i = None"
    using assms(12,13) g' by (simp add: contents_of_def vectors_def named_def loaded_def)
  ultimately show "\<exists>h. gives (load x dir opts) d1 h \<and> contains h i \<and>
    doc_count h = Inr (length (forward km)) \<and> contents_of vecs h i = None"
    using assms(12) by (intro exI[of _ ?h]) (simp add: gives_def contains_def doc_count_def index_len_def loaded_def)
qed

text \<open>The state that a crash of the sample commit leaves after the first rename.\<close>

definition torn_dir :: disk where
  "torn_dir = quiet_disk [''v/.meta.json'' \<mapsto> [65], ''v/index.usearch'' \<mapsto> [2], ''v/keymap.bin'' \<mapsto> [1]]"

definition crash_after :: "nat \<Rightarrow> disk \<Rightarrow> disk" where
  "crash_after n d = d\<lparr>io_script := \<lambda>k. if k < n then None else Some 0\<rparr>"

lemma torn_dir_reached:
  "let d = snd (snd (io_bind (add_batch sample_library [(5, [8])]) (\<lambda>_. commit sample_library True)
      (sample_handle, crash_after 8 sample_dir))) in
   files d ''v/index.usearch'' = Some [2] \<and> files d ''v/keymap.bin'' = Some [1] \<and>
   files d ''v/.meta.json'' = Some [65] \<and> files d ''v/journal.bin'' = None"
  by code_simp

theorem torn_pair_loses_replaced_witness:
  "\<exists>h d'. open_with_options sample_library ''v'' default_index_options torn_dir = (Inr h, d') \<and>
    contains h 5 \<and> contents_of held h 5 = None"
proof -
  have S: "meta_ok sample_library sample_meta" "meta_saved sample_library ''v'' sample_meta (files torn_dir)"
    "keymap_saved sample_library ''v'' sample_keymap (files torn_dir)"
    "holds (index_journal ''v'' sample_meta) [] [] (files torn_dir)" "opened_on (index_journal ''v'' sample_meta) (files torn_dir)"
    "files torn_dir (usearch_path ''v'') = Some [2]"
    using sample_saved
    by (simp_all add: saved_def table_saved_def keymap_saved_def meta_saved_def holds_def opened_on_def index_journal_def
        torn_dir_def sample_dir_def in_dir_def)
  have g: "us_save sample_library (Suc 0, [(1, [8])]) = Inr [2]" by (simp add: sample_library_def library_def put_in_def)
  show ?thesis
    using torn_pair_loses_replaced[OF sample_laws(1,3) S(1,2) g S(6,3-5), of 5 0 default_index_options]
    by (auto simp: torn_dir_def quiet_disk_def sound_disk_def sample_keymap_def held_def)
qed


end
