(* ===== verification/Chunk.thy ===== *)
theory Chunk
  imports Prelude
begin

text \<open>
  \<open>singularmem-ingest/src/chunk.rs\<close>: cutting a text into pieces of bounded size at paragraph
  boundaries, and inside a paragraph that is too long at character boundaries. The bounds are in
  bytes, so a cut must be moved back to the start of a character. No sum of lengths overflows:
  every one is at most the length of the text plus two.
\<close>

section \<open>Cutting a paragraph\<close>

text \<open>\<open>str::is_char_boundary\<close>.\<close>

definition is_char_boundary :: "string \<Rightarrow> nat \<Rightarrow> bool" where
  "is_char_boundary s i \<longleftrightarrow>
     i = 0 \<or> i = length s \<or> (i < length s \<and> \<not> is_continuation (s ! i))"

text \<open>The inner loop of \<open>hard_split\<close>, and the start of the character after the one at \<open>start\<close>.\<close>

fun back_to_boundary :: "string \<Rightarrow> nat \<Rightarrow> nat \<Rightarrow> nat" where
  "back_to_boundary s start 0 = 0"
| "back_to_boundary s start (Suc e) =
     (if start < Suc e \<and> \<not> is_char_boundary s (Suc e) then back_to_boundary s start e else Suc e)"

definition next_char :: "string \<Rightarrow> nat \<Rightarrow> nat" where
  "next_char s start = Suc start + length (takeWhile is_continuation (drop (Suc start) s))"

definition piece_end :: "string \<Rightarrow> nat \<Rightarrow> nat \<Rightarrow> nat" where
  "piece_end s max_bytes start =
     (let e = back_to_boundary s start (min (start + max_bytes) (length s))
      in if e = start then next_char s start else e)"

definition slice :: "nat \<Rightarrow> nat \<Rightarrow> string \<Rightarrow> string" where
  "slice a b s = take (b - a) (drop a s)"

lemma back_to_boundary_le: "start \<le> e \<Longrightarrow> start \<le> back_to_boundary s start e"
  "back_to_boundary s start e \<le> e"
  by (induction s start e rule: back_to_boundary.induct) auto

lemma piece_end_gt [simp]: "start < piece_end s m start"
  if "start < length s"
proof -
  have "start \<le> back_to_boundary s start (min (start + m) (length s))"
    using that by (intro back_to_boundary_le) simp
  then show ?thesis by (auto simp: piece_end_def next_char_def Let_def)
qed

function hard_split_loop :: "string \<Rightarrow> nat \<Rightarrow> nat \<Rightarrow> string list" where
  "hard_split_loop s max_bytes start =
     (if start < length s then
        let e = piece_end s max_bytes start; piece = trim (slice start e s)
        in (if piece = [] then [] else [piece]) @ hard_split_loop s max_bytes e
      else [])"
  by pat_completeness auto
termination
  by (relation "measure (\<lambda>(s, m, start). length s - start)") (auto simp: diff_less_mono2)

declare hard_split_loop.simps [simp del]

definition hard_split :: "string \<Rightarrow> nat \<Rightarrow> string list" where
  "hard_split s max_bytes = hard_split_loop s max_bytes 0"

section \<open>Packing paragraphs\<close>

definition DEFAULT_CHUNK_BYTES :: nat where "DEFAULT_CHUNK_BYTES = 4096"

definition newline :: char where "newline = CHR 0x0A"

text \<open>\<open>text.split("\n\n")\<close>.\<close>

fun split_paragraphs :: "string \<Rightarrow> string list" where
  "split_paragraphs [] = [[]]"
| "split_paragraphs [c] = [[c]]"
| "split_paragraphs (c # d # cs) =
     (if c = newline \<and> d = newline then [] # split_paragraphs cs
      else (case split_paragraphs (d # cs) of [] \<Rightarrow> [[c]] | p # ps \<Rightarrow> (c # p) # ps))"

text \<open>The loop's state is the chunk being filled and the chunks that are ready.\<close>

type_synonym packing = "string \<times> string list"

definition flush :: "packing \<Rightarrow> packing" where
  "flush = (\<lambda>(current, chunks).
     let t = trim current in ([], if t = [] then chunks else chunks @ [t]))"

lemma fst_flush [simp]: "fst (flush st) = []"
  by (simp add: flush_def Let_def split: prod.splits)

definition needed :: "string \<Rightarrow> string \<Rightarrow> nat" where
  "needed current para =
     (if current = [] then length para else length current + 2 + length para)"

definition push_para :: "string \<Rightarrow> string \<Rightarrow> string" where
  "push_para current para = current @ (if current = [] then [] else [newline, newline]) @ para"

definition pack_step :: "nat \<Rightarrow> string \<Rightarrow> packing \<Rightarrow> packing" where
  "pack_step max_bytes para st =
     (if max_bytes < length para then
        let (current, chunks) = flush st in (current, chunks @ hard_split para max_bytes)
      else
        let (current, chunks) = (if max_bytes < needed (fst st) para then flush st else st)
        in (push_para current para, chunks))"

definition chunk_text :: "string \<Rightarrow> nat \<Rightarrow> string list" where
  "chunk_text text max_bytes =
     (let m = max max_bytes 4;
          paras = filter (\<lambda>p. p \<noteq> []) (map trim (split_paragraphs text))
      in snd (flush (fold (pack_step m) paras ([], []))))"

section \<open>The size of the chunks\<close>

text \<open>
  A UTF-8 character has at most three continuation bytes. Of a Rust string no more than this is
  needed: there are never four of them in a row.
\<close>

definition short_chars :: "string \<Rightarrow> bool" where
  "short_chars s \<longleftrightarrow> (\<forall>i < length s - 3. \<exists>j < 4. \<not> is_continuation (s ! (i + j)))"

lemma short_chars_sublist:
  assumes "short_chars s" "sublist u s" shows "short_chars u"
  unfolding short_chars_def
proof (intro allI impI)
  fix i assume i: "i < length u - 3"
  obtain p q where s: "s = p @ u @ q" using assms(2) by (auto simp: sublist_def)
  obtain j where j: "j < 4" "\<not> is_continuation (s ! (length p + i + j))"
    using assms(1) i unfolding short_chars_def s by (auto dest!: spec[of _ "length p + i"])
  have "i + j < length u" using i j(1) by linarith
  then have "s ! (length p + i + j) = u ! (i + j)"
    by (simp add: s nth_append add.assoc)
  with j show "\<exists>j<4. \<not> is_continuation (u ! (i + j))" by auto
qed

lemma back_to_boundary_ge:
  "b \<le> e \<Longrightarrow> is_char_boundary s b \<Longrightarrow> b \<le> back_to_boundary s start e"
  by (induction s start e rule: back_to_boundary.induct) (auto simp: le_Suc_eq)

lemma back_to_boundary_moves:
  assumes "short_chars s" "start + 4 \<le> e" "e \<le> length s"
  shows "start < back_to_boundary s start e"
proof -
  obtain b where b: "start < b" "b \<le> e" "is_char_boundary s b"
  proof (cases "e = length s")
    case True
    then show ?thesis using that[of e] assms by (auto simp: is_char_boundary_def)
  next
    case False
    then have "e - 3 < length s - 3" using assms by auto
    then obtain j where "j < 4" "\<not> is_continuation (s ! (e - 3 + j))"
      using assms(1) unfolding short_chars_def by blast
    then show ?thesis using that[of "e - 3 + j"] assms False by (auto simp: is_char_boundary_def)
  qed
  then show ?thesis using back_to_boundary_ge[of b e s start] by simp
qed

lemma piece_end_le:
  assumes "short_chars s" "4 \<le> m" "start < length s"
  shows "piece_end s m start \<le> min (start + m) (length s)"
proof -
  let ?e = "min (start + m) (length s)"
  have "back_to_boundary s start ?e \<noteq> start"
  proof (cases "start + 4 \<le> ?e")
    case True then show ?thesis using back_to_boundary_moves[OF assms(1), of start ?e] by simp
  next
    case False
    then have e: "?e = length s" using assms(2) by auto
    have "?e \<le> back_to_boundary s start ?e"
      unfolding e by (rule back_to_boundary_ge) (simp_all add: is_char_boundary_def)
    then show ?thesis using e assms(3) by simp
  qed
  then show ?thesis using back_to_boundary_le(2)[of s start ?e] by (simp add: piece_end_def Let_def)
qed

lemma sublist_slice: "sublist (slice a b s) s"
  unfolding slice_def by (meson sublist_drop sublist_order.order_trans sublist_take)

text \<open>What every chunk is.\<close>

definition good_chunk :: "nat \<Rightarrow> string \<Rightarrow> bool" where
  "good_chunk m c \<longleftrightarrow> c \<noteq> [] \<and> trim c = c \<and> length c \<le> m"

lemma hard_split_loop_good:
  "short_chars s \<Longrightarrow> 4 \<le> m \<Longrightarrow> c \<in> set (hard_split_loop s m start) \<Longrightarrow> good_chunk m c"
proof (induction s m start rule: hard_split_loop.induct)
  case (1 s m start)
  show ?case
  proof (cases "start < length s")
    case True
    let ?e = "piece_end s m start"
    have "length (trim (slice start ?e s)) \<le> m"
      using piece_end_le[OF 1(2,3) True] length_trim[of "slice start ?e s"]
      by (simp add: slice_def del: length_trim) linarith
    moreover have "c = trim (slice start ?e s) \<and> c \<noteq> [] \<or> c \<in> set (hard_split_loop s m ?e)"
      using 1(4) True by (auto simp: hard_split_loop.simps[of s m start] Let_def split: if_splits)
    ultimately show ?thesis
      using 1(1)[OF True refl refl 1(2,3)] by (auto simp: good_chunk_def)
  next
    case False
    then show ?thesis using 1(4) by (simp add: hard_split_loop.simps)
  qed
qed

lemma flush_good:
  "list_all (good_chunk m) (snd st) \<Longrightarrow> length (fst st) \<le> m \<Longrightarrow> list_all (good_chunk m) (snd (flush st))"
  using length_trim[of "fst st"] by (auto simp: flush_def good_chunk_def Let_def split: prod.splits)

lemma pack_step_good:
  assumes "short_chars p" "4 \<le> m" "list_all (good_chunk m) (snd st)" "length (fst st) \<le> m"
  shows "list_all (good_chunk m) (snd (pack_step m p st)) \<and> length (fst (pack_step m p st)) \<le> m"
proof -
  have "list_all (good_chunk m) (hard_split p m)"
    using hard_split_loop_good[OF assms(1,2)] by (auto simp: hard_split_def list_all_iff)
  moreover obtain ch where "flush st = ([], ch)" by (cases "flush st") (use fst_flush[of st] in auto)
  moreover have "list_all (good_chunk m) ch"
    using flush_good[OF assms(3,4)] calculation(2) by simp
  ultimately show ?thesis
    using assms(3,4) by (cases st) (auto simp: pack_step_def push_para_def needed_def)
qed

lemma split_paragraphs_parts:
  "\<exists>p ps. split_paragraphs s = p # ps \<and> prefix p s \<and> (\<forall>q \<in> set ps. sublist q s)"
proof (induction s rule: split_paragraphs.induct)
  case (3 c d cs)
  have longer: "sublist q (x # xs)" if "sublist q xs" for q x and xs :: string
    using that by (meson sublist_Cons_right)
  show ?case
  proof (cases "c = newline \<and> d = newline")
    case True
    obtain p ps where p: "split_paragraphs cs = p # ps" "prefix p cs" "\<forall>q \<in> set ps. sublist q cs"
      using 3(1)[OF True] by blast
    then show ?thesis using True prefix_imp_sublist[OF p(2)] longer by simp
  next
    case False
    obtain p ps where "split_paragraphs (d # cs) = p # ps" "prefix p (d # cs)"
      "\<forall>q \<in> set ps. sublist q (d # cs)"
      using 3(2)[OF False] by blast
    then show ?thesis using False longer[of _ "d # cs" c] by auto
  qed
qed auto

lemma split_paragraphs_sublist: "p \<in> set (split_paragraphs s) \<Longrightarrow> sublist p s"
  using split_paragraphs_parts[of s] prefix_imp_sublist by auto

lemma chunks_good:
  assumes "short_chars text" "c \<in> set (chunk_text text m)"
  shows "good_chunk (max m 4) c"
proof -
  let ?m = "max m 4"
  let ?ps = "filter (\<lambda>p. p \<noteq> []) (map trim (split_paragraphs text))"
  have short: "list_all short_chars ?ps"
    using short_chars_sublist[OF assms(1)] sublist_order.order_trans[OF sublist_trim split_paragraphs_sublist]
    by (auto simp: list_all_iff)
  have "list_all (good_chunk ?m) (snd (fold (pack_step ?m) ps st)) \<and> length (fst (fold (pack_step ?m) ps st)) \<le> ?m"
    if "list_all short_chars ps" "list_all (good_chunk ?m) (snd st)" "length (fst st) \<le> ?m" for ps st
    using that
  proof (induction ps arbitrary: st)
    case (Cons p ps)
    then show ?case using pack_step_good[of p ?m st] by simp
  qed simp
  then have "list_all (good_chunk ?m) (chunk_text text m)"
    using short unfolding chunk_text_def Let_def by (intro flush_good) auto
  then show ?thesis using assms(2) by (simp add: list_all_iff)
qed

section \<open>Nothing but white space is lost\<close>

function erase_ws :: "string \<Rightarrow> string" where
  "erase_ws s =
     (if s = [] then [] else if ws_len s = 0 then hd s # erase_ws (tl s)
      else erase_ws (drop (ws_len s) s))"
  by pat_completeness auto
termination
  by (relation "measure length") auto

declare erase_ws.simps [simp del]

definition starts_char :: "string \<Rightarrow> bool" where
  "starts_char s \<longleftrightarrow> s = [] \<or> \<not> is_continuation (hd s)"

lemma erase_ws_Nil [simp]: "erase_ws [] = []"
  by (simp add: erase_ws.simps)

lemma ws_encodings:
  "w \<in> set ws_utf8 \<Longrightarrow> \<not> is_continuation (hd w) \<and> (\<forall>c \<in> set (tl w). is_continuation c)"
  by (auto simp: ws_utf8_def is_continuation_def)

lemma ws_len_Some: "ws_len s \<noteq> 0 \<Longrightarrow> \<exists>w \<in> set ws_utf8. prefix w s \<and> ws_len s = length w"
  by (auto simp: ws_len_def dest: find_SomeD split: option.splits)

text \<open>A white-space character does not straddle the start of a character.\<close>

lemma prefix_append_char:
  assumes "w \<in> set ws_utf8" "prefix w (a @ b)" "a \<noteq> []" "starts_char b"
  shows "prefix w a"
proof (rule ccontr)
  assume "\<not> prefix w a"
  then obtain v where v: "w = a @ v" "v \<noteq> []" "prefix v b"
    using assms(2) by (auto simp: prefix_append)
  then have "is_continuation (hd v)"
    using ws_encodings[OF assms(1)] assms(3) by (cases a) (auto simp: hd_in_set)
  then show False using v assms(4) by (cases v; cases b) (auto simp: starts_char_def)
qed

lemma ws_len_append:
  assumes "a \<noteq> []" "starts_char b" shows "ws_len (a @ b) = ws_len a"
proof -
  have "find (\<lambda>w. prefix w (a @ b)) ws_utf8 = find (\<lambda>w. prefix w a) ws_utf8"
    using prefix_append_char[OF _ _ assms] by (intro find_cong) (auto simp: prefix_append)
  then show ?thesis by (simp add: ws_len_def)
qed

lemma erase_ws_append: "starts_char b \<Longrightarrow> erase_ws (a @ b) = erase_ws a @ erase_ws b"
proof (induction a rule: erase_ws.induct)
  case (1 a)
  show ?case
  proof (cases "a = [] \<or> ws_len a = 0")
    case True
    then show ?thesis using 1 ws_len_append[of a b] by (cases a) (auto simp: erase_ws.simps[of "_ # _"])
  next
    case False
    then have "ws_len a \<le> length a" using ws_len_Some prefix_length_le by fastforce
    then show ?thesis
      using 1 False ws_len_append[of a b] by (simp add: erase_ws.simps[of "a @ b"] erase_ws.simps[of a])
  qed
qed

lemma erase_ws_white: "w \<in> set ws_utf8 \<Longrightarrow> erase_ws w = []"
proof -
  have "list_all (\<lambda>w. erase_ws w = []) ws_utf8" by code_simp
  then show "w \<in> set ws_utf8 \<Longrightarrow> erase_ws w = []" by (simp add: list_all_iff)
qed

lemma erase_ws_trim_start [simp]: "erase_ws (trim_start s) = erase_ws s"
proof (induction s rule: trim_start.induct)
  case (1 s)
  show ?case
  proof (cases "ws_len s = 0")
    case True then show ?thesis by (simp add: trim_start.simps[of s])
  next
    case False
    then have "s \<noteq> []" by auto
    with 1 False show ?thesis by (simp add: trim_start.simps[of s] erase_ws.simps[of s])
  qed
qed

lemma erase_ws_trim_end [simp]: "erase_ws (trim_end s) = erase_ws s"
proof (induction s rule: trim_end.induct)
  case (1 s)
  show ?case
  proof (cases "ws_len_end s = 0")
    case True then show ?thesis by (simp add: trim_end.simps[of s])
  next
    case False
    then obtain w where w: "w \<in> set ws_utf8" "suffix w s" "ws_len_end s = length w"
      by (auto simp: ws_len_end_def dest: find_SomeD split: option.splits)
    then obtain p where p: "s = p @ w" by (auto simp: suffix_def)
    have "starts_char w" using ws_encodings[OF w(1)] by (simp add: starts_char_def)
    then have "erase_ws s = erase_ws p" using erase_ws_white[OF w(1)] by (simp add: p erase_ws_append)
    with 1[OF False] show ?thesis using False w(3) unfolding p
      by (simp add: trim_end.simps[of "p @ w"])
  qed
qed

lemma erase_ws_trim [simp]: "erase_ws (trim s) = erase_ws s"
  by (simp add: trim_def)

lemma erase_ws_empty_trim: "trim s = [] \<Longrightarrow> erase_ws s = []"
  by (metis erase_ws_Nil erase_ws_trim)

lemma erase_ws_newline [simp]: "erase_ws (newline # s) = erase_ws s"
proof -
  have "ws_len (newline # s) = 1" by (simp add: ws_len_def ws_utf8_def newline_def)
  then show ?thesis by (simp add: erase_ws.simps[of "newline # s"])
qed

lemma starts_char_newline [simp]: "starts_char (newline # s)"
  by (simp add: starts_char_def is_continuation_def newline_def)

text \<open>Every cut of \<open>hard_split\<close> is at the start of a character, so none of its slices panics.\<close>

lemma back_to_boundary_boundary:
  "back_to_boundary s start e \<noteq> start \<Longrightarrow> start \<le> e \<Longrightarrow> is_char_boundary s (back_to_boundary s start e)"
  by (induction s start e rule: back_to_boundary.induct) (auto split: if_splits)

lemma starts_char_boundary: "is_char_boundary s i \<Longrightarrow> i \<noteq> 0 \<Longrightarrow> starts_char (drop i s)"
  by (auto simp: is_char_boundary_def starts_char_def hd_drop_conv_nth)

lemma piece_end_starts_char:
  assumes "start < length s" shows "starts_char (drop (piece_end s m start) s)"
proof (cases "back_to_boundary s start (min (start + m) (length s)) = start")
  case True
  have "drop (next_char s start) s = dropWhile is_continuation (drop (Suc start) s)"
    by (simp add: next_char_def dropWhile_eq_drop add.commute)
  then show ?thesis using True hd_dropWhile[of is_continuation "drop (Suc start) s"]
    by (auto simp: piece_end_def starts_char_def)
next
  case False
  then show ?thesis
    using back_to_boundary_boundary[OF False] piece_end_gt[OF assms, of m] assms
    by (intro starts_char_boundary) (auto simp: piece_end_def Let_def)
qed

lemma hard_split_loop_complete:
  "concat (map erase_ws (hard_split_loop s m start)) = erase_ws (drop start s)"
proof (induction s m start rule: hard_split_loop.induct)
  case (1 s m start)
  show ?case
  proof (cases "start < length s")
    case True
    let ?e = "piece_end s m start"
    have "drop start s = slice start ?e s @ drop ?e s"
      using piece_end_gt[OF True, of m] unfolding slice_def
      by (metis append_take_drop_id drop_drop le_add_diff_inverse2 less_imp_le)
    then have "erase_ws (drop start s) = erase_ws (slice start ?e s) @ erase_ws (drop ?e s)"
      using erase_ws_append[OF piece_end_starts_char[OF True, of m], of "slice start ?e s"] by simp
    then show ?thesis
      using 1[OF True refl refl] True
      by (auto simp: hard_split_loop.simps[of s m start] Let_def dest: erase_ws_empty_trim)
  qed (simp add: hard_split_loop.simps)
qed

lemma join_split_paragraphs: "join [newline, newline] (split_paragraphs s) = s"
proof (induction s rule: split_paragraphs.induct)
  case (3 c d cs)
  obtain p ps q qs where "split_paragraphs cs = p # ps" "split_paragraphs (d # cs) = q # qs"
    using split_paragraphs_parts by meson
  then show ?case using 3 by (cases qs) (auto simp: join_Cons)
qed auto

lemma erase_ws_join: "erase_ws (join [newline, newline] ps) = concat (map erase_ws ps)"
proof (induction ps)
  case (Cons p ps)
  then show ?case by (cases ps) (auto simp: join_Cons erase_ws_append)
qed simp

definition kept :: "packing \<Rightarrow> string" where
  "kept st = concat (map erase_ws (snd st)) @ erase_ws (fst st)"

lemma kept_flush [simp]: "kept (flush st) = kept st"
  using erase_ws_empty_trim[of "fst st"] by (auto simp: kept_def flush_def Let_def split: prod.splits)

lemma kept_pack_step: "kept (pack_step m p st) = kept st @ erase_ws p"
proof -
  obtain ch where f: "flush st = ([], ch)" by (cases "flush st") (use fst_flush[of st] in auto)
  have "concat (map erase_ws ch) = kept st" using kept_flush[of st] f by (simp add: kept_def)
  then show ?thesis
    using hard_split_loop_complete[of p m 0] f
    by (cases st) (auto simp: pack_step_def push_para_def hard_split_def kept_def erase_ws_append)
qed

lemma kept_fold: "kept (fold (pack_step m) ps st) = kept st @ concat (map erase_ws ps)"
  by (induction ps arbitrary: st) (simp_all add: kept_pack_step)

section \<open>Properties\<close>

text \<open>
  C24: The chunks of a text are never empty, begin and end with a character that is not white space,
  and have at most \<open>max_bytes\<close> bytes (4 if that is less), whatever the text; of the text only that
  no character of it is longer than UTF-8 allows is used.
\<close>

theorem chunk_text_bounds:
  assumes "short_chars text"
  shows "\<forall>c \<in> set (chunk_text text max_bytes). c \<noteq> [] \<and> trim c = c \<and> length c \<le> max max_bytes 4"
  using chunks_good[OF assms] by (auto simp: good_chunk_def)

text \<open>
  C23: Chunking loses nothing but white space: what is left of the chunks, one after the other, when
  their white space is erased is what is left of the text.
\<close>

theorem chunk_text_complete:
  "concat (map erase_ws (chunk_text text max_bytes)) = erase_ws text"
proof -
  have erased: "concat (map erase_ws (filter (\<lambda>p. p \<noteq> []) (map trim ps))) = concat (map erase_ws ps)" for ps
    by (induction ps) (auto dest: erase_ws_empty_trim)
  have "concat (map erase_ws (snd (flush st))) = kept st" for st
    using kept_flush[of st] by (simp add: kept_def)
  then show ?thesis
    using erase_ws_join[of "split_paragraphs text"]
    by (simp add: chunk_text_def kept_fold join_split_paragraphs erased) (simp add: kept_def)
qed

definition sample_text :: string where
  "sample_text = ''one'' @ [newline, newline] @ '' two'' @ [newline, newline] @ ''three'' @ [CHR 0xC3, CHR 0xA9] @ ''s''"

lemma chunks_sample:
  "chunk_text sample_text 8 =
     [''one'' @ [newline, newline] @ ''two'', ''three'' @ [CHR 0xC3, CHR 0xA9] @ ''s'']"
  "chunk_text sample_text 6 = [''one'', ''two'', ''three'', [CHR 0xC3, CHR 0xA9] @ ''s'']"
  by code_simp+

theorem chunk_text_bounds_witness:
  "list_all (\<lambda>c. c \<noteq> [] \<and> trim c = c \<and> length c \<le> 6) (chunk_text sample_text 6)"
proof -
  have "short_chars sample_text" by code_simp
  from chunk_text_bounds[OF this, of 6] show ?thesis by (simp add: list_all_iff)
qed

end
