(* ===== verification/Driver.thy ===== *)
theory Driver
  imports Query
begin

text \<open>
  \<open>singularmem-ingest/src/driver.rs\<close>: importing the items of a source into a store so that running
  the import again changes nothing. A source (a transcript parser or a directory walker) is what it
  yields, its default scope and its count of filtered inputs. The wrapping of store errors by
  \<open>Error::Core\<close> and the log lines are left out.
\<close>

section \<open>Sources and reports\<close>

text \<open>The errors of a source (\<open>error.rs\<close>), each with the path it concerns.\<close>

datatype ingest_error = Io_Error string | Json_Error string nat | Not_Found string | Unsupported_Input string

record import_source =
  src_items :: "(ingest_error + new_item) list"
  src_filtered :: nat
  src_default_scope :: "new_item \<Rightarrow> string option"

record report =
  ingested :: nat
  skipped_existing :: nat
  skipped_filtered :: nat
  failed :: nat

definition BATCH_SIZE :: nat where "BATCH_SIZE = 500"

definition default_report :: report where
  "default_report = \<lparr>ingested = 0, skipped_existing = 0, skipped_filtered = 0, failed = 0\<rparr>"

abbreviation count_ingested :: "nat \<Rightarrow> report \<Rightarrow> report" where
  "count_ingested n \<equiv> ingested_update (\<lambda>k. k + n)"

abbreviation count_skipped :: "nat \<Rightarrow> report \<Rightarrow> report" where
  "count_skipped n \<equiv> skipped_existing_update (\<lambda>k. k + n)"

abbreviation count_failed :: "nat \<Rightarrow> report \<Rightarrow> report" where
  "count_failed n \<equiv> failed_update (\<lambda>k. k + n)"

text \<open>The first loop of \<open>ingest_source\<close>: the items with their scopes, and the number of errors.\<close>

definition candidates :: "import_source \<Rightarrow> new_item list" where
  "candidates src = List.map_filter (\<lambda>r. case r of Inl e \<Rightarrow> None
     | Inr it \<Rightarrow> Some (if n_scope it = None then it\<lparr>n_scope := src_default_scope src it\<rparr> else it))
     (src_items src)"

definition source_errors :: "import_source \<Rightarrow> nat" where
  "source_errors src = length (filter (\<lambda>r. case r of Inl e \<Rightarrow> True | Inr it \<Rightarrow> False) (src_items src))"

definition sha256_of :: "json \<Rightarrow> string option" where
  "sha256_of m = Option.bind (json_get ''sha256'' m) as_str"

definition hashes_differ :: "string option \<Rightarrow> string option \<Rightarrow> bool" where
  "hashes_differ a b = (case (a, b) of (Some x, Some y) \<Rightarrow> x \<noteq> y | _ \<Rightarrow> False)"

section \<open>The import\<close>

fun foldM :: "('b \<Rightarrow> 'a \<Rightarrow> 'b op) \<Rightarrow> 'b \<Rightarrow> 'a list \<Rightarrow> 'b op" where
  "foldM f b [] = ret b"
| "foldM f b (x # xs) = bindM (f b x) (\<lambda>b'. foldM f b' xs)"

text \<open>
  One turn of the loop over the candidates. Its state: the report, the items to be written, and
  the external ids met in this run.
\<close>

type_synonym progress = "report \<times> new_item list \<times> string set"

definition consider_item :: "string set \<Rightarrow> bool \<Rightarrow> progress \<Rightarrow> new_item \<Rightarrow> progress op" where
  "consider_item existing dry_run p it =
     (case p of (rep, fresh, accepted) \<Rightarrow>
      case n_external_id it of
        None \<Rightarrow> ret (rep, fresh @ [it], accepted)
      | Some key \<Rightarrow>
          if key \<in> accepted then ret (count_skipped 1 rep, fresh, accepted)
          else if key \<notin> existing then ret (rep, fresh @ [it], insert key accepted)
          else bindM (get_by_external_id key) (\<lambda>old.
            let differs = hashes_differ (sha256_of (n_metadata it))
                  (Option.bind old (\<lambda>prior. sha256_of (metadata prior)))
            in case (differs, old) of
                 (True, Some prior) \<Rightarrow>
                   bindM (if dry_run then ret () else bindM (ingest_replacing it (item_id prior)) (\<lambda>_. ret ())) (\<lambda>_.
                   ret (count_ingested 1 rep, fresh, insert key accepted))
               | _ \<Rightarrow> ret (count_skipped 1 rep, fresh, insert key accepted)))"

text \<open>The retry of a rejected batch, item by item.\<close>

definition ingest_single :: "report \<Rightarrow> new_item \<Rightarrow> report op" where
  "ingest_single rep it s =
     (case ingest it s of
        (Inr x, s') \<Rightarrow> (Inr (count_ingested 1 rep), s')
      | (Inl e, s') \<Rightarrow>
          (case e of Validation f r \<Rightarrow> (Inr (count_failed 1 rep), s') | _ \<Rightarrow> (Inl e, s')))"

text \<open>The retry after an external id that another writer has taken in the meantime.\<close>

definition retry_unconflicted :: "new_item list \<Rightarrow> report \<Rightarrow> report op" where
  "retry_unconflicted batch rep =
     bindM (existing_external_ids (List.map_filter n_external_id batch)) (\<lambda>now_existing.
     let retry = filter (\<lambda>i. \<not> (case n_external_id i of None \<Rightarrow> False | Some k \<Rightarrow> k \<in> now_existing)) batch;
         rep' = count_skipped (length batch - length retry) rep
     in bindM (ingest_many retry) (\<lambda>written. ret (count_ingested (length written) rep')))"

definition write_batch :: "new_item list \<Rightarrow> report \<Rightarrow> report op" where
  "write_batch batch rep s =
     (case ingest_many batch s of
        (Inr written, s') \<Rightarrow> (Inr (count_ingested (length written) rep), s')
      | (Inl e, s') \<Rightarrow>
          (case e of
             ExternalIdConflict k \<Rightarrow> retry_unconflicted batch rep s'
           | Validation f r \<Rightarrow> foldM ingest_single rep batch s'
           | _ \<Rightarrow> (Inl e, s')))"

function write_batches :: "new_item list \<Rightarrow> report \<Rightarrow> report op" where
  "write_batches fresh rep =
     (if fresh = [] then ret rep
      else let n = min (length fresh) BATCH_SIZE
        in bindM (write_batch (take n fresh) rep) (\<lambda>rep'. write_batches (drop n fresh) rep'))"
  by pat_completeness auto
termination
  by (relation "measure (\<lambda>(fresh, rep). length fresh)") (auto simp: BATCH_SIZE_def)

declare write_batches.simps [simp del]

definition ingest_source :: "import_source \<Rightarrow> bool \<Rightarrow> report op" where
  "ingest_source src dry_run =
     (let cs = candidates src;
          rep0 = default_report\<lparr>failed := source_errors src, skipped_filtered := src_filtered src\<rparr>
      in bindM (existing_external_ids (List.map_filter n_external_id cs)) (\<lambda>existing.
         bindM (foldM (consider_item existing dry_run) (rep0, [], {}) cs) (\<lambda>(rep, fresh, accepted).
         if dry_run then ret (count_ingested (length fresh) rep)
         else write_batches fresh rep)))"

section \<open>The store as a map from external ids to metadata\<close>

definition keyed :: "database \<Rightarrow> string \<Rightarrow> json option" where
  "keyed d k = map_option r_metadata (find (\<lambda>r. r_external_id r = Some k) (items d))"

lemma keyed_None: "keyed d k = None \<longleftrightarrow> k \<notin> set (ext_ids d)"
  by (auto simp: keyed_def find_None_iff ext_ids_def map_filter_def image_iff)

lemma keyed_add:
  assumes "fits x d"
  shows "keyed (add_item e x d) = (case external_id x of None \<Rightarrow> keyed d | Some k \<Rightarrow> (keyed d)(k \<mapsto> metadata x))"
proof (cases "external_id x")
  case None then show ?thesis
    by (auto simp: keyed_def add_item_def find_append row_of_item_def split: option.splits)
next
  case (Some k)
  then have "find (\<lambda>r. r_external_id r = Some k) (items d) = None"
    using assms keyed_None[of d k] by (auto simp: fits_def keyed_def)
  then show ?thesis using Some
    by (auto simp: keyed_def add_item_def find_append row_of_item_def fun_eq_iff split: option.splits)
qed

lemma find_map_free:
  "k' \<noteq> k \<Longrightarrow> (\<And>r. r \<in> set rs \<Longrightarrow> r_id r = i \<Longrightarrow> r_external_id r = Some k) \<Longrightarrow>
   find (\<lambda>r. r_external_id r = Some k') (map (\<lambda>r. if r_id r = i then r\<lparr>r_external_id := None\<rparr> else r) rs)
     = find (\<lambda>r. r_external_id r = Some k') rs"
  by (induction rs) auto

lemma keyed_free:
  assumes "wf_items d" "find (\<lambda>r. r_external_id r = Some k) (items d) = Some row" "k' \<noteq> k"
  shows "keyed (free_external_id (r_id row) d) k' = keyed d k'"
proof -
  have row: "row \<in> set (items d)" "r_external_id row = Some k" using find_SomeD[OF assms(2)] by auto
  have "r = row" if "r \<in> set (items d)" "r_id r = r_id row" for r
    using assms(1) that row(1) by (auto simp: wf_items_def distinct_map dest: inj_onD)
  then have "r_external_id r = Some k" if "r \<in> set (items d)" "r_id r = r_id row" for r
    using \<open>\<And>r. r \<in> set (items d) \<Longrightarrow> r_id r = r_id row \<Longrightarrow> r = row\<close>[OF that] row(2) by simp
  then show ?thesis by (simp add: keyed_def update_row_def find_map_free[OF assms(3)])
qed

lemma ret_Inr [simp]: "ret x s = (Inr y, s') \<longleftrightarrow> y = x \<and> s' = s"
  by (auto simp: ret_def)

lemma keys_of_map_filter: "k \<in> set (List.map_filter n_external_id its) \<longleftrightarrow> (\<exists>it \<in> set its. n_external_id it = Some k)"
  by (auto simp: map_filter_def image_iff)

lemma existing_external_ids_effect:
  assumes "existing_external_ids ks s = (Inr found, s')"
  shows "db s' = db s" "found = {k \<in> set ks. keyed (db s) k \<noteq> None}"
proof -
  let ?f = "\<lambda>i. bindM (select ''checking external_id existence'' (\<lambda>d. i \<in> set (ext_ids d)))
        (\<lambda>hit. ret (if hit then [i] else []))"
  have loop: "db s2 = db s1 \<and> set (concat hits) = {k \<in> set ks. k \<in> set (ext_ids (db s1))}"
    if "mapM ?f ks s1 = (Inr hits, s2)" for s1 s2 hits
    using that
  proof (induction ks arbitrary: s1 hits)
    case Nil then show ?case by simp
  next
    case (Cons k ks)
    then obtain s3 hit hits' where
      "select ''checking external_id existence'' (\<lambda>d. k \<in> set (ext_ids d)) s1 = (Inr hit, s3)"
      and rest: "mapM ?f ks s3 = (Inr hits', s2)" and hits: "hits = (if hit then [k] else []) # hits'"
      by (auto elim!: bindM_InrE simp del: if_split_eq1)
    then have "db s3 = db s1" "hit \<longleftrightarrow> k \<in> set (ext_ids (db s1))"
      by (auto elim!: select_InrE dest!: sql_Inr)
    then show ?case using Cons.IH[OF rest] hits by auto
  qed
  from assms show "db s' = db s" "found = {k \<in> set ks. keyed (db s) k \<noteq> None}"
    unfolding existing_external_ids_def
    by (auto simp: keyed_None elim!: bindM_InrE dest!: sql_Inr loop)
qed

lemma existing_no_faults:
  assumes "faults s = []"
  shows "existing_external_ids ks s = (Inr {k \<in> set ks. k \<in> set (ext_ids (db s))}, s)"
proof -
  have "mapM (\<lambda>i. bindM (select c (\<lambda>d. i \<in> set (ext_ids d))) (\<lambda>hit. ret (if hit then [i] else []))) ks s
      = (Inr (map (\<lambda>i. if i \<in> set (ext_ids (db s)) then [i] else []) ks), s)" for c
    using assms by (induction ks) (simp_all add: bindM_def select_no_faults ret_def)
  then show ?thesis
    using assms by (auto simp: existing_external_ids_def bindM_def sql_no_faults ret_def)
qed

lemma load_item_row:
  assumes "load_item i s = (Inr it, s')"
  shows "\<exists>row. find_row i (db s) = Some row \<and> item_id it = r_id row \<and> metadata it = r_metadata row"
proof -
  have "item_at (ext s) (db s) i = Some it" using get_Inr[of i s it s'] assms by (simp add: get_def)
  then show ?thesis by (auto simp: item_at_Some item_of_row_def)
qed

lemma find_row_of:
  assumes "wf_items d" "row \<in> set (items d)" shows "find_row (r_id row) d = Some row"
proof -
  obtain row' where "find_row (r_id row) d = Some row'"
    using assms(2) find_row_None[of "r_id row" d] by (cases "find_row (r_id row) d") (auto simp: item_ids_def)
  moreover from this have "row' = row"
    using assms find_row_Some[of "r_id row" d row'] by (auto simp: wf_items_def distinct_map dest: inj_onD)
  ultimately show ?thesis by simp
qed

lemma get_by_external_id_effect:
  assumes "get_by_external_id k s = (Inr found, s')" "wf_items (db s)"
  shows "db s' = db s \<and> (case found of
      None \<Rightarrow> keyed (db s) k = None
    | Some it \<Rightarrow> \<exists>row. find (\<lambda>r. r_external_id r = Some k) (items (db s)) = Some row \<and>
        item_id it = r_id row \<and> metadata it = r_metadata row)"
proof -
  have load: "keeps db (load_item i)" for i by (intro keeps_intros) simp
  from assms(1) obtain s1 row where
    sel: "select ''looking up external_id'' (\<lambda>d. find (\<lambda>r. r_external_id r = Some k) (items d)) s = (Inr row, s1)"
    and rest: "(case row of None \<Rightarrow> ret None
        | Some r \<Rightarrow> bindM (load_item (r_id r)) (\<lambda>it. ret (Some it))) s1 = (Inr found, s')"
    unfolding get_by_external_id_def by (elim bindM_InrE)
  from sel have s1: "db s1 = db s" and row: "find (\<lambda>r. r_external_id r = Some k) (items (db s)) = row"
    by (auto elim!: select_InrE dest!: sql_Inr)
  show ?thesis
  proof (cases row)
    case None then show ?thesis using rest row s1 by (auto simp: keyed_def)
  next
    case (Some r)
    then obtain it where it: "load_item (r_id r) s1 = (Inr it, s')" "found = Some it"
      using rest by (auto elim!: bindM_InrE)
    have "find_row (r_id r) (db s) = Some r"
      using find_SomeD[of _ "items (db s)" r] row Some by (intro find_row_of[OF assms(2)]) auto
    then show ?thesis using load_item_row[OF it(1)] keepsD[OF load it(1)] it(2) row Some s1 by auto
  qed
qed

text \<open>What an import makes of a key's metadata, given the first item that carries the key.\<close>

definition outdated :: "json \<Rightarrow> new_item \<Rightarrow> bool" where
  "outdated old it \<longleftrightarrow> hashes_differ (sha256_of (n_metadata it)) (sha256_of old)"

definition valid_item :: "new_item \<Rightarrow> bool" where
  "valid_item it \<longleftrightarrow> (\<exists>v. validate_item it = Inr v)"

definition sync_value :: "json option \<Rightarrow> new_item \<Rightarrow> json option" where
  "sync_value m it =
     (case m of
        None \<Rightarrow> if valid_item it then Some (n_metadata it) else None
      | Some old \<Rightarrow> Some (if outdated old it then n_metadata it else old))"

lemma sync_value_idem [simp]: "sync_value (sync_value m it) it = sync_value m it"
  by (auto simp: sync_value_def outdated_def hashes_differ_def split: option.splits)

lemma replace_effect:
  assumes "ingest_replacing it (r_id row) s = (Inr x, s')" "wf_items (db s)" "n_external_id it = Some k"
    "find (\<lambda>r. r_external_id r = Some k) (items (db s)) = Some row"
  shows "wf_items (db s')" "keyed (db s') = (keyed (db s))(k \<mapsto> n_metadata it)"
proof -
  from assms(1) obtain v i t where x: "x = stored_item i t (it\<lparr>n_supersedes := Some (r_id row)\<rparr>) v"
    and d: "db s' = add_item (ext s) x (free_external_id (r_id row) (db s))"
      "fits x (free_external_id (r_id row) (db s))"
    by (elim ingest_replacing_effect)
  have "external_id x = Some k" "metadata x = n_metadata it" using x assms(3) by (simp_all add: stored_item_def)
  then show "keyed (db s') = (keyed (db s))(k \<mapsto> n_metadata it)"
    using d keyed_free[OF assms(2,4)] by (auto simp: keyed_add)
  show "wf_items (db s')" using d assms(2) by (simp add: wf_items_add wf_items_free)
qed

text \<open>One turn of the loop: with a key not met before and stored, its value is brought up to date.\<close>

lemma consider_stored:
  assumes "consider_item existing dry (rep, fresh, acc) it s = (Inr p, s')" "wf_items (db s)"
    "n_external_id it = Some k" "k \<notin> acc" "k \<in> existing" "keyed (db s) k = Some old"
  shows "wf_items (db s')" "fst (snd p) = fresh" "snd (snd p) = insert k acc"
    "keyed (db s') = (keyed (db s))(k := if dry then Some old else sync_value (Some old) it)"
    "dry \<or> \<not> outdated old it \<Longrightarrow> db s' = db s"
    "fst p = (if outdated old it then count_ingested 1 rep else count_skipped 1 rep)"
proof -
  from assms obtain s1 found where g: "get_by_external_id k s = (Inr found, s1)"
    and rest: "(let differs = hashes_differ (sha256_of (n_metadata it))
                  (Option.bind found (\<lambda>prior. sha256_of (metadata prior)))
            in case (differs, found) of
                 (True, Some prior) \<Rightarrow>
                   bindM (if dry then ret () else bindM (ingest_replacing it (item_id prior)) (\<lambda>_. ret ())) (\<lambda>_.
                   ret (count_ingested 1 rep, fresh, insert k acc))
               | _ \<Rightarrow> ret (count_skipped 1 rep, fresh, insert k acc)) s1 = (Inr p, s')"
    unfolding consider_item_def by (auto elim!: bindM_InrE)
  from get_by_external_id_effect[OF g assms(2)] assms(6) obtain prior row where
    s1: "db s1 = db s" and found: "found = Some prior" "item_id prior = r_id row" "metadata prior = r_metadata row"
    and row: "find (\<lambda>r. r_external_id r = Some k) (items (db s)) = Some row"
    by (auto split: option.splits)
  have old: "old = r_metadata row" using assms(6) row by (simp add: keyed_def)
  have rest': "(if outdated old it then
       bindM (if dry then ret () else bindM (ingest_replacing it (r_id row)) (\<lambda>_. ret ())) (\<lambda>_.
         ret (count_ingested 1 rep, fresh, insert k acc))
      else ret (count_skipped 1 rep, fresh, insert k acc)) s1 = (Inr p, s')"
    using rest found old by (cases "outdated old it") (simp_all add: outdated_def Let_def cong: if_cong)
  show "wf_items (db s')" "fst (snd p) = fresh" "snd (snd p) = insert k acc"
    "keyed (db s') = (keyed (db s))(k := if dry then Some old else sync_value (Some old) it)"
    "dry \<or> \<not> outdated old it \<Longrightarrow> db s' = db s"
    "fst p = (if outdated old it then count_ingested 1 rep else count_skipped 1 rep)"
    using rest' assms(2,6) s1 old row replace_effect[of it row s1 _ s' k] assms(3)
    by (auto simp: sync_value_def split: if_splits elim!: bindM_InrE)
qed

section \<open>The loop over the candidates\<close>

text \<open>The items that are not the repetition of a key, and those of them whose key is not stored.\<close>

fun firsts :: "string set \<Rightarrow> new_item list \<Rightarrow> new_item list" where
  "firsts A [] = []"
| "firsts A (it # its) =
     (case n_external_id it of
        None \<Rightarrow> it # firsts A its
      | Some k \<Rightarrow> if k \<in> A then firsts A its else it # firsts (insert k A) its)"

definition new_key :: "string set \<Rightarrow> new_item \<Rightarrow> bool" where
  "new_key existing it \<longleftrightarrow> (case n_external_id it of None \<Rightarrow> True | Some k \<Rightarrow> k \<notin> existing)"

definition item_for :: "string \<Rightarrow> new_item list \<Rightarrow> new_item option" where
  "item_for k its = find (\<lambda>it. n_external_id it = Some k) its"

lemma item_for_simps [simp]:
  "item_for k [] = None"
  "item_for k (it # its) = (if n_external_id it = Some k then Some it else item_for k its)"
  by (simp_all add: item_for_def)

lemma consider_simps:
  "n_external_id it = None \<Longrightarrow> consider_item ex dry (rep, fresh, acc) it = ret (rep, fresh @ [it], acc)"
  "n_external_id it = Some k \<Longrightarrow> k \<in> acc \<Longrightarrow>
     consider_item ex dry (rep, fresh, acc) it = ret (count_skipped 1 rep, fresh, acc)"
  "n_external_id it = Some k \<Longrightarrow> k \<notin> acc \<Longrightarrow> k \<notin> ex \<Longrightarrow>
     consider_item ex dry (rep, fresh, acc) it = ret (rep, fresh @ [it], insert k acc)"
  by (simp_all add: consider_item_def)

text \<open>The number of items a report accounts for.\<close>

definition handled :: "report \<Rightarrow> nat" where
  "handled rep = ingested rep + skipped_existing rep + failed rep"

lemma handled_counts [simp]:
  "handled (count_ingested n rep) = handled rep + n" "handled (count_skipped n rep) = handled rep + n"
  "handled (count_failed n rep) = handled rep + n"
  "handled (ingested_update Suc rep) = Suc (handled rep)"
  "handled (skipped_existing_update Suc rep) = Suc (handled rep)"
  "handled (failed_update Suc rep) = Suc (handled rep)"
  by (simp_all add: handled_def)

definition same_sides :: "report \<Rightarrow> report \<Rightarrow> bool" where
  "same_sides a b \<longleftrightarrow> skipped_filtered a = skipped_filtered b \<and> failed a = failed b"

lemma consider_loop:
  assumes "foldM (consider_item ex dry) (rep, fresh, acc) its s = (Inr (rep', fresh', acc'), s')"
    "wf_items (db s)" "\<And>k. k \<in> ex \<Longrightarrow> k \<notin> acc \<Longrightarrow> keyed (db s) k \<noteq> None"
  shows "wf_items (db s') \<and> fresh' = fresh @ filter (new_key ex) (firsts acc its) \<and>
    (\<forall>k. keyed (db s') k = (case item_for k its of
        Some it \<Rightarrow> if \<not> dry \<and> k \<in> ex \<and> k \<notin> acc then sync_value (keyed (db s) k) it else keyed (db s) k
      | None \<Rightarrow> keyed (db s) k)) \<and>
    (dry \<longrightarrow> db s' = db s) \<and>
    handled rep' + length fresh' = handled rep + length fresh + length its \<and> same_sides rep rep'"
  using assms
proof (induction its arbitrary: rep fresh acc s)
  case Nil then show ?case by (simp add: same_sides_def)
next
  case (Cons it its)
  from Cons.prems(1) obtain r1 f1 a1 s1 where
    one: "consider_item ex dry (rep, fresh, acc) it s = (Inr (r1, f1, a1), s1)" and
    rest: "foldM (consider_item ex dry) (r1, f1, a1) its s1 = (Inr (rep', fresh', acc'), s')"
    by (auto elim!: bindM_InrE)
  note IH = Cons.IH[OF rest]
  consider "n_external_id it = None" | k where "n_external_id it = Some k" "k \<in> acc"
    | k where "n_external_id it = Some k" "k \<notin> acc" "k \<notin> ex"
    | k where "n_external_id it = Some k" "k \<notin> acc" "k \<in> ex" by (cases "n_external_id it") auto
  then show ?case
  proof cases
    case 1
    then show ?thesis using one IH Cons.prems(2,3) by (auto simp: consider_simps new_key_def)
  next
    case 2
    then show ?thesis using one IH Cons.prems(2,3)
      by (auto simp: consider_simps same_sides_def split: option.splits)
  next
    case 3
    then show ?thesis using one IH Cons.prems(2,3)
      by (auto simp: consider_simps new_key_def split: option.splits)
  next
    case 4
    then obtain old where old: "keyed (db s) k = Some old" using Cons.prems(3) by auto
    note st = consider_stored[OF one Cons.prems(2) 4 old]
    have "\<And>k'. k' \<in> ex \<Longrightarrow> k' \<notin> a1 \<Longrightarrow> keyed (db s1) k' \<noteq> None"
      using st(3,4) Cons.prems(3) by auto
    note IH' = IH[OF st(1) this]
    have r1: "handled r1 = handled rep + 1" "same_sides rep r1" using st(6) by (simp_all add: same_sides_def)
    have "keyed (db s') k' = (case item_for k' (it # its) of
        Some it \<Rightarrow> if \<not> dry \<and> k' \<in> ex \<and> k' \<notin> acc then sync_value (keyed (db s) k') it else keyed (db s) k'
      | None \<Rightarrow> keyed (db s) k')" for k'
      using IH' st(3,4) 4 old by (cases "k' = k") (auto split: option.splits)
    moreover have "dry \<longrightarrow> db s' = db s" using IH' st(5) by simp
    ultimately show ?thesis using IH' r1 st(2,3) 4 by (auto simp: new_key_def same_sides_def)
  qed
qed

section \<open>Writing the new items\<close>

definition rejects :: "error + 'a \<Rightarrow> bool" where
  "rejects r \<longleftrightarrow> (\<forall>e. r = Inl e \<longrightarrow> (\<exists>f reason. e = Validation f reason))"

named_theorems rejects_intros "checks whose only error is a validation error"

lemma rejects_basic [rejects_intros]:
  "rejects (Inr x)" "rejects (Inl (Validation f reason))"
  "rejects a \<Longrightarrow> (\<And>x. rejects (g x)) \<Longrightarrow> rejects (rbind a g)"
  "(c \<Longrightarrow> rejects a) \<Longrightarrow> (\<not> c \<Longrightarrow> rejects b) \<Longrightarrow> rejects (if c then a else b)"
  by (auto simp: rejects_def rbind_def split: sum.splits)

lemma rejects_traverse [rejects_intros]: "(\<And>x. rejects (f x)) \<Longrightarrow> rejects (traverse f xs)"
  using traverse_Inl_cases[of f xs] unfolding rejects_def by blast

lemma rejects_opt_traverse [rejects_intros]: "(\<And>x. rejects (f x)) \<Longrightarrow> rejects (opt_traverse f a)"
  by (cases a) (auto intro!: rejects_intros)

lemma rejects_checks [rejects_intros]:
  "rejects (check_tag t)" "rejects (check_content c)" "rejects (check_source a)"
  "rejects (check_external_id a)" "rejects (check_segment g)"
  unfolding check_tag_def check_content_def check_segment_def Let_def
  by (intro rejects_intros | cases a; simp add: rejects_intros)+

lemma rejects_check_metadata [rejects_intros]: "rejects (check_metadata m)"
  by (cases m) (simp_all add: check_metadata_def rejects_def)

lemma rejects_validate [rejects_intros]: "rejects (validate s)"
  unfolding validate_def Let_def by (intro rejects_intros)

lemma rejects_validate_item: "rejects (validate_item it)"
  unfolding validate_item_def normalise_tags_def by (intro rejects_intros)

text \<open>No statement of a transaction reports a validation error.\<close>

definition database_errors :: "'a op \<Rightarrow> bool" where
  "database_errors m \<longleftrightarrow> (\<forall>s f reason s'. m s \<noteq> (Inl (Validation f reason), s'))"

lemma database_errors_basic:
  "database_errors (ret x)" "database_errors (gets g)" "database_errors (sql c)"
  "(\<And>f reason. e \<noteq> Validation f reason) \<Longrightarrow> database_errors (fail e)"
  by (auto simp: database_errors_def op_defs sql_def split: list.splits)

lemma database_errors_infallible: "infallible m \<Longrightarrow> database_errors m"
  unfolding database_errors_def infallible_def by (metis Inl_Inr_False Pair_inject)

lemma database_errors_bind:
  "database_errors m \<Longrightarrow> (\<And>x. database_errors (k x)) \<Longrightarrow> database_errors (bindM m k)"
  unfolding database_errors_def by (blast elim: bindM_InlE)

lemma database_errors_if: "database_errors a \<Longrightarrow> database_errors b \<Longrightarrow> database_errors (if c then a else b)"
  by simp

lemma database_errors_mapM: "(\<And>x. database_errors (f x)) \<Longrightarrow> database_errors (mapM f xs)"
  by (induction xs) (auto intro!: database_errors_basic database_errors_bind)

lemma database_errors_exec:
  assumes "\<And>d f reason. g d \<noteq> Inl (Validation f reason)" shows "database_errors (exec c g)"
  unfolding exec_def using assms
  by (intro database_errors_bind database_errors_basic)
    (auto simp: database_errors_def split: sum.splits prod.splits)

lemma database_errors_transaction: "database_errors m \<Longrightarrow> database_errors (transaction b c m)"
proof -
  assume m: "database_errors m"
  have "database_errors (bindM m (\<lambda>x. bindM (commit_tx c) (\<lambda>_. ret x)))"
    unfolding commit_tx_def
    by (intro database_errors_bind database_errors_if database_errors_basic m) simp
  then show ?thesis
    using database_errors_basic(3)[of b]
    by (auto simp: database_errors_def transaction_def split: prod.splits sum.splits)
qed

lemma database_errors_insert: "database_errors (insert_item_row i t it ts sc)"
  unfolding insert_item_row_def
  by (intro database_errors_bind database_errors_basic database_errors_mapM database_errors_exec)
    (auto simp: insert_item_stmt_def insert_tag_stmt_def split: option.splits if_splits)

lemma database_errors_check_supersedes:
  "database_errors m \<Longrightarrow> database_errors (check_supersedes c m x)"
  unfolding check_supersedes_def select_def
  by (cases x) (auto intro!: database_errors_bind database_errors_if database_errors_basic)

text \<open>Unless the clock is before the epoch, \<open>ingest\<close> answers with a validation error only to a bad item.\<close>

definition epoch_ok :: "store \<Rightarrow> bool" where
  "epoch_ok s \<longleftrightarrow> (\<forall>n. 0 \<le> as_millisecond (ext s) (clock s n))"

lemma ingest_rejects:
  assumes "ingest it s = (Inl (Validation f reason), s')" "epoch_ok s"
  shows "\<not> valid_item it"
proof
  assume "valid_item it"
  then obtain v where v: "validate_item it = Inr v" by (auto simp: valid_item_def)
  have w: "\<not> read_only s"
    using assms(1) by (auto simp: ingest_def assert_writable_def bindM_def split: if_splits)
  have ms: "0 \<le> as_millisecond (ext s) (clock s (ticks s))" using assms(2) by (simp add: epoch_ok_def)
  have "database_errors (bindM (transaction ''starting ingest transaction'' ''committing ingest transaction''
       (bindM (check_supersedes ''checking supersedes target existence''
                 (sql ''rolling back after SupersedesNotFound'') (n_supersedes it)) (\<lambda>_.
        insert_item_row i t it ts sc))) (\<lambda>_. bindM (fire_hook x) (\<lambda>_. ret x)))" for i t ts sc x
    by (intro database_errors_bind database_errors_transaction database_errors_check_supersedes
        database_errors_insert database_errors_basic database_errors_infallible[OF infallible_fire_hook(1)])
  then show False
    using assms(1) unfolding ingest_unfold[OF w v refl refl ms refl refl] database_errors_def by blast
qed

lemma epoch_ok_handle: "handle s' = handle s \<Longrightarrow> epoch_ok s' = epoch_ok s"
  by (simp add: epoch_ok_def handle_def)

text \<open>Items that can be written together: their keys differ from each other and from the stored ones.\<close>

definition writable :: "new_item list \<Rightarrow> database \<Rightarrow> bool" where
  "writable its d \<longleftrightarrow> distinct (List.map_filter n_external_id its) \<and>
     (\<forall>it \<in> set its. \<forall>k. n_external_id it = Some k \<longrightarrow> keyed d k = None)"

definition wrote :: "new_item list \<Rightarrow> store \<Rightarrow> store \<Rightarrow> bool" where
  "wrote its s s' \<longleftrightarrow> wf_items (db s') \<and> handle s' = handle s \<and>
     (\<forall>k. keyed (db s') k = (case item_for k its of None \<Rightarrow> keyed (db s) k | Some it \<Rightarrow> sync_value None it)) \<and>
     (list_all (\<lambda>it. \<not> valid_item it) its \<longrightarrow> db s' = db s)"

lemma wrote_start:
  "db s1 = db s \<Longrightarrow> handle s1 = handle s \<Longrightarrow> wrote its s1 s' \<Longrightarrow> wrote its s s'"
  by (simp add: wrote_def cong: option.case_cong)

lemma item_for_None: "item_for k its = None \<longleftrightarrow> k \<notin> set (List.map_filter n_external_id its)"
  unfolding item_for_def find_None_iff keys_of_map_filter by blast

lemma item_for_Some: "item_for k its = Some it \<Longrightarrow> it \<in> set its \<and> n_external_id it = Some k"
  unfolding item_for_def by (blast dest: find_SomeD)

lemma keyed_add_items:
  assumes "list_all2 (\<lambda>it x. \<exists>v i t. validate_item it = Inr v \<and> x = stored_item i t it v) its out"
    "all_fit e out d" "distinct (List.map_filter n_external_id its)"
  shows "keyed (add_items e out d) k =
    (case item_for k its of None \<Rightarrow> keyed d k | Some it \<Rightarrow> Some (n_metadata it))"
  using assms
proof (induction its out arbitrary: d rule: list_all2_induct)
  case (Cons it its x out)
  then have x: "external_id x = n_external_id it" "metadata x = n_metadata it" "fits x d"
    by (auto simp: stored_item_def)
  have "n_external_id it = Some k \<Longrightarrow> item_for k its = None"
    using Cons.prems(2) by (simp add: item_for_None map_filter_simps)
  then show ?case
    using Cons.IH[of "add_item e x d"] Cons.prems x keyed_add[OF x(3), of e]
    by (auto simp: map_filter_simps split: option.splits if_splits)
qed simp

lemma ingest_many_wrote:
  assumes "ingest_many its s = (Inr out, s')" "wf_items (db s)" "distinct (List.map_filter n_external_id its)"
  shows "wrote its s s'" "length out = length its" "list_all valid_item its"
proof -
  note eff = ingest_many_effect[OF assms(1)]
  show v: "list_all valid_item its" "length out = length its"
    using eff(4,6) by (auto simp: list_all_length list_all2_conv_all_nth valid_item_def)
  have "sync_value None it = Some (n_metadata it)" if "item_for k its = Some it" for k it
    using v(1) item_for_Some[OF that] by (auto simp: sync_value_def list_all_iff)
  then have "keyed (db s') k = (case item_for k its of None \<Rightarrow> keyed (db s) k | Some it \<Rightarrow> sync_value None it)" for k
    using keyed_add_items[OF eff(6,2) assms(3), of k] eff(1) by (auto split: option.splits)
  moreover have "db s' = db s" if "list_all (\<lambda>it. \<not> valid_item it) its"
    using that v eff(1) by (cases its) auto
  ultimately show "wrote its s s'"
    using wf_ingest_many[OF assms(2,1)] keepsD[OF ingest_many_keeps assms(1)] by (simp add: wrote_def)
qed

lemma wrote_refl: "wf_items (db s) \<Longrightarrow> wrote [] s s"
  by (simp add: wrote_def)

lemma wrote_state: "wrote its s s' \<Longrightarrow> epoch_ok s \<Longrightarrow> epoch_ok s' \<and> wf_items (db s')"
  using epoch_ok_handle[of s' s] by (simp add: wrote_def)

lemma writable_left: "writable (xs @ ys) d \<Longrightarrow> writable xs d"
  by (auto simp add: writable_def map_filter_def)

lemma writable_append:
  assumes "writable (xs @ ys) (db s)" "wrote xs s s1" shows "writable ys (db s1)"
proof -
  have d: "distinct (List.map_filter n_external_id xs @ List.map_filter n_external_id ys)"
    using assms(1) by (simp add: writable_def map_filter_def)
  have "keyed (db s1) k = None" if "it \<in> set ys" "n_external_id it = Some k" for it k
  proof -
    have "k \<in> set (List.map_filter n_external_id ys)" using that keys_of_map_filter by blast
    then have "item_for k xs = None" using d by (auto simp: item_for_None)
    then show ?thesis using assms that by (auto simp: wrote_def writable_def)
  qed
  with d show "writable ys (db s1)" by (auto simp: writable_def)
qed

lemma wrote_append:
  assumes "wrote xs s s1" "wrote ys s1 s2" "writable (xs @ ys) (db s)"
  shows "wrote (xs @ ys) s s2"
proof -
  have d: "distinct (List.map_filter n_external_id xs @ List.map_filter n_external_id ys)"
    using assms(3) by (simp add: writable_def map_filter_def)
  have app: "item_for k (xs @ ys) = (case item_for k xs of None \<Rightarrow> item_for k ys | Some it \<Rightarrow> Some it)" for k
    by (simp add: item_for_def find_append split: option.split)
  have "keyed (db s2) k = (case item_for k (xs @ ys) of
      None \<Rightarrow> keyed (db s) k | Some it \<Rightarrow> sync_value None it)" for k
  proof -
    have "item_for k xs = None \<or> item_for k ys = None" using d by (auto simp: item_for_None)
    then show ?thesis using assms(1,2) by (auto simp: wrote_def app split: option.split)
  qed
  then show ?thesis using assms(1,2) by (auto simp: wrote_def)
qed

definition reported :: "nat \<Rightarrow> report \<Rightarrow> report \<Rightarrow> bool" where
  "reported n rep rep' \<longleftrightarrow> handled rep' = handled rep + n \<and> skipped_filtered rep' = skipped_filtered rep"

lemma reported_append: "reported m a b \<Longrightarrow> reported n b c \<Longrightarrow> reported (m + n) a c"
  by (simp add: reported_def)

lemma reported_counts:
  "reported n rep (count_ingested n rep)" "reported n rep (count_ingested n (count_skipped 0 rep))"
  by (simp_all add: reported_def handled_def)

text \<open>When nothing can be written, nothing counts as ingested.\<close>

definition all_bad :: "new_item list \<Rightarrow> bool" where
  "all_bad its \<longleftrightarrow> list_all (\<lambda>it. \<not> valid_item it) its"

lemma all_bad_valid: "list_all valid_item its \<Longrightarrow> all_bad its \<Longrightarrow> its = []"
  by (cases its) (auto simp: all_bad_def)

lemma ingest_single_wrote:
  assumes "ingest_single rep it s = (Inr rep', s')" "wf_items (db s)" "epoch_ok s" "writable [it] (db s)"
  shows "wrote [it] s s' \<and> reported 1 rep rep' \<and> (all_bad [it] \<longrightarrow> ingested rep' = ingested rep)"
proof (cases "fst (ingest it s)")
  case (Inr x)
  then have run: "ingest it s = (Inr x, s')" and rep: "rep' = count_ingested 1 rep"
    using assms(1) by (auto simp: ingest_single_def split: prod.splits)
  from run obtain v i t where x: "validate_item it = Inr v" "x = stored_item i t it v"
    and d: "db s' = add_item (ext s) x (db s)" "fits x (db s)" by (elim ingest_effect)
  have "valid_item it" using x by (auto simp: valid_item_def)
  moreover have "wf_items (db s')" using d assms(2) by (simp add: wf_items_add)
  moreover have "handle s' = handle s" using keepsD[OF ingest_keeps run] .
  moreover have "external_id x = n_external_id it" "metadata x = n_metadata it" using x by (simp_all add: stored_item_def)
  ultimately show ?thesis
    using rep d by (auto simp: wrote_def reported_def keyed_add sync_value_def all_bad_def split: option.splits)
next
  case (Inl e)
  then obtain f reason where run: "ingest it s = (Inl (Validation f reason), s')" and rep: "rep' = count_failed 1 rep"
    using assms(1) by (auto simp: ingest_single_def split: prod.splits error.splits)
  have "db s' = db s" using run atomic_ingest by (auto simp: atomic_def)
  moreover have "handle s' = handle s" using keepsD[OF ingest_keeps run] .
  moreover have "\<not> valid_item it" using ingest_rejects[OF run assms(3)] .
  ultimately show ?thesis
    using rep assms(2,4) by (auto simp: wrote_def reported_def sync_value_def writable_def)
qed

lemma ingest_each_wrote:
  assumes "foldM ingest_single rep its s = (Inr rep', s')" "wf_items (db s)" "epoch_ok s" "writable its (db s)"
  shows "wrote its s s' \<and> reported (length its) rep rep' \<and> (all_bad its \<longrightarrow> ingested rep' = ingested rep)"
  using assms
proof (induction its arbitrary: rep s)
  case Nil then show ?case by (simp add: wrote_refl reported_def)
next
  case (Cons it its)
  from Cons.prems(1) obtain r1 s1 where one: "ingest_single rep it s = (Inr r1, s1)"
    and rest: "foldM ingest_single r1 its s1 = (Inr rep', s')" by (auto elim!: bindM_InrE)
  have wr: "writable ([it] @ its) (db s)" using Cons.prems(4) by simp
  note w1 = writable_left[OF wr]
  have 1: "wrote [it] s s1" "reported 1 rep r1" "all_bad [it] \<longrightarrow> ingested r1 = ingested rep"
    using ingest_single_wrote[OF one Cons.prems(2,3) w1] by auto
  have 2: "wrote its s1 s' \<and> reported (length its) r1 rep' \<and> (all_bad its \<longrightarrow> ingested rep' = ingested r1)"
    using Cons.IH[OF rest] wrote_state[OF 1(1) Cons.prems(3)] writable_append[OF wr 1(1)] by blast
  have "wrote ([it] @ its) s s'" using wrote_append[OF 1(1)] 2 wr by blast
  moreover have "reported (1 + length its) rep rep'" using reported_append[OF 1(2)] 2 by blast
  ultimately show ?case using 1(3) 2 by (simp add: all_bad_def)
qed

lemma retry_wrote:
  assumes "retry_unconflicted its rep s = (Inr rep', s')" "wf_items (db s)" "writable its (db s)"
  shows "wrote its s s' \<and> reported (length its) rep rep' \<and> (all_bad its \<longrightarrow> ingested rep' = ingested rep)"
proof -
  let ?keep = "\<lambda>found. filter (\<lambda>i. \<not> (case n_external_id i of None \<Rightarrow> False | Some k \<Rightarrow> k \<in> found)) its"
  from assms(1) obtain found s1 written where
    ex: "existing_external_ids (List.map_filter n_external_id its) s = (Inr found, s1)" and
    run: "ingest_many (?keep found) s1 = (Inr written, s')" and
    rep: "rep' = count_ingested (length written) (count_skipped (length its - length (?keep found)) rep)"
    unfolding retry_unconflicted_def Let_def by (auto elim!: bindM_InrE)
  have k: "keeps handle (existing_external_ids ks)" for ks
    unfolding existing_external_ids_def by (intro keeps_intros handle_updates)
  have s1: "db s1 = db s" "handle s1 = handle s"
    using existing_external_ids_effect(1)[OF ex] keepsD[OF k ex] by simp_all
  have "found = {}"
    using existing_external_ids_effect(2)[OF ex] assms(3) by (auto simp: keys_of_map_filter writable_def)
  then have keep: "?keep found = its" by (auto simp: filter_id_conv split: option.splits)
  have "distinct (List.map_filter n_external_id its)" using assms(3) by (simp add: writable_def)
  then have w: "wrote its s1 s'" "length written = length its" "list_all valid_item its"
    using ingest_many_wrote[of its s1 written s'] run s1 assms(2) unfolding keep by simp_all
  have "rep' = count_ingested (length its) (count_skipped 0 rep)"
    using rep w(2) unfolding keep by simp
  then show ?thesis
    using wrote_start[OF s1 w(1)] all_bad_valid[OF w(3)] reported_counts(2)[of "length its" rep] by auto
qed

lemma write_batch_wrote:
  assumes "write_batch its rep s = (Inr rep', s')" "wf_items (db s)" "epoch_ok s" "writable its (db s)"
  shows "wrote its s s' \<and> reported (length its) rep rep' \<and> (all_bad its \<longrightarrow> ingested rep' = ingested rep)"
proof -
  obtain r s1 where run: "ingest_many its s = (r, s1)" by fastforce
  have dist: "distinct (List.map_filter n_external_id its)" using assms(4) by (simp add: writable_def)
  show ?thesis
  proof (cases r)
    case (Inr out)
    then have "s' = s1" "rep' = count_ingested (length out) rep" using assms(1) run by (auto simp: write_batch_def)
    then show ?thesis
      using ingest_many_wrote[OF run[unfolded Inr] assms(2) dist] all_bad_valid
        reported_counts(1)[of "length its" rep] by auto
  next
    case (Inl e)
    have s1: "db s1 = db s" "handle s1 = handle s"
      using run[unfolded Inl] atomic_ingest_many keepsD[OF ingest_many_keeps run] by (auto simp: atomic_def)
    note same = wrote_start[OF s1]
    consider f reason where "e = Validation f reason" | k where "e = ExternalIdConflict k"
      using assms(1) run Inl by (cases e) (auto simp: write_batch_def)
    then show ?thesis
    proof cases
      case 1
      then have "foldM ingest_single rep its s1 = (Inr rep', s')" using assms(1) run Inl by (simp add: write_batch_def)
      then show ?thesis
        using ingest_each_wrote[of rep its s1] s1 assms(2,3,4) epoch_ok_handle[OF s1(2)] same by simp
    next
      case 2
      then have "retry_unconflicted its rep s1 = (Inr rep', s')" using assms(1) run Inl by (simp add: write_batch_def)
      then show ?thesis using retry_wrote[of its rep s1] s1 assms(2,4) same by simp
    qed
  qed
qed

lemma write_batches_wrote:
  assumes "write_batches its rep s = (Inr rep', s')" "wf_items (db s)" "epoch_ok s" "writable its (db s)"
  shows "wrote its s s' \<and> reported (length its) rep rep' \<and> (all_bad its \<longrightarrow> ingested rep' = ingested rep)"
  using assms
proof (induction its rep arbitrary: s rule: write_batches.induct)
  case (1 its rep)
  show ?case
  proof (cases "its = []")
    case True
    then show ?thesis using 1 by (simp add: write_batches.simps wrote_refl reported_def)
  next
    case False
    let ?n = "min (length its) BATCH_SIZE"
    from 1(2) False obtain r1 s1 where one: "write_batch (take ?n its) rep s = (Inr r1, s1)"
      and rest: "write_batches (drop ?n its) r1 s1 = (Inr rep', s')"
      by (subst (asm) write_batches.simps) (auto simp: Let_def elim!: bindM_InrE)
    have wr: "writable (take ?n its @ drop ?n its) (db s)" using 1(5) by simp
    note w1 = writable_left[OF wr]
    have b: "wrote (take ?n its) s s1" "reported (length (take ?n its)) rep r1"
      "all_bad (take ?n its) \<longrightarrow> ingested r1 = ingested rep"
      using write_batch_wrote[OF one 1(3,4) w1] by auto
    have c: "wrote (drop ?n its) s1 s' \<and> reported (length (drop ?n its)) r1 rep' \<and>
        (all_bad (drop ?n its) \<longrightarrow> ingested rep' = ingested r1)"
      using 1(1)[OF False refl rest] wrote_state[OF b(1) 1(4)] writable_append[OF wr b(1)] by blast
    have "wrote (take ?n its @ drop ?n its) s s'" using wrote_append[OF b(1) _ wr] c by blast
    moreover have "reported (length (take ?n its) + length (drop ?n its)) rep rep'"
      using reported_append[OF b(2)] c by blast
    moreover have "all_bad its = (all_bad (take ?n its) \<and> all_bad (drop ?n its))"
      unfolding all_bad_def by (metis append_take_drop_id list_all_append)
    ultimately show ?thesis using b(3) c by simp
  qed
qed

section \<open>The whole import\<close>

lemma firsts_keys:
  "distinct (List.map_filter n_external_id (firsts A its)) \<and>
   set (List.map_filter n_external_id (firsts A its)) \<inter> A = {}"
proof (induction its arbitrary: A)
  case (Cons it its)
  show ?case
  proof (cases "n_external_id it")
    case (Some k)
    then show ?thesis using Cons[of A] Cons[of "insert k A"] by (auto simp: map_filter_simps)
  qed (use Cons[of A] in \<open>auto simp: map_filter_simps\<close>)
qed (simp add: map_filter_simps)

lemma set_firsts: "set (firsts A its) \<subseteq> set its"
proof (induction its arbitrary: A)
  case (Cons it its)
  show ?case using Cons[of A] Cons[of "insert (the (n_external_id it)) A"] by (auto split: option.splits)
qed simp

lemma item_for_firsts: "item_for k (firsts A its) = (if k \<in> A then None else item_for k its)"
  by (induction its arbitrary: A) (auto split: option.splits)

lemma item_for_new: "item_for k (filter (new_key ex) its) = (if k \<in> ex then None else item_for k its)"
  by (induction its) (auto simp: new_key_def split: option.splits)

lemma writable_new:
  assumes "\<And>it k. it \<in> set cs \<Longrightarrow> n_external_id it = Some k \<Longrightarrow> k \<notin> ex \<Longrightarrow> keyed d k = None"
  shows "writable (filter (new_key ex) (firsts {} cs)) d"
proof -
  have "subseq (filter (new_key ex) its) its" for its by (rule subseq_filter_left)
  then have "subseq (List.map_filter n_external_id (filter (new_key ex) its)) (List.map_filter n_external_id its)" for its
    unfolding map_filter_def by (intro subseq_map subseq_filter)
  then have "distinct (List.map_filter n_external_id (filter (new_key ex) (firsts {} cs)))"
    using distinct_subseq firsts_keys by blast
  then show ?thesis using assms set_firsts[of "{}" cs] by (auto simp: writable_def new_key_def)
qed

lemma source_length: "source_errors src + length (candidates src) = length (src_items src)"
proof -
  have "length (filter (\<lambda>r. case r of Inl e \<Rightarrow> True | Inr it \<Rightarrow> False) rs)
      + length (List.map_filter (\<lambda>r. case r of Inl e \<Rightarrow> None | Inr it \<Rightarrow> Some (f it)) rs) = length rs"
    for f and rs :: "(ingest_error + new_item) list"
    by (induction rs) (auto simp: map_filter_simps split: sum.splits)
  then show ?thesis by (simp add: source_errors_def candidates_def)
qed

text \<open>The three phases of a run that returns a report.\<close>

lemma ingest_source_phases:
  assumes "ingest_source src False s = (Inr rep, s')" "wf_items (db s)"
  obtains s1 ex rep1 acc s2 where "db s1 = db s" "handle s1 = handle s"
    "\<And>k. k \<in> ex \<longleftrightarrow> keyed (db s) k \<noteq> None \<and> item_for k (candidates src) \<noteq> None"
    "foldM (consider_item ex False)
       (default_report\<lparr>failed := source_errors src, skipped_filtered := src_filtered src\<rparr>, [], {})
       (candidates src) s1 = (Inr (rep1, filter (new_key ex) (firsts {} (candidates src)), acc), s2)"
    "write_batches (filter (new_key ex) (firsts {} (candidates src))) rep1 s2 = (Inr rep, s')"
    "handle s2 = handle s"
proof -
  let ?cs = "candidates src"
    and ?rep0 = "default_report\<lparr>failed := source_errors src, skipped_filtered := src_filtered src\<rparr>"
  from assms(1) obtain ex s1 rep1 fresh acc s2 where
    ex: "existing_external_ids (List.map_filter n_external_id ?cs) s = (Inr ex, s1)" and
    loop: "foldM (consider_item ex False) (?rep0, [], {}) ?cs s1 = (Inr (rep1, fresh, acc), s2)" and
    wr: "write_batches fresh rep1 s2 = (Inr rep, s')"
    unfolding ingest_source_def by (auto simp: Let_def elim!: bindM_InrE)
  have k: "keeps handle (existing_external_ids ks)" for ks
    unfolding existing_external_ids_def by (intro keeps_intros handle_updates)
  have s1: "db s1 = db s" "handle s1 = handle s"
    using existing_external_ids_effect(1)[OF ex] keepsD[OF k ex] by simp_all
  have mem: "k \<in> ex \<longleftrightarrow> keyed (db s) k \<noteq> None \<and> item_for k ?cs \<noteq> None" for k
    using existing_external_ids_effect(2)[OF ex] by (auto simp: item_for_None)
  have c: "keeps handle (consider_item ex False p it)" for p it
    unfolding consider_item_def get_by_external_id_def Let_def
    by (cases p; cases "n_external_id it")
      (auto intro!: keeps_intros ingest_replacing_keeps split: bool.splits option.splits)
  have f: "keeps handle (foldM (consider_item ex False) p its)" for p its
    by (induction its arbitrary: p) (auto intro!: keeps_intros c)
  have "handle s2 = handle s" using keepsD[OF f loop] s1 by simp
  moreover have "fresh = filter (new_key ex) (firsts {} ?cs)"
    using consider_loop[OF loop] assms(2) s1 mem by simp
  ultimately show ?thesis using that[OF s1 mem] loop wr by blast
qed

text \<open>A loop that finds every stored item up to date writes nothing.\<close>

lemma consider_loop_idle:
  assumes "foldM (consider_item ex dry) (rep, fresh, acc) its s = (Inr (rep', fresh', acc'), s')"
    "wf_items (db s)" "\<And>k. k \<in> ex \<Longrightarrow> k \<notin> acc \<Longrightarrow> keyed (db s) k \<noteq> None"
    "\<And>k it old. item_for k its = Some it \<Longrightarrow> k \<notin> acc \<Longrightarrow> keyed (db s) k = Some old \<Longrightarrow> \<not> outdated old it"
  shows "db s' = db s \<and> ingested rep' = ingested rep"
  using assms
proof (induction its arbitrary: rep fresh acc s)
  case (Cons it its)
  from Cons.prems(1) obtain r1 f1 a1 s1 where
    one: "consider_item ex dry (rep, fresh, acc) it s = (Inr (r1, f1, a1), s1)" and
    rest: "foldM (consider_item ex dry) (r1, f1, a1) its s1 = (Inr (rep', fresh', acc'), s')"
    by (auto elim!: bindM_InrE)
  have same: "db s1 = db s \<and> ingested r1 = ingested rep \<and>
      (a1 = acc \<or> (\<exists>k. n_external_id it = Some k \<and> a1 = insert k acc)) \<and>
      (\<forall>k. n_external_id it = Some k \<longrightarrow> k \<in> a1)"
  proof (cases "\<exists>k. n_external_id it = Some k \<and> k \<notin> acc \<and> k \<in> ex")
    case True
    then obtain k old where k: "n_external_id it = Some k" "k \<notin> acc" "k \<in> ex" "keyed (db s) k = Some old"
      using Cons.prems(3) by blast
    moreover have "\<not> outdated old it" using Cons.prems(4)[of k it old] k by simp
    ultimately show ?thesis using consider_stored[OF one Cons.prems(2) k] by simp
  next
    case False
    then consider "n_external_id it = None" | k where "n_external_id it = Some k" "k \<in> acc"
      | k where "n_external_id it = Some k" "k \<notin> acc" "k \<notin> ex" by (cases "n_external_id it") auto
    then show ?thesis using one by cases (auto simp: consider_simps)
  qed
  have "\<not> outdated old i" if "item_for k its = Some i" "k \<notin> a1" "keyed (db s1) k = Some old" for k i old
  proof -
    have "n_external_id it \<noteq> Some k" "k \<notin> acc" using same that(2) by auto
    then show ?thesis using Cons.prems(4)[of k i old] that same by simp
  qed
  then show ?case
    using Cons.IH[OF rest] same Cons.prems(2,3) by auto
qed simp

lemma ingest_source_sync:
  assumes "wf_items (db s)" "epoch_ok s" "ingest_source src False s = (Inr rep, s')"
  shows "wf_items (db s') \<and>
    keyed (db s') = (\<lambda>k. case item_for k (candidates src) of
        None \<Rightarrow> keyed (db s) k | Some it \<Rightarrow> sync_value (keyed (db s) k) it) \<and>
    ingested rep + skipped_existing rep + failed rep = length (src_items src) \<and>
    skipped_filtered rep = src_filtered src"
proof -
  let ?cs = "candidates src"
  obtain s1 ex rep1 acc s2 where s1: "db s1 = db s" "handle s1 = handle s" "handle s2 = handle s"
    and ex: "\<And>k. k \<in> ex \<longleftrightarrow> keyed (db s) k \<noteq> None \<and> item_for k ?cs \<noteq> None"
    and loop: "foldM (consider_item ex False)
       (default_report\<lparr>failed := source_errors src, skipped_filtered := src_filtered src\<rparr>, [], {})
       ?cs s1 = (Inr (rep1, filter (new_key ex) (firsts {} ?cs), acc), s2)"
    and wr: "write_batches (filter (new_key ex) (firsts {} ?cs)) rep1 s2 = (Inr rep, s')"
    by (rule ingest_source_phases[OF assms(3,1)]) blast
  note L = consider_loop[OF loop, unfolded s1(1), OF assms(1)]
  have L1: "wf_items (db s2)" "handled rep1 + length (filter (new_key ex) (firsts {} ?cs)) = source_errors src + length ?cs"
    "skipped_filtered rep1 = src_filtered src"
    and L2: "keyed (db s2) k = (case item_for k ?cs of
        Some it \<Rightarrow> if k \<in> ex then sync_value (keyed (db s) k) it else keyed (db s) k
      | None \<Rightarrow> keyed (db s) k)" for k
    using L ex by (auto simp: same_sides_def default_report_def handled_def cong: option.case_cong)
  have "writable (filter (new_key ex) (firsts {} ?cs)) (db s2)"
  proof (rule writable_new)
    fix it k assume "it \<in> set ?cs" "n_external_id it = Some k" "k \<notin> ex"
    then show "keyed (db s2) k = None" using L2[of k] ex[of k] item_for_None[of k ?cs] keys_of_map_filter[of k ?cs]
      by (auto split: option.splits)
  qed
  from write_batches_wrote[OF wr L1(1) _ this] epoch_ok_handle[OF s1(3)] assms(2)
  have w: "wrote (filter (new_key ex) (firsts {} ?cs)) s2 s'"
    and r: "reported (length (filter (new_key ex) (firsts {} ?cs))) rep1 rep" by blast+
  have "keyed (db s') k = (case item_for k ?cs of
      None \<Rightarrow> keyed (db s) k | Some it \<Rightarrow> sync_value (keyed (db s) k) it)" for k
    using w L2[of k] ex[of k] by (auto simp: wrote_def item_for_new item_for_firsts split: option.splits)
  moreover have "ingested rep + skipped_existing rep + failed rep = length (src_items src)"
    using r L1(2) source_length[of src] by (simp add: reported_def handled_def)
  ultimately show ?thesis using w r L1(3) by (auto simp: wrote_def reported_def)
qed

lemma distinct_new: "distinct (List.map_filter n_external_id (filter (new_key ex) (firsts {} cs)))"
  using writable_new[of cs ex empty_db] by (simp add: writable_def keyed_def empty_db_def)

lemma firsts_unique:
  "it \<in> set its \<Longrightarrow> n_external_id it = Some k \<Longrightarrow> distinct (List.map_filter n_external_id its) \<Longrightarrow>
   item_for k its = Some it"
proof (induction its)
  case (Cons i its)
  have "k \<in> set (List.map_filter n_external_id its)" if "it \<in> set its"
    using that Cons.prems(2) keys_of_map_filter by blast
  then show ?case using Cons by (auto simp: map_filter_simps split: option.splits)
qed simp

section \<open>Properties\<close>

text \<open>
  C22: An import that returns a report has synchronised the store: seen as a map from external ids to
  metadata, each key of the source has the value the first item with that key calls for (the item's
  if the key was free and the item valid, the item's if the stored hash differs, the stored one
  otherwise) and every other key is untouched. Every input is counted exactly once.
\<close>

theorem ingest_source_syncs:
  assumes "wf_items (db s)" "epoch_ok s" "ingest_source src False s = (Inr rep, s')"
  shows "wf_items (db s') \<and>
    keyed (db s') = (\<lambda>k. case item_for k (candidates src) of
        None \<Rightarrow> keyed (db s) k | Some it \<Rightarrow> sync_value (keyed (db s) k) it) \<and>
    ingested rep + skipped_existing rep + failed rep = length (src_items src) \<and>
    skipped_filtered rep = src_filtered src"
  using ingest_source_sync[OF assms] .

text \<open>
  Imports are idempotent. When every item of a source has an external id and an import has
  returned a report, running the import again, in this or a later process, writes nothing and
  reports nothing as ingested, whatever the items are: new, changed, repeated or invalid.
\<close>

theorem ingest_source_idempotent:
  assumes "wf_items (db s)" "epoch_ok s" "ingest_source src False s = (Inr rep, s1)"
    "\<forall>it \<in> set (candidates src). n_external_id it \<noteq> None"
    "db s2 = db s1" "epoch_ok s2" "ingest_source src False s2 = (Inr rep', s3)"
  shows "db s3 = db s1 \<and> ingested rep' = 0"
proof -
  let ?cs = "candidates src"
  note S = ingest_source_sync[OF assms(1,2,3)]
  have wf: "wf_items (db s2)" using S assms(5) by simp
  have up: "sync_value (keyed (db s2) k) it = keyed (db s2) k" if "item_for k ?cs = Some it" for k it
    using S that assms(5) by simp
  obtain t1 ex rep1 acc t2 where t1: "db t1 = db s2" "handle t1 = handle s2" "handle t2 = handle s2"
    and ex: "\<And>k. k \<in> ex \<longleftrightarrow> keyed (db s2) k \<noteq> None \<and> item_for k ?cs \<noteq> None"
    and loop: "foldM (consider_item ex False)
       (default_report\<lparr>failed := source_errors src, skipped_filtered := src_filtered src\<rparr>, [], {})
       ?cs t1 = (Inr (rep1, filter (new_key ex) (firsts {} ?cs), acc), t2)"
    and wr: "write_batches (filter (new_key ex) (firsts {} ?cs)) rep1 t2 = (Inr rep', s3)"
    by (rule ingest_source_phases[OF assms(7) wf]) blast
  let ?fresh = "filter (new_key ex) (firsts {} ?cs)"
  have "\<not> outdated old it" if "item_for k ?cs = Some it" "keyed (db s2) k = Some old" for k it old
    using up[OF that(1)] that(2)
    by (auto simp: sync_value_def outdated_def hashes_differ_def split: if_splits option.splits)
  then have idle: "db t2 = db s2" "ingested rep1 = 0"
    using consider_loop_idle[OF loop, unfolded t1(1), OF wf] ex by (auto simp: default_report_def)
  have "\<not> valid_item it \<and> (\<forall>k. n_external_id it = Some k \<longrightarrow> keyed (db t2) k = None)" if "it \<in> set ?fresh" for it
  proof -
    have "it \<in> set ?cs" using that set_firsts by fastforce
    then obtain k where k: "n_external_id it = Some k" using assms(4) by auto
    have "item_for k ?fresh = Some it"
      using that k firsts_unique[of it ?fresh k] firsts_keys[of "{}" ?cs] by (simp add: distinct_new)
    then have "k \<notin> ex" "item_for k ?cs = Some it"
      by (auto simp: item_for_new item_for_firsts split: if_splits)
    then show ?thesis using up[of k it] ex[of k] k idle by (auto simp: sync_value_def split: if_splits)
  qed
  then have bad: "all_bad ?fresh" "writable ?fresh (db t2)"
    using distinct_new[of ex ?cs] by (auto simp: all_bad_def list_all_iff writable_def)
  have "epoch_ok t2" using assms(6) epoch_ok_handle[OF t1(3)] by simp
  from write_batches_wrote[OF wr _ this bad(2)] wf idle bad(1)
  show ?thesis using assms(5) by (auto simp: wrote_def all_bad_def)
qed

text \<open>
  One bad replacement stops the import. An item whose key is stored with another hash is written
  without the tolerance the new items get: when it is invalid the whole run ends with its validation
  error, and the items not yet written are left out, although the code documents that validation
  rejects are counted in the report.
\<close>

theorem replacement_rejection_aborts:
  assumes "faults s = []" "\<not> read_only s" "k \<in> set (ext_ids (db s))"
    "get_by_external_id k s = (Inr (Some prior), s)"
    "candidates src = it # its" "n_external_id it = Some k" "outdated (metadata prior) it"
    "validate_item it = Inl e"
  shows "fst (ingest_source src False s) = Inl e"
proof -
  have "validate_item (it\<lparr>n_supersedes := x\<rparr>) = validate_item it" for x by (simp add: validate_item_def)
  then have stop: "ingest_replacing it i s = (Inl e, s)" for i
    using assms(2,8) by (simp add: ingest_replacing_def assert_writable_def bindM_def Let_def lift_def)
  have "k \<in> ex \<Longrightarrow> consider_item ex False (rep, [], {}) it s = (Inl e, s)" for ex rep
    using assms(4,6,7) stop by (simp add: consider_item_def bindM_def outdated_def)
  moreover have "\<exists>ex. existing_external_ids (List.map_filter n_external_id (it # its)) s = (Inr ex, s) \<and> k \<in> ex"
    using existing_no_faults[OF assms(1)] assms(3,6) by (simp add: map_filter_simps)
  ultimately show ?thesis
    by (auto simp: ingest_source_def assms(5) bindM_def)
qed

end
