(* ===== verification/Driver_Runs.thy ===== *)
theory Driver_Runs
  imports Driver
begin

text \<open>
  Imports applied to concrete sources: a source with one keyed item, run twice on the fresh sample
  store, and the two ways a rejected item is treated.
\<close>

definition hashed_item :: "string \<Rightarrow> new_item" where
  "hashed_item h = (new_item_text ''abc'')\<lparr>n_external_id := Some ''k'', n_metadata := JObject [(''sha256'', JString h)]\<rparr>"

definition one_item :: "new_item \<Rightarrow> import_source" where
  "one_item it = \<lparr>src_items = [Inr it, Inl (Io_Error ''unreadable'')], src_filtered = 2, src_default_scope = (\<lambda>_. None)\<rparr>"

lemma candidates_one [simp]:
  "n_scope it = None \<Longrightarrow> candidates (one_item it) = [it]" "source_errors (one_item it) = 1"
  "src_filtered (one_item it) = 2" "length (src_items (one_item it)) = 2"
  by (simp_all add: candidates_def one_item_def source_errors_def map_filter_simps)

lemma hashed_item_simps [simp]:
  "n_scope (hashed_item h) = None" "n_external_id (hashed_item h) = Some ''k''"
  "n_supersedes (hashed_item h) = None" "n_metadata (hashed_item h) = JObject [(''sha256'', JString h)]"
  "sha256_of (JObject [(''sha256'', JString h)]) = Some h"
  by (simp_all add: hashed_item_def new_item_text_def sha256_of_def json_get_def)

lemma validate_hashed: "validate_item (hashed_item h) = Inr \<lparr>v_tags = [], v_scope = None\<rparr>"
  by (simp add: hashed_item_def new_item_text_def validate_item_Inr good_fields_def
      contains_nul_def good_external_id_def)

definition hashed_stored :: "string \<Rightarrow> item" where
  "hashed_stored h = stored_item 48 3 (hashed_item h) \<lparr>v_tags = [], v_scope = None\<rparr>"

definition hashed_store :: "string \<Rightarrow> store" where
  "hashed_store h = sample_store\<lparr>ticks := 4, draws := 1, db := add_item sample_ext (hashed_stored h) empty_db\<rparr>"

lemma insert_outcome_hashed: "insert_outcome (hashed_item h) 48 empty_db = Inr ()"
  by (simp add: insert_outcome_Inr hashed_item_def new_item_text_def empty_db_def item_ids_def ext_ids_def
      map_filter_simps sql_length_def is_continuation_def)

lemma run_many_hashed: "ingest_many [hashed_item h] sample_store = (Inr [hashed_stored h], hashed_store h)"
  using run_many_one[OF validate_hashed insert_outcome_hashed] by (simp add: hashed_stored_def hashed_store_def)

definition first_report :: report where
  "first_report = \<lparr>ingested = 1, skipped_existing = 0, skipped_filtered = 2, failed = 1\<rparr>"

lemma import_new: "ingest_source (one_item (hashed_item h)) False sample_store = (Inr first_report, hashed_store h)"
  by (simp add: ingest_source_def existing_no_faults bindM_def consider_simps ret_def map_filter_simps
      write_batches.simps[of "[_]"] write_batches.simps[of "[]"] BATCH_SIZE_def write_batch_def run_many_hashed
      default_report_def first_report_def ext_ids_def empty_db_def)

lemma hashed_store_simps [simp]:
  "faults (hashed_store h) = []" "db (hashed_store h) = add_item sample_ext (hashed_stored h) empty_db"
  "ext (hashed_store h) = sample_ext" "read_only (hashed_store h) = False"
  "item_id (hashed_stored h) = 48" "external_id (hashed_stored h) = Some ''k''"
  "metadata (hashed_stored h) = JObject [(''sha256'', JString h)]"
  by (simp_all add: hashed_store_def hashed_stored_def stored_item_def)

lemma fits_hashed: "fits (hashed_stored h) empty_db"
  using validate_item_stored(2)[OF validate_hashed, of 48 3 h empty_db]
  by (simp add: hashed_stored_def keyed_None[symmetric] keyed_def empty_db_def item_ids_def)

lemma lookup_hashed: "get_by_external_id ''k'' (hashed_store h) = (Inr (Some (hashed_stored h)), hashed_store h)"
proof -
  have r: "find (\<lambda>r. r_external_id r = Some ''k'') (items (db (hashed_store h))) = Some (row_of_item sample_ext (hashed_stored h))"
    by (simp add: add_item_def empty_db_def row_of_item_def)
  have "get 48 (hashed_store h) = (Inr (hashed_stored h), hashed_store h)"
    by (simp add: get_no_faults item_at_add fits_hashed as_read_def serde_readable_def)
  then show ?thesis using r
    by (simp add: get_by_external_id_def bindM_def select_no_faults ret_def get_def) (simp add: row_of_item_def)
qed

definition second_report :: report where
  "second_report = \<lparr>ingested = 0, skipped_existing = 1, skipped_filtered = 2, failed = 1\<rparr>"

lemma import_again: "ingest_source (one_item (hashed_item h)) False (hashed_store h) = (Inr second_report, hashed_store h)"
proof -
  have k: "ext_ids (add_item sample_ext (hashed_stored h) empty_db) = [''k'']"
    by simp (simp add: ext_ids_def empty_db_def map_filter_simps)
  show ?thesis
    by (simp add: ingest_source_def existing_no_faults bindM_def consider_item_def lookup_hashed k ret_def
        map_filter_simps hashes_differ_def write_batches.simps default_report_def second_report_def Let_def)
qed

lemma epoch_samples: "epoch_ok sample_store" "epoch_ok (hashed_store h)"
  by (simp_all add: epoch_ok_def sample_store_def hashed_store_def sample_ext_def)

theorem ingest_source_syncs_witness:
  "keyed (db (hashed_store ''v1'')) ''k'' = Some (JObject [(''sha256'', JString ''v1'')])"
  using ingest_source_syncs[OF _ epoch_samples(1) import_new, of "''v1''"]
  by (simp add: fun_eq_iff sync_value_def valid_item_def validate_hashed) (simp add: keyed_def empty_db_def)

theorem ingest_source_idempotent_witness:
  "db (snd (ingest_source (one_item (hashed_item ''v1'')) False (hashed_store ''v1''))) = db (hashed_store ''v1'')"
  using ingest_source_idempotent[OF _ epoch_samples(1) import_new _ refl epoch_samples(2) import_again]
  by (simp add: import_again)

text \<open>An item without content, under the stored key and with another hash.\<close>

definition bad_item :: "string \<Rightarrow> new_item" where
  "bad_item h = (hashed_item h)\<lparr>n_content := []\<rparr>"

lemma bad_item_simps [simp]:
  "n_scope (bad_item h) = None" "n_external_id (bad_item h) = Some ''k''"
  "n_metadata (bad_item h) = JObject [(''sha256'', JString h)]"
  "validate_item (bad_item h) = Inl (Validation ''content'' MustBeNonEmpty)"
  by (simp_all add: bad_item_def validate_item_def check_content_def)

theorem replacement_rejection_aborts_witness:
  "fst (ingest_source (one_item (bad_item ''new'')) False (hashed_store ''old'')) =
     Inl (Validation ''content'' MustBeNonEmpty)"
  using replacement_rejection_aborts[OF _ _ _ lookup_hashed[of "''old''"], of "one_item (bad_item ''new'')" "bad_item ''new''"]
  by (simp add: outdated_def hashes_differ_def)

text \<open>
  A dry run does not validate: it counts as ingested a new item that the real run counts as failed,
  although the code documents its counts to be those of the real run.
\<close>

lemma dry_run_counts_rejected:
  "map_sum id ingested (fst (ingest_source (one_item (bad_item h)) True sample_store)) = Inr 1"
  "map_sum id ingested (fst (ingest_source (one_item (bad_item h)) False sample_store)) = Inr 0"
  by (simp_all add: ingest_source_def existing_no_faults bindM_def consider_simps ret_def map_filter_simps
      write_batches.simps[of "[_]"] write_batches.simps[of "[]"] BATCH_SIZE_def write_batch_def
      ingest_many_def assert_writable_def lift_def ingest_single_def ingest_def
      default_report_def ext_ids_def empty_db_def)

end
