(* ===== verification/Retrieve.thy ===== *)
theory Retrieve
  imports Query Hybrid
begin

text \<open>
  \<open>singularmem-retrieve/src/retriever.rs\<close>: a hybrid search followed by reading the items found,
  which gives the memory blocks that the adapters render. Elapsed times are left out.
\<close>

section \<open>Blocks\<close>

datatype retrieve_error = Search_Error search_error | Core_Error error | Empty_Query

record memory_block =
  mb_id :: ulid
  mb_content :: string
  mb_score :: rat
  mb_score_kind :: score_kind
  mb_source :: "string option"
  mb_tags :: "string list"
  mb_created_at :: timestamp
  mb_scope :: "string option"

record retrieved_context =
  rc_blocks :: "memory_block list"
  rc_query :: string
  rc_total_considered :: nat

record retrieve_options =
  max_blocks :: nat
  min_score :: rat
  ro_search :: hybrid_options
  ro_scope :: "scope_filter option"

definition default_retrieve_options :: retrieve_options where
  "default_retrieve_options =
    \<lparr>max_blocks = 10, min_score = 0, ro_search = default_hybrid_options, ro_scope = None\<rparr>"

definition memory_block_of :: "rat \<Rightarrow> score_kind \<Rightarrow> item \<Rightarrow> memory_block" where
  "memory_block_of score kind it =
    \<lparr>mb_id = item_id it, mb_content = content it, mb_score = score, mb_score_kind = kind,
     mb_source = source it, mb_tags = tags it, mb_created_at = created_at it, mb_scope = scope it\<rparr>"

section \<open>Retrieval\<close>

text \<open>
  \<open>impl ScopeLookup for Store\<close>: a store error counts as no scope. The lookups made while the search
  runs see the state the search started from.
\<close>

definition store_lookup :: "store \<Rightarrow> scope_lookup" where
  "store_lookup s i = (case fst (scope_of i s) of Inl e \<Rightarrow> None | Inr sc \<Rightarrow> sc)"

definition block_of_hit :: "hybrid_hit \<Rightarrow> memory_block op" where
  "block_of_hit h =
     bindM (get (hh_id h)) (\<lambda>it.
     ret ((memory_block_of (hh_score h) (hh_kind h) it)\<lparr>mb_id := hh_id h\<rparr>))"

definition retrieve ::
  "searcher \<Rightarrow> string \<Rightarrow> retrieve_options \<Rightarrow> store \<Rightarrow> (retrieve_error + retrieved_context) \<times> store"
where
  "retrieve sr q opts s =
     (if trim q = [] then (Inl Empty_Query, s)
      else
        let search_opts = (ro_search opts)\<lparr>hy_scope := ro_scope opts\<rparr>;
            used = (if ro_scope opts \<noteq> None \<and> lookup sr = None
                    then sr\<lparr>lookup := Some (store_lookup s)\<rparr> else sr)
        in case search used q search_opts of
             Inl e \<Rightarrow> (Inl (Search_Error e), s)
           | Inr res \<Rightarrow>
               (case mapM block_of_hit
                       (take (max_blocks opts) (filter (\<lambda>h. min_score opts \<le> hh_score h) (hr_hits res))) s of
                  (Inl e, s') \<Rightarrow> (Inl (Core_Error e), s')
                | (Inr blocks, s') \<Rightarrow>
                    (Inr \<lparr>rc_blocks = blocks, rc_query = q, rc_total_considered = hr_total_fused res\<rparr>, s')))"

section \<open>What a retrieval returns\<close>

text \<open>The scope the store has on record for an id.\<close>

definition scope_in :: "database \<Rightarrow> ulid \<Rightarrow> string option" where
  "scope_in d i = Option.bind (find_row i d) r_scope"

lemma store_lookup_law: "lookup_law (scope_in (db s)) (store_lookup s)"
proof -
  have "scope_of i s = (Inr sc, s') \<Longrightarrow> sc = scope_in (db s) i" for i sc s'
    by (auto simp: scope_of_def scope_in_def fail_def elim!: bindM_InrE select_InrE
        split: option.splits)
      (auto simp: ret_def)
  then show ?thesis
    by (auto simp: lookup_law_def store_lookup_def split: sum.splits) (metis prod.collapse)
qed

lemma block_of_hit_Inr:
  assumes "block_of_hit h s = (Inr b, s')"
  obtains it where "get (hh_id h) s = (Inr it, s')" "item_at (ext s) (db s) (hh_id h) = Some it"
    "b = memory_block_of (hh_score h) (hh_kind h) it"
proof -
  from assms obtain it where g: "get (hh_id h) s = (Inr it, s')"
    and b: "b = (memory_block_of (hh_score h) (hh_kind h) it)\<lparr>mb_id := hh_id h\<rparr>"
    by (auto simp: ret_def block_of_hit_def elim!: bindM_InrE)
  have "item_id it = hh_id h" using item_at_id[OF get_Inr[OF g]] .
  then show ?thesis using that[OF g get_Inr[OF g]] b by (simp add: memory_block_of_def)
qed

lemma mapM_blocks:
  assumes "mapM block_of_hit hs s = (Inr bs, s')"
  shows "view s' = view s \<and> list_all2 (\<lambda>h b. \<exists>it. item_at (ext s) (db s) (hh_id h) = Some it \<and>
    b = memory_block_of (hh_score h) (hh_kind h) it) hs bs"
  using assms
proof (induction hs arbitrary: s bs)
  case Nil then show ?case by (simp add: ret_def)
next
  case (Cons h hs)
  then obtain b s1 bs' where one: "block_of_hit h s = (Inr b, s1)"
    and rest: "mapM block_of_hit hs s1 = (Inr bs', s')" and bs: "bs = b # bs'"
    by (auto simp: ret_def elim!: bindM_InrE)
  obtain it where it: "get (hh_id h) s = (Inr it, s1)" "item_at (ext s) (db s) (hh_id h) = Some it"
    "b = memory_block_of (hh_score h) (hh_kind h) it"
    by (rule block_of_hit_Inr[OF one])
  have "view s1 = view s" using get_view[OF it(1)] .
  then show ?case using Cons.IH[OF rest] it bs by (auto simp: view_def)
qed

lemma block_ids:
  "list_all2 (\<lambda>h b. \<exists>it. item_at x d (hh_id h) = Some it \<and> b = memory_block_of (hh_score h) (hh_kind h) it) hs bs \<Longrightarrow>
   map mb_id bs = map hh_id hs"
  by (induction rule: list_all2_induct) (auto simp: memory_block_of_def dest: item_at_id)

lemma block_from_hit:
  "list_all2 (\<lambda>h b. \<exists>it. P h it \<and> Q h it b) hs bs \<Longrightarrow> b \<in> set bs \<Longrightarrow> \<exists>h \<in> set hs. \<exists>it. P h it \<and> Q h it b"
  by (induction rule: list_all2_induct) auto

lemma scope_of_item:
  "item_at x d i = Some it \<Longrightarrow> scope_in d i = scope it"
  by (auto simp: item_at_Some scope_in_def item_of_row_def)

section \<open>Properties\<close>


lemma item_at_sample: "item_at sample_ext (add_item sample_ext sample_stored empty_db) 48 = Some sample_stored"
  by (simp add: item_at_add fits_sample)

definition found_lexical :: lexical where
  "found_lexical q opts = Inr \<lparr>lr_hits = if lo_scope opts = None
       then take (lo_limit opts) [\<lparr>lh_id = 48, lh_score = 2, lh_snippet = None\<rparr>] else [], lr_total_matched = 1\<rparr>"

abbreviation found_searcher :: searcher where
  "found_searcher \<equiv> \<lparr>lexical = Some found_lexical, semantic = None, lookup = None\<rparr>"

lemma run_retrieve_sample:
  "retrieve found_searcher ''a'' default_retrieve_options sample_store_1 =
     (Inr \<lparr>rc_blocks = [memory_block_of 2 Bm25 sample_stored], rc_query = ''a'', rc_total_considered = 1\<rparr>,
      sample_store_1)"
proof -
  have "trim ''a'' = ''a''" by code_simp
  then show ?thesis
    by (simp add: retrieve_def default_retrieve_options_def default_hybrid_options_def search_def Let_def
        search_lexical_only_def found_lexical_def lexical_hit_of_def enumerate_simps block_of_hit_def bindM_def
        get_no_faults item_at_sample ret_def) (simp add: memory_block_of_def)
qed


end
