(* ===== verification/Wakeup.thy ===== *)
theory Wakeup
  imports Retrieve Paths
begin

text \<open>
  \<open>singularmem-retrieve/src/wakeup.rs\<close>: the context an editor session starts with. The newest items
  of a project's scopes, oldest first, are rendered by an adapter; blocks are dropped from the old
  end until the text fits a budget of bytes.
\<close>

section \<open>The scopes of a project\<close>

definition EDITOR_PREFIXES :: "string list" where
  "EDITOR_PREFIXES = [''claude-code'', ''codex'', ''cursor'']"

text \<open>\<open>canon\<close> is the system's \<open>canonicalize\<close>, which may fail.\<close>

definition project_base :: "(string \<Rightarrow> string option) \<Rightarrow> string \<Rightarrow> string option" where
  "project_base canon dir =
     (case file_name dir of
        Some b \<Rightarrow> Some b
      | None \<Rightarrow> file_name (case canon dir of None \<Rightarrow> dir | Some c \<Rightarrow> c))"

definition for_project :: "(string \<Rightarrow> string option) \<Rightarrow> string \<Rightarrow> bool \<Rightarrow> scope_filter list" where
  "for_project canon dir include_files =
     (case project_base canon dir of
        None \<Rightarrow> []
      | Some base \<Rightarrow>
          List.map_filter (\<lambda>p. case descendants_filter (p @ ''/'' @ base) of Inl e \<Rightarrow> None | Inr f \<Rightarrow> Some f)
            (EDITOR_PREFIXES @ (if include_files then [''files''] else [])))"

definition scope_names :: "scope_filter list \<Rightarrow> string list" where
  "scope_names fs = map sf_path fs"

section \<open>Building\<close>

record wakeup_options =
  wk_limit :: nat
  wk_max_bytes :: nat

definition default_wakeup_options :: wakeup_options where
  "default_wakeup_options = \<lparr>wk_limit = 20, wk_max_bytes = 8192\<rparr>"

record wakeup =
  wk_context :: retrieved_context
  wk_total :: nat
  wk_scopes :: "string list"
  wk_shown :: nat

text \<open>\<open>items.retain(|item| seen.insert(item.id))\<close>.\<close>

fun retain_first :: "ulid set \<Rightarrow> item list \<Rightarrow> item list" where
  "retain_first seen [] = []"
| "retain_first seen (it # its) =
     (if item_id it \<in> seen then retain_first seen its
      else it # retain_first (insert (item_id it) seen) its)"

definition newest_first :: "item list \<Rightarrow> item list" where
  "newest_first its = retain_first {} (sort_key (\<lambda>it. - created_at it) its)"

definition build :: "scope_filter list \<Rightarrow> wakeup_options \<Rightarrow> wakeup op" where
  "build fs opts =
     bindM (count_scoped_any fs) (\<lambda>total.
     bindM (mapM (\<lambda>f. recent (Some f) (wk_limit opts)) fs) (\<lambda>found.
     let shown = rev (take (wk_limit opts) (newest_first (concat found))) in
     ret \<lparr>wk_context = \<lparr>rc_blocks = map (memory_block_of 0 Rrf) shown,
            rc_query = ''wake-up:'' @ join '','' (scope_names fs), rc_total_considered = total\<rparr>,
          wk_total = total, wk_scopes = scope_names fs, wk_shown = length shown\<rparr>))"

section \<open>Rendering\<close>

definition em_dash :: string where
  "em_dash = [CHR 0xE2, CHR 0x80, CHR 0x94]"

definition header_for :: "wakeup \<Rightarrow> nat \<Rightarrow> string" where
  "header_for w kept =
     ''# Singularmem wake-up '' @ em_dash @ '' '' @ join '', '' (wk_scopes w) @ '' '' @ em_dash @ '' '' @
     show_nat (wk_total w) @ '' items, showing last '' @ show_nat kept @ [CHR 0x0A]"

definition header :: "wakeup \<Rightarrow> string" where
  "header w = header_for w (wk_shown w)"

text \<open>An adapter is its \<open>format\<close> function; the blocks of the context are the loop's state.\<close>

type_synonym adapter = "retrieved_context \<Rightarrow> string"

fun render_loop :: "wakeup \<Rightarrow> adapter \<Rightarrow> nat \<Rightarrow> memory_block list \<Rightarrow> string" where
  "render_loop w fmt max_bytes [] = header_for w 0"
| "render_loop w fmt max_bytes (b # bs) =
     (let out = header_for w (length (b # bs)) @ fmt ((wk_context w)\<lparr>rc_blocks := b # bs\<rparr>)
      in if length out \<le> max_bytes then out else render_loop w fmt max_bytes bs)"

definition render :: "wakeup \<Rightarrow> adapter \<Rightarrow> nat \<Rightarrow> string" where
  "render w fmt max_bytes = render_loop w fmt max_bytes (rc_blocks (wk_context w))"

section \<open>The budget\<close>

text \<open>The text that shows the newest \<open>k\<close> blocks.\<close>

definition shows_last :: "wakeup \<Rightarrow> adapter \<Rightarrow> memory_block list \<Rightarrow> nat \<Rightarrow> string" where
  "shows_last w fmt bs k =
     (if k = 0 then header_for w 0
      else header_for w k @ fmt ((wk_context w)\<lparr>rc_blocks := drop (length bs - k) bs\<rparr>))"

lemma shows_last_Cons:
  "k \<le> length bs \<Longrightarrow> shows_last w fmt (b # bs) k = shows_last w fmt bs k"
  by (simp add: shows_last_def Suc_diff_le)

lemma render_loop_fits:
  "\<exists>k \<le> length bs. render_loop w fmt m bs = shows_last w fmt bs k \<and>
     (0 < k \<longrightarrow> length (shows_last w fmt bs k) \<le> m) \<and>
     (\<forall>j. k < j \<and> j \<le> length bs \<longrightarrow> m < length (shows_last w fmt bs j))"
proof (induction bs)
  case Nil then show ?case by (simp add: shows_last_def)
next
  case (Cons b bs)
  have all: "shows_last w fmt (b # bs) (Suc (length bs)) =
      header_for w (length (b # bs)) @ fmt ((wk_context w)\<lparr>rc_blocks := b # bs\<rparr>)"
    by (simp add: shows_last_def)
  show ?case
  proof (cases "length (shows_last w fmt (b # bs) (Suc (length bs))) \<le> m")
    case True
    then show ?thesis using all by (intro exI[of _ "Suc (length bs)"]) (simp add: Let_def)
  next
    case False
    obtain k where k: "k \<le> length bs" "render_loop w fmt m bs = shows_last w fmt bs k"
      "0 < k \<longrightarrow> length (shows_last w fmt bs k) \<le> m"
      "\<forall>j. k < j \<and> j \<le> length bs \<longrightarrow> m < length (shows_last w fmt bs j)"
      using Cons by blast
    have "m < length (shows_last w fmt (b # bs) j)" if "k < j" "j \<le> length (b # bs)" for j
      using that k(4) False by (cases "j = Suc (length bs)") (auto simp: shows_last_Cons)
    then show ?thesis
      using k False all by (intro exI[of _ k]) (simp add: shows_last_Cons Let_def)
  qed
qed

section \<open>The newest items\<close>

text \<open>
  The text of the stored times sorts as the times do. \<open>jiff\<close> prints as many fractional digits as
  needed, so this is not so for every pair of times; it holds when no two items of the store were
  created within the same second.
\<close>

definition times_in_order :: "externals \<Rightarrow> database \<Rightarrow> bool" where
  "times_in_order x d \<longleftrightarrow>
     (\<forall>r \<in> set (items d). \<forall>r' \<in> set (items d). \<forall>t t'.
        ts_parse x (r_created_at r) = Some t \<and> ts_parse x (r_created_at r') = Some t' \<longrightarrow>
        (r_created_at r \<le> r_created_at r' \<longleftrightarrow> t \<le> t'))"

definition in_any :: "scope_filter list \<Rightarrow> externals \<Rightarrow> database \<Rightarrow> item \<Rightarrow> bool" where
  "in_any fs x d it \<longleftrightarrow> item_at x d (item_id it) = Some it \<and> (\<exists>f \<in> set fs. matches f (scope it))"

text \<open>A list of distinct items that is a newest part of the items satisfying \<open>P\<close>.\<close>

definition newest_of :: "(item \<Rightarrow> bool) \<Rightarrow> nat \<Rightarrow> item list \<Rightarrow> bool" where
  "newest_of P n its \<longleftrightarrow>
     distinct (map item_id its) \<and> length its \<le> n \<and> list_all P its \<and>
     (\<forall>z. P z \<and> z \<notin> set its \<longrightarrow> length its = n \<and> (\<forall>y \<in> set its. created_at z \<le> created_at y))"

definition in_one :: "externals \<Rightarrow> database \<Rightarrow> scope_filter \<Rightarrow> item \<Rightarrow> bool" where
  "in_one x d f it \<longleftrightarrow> item_at x d (item_id it) = Some it \<and> matches f (scope it)"

lemma recent_newest:
  assumes "recent (Some f) n s = (Inr its, s')" "wf_items (db s)" "scans (ext s)" "scope_ok (sf_path f)"
    "times_in_order (ext s) (db s)"
  shows "newest_of (in_one (ext s) (db s) f) n its"
proof -
  let ?rows = "newest_rows (Some f) s"
  note all2 = conjunct2[OF recent_reads[OF assms(1)]]
  note rows = newest_rows_facts[OF assms(2,3), of "Some f"]
  have B: "length its \<le> n \<and> distinct (map item_id its) \<and>
      (\<forall>it \<in> set its. item_at (ext s) (db s) (item_id it) = Some it \<and> filter_matches (Some f) (scope it))"
    using recent_bounded[OF assms(2,3,1)] assms(4) by simp
  have ids: "map item_id its = map r_id (take n ?rows)" using item_ids_read[OF all2] by (simp add: take_map)
  have row: "\<exists>r \<in> set (items (db s)). r_id r = item_id it \<and> ts_parse (ext s) (r_created_at r) = Some (created_at it) \<and>
      r_scope r = scope it" if at: "item_at (ext s) (db s) (item_id it) = Some it" for it
  proof -
    obtain r t where r: "find_row (item_id it) (db s) = Some r" "ts_parse (ext s) (r_created_at r) = Some t"
      and it: "item_of_row r t (tags_of (item_id it) (db s)) = it"
      using at by (auto simp: item_at_Some)
    have "created_at it = t" "scope it = r_scope r"
      using arg_cong[OF it, of created_at] arg_cong[OF it, of scope] by (simp_all add: item_of_row_def)
    then show ?thesis using r find_row_Some[OF r(1)] by auto
  qed
  have "length its = n \<and> (\<forall>y \<in> set its. created_at z \<le> created_at y)"
    if z: "in_one (ext s) (db s) f z" "z \<notin> set its" for z
  proof -
    obtain rz where rz: "rz \<in> set (items (db s))" "r_id rz = item_id z"
      "ts_parse (ext s) (r_created_at rz) = Some (created_at z)" "r_scope rz = scope z"
      using row z(1) by (auto simp: in_one_def)
    have "in_filter (Some f) rz"
      using in_filter_eq[OF assms(2) rz(1), of "Some f"] assms(4) z(1) rz(4) by (simp add: filter_matches_def in_one_def)
    then have "rz \<in> set ?rows" using rows(1) rz(1) by simp
    moreover have "rz \<notin> set (take n ?rows)"
    proof
      assume "rz \<in> set (take n ?rows)"
      then have "item_id z \<in> set (map item_id its)" unfolding ids using rz(2) by (metis image_eqI list.set_map)
      then obtain y where "y \<in> set its" "item_id y = item_id z" by auto
      then have "y = z" using B z(1) by (auto simp: in_one_def)
      then show False using \<open>y \<in> set its\<close> z(2) by simp
    qed
    ultimately have dz: "rz \<in> set (drop n ?rows)" by (metis Un_iff append_take_drop_id set_append)
    then have "n < length ?rows" by (cases "n < length ?rows") auto
    then have "length its = n" using arg_cong[OF ids, of length] by simp
    moreover have "created_at z \<le> created_at y" if y: "y \<in> set its" for y
    proof -
      have "item_id y \<in> set (map r_id (take n ?rows))" using y ids by (metis image_eqI list.set_map)
      then obtain ry where ry: "ry \<in> set (take n ?rows)" "r_id ry = item_id y" by auto
      have "sorted_wrt (\<lambda>a b. r_created_at b \<le> r_created_at a) (take n ?rows @ drop n ?rows)"
        using rows(3) by simp
      then have le: "r_created_at rz \<le> r_created_at ry" using ry(1) dz by (simp add: sorted_wrt_append del: append_take_drop_id)
      obtain r where r: "r \<in> set (items (db s))" "r_id r = item_id y"
        "ts_parse (ext s) (r_created_at r) = Some (created_at y)" using row B y by blast
      have "ry \<in> set (items (db s))" using ry(1) rows(1) by (auto dest!: in_set_takeD)
      moreover have "inj_on r_id (set (items (db s)))" using assms(2) by (simp add: wf_items_def distinct_map)
      ultimately have "ry = r" using r(1,2) ry(2) by (simp add: inj_onD)
      then show ?thesis using le r(1,3) rz(1,3) assms(5) unfolding times_in_order_def by blast
    qed
    ultimately show ?thesis by blast
  qed
  then show ?thesis using B by (auto simp: newest_of_def in_one_def list_all_iff filter_matches_def)
qed

lemma retain_first_facts:
  "set (retain_first A its) \<subseteq> set its"
  "item_id ` set (retain_first A its) = item_id ` set its - A"
  "distinct (map item_id (retain_first A its))"
proof (induction A its rule: retain_first.induct)
  case (2 A it its)
  { case 1 then show ?case using 2 by auto }
  { case 2 then show ?case using "2.IH" by auto }
  { case 3 then show ?case using "2.IH" by auto }
qed auto

lemma retain_first_sorted: "sorted_wrt R its \<Longrightarrow> sorted_wrt R (retain_first A its)"
proof (induction A its rule: retain_first.induct)
  case (2 A it its)
  then show ?case using retain_first_facts(1)[of "insert (item_id it) A" its] by auto
qed simp

lemma newest_first_facts:
  assumes "\<And>a b. a \<in> set its \<Longrightarrow> b \<in> set its \<Longrightarrow> item_id a = item_id b \<Longrightarrow> a = b"
  shows "set (newest_first its) = set its" "distinct (map item_id (newest_first its))"
    "sorted_wrt (\<lambda>a b. created_at b \<le> created_at a) (newest_first its)"
proof -
  let ?D = "newest_first its"
  have sub: "set ?D \<subseteq> set its" "item_id ` set ?D = item_id ` set its" and "distinct (map item_id ?D)"
    using retain_first_facts[of "{}" "sort_key (\<lambda>it. - created_at it) its"] by (simp_all add: newest_first_def)
  then show "distinct (map item_id ?D)" by simp
  show "set ?D = set its"
  proof
    show "set its \<subseteq> set ?D"
    proof
      fix a assume a: "a \<in> set its"
      then obtain b where "b \<in> set ?D" "item_id b = item_id a" using sub(2) by (metis imageE imageI)
      then show "a \<in> set ?D" using assms[of b a] a sub(1) by auto
    qed
  qed (rule sub(1))
  have "sorted_wrt (\<lambda>a b. created_at b \<le> created_at a) (sort_key (\<lambda>it. - created_at it) its)"
    using sorted_sort_key[of "\<lambda>it. - created_at it" its] by (simp add: sorted_map)
  then show "sorted_wrt (\<lambda>a b. created_at b \<le> created_at a) ?D"
    unfolding newest_first_def by (rule retain_first_sorted)
qed

text \<open>The newest part of a union is the newest part of what the newest parts hold.\<close>

lemma newest_take:
  assumes "sorted_wrt (\<lambda>a b. created_at b \<le> created_at a) D" "distinct D" "X \<subseteq> set D" "card X = n"
    "\<forall>y \<in> X. t \<le> created_at y"
  shows "length (take n D) = n" "\<forall>y \<in> set (take n D). t \<le> created_at y"
proof -
  have "n \<le> length D" using card_mono[OF finite_set assms(3)] distinct_card[OF assms(2)] assms(4) by simp
  then show "length (take n D) = n" by simp
  show "\<forall>y \<in> set (take n D). t \<le> created_at y"
  proof (rule ccontr)
    assume "\<not> ?thesis"
    then obtain i where i: "i < n" "i < length D" "created_at (D ! i) < t"
      by (auto simp: in_set_conv_nth not_le)
    have "y \<in> set (take i D)" if "y \<in> X" for y
    proof -
      have "y \<in> set D" using that assms(3) by blast
      then obtain j where j: "j < length D" "y = D ! j" by (auto simp: in_set_conv_nth)
      have "j < i"
      proof (rule ccontr)
        assume "\<not> j < i"
        then have "created_at (D ! j) \<le> created_at (D ! i)"
          using assms(1) j(1) i(2) by (cases "j = i") (auto simp: sorted_wrt_iff_nth_less)
        then show False using i(3) j(2) assms(5) that by fastforce
      qed
      then show ?thesis using j i by (auto simp: in_set_conv_nth)
    qed
    then have "card X \<le> length (take i D)"
      by (meson card_length card_mono finite_set le_trans subsetI)
    then show False using assms(4) i by simp
  qed
qed

lemma newest_union:
  assumes L: "list_all2 (\<lambda>f its. newest_of (P f) n its) fs Ls"
    and one: "\<And>f g a b. P f a \<Longrightarrow> P g b \<Longrightarrow> item_id a = item_id b \<Longrightarrow> a = b"
  shows "newest_of (\<lambda>it. \<exists>f \<in> set fs. P f it) n (take n (newest_first (concat Ls)))"
    "sorted_wrt (\<lambda>a b. created_at b \<le> created_at a) (take n (newest_first (concat Ls)))"
proof -
  let ?C = "concat Ls" and ?D = "newest_first (concat Ls)"
  have member: "\<exists>f \<in> set fs. P f a" if a: "a \<in> set ?C" for a
  proof -
    obtain l where l: "l \<in> set Ls" "a \<in> set l" using a by auto
    then obtain i where "i < length Ls" "l = Ls ! i" by (auto simp: in_set_conv_nth)
    then have "newest_of (P (fs ! i)) n l" "fs ! i \<in> set fs"
      using L by (auto simp: list_all2_conv_all_nth)
    then show ?thesis using l(2) by (auto simp: newest_of_def list_all_iff)
  qed
  have "a = b" if ab: "a \<in> set ?C" "b \<in> set ?C" "item_id a = item_id b" for a b
  proof -
    obtain f g where "P f a" "P g b" using member[OF ab(1)] member[OF ab(2)] by auto
    then show ?thesis using one ab(3) by simp
  qed
  then have D: "set ?D = set ?C" "distinct (map item_id ?D)" "sorted_wrt (\<lambda>a b. created_at b \<le> created_at a) ?D"
    by (intro newest_first_facts; blast)+
  have dist: "distinct ?D" using D(2) unfolding distinct_map by blast
  show sorted: "sorted_wrt (\<lambda>a b. created_at b \<le> created_at a) (take n ?D)"
    using D(3) by (rule sorted_wrt_take)
  have "length (take n ?D) = n \<and> (\<forall>y \<in> set (take n ?D). created_at z \<le> created_at y)"
    if z: "f \<in> set fs" "P f z" "z \<notin> set (take n ?D)" for f z
  proof (cases "z \<in> set ?C")
    case True
    then have "z \<in> set (take n ?D @ drop n ?D)" using D(1) by simp
    then have dz: "z \<in> set (drop n ?D)" using z(3) by (simp only: set_append Un_iff) blast
    then have "n < length ?D" by (cases "n < length ?D") auto
    moreover have "sorted_wrt (\<lambda>a b. created_at b \<le> created_at a) (take n ?D @ drop n ?D)" using D(3) by simp
    ultimately show ?thesis
      using dz unfolding sorted_wrt_append by (simp add: less_imp_le)
  next
    case False
    obtain i where i: "i < length fs" "f = fs ! i" using z(1) by (auto simp: in_set_conv_nth)
    then have newest: "newest_of (P f) n (Ls ! i)" "Ls ! i \<in> set Ls" using L by (auto simp: list_all2_conv_all_nth)
    then have "z \<notin> set (Ls ! i)" using False by auto
    then have "length (Ls ! i) = n" "\<forall>y \<in> set (Ls ! i). created_at z \<le> created_at y" "distinct (Ls ! i)"
      using newest(1) z(2) by (auto simp: newest_of_def distinct_map)
    moreover have "set (Ls ! i) \<subseteq> set ?D" using newest(2) D(1) by auto
    ultimately show ?thesis
      using newest_take[OF D(3) dist, of "set (Ls ! i)" n "created_at z"] distinct_card[of "Ls ! i"] by simp
  qed
  moreover have "list_all (\<lambda>it. \<exists>f \<in> set fs. P f it) (take n ?D)"
    using member D(1) by (auto simp: list_all_iff dest!: in_set_takeD)
  moreover have "distinct (map item_id (take n ?D))" using D(2) by (simp flip: take_map)
  ultimately show "newest_of (\<lambda>it. \<exists>f \<in> set fs. P f it) n (take n ?D)"
    unfolding newest_of_def by auto
qed

lemma recent_each:
  assumes "mapM (\<lambda>f. recent (Some f) n) fs s = (Inr found, s')" "wf_items (db s)" "scans (ext s)"
    "\<And>f. f \<in> set fs \<Longrightarrow> scope_ok (sf_path f)" "times_in_order (ext s) (db s)"
  shows "view s' = view s \<and> list_all2 (\<lambda>f its. newest_of (in_one (ext s) (db s) f) n its) fs found"
  using assms
proof (induction fs arbitrary: s found)
  case Nil then show ?case by (simp add: ret_def)
next
  case (Cons f fs)
  then obtain its s1 found' where r: "recent (Some f) n s = (Inr its, s1)"
    and rest: "mapM (\<lambda>f. recent (Some f) n) fs s1 = (Inr found', s')" and found: "found = its # found'"
    by (auto simp: ret_def elim!: bindM_InrE)
  have v: "view s1 = view s" using recent_reads[OF r] by simp
  then show ?case
    using Cons.IH[OF rest] Cons.prems(2-5) recent_newest[OF r] found by (simp add: view_def)
qed

section \<open>Properties\<close>

text \<open>
  C26: A wake-up fits its budget. The rendered text shows the newest \<open>k\<close> blocks under a header that
  counts them, where \<open>k\<close> is the largest number for which the whole text has at most \<open>max_bytes\<close>
  bytes; with no such number it is the header alone. This holds for every adapter, also one whose
  output does not grow with its blocks.
\<close>

theorem render_fits_budget:
  "\<exists>k \<le> length (rc_blocks (wk_context w)).
     render w fmt max_bytes = shows_last w fmt (rc_blocks (wk_context w)) k \<and>
     (0 < k \<longrightarrow> length (render w fmt max_bytes) \<le> max_bytes) \<and>
     (\<forall>j. k < j \<and> j \<le> length (rc_blocks (wk_context w)) \<longrightarrow>
        max_bytes < length (shows_last w fmt (rc_blocks (wk_context w)) j))"
  using render_loop_fits[where w = w and fmt = fmt and m = max_bytes and bs = "rc_blocks (wk_context w)"]
  unfolding render_def by auto

text \<open>
  C27: A wake-up shows the newest items of its scopes, oldest first: different stored items that lie in
  one of the scopes, at most \<open>limit\<close> of them, and when an item of the scopes is left out then \<open>limit\<close>
  items are shown and none of them is older. An item that lies in two scopes counts once. The
  stored times must sort as text the way they do as times.
\<close>

theorem build_newest:
  assumes "build fs opts s = (Inr w, s')" "wf_items (db s)" "scans (ext s)"
    "\<forall>f \<in> set fs. scope_ok (sf_path f)" "times_in_order (ext s) (db s)"
  shows "\<exists>its. rc_blocks (wk_context w) = map (memory_block_of 0 Rrf) its \<and> wk_shown w = length its \<and>
    newest_of (in_any fs (ext s) (db s)) (wk_limit opts) its \<and>
    sorted_wrt (\<lambda>a b. created_at a \<le> created_at b) its \<and> db s' = db s"
proof -
  let ?n = "wk_limit opts"
  from assms(1) obtain total s1 found where c: "count_scoped_any fs s = (Inr total, s1)"
    and r: "mapM (\<lambda>f. recent (Some f) ?n) fs s1 = (Inr found, s')"
    and w: "rc_blocks (wk_context w) = map (memory_block_of 0 Rrf) (rev (take ?n (newest_first (concat found))))"
      "wk_shown w = length (take ?n (newest_first (concat found)))"
    unfolding build_def Let_def by (auto simp: ret_def elim!: bindM_InrE)
  have "keeps view (count_scoped_any fs)" unfolding count_scoped_any_def by (intro keeps_intros) simp
  from keepsD[OF this c] have v: "db s1 = db s" "ext s1 = ext s" by (simp_all add: view_def)
  have all2: "view s' = view s" "list_all2 (\<lambda>f its. newest_of (in_one (ext s) (db s) f) ?n its) fs found"
    using recent_each[OF r] assms(2-5) v by (simp_all add: view_def)
  have "in_one x d f a \<Longrightarrow> in_one x d g b \<Longrightarrow> item_id a = item_id b \<Longrightarrow> a = b" for x d f g a b
    by (auto simp: in_one_def)
  note N = newest_union[OF all2(2) this]
  have any: "(\<lambda>it. \<exists>f \<in> set fs. in_one (ext s) (db s) f it) = in_any fs (ext s) (db s)"
    by (auto simp: in_one_def in_any_def fun_eq_iff)
  have rev_newest: "newest_of P n its \<Longrightarrow> newest_of P n (rev its)" for P n and its :: "item list"
    by (simp add: newest_of_def rev_map list_all_iff flip: rev_map)
  show ?thesis
    using w N(1)[unfolded any] N(2) all2(1) rev_newest
    by (intro exI[of _ "rev (take ?n (newest_first (concat found)))"]) (simp add: sorted_wrt_rev view_def)
qed

text \<open>One item in the scope \<open>a\<close>, woken up in that scope.\<close>

definition scoped_item :: item where
  "scoped_item = sample_stored\<lparr>scope := Some ''a''\<rparr>"

definition scoped_store :: store where
  "scoped_store = sample_store_1\<lparr>db := add_item sample_ext scoped_item empty_db\<rparr>"

definition scope_a :: scope_filter where
  "scope_a = \<lparr>sf_path = ''a'', sf_exact = False\<rparr>"

lemma scoped_store_simps [simp]:
  "db scoped_store = add_item sample_ext scoped_item empty_db" "faults scoped_store = []"
  "ext scoped_store = sample_ext" "item_id scoped_item = 48" "created_at scoped_item = 3"
  by (simp_all add: scoped_store_def scoped_item_def) (simp_all add: sample_stored_def)

lemma fits_scoped: "fits scoped_item empty_db"
  using fits_sample scope_ok_sample by (simp add: fits_def scoped_item_def)

lemma scoped_items: "items (add_item sample_ext scoped_item empty_db) = [row_of_item sample_ext scoped_item]"
  by (simp add: add_item_def empty_db_def)

lemma in_scope_a: "in_filter (Some scope_a) (row_of_item sample_ext scoped_item)"
  by (simp add: in_filter_def scope_a_def row_of_item_def scoped_item_def sql_matches_def filter_sql_clause_def)

lemma as_read_scoped: "as_read scoped_item = Some scoped_item"
  by (simp add: as_read_default scoped_item_def sample_stored_def)

lemma run_build_scoped:
  "\<exists>w. build [scope_a] default_wakeup_options scoped_store = (Inr w, scoped_store) \<and>
     rc_blocks (wk_context w) = [memory_block_of 0 Rrf scoped_item]"
proof -
  have scan: "scan_items sample_ext = (\<lambda>xs. xs)" by (simp add: sample_ext_def)
  have "recent (Some scope_a) 20 scoped_store = (Inr [scoped_item], scoped_store)"
    using in_scope_a
    by (simp add: recent_def bindM_def gets_def run_query_no_faults get_no_faults item_at_add fits_scoped as_read_scoped ret_def
        scan scoped_items) (simp add: row_of_item_def)
  then show ?thesis
    by (simp add: build_def default_wakeup_options_def bindM_def count_scoped_any_def select_no_faults ret_def
        newest_first_def Let_def)
qed

theorem build_newest_witness:
  "newest_of (in_any [scope_a] sample_ext (add_item sample_ext scoped_item empty_db)) 20 [scoped_item]"
proof -
  obtain w where w: "build [scope_a] default_wakeup_options scoped_store = (Inr w, scoped_store)"
    "rc_blocks (wk_context w) = [memory_block_of 0 Rrf scoped_item]"
    using run_build_scoped by blast
  have "times_in_order sample_ext (add_item sample_ext scoped_item empty_db)"
    by (auto simp: times_in_order_def scoped_items)
  then have t: "times_in_order (ext scoped_store) (db scoped_store)" by simp
  have "wf_items (db scoped_store)" "scans (ext scoped_store)" "\<forall>f \<in> set [scope_a]. scope_ok (sf_path f)"
    using scope_ok_sample by (simp_all add: wf_items_add fits_scoped scope_a_def)
  from build_newest[OF w(1) this t] obtain its where
    "rc_blocks (wk_context w) = map (memory_block_of 0 Rrf) its"
    "newest_of (in_any [scope_a] (ext scoped_store) (db scoped_store)) (wk_limit default_wakeup_options) its"
    by blast
  then have its: "map (memory_block_of 0 Rrf) its = [memory_block_of 0 Rrf scoped_item]"
    "newest_of (in_any [scope_a] sample_ext (add_item sample_ext scoped_item empty_db)) 20 its"
    using w(2) by (simp_all add: default_wakeup_options_def)
  obtain it where it: "its = [it]" "memory_block_of 0 Rrf it = memory_block_of 0 Rrf scoped_item"
    using its(1) by auto
  have "item_at sample_ext (add_item sample_ext scoped_item empty_db) (item_id it) = Some it"
    using its(2) it(1) by (simp add: newest_of_def in_any_def)
  moreover have "item_id it = 48" using arg_cong[OF it(2), of mb_id] by (simp add: memory_block_of_def)
  ultimately have "it = scoped_item" by (simp add: item_at_add fits_scoped as_read_scoped)
  then show ?thesis using its(2) it(1) by simp
qed

text \<open>Two blocks of 40 and 3 bytes under a header of 51 bytes, with room for 60.\<close>

definition sample_wakeup :: wakeup where
  "sample_wakeup =
    \<lparr>wk_context = \<lparr>rc_blocks = [memory_block_of 0 Rrf (scoped_item\<lparr>content := replicate 40 (CHR ''x'')\<rparr>),
        memory_block_of 0 Rrf scoped_item], rc_query = [], rc_total_considered = 2\<rparr>,
     wk_total = 2, wk_scopes = [''a''], wk_shown = 2\<rparr>"

definition contents_only :: adapter where
  "contents_only ctx = concat (map mb_content (rc_blocks ctx))"

lemma sample_wakeup_sizes:
  "length (shows_last sample_wakeup contents_only (rc_blocks (wk_context sample_wakeup)) 1) \<le> 60"
  "60 < length (shows_last sample_wakeup contents_only (rc_blocks (wk_context sample_wakeup)) 2)"
  by code_simp+

theorem render_fits_budget_witness:
  "render sample_wakeup contents_only 60 =
     shows_last sample_wakeup contents_only (rc_blocks (wk_context sample_wakeup)) 1"
proof -
  have "length (rc_blocks (wk_context sample_wakeup)) = 2" by (simp add: sample_wakeup_def)
  with render_fits_budget[of sample_wakeup contents_only 60] obtain k where k: "k \<le> 2"
    "render sample_wakeup contents_only 60 = shows_last sample_wakeup contents_only (rc_blocks (wk_context sample_wakeup)) k"
    "0 < k \<longrightarrow> length (render sample_wakeup contents_only 60) \<le> 60"
    "\<forall>j. k < j \<and> j \<le> 2 \<longrightarrow> 60 < length (shows_last sample_wakeup contents_only (rc_blocks (wk_context sample_wakeup)) j)"
    by auto
  have "\<not> k < 1" using k(4)[rule_format, of 1] sample_wakeup_sizes(1) by linarith
  moreover have "k \<noteq> 2" using k(2,3) sample_wakeup_sizes(2) by auto
  ultimately have "k = 1" using k(1) by linarith
  then show ?thesis using k(2) by simp
qed

end
