(* ===== verification/Adapters.thy ===== *)
theory Adapters
  imports Wakeup
begin

text \<open>
  The prompt formats: \<open>PlainAdapter\<close> (\<open>singularmem-retrieve/src/adapter.rs\<close>) and the crates
  \<open>singularmem-adapter-claude\<close>, \<open>-openai\<close> and \<open>-gemini\<close>. Each \<open>format\<close> is a function from the
  retrieved context to a string. Only the Claude format escapes what it embeds; an event reader for
  its XML shows that no stored text can open or close an element.
\<close>

section \<open>Formatting\<close>

text \<open>
  What the formats print with other crates' or the library's tables: \<open>{:?}\<close> of a string (Unicode
  escapes), \<open>{:.4}\<close> of a score, and the \<open>Display\<close> of ids and times.
\<close>

record printing =
  debug_str :: "string \<Rightarrow> string"
  show_score :: "rat \<Rightarrow> string"
  show_id :: "ulid \<Rightarrow> string"
  show_time :: "timestamp \<Rightarrow> string"

definition nl :: char where "nl = CHR 0x0A"

text \<open>\<open>writeln!\<close>.\<close>

definition line :: "string \<Rightarrow> string" where
  "line s = s @ [nl]"

definition numbered :: "'a list \<Rightarrow> (nat \<times> 'a) list" where
  "numbered bs = List.enumerate 1 bs"

definition plain_block :: "printing \<Rightarrow> nat \<times> memory_block \<Rightarrow> string" where
  "plain_block pr p = (case p of (n, b) \<Rightarrow>
     line [] @
     line (''## memory '' @ show_nat n @ '' (score='' @ show_score pr (mb_score b) @ '')'') @
     line (''id: '' @ show_id pr (mb_id b)) @
     line (''created: '' @ show_time pr (mb_created_at b)) @
     (case mb_source b of None \<Rightarrow> [] | Some s \<Rightarrow> line (''source: '' @ s)) @
     (if mb_tags b = [] then [] else line (''tags: '' @ join '', '' (mb_tags b))) @
     line [] @ line (mb_content b) @ line ''---'')"

definition plain_format :: "printing \<Rightarrow> adapter" where
  "plain_format pr ctx =
     (if rc_blocks ctx = [] then line (''[no memories matched query: '' @ debug_str pr (rc_query ctx) @ '']'')
      else line (''# '' @ show_nat (length (rc_blocks ctx)) @ '' memor'' @
             (if length (rc_blocks ctx) = 1 then ''y'' else ''ies'') @ '' for query: '' @
             debug_str pr (rc_query ctx)) @
        concat (map (plain_block pr) (numbered (rc_blocks ctx))))"

definition openai_block :: "nat \<Rightarrow> nat \<times> memory_block \<Rightarrow> string" where
  "openai_block cnt p = (case p of (n, b) \<Rightarrow>
     (case mb_source b of
        Some s \<Rightarrow> line (''['' @ show_nat n @ ''] source: '' @ s)
      | None \<Rightarrow> line (''['' @ show_nat n @ '']'')) @
     (if mb_tags b = [] then [] else line (''tags: '' @ join '', '' (mb_tags b))) @
     line [] @ line (mb_content b) @ (if n < cnt then line [] else []))"

definition openai_format :: "printing \<Rightarrow> adapter" where
  "openai_format pr ctx =
     (if rc_blocks ctx = [] then line (''No memories matched for query: '' @ debug_str pr (rc_query ctx))
      else line ''Use the following retrieved memories. Cite by [N] index.'' @ line [] @
        concat (map (openai_block (length (rc_blocks ctx))) (numbered (rc_blocks ctx))))"

definition gemini_block :: "nat \<Rightarrow> nat \<times> memory_block \<Rightarrow> string" where
  "gemini_block cnt p = (case p of (n, b) \<Rightarrow>
     (let parts = (case mb_source b of None \<Rightarrow> [] | Some s \<Rightarrow> [''source: '' @ s]) @
            (if mb_tags b = [] then [] else [''tags: '' @ join '', '' (mb_tags b)])
      in if parts = [] then line (''Source '' @ show_nat n @ '':'')
         else line (''Source '' @ show_nat n @ '' '' @ em_dash @ '' '' @ join '', '' parts @ '':'')) @
     line (mb_content b) @ (if n < cnt then line [] else []))"

definition gemini_format :: "printing \<Rightarrow> adapter" where
  "gemini_format pr ctx =
     (if rc_blocks ctx = [] then line (''No grounding sources matched for query: '' @ debug_str pr (rc_query ctx))
      else line ''Use the following sources to ground your answer.'' @ line [] @
        concat (map (gemini_block (length (rc_blocks ctx))) (numbered (rc_blocks ctx))))"

section \<open>The Claude format\<close>

definition escape_xml :: "string \<Rightarrow> string" where
  "escape_xml s =
     replace_char CHR ''>'' ''&gt;'' (replace_char CHR ''<'' ''&lt;'' (replace_char CHR ''&'' ''&amp;'' s))"

text \<open>\<open><t>\<close>.\<close>

definition tag_str :: "string \<Rightarrow> string" where
  "tag_str t = CHR ''<'' # t @ [CHR ''>'']"

definition document_tag :: "nat \<Rightarrow> string" where
  "document_tag n = ''document index='' @ [CHR 0x22] @ show_nat n @ [CHR 0x22]"

definition claude_block :: "nat \<times> memory_block \<Rightarrow> string" where
  "claude_block p = (case p of (n, b) \<Rightarrow>
     line (tag_str (document_tag n)) @
     (case mb_source b of None \<Rightarrow> []
      | Some s \<Rightarrow> line (tag_str ''source'' @ escape_xml s @ tag_str ''/source'')) @
     (if mb_tags b = [] then []
      else line (tag_str ''tags'' @ escape_xml (join '', '' (mb_tags b)) @ tag_str ''/tags'')) @
     line (tag_str ''document_content'') @ line (escape_xml (mb_content b)) @
     line (tag_str ''/document_content'') @ line (tag_str ''/document''))"

definition claude_format :: adapter where
  "claude_format ctx =
     (if rc_blocks ctx = [] then line (tag_str ''documents'' @ tag_str ''/documents'')
      else line (tag_str ''documents'') @ concat (map claude_block (numbered (rc_blocks ctx))) @
        line (tag_str ''/documents''))"

section \<open>Reading the Claude format back\<close>

function unescape_xml :: "string \<Rightarrow> string" where
  "unescape_xml s =
     (if s = [] then []
      else if prefix ''&amp;'' s then CHR ''&'' # unescape_xml (drop 5 s)
      else if prefix ''&lt;'' s then CHR ''<'' # unescape_xml (drop 4 s)
      else if prefix ''&gt;'' s then CHR ''>'' # unescape_xml (drop 4 s)
      else hd s # unescape_xml (tl s))"
  by pat_completeness auto
termination by (relation "measure length") auto

declare unescape_xml.simps [simp del]

text \<open>Tags and the unescaped character data between them, in turn.\<close>

datatype xml_event = Tag string | Chars string

function xml_events :: "string \<Rightarrow> xml_event list" where
  "xml_events s =
     Chars (unescape_xml (takeWhile (\<lambda>c. c \<noteq> CHR ''<'') s)) #
     (case dropWhile (\<lambda>c. c \<noteq> CHR ''<'') s of [] \<Rightarrow> []
      | _ # r \<Rightarrow> Tag (takeWhile (\<lambda>c. c \<noteq> CHR ''>'') r) #
          (case dropWhile (\<lambda>c. c \<noteq> CHR ''>'') r of [] \<Rightarrow> [] | _ # r' \<Rightarrow> xml_events r'))"
  by pat_completeness auto
termination
proof (relation "measure length", goal_cases)
  case (2 s lt r gt r')
  have "length (dropWhile (\<lambda>c. c \<noteq> CHR ''<'') s) \<le> length s" "length (dropWhile (\<lambda>c. c \<noteq> CHR ''>'') r) \<le> length r"
    by (rule length_dropWhile_le)+
  then show ?case using 2 by simp
qed simp

declare xml_events.simps [simp del]

definition source_events :: "memory_block \<Rightarrow> xml_event list" where
  "source_events b = (case mb_source b of None \<Rightarrow> []
     | Some s \<Rightarrow> [Chars [nl], Tag ''source'', Chars s, Tag ''/source''])"

definition tags_events :: "memory_block \<Rightarrow> xml_event list" where
  "tags_events b = (if mb_tags b = [] then []
     else [Chars [nl], Tag ''tags'', Chars (join '', '' (mb_tags b)), Tag ''/tags''])"

definition block_events :: "nat \<times> memory_block \<Rightarrow> xml_event list" where
  "block_events p = (case p of (n, b) \<Rightarrow>
     [Chars [nl], Tag (document_tag n)] @ source_events b @ tags_events b @
     [Chars [nl], Tag ''document_content'', Chars (nl # mb_content b @ [nl]), Tag ''/document_content'',
      Chars [nl], Tag ''/document''])"

definition document_events :: "memory_block list \<Rightarrow> xml_event list" where
  "document_events bs =
     [Chars [], Tag ''documents''] @
     (if bs = [] then [Chars []] else concat (map block_events (numbered bs)) @ [Chars [nl]]) @
     [Tag ''/documents'', Chars [nl]]"

lemma escape_xml_simps [simp]:
  "escape_xml [] = []"
  "escape_xml (c # s) =
     (if c = CHR ''&'' then ''&amp;'' else if c = CHR ''<'' then ''&lt;''
      else if c = CHR ''>'' then ''&gt;'' else [c]) @ escape_xml s"
  by (simp_all add: escape_xml_def)

lemma unescape_escape: "unescape_xml (escape_xml s @ r) = s @ unescape_xml r"
  by (induction s) (simp_all add: unescape_xml.simps[of "_ # _"])

lemma unescape_nl [simp]: "unescape_xml (nl # r) = nl # unescape_xml r" "unescape_xml [] = []"
  by (simp_all add: unescape_xml.simps[of "_ # _"] unescape_xml.simps[of "[]"] nl_def)

lemma escape_xml_no_lt: "CHR ''<'' \<notin> set (escape_xml s)"
  by (induction s) auto

lemma xml_events_tag:
  assumes "CHR ''<'' \<notin> set txt" "CHR ''>'' \<notin> set t"
  shows "xml_events (txt @ tag_str t @ r) = Chars (unescape_xml txt) # Tag t # xml_events r"
proof -
  have "takeWhile (\<lambda>c. c \<noteq> CHR ''<'') (txt @ tag_str t @ r) = txt"
    "dropWhile (\<lambda>c. c \<noteq> CHR ''<'') (txt @ tag_str t @ r) = CHR ''<'' # t @ CHR ''>'' # r"
    using assms(1) by (auto simp: tag_str_def takeWhile_append dropWhile_append)
  moreover have "takeWhile (\<lambda>c. c \<noteq> CHR ''>'') (t @ CHR ''>'' # r) = t"
    "dropWhile (\<lambda>c. c \<noteq> CHR ''>'') (t @ CHR ''>'' # r) = CHR ''>'' # r"
    using assms(2) by (auto simp: takeWhile_append dropWhile_append)
  ultimately show ?thesis by (simp add: xml_events.simps[of "txt @ tag_str t @ r"])
qed

lemma nl_no_lt: "nl \<noteq> CHR ''<''" "CHR ''<'' \<noteq> nl"
  by (simp_all add: nl_def)

lemma xml_events_step:
  assumes "CHR ''>'' \<notin> set t"
  shows "xml_events (tag_str t @ r) = Chars [] # Tag t # xml_events r"
    "xml_events (nl # tag_str t @ r) = Chars [nl] # Tag t # xml_events r"
    "xml_events (escape_xml s @ tag_str t @ r) = Chars s # Tag t # xml_events r"
    "xml_events (nl # escape_xml s @ nl # tag_str t @ r) = Chars (nl # s @ [nl]) # Tag t # xml_events r"
  using xml_events_tag[of "[]" t r] xml_events_tag[of "[nl]" t r] xml_events_tag[of "escape_xml s" t r]
    xml_events_tag[of "nl # escape_xml s @ [nl]" t r] escape_xml_no_lt[of s] assms
    unescape_escape[of s "[]"] unescape_escape[of s "[nl]"] nl_no_lt
  by simp_all

lemma document_tag_no_gt: "CHR ''>'' \<notin> set (document_tag n)"
  using show_nat_digits[of "CHR ''>''" n] by (auto simp: document_tag_def is_ascii_digit_def)

lemma xml_events_block: "xml_events (nl # claude_block p @ r) = block_events p @ xml_events (nl # r)"
proof -
  obtain n b where p: "p = (n, b)" by (cases p)
  note steps = xml_events_step(2)[of "''source''"] xml_events_step(2)[of "''tags''"]
    xml_events_step(2)[of "''document_content''"] xml_events_step(2)[of "''/document''"]
    xml_events_step(2)[OF document_tag_no_gt] xml_events_step(3)[of "''/source''"]
    xml_events_step(3)[of "''/tags''"] xml_events_step(4)[of "''/document_content''"]
  show ?thesis
    unfolding p by (simp add: claude_block_def block_events_def line_def source_events_def tags_events_def steps split: option.split)
qed

section \<open>Properties\<close>

text \<open>
  C28: Stored text cannot break out of the Claude prompt. Read as XML, the output for a context is
  exactly one \<open>documents\<close> element with one numbered \<open>document\<close> per block, and the character data of
  its \<open>source\<close>, \<open>tags\<close> and \<open>document_content\<close> elements is, character for character, what is stored,
  whatever tags, entities or brackets the stored text contains.
\<close>

theorem claude_format_reads_back:
  "xml_events (claude_format ctx) = document_events (rc_blocks ctx)"
proof -
  have blocks: "xml_events (nl # concat (map claude_block ps) @ r) = concat (map block_events ps) @ xml_events (nl # r)" for ps r
    by (induction ps) (simp_all add: xml_events_block)
  have fin: "xml_events [nl] = [Chars [nl]]"
    by (simp add: xml_events.simps) (simp add: nl_def)
  show ?thesis
    using xml_events_step(1,2)[of "''/documents''" "[nl]"] xml_events_step(1)[of "''documents''"] fin
    by (simp add: claude_format_def document_events_def line_def blocks)
qed

end
