(* ===== verification/Hook_Config.thy ===== *)
theory Hook_Config
  imports Core_Types Paths Search_Types
begin

text \<open>
  The crate \<open>singularmem-hooks\<close>: the entries that make an editor call Singularmem, merged into and
  removed from the JSON configuration file the editor owns (\<open>config.rs\<close>), the editors and events
  (\<open>editor.rs\<close>), the payload of a hook (\<open>input.rs\<close>) and its answer (\<open>envelope.rs\<close>).
\<close>

section \<open>Editors and events\<close>

datatype editor = ClaudeCode | Codex | Cursor

datatype event = SessionStart | Stop | PreCompact | SessionEnd

fun editor_as_str :: "editor \<Rightarrow> string" where
  "editor_as_str ClaudeCode = ''claude-code''"
| "editor_as_str Codex = ''codex''"
| "editor_as_str Cursor = ''cursor''"

definition editor_from_str :: "string \<Rightarrow> editor option" where
  "editor_from_str s =
     (if s = ''claude-code'' then Some ClaudeCode else if s = ''codex'' then Some Codex
      else if s = ''cursor'' then Some Cursor else None)"

fun event_as_str :: "event \<Rightarrow> string" where
  "event_as_str SessionStart = ''session-start''"
| "event_as_str Stop = ''stop''"
| "event_as_str PreCompact = ''pre-compact''"
| "event_as_str SessionEnd = ''session-end''"

definition event_from_str :: "string \<Rightarrow> event option" where
  "event_from_str s =
     (if s = ''session-start'' then Some SessionStart else if s = ''stop'' then Some Stop
      else if s = ''pre-compact'' then Some PreCompact else if s = ''session-end'' then Some SessionEnd
      else None)"

lemma from_as_str [simp]:
  "editor_from_str (editor_as_str ed) = Some ed" "event_from_str (event_as_str ev) = Some ev"
  by (cases ed; simp add: editor_from_str_def) (cases ev; simp add: event_from_str_def)

lemma from_str_Some [simp]:
  "editor_from_str s = Some ed \<longleftrightarrow> s = editor_as_str ed" "event_from_str s = Some ev \<longleftrightarrow> s = event_as_str ev"
  by (cases ed; auto simp: editor_from_str_def) (cases ev; auto simp: event_from_str_def)

datatype hooks_error = Invalid_Json string | Hooks_Io string | No_Home

text \<open>The environment is the values of \<open>HOME\<close> and \<open>USERPROFILE\<close>.\<close>

definition config_path ::
  "string option \<Rightarrow> string option \<Rightarrow> editor \<Rightarrow> string option \<Rightarrow> hooks_error + string"
where
  "config_path home userprofile ed project =
     (let (dir, file) = (case ed of ClaudeCode \<Rightarrow> (''.claude'', ''settings.json'')
        | Codex \<Rightarrow> (''.codex'', ''hooks.json'') | Cursor \<Rightarrow> (''.cursor'', ''hooks.json''))
      in case (case project of Some p \<Rightarrow> Some p
          | None \<Rightarrow> (case home of Some h \<Rightarrow> Some h | None \<Rightarrow> userprofile)) of
           None \<Rightarrow> Inl No_Home
         | Some base \<Rightarrow> Inr (path_join (path_join base dir) file))"

section \<open>Our commands\<close>

abbreviation dquote :: char where "dquote \<equiv> CHR 0x22"

definition hook_tail :: "editor \<Rightarrow> event \<Rightarrow> string" where
  "hook_tail ed ev = ''hook '' @ editor_as_str ed @ '' '' @ event_as_str ev"

definition command :: "editor \<Rightarrow> event \<Rightarrow> string \<Rightarrow> string" where
  "command ed ev bin = dquote # bin @ [dquote] @ '' '' @ hook_tail ed ev"

definition parse_ours :: "string \<Rightarrow> (string \<times> editor \<times> event) option" where
  "parse_ours cmd =
     (case strip_prefix [dquote] cmd of None \<Rightarrow> None | Some rest \<Rightarrow>
     (case find_sub [dquote] rest of None \<Rightarrow> None | Some e \<Rightarrow>
      let bin = take e rest; tail = trim (drop (e + 1) rest) in
      (case split_char CHR '' '' tail of
         hook # eds # evs # extra \<Rightarrow>
           if hook \<noteq> ''hook'' then None
           else (case (editor_from_str eds, event_from_str evs) of
               (Some ed, Some ev) \<Rightarrow>
                 if extra \<noteq> [] then None else if tail \<noteq> hook_tail ed ev then None else Some (bin, ed, ev)
             | _ \<Rightarrow> None)
       | _ \<Rightarrow> None)))"

definition is_ours :: "string \<Rightarrow> bool" where
  "is_ours cmd \<longleftrightarrow> parse_ours cmd \<noteq> None"

section \<open>Objects\<close>

text \<open>\<open>serde_json::Map\<close> in insertion order: \<open>insert\<close> keeps the place of a key it replaces.\<close>

fun obj_insert :: "string \<Rightarrow> json \<Rightarrow> (string \<times> json) list \<Rightarrow> (string \<times> json) list" where
  "obj_insert k v [] = [(k, v)]"
| "obj_insert k v ((k', v') # m) = (if k' = k then (k, v) # m else (k', v') # obj_insert k v m)"

definition shift_remove :: "string \<Rightarrow> (string \<times> json) list \<Rightarrow> (string \<times> json) list" where
  "shift_remove k m = filter (\<lambda>(k', _). k' \<noteq> k) m"

definition array_or_empty :: "json option \<Rightarrow> json list" where
  "array_or_empty v = (case Option.bind v as_array of None \<Rightarrow> [] | Some xs \<Rightarrow> xs)"

section \<open>Our entries\<close>

definition command_entry :: "editor \<Rightarrow> event \<Rightarrow> string \<Rightarrow> (string \<times> json) list \<Rightarrow> json" where
  "command_entry ed ev bin extra =
     JObject ((''type'', JString ''command'') # (''command'', JString (command ed ev bin)) # extra)"

definition flat_entry :: "editor \<Rightarrow> event \<Rightarrow> string \<Rightarrow> (string \<times> json) list \<Rightarrow> json" where
  "flat_entry ed ev bin extra = JObject ((''command'', JString (command ed ev bin)) # extra)"

definition group_of :: "string option \<Rightarrow> json \<Rightarrow> json" where
  "group_of matcher h =
     JObject ((case matcher of None \<Rightarrow> [] | Some t \<Rightarrow> [(''matcher'', JString t)]) @ [(''hooks'', JArray [h])])"

text \<open>The keys of the \<open>hooks\<close> object and the only element of each array.\<close>

definition our_groups :: "editor \<Rightarrow> string \<Rightarrow> (string \<times> json) list" where
  "our_groups ed bin = (case ed of
     ClaudeCode \<Rightarrow>
       [(''SessionStart'', group_of (Some ''startup|resume|clear|compact'')
           (command_entry ed SessionStart bin [(''timeout'', JNumber 30)])),
        (''Stop'', group_of None (command_entry ed Stop bin [(''async'', JBool True)])),
        (''PreCompact'', group_of None (command_entry ed PreCompact bin [(''timeout'', JNumber 60)])),
        (''SessionEnd'', group_of None (command_entry ed SessionEnd bin [(''timeout'', JNumber 60)]))]
   | Codex \<Rightarrow>
       [(''SessionStart'', group_of (Some ''*'') (command_entry ed SessionStart bin [(''timeout'', JNumber 30)])),
        (''Stop'', group_of (Some ''*'') (command_entry ed Stop bin [(''async'', JBool True)])),
        (''PreCompact'', group_of (Some ''*'') (command_entry ed PreCompact bin [(''timeout'', JNumber 60)]))]
   | Cursor \<Rightarrow>
       [(''sessionStart'', flat_entry ed SessionStart bin [(''timeout'', JNumber 30)]),
        (''stop'', flat_entry ed Stop bin [(''timeout'', JNumber 60), (''loop_limit'', JNumber 1)]),
        (''preCompact'', flat_entry ed PreCompact bin [(''timeout'', JNumber 60)]),
        (''sessionEnd'', flat_entry ed SessionEnd bin [(''timeout'', JNumber 60)])])"

definition entries :: "editor \<Rightarrow> string \<Rightarrow> json" where
  "entries ed bin =
     JObject ((if ed = Cursor then [(''version'', JNumber 1)] else []) @
       [(''hooks'', JObject (map (\<lambda>(k, g). (k, JArray [g])) (our_groups ed bin)))])"

text \<open>The commands of one element of an event's array.\<close>

definition group_commands :: "editor \<Rightarrow> json \<Rightarrow> string list" where
  "group_commands ed g = (case ed of
     Cursor \<Rightarrow> (case Option.bind (json_get ''command'' g) as_str of None \<Rightarrow> [] | Some c \<Rightarrow> [c])
   | _ \<Rightarrow> (case Option.bind (json_get ''hooks'' g) as_array of None \<Rightarrow> []
       | Some hs \<Rightarrow> List.map_filter (\<lambda>h. Option.bind (json_get ''command'' h) as_str) hs))"

definition group_is_ours :: "editor \<Rightarrow> json \<Rightarrow> bool" where
  "group_is_ours ed g = (case ed of
     Cursor \<Rightarrow> (case Option.bind (json_get ''command'' g) as_str of None \<Rightarrow> False | Some c \<Rightarrow> is_ours c)
   | _ \<Rightarrow> (case Option.bind (json_get ''hooks'' g) as_array of None \<Rightarrow> False
       | Some hs \<Rightarrow> list_ex is_ours (List.map_filter (\<lambda>h. Option.bind (json_get ''command'' h) as_str) hs)))"

section \<open>Merging and removing\<close>

definition merge_event :: "editor \<Rightarrow> string \<times> json \<Rightarrow> (string \<times> json) list \<Rightarrow> (string \<times> json) list" where
  "merge_event ed e hooks = (case e of (k, our_group) \<Rightarrow>
     obj_insert k
       (JArray (filter (\<lambda>g. \<not> group_is_ours ed g) (array_or_empty (map_of hooks k)) @
          array_or_empty (Some our_group))) hooks)"

definition merge :: "editor \<Rightarrow> json \<Rightarrow> string \<Rightarrow> json" where
  "merge ed existing bin =
     (let m = (case as_object existing of None \<Rightarrow> [] | Some m \<Rightarrow> m);
          result = (if ed = Cursor \<and> map_of m ''version'' = None then obj_insert ''version'' (JNumber 1) m else m)
      in case Option.bind (json_get ''hooks'' (entries ed bin)) as_object of
           None \<Rightarrow> JObject result
         | Some ours_hooks \<Rightarrow>
             let hooks_obj = (case map_of result ''hooks'' of Some (JObject h) \<Rightarrow> h | _ \<Rightarrow> [])
             in JObject (obj_insert ''hooks'' (JObject (fold (merge_event ed) ours_hooks hooks_obj)) result))"

definition remove_event :: "editor \<Rightarrow> string \<Rightarrow> (string \<times> json) list \<Rightarrow> (string \<times> json) list" where
  "remove_event ed k hooks = (case Option.bind (map_of hooks k) as_array of
     None \<Rightarrow> hooks
   | Some arr \<Rightarrow>
       let retained = filter (\<lambda>g. \<not> group_is_ours ed g) arr
       in if retained = [] then shift_remove k hooks else obj_insert k (JArray retained) hooks)"

definition remove :: "editor \<Rightarrow> json \<Rightarrow> json" where
  "remove ed existing = (case as_object existing of
     None \<Rightarrow> existing
   | Some result \<Rightarrow> (case Option.bind (map_of result ''hooks'') as_object of
         None \<Rightarrow> JObject result
       | Some h \<Rightarrow>
           let hooks_obj = fold (remove_event ed) (map fst h) h
           in JObject (if ed = Cursor \<or> hooks_obj \<noteq> [] then obj_insert ''hooks'' (JObject hooks_obj) result
              else shift_remove ''hooks'' result)))"

section \<open>Status\<close>

definition hook_arrays :: "json \<Rightarrow> json list list" where
  "hook_arrays existing = (case Option.bind (json_get ''hooks'' existing) as_object of
     None \<Rightarrow> [] | Some h \<Rightarrow> List.map_filter as_array (map snd h))"

definition find_bin :: "editor \<Rightarrow> json \<Rightarrow> string option" where
  "find_bin ed existing =
     (case List.map_filter parse_ours (concat (map (group_commands ed) (concat (hook_arrays existing)))) of
        [] \<Rightarrow> None | (bin, _) # _ \<Rightarrow> Some bin)"

definition has_ours :: "editor \<Rightarrow> json \<Rightarrow> bool" where
  "has_ours ed existing = list_ex (list_ex (group_is_ours ed)) (hook_arrays existing)"

record hook_status =
  installed :: bool
  hs_bin :: "string option"
  bin_exists :: bool

text \<open>\<open>exists_on_disk\<close> is the system's \<open>Path::exists\<close>.\<close>

definition status :: "(string \<Rightarrow> bool) \<Rightarrow> editor \<Rightarrow> json \<Rightarrow> hook_status" where
  "status exists_on_disk ed existing =
    \<lparr>installed = has_ours ed existing, hs_bin = find_bin ed existing,
     bin_exists = (case find_bin ed existing of None \<Rightarrow> False | Some b \<Rightarrow> exists_on_disk b)\<rparr>"

section \<open>The configuration file\<close>

text \<open>\<open>parse\<close> and \<open>pretty\<close> are \<open>serde_json::from_str\<close> and \<open>to_string_pretty\<close>.\<close>

definition read_config ::
  "(string \<Rightarrow> json option) \<Rightarrow> string \<Rightarrow> disk \<Rightarrow> (hooks_error + json) \<times> disk"
where
  "read_config parse path d =
     (case quiet path d of
        (Inl e, d1) \<Rightarrow> (Inl (Hooks_Io path), d1)
      | (Inr u, d1) \<Rightarrow> (case files d1 path of
            None \<Rightarrow> (Inr (JObject []), d1)
          | Some bs \<Rightarrow>
              if \<not> utf8_valid bs then (Inl (Hooks_Io path), d1)
              else (case parse (bytes_str bs) of
                  None \<Rightarrow> (Inl (Invalid_Json path), d1) | Some v \<Rightarrow> (Inr v, d1))))"

definition write_renamed :: "string \<Rightarrow> string \<Rightarrow> string \<Rightarrow> disk \<Rightarrow> (hooks_error + unit) \<times> disk" where
  "write_renamed tmp path text d =
     (case write_file tmp (str_bytes text) d of
        (Inl e, d1) \<Rightarrow> (Inl (Hooks_Io tmp), d1)
      | (Inr u, d1) \<Rightarrow> (case rename_file tmp path d1 of
            (Inl e, d2) \<Rightarrow> (Inl (Hooks_Io path), d2) | (Inr u, d2) \<Rightarrow> (Inr (), d2)))"

definition write_config ::
  "(json \<Rightarrow> string option) \<Rightarrow> string \<Rightarrow> json \<Rightarrow> disk \<Rightarrow> (hooks_error + unit) \<times> disk"
where
  "write_config pretty path v d =
     (case (case path_parent path of None \<Rightarrow> io_ret () | Some parent \<Rightarrow> quiet parent) d of
        (Inl e, d1) \<Rightarrow> (Inl (Hooks_Io (the (path_parent path))), d1)
      | (Inr u, d1) \<Rightarrow> (case pretty v of
            None \<Rightarrow> (Inl (Invalid_Json path), d1)
          | Some text \<Rightarrow>
              let tmp = path @ ''.tmp''
              in (case write_renamed tmp path (text @ [CHR 0x0A]) d1 of
                    (Inl e, d2) \<Rightarrow> (Inl e, snd (remove_file tmp d2))
                  | (Inr u, d2) \<Rightarrow> (Inr (), d2))))"

section \<open>The payload and the answer of a hook\<close>

record hook_input =
  hi_cwd :: "string option"
  hi_workspace_roots :: "string list"
  hi_transcript_path :: "string option"
  hi_session_id :: "string option"
  hi_conversation_id :: "string option"

definition parse_input :: "editor \<Rightarrow> json \<Rightarrow> hook_input" where
  "parse_input ed v = (case as_object v of
     None \<Rightarrow> \<lparr>hi_cwd = None, hi_workspace_roots = [], hi_transcript_path = None, hi_session_id = None,
       hi_conversation_id = None\<rparr>
   | Some m \<Rightarrow>
       let text = (\<lambda>k. Option.bind (map_of m k) as_str);
           roots = (case Option.bind (map_of m ''workspace_roots'') as_array of
               None \<Rightarrow> [] | Some xs \<Rightarrow> List.map_filter as_str xs)
       in \<lparr>hi_cwd = (case text ''cwd'' of Some c \<Rightarrow> Some c
             | None \<Rightarrow> (case roots of [] \<Rightarrow> None | r # _ \<Rightarrow> Some r)),
           hi_workspace_roots = roots, hi_transcript_path = text ''transcript_path'',
           hi_session_id = text ''session_id'', hi_conversation_id = text ''conversation_id''\<rparr>)"

definition session_start_envelope :: "editor \<Rightarrow> string \<Rightarrow> json" where
  "session_start_envelope ed text = (case ed of
     Cursor \<Rightarrow> JObject [(''additional_context'', JString text)]
   | _ \<Rightarrow> JObject [(''hookSpecificOutput'', JObject
       [(''hookEventName'', JString ''SessionStart''), (''additionalContext'', JString text)])])"

section \<open>Recognising our commands\<close>

lemma find_quote:
  "dquote \<notin> set b \<Longrightarrow> find_sub [dquote] (b @ dquote # r) = Some (length b)"
  by (induction b) auto

lemma find_quote_Some: "find_sub [dquote] s = Some e \<Longrightarrow> \<exists>b r. s = b @ dquote # r \<and> dquote \<notin> set b \<and> length b = e"
proof (induction s arbitrary: e)
  case (Cons c s)
  show ?case
  proof (cases "c = dquote")
    case True then show ?thesis using Cons.prems by (intro exI[of _ "[]"] exI[of _ s]) auto
  next
    case False
    then obtain e' where "find_sub [dquote] s = Some e'" "e = Suc e'" using Cons.prems by auto
    with Cons.IH[of e'] obtain b r where "s = b @ dquote # r" "dquote \<notin> set b" "length b = e'" by auto
    then show ?thesis using False \<open>e = Suc e'\<close> by (intro exI[of _ "c # b"] exI[of _ r]) auto
  qed
qed simp

lemma split_hook_tail:
  "split_char CHR '' '' (hook_tail ed ev) = [''hook'', editor_as_str ed, event_as_str ev]"
  by (cases ed; cases ev) (simp_all add: hook_tail_def)

lemma trim_hook_tail: "trim (hook_tail ed ev) = hook_tail ed ev" "trim ('' '' @ hook_tail ed ev) = hook_tail ed ev"
proof -
  have e: "ws_len (hook_tail ed ev) = 0" "ws_len_end (hook_tail ed ev) = 0"
    by (cases ed; cases ev; simp add: hook_tail_def ws_len_0_iff ws_len_end_0_iff ws_utf8_def suffix_def)+
  then show "trim (hook_tail ed ev) = hook_tail ed ev" by (rule trim_id)
  have "ws_len ('' '' @ hook_tail ed ev) = 1" by (simp add: ws_len_def ws_utf8_def)
  then have "trim_start ('' '' @ hook_tail ed ev) = hook_tail ed ev"
    using e by (simp add: trim_start.simps)
  then show "trim ('' '' @ hook_tail ed ev) = hook_tail ed ev"
    using e by (simp add: trim_def trim_end.simps)
qed

lemma parse_ours_Some:
  "parse_ours cmd = Some (bin, ed, ev) \<longleftrightarrow>
     (\<exists>t. cmd = dquote # bin @ dquote # t \<and> dquote \<notin> set bin \<and> trim t = hook_tail ed ev)"
proof
  assume "parse_ours cmd = Some (bin, ed, ev)"
  then obtain rest e where 1: "strip_prefix [dquote] cmd = Some rest" "find_sub [dquote] rest = Some e"
    "bin = take e rest" "trim (drop (e + 1) rest) = hook_tail ed ev"
    by (auto simp: parse_ours_def Let_def split: option.splits list.splits if_splits)
  then show "\<exists>t. cmd = dquote # bin @ dquote # t \<and> dquote \<notin> set bin \<and> trim t = hook_tail ed ev"
    using find_quote_Some[OF 1(2)] by (auto simp: strip_prefix_Some_iff)
next
  assume "\<exists>t. cmd = dquote # bin @ dquote # t \<and> dquote \<notin> set bin \<and> trim t = hook_tail ed ev"
  then obtain t where t: "cmd = dquote # bin @ dquote # t" "dquote \<notin> set bin" "trim t = hook_tail ed ev" by blast
  have "strip_prefix [dquote] cmd = Some (bin @ dquote # t)" by (simp add: strip_prefix_def t(1))
  then show "parse_ours cmd = Some (bin, ed, ev)"
    using t(2,3) split_hook_tail[of ed ev] by (simp add: parse_ours_def find_quote Let_def)
qed

lemma parse_command [simp]: "dquote \<notin> set bin \<Longrightarrow> parse_ours (command ed ev bin) = Some (bin, ed, ev)"
  unfolding parse_ours_Some using trim_hook_tail(2)[of ed ev] by (intro exI[of _ "'' '' @ hook_tail ed ev"]) (simp add: command_def)

lemma group_is_ours_commands: "group_is_ours ed g \<longleftrightarrow> list_ex is_ours (group_commands ed g)"
  by (cases ed) (auto simp: group_is_ours_def group_commands_def split: option.splits)

lemma our_group_commands:
  assumes "(k, g) \<in> set (our_groups ed bin)"
  shows "\<exists>ev. group_commands ed g = [command ed ev bin]"
  using assms
  by (cases ed) (auto simp: our_groups_def group_commands_def group_of_def command_entry_def flat_entry_def
      json_get_def map_filter_simps)

lemma our_group_is_ours:
  "dquote \<notin> set bin \<Longrightarrow> (k, g) \<in> set (our_groups ed bin) \<Longrightarrow> group_is_ours ed g"
  using our_group_commands[of k g ed bin] by (auto simp: group_is_ours_commands is_ours_def)

lemma distinct_our_keys: "distinct (map fst (our_groups ed bin))"
  by (cases ed) (simp_all add: our_groups_def)

lemma our_hooks: "Option.bind (json_get ''hooks'' (entries ed bin)) as_object =
    Some (map (\<lambda>(k, g). (k, JArray [g])) (our_groups ed bin))"
  by (simp add: entries_def json_get_def)

section \<open>The merged and the cleaned object\<close>

abbreviation foreign :: "editor \<Rightarrow> json list \<Rightarrow> json list" where
  "foreign ed gs \<equiv> filter (\<lambda>g. \<not> group_is_ours ed g) gs"

lemma obj_insert_fresh: "k \<notin> fst ` set m \<Longrightarrow> obj_insert k v m = m @ [(k, v)]"
  by (induction k v m rule: obj_insert.induct) auto

lemma obj_insert_present:
  "distinct (map fst m) \<Longrightarrow> k \<in> fst ` set m \<Longrightarrow> obj_insert k v m = map (\<lambda>(k', v'). (k', if k' = k then v else v')) m"
  by (induction k v m rule: obj_insert.induct) (auto intro!: map_idI[symmetric], force)

lemma obj_insert_same: "map_of m k = Some v \<Longrightarrow> obj_insert k v m = m"
  by (induction k v m rule: obj_insert.induct) (auto split: if_splits)

lemma map_of_obj_insert [simp]: "map_of (obj_insert k v m) = (map_of m)(k \<mapsto> v)"
  by (induction k v m rule: obj_insert.induct) auto

lemma set_obj_insert: "fst ` set (obj_insert k v m) = insert k (fst ` set m)"
  by (metis dom_fun_upd dom_map_of_conv_image_fst map_of_obj_insert option.distinct(1))

lemma distinct_obj_insert: "distinct (map fst m) \<Longrightarrow> distinct (map fst (obj_insert k v m))"
  by (induction k v m rule: obj_insert.induct) (auto simp: set_obj_insert)

lemma shift_remove_insert_fresh: "k \<notin> fst ` set m \<Longrightarrow> shift_remove k (obj_insert k v m) = m"
  by (induction k v m rule: obj_insert.induct) (auto simp: shift_remove_def intro!: filter_True)

text \<open>What \<open>merge\<close> leaves under a key, in terms of what was there.\<close>

definition merged_value :: "editor \<Rightarrow> (string \<times> json) list \<Rightarrow> string \<Rightarrow> json option \<Rightarrow> json option" where
  "merged_value ed gs k old = (case map_of gs k of
     None \<Rightarrow> old | Some g \<Rightarrow> Some (JArray (foreign ed (array_or_empty old) @ [g])))"

abbreviation merge_hooks :: "editor \<Rightarrow> (string \<times> json) list \<Rightarrow> (string \<times> json) list \<Rightarrow> (string \<times> json) list" where
  "merge_hooks ed gs h \<equiv> fold (merge_event ed) (map (\<lambda>(k, g). (k, JArray [g])) gs) h"

lemma merge_event_simp:
  "merge_event ed (k, JArray [g]) h = obj_insert k (JArray (foreign ed (array_or_empty (map_of h k)) @ [g])) h"
  by (simp add: merge_event_def array_or_empty_def[of "Some (JArray _)"])

lemma map_of_merge_hooks:
  "distinct (map fst gs) \<Longrightarrow> map_of (merge_hooks ed gs h) k = merged_value ed gs k (map_of h k)"
proof (induction gs arbitrary: h)
  case (Cons e gs)
  obtain k' g where e: "e = (k', g)" by (cases e)
  then have n: "map_of gs k' = None" using Cons.prems by (auto simp: map_of_eq_None_iff)
  show ?case using Cons n by (auto simp: e merge_event_simp merged_value_def split: option.splits)
qed (simp add: merged_value_def)

lemma merge_hooks_keys: "fst ` set (merge_hooks ed gs h) = fst ` set gs \<union> fst ` set h"
proof (induction gs arbitrary: h)
  case (Cons e gs)
  then show ?case by (cases e) (simp add: merge_event_simp set_obj_insert)
qed simp

lemma distinct_merge_hooks: "distinct (map fst h) \<Longrightarrow> distinct (map fst (merge_hooks ed gs h))"
  by (induction gs arbitrary: h) (auto simp: merge_event_simp distinct_obj_insert)

lemma merge_hooks_stable:
  assumes "list_all (\<lambda>(k, g). group_is_ours ed g \<and> (\<exists>xs. map_of h k = Some (JArray (foreign ed xs @ [g])))) gs"
  shows "merge_hooks ed gs h = h"
  using assms
proof (induction gs)
  case (Cons e gs)
  obtain k g where e: "e = (k, g)" by (cases e)
  obtain xs where "map_of h k = Some (JArray (foreign ed xs @ [g]))" "group_is_ours ed g"
    using Cons.prems e by auto
  then have "merge_event ed (k, JArray [g]) h = h"
    by (simp add: merge_event_simp array_or_empty_def obj_insert_same)
  then show ?case using Cons e by simp
qed simp

lemma merge_hooks_idem:
  assumes "distinct (map fst gs)" "list_all (\<lambda>(k, g). group_is_ours ed g) gs"
  shows "merge_hooks ed gs (merge_hooks ed gs h) = merge_hooks ed gs h"
proof (rule merge_hooks_stable, unfold list_all_iff, clarify)
  fix k g assume kg: "(k, g) \<in> set gs"
  then have "map_of gs k = Some g" using assms(1) by simp
  then have "map_of (merge_hooks ed gs h) k = Some (JArray (foreign ed (array_or_empty (map_of h k)) @ [g]))"
    using map_of_merge_hooks[OF assms(1), of ed h k] by (simp add: merged_value_def)
  then show "group_is_ours ed g \<and> (\<exists>xs. map_of (merge_hooks ed gs h) k = Some (JArray (foreign ed xs @ [g])))"
    using assms(2) kg by (auto simp: list_all_iff)
qed

lemma merge_hooks_list:
  assumes "distinct (map fst gs)" "distinct (map fst h)"
  shows "merge_hooks ed gs h =
    map (\<lambda>(k, v). (k, the (merged_value ed gs k (Some v)))) h @
    map (\<lambda>(k, g). (k, JArray [g])) (filter (\<lambda>(k, g). k \<notin> fst ` set h) gs)"
  using assms
proof (induction gs arbitrary: h)
  case Nil
  show ?case by (simp add: merged_value_def)
next
  case (Cons e gs)
  obtain k g where e: "e = (k, g)" by (cases e)
  then have n: "map_of gs k = None" "k \<notin> fst ` set gs" using Cons.prems by (auto simp: map_of_eq_None_iff)
  let ?h = "merge_event ed (k, JArray [g]) h"
  have d: "distinct (map fst ?h)" using Cons.prems(2) by (simp add: merge_event_simp distinct_obj_insert)
  have keys: "fst ` set ?h = insert k (fst ` set h)" by (simp add: merge_event_simp set_obj_insert)
  have f: "filter (\<lambda>(k', g). k' \<notin> insert k (fst ` set h)) gs = filter (\<lambda>(k', g). k' \<notin> fst ` set h) gs"
    using n(2) by (intro filter_cong) force+
  have eq: "merge_hooks ed (e # gs) h = merge_hooks ed gs ?h" by (simp add: e)
  show ?case
  proof (cases "k \<in> fst ` set h")
    case False
    then have "map_of h k = None" by (simp add: map_of_eq_None_iff)
    then have h: "?h = h @ [(k, JArray [g])]"
      using False by (simp add: merge_event_simp obj_insert_fresh array_or_empty_def)
    have "map (\<lambda>(k', v). (k', the (merged_value ed ((k, g) # gs) k' (Some v)))) h =
        map (\<lambda>(k', v). (k', the (merged_value ed gs k' (Some v)))) h"
      using False by (intro map_cong) (force simp: merged_value_def)+
    then show ?thesis
      unfolding eq using Cons.IH[of ?h] Cons.prems(1) d f False n e unfolding keys
      by (simp add: h) (simp add: merged_value_def)
  next
    case True
    have "map (\<lambda>(k', v). (k', the (merged_value ed ((k, g) # gs) k' (Some v)))) h =
        map (\<lambda>(k', v). (k', the (merged_value ed gs k' (Some v)))) ?h"
      unfolding merge_event_simp obj_insert_present[OF Cons.prems(2) True]
      using Cons.prems(2) n(1) by (auto simp: merged_value_def)
    then show ?thesis
      unfolding eq using Cons.IH[of ?h] Cons.prems(1) d f True e unfolding keys by simp
  qed
qed

text \<open>What \<open>remove\<close> leaves of one event.\<close>

definition clean_entry :: "editor \<Rightarrow> string \<times> json \<Rightarrow> (string \<times> json) option" where
  "clean_entry ed e = (case e of (k, v) \<Rightarrow> (case as_array v of
     None \<Rightarrow> Some (k, v)
   | Some gs \<Rightarrow> if foreign ed gs = [] then None else Some (k, JArray (foreign ed gs))))"

lemma obj_insert_at: "k \<notin> fst ` set p \<Longrightarrow> obj_insert k v (p @ (k, v') # q) = p @ (k, v) # q"
  by (induction p) auto

lemma shift_remove_at:
  "k \<notin> fst ` set p \<Longrightarrow> k \<notin> fst ` set q \<Longrightarrow> shift_remove k (p @ (k, v) # q) = p @ q"
  by (simp add: shift_remove_def) (subst (1 2) filter_True, force+)

lemma map_of_at: "k \<notin> fst ` set p \<Longrightarrow> map_of (p @ (k, v) # q) k = Some v"
  by (induction p) auto

lemma remove_event_at:
  assumes "k \<notin> fst ` set p" "k \<notin> fst ` set q"
  shows "remove_event ed k (p @ (k, v) # q) =
    p @ (case clean_entry ed (k, v) of None \<Rightarrow> [] | Some e \<Rightarrow> [e]) @ q"
proof -
  note at = map_of_at[OF assms(1), of v q] shift_remove_at[OF assms, of v] obj_insert_at[OF assms(1)]
  show ?thesis
  proof (cases "as_array v")
    case None
    then show ?thesis unfolding remove_event_def at(1) by (simp add: clean_entry_def)
  next
    case (Some gs)
    then show ?thesis unfolding remove_event_def at(1) by (simp add: clean_entry_def Let_def at(2,3))
  qed
qed

lemma remove_events_list:
  "distinct (map fst (p @ q)) \<Longrightarrow>
     fold (remove_event ed) (map fst q) (p @ q) = p @ List.map_filter (clean_entry ed) q"
proof (induction q arbitrary: p)
  case (Cons e q)
  obtain k v where e: "e = (k, v)" by (cases e)
  let ?c = "case clean_entry ed (k, v) of None \<Rightarrow> [] | Some e \<Rightarrow> [e]"
  have k: "k \<notin> fst ` set p" "k \<notin> fst ` set q" using Cons.prems e by auto
  have "fst ` set ?c \<subseteq> {k}" by (auto simp: clean_entry_def split: option.splits if_splits)
  moreover have "distinct (map fst ?c)" by (simp split: option.split)
  ultimately have d: "distinct (map fst ((p @ ?c) @ q))" using Cons.prems k e by auto
  have "fold (remove_event ed) (map fst (e # q)) (p @ e # q) = fold (remove_event ed) (map fst q) ((p @ ?c) @ q)"
    using remove_event_at[OF k] by (simp add: e)
  also have "\<dots> = (p @ ?c) @ List.map_filter (clean_entry ed) q" by (rule Cons.IH[OF d])
  finally show ?case by (simp add: e map_filter_simps split: option.splits)
qed (simp add: map_filter_simps)

lemma remove_hooks_list:
  "distinct (map fst h) \<Longrightarrow> fold (remove_event ed) (map fst h) h = List.map_filter (clean_entry ed) h"
  using remove_events_list[of "[]" h] by simp

text \<open>The object under \<open>hooks\<close>, empty if there is none.\<close>

definition hooks_of :: "json \<Rightarrow> (string \<times> json) list" where
  "hooks_of v = (case json_get ''hooks'' v of Some (JObject h) \<Rightarrow> h | _ \<Rightarrow> [])"

lemma json_get_object [simp]: "json_get k (JObject m) = map_of m k"
  by (simp add: json_get_def)

definition base_of :: "editor \<Rightarrow> json \<Rightarrow> (string \<times> json) list" where
  "base_of ed v = (let m = (case as_object v of None \<Rightarrow> [] | Some m \<Rightarrow> m)
     in if ed = Cursor \<and> map_of m ''version'' = None then obj_insert ''version'' (JNumber 1) m else m)"

lemma base_of_get:
  "map_of (base_of ed v) k = (if k = ''version'' \<and> ed = Cursor \<and> json_get k v = None then Some (JNumber 1) else json_get k v)"
  by (auto simp: base_of_def Let_def json_get_def split: option.splits)

lemma merge_eq:
  "merge ed v bin = JObject (obj_insert ''hooks'' (JObject (merge_hooks ed (our_groups ed bin) (hooks_of v))) (base_of ed v))"
proof -
  have "(case map_of (base_of ed v) ''hooks'' of Some (JObject h) \<Rightarrow> h | _ \<Rightarrow> []) = hooks_of v"
    by (simp add: hooks_of_def base_of_get)
  then show ?thesis unfolding merge_def our_hooks base_of_def[symmetric] Let_def
    by (simp add: base_of_def[symmetric, unfolded Let_def])
qed

lemma merge_simps [simp]:
  "hooks_of (merge ed v bin) = merge_hooks ed (our_groups ed bin) (hooks_of v)"
  by (simp add: merge_eq hooks_of_def)

lemma base_of_merge: "base_of ed (merge ed v bin) = obj_insert ''hooks'' (JObject (merge_hooks ed (our_groups ed bin) (hooks_of v))) (base_of ed v)"
proof -
  have "\<not> (ed = Cursor \<and> map_of (base_of ed v) ''version'' = None)" by (auto simp: base_of_get)
  then show ?thesis unfolding base_of_def[of ed "merge ed v bin"] by (auto simp: merge_eq Let_def)
qed

lemma all_ours: "dquote \<notin> set bin \<Longrightarrow> list_all (\<lambda>(k, g). group_is_ours ed g) (our_groups ed bin)"
  using our_group_is_ours by (auto simp: list_all_iff)

lemma hook_arrays_hooks_of: "hook_arrays v = List.map_filter as_array (map snd (hooks_of v))"
  by (auto simp: hook_arrays_def hooks_of_def map_filter_simps split: option.split json.split)

lemma has_ours_hooks:
  "has_ours ed v \<longleftrightarrow> (\<exists>k gs. (k, JArray gs) \<in> set (hooks_of v) \<and> list_ex (group_is_ours ed) gs)"
proof -
  have a: "as_array v = Some gs \<longleftrightarrow> v = JArray gs" for v gs by (cases v) auto
  have "list_ex P (List.map_filter as_array (map snd h)) \<longleftrightarrow> (\<exists>k gs. (k, JArray gs) \<in> set h \<and> P gs)" for P h
    by (induction h) (auto simp: map_filter_simps a split: option.splits, blast)
  then show ?thesis by (simp add: has_ours_def hook_arrays_hooks_of)
qed

lemma our_groups_nonempty: "\<exists>k g. map_of (our_groups ed bin) k = Some g"
proof -
  have "map_of (our_groups ed bin) (if ed = Cursor then ''stop'' else ''Stop'') \<noteq> None"
    by (cases ed) (simp_all add: our_groups_def)
  then show ?thesis by blast
qed

section \<open>Properties\<close>

text \<open>
  C29: installing the hooks. Whatever the configuration file holds, merging for a binary whose path has
  no double quote is idempotent, leaves the hooks installed, keeps every key but \<open>hooks\<close> with its value
  (adding \<open>version\<close> 1 for Cursor exactly when it is missing), and changes under \<open>hooks\<close> only the events
  of the editor, each of which keeps the entries of others in order, loses every earlier entry of ours
  and gains the new one at its end.
\<close>

theorem merge_installs:
  assumes "dquote \<notin> set bin"
  shows "merge ed (merge ed v bin) bin = merge ed v bin \<and> has_ours ed (merge ed v bin) \<and>
    (\<forall>k. map_of (hooks_of (merge ed v bin)) k = (case map_of (our_groups ed bin) k of
        None \<Rightarrow> map_of (hooks_of v) k
      | Some g \<Rightarrow> Some (JArray (foreign ed (array_or_empty (map_of (hooks_of v) k)) @ [g])))) \<and>
    (\<forall>k. k \<noteq> ''hooks'' \<longrightarrow> json_get k (merge ed v bin) =
       (if k = ''version'' \<and> ed = Cursor \<and> json_get k v = None then Some (JNumber 1) else json_get k v))"
proof (intro conjI allI impI)
  note d = distinct_our_keys[of ed bin] and ours = all_ours[OF assms, of ed]
  show "merge ed (merge ed v bin) bin = merge ed v bin"
    unfolding merge_eq[of ed "merge ed v bin"] base_of_merge merge_simps merge_hooks_idem[OF d ours]
    by (simp add: obj_insert_same merge_eq)
  show at: "map_of (hooks_of (merge ed v bin)) k = (case map_of (our_groups ed bin) k of
        None \<Rightarrow> map_of (hooks_of v) k
      | Some g \<Rightarrow> Some (JArray (foreign ed (array_or_empty (map_of (hooks_of v) k)) @ [g])))" for k
    unfolding merge_simps map_of_merge_hooks[OF d] by (simp add: merged_value_def)
  obtain k g where k: "map_of (our_groups ed bin) k = Some g" using our_groups_nonempty by blast
  then have "(k, JArray (foreign ed (array_or_empty (map_of (hooks_of v) k)) @ [g])) \<in> set (hooks_of (merge ed v bin))"
    using at[of k] by (auto dest: map_of_SomeD)
  moreover have "group_is_ours ed g" using our_group_is_ours[OF assms] k by (auto dest: map_of_SomeD)
  ultimately show "has_ours ed (merge ed v bin)" unfolding has_ours_hooks by force
  show "json_get k (merge ed v bin) =
      (if k = ''version'' \<and> ed = Cursor \<and> json_get k v = None then Some (JNumber 1) else json_get k v)"
    if "k \<noteq> ''hooks''" for k
    using that by (simp add: merge_eq base_of_get)
qed

text \<open>A configuration with no entry of ours and no array left empty.\<close>

definition clean_hooks :: "editor \<Rightarrow> string \<Rightarrow> (string \<times> json) list \<Rightarrow> bool" where
  "clean_hooks ed bin h \<longleftrightarrow> distinct (map fst h) \<and>
     list_all (\<lambda>(k, v). case as_array v of
         None \<Rightarrow> map_of (our_groups ed bin) k = None
       | Some gs \<Rightarrow> gs \<noteq> [] \<and> foreign ed gs = gs) h"

definition clean_config :: "editor \<Rightarrow> string \<Rightarrow> (string \<times> json) list \<Rightarrow> bool" where
  "clean_config ed bin m \<longleftrightarrow> distinct (map fst m) \<and>
     (case map_of m ''hooks'' of
        None \<Rightarrow> ed \<noteq> Cursor
      | Some v \<Rightarrow> (case as_object v of None \<Rightarrow> False | Some h \<Rightarrow> clean_hooks ed bin h \<and> (ed = Cursor \<or> h \<noteq> []))) \<and>
     (ed = Cursor \<longrightarrow> map_of m ''version'' \<noteq> None)"

lemma remove_eq:
  "remove ed (JObject m) = (case Option.bind (map_of m ''hooks'') as_object of
     None \<Rightarrow> JObject m
   | Some h \<Rightarrow> let h' = fold (remove_event ed) (map fst h) h in
      JObject (if ed = Cursor \<or> h' \<noteq> [] then obj_insert ''hooks'' (JObject h') m else shift_remove ''hooks'' m))"
  by (simp add: remove_def)

lemma clean_merged_entry:
  assumes "list_all (\<lambda>(k, g). group_is_ours ed g) gs" "distinct (map fst gs)"
    "case as_array v of None \<Rightarrow> map_of gs k = None | Some xs \<Rightarrow> xs \<noteq> [] \<and> foreign ed xs = xs"
  shows "clean_entry ed (k, the (merged_value ed gs k (Some v))) = Some (k, v)"
proof (cases "map_of gs k")
  case None
  then show ?thesis using assms(3) by (cases v) (auto simp: merged_value_def clean_entry_def)
next
  case (Some g)
  then have g: "group_is_ours ed g" using assms(1) by (auto simp: list_all_iff dest: map_of_SomeD)
  obtain xs where v: "v = JArray xs" using Some assms(3) by (cases v) auto
  show ?thesis using assms(3) g by (simp add: v merged_value_def Some clean_entry_def array_or_empty_def)
qed

lemma clean_after_merge:
  assumes "dquote \<notin> set bin" "clean_hooks ed bin h"
  shows "List.map_filter (clean_entry ed) (merge_hooks ed (our_groups ed bin) h) = h"
proof -
  note d = distinct_our_keys[of ed bin] and ours = all_ours[OF assms(1), of ed]
  have "List.map_filter (clean_entry ed) (map (\<lambda>(k, v). (k, the (merged_value ed (our_groups ed bin) k (Some v)))) h') = h'"
    if "list_all (\<lambda>(k, v). case as_array v of
         None \<Rightarrow> map_of (our_groups ed bin) k = None
       | Some gs \<Rightarrow> gs \<noteq> [] \<and> foreign ed gs = gs) h'" for h'
    using that
  proof (induction h')
    case (Cons e h')
    obtain k v where e: "e = (k, v)" by (cases e)
    show ?case using Cons clean_merged_entry[OF ours d, where v = v and k = k] by (simp add: e map_filter_simps)
  qed (simp add: map_filter_simps)
  moreover have "List.map_filter (clean_entry ed) (map (\<lambda>(k, g). (k, JArray [g])) gs) = []"
    if "list_all (\<lambda>(k, g). group_is_ours ed g) gs" for gs
    using that by (induction gs) (auto simp: map_filter_simps clean_entry_def)
  moreover have "list_all (\<lambda>(k, g). group_is_ours ed g) (filter (\<lambda>(k, g). k \<notin> fst ` set h) (our_groups ed bin))"
    using ours by (auto simp: list_all_iff)
  ultimately show ?thesis
    using assms(2) merge_hooks_list[OF d, of h ed]
    by (simp add: clean_hooks_def map_filter_def)
qed


theorem merge_installs_witness: "has_ours Codex (merge Codex (JArray []) ''/bin/sm'')"
  using merge_installs[of "''/bin/sm''" Codex "JArray []"] by simp


lemma shift_remove_get [simp]: "map_of (shift_remove k m) k' = (if k' = k then None else map_of m k')"
  by (induction m) (auto simp: shift_remove_def)

text \<open>
  Removing the hooks removes every entry of ours and nothing else but arrays of events left empty:
  under \<open>hooks\<close> each event keeps the entries of others in order, in the place it had, and every other
  key of the file keeps its value.
\<close>

theorem remove_exact:
  assumes "distinct (map fst (hooks_of v))"
  shows "hooks_of (remove ed v) = List.map_filter (clean_entry ed) (hooks_of v) \<and> \<not> has_ours ed (remove ed v) \<and>
    (\<forall>k. k \<noteq> ''hooks'' \<longrightarrow> json_get k (remove ed v) = json_get k v)"
proof -
  have none: "\<not> (\<exists>k gs. (k, JArray gs) \<in> set (List.map_filter (clean_entry ed) h) \<and> list_ex (group_is_ours ed) gs)" for h
    by (auto simp: map_filter_def clean_entry_def list_ex_iff split: option.splits if_splits elim: as_array.elims)
  have "hooks_of (remove ed v) = List.map_filter (clean_entry ed) (hooks_of v) \<and>
    (\<forall>k. k \<noteq> ''hooks'' \<longrightarrow> json_get k (remove ed v) = json_get k v)"
  proof (cases "as_object v")
    case None
    then show ?thesis by (simp add: remove_def hooks_of_def json_get_def map_filter_simps)
  next
    case (Some m)
    then have v: "v = JObject m" by (cases v) simp_all
    show ?thesis
    proof (cases "Option.bind (map_of m ''hooks'') as_object")
      case None
      then have "hooks_of v = []" by (auto simp: v hooks_of_def split: option.splits json.splits)
      then show ?thesis using None by (simp add: v remove_def map_filter_simps)
    next
      case (Some h)
      then have "map_of m ''hooks'' = Some (JObject h)" by (auto simp: bind_eq_Some_conv elim: as_object.elims)
      then have h: "hooks_of v = h" by (simp add: v hooks_of_def)
      then have "fold (remove_event ed) (map fst h) h = List.map_filter (clean_entry ed) h"
        using remove_hooks_list[of h ed] assms by simp
      then show ?thesis unfolding h using Some
        by (auto simp: v remove_eq Let_def hooks_of_def)
    qed
  qed
  then show ?thesis using none[of "hooks_of v"] by (simp add: has_ours_hooks)
qed

theorem remove_exact_witness: "\<not> has_ours Cursor (remove Cursor (entries Cursor ''sm''))"
proof -
  have "distinct (map fst (hooks_of (entries Cursor ''sm'')))" by (simp add: entries_def hooks_of_def our_groups_def)
  from remove_exact[OF this] show ?thesis by blast
qed

lemma trim_start_keeps:
  assumes "\<forall>w \<in> set ws_utf8. c \<notin> set w" shows "c \<in> set (trim_start s) \<longleftrightarrow> c \<in> set s"
proof (induction s rule: trim_start.induct)
  case (1 s)
  show ?case
  proof (cases "ws_len s = 0")
    case False
    then obtain w where w: "find (\<lambda>w. prefix w s) ws_utf8 = Some w" "ws_len s = length w"
      by (auto simp: ws_len_def split: option.splits)
    then obtain r where r: "s = w @ r" "w \<in> set ws_utf8" using find_SomeD[OF w(1)] by (auto simp: prefix_def)
    then show ?thesis using 1 False w(2) assms by (subst trim_start.simps) simp
  qed (subst trim_start.simps, simp)
qed

lemma trim_end_keeps:
  assumes "\<forall>w \<in> set ws_utf8. c \<notin> set w" shows "c \<in> set (trim_end s) \<longleftrightarrow> c \<in> set s"
proof (induction s rule: trim_end.induct)
  case (1 s)
  show ?case
  proof (cases "ws_len_end s = 0")
    case False
    then obtain w where w: "find (\<lambda>w. suffix w s) ws_utf8 = Some w" "ws_len_end s = length w"
      by (auto simp: ws_len_end_def split: option.splits)
    then obtain r where r: "s = r @ w" "w \<in> set ws_utf8" using find_SomeD[OF w(1)] by (auto simp: suffix_def)
    then show ?thesis using 1 False w(2) assms by (subst trim_end.simps) simp
  qed (subst trim_end.simps, simp)
qed

lemma quote_survives_trim: "dquote \<in> set (trim s) \<longleftrightarrow> dquote \<in> set s"
proof -
  have "\<forall>w \<in> set ws_utf8. dquote \<notin> set w" by (simp add: ws_utf8_def)
  then show ?thesis by (simp add: trim_def trim_start_keeps trim_end_keeps)
qed

lemma quoted_command: "dquote \<in> set bin \<Longrightarrow> parse_ours (command ed ev bin) = None"
proof (rule ccontr)
  assume q: "dquote \<in> set bin" and "parse_ours (command ed ev bin) \<noteq> None"
  then obtain b e v where "parse_ours (command ed ev bin) = Some (b, e, v)" by auto
  then obtain t where t: "bin @ dquote # '' '' @ hook_tail ed ev = b @ dquote # t" "dquote \<notin> set b" "trim t = hook_tail e v"
    by (auto simp: parse_ours_Some command_def)
  have "dquote \<in> set t"
    using arg_cong[OF t(1), of "\<lambda>s. count_list s dquote"] t(2) q count_notin[of dquote b] count_list_0_iff[of t dquote]
      count_list_0_iff[of bin dquote] by auto
  then have "dquote \<in> set (hook_tail e v)" using t(3) quote_survives_trim[of t] by simp
  then show False by (cases e; cases v) (simp_all add: hook_tail_def)
qed

text \<open>
  a double quote in the path of the binary defeats the installer. The command is written without
  escaping, so it is not recognised as ours: nothing counts as installed after a merge, a second merge
  adds every entry again, and a removal leaves them all.
\<close>

theorem quoted_path_not_recognised:
  assumes "dquote \<in> set bin"
  shows "\<not> has_ours ed (merge ed (JObject []) bin) \<and> remove ed (merge ed (JObject []) bin) = merge ed (JObject []) bin \<and>
    merge ed (merge ed (JObject []) bin) bin \<noteq> merge ed (JObject []) bin"
proof -
  let ?gs = "our_groups ed bin" let ?h = "map (\<lambda>(k, g). (k, JArray [g])) ?gs"
  note d = distinct_our_keys[of ed bin]
  have foreign_groups: "\<not> group_is_ours ed g" if "(k, g) \<in> set ?gs" for k g
    using our_group_commands[OF that] quoted_command[OF assms] by (auto simp: group_is_ours_commands is_ours_def)
  have h: "merge_hooks ed ?gs [] = ?h" using merge_hooks_list[OF d, of "[]" ed] by simp
  have m: "merge ed (JObject []) bin = JObject (obj_insert ''hooks'' (JObject ?h) (base_of ed (JObject [])))"
    using h by (simp add: merge_eq hooks_of_def)
  have hooks: "hooks_of (merge ed (JObject []) bin) = ?h" by (simp add: m hooks_of_def)
  have none: "\<not> has_ours ed (merge ed (JObject []) bin)"
    unfolding has_ours_hooks hooks using foreign_groups by auto
  have clean: "List.map_filter (clean_entry ed) (map (\<lambda>(k, g). (k, JArray [g])) gs) = map (\<lambda>(k, g). (k, JArray [g])) gs"
    if "list_all (\<lambda>(k, g). \<not> group_is_ours ed g) gs" for gs
    using that by (induction gs) (auto simp: map_filter_simps clean_entry_def)
  have "list_all (\<lambda>(k, g). \<not> group_is_ours ed g) ?gs" using foreign_groups by (auto simp: list_all_iff)
  then have "fold (remove_event ed) (map fst ?h) ?h = ?h"
    using remove_hooks_list[of ?h ed] clean[of ?gs] d by (simp add: comp_def case_prod_beta')
  moreover have ne: "?h \<noteq> []" using our_groups_nonempty[of ed bin] by auto
  ultimately have rem: "remove ed (merge ed (JObject []) bin) = merge ed (JObject []) bin"
    unfolding m by (simp add: remove_eq Let_def obj_insert_same)
  obtain k g where k: "map_of ?gs k = Some g" using our_groups_nonempty by blast
  then have once: "map_of (hooks_of (merge ed (JObject []) bin)) k = Some (JArray [g])"
    unfolding merge_simps map_of_merge_hooks[OF d]
    by (simp add: merged_value_def array_or_empty_def hooks_of_def)
  moreover have "\<not> group_is_ours ed g" using foreign_groups k by (auto dest: map_of_SomeD)
  ultimately have "map_of (hooks_of (merge ed (merge ed (JObject []) bin) bin)) k = Some (JArray [g, g])"
    unfolding merge_simps(1)[of ed "merge ed (JObject []) bin"] map_of_merge_hooks[OF d]
    using k by (simp add: merged_value_def array_or_empty_def)
  note twice = this
  have "merge ed (merge ed (JObject []) bin) bin \<noteq> merge ed (JObject []) bin"
  proof
    assume eq: "merge ed (merge ed (JObject []) bin) bin = merge ed (JObject []) bin"
    from twice[unfolded eq] once show False by simp
  qed
  with none rem show ?thesis by blast
qed

theorem quoted_path_not_recognised_witness:
  "\<not> has_ours Codex (merge Codex (JObject []) (''a'' @ [dquote]))"
  using quoted_path_not_recognised[of "''a'' @ [dquote]" Codex] by simp

lemma write_file_spec:
  "write_file p bs d = (r, d') \<Longrightarrow> (\<forall>q. q \<noteq> p \<longrightarrow> files d' q = files d q) \<and> (\<forall>u. r = Inr u \<longrightarrow> files d' p = Some bs)"
proof -
  assume run: "write_file p bs d = (r, d')"
  obtain r1 d1 where c: "create_empty p d = (r1, d1)" by fastforce
  from c show ?thesis
    unfolding create_empty_def
  proof (cases rule: syscall_cases)
    case (failed n)
    then have "r = r1" "d' = d1" using run c by (simp_all add: write_file_def io_bind_def)
    then show ?thesis using failed by simp
  next
    case succeeded
    then have "write_all p bs d1 = (r, d')" using run c by (simp add: write_file_def io_bind_def)
    then show ?thesis
      unfolding write_all_def by (cases rule: syscall_cases) (simp_all add: append_to_def succeeded)
  qed
qed

lemma remove_file_others: "remove_file p d = (r, d') \<Longrightarrow> q \<noteq> p \<Longrightarrow> files d' q = files d q"
  unfolding remove_file_def by (auto elim!: syscall_cases)

lemma write_renamed_spec:
  assumes "write_renamed tmp path text d = (r, d')"
  shows "(\<forall>q. q \<noteq> tmp \<and> q \<noteq> path \<longrightarrow> files d' q = files d q) \<and>
    (case r of Inl e \<Rightarrow> path \<noteq> tmp \<longrightarrow> files d' path = files d path
     | Inr u \<Rightarrow> path \<noteq> tmp \<longrightarrow> files d' path = Some (str_bytes text) \<and> files d' tmp = None)"
proof -
  obtain r1 d1 where w: "write_file tmp (str_bytes text) d = (r1, d1)" by fastforce
  note 1 = write_file_spec[OF w]
  show ?thesis
  proof (cases r1)
    case (Inl e)
    then show ?thesis using assms w 1 by (auto simp: write_renamed_def)
  next
    case (Inr u)
    then show ?thesis using assms w 1
      by (auto simp: write_renamed_def rename_file_def split: prod.splits sum.splits elim!: syscall_cases)
  qed
qed

text \<open>
  C31: writing the configuration is all or nothing. Whatever system call fails or stops half-way, the
  file holds either what it held before, when an error is returned, or the whole new text and the
  final line break, when the write succeeds; no file but it and its temporary neighbour is touched,
  and a success leaves no temporary file.
\<close>

theorem config_write_atomic:
  assumes "write_config pretty path v d = (r, d')"
  shows "(case r of
      Inl e \<Rightarrow> files d' path = files d path
    | Inr u \<Rightarrow> \<exists>text. pretty v = Some text \<and> files d' path = Some (str_bytes (text @ [CHR 0x0A])) \<and>
        files d' (path @ ''.tmp'') = None) \<and>
    (\<forall>q. q \<noteq> path \<and> q \<noteq> path @ ''.tmp'' \<longrightarrow> files d' q = files d q)"
proof -
  let ?tmp = "path @ ''.tmp''"
  obtain r1 d1 where p: "(case path_parent path of None \<Rightarrow> io_ret () | Some parent \<Rightarrow> quiet parent) d = (r1, d1)"
    by fastforce
  then have d1: "files d1 = files d" by (auto elim!: quiet_cases split: option.splits)
  show ?thesis
  proof (cases "\<exists>u text. r1 = Inr u \<and> pretty v = Some text")
    case False
    then show ?thesis using assms p d1
      by (cases r1) (auto simp: write_config_def split: option.splits)
  next
    case True
    then obtain u t where 1: "r1 = Inr u" "pretty v = Some t" by blast
    obtain r2 d2 where w: "write_renamed ?tmp path (t @ [CHR 0x0A]) d1 = (r2, d2)" by fastforce
    note spec = write_renamed_spec[OF w]
    show ?thesis
    proof (cases r2)
      case (Inr u)
      then have "r = Inr ()" "d' = d2" using assms p 1 w by (simp_all add: write_config_def Let_def)
      then show ?thesis using spec Inr d1 1(2) by simp
    next
      case (Inl e)
      obtain r3 d3 where rm: "remove_file ?tmp d2 = (r3, d3)" by fastforce
      then have "r = Inl e" "d' = d3" using assms p 1 w Inl by (simp_all add: write_config_def Let_def)
      then show ?thesis using spec Inl d1 remove_file_others[OF rm] by simp
    qed
  qed
qed

theorem config_write_atomic_witness:
  "files (snd (write_config (\<lambda>v. Some ''{}'') ''f'' (JObject []) \<lparr>files = Map.empty, io_script = (\<lambda>n. if n = 1 then Some 1 else None),
      io_count = 0, lock_script = []\<rparr>)) ''f'' = None"
proof -
  let ?d = "\<lparr>files = Map.empty, io_script = (\<lambda>n. if n = 1 then Some 1 else None), io_count = 0, lock_script = []\<rparr> :: disk"
  let ?run = "write_config (\<lambda>v. Some ''{}'') ''f'' (JObject []) ?d"
  have "isl (fst ?run)"
    by (simp add: write_config_def path_parent_def Let_def write_renamed_def write_file_def create_empty_def
        write_all_def io_bind_def syscall_def quiet_def)
  then obtain e where "fst ?run = Inl e" by (cases "fst ?run") auto
  then have "?run = (Inl e, snd ?run)" by (metis prod.collapse)
  from config_write_atomic[OF this] show ?thesis by simp
qed

end
