(* ===== verification/Sources.thy ===== *)
theory Sources
  imports Chunk Driver Paths
begin

text \<open>
  What the import sources of \<open>singularmem-ingest\<close> share: the project filter and the default scope
  (\<open>project_filter.rs\<close>), both with a memo for the last directory, and the external ids of the chunks
  a text is cut into. The file system's \<open>canonicalize\<close> is a parameter that does not change while a
  source is read.
\<close>

section \<open>The project filter\<close>

record project_filter =
  pf_raw :: string
  pf_canonical :: "string option"
  pf_memo :: "(string \<times> bool) option"

type_synonym canonicalize = "string \<Rightarrow> string option"

definition new_filter :: "canonicalize \<Rightarrow> string \<Rightarrow> project_filter" where
  "new_filter canon raw = \<lparr>pf_raw = raw, pf_canonical = canon raw, pf_memo = None\<rparr>"

text \<open>Paths are equal when their components are.\<close>

definition same_directory :: "canonicalize \<Rightarrow> string \<Rightarrow> string option \<Rightarrow> string \<Rightarrow> bool" where
  "same_directory canon raw canonical cwd \<longleftrightarrow>
     path_components raw = path_components cwd \<or>
     (case (canonical, canon cwd) of
        (Some a, Some b) \<Rightarrow> path_components a = path_components b | _ \<Rightarrow> False)"

definition matches :: "canonicalize \<Rightarrow> project_filter \<Rightarrow> string option \<Rightarrow> bool \<times> project_filter" where
  "matches canon f cwd_opt = (case cwd_opt of
     None \<Rightarrow> (False, f)
   | Some cwd \<Rightarrow>
       let verdict = same_directory canon (pf_raw f) (pf_canonical f) cwd;
           fresh = (verdict, f\<lparr>pf_memo := Some (cwd, verdict)\<rparr>)
       in (case pf_memo f of
             None \<Rightarrow> fresh
           | Some (seen, v) \<Rightarrow> if seen = cwd then (v, f) else fresh))"

text \<open>\<open>Option<&mut ProjectFilter>\<close>: no filter keeps every line.\<close>

definition passes ::
  "canonicalize \<Rightarrow> project_filter option \<Rightarrow> string option \<Rightarrow> bool \<times> project_filter option"
where
  "passes canon fo cwd = (case fo of None \<Rightarrow> (True, None)
     | Some f \<Rightarrow> (case matches canon f cwd of (v, f') \<Rightarrow> (v, Some f')))"

section \<open>Scopes\<close>

definition derive_scope :: "string \<Rightarrow> string \<Rightarrow> string option" where
  "derive_scope pre dir = (case file_name dir of
     None \<Rightarrow> None
   | Some base \<Rightarrow> (case validate (pre @ ''/'' @ base) of Inr s \<Rightarrow> Some s | Inl e \<Rightarrow> None))"

type_synonym scope_memo = "(string \<times> string option) option"

definition memo_scope :: "string \<Rightarrow> string \<Rightarrow> scope_memo \<Rightarrow> string option \<times> scope_memo" where
  "memo_scope pre dir memo =
     (let r = derive_scope pre dir; fresh = (r, Some (dir, r))
      in (case memo of None \<Rightarrow> fresh
          | Some (seen, result) \<Rightarrow> if seen = dir then (result, memo) else fresh))"

text \<open>\<open>default_scope\<close>: a valid override wins; otherwise the directory recorded in the item's metadata.\<close>

definition metadata_str :: "string \<Rightarrow> new_item \<Rightarrow> string option" where
  "metadata_str k it = Option.bind (json_get k (n_metadata it)) as_str"

definition override_scope :: "string option \<Rightarrow> string option \<Rightarrow> string option" where
  "override_scope ov derived = (case ov of
     None \<Rightarrow> derived
   | Some raw \<Rightarrow> (case validate raw of Inr s \<Rightarrow> Some s | Inl e \<Rightarrow> derived))"

definition default_scope :: "string \<Rightarrow> string \<Rightarrow> string option \<Rightarrow> new_item \<Rightarrow> string option" where
  "default_scope pre key ov it =
     override_scope ov (Option.bind (metadata_str key it) (\<lambda>dir. fst (memo_scope pre dir None)))"

definition default_scope_memo ::
  "string \<Rightarrow> string \<Rightarrow> string option \<Rightarrow> new_item \<Rightarrow> scope_memo \<Rightarrow> string option \<times> scope_memo"
where
  "default_scope_memo pre key ov it memo =
     (case Option.bind ov (\<lambda>raw. case validate raw of Inr s \<Rightarrow> Some s | Inl e \<Rightarrow> None) of
        Some s \<Rightarrow> (Some s, memo)
      | None \<Rightarrow> (case metadata_str key it of
            None \<Rightarrow> (None, memo) | Some dir \<Rightarrow> memo_scope pre dir memo))"

section \<open>Memos are transparent\<close>

definition filter_ok :: "canonicalize \<Rightarrow> string \<Rightarrow> project_filter \<Rightarrow> bool" where
  "filter_ok canon raw f \<longleftrightarrow> pf_raw f = raw \<and> pf_canonical f = canon raw \<and>
     (case pf_memo f of None \<Rightarrow> True | Some (c, v) \<Rightarrow> v = same_directory canon raw (canon raw) c)"

definition in_project :: "canonicalize \<Rightarrow> string option \<Rightarrow> string option \<Rightarrow> bool" where
  "in_project canon project cwd_opt = (case project of
     None \<Rightarrow> True
   | Some raw \<Rightarrow> (case cwd_opt of None \<Rightarrow> False | Some cwd \<Rightarrow> same_directory canon raw (canon raw) cwd))"

lemma filter_ok_new: "filter_ok canon raw (new_filter canon raw)"
  by (simp add: filter_ok_def new_filter_def)

lemma matches_ok:
  assumes "filter_ok canon raw f" "matches canon f cwd = (v, f')"
  shows "v = in_project canon (Some raw) cwd" "filter_ok canon raw f'"
  using assms
  by (auto simp: matches_def filter_ok_def in_project_def Let_def split: option.splits prod.splits if_splits)

definition passes_ok :: "canonicalize \<Rightarrow> string option \<Rightarrow> project_filter option \<Rightarrow> bool" where
  "passes_ok canon project fo = (case (project, fo) of
     (None, None) \<Rightarrow> True | (Some raw, Some f) \<Rightarrow> filter_ok canon raw f | _ \<Rightarrow> False)"

lemma passes_ok_start: "passes_ok canon project (map_option (new_filter canon) project)"
  by (cases project) (simp_all add: passes_ok_def filter_ok_new)

lemma passes_sound:
  assumes "passes_ok canon project fo" "passes canon fo cwd = (v, fo')"
  shows "v = in_project canon project cwd" "passes_ok canon project fo'"
  using assms matches_ok
  by (cases project; cases fo; auto simp: passes_ok_def passes_def in_project_def split: prod.splits)+

definition scope_memo_ok :: "string \<Rightarrow> scope_memo \<Rightarrow> bool" where
  "scope_memo_ok pre memo = (case memo of None \<Rightarrow> True | Some (dir, r) \<Rightarrow> r = derive_scope pre dir)"

lemma default_scope_memo_sound:
  assumes "scope_memo_ok pre memo" "default_scope_memo pre key ov it memo = (r, memo')"
  shows "r = default_scope pre key ov it" "scope_memo_ok pre memo'"
  using assms
  by (auto simp: default_scope_memo_def default_scope_def override_scope_def memo_scope_def scope_memo_ok_def
      Let_def split: option.splits sum.splits prod.splits if_splits)

section \<open>Chunks and their external ids\<close>

definition chunk_id :: "string \<Rightarrow> nat \<Rightarrow> nat \<Rightarrow> string" where
  "chunk_id base n i = (if n = 1 then base else base @ ''#'' @ show_nat i)"

lemma chunk_id_inject: "i < n \<Longrightarrow> j < n \<Longrightarrow> chunk_id base n i = chunk_id base n j \<longleftrightarrow> i = j"
  by (auto simp: chunk_id_def)

lemma distinct_chunk_ids: "distinct (map (chunk_id base n) [0..<n])"
  by (auto simp: distinct_map inj_on_def chunk_id_inject)

definition json_opt :: "string option \<Rightarrow> json" where
  "json_opt s = (case s of None \<Rightarrow> JNull | Some t \<Rightarrow> JString t)"

text \<open>\<open>t.parse::<jiff::Timestamp>()\<close>, printed again.\<close>

definition occurred_at :: "externals \<Rightarrow> string option \<Rightarrow> string option" where
  "occurred_at x t = Option.bind t (\<lambda>s. map_option (ts_display x) (ts_parse x s))"

text \<open>What \<open>BufRead::lines\<close> yields of a file: a line, or an error for a line that cannot be read.\<close>

type_synonym text_lines = "string option list"

text \<open>An entry of a walk: an error with its path, if it has one, or a path and whether it is a file.\<close>

type_synonym walk_entry = "string option + string \<times> bool"

definition walk_error_path :: "string option \<Rightarrow> string \<Rightarrow> string" where
  "walk_error_path e root = (case e of Some p \<Rightarrow> p | None \<Rightarrow> root)"

end
