(* ===== verification/Claude.thy ===== *)
theory Claude
  imports Sources
begin

text \<open>
  \<open>singularmem-ingest/src/claude.rs\<close>: the items of a Claude Code session file, one per chunk of a
  message that carries text. The deserialiser derived for a line is a parameter.
\<close>

section \<open>Lines\<close>

record claude_line =
  cl_kind :: string
  cl_uuid :: "string option"
  cl_parent_uuid :: "string option"
  cl_session_id :: "string option"
  cl_timestamp :: "string option"
  cl_cwd :: "string option"
  cl_git_branch :: "string option"
  cl_is_sidechain :: "bool option"
  cl_is_meta :: "bool option"
  cl_message :: "json option option"

record claude_transcript =
  ct_path :: string
  ct_include_sidechains :: bool
  ct_project_filter :: "string option"
  ct_chunk_bytes :: nat
  ct_scope_override :: "string option"

definition open_claude :: "(string \<Rightarrow> bool) \<Rightarrow> string \<Rightarrow> ingest_error + claude_transcript" where
  "open_claude is_file path =
     (if is_file path then Inr \<lparr>ct_path = path, ct_include_sidechains = False, ct_project_filter = None,
        ct_chunk_bytes = DEFAULT_CHUNK_BYTES, ct_scope_override = None\<rparr>
      else Inl (Not_Found path))"

section \<open>The text of a message\<close>

definition block_texts :: "json \<Rightarrow> string list" where
  "block_texts b = (if Option.bind (json_get ''type'' b) as_str = Some ''text''
     then (case Option.bind (json_get ''text'' b) as_str of None \<Rightarrow> [] | Some t \<Rightarrow> [t]) else [])"

definition block_tools :: "json \<Rightarrow> string list" where
  "block_tools b = (if Option.bind (json_get ''type'' b) as_str = Some ''tool_use''
     then (case Option.bind (json_get ''name'' b) as_str of None \<Rightarrow> [] | Some n \<Rightarrow> [n]) else [])"

fun extract_text :: "json \<Rightarrow> string \<times> string list" where
  "extract_text (JString s) = (s, [])"
| "extract_text (JArray blocks) =
     (join [newline, newline] (concat (map block_texts blocks)), concat (map block_tools blocks))"
| "extract_text _ = ([], [])"

definition OPEN_TAG :: string where "OPEN_TAG = ''<system-reminder>''"
definition CLOSE_TAG :: string where "CLOSE_TAG = ''</system-reminder>''"

text \<open>The loop of \<open>strip_system_reminders\<close>; its value is what the loop still adds to \<open>out\<close>.\<close>

function strip_spans :: "string \<Rightarrow> string" where
  "strip_spans rest = (case find_sub OPEN_TAG rest of
     None \<Rightarrow> rest
   | Some start \<Rightarrow>
       let after = drop (start + length OPEN_TAG) rest
       in take start rest @
          (case find_sub CLOSE_TAG after of
             Some e \<Rightarrow> strip_spans (drop (e + length CLOSE_TAG) after)
           | None \<Rightarrow> strip_spans []))"
  by pat_completeness auto
termination
  by (relation "measure length") (auto simp: OPEN_TAG_def dest!: find_sub_SomeD)

declare strip_spans.simps [simp del]

definition strip_system_reminders :: "string \<Rightarrow> string" where
  "strip_system_reminders s = trim (strip_spans s)"

section \<open>Items\<close>

definition claude_item ::
  "externals \<Rightarrow> claude_line \<Rightarrow> string \<Rightarrow> string \<Rightarrow> string \<Rightarrow> bool \<Rightarrow> string list \<Rightarrow> nat \<Rightarrow> nat \<times> string \<Rightarrow> new_item"
where
  "claude_item x line role session_id uuid sidechain tool_names chunk_count p = (case p of (i, c) \<Rightarrow>
    \<lparr>n_content = c, n_supersedes = None,
     n_tags = sort ([''claude-code'', ''role:'' @ role, ''transcript''] @ (if sidechain then [''sidechain''] else [])),
     n_source = Some (''claude-code:'' @ session_id),
     n_metadata = JObject
       [(''session_id'', JString session_id), (''uuid'', JString uuid),
        (''parent_uuid'', json_opt (cl_parent_uuid line)), (''role'', JString role),
        (''cwd'', json_opt (cl_cwd line)), (''git_branch'', json_opt (cl_git_branch line)),
        (''occurred_at'', json_opt (occurred_at x (cl_timestamp line))),
        (''tool_names'', JArray (map JString tool_names)),
        (''chunk_index'', JNumber (int i)), (''chunk_count'', JNumber (int chunk_count))],
     n_external_id = Some (chunk_id (''claude-code:'' @ session_id @ '':'' @ uuid) chunk_count i),
     n_scope = None\<rparr>)"

definition claude_stem :: "claude_transcript \<Rightarrow> string" where
  "claude_stem c = (case file_stem (ct_path c) of None \<Rightarrow> ''unknown'' | Some s \<Rightarrow> s)"

text \<open>\<open>None\<close> is a structural line, \<open>Some []\<close> a message that is filtered (and counted).\<close>

definition claude_message_items ::
  "externals \<Rightarrow> claude_transcript \<Rightarrow> claude_line \<Rightarrow> string \<Rightarrow> bool \<Rightarrow> new_item list"
where
  "claude_message_items x c line role sidechain =
     (case cl_uuid line of None \<Rightarrow> [] | Some uuid \<Rightarrow>
     (case cl_message line of None \<Rightarrow> [] | Some msg \<Rightarrow>
     (case msg of None \<Rightarrow> [] | Some body \<Rightarrow>
        let (raw, tool_names) = extract_text body;
            txt = (if role = ''user'' then strip_system_reminders raw else raw);
            chunks = chunk_text txt (ct_chunk_bytes c);
            session_id = (case cl_session_id line of Some s \<Rightarrow> s | None \<Rightarrow> claude_stem c)
        in map (claude_item x line role session_id uuid sidechain tool_names (length chunks))
             (List.enumerate 0 chunks))))"

definition claude_line_items ::
  "externals \<Rightarrow> canonicalize \<Rightarrow> claude_transcript \<Rightarrow> claude_line \<Rightarrow> project_filter option \<Rightarrow>
     new_item list option \<times> project_filter option"
where
  "claude_line_items x canon c line fo =
     (if cl_kind line \<noteq> ''user'' \<and> cl_kind line \<noteq> ''assistant'' then (None, fo)
      else if cl_is_meta line = Some True then (Some [], fo)
      else let sidechain = (cl_is_sidechain line = Some True) in
        if sidechain \<and> \<not> ct_include_sidechains c then (Some [], fo)
        else (case passes canon fo (cl_cwd line) of (pass, fo') \<Rightarrow>
          if \<not> pass then (Some [], fo')
          else (Some (claude_message_items x c line (cl_kind line) sidechain), fo')))"

section \<open>The source\<close>

text \<open>The loop over the lines, its state the project filter and the count of filtered messages.\<close>

fun claude_lines ::
  "externals \<Rightarrow> canonicalize \<Rightarrow> (string \<Rightarrow> claude_line option) \<Rightarrow> claude_transcript \<Rightarrow> nat \<Rightarrow>
     project_filter option \<Rightarrow> text_lines \<Rightarrow> (ingest_error + new_item) list \<times> nat"
where
  "claude_lines x canon parse c line_no fo [] = ([], 0)"
| "claude_lines x canon parse c line_no fo (raw # raws) =
     (case raw of
        None \<Rightarrow> (case claude_lines x canon parse c (line_no + 1) fo raws of
            (out, n) \<Rightarrow> (Inl (Io_Error (ct_path c)) # out, n))
      | Some s \<Rightarrow>
          if trim s = [] then claude_lines x canon parse c (line_no + 1) fo raws
          else (case parse s of
              None \<Rightarrow> (case claude_lines x canon parse c (line_no + 1) fo raws of
                  (out, n) \<Rightarrow> (Inl (Json_Error (ct_path c) line_no) # out, n))
            | Some line \<Rightarrow> (case claude_line_items x canon c line fo of (found, fo') \<Rightarrow>
                case claude_lines x canon parse c (line_no + 1) fo' raws of (out, n) \<Rightarrow>
                  (case found of
                     None \<Rightarrow> (out, n)
                   | Some its \<Rightarrow> (map Inr its @ out, if its = [] then n + 1 else n)))))"

text \<open>\<open>contents\<close> is \<open>None\<close> when the file cannot be opened.\<close>

definition claude_source ::
  "externals \<Rightarrow> canonicalize \<Rightarrow> (string \<Rightarrow> claude_line option) \<Rightarrow> claude_transcript \<Rightarrow> text_lines option \<Rightarrow> import_source"
where
  "claude_source x canon parse c contents =
     (case (case contents of
          None \<Rightarrow> ([Inl (Io_Error (ct_path c))], 0)
        | Some raws \<Rightarrow> claude_lines x canon parse c 1 (map_option (new_filter canon) (ct_project_filter c)) raws) of
        (its, n) \<Rightarrow> \<lparr>src_items = its, src_filtered = n,
          src_default_scope = default_scope ''claude-code'' ''cwd'' (ct_scope_override c)\<rparr>)"

text \<open>The files of a tree, sorted as paths: component by component. The first error ends the walk.\<close>

fun collect_transcripts :: "string \<Rightarrow> walk_entry list \<Rightarrow> ingest_error + string list" where
  "collect_transcripts root [] = Inr []"
| "collect_transcripts root (e # es) = (case e of
     Inl err \<Rightarrow> Inl (Io_Error (walk_error_path err root))
   | Inr (p, is_file) \<Rightarrow> (case collect_transcripts root es of
         Inl err \<Rightarrow> Inl err
       | Inr ps \<Rightarrow> Inr (if is_file \<and> extension p = Some ''jsonl'' then p # ps else ps)))"

definition discover_transcripts :: "bool \<Rightarrow> string \<Rightarrow> walk_entry list \<Rightarrow> ingest_error + string list" where
  "discover_transcripts root_exists root es =
     (if \<not> root_exists then Inl (Not_Found root)
      else map_sum id (sort_key path_components) (collect_transcripts root es))"

section \<open>What a transcript yields\<close>

text \<open>The same, line by line, without the memo of the filter.\<close>

definition claude_line_meaning ::
  "externals \<Rightarrow> canonicalize \<Rightarrow> claude_transcript \<Rightarrow> claude_line \<Rightarrow> new_item list option"
where
  "claude_line_meaning x canon c line =
     (if cl_kind line \<notin> {''user'', ''assistant''} then None
      else if cl_is_meta line = Some True \<or>
          cl_is_sidechain line = Some True \<and> \<not> ct_include_sidechains c \<or>
          \<not> in_project canon (ct_project_filter c) (cl_cwd line) then Some []
      else Some (claude_message_items x c line (cl_kind line) (cl_is_sidechain line = Some True)))"

definition claude_raw_meaning ::
  "externals \<Rightarrow> canonicalize \<Rightarrow> (string \<Rightarrow> claude_line option) \<Rightarrow> claude_transcript \<Rightarrow>
     nat \<times> string option \<Rightarrow> (ingest_error + new_item) list \<times> bool"
where
  "claude_raw_meaning x canon parse c p = (case p of
     (n, None) \<Rightarrow> ([Inl (Io_Error (ct_path c))], False)
   | (n, Some s) \<Rightarrow>
       if trim s = [] then ([], False)
       else (case parse s of None \<Rightarrow> ([Inl (Json_Error (ct_path c) n)], False)
         | Some line \<Rightarrow> (case claude_line_meaning x canon c line of
               None \<Rightarrow> ([], False) | Some its \<Rightarrow> (map Inr its, its = []))))"

lemma claude_line_items_meaning:
  assumes "passes_ok canon (ct_project_filter c) fo" "claude_line_items x canon c line fo = (r, fo')"
  shows "r = claude_line_meaning x canon c line \<and> passes_ok canon (ct_project_filter c) fo'"
  using assms passes_sound[OF assms(1)]
  by (auto simp: claude_line_items_def claude_line_meaning_def Let_def split: prod.splits if_splits)

lemma claude_lines_meaning:
  assumes "passes_ok canon (ct_project_filter c) fo"
  shows "claude_lines x canon parse c n fo raws =
    (concat (map (\<lambda>p. fst (claude_raw_meaning x canon parse c p)) (List.enumerate n raws)),
     length (filter (\<lambda>p. snd (claude_raw_meaning x canon parse c p)) (List.enumerate n raws)))"
  using assms
proof (induction raws arbitrary: n fo)
  case (Cons raw raws)
  show ?case
  proof (cases "\<exists>s line. raw = Some s \<and> trim s \<noteq> [] \<and> parse s = Some line")
    case False
    then show ?thesis using Cons
      by (auto simp: claude_raw_meaning_def split: option.splits prod.splits)
  next
    case True
    then obtain s line where 1: "raw = Some s" "trim s \<noteq> []" "parse s = Some line" by blast
    obtain r fo' where i: "claude_line_items x canon c line fo = (r, fo')" by fastforce
    note m = claude_line_items_meaning[OF Cons.prems i]
    show ?thesis using Cons.IH[of fo' "Suc n"] m 1 i
      by (auto simp: claude_raw_meaning_def split: option.splits)
  qed
qed simp

section \<open>Properties\<close>

text \<open>
  C38: a transcript is read line by line: the source yields, in order, the error of every line that
  cannot be read or parsed and the items of every user or assistant message that is neither meta, nor
  a side chain that is not wanted, nor outside the project, and counts as filtered exactly the
  messages that give no item. The memo of the project filter has no effect.
\<close>

theorem claude_source_meaning:
  "src_items (claude_source x canon parse c (Some raws)) =
      concat (map (\<lambda>p. fst (claude_raw_meaning x canon parse c p)) (List.enumerate 1 raws)) \<and>
   src_filtered (claude_source x canon parse c (Some raws)) =
      length (filter (\<lambda>p. snd (claude_raw_meaning x canon parse c p)) (List.enumerate 1 raws))"
  using claude_lines_meaning[OF passes_ok_start[of canon "ct_project_filter c"], of x parse 1 raws]
  by (simp add: claude_source_def)

lemma find_sub_None: "find_sub p s = None \<longleftrightarrow> \<not> sublist p s"
  by (induction p s rule: find_sub.induct) (auto simp: sublist_Cons_right)

text \<open>The opening tag occurs first where it was put, since no tag overlaps another.\<close>

lemma find_sub_first:
  assumes "\<not> sublist (CHR ''<'' # t) p" "CHR ''<'' \<notin> set t"
  shows "find_sub (CHR ''<'' # t) (p @ CHR ''<'' # t @ r) = Some (length p)"
  using assms(1)
proof (induction p)
  case (Cons c p)
  have "\<not> prefix (CHR ''<'' # t) ((c # p) @ CHR ''<'' # t @ r)"
  proof
    assume "prefix (CHR ''<'' # t) ((c # p) @ CHR ''<'' # t @ r)"
    then have c: "c = CHR ''<''" "prefix t (p @ CHR ''<'' # t @ r)" by auto
    then consider "prefix t p" | u where "t = p @ u" "prefix u (CHR ''<'' # t @ r)"
      by (auto simp: prefix_append)
    then show False
    proof cases
      case 1
      then have "prefix (CHR ''<'' # t) (c # p)" using c(1) by simp
      then show False using Cons.prems prefix_imp_sublist by blast
    next
      case 2
      then have "u = []" using assms(2) by (cases u) auto
      then have "prefix (CHR ''<'' # t) (c # p)" using 2(1) c(1) by simp
      then show False using Cons.prems prefix_imp_sublist by blast
    qed
  qed
  moreover have "\<not> sublist (CHR ''<'' # t) p" using Cons.prems by (simp add: sublist_Cons_right)
  ultimately show ?case using Cons.IH by simp
qed simp

lemma strip_open_first:
  "\<not> sublist OPEN_TAG p \<Longrightarrow> find_sub OPEN_TAG (p @ OPEN_TAG @ r) = Some (length p)"
  using find_sub_first[of "''system-reminder>''" p r] by (simp add: OPEN_TAG_def)

lemma strip_close_first:
  "\<not> sublist CLOSE_TAG p \<Longrightarrow> find_sub CLOSE_TAG (p @ CLOSE_TAG @ r) = Some (length p)"
  using find_sub_first[of "''/system-reminder>''" p r] by (simp add: CLOSE_TAG_def)

lemma strip_span:
  assumes "\<not> sublist OPEN_TAG p" "\<not> sublist CLOSE_TAG b"
  shows "strip_spans (p @ OPEN_TAG @ b @ CLOSE_TAG @ r) = p @ strip_spans r"
  using strip_open_first[OF assms(1), of "b @ CLOSE_TAG @ r"] strip_close_first[OF assms(2), of r]
  by (subst strip_spans.simps) (simp add: Let_def)

lemma strip_no_span: "\<not> sublist OPEN_TAG p \<Longrightarrow> strip_spans p = p"
  by (subst strip_spans.simps) (simp add: find_sub_None[symmetric])

lemma strip_open_span:
  assumes "\<not> sublist OPEN_TAG p" "\<not> sublist CLOSE_TAG b"
  shows "strip_spans (p @ OPEN_TAG @ b) = p"
proof -
  have "find_sub OPEN_TAG [] = None" by (simp add: OPEN_TAG_def)
  then have "strip_spans [] = []" by (subst strip_spans.simps) simp
  then show ?thesis
    using strip_open_first[OF assms(1), of b] assms(2)
    by (subst strip_spans.simps) (simp add: Let_def find_sub_None[symmetric])
qed

text \<open>A text with its reminders marked: pieces to keep, each followed by a reminder, and a last piece.\<close>

definition with_reminders :: "(string \<times> string) list \<Rightarrow> string \<Rightarrow> string" where
  "with_reminders spans lst = concat (map (\<lambda>(p, b). p @ OPEN_TAG @ b @ CLOSE_TAG) spans) @ lst"

text \<open>
  system reminders are cut out of what the user said. Whatever stands between and around them is
  kept, in order, for every text that is built of reminders and pieces without an opening tag; and a
  reminder that is not closed removes the rest.
\<close>

theorem reminders_are_removed:
  assumes "list_all (\<lambda>(p, b). \<not> sublist OPEN_TAG p \<and> \<not> sublist CLOSE_TAG b) spans" "\<not> sublist OPEN_TAG lst"
  shows "strip_system_reminders (with_reminders spans lst) = trim (concat (map fst spans) @ lst) \<and>
    (\<not> sublist CLOSE_TAG b \<longrightarrow>
      strip_system_reminders (with_reminders spans (lst @ OPEN_TAG @ b)) = trim (concat (map fst spans) @ lst))"
proof -
  have "strip_spans (with_reminders spans s) = concat (map fst spans) @ strip_spans s" for s
    using assms(1)
  proof (induction spans)
    case (Cons e spans)
    obtain p b where e: "e = (p, b)" by (cases e)
    show ?case using Cons strip_span[of p b "with_reminders spans s"] by (simp add: e with_reminders_def)
  qed (simp add: with_reminders_def)
  then show ?thesis
    using strip_no_span[OF assms(2)] strip_open_span[OF assms(2)] by (simp add: strip_system_reminders_def)
qed

theorem reminders_are_removed_witness:
  "strip_system_reminders (with_reminders [(''a '', ''x'')] ''b'') = trim ''a b''"
proof -
  have "\<not> sublist OPEN_TAG ''a ''" "\<not> sublist CLOSE_TAG ''x''" "\<not> sublist OPEN_TAG ''b''"
    by (auto simp: OPEN_TAG_def CLOSE_TAG_def dest: sublist_length_le)
  then show ?thesis using reminders_are_removed[of "[(''a '', ''x'')]" "''b''"] by simp
qed

text \<open>What is left of a reminder inside an opening tag is an opening tag.\<close>

lemma nested_reminder_survives:
  "strip_system_reminders ''<system-<system-reminder></system-reminder>reminder>'' = OPEN_TAG"
proof -
  have "strip_spans (''<system-'' @ OPEN_TAG @ [] @ CLOSE_TAG @ ''reminder>'') = ''<system-'' @ strip_spans ''reminder>''"
    by (rule strip_span) (auto simp: OPEN_TAG_def CLOSE_TAG_def dest: sublist_length_le)
  moreover have "strip_spans ''reminder>'' = ''reminder>''"
    by (rule strip_no_span) (auto simp: OPEN_TAG_def dest: sublist_length_le)
  ultimately have "strip_spans ''<system-<system-reminder></system-reminder>reminder>'' = OPEN_TAG"
    by (simp add: OPEN_TAG_def CLOSE_TAG_def)
  moreover have "trim OPEN_TAG = OPEN_TAG" by code_simp
  ultimately show ?thesis by (simp add: strip_system_reminders_def)
qed

text \<open>
  What is discovered: exactly the regular files named \<open>*.jsonl\<close>, as often as the walk finds them, in
  the order of their components.
\<close>

lemma collect_transcripts_files:
  "collect_transcripts root es = Inr ps \<Longrightarrow>
     set ps = {p. Inr (p, True) \<in> set es \<and> extension p = Some ''jsonl''}"
proof (induction es arbitrary: ps)
  case (Cons e es)
  then obtain q is_file ps' where e: "e = Inr (q, is_file)" and r: "collect_transcripts root es = Inr ps'"
    by (cases e) (auto split: sum.splits)
  have "set ps = (if is_file \<and> extension q = Some ''jsonl'' then insert q (set ps') else set ps')"
    using Cons.prems e r by auto
  then show ?case using Cons.IH[OF r] e by auto
qed simp

lemma discovered_transcripts:
  assumes "discover_transcripts root_exists root es = Inr ps"
  shows "set ps = {p. Inr (p, True) \<in> set es \<and> extension p = Some ''jsonl''}" "sorted (map path_components ps)"
proof -
  obtain qs where "collect_transcripts root es = Inr qs" "ps = sort_key path_components qs"
    using assms by (cases "collect_transcripts root es") (auto simp: discover_transcripts_def split: if_splits)
  then show "set ps = {p. Inr (p, True) \<in> set es \<and> extension p = Some ''jsonl''}" "sorted (map path_components ps)"
    using collect_transcripts_files[of root es qs] by simp_all
qed

text \<open>Paths are not ordered as strings: a directory sorts before a longer name beside it.\<close>

lemma path_order_is_not_string_order:
  "path_components ''/t/b/inner.jsonl'' < path_components ''/t/b-file.jsonl''" "''/t/b-file.jsonl'' < ''/t/b/inner.jsonl''"
proof -
  have "path_components ''/t/b/inner.jsonl'' = [''/'', ''t'', ''b'', ''inner.jsonl'']"
    "path_components ''/t/b-file.jsonl'' = [''/'', ''t'', ''b-file.jsonl'']"
    by (simp_all add: path_components_def)
  then show "path_components ''/t/b/inner.jsonl'' < path_components ''/t/b-file.jsonl''" by simp
qed simp

end
