(* ===== verification/Codex.thy ===== *)
theory Codex
  imports Claude
begin

text \<open>
  \<open>singularmem-ingest/src/codex.rs\<close>: the items of a Codex rollout. A \<open>session_meta\<close> line names the
  session for the lines after it; items are identified by session, line and chunk. The deserialiser
  derived for a line is a parameter.
\<close>

section \<open>Lines and sessions\<close>

record codex_line =
  xl_timestamp :: "string option"
  xl_kind :: string
  xl_payload :: "json option"

record codex_session =
  cs_id :: string
  cs_cwd :: "string option"

record codex_rollout =
  cr_path :: string
  cr_project_filter :: "string option"
  cr_scope_override :: "string option"
  cr_chunk_bytes :: nat

definition open_codex :: "(string \<Rightarrow> bool) \<Rightarrow> string \<Rightarrow> ingest_error + codex_rollout" where
  "open_codex is_file path =
     (if is_file path then Inr \<lparr>cr_path = path, cr_project_filter = None, cr_scope_override = None,
        cr_chunk_bytes = DEFAULT_CHUNK_BYTES\<rparr>
      else Inl (Not_Found path))"

definition codex_stem :: "codex_rollout \<Rightarrow> string" where
  "codex_stem c = (case file_stem (cr_path c) of None \<Rightarrow> ''unknown'' | Some s \<Rightarrow> s)"

definition str_at :: "string \<Rightarrow> json \<Rightarrow> string option" where
  "str_at k v = Option.bind (json_get k v) as_str"

section \<open>Items\<close>

definition codex_text :: "json option \<Rightarrow> string" where
  "codex_text body = (case Option.bind body as_str of
     Some s \<Rightarrow> s
   | None \<Rightarrow> (case Option.bind body as_array of
       None \<Rightarrow> []
     | Some blocks \<Rightarrow> join [newline, newline] (List.map_filter (str_at ''text'')
         (filter (\<lambda>b. str_at ''type'' b \<in> {Some ''input_text'', Some ''output_text'', Some ''text''}) blocks))))"

definition codex_item ::
  "externals \<Rightarrow> nat \<Rightarrow> codex_line \<Rightarrow> codex_session \<Rightarrow> string \<Rightarrow> nat \<Rightarrow> nat \<times> string \<Rightarrow> new_item"
where
  "codex_item x line_no line session role chunk_count p = (case p of (i, c) \<Rightarrow>
    \<lparr>n_content = c, n_supersedes = None, n_tags = sort [''codex'', ''role:'' @ role, ''transcript''],
     n_source = Some (''codex:'' @ cs_id session),
     n_metadata = JObject
       [(''session_id'', JString (cs_id session)), (''line'', JNumber (int line_no)), (''role'', JString role),
        (''cwd'', json_opt (cs_cwd session)), (''occurred_at'', json_opt (occurred_at x (xl_timestamp line))),
        (''chunk_index'', JNumber (int i)), (''chunk_count'', JNumber (int chunk_count))],
     n_external_id = Some (chunk_id (''codex:'' @ cs_id session @ '':'' @ show_nat line_no) chunk_count i),
     n_scope = None\<rparr>)"

definition codex_message_items ::
  "externals \<Rightarrow> codex_rollout \<Rightarrow> nat \<Rightarrow> codex_line \<Rightarrow> codex_session \<Rightarrow> string \<Rightarrow> json \<Rightarrow> new_item list"
where
  "codex_message_items x c line_no line session role payload =
     (let chunks = chunk_text (codex_text (json_get ''content'' payload)) (cr_chunk_bytes c)
      in map (codex_item x line_no line session role (length chunks)) (List.enumerate 0 chunks))"

definition codex_line_items ::
  "externals \<Rightarrow> canonicalize \<Rightarrow> codex_rollout \<Rightarrow> nat \<Rightarrow> codex_line \<Rightarrow> codex_session \<Rightarrow> project_filter option \<Rightarrow>
     new_item list option \<times> project_filter option"
where
  "codex_line_items x canon c line_no line session fo =
     (if xl_kind line \<noteq> ''response_item'' then (None, fo)
      else (case xl_payload line of
        None \<Rightarrow> (None, fo)
      | Some payload \<Rightarrow>
          if str_at ''type'' payload \<noteq> Some ''message'' then (Some [], fo)
          else (case str_at ''role'' payload of
            None \<Rightarrow> (None, fo)
          | Some role \<Rightarrow>
              if role \<noteq> ''user'' \<and> role \<noteq> ''assistant'' then (Some [], fo)
              else (case passes canon fo (cs_cwd session) of (pass, fo') \<Rightarrow>
                if \<not> pass then (Some [], fo')
                else (Some (codex_message_items x c line_no line session role payload), fo')))))"

section \<open>The source\<close>

text \<open>A \<open>session_meta\<close> line: the id is kept when the line has none, the directory is not.\<close>

definition enter_session :: "codex_line \<Rightarrow> codex_session \<Rightarrow> codex_session" where
  "enter_session line session = (case xl_payload line of
     None \<Rightarrow> session
   | Some p \<Rightarrow> \<lparr>cs_id = (case str_at ''id'' p of None \<Rightarrow> cs_id session | Some i \<Rightarrow> i), cs_cwd = str_at ''cwd'' p\<rparr>)"

text \<open>What one line of the file adds: its items or its error, and whether it is counted as filtered.\<close>

definition codex_step ::
  "externals \<Rightarrow> canonicalize \<Rightarrow> (string \<Rightarrow> codex_line option) \<Rightarrow> codex_rollout \<Rightarrow> nat \<Rightarrow> string option \<Rightarrow>
     codex_session \<Rightarrow> project_filter option \<Rightarrow>
     (ingest_error + new_item) list \<times> nat \<times> codex_session \<times> project_filter option"
where
  "codex_step x canon parse c line_no raw session fo =
     (case raw of
        None \<Rightarrow> ([Inl (Io_Error (cr_path c))], 0, session, fo)
      | Some s \<Rightarrow>
          if trim s = [] then ([], 0, session, fo)
          else (case parse s of
              None \<Rightarrow> ([Inl (Json_Error (cr_path c) line_no)], 0, session, fo)
            | Some line \<Rightarrow>
                if xl_kind line = ''session_meta'' then ([], 0, enter_session line session, fo)
                else (case codex_line_items x canon c line_no line session fo of (found, fo') \<Rightarrow>
                  (case found of
                     None \<Rightarrow> ([], 0, session, fo')
                   | Some its \<Rightarrow> (map Inr its, if its = [] then 1 else 0, session, fo')))))"

fun codex_lines ::
  "externals \<Rightarrow> canonicalize \<Rightarrow> (string \<Rightarrow> codex_line option) \<Rightarrow> codex_rollout \<Rightarrow> nat \<Rightarrow>
     codex_session \<Rightarrow> project_filter option \<Rightarrow> text_lines \<Rightarrow> (ingest_error + new_item) list \<times> nat"
where
  "codex_lines x canon parse c line_no session fo [] = ([], 0)"
| "codex_lines x canon parse c line_no session fo (raw # raws) =
     (case codex_step x canon parse c line_no raw session fo of (out, k, session', fo') \<Rightarrow>
      case codex_lines x canon parse c (line_no + 1) session' fo' raws of (out', k') \<Rightarrow> (out @ out', k + k'))"

definition codex_source ::
  "externals \<Rightarrow> canonicalize \<Rightarrow> (string \<Rightarrow> codex_line option) \<Rightarrow> codex_rollout \<Rightarrow> text_lines option \<Rightarrow> import_source"
where
  "codex_source x canon parse c contents =
     (case (case contents of
          None \<Rightarrow> ([Inl (Io_Error (cr_path c))], 0)
        | Some raws \<Rightarrow> codex_lines x canon parse c 1 \<lparr>cs_id = codex_stem c, cs_cwd = None\<rparr>
            (map_option (new_filter canon) (cr_project_filter c)) raws) of
        (its, n) \<Rightarrow> \<lparr>src_items = its, src_filtered = n,
          src_default_scope = default_scope ''codex'' ''cwd'' (cr_scope_override c)\<rparr>)"

definition default_codex_root :: "string option \<Rightarrow> string option \<Rightarrow> string option" where
  "default_codex_root home userprofile =
     map_option (\<lambda>h. path_join (path_join h ''.codex'') ''sessions'')
       (case home of Some h \<Rightarrow> Some h | None \<Rightarrow> userprofile)"

definition discover_codex_sessions :: "bool \<Rightarrow> string \<Rightarrow> walk_entry list \<Rightarrow> ingest_error + string list" where
  "discover_codex_sessions root_exists root es = (case discover_transcripts root_exists root es of
     Inl e \<Rightarrow> Inl e
   | Inr paths \<Rightarrow> Inr (filter (\<lambda>p. case file_name p of None \<Rightarrow> False | Some n \<Rightarrow> prefix ''rollout-'' n) paths))"

section \<open>The ids of a rollout\<close>

lemma no_sep_split:
  assumes "a @ CHR '':'' # b = a' @ CHR '':'' # b'" "CHR '':'' \<notin> set b" "CHR '':'' \<notin> set b'"
  shows "a = a' \<and> b = b'"
proof -
  have "takeWhile (\<lambda>c. c \<noteq> CHR '':'') (rev b @ CHR '':'' # rev a) = rev b" if "CHR '':'' \<notin> set b" for a b
    using that by (subst takeWhile_append2) auto
  from this[OF assms(2), of a] this[OF assms(3), of a'] arg_cong[OF assms(1), of rev]
  have "b = b'" by simp
  then show ?thesis using assms(1) by simp
qed

definition line_suffix :: "nat \<Rightarrow> nat \<Rightarrow> nat \<Rightarrow> string" where
  "line_suffix line_no n i = show_nat line_no @ (if n = 1 then [] else CHR ''#'' # show_nat i)"

lemma line_suffix_chars: "c \<in> set (line_suffix l n i) \<Longrightarrow> is_ascii_digit c \<or> c = CHR ''#''"
  by (auto simp: line_suffix_def dest: show_nat_digits split: if_splits)

lemma line_suffix_line: "takeWhile (\<lambda>c. c \<noteq> CHR ''#'') (line_suffix l n i) = show_nat l"
proof -
  have "CHR ''#'' \<notin> set (show_nat l)" using show_nat_digits[of "CHR ''#''" l] by (auto simp: is_ascii_digit_def)
  then show ?thesis by (auto simp: line_suffix_def takeWhile_append)
qed

text \<open>Two ids of messages are equal only when line and chunk are.\<close>

lemma codex_id_line:
  assumes "chunk_id (''codex:'' @ s @ '':'' @ show_nat l) n i = chunk_id (''codex:'' @ s' @ '':'' @ show_nat l') n' i'"
  shows "l = l'"
proof -
  have id: "chunk_id (''codex:'' @ s @ '':'' @ show_nat l) n i = (''codex:'' @ s) @ CHR '':'' # line_suffix l n i" for s l n i
    by (simp add: chunk_id_def line_suffix_def)
  have "CHR '':'' \<notin> set (line_suffix l n i)" for l n i
    using line_suffix_chars[of "CHR '':''" l n i] by (auto simp: is_ascii_digit_def)
  with no_sep_split[of "''codex:'' @ s" "line_suffix l n i" "''codex:'' @ s'" "line_suffix l' n' i'"] assms
  have "line_suffix l n i = line_suffix l' n' i'" unfolding id by blast
  then show ?thesis using line_suffix_line by (metis show_nat_inject)
qed

definition ids_of :: "(ingest_error + new_item) list \<Rightarrow> string list" where
  "ids_of out = List.map_filter (\<lambda>r. case r of Inl e \<Rightarrow> None | Inr it \<Rightarrow> n_external_id it) out"

lemma ids_of_simps [simp]: "ids_of [] = []" "ids_of (Inl e # out) = ids_of out" "ids_of (a @ b) = ids_of a @ ids_of b"
  by (simp_all add: ids_of_def map_filter_simps map_filter_def)

definition of_line :: "nat \<Rightarrow> string \<Rightarrow> bool" where
  "of_line l d \<longleftrightarrow> (\<exists>s n i. d = chunk_id (''codex:'' @ s @ '':'' @ show_nat l) n i)"

lemma of_lineI: "of_line l (chunk_id (''codex:'' @ s @ '':'' @ show_nat l) n i)"
  unfolding of_line_def by blast

lemma of_line_unique: "of_line l d \<Longrightarrow> of_line l' d \<Longrightarrow> l = l'"
  unfolding of_line_def using codex_id_line by blast

lemma codex_message_ids:
  "ids_of (map Inr (codex_message_items x c l line session role payload)) =
     map (chunk_id (''codex:'' @ cs_id session @ '':'' @ show_nat l)
        (length (chunk_text (codex_text (json_get ''content'' payload)) (cr_chunk_bytes c))))
       [0..<length (chunk_text (codex_text (json_get ''content'' payload)) (cr_chunk_bytes c))]"
proof -
  have "ids_of (map Inr (map (codex_item x l line session role n) (List.enumerate m chunks))) =
      map (chunk_id (''codex:'' @ cs_id session @ '':'' @ show_nat l) n) [m..<m + length chunks]" for n m chunks
    by (induction chunks arbitrary: m) (auto simp: ids_of_def map_filter_simps codex_item_def upt_rec)
  from this[of _ 0] show ?thesis by (simp add: codex_message_items_def Let_def)
qed

lemma codex_step_ids:
  assumes "codex_step x canon parse c l raw session fo = (out, k, session', fo')"
  shows "distinct (ids_of out)" "\<forall>d \<in> set (ids_of out). of_line l d"
proof -
  have "out = [] \<or> (\<exists>e. out = [Inl e]) \<or>
      (\<exists>line role payload. out = map Inr (codex_message_items x c l line session role payload))"
    using assms
    by (auto simp: codex_step_def codex_line_items_def split: option.splits if_splits prod.splits)
  then show "distinct (ids_of out)" "\<forall>d \<in> set (ids_of out). of_line l d"
    by (auto simp: codex_message_ids distinct_chunk_ids intro: of_lineI[simplified])
qed

section \<open>Properties\<close>

text \<open>
  No two items of a rollout have the same external id, whatever its lines hold and however often
  the session changes, so importing it never drops an item as already seen in the same run.
\<close>

theorem codex_ids_distinct:
  "distinct (ids_of (src_items (codex_source x canon parse c contents)))"
proof -
  have "distinct (ids_of (fst (codex_lines x canon parse c l session fo raws))) \<and>
      (\<forall>d \<in> set (ids_of (fst (codex_lines x canon parse c l session fo raws))). \<exists>l' \<ge> l. of_line l' d)"
    for l session fo raws
  proof (induction raws arbitrary: l session fo)
    case (Cons raw raws)
    obtain out k session' fo' where s: "codex_step x canon parse c l raw session fo = (out, k, session', fo')"
      by (metis prod.collapse)
    obtain out' k' where r: "codex_lines x canon parse c (Suc l) session' fo' raws = (out', k')" by fastforce
    have ih: "distinct (ids_of out')" "\<forall>d \<in> set (ids_of out'). \<exists>l' \<ge> Suc l. of_line l' d"
      using Cons.IH[of "Suc l" session' fo'] r by simp_all
    note st = codex_step_ids[OF s]
    have "set (ids_of out) \<inter> set (ids_of out') = {}"
      using st(2) ih(2) of_line_unique by (force simp: Suc_le_eq)
    moreover have "\<exists>l' \<ge> l. of_line l' d" if "d \<in> set (ids_of out) \<union> set (ids_of out')" for d
      using that st(2) ih(2) by (meson Suc_leD UnE le_refl)
    ultimately show ?case using s r st ih by simp
  qed simp
  then show ?thesis
    by (simp add: codex_source_def split: option.split prod.split) (metis fst_conv)
qed

end
