(* ===== verification/Dir_Walk.thy ===== *)
theory Dir_Walk
  imports Sources Search_Types
begin

text \<open>
  \<open>singularmem-ingest/src/dir.rs\<close>: one item per chunk of every text file of a tree. The walk itself
  (the \<open>ignore\<close> crate) is a parameter: the entries it yields, in order. So are the answers of the
  file system, \<open>str::to_lowercase\<close> and SHA-256.
\<close>

section \<open>Files and items\<close>

definition DEFAULT_MAX_FILE_BYTES :: nat where "DEFAULT_MAX_FILE_BYTES = 1048576"

record walker =
  wr_root :: string
  wr_max_file_bytes :: nat
  wr_chunk_bytes :: nat
  wr_scope_override :: "string option"
  wr_derived_scope :: "string option"

record file_system =
  fs_is_dir :: "string \<Rightarrow> bool"
  fs_canonicalize :: "string \<Rightarrow> string option"
  fs_len :: "string \<Rightarrow> nat option"
  fs_read :: "string \<Rightarrow> string option"
  fs_sha256 :: "string \<Rightarrow> string"

definition new_walker :: "file_system \<Rightarrow> string \<Rightarrow> ingest_error + walker" where
  "new_walker fs raw =
     (if \<not> fs_is_dir fs raw then Inl (Not_Found raw)
      else (case fs_canonicalize fs raw of
          None \<Rightarrow> Inl (Io_Error raw)
        | Some root \<Rightarrow> Inr \<lparr>wr_root = root, wr_max_file_bytes = DEFAULT_MAX_FILE_BYTES,
            wr_chunk_bytes = DEFAULT_CHUNK_BYTES, wr_scope_override = None,
            wr_derived_scope = derive_scope ''files'' root\<rparr>))"

text \<open>\<open>Path::strip_prefix\<close>, on paths without redundant components.\<close>

definition rel_path :: "string \<Rightarrow> string \<Rightarrow> string" where
  "rel_path root p =
     (let r = path_components root; c = path_components p
      in if prefix r c then join ''/'' (drop (length r) c) else p)"

definition longest_id_len :: "string \<Rightarrow> nat \<Rightarrow> nat" where
  "longest_id_len path n =
     (if n = 1 then length ''file:'' + length path
      else length ''file:'' + length path + 1 + length (show_nat (n - 1)))"

definition ext_tag :: "externals \<Rightarrow> string \<Rightarrow> string option" where
  "ext_tag x p = (case map_option (to_lowercase x) (extension p) of
     None \<Rightarrow> None
   | Some e \<Rightarrow> if length ''ext:'' + length e \<le> MAX_TAG_BYTES then Some (''ext:'' @ e) else None)"

definition file_item :: "externals \<Rightarrow> file_system \<Rightarrow> walker \<Rightarrow> string \<Rightarrow> string \<Rightarrow> nat \<Rightarrow> nat \<times> string \<Rightarrow> new_item" where
  "file_item x fs w path text_read n p = (case p of (i, c) \<Rightarrow>
    \<lparr>n_content = c, n_supersedes = None,
     n_tags = sort (''file'' # (case ext_tag x path of None \<Rightarrow> [] | Some t \<Rightarrow> [t])),
     n_source = Some (''dir:'' @ wr_root w),
     n_metadata = JObject
       [(''path'', JString path),
        (''rel_path'', JString (replace_char CHR 0x5C ''/'' (rel_path (wr_root w) path))),
        (''sha256'', JString (fs_sha256 fs text_read)), (''size_bytes'', JNumber (int (length text_read))),
        (''chunk_index'', JNumber (int i)), (''chunk_count'', JNumber (int n))],
     n_external_id = Some (chunk_id (''file:'' @ path) n i),
     n_scope = None\<rparr>)"

text \<open>The second component tells whether the file is counted as filtered.\<close>

definition file_to_items ::
  "externals \<Rightarrow> file_system \<Rightarrow> walker \<Rightarrow> string \<Rightarrow> (ingest_error + new_item list) \<times> bool"
where
  "file_to_items x fs w path =
     (case fs_len fs path of
        None \<Rightarrow> (Inl (Io_Error path), False)
      | Some len \<Rightarrow>
          if len > wr_max_file_bytes w then (Inr [], True)
          else (case fs_read fs path of
              None \<Rightarrow> (Inl (Io_Error path), False)
            | Some bytes_read \<Rightarrow>
                if CHR 0x00 \<in> set (take 8192 bytes_read) then (Inr [], True)
                else if \<not> utf8_valid (str_bytes bytes_read) then (Inr [], True)
                else let chunks = chunk_text bytes_read (wr_chunk_bytes w) in
                  if chunks = [] then (Inr [], True)
                  else if longest_id_len path (length chunks) > MAX_EXTERNAL_ID_BYTES
                    then (Inl (Unsupported_Input path), False)
                  else (Inr (map (file_item x fs w path bytes_read (length chunks)) (List.enumerate 0 chunks)), False)))"

section \<open>The source\<close>

definition entry_items ::
  "externals \<Rightarrow> file_system \<Rightarrow> walker \<Rightarrow> walk_entry \<Rightarrow> (ingest_error + new_item) list \<times> bool"
where
  "entry_items x fs w e = (case e of
     Inl err \<Rightarrow> ([Inl (Io_Error (walk_error_path err (wr_root w)))], False)
   | Inr (p, is_file) \<Rightarrow>
       if \<not> is_file then ([], False)
       else (case file_to_items x fs w p of
           (Inr its, filtered) \<Rightarrow> (map Inr its, filtered)
         | (Inl err, filtered) \<Rightarrow> ([Inl err], filtered)))"

definition visited_files :: "walk_entry list \<Rightarrow> nat" where
  "visited_files es = length (filter (\<lambda>e. case e of Inl err \<Rightarrow> False | Inr (p, is_file) \<Rightarrow> is_file) es)"

definition dir_source :: "externals \<Rightarrow> file_system \<Rightarrow> walker \<Rightarrow> walk_entry list \<Rightarrow> import_source" where
  "dir_source x fs w es =
    \<lparr>src_items = concat (map (\<lambda>e. fst (entry_items x fs w e)) es),
     src_filtered = length (filter (\<lambda>e. snd (entry_items x fs w e)) es),
     src_default_scope = (\<lambda>it. override_scope (wr_scope_override w) (wr_derived_scope w))\<rparr>"

section \<open>Valid UTF-8 has short characters\<close>

lemma utf8_tail_byte: "utf8_tail (word_of_nat (of_char c)) \<longleftrightarrow> is_continuation c"
proof -
  have "unat (word_of_nat (of_char c) :: 8 word) = of_char c" by (simp add: unat_of_nat)
  then show ?thesis unfolding utf8_tail_def is_continuation_def word_le_nat_alt by auto
qed

definition near_start :: "bytes \<Rightarrow> bool" where
  "near_start bs \<longleftrightarrow> (\<forall>i < length bs. \<exists>k \<le> 3. k \<le> i \<and> \<not> utf8_tail (bs ! (i - k)))"

lemma near_start_char:
  assumes "near_start r" "\<not> utf8_tail b" "length us \<le> 3"
  shows "near_start (b # us @ r)"
  unfolding near_start_def
proof (intro allI impI)
  fix i assume i: "i < length (b # us @ r)"
  show "\<exists>k \<le> 3. k \<le> i \<and> \<not> utf8_tail ((b # us @ r) ! (i - k))"
  proof (cases "i \<le> length us")
    case True
    then show ?thesis using assms(2,3) by (intro exI[of _ i]) simp
  next
    case False
    then have j: "i - Suc (length us) < length r" using i by simp
    then obtain k where k: "k \<le> 3" "k \<le> i - Suc (length us)" "\<not> utf8_tail (r ! (i - Suc (length us) - k))"
      using assms(1) unfolding near_start_def by blast
    have "i - k = length (b # us) + (i - Suc (length us) - k)" using False k(2) by simp
    then have "(b # us @ r) ! (i - k) = r ! (i - Suc (length us) - k)"
      using nth_append_length_plus[of "b # us" r "i - Suc (length us) - k"] by simp
    then show ?thesis using k False by (intro exI[of _ k]) simp
  qed
qed

lemma utf8_near_start: "utf8_valid bs \<Longrightarrow> near_start bs"
proof (induction bs rule: utf8_valid.induct)
  case 1 then show ?case by (simp add: near_start_def)
next
  case (2 b bs)
  have lead: "\<not> utf8_tail b" if "b < 0x80 \<or> 0xC2 \<le> b"
    using that by (auto simp: utf8_tail_def word_le_nat_alt word_less_nat_alt)
  consider "b < 0x80" | "\<not> b < 0x80" "0xC2 \<le> b \<and> b \<le> 0xDF"
    | "\<not> b < 0x80" "\<not> (0xC2 \<le> b \<and> b \<le> 0xDF)" "0xE0 \<le> b \<and> b \<le> 0xEF"
    | "\<not> b < 0x80" "\<not> (0xC2 \<le> b \<and> b \<le> 0xDF)" "\<not> (0xE0 \<le> b \<and> b \<le> 0xEF)" "0xF0 \<le> b \<and> b \<le> 0xF4"
    using "2.prems" by (auto split: if_splits)
  then show ?case
  proof cases
    case 1
    then show ?thesis using 2 near_start_char[of bs b "[]"] lead by simp
  next
    case a: 2
    then obtain c cs where bs: "bs = c # cs" "utf8_valid cs" using "2.prems" by (auto split: list.splits)
    then show ?thesis using 2(2)[OF a bs(1)] near_start_char[of cs b "[c]"] lead a by simp
  next
    case a: 3
    then obtain c d cs where bs: "bs = c # d # cs" "utf8_valid cs" using "2.prems" by (auto split: list.splits)
    have "0xC2 \<le> b" using a by (auto simp: word_le_nat_alt)
    then show ?thesis using 2(3)[OF a(1,2,3) bs(1) refl] near_start_char[of cs b "[c, d]"] lead bs by simp
  next
    case a: 4
    then obtain c d e cs where bs: "bs = c # d # e # cs" "utf8_valid cs" using "2.prems" by (auto split: list.splits)
    have "0xC2 \<le> b" using a by (auto simp: word_le_nat_alt)
    then show ?thesis using 2(4)[OF a(1-4) bs(1) refl refl] near_start_char[of cs b "[c, d, e]"] lead bs by simp
  qed
qed

lemma utf8_short_chars:
  assumes "utf8_valid (str_bytes s)" shows "short_chars s"
  unfolding short_chars_def
proof (intro allI impI)
  fix i assume i: "i < length s - 3"
  then have "i + 3 < length s" by simp
  then obtain k where k: "k \<le> 3" "k \<le> i + 3" "\<not> utf8_tail (str_bytes s ! (i + 3 - k))"
    using utf8_near_start[OF assms, unfolded near_start_def, rule_format, of "i + 3"] by auto
  then have "\<not> is_continuation (s ! (i + (3 - k)))"
    using i by (simp add: str_bytes_def utf8_tail_byte)
  then show "\<exists>j < 4. \<not> is_continuation (s ! (i + j))" by (intro exI[of _ "3 - k"]) simp
qed

section \<open>What a file gives\<close>

lemma length_show_nat_mono: "m \<le> n \<Longrightarrow> length (show_nat m) \<le> length (show_nat n)"
proof (induction n arbitrary: m rule: show_nat.induct)
  case (1 n)
  show ?case
  proof (cases "n < 10")
    case True
    then show ?thesis using 1(2) by (subst (1 2) show_nat.simps) simp
  next
    case False
    show ?thesis
    proof (cases "m < 10")
      case True
      have "length (show_nat n) = Suc (length (show_nat (n div 10)))" using False by (subst show_nat.simps) simp
      then show ?thesis using True by (subst show_nat.simps) simp
    next
      case m: False
      have "length (show_nat n) = Suc (length (show_nat (n div 10)))" using False by (subst show_nat.simps) simp
      moreover have "length (show_nat m) = Suc (length (show_nat (m div 10)))" using m by (subst show_nat.simps) simp
      moreover have "length (show_nat (m div 10)) \<le> length (show_nat (n div 10))"
        using 1(1)[OF False] 1(2) by (simp add: div_le_mono)
      ultimately show ?thesis by simp
    qed
  qed
qed

lemma chunk_id_fits: "i < n \<Longrightarrow> length (chunk_id (''file:'' @ path) n i) \<le> longest_id_len path n"
  using length_show_nat_mono[of i "n - 1"] by (auto simp: chunk_id_def longest_id_len_def)

lemma file_to_items_Inr:
  assumes "file_to_items x fs w path = (Inr its, filtered)" "its \<noteq> []"
  obtains tx where "fs_read fs path = Some tx" "short_chars tx"
    "its = map (file_item x fs w path tx (length its)) (List.enumerate 0 (chunk_text tx (wr_chunk_bytes w)))"
    "length (chunk_text tx (wr_chunk_bytes w)) = length its" "longest_id_len path (length its) \<le> 512" "\<not> filtered"
  using assms utf8_short_chars
  by (auto simp: file_to_items_def Let_def MAX_EXTERNAL_ID_BYTES_def not_less split: option.splits if_splits)

lemma file_to_items_member:
  assumes "file_to_items x fs w path = (Inr its, filtered)" "it \<in> set its"
  obtains tx i c where "it = file_item x fs w path tx (length its) (i, c)" "i < length its"
    "c \<in> set (chunk_text tx (wr_chunk_bytes w))" "short_chars tx" "longest_id_len path (length its) \<le> 512"
proof -
  have "its \<noteq> []" using assms(2) by auto
  obtain n where n: "n = length its" by simp
  from file_to_items_Inr[OF assms(1) \<open>its \<noteq> []\<close>, folded n] obtain tx where
    f: "short_chars tx" "its = map (file_item x fs w path tx n) (List.enumerate 0 (chunk_text tx (wr_chunk_bytes w)))"
    "length (chunk_text tx (wr_chunk_bytes w)) = n" "longest_id_len path n \<le> 512" by blast
  from assms(2) f(2) obtain p where p: "p \<in> set (List.enumerate 0 (chunk_text tx (wr_chunk_bytes w)))"
    "it = file_item x fs w path tx n p" by auto
  obtain i c where ic: "p = (i, c)" by (cases p)
  have "i < n" "c \<in> set (chunk_text tx (wr_chunk_bytes w))"
    using p(1) f(3) unfolding ic in_set_enumerate_eq by (auto simp: in_set_conv_nth)
  then show ?thesis using that[of tx i c] p(2) ic f(1,4) n by simp
qed

lemma good_file_tags:
  assumes "\<And>t. ext_tag x path = Some t \<Longrightarrow> \<not> contains_nul t"
  shows "list_all good_tag (''file'' # (case ext_tag x path of None \<Rightarrow> [] | Some t \<Rightarrow> [t]))"
proof -
  have "t \<noteq> [] \<and> length t \<le> 64" if "ext_tag x path = Some t" for t
    using that by (auto simp: ext_tag_def MAX_TAG_BYTES_def split: option.splits if_splits)
  then show ?thesis using assms by (simp add: good_tag_def contains_nul_def split: option.split)
qed

lemma list_all_sort: "list_all P (sort xs) = list_all P xs"
  by (simp add: list_all_iff)

section \<open>Properties\<close>


text \<open>
  a root of more than 252 bytes makes the store reject every file. The walker checks the path
  against the cap of the external id, so that one long path does not sink the run, but not the root
  against the cap of the source label it writes on every item.
\<close>

theorem long_root_rejects_all:
  assumes "file_to_items x fs w path = (Inr its, filtered)" "it \<in> set its"
    "252 < length (wr_root w)" "wr_chunk_bytes w \<le> 1048576"
  shows "validate_item (it\<lparr>n_scope := sc\<rparr>) = Inl (Validation ''source'' (ExceedsCap 256 (4 + length (wr_root w))))"
proof -
  obtain tx i c where it: "it = file_item x fs w path tx (length its) (i, c)"
    "c \<in> set (chunk_text tx (wr_chunk_bytes w))" "short_chars tx"
    by (rule file_to_items_member[OF assms(1,2)])
  have "c \<noteq> []" "length c \<le> 1048576"
    using chunks_good[OF it(3,2)] assms(4) by (auto simp: good_chunk_def)
  then show ?thesis
    using assms(3) by (simp add: it(1) validate_item_def file_item_def check_content_def MAX_CONTENT_BYTES_def MAX_SOURCE_BYTES_def)
qed

text \<open>
  a file whose name ends in a number sign and the number of a chunk of its neighbour is lost. It
  has the external id of that chunk, so when the neighbour came first in the same run the driver
  counts it as already seen and does not store it.
\<close>

theorem numbered_name_shadowed:
  assumes "file_to_items x fs w path = (Inr its, f)" "2 \<le> length its" "i < length its"
    "file_to_items x fs w (path @ ''#'' @ show_nat i) = (Inr [it], g)"
  shows "\<exists>key. n_external_id (its ! i) = Some key \<and> n_external_id it = Some key \<and>
    consider_item existing dry_run (rep, fresh, insert key accepted) it =
      ret (count_skipped 1 rep, fresh, insert key accepted)"
proof -
  obtain n where n: "n = length its" by simp
  have "its \<noteq> []" using assms(2) by auto
  from file_to_items_Inr[OF assms(1) this, folded n] obtain tx where
    its: "its = map (file_item x fs w path tx n) (List.enumerate 0 (chunk_text tx (wr_chunk_bytes w)))"
    "length (chunk_text tx (wr_chunk_bytes w)) = n" by blast
  have i: "i < n" using assms(3) n by simp
  have "its ! i = file_item x fs w path tx n (i, chunk_text tx (wr_chunk_bytes w) ! i)"
    unfolding its(1) using i its(2) by (simp add: nth_enumerate_eq)
  then have key: "n_external_id (its ! i) = Some (''file:'' @ path @ ''#'' @ show_nat i)"
    using assms(2) n by (simp add: file_item_def chunk_id_def)
  obtain ty j c where "it = file_item x fs w (path @ ''#'' @ show_nat i) ty (length [it]) (j, c)"
    by (rule file_to_items_member[OF assms(4)]) simp_all
  then have "it = file_item x fs w (path @ ''#'' @ show_nat i) ty 1 (j, c)" by simp
  then have it: "n_external_id it = Some (''file:'' @ path @ ''#'' @ show_nat i)"
    by (simp add: file_item_def chunk_id_def)
  then show ?thesis using key by (simp add: consider_item_def)
qed

section \<open>A tree\<close>

text \<open>A file of two chunks and a neighbour named like its first chunk.\<close>

definition sample_tree :: file_system where
  "sample_tree = \<lparr>fs_is_dir = (\<lambda>p. p = ''/r''), fs_canonicalize = Some, fs_len = (\<lambda>_. Some 10),
     fs_read = (\<lambda>p. if p = ''/r/a'' then Some sample_text else Some ''x''), fs_sha256 = (\<lambda>_. ''0'')\<rparr>"

definition sample_walker :: walker where
  "sample_walker = \<lparr>wr_root = ''/r'', wr_max_file_bytes = 1000, wr_chunk_bytes = 8, wr_scope_override = None,
     wr_derived_scope = Some ''files/r''\<rparr>"

lemma sample_files:
  "file_to_items sample_ext sample_tree sample_walker ''/r/a'' =
     (Inr (map (file_item sample_ext sample_tree sample_walker ''/r/a'' sample_text 2)
        (List.enumerate 0 (chunk_text sample_text 8))), False)"
  "file_to_items sample_ext sample_tree sample_walker ''/r/a#0'' =
     (Inr [file_item sample_ext sample_tree sample_walker ''/r/a#0'' ''x'' 1 (0, ''x'')], False)"
proof -
  have "utf8_valid (str_bytes sample_text)" "utf8_valid (str_bytes ''x'')" "CHR 0x00 \<notin> set (take 8192 sample_text)"
    "chunk_text ''x'' 8 = [''x'']" "longest_id_len ''/r/a'' 2 = 11" "longest_id_len ''/r/a#0'' 1 = 11"
    by code_simp+
  then show "file_to_items sample_ext sample_tree sample_walker ''/r/a'' =
     (Inr (map (file_item sample_ext sample_tree sample_walker ''/r/a'' sample_text 2)
        (List.enumerate 0 (chunk_text sample_text 8))), False)"
    "file_to_items sample_ext sample_tree sample_walker ''/r/a#0'' =
     (Inr [file_item sample_ext sample_tree sample_walker ''/r/a#0'' ''x'' 1 (0, ''x'')], False)"
    using chunks_sample(1)
    by (simp_all add: file_to_items_def sample_tree_def sample_walker_def MAX_EXTERNAL_ID_BYTES_def Let_def numeral_2_eq_2)
qed


theorem long_root_rejects_all_witness:
  "validate_item ((file_item sample_ext sample_tree (sample_walker\<lparr>wr_root := replicate 253 CHR ''r''\<rparr>)
       ''/r/a#0'' ''x'' 1 (0, ''x''))\<lparr>n_scope := None\<rparr>) =
     Inl (Validation ''source'' (ExceedsCap 256 257))"
proof -
  let ?w = "sample_walker\<lparr>wr_root := replicate 253 CHR ''r''\<rparr>"
  have "utf8_valid (str_bytes ''x'')" "chunk_text ''x'' 8 = [''x'']" "longest_id_len ''/r/a#0'' 1 = 11"
    by code_simp+
  then have "file_to_items sample_ext sample_tree ?w ''/r/a#0'' =
     (Inr [file_item sample_ext sample_tree ?w ''/r/a#0'' ''x'' 1 (0, ''x'')], False)"
    by (simp add: file_to_items_def sample_tree_def sample_walker_def MAX_EXTERNAL_ID_BYTES_def Let_def)
  from long_root_rejects_all[OF this] show ?thesis by (simp add: sample_walker_def)
qed

theorem numbered_name_shadowed_witness:
  "n_external_id (file_item sample_ext sample_tree sample_walker ''/r/a'' sample_text 2 (0, ''one'' @ [newline, newline] @ ''two'')) =
   n_external_id (file_item sample_ext sample_tree sample_walker ''/r/a#0'' ''x'' 1 (0, ''x''))"
proof -
  have "show_nat 0 = ''0''" by code_simp
  then have g: "file_to_items sample_ext sample_tree sample_walker (''/r/a'' @ ''#'' @ show_nat 0) =
     (Inr [file_item sample_ext sample_tree sample_walker ''/r/a#0'' ''x'' 1 (0, ''x'')], False)"
    using sample_files(2) by simp
  from numbered_name_shadowed[OF sample_files(1) _ _ g,
      where existing = "{}" and dry_run = False and rep = default_report and fresh = "[]" and accepted = "{}"]
  show ?thesis using chunks_sample(1) by auto
qed

end
