(* ===== verification/Cursor_Chats.thy ===== *)
theory Cursor_Chats
  imports Sources
begin

text \<open>
  \<open>singularmem-ingest/src/cursor.rs\<close>: the items of Cursor's chat stores, one per chunk of a bubble.
  Conversations are found through the workspaces that list them; their headers and bubbles are in a
  global database. What the file system, the two kinds of databases and the JSON parser answer is a
  record, since they belong to the editor. The branch for Windows is left out.
\<close>

section \<open>Percent decoding\<close>

definition hex_digit :: "char \<Rightarrow> nat option" where
  "hex_digit c =
     (let n = of_char c in
      if 48 \<le> n \<and> n \<le> 57 then Some (n - 48) else if 97 \<le> n \<and> n \<le> 102 then Some (n - 87)
      else if 65 \<le> n \<and> n \<le> 70 then Some (n - 55) else None)"

text \<open>\<open>u8::from_str_radix(s, 16)\<close> of two characters; the first may be a plus sign.\<close>

definition hex_byte :: "char \<Rightarrow> char \<Rightarrow> nat option" where
  "hex_byte a b =
     (if a = CHR ''+'' then hex_digit b
      else (case (hex_digit a, hex_digit b) of (Some x, Some y) \<Rightarrow> Some (16 * x + y) | _ \<Rightarrow> None))"

text \<open>The loop of \<open>percent_decode\<close>, over the bytes; its result is converted lossily to UTF-8.\<close>

function percent_bytes :: "string \<Rightarrow> string" where
  "percent_bytes [] = []"
| "percent_bytes (c # s) =
     (case (if c = CHR ''%'' then (case s of a # b # r \<Rightarrow> hex_byte a b | _ \<Rightarrow> None) else None) of
        Some v \<Rightarrow> char_of v # percent_bytes (drop 2 s)
      | None \<Rightarrow> c # percent_bytes s)"
  by pat_completeness auto
termination by (relation "measure length") auto

section \<open>What the editor's stores answer\<close>

datatype workspace_db = No_Database | Unopened | Unreadable | Composer_Data "string option"

record cursor_env =
  ce_global_is_file :: bool
  ce_open :: "string \<Rightarrow> bool"
  ce_open_copy :: "string \<Rightarrow> bool"
  ce_workspace_dirs :: "string list option"
  ce_workspace_json :: "string \<Rightarrow> string option"
  ce_workspace_db :: "string \<Rightarrow> workspace_db"
  ce_global :: "string \<Rightarrow> string option"
  ce_parse :: "string \<Rightarrow> json option"
  ce_lossy :: "string \<Rightarrow> string"
  ce_from_ms :: "int \<Rightarrow> timestamp option"

record cursor_chats =
  cc_user_dir :: string
  cc_project_filter :: "string option"
  cc_conversation_filter :: "string option"
  cc_scope_override :: "string option"
  cc_chunk_bytes :: nat

definition global_path :: "string \<Rightarrow> string" where
  "global_path user_dir = path_join (path_join user_dir ''globalStorage'') ''state.vscdb''"

definition open_cursor :: "cursor_env \<Rightarrow> string \<Rightarrow> ingest_error + cursor_chats" where
  "open_cursor en user_dir =
     (if ce_global_is_file en then Inr \<lparr>cc_user_dir = user_dir, cc_project_filter = None,
        cc_conversation_filter = None, cc_scope_override = None, cc_chunk_bytes = DEFAULT_CHUNK_BYTES\<rparr>
      else Inl (Not_Found (global_path user_dir)))"

text \<open>Read-only without locks, or through a temporary copy.\<close>

definition open_db :: "cursor_env \<Rightarrow> string \<Rightarrow> ingest_error + unit" where
  "open_db en path = (if ce_open en path then Inr () else if ce_open_copy en path then Inr () else Inl (Io_Error path))"

definition read_workspace_folder :: "cursor_env \<Rightarrow> string \<Rightarrow> string option" where
  "read_workspace_folder en dir =
     Option.bind (ce_workspace_json en dir) (\<lambda>raw.
     Option.bind (ce_parse en raw) (\<lambda>v.
     Option.bind (Option.bind (json_get ''folder'' v) as_str) (\<lambda>folder.
     let stripped = (case strip_prefix ''file://'' folder of Some p \<Rightarrow> p | None \<Rightarrow> folder)
     in Some (ce_lossy en (percent_bytes stripped)))))"

text \<open>\<open>as_i64\<close>, and \<open>str::parse::<i64>\<close>.\<close>

definition as_i64 :: "json \<Rightarrow> int option" where
  "as_i64 v = (case v of JNumber n \<Rightarrow> if - (2 ^ 63) \<le> n \<and> n < 2 ^ 63 then Some n else None | _ \<Rightarrow> None)"

definition parse_i64 :: "string \<Rightarrow> int option" where
  "parse_i64 s =
     (let (neg, ds) = (case s of [] \<Rightarrow> (False, []) | c # r \<Rightarrow>
            if c = CHR ''-'' then (True, r) else if c = CHR ''+'' then (False, r) else (False, s));
          n = (if neg then - int (read_nat ds) else int (read_nat ds))
      in if ds = [] \<or> \<not> list_all is_ascii_digit ds \<or> n < - (2 ^ 63) \<or> 2 ^ 63 \<le> n then None else Some n)"

definition ms_from :: "json \<Rightarrow> int option" where
  "ms_from v = (case as_i64 v of Some n \<Rightarrow> Some n | None \<Rightarrow> Option.bind (as_str v) parse_i64)"

section \<open>Conversations\<close>

record composer =
  cp_id :: string
  cp_title :: "string option"
  cp_created_at :: "string option"
  cp_workspace :: string
  cp_bubbles :: "(string \<times> nat) list"

definition bubble_header :: "json \<Rightarrow> (string \<times> nat) option" where
  "bubble_header b =
     Option.bind (Option.bind (json_get ''bubbleId'' b) as_str) (\<lambda>i.
     Option.bind (json_get ''type'' b) (\<lambda>t.
     case t of JNumber n \<Rightarrow> if 0 \<le> n \<and> n < 256 then Some (i, nat n) else None | _ \<Rightarrow> None))"

definition array_at :: "json option \<Rightarrow> json list" where
  "array_at v = (case Option.bind v as_array of None \<Rightarrow> [] | Some xs \<Rightarrow> xs)"

definition parse_or_null :: "cursor_env \<Rightarrow> string \<Rightarrow> json" where
  "parse_or_null en raw = (case ce_parse en raw of None \<Rightarrow> JNull | Some v \<Rightarrow> v)"

definition read_composer :: "externals \<Rightarrow> cursor_env \<Rightarrow> cursor_chats \<Rightarrow> string \<Rightarrow> json \<Rightarrow> composer option" where
  "read_composer x en cfg folder c =
     Option.bind (Option.bind (json_get ''composerId'' c) as_str) (\<lambda>i.
     if (case cc_conversation_filter cfg of None \<Rightarrow> False | Some want \<Rightarrow> want \<noteq> i) then None
     else Option.bind (ce_global en (''composerData:'' @ i)) (\<lambda>head.
       let h = parse_or_null en head;
           headers = (case json_get ''fullConversationHeadersOnly'' h of
               Some a \<Rightarrow> Some a | None \<Rightarrow> json_get ''conversation'' h);
           created_ms = (case Option.bind (json_get ''createdAt'' h) ms_from of
               Some ms \<Rightarrow> Some ms | None \<Rightarrow> Option.bind (json_get ''createdAt'' c) ms_from)
       in Some \<lparr>cp_id = i, cp_title = Option.bind (json_get ''name'' h) as_str,
            cp_created_at = map_option (ts_display x) (Option.bind created_ms (ce_from_ms en)),
            cp_workspace = folder, cp_bubbles = List.map_filter bubble_header (array_at headers)\<rparr>))"

text \<open>
  The loop over the workspaces; \<open>out\<close> is what it has found, \<open>n\<close> the count of filtered inputs.
\<close>

fun composers_loop ::
  "externals \<Rightarrow> canonicalize \<Rightarrow> cursor_env \<Rightarrow> cursor_chats \<Rightarrow> project_filter option \<Rightarrow> composer list \<Rightarrow> nat \<Rightarrow>
     string list \<Rightarrow> composer list \<times> nat"
where
  "composers_loop x canon en cfg fo out n [] = (out, n)"
| "composers_loop x canon en cfg fo out n (dir # dirs) =
     (case read_workspace_folder en dir of
        None \<Rightarrow> composers_loop x canon en cfg fo out (n + 1) dirs
      | Some folder \<Rightarrow> (case passes canon fo (Some folder) of (pass, fo') \<Rightarrow>
          if \<not> pass then composers_loop x canon en cfg fo' out n dirs
          else (case ce_workspace_db en dir of
              No_Database \<Rightarrow> composers_loop x canon en cfg fo' out n dirs
            | Unopened \<Rightarrow> composers_loop x canon en cfg fo' out (n + 1) dirs
            | Unreadable \<Rightarrow> composers_loop x canon en cfg fo' out (n + 1) dirs
            | Composer_Data None \<Rightarrow> composers_loop x canon en cfg fo' out n dirs
            | Composer_Data (Some raw) \<Rightarrow>
                let out' = out @ List.map_filter (read_composer x en cfg folder)
                      (array_at (json_get ''allComposers'' (parse_or_null en raw)))
                in if cc_conversation_filter cfg \<noteq> None \<and> out' \<noteq> [] then (out', n)
                   else composers_loop x canon en cfg fo' out' n dirs)))"

definition composers :: "externals \<Rightarrow> canonicalize \<Rightarrow> cursor_env \<Rightarrow> cursor_chats \<Rightarrow> composer list \<times> nat" where
  "composers x canon en cfg = (case ce_workspace_dirs en of
     None \<Rightarrow> ([], 0)
   | Some dirs \<Rightarrow> composers_loop x canon en cfg (map_option (new_filter canon) (cc_project_filter cfg)) [] 0 (sort dirs))"

section \<open>Bubbles\<close>

definition bubble_text :: "cursor_env \<Rightarrow> string \<Rightarrow> string \<Rightarrow> string" where
  "bubble_text en composer_id bubble_id =
     (case Option.bind (Option.bind (ce_global en (''bubbleId:'' @ composer_id @ '':'' @ bubble_id)) (ce_parse en))
         (\<lambda>b. Option.bind (json_get ''text'' b) as_str) of None \<Rightarrow> [] | Some t \<Rightarrow> t)"

definition cursor_item ::
  "composer \<Rightarrow> nat \<Rightarrow> string \<Rightarrow> string \<Rightarrow> nat \<Rightarrow> nat \<times> string \<Rightarrow> new_item"
where
  "cursor_item c index bubble_id role n p = (case p of (i, t) \<Rightarrow>
    \<lparr>n_content = t, n_supersedes = None, n_tags = sort [''cursor'', ''role:'' @ role, ''transcript''],
     n_source = Some (''cursor:'' @ cp_id c),
     n_metadata = JObject
       [(''composer_id'', JString (cp_id c)), (''bubble_id'', JString bubble_id), (''index'', JNumber (int index)),
        (''role'', JString role), (''title'', json_opt (cp_title c)), (''workspace'', JString (cp_workspace c)),
        (''composer_created_at'', json_opt (cp_created_at c)),
        (''chunk_index'', JNumber (int i)), (''chunk_count'', JNumber (int n))],
     n_external_id = Some (chunk_id (''cursor:'' @ cp_id c @ '':'' @ bubble_id) n i),
     n_scope = None\<rparr>)"

text \<open>The items of one bubble; none is counted as filtered.\<close>

definition bubble_items ::
  "cursor_env \<Rightarrow> cursor_chats \<Rightarrow> composer \<Rightarrow> nat \<times> string \<times> nat \<Rightarrow> new_item list"
where
  "bubble_items en cfg c p = (case p of (index, bubble_id, kind) \<Rightarrow>
     (if kind \<noteq> 1 \<and> kind \<noteq> 2 then []
      else let role = (if kind = 1 then ''user'' else ''assistant'');
               chunks = chunk_text (bubble_text en (cp_id c) bubble_id) (cc_chunk_bytes cfg)
           in map (cursor_item c index bubble_id role (length chunks)) (List.enumerate 0 chunks)))"

definition composer_items :: "cursor_env \<Rightarrow> cursor_chats \<Rightarrow> composer \<Rightarrow> new_item list \<times> nat" where
  "composer_items en cfg c =
     (let per = map (bubble_items en cfg c) (List.enumerate 0 (cp_bubbles c))
      in (concat per, length (filter (\<lambda>its. its = []) per)))"

section \<open>The source\<close>

definition cursor_source :: "externals \<Rightarrow> canonicalize \<Rightarrow> cursor_env \<Rightarrow> cursor_chats \<Rightarrow> import_source" where
  "cursor_source x canon en cfg =
     (case (case open_db en (global_path (cc_user_dir cfg)) of
          Inl e \<Rightarrow> ([Inl e], 0)
        | Inr u \<Rightarrow> (case composers x canon en cfg of (cs, n) \<Rightarrow>
            let found = map (composer_items en cfg) cs
            in (map Inr (concat (map fst found)), n + sum_list (map snd found)))) of
        (its, n) \<Rightarrow> \<lparr>src_items = its, src_filtered = n,
          src_default_scope = default_scope ''cursor'' ''workspace'' (cc_scope_override cfg)\<rparr>)"

text \<open>\<open>default_cursor_user_dir\<close> on Linux.\<close>

definition default_cursor_user_dir :: "string option \<Rightarrow> string option" where
  "default_cursor_user_dir home = map_option (\<lambda>h. path_join h ''.config/Cursor/User'') home"

section \<open>Properties\<close>

definition hex_char :: "nat \<Rightarrow> char" where
  "hex_char n = (if n < 10 then char_of (48 + n) else char_of (55 + n))"

text \<open>Percent encoding of every byte that is not kept.\<close>

definition percent_encode :: "(char \<Rightarrow> bool) \<Rightarrow> string \<Rightarrow> string" where
  "percent_encode keep s = concat (map (\<lambda>c. if keep c then [c]
     else [CHR ''%'', hex_char (of_char c div 16), hex_char (of_char c mod 16)]) s)"

lemma hex_digit_char:
  assumes "n < 16" shows "hex_digit (hex_char n) = Some n" "hex_char n \<noteq> CHR ''+''"
proof -
  show d: "hex_digit (hex_char n) = Some n"
    using assms by (simp add: hex_digit_def hex_char_def of_char_of Let_def)
  have "hex_digit (CHR ''+'') = None" by (simp add: hex_digit_def)
  then show "hex_char n \<noteq> CHR ''+''" using d by auto
qed

lemma hex_byte_chars: "n < 256 \<Longrightarrow> hex_byte (hex_char (n div 16)) (hex_char (n mod 16)) = Some n"
  by (simp add: hex_byte_def hex_digit_char less_mult_imp_div_less)

text \<open>
  percent decoding inverts percent encoding, whichever bytes the writer of the URI left as they
  are, as long as it encoded the percent sign itself.
\<close>

theorem percent_round_trip:
  assumes "\<not> keep CHR ''%''"
  shows "percent_bytes (percent_encode keep s) = s"
proof (induction s)
  case (Cons c s)
  show ?case
  proof (cases "keep c")
    case True
    then have "c \<noteq> CHR ''%''" using assms by auto
    then show ?thesis using Cons True by (simp add: percent_encode_def)
  next
    case False
    have "hex_byte (hex_char (of_char c div 16)) (hex_char (of_char c mod 16)) = Some (of_char c)"
      by (rule hex_byte_chars) simp
    then show ?thesis using Cons False by (simp add: percent_encode_def)
  qed
qed (simp add: percent_encode_def)

theorem percent_round_trip_witness: "percent_bytes (percent_encode (\<lambda>c. c = CHR ''a'') ''a b'') = ''a b''"
  by (rule percent_round_trip) simp

text \<open>
  A plus sign passes for the first hex digit, since \<open>from_str_radix\<close> accepts a sign: an escape that
  is not one is decoded instead of being kept.
\<close>

lemma plus_is_decoded: "percent_bytes ''/a%+f'' = ''/a'' @ [char_of (15 :: nat)]"
  by (simp add: hex_byte_def hex_digit_def Let_def)

lemma read_composer_facts:
  "read_composer x en cfg folder c = Some cp \<Longrightarrow> cp_workspace cp = folder \<and>
     (\<forall>want. cc_conversation_filter cfg = Some want \<longrightarrow> cp_id cp = want)"
  by (auto simp: read_composer_def Let_def bind_eq_Some_conv split: if_splits option.splits)

definition wanted :: "canonicalize \<Rightarrow> cursor_chats \<Rightarrow> composer \<Rightarrow> bool" where
  "wanted canon cfg cp \<longleftrightarrow> in_project canon (cc_project_filter cfg) (Some (cp_workspace cp)) \<and>
     (\<forall>want. cc_conversation_filter cfg = Some want \<longrightarrow> cp_id cp = want)"

lemma composers_loop_wanted:
  assumes "passes_ok canon (cc_project_filter cfg) fo" "list_all (wanted canon cfg) out"
  shows "list_all (wanted canon cfg) (fst (composers_loop x canon en cfg fo out n dirs))"
  using assms
proof (induction dirs arbitrary: fo out n)
  case (Cons dir dirs)
  show ?case
  proof (cases "read_workspace_folder en dir")
    case None
    then show ?thesis using Cons by simp
  next
    case (Some folder)
    obtain v fo' where p: "passes canon fo (Some folder) = (v, fo')" by fastforce
    note ok = passes_sound[OF Cons.prems(1) p]
    let ?new = "\<lambda>raw. List.map_filter (read_composer x en cfg folder) (array_at (json_get ''allComposers'' (parse_or_null en raw)))"
    have "list_all (wanted canon cfg) (?new raw)" if v for raw
      using that ok(1) read_composer_facts unfolding list_all_iff wanted_def
      by (auto simp: map_filter_def)
    then show ?thesis using Cons.prems(2) Cons.IH[OF ok(2)] Some p
      by (auto simp: Let_def split: workspace_db.split option.split)
  qed
qed simp

text \<open>
  C39: a filter on the project or on the conversation lets nothing else through: every item of the
  source records a workspace that is the project's directory, and the conversation asked for.
\<close>

theorem cursor_filters_respected:
  assumes "Inr it \<in> set (src_items (cursor_source x canon en cfg))"
  shows "\<exists>ws i. metadata_str ''workspace'' it = Some ws \<and> in_project canon (cc_project_filter cfg) (Some ws) \<and>
    metadata_str ''composer_id'' it = Some i \<and> n_source it = Some (''cursor:'' @ i) \<and>
    (case cc_conversation_filter cfg of None \<Rightarrow> True | Some want \<Rightarrow> i = want)"
proof -
  obtain cs n where cs: "composers x canon en cfg = (cs, n)" by fastforce
  have w: "list_all (wanted canon cfg) cs"
    using cs composers_loop_wanted[OF passes_ok_start[of canon "cc_project_filter cfg"], of "[]" x en 0]
    by (cases "ce_workspace_dirs en") (simp_all add: composers_def, metis fst_conv)
  obtain c where c: "c \<in> set cs" "it \<in> set (fst (composer_items en cfg c))"
    using assms cs by (auto simp: cursor_source_def split: sum.splits)
  then obtain p where "it \<in> set (bubble_items en cfg c p)" by (auto simp: composer_items_def Let_def)
  then obtain index b role m q where it: "it = cursor_item c index b role m q"
    by (auto simp: bubble_items_def Let_def split: prod.splits if_splits)
  have "metadata_str ''workspace'' it = Some (cp_workspace c)" "metadata_str ''composer_id'' it = Some (cp_id c)"
    "n_source it = Some (''cursor:'' @ cp_id c)"
    unfolding it by (simp_all add: cursor_item_def metadata_str_def json_get_def split: prod.split)
  moreover have "wanted canon cfg c" using w c(1) by (simp add: list_all_iff)
  ultimately show ?thesis by (auto simp: wanted_def split: option.split)
qed

section \<open>A conversation\<close>

definition sample_cursor :: cursor_env where
  "sample_cursor = \<lparr>ce_global_is_file = True, ce_open = (\<lambda>_. True), ce_open_copy = (\<lambda>_. True),
     ce_workspace_dirs = Some [''/w''], ce_workspace_json = (\<lambda>_. Some ''W''),
     ce_workspace_db = (\<lambda>_. Composer_Data (Some ''D'')),
     ce_global = (\<lambda>k. if k = ''composerData:c'' then Some ''H'' else Some ''B''),
     ce_parse = (\<lambda>s.
       if s = ''W'' then Some (JObject [(''folder'', JString ''/p'')])
       else if s = ''D'' then Some (JObject [(''allComposers'', JArray [JObject [(''composerId'', JString ''c'')]])])
       else if s = ''H'' then Some (JObject [(''conversation'', JArray [JObject [(''bubbleId'', JString ''b''), (''type'', JNumber 1)]])])
       else Some (JObject [(''text'', JString ''hi'')])),
     ce_lossy = (\<lambda>s. s), ce_from_ms = Some\<rparr>"

definition sample_chats :: cursor_chats where
  "sample_chats = \<lparr>cc_user_dir = ''/u'', cc_project_filter = None, cc_conversation_filter = Some ''c'',
     cc_scope_override = None, cc_chunk_bytes = 8\<rparr>"

definition sample_composer :: composer where
  "sample_composer = \<lparr>cp_id = ''c'', cp_title = None, cp_created_at = None, cp_workspace = ''/p'', cp_bubbles = [(''b'', 1)]\<rparr>"

lemma sample_cursor_simps [simp]:
  "ce_workspace_dirs sample_cursor = Some [''/w'']" "ce_workspace_db sample_cursor d = Composer_Data (Some ''D'')"
  "ce_open sample_cursor p" "cc_project_filter sample_chats = None" "cc_conversation_filter sample_chats = Some ''c''"
  by (simp_all add: sample_cursor_def sample_chats_def)

lemma sample_cursor_items:
  "src_items (cursor_source sample_ext Some sample_cursor sample_chats) =
     [Inr (cursor_item sample_composer 0 ''b'' ''user'' 1 (0, ''hi''))]"
proof -
  have folder: "read_workspace_folder sample_cursor ''/w'' = Some ''/p''"
    by (simp add: read_workspace_folder_def sample_cursor_def json_get_def strip_prefix_def Let_def)
  have comp: "read_composer sample_ext sample_cursor sample_chats ''/p'' (JObject [(''composerId'', JString ''c'')]) = Some sample_composer"
    by (simp add: read_composer_def sample_cursor_def sample_chats_def sample_composer_def json_get_def parse_or_null_def
        array_at_def bubble_header_def map_filter_simps Let_def)
  have data: "array_at (json_get ''allComposers'' (parse_or_null sample_cursor ''D'')) = [JObject [(''composerId'', JString ''c'')]]"
    by (simp add: parse_or_null_def sample_cursor_def json_get_def array_at_def)
  have cs: "composers sample_ext Some sample_cursor sample_chats = ([sample_composer], 0)"
    using folder comp data
    by (simp add: composers_def map_filter_simps passes_def Let_def)
  have "chunk_text ''hi'' 8 = [''hi'']" by code_simp
  moreover have "bubble_text sample_cursor ''c'' ''b'' = ''hi''"
    by (simp add: bubble_text_def sample_cursor_def json_get_def)
  ultimately have "bubble_items sample_cursor sample_chats sample_composer (0, ''b'', 1) =
      [cursor_item sample_composer 0 ''b'' ''user'' 1 (0, ''hi'')]"
    by (simp add: bubble_items_def sample_chats_def) (simp add: sample_composer_def)
  then have "composer_items sample_cursor sample_chats sample_composer =
      ([cursor_item sample_composer 0 ''b'' ''user'' 1 (0, ''hi'')], 0)"
    by (simp add: composer_items_def) (simp add: sample_composer_def)
  then show ?thesis using cs by (simp add: cursor_source_def open_db_def)
qed

theorem cursor_filters_respected_witness:
  "n_source (cursor_item sample_composer 0 ''b'' ''user'' 1 (0, ''hi'')) = Some ''cursor:c''"
  using cursor_filters_respected[of "cursor_item sample_composer 0 ''b'' ''user'' 1 (0, ''hi'')" sample_ext Some
      sample_cursor sample_chats]
  by (auto simp: sample_cursor_items)

end
