(* ===== verification/Mcp_Args.thy ===== *)
theory Mcp_Args
  imports Core_Types
begin

text \<open>
  The arguments of the tools of \<open>singularmem-mcp\<close>: the schema each tool advertises (names, types,
  bounds and what is required; the descriptions are left out) and the deserialiser that serde derives
  for its arguments. How an integer or an \<open>f64\<close> becomes an \<open>f32\<close> is a parameter.
\<close>

section \<open>Schemas\<close>

datatype json_type =
    T_String
  | T_Enum "string list"
  | T_Integer int "int option"
  | T_Unit_Interval
  | T_Boolean
  | T_Object
  | T_Strings

record tool_schema =
  ts_properties :: "(string \<times> json_type) list"
  ts_required :: "string list"

text \<open>A tool as \<open>tools/list\<close> shows it; the last field is the \<open>read_only\<close> annotation, if there is one.\<close>

record tool =
  to_name :: string
  to_schema :: tool_schema
  to_read_only :: "bool option"

text \<open>
  The integer a finite \<open>f64\<close> denotes, if it denotes one: JSON Schema's \<open>integer\<close> admits \<open>10.0\<close> and
  \<open>2 ^ 64\<close>, which \<open>serde_json\<close> reads as floats.
\<close>

definition f64_integer :: "f64 \<Rightarrow> int option" where
  "f64_integer f =
     (let e = unat (take_bit 11 (drop_bit 52 f));
          m = uint (take_bit 52 f) + (if e = 0 then 0 else 2 ^ 52);
          k = max e 1;
          s = (if bit f 63 then - 1 else 1)
      in if e = 2047 then None
         else if 1075 \<le> k then Some (s * m * 2 ^ (k - 1075))
         else if 2 ^ (1075 - k) dvd m then Some (s * (m div 2 ^ (1075 - k))) else None)"

definition within :: "int \<Rightarrow> int option \<Rightarrow> int \<Rightarrow> bool" where
  "within lo hi n \<longleftrightarrow> lo \<le> n \<and> (case hi of None \<Rightarrow> True | Some h \<Rightarrow> n \<le> h)"

text \<open>
  What a type of the schema admits. The one \<open>number\<close> has minimum 0.0 and maximum 1.0; the bit patterns
  of the floats between them are those up to that of \<open>1.0\<close>, and \<open>-0.0\<close>.
\<close>

fun has_type :: "json_type \<Rightarrow> json \<Rightarrow> bool" where
  "has_type T_String (JString s) = True"
| "has_type (T_Enum ss) (JString s) = (s \<in> set ss)"
| "has_type (T_Integer lo hi) (JNumber n) = within lo hi n"
| "has_type (T_Integer lo hi) (JFloat f) = (case f64_integer f of None \<Rightarrow> False | Some n \<Rightarrow> within lo hi n)"
| "has_type T_Unit_Interval (JNumber n) = (n = 0 \<or> n = 1)"
| "has_type T_Unit_Interval (JFloat f) = (f \<le> 0x3FF0000000000000 \<or> f = 0x8000000000000000)"
| "has_type T_Boolean (JBool b) = True"
| "has_type T_Object (JObject m) = True"
| "has_type T_Strings (JArray js) = list_all (\<lambda>j. as_str j \<noteq> None) js"
| "has_type _ _ = False"

definition conforms :: "tool_schema \<Rightarrow> json \<Rightarrow> bool" where
  "conforms sch v \<longleftrightarrow>
     list_all (\<lambda>k. json_get k v \<noteq> None) (ts_required sch) \<and>
     list_all (\<lambda>(k, t). case json_get k v of None \<Rightarrow> True | Some j \<Rightarrow> has_type t j) (ts_properties sch)"

definition SCOPE_ARGS :: "(string \<times> json_type) list" where
  "SCOPE_ARGS = [(''scope'', T_String), (''scope_exact'', T_Boolean)]"

definition ADAPTERS :: "string list" where
  "ADAPTERS = [''plain'', ''claude'', ''openai'', ''gemini'']"

definition retrieve_tool :: tool where
  "retrieve_tool = \<lparr>to_name = ''memory_retrieve'', to_schema =
     \<lparr>ts_properties = [(''query'', T_String), (''limit'', T_Integer 1 (Some 50)), (''adapter'', T_Enum ADAPTERS)] @ SCOPE_ARGS,
      ts_required = [''query'']\<rparr>, to_read_only = None\<rparr>"

definition get_tool :: tool where
  "get_tool = \<lparr>to_name = ''memory_get'', to_schema =
     \<lparr>ts_properties = [(''id'', T_String)], ts_required = [''id'']\<rparr>, to_read_only = Some True\<rparr>"

definition list_tool :: tool where
  "list_tool = \<lparr>to_name = ''memory_list'', to_schema =
     \<lparr>ts_properties = [(''tags'', T_Strings), (''limit'', T_Integer 1 (Some 100))] @ SCOPE_ARGS,
      ts_required = []\<rparr>, to_read_only = Some True\<rparr>"

definition revisions_tool :: tool where
  "revisions_tool = \<lparr>to_name = ''memory_revisions'', to_schema =
     \<lparr>ts_properties = [(''id'', T_String)], ts_required = [''id'']\<rparr>, to_read_only = Some True\<rparr>"

definition scopes_tool :: tool where
  "scopes_tool = \<lparr>to_name = ''memory_scopes'', to_schema = \<lparr>ts_properties = [], ts_required = []\<rparr>,
     to_read_only = Some True\<rparr>"

definition wakeup_tool :: tool where
  "wakeup_tool = \<lparr>to_name = ''memory_wakeup'', to_schema =
     \<lparr>ts_properties = [(''project'', T_String), (''include_files'', T_Boolean), (''limit'', T_Integer 1 None),
        (''max_bytes'', T_Integer 256 None), (''adapter'', T_Enum ADAPTERS)],
      ts_required = []\<rparr>, to_read_only = Some True\<rparr>"

definition ingest_tool :: tool where
  "ingest_tool = \<lparr>to_name = ''memory_ingest'', to_schema =
     \<lparr>ts_properties = [(''content'', T_String), (''tags'', T_Strings), (''source'', T_String),
        (''supersedes'', T_String), (''metadata'', T_Object), (''scope'', T_String)],
      ts_required = [''content'']\<rparr>, to_read_only = Some False\<rparr>"

definition graph_add_tool :: tool where
  "graph_add_tool = \<lparr>to_name = ''memory_graph_add'', to_schema =
     \<lparr>ts_properties = [(''subject'', T_String), (''predicate'', T_String), (''object'', T_String),
        (''object_is_value'', T_Boolean), (''subject_kind'', T_String), (''object_kind'', T_String),
        (''valid_from'', T_String), (''valid_to'', T_String), (''confidence'', T_Unit_Interval),
        (''source_item_id'', T_String), (''scope'', T_String)],
      ts_required = [''subject'', ''predicate'', ''object'']\<rparr>, to_read_only = Some False\<rparr>"

definition graph_query_tool :: tool where
  "graph_query_tool = \<lparr>to_name = ''memory_graph_query'', to_schema =
     \<lparr>ts_properties = [(''entity'', T_String), (''predicate'', T_String),
        (''direction'', T_Enum [''outgoing'', ''incoming'', ''both'']),
        (''as_of'', T_String), (''recorded_at'', T_String)] @ SCOPE_ARGS,
      ts_required = []\<rparr>, to_read_only = Some True\<rparr>"

definition graph_invalidate_tool :: tool where
  "graph_invalidate_tool = \<lparr>to_name = ''memory_graph_invalidate'', to_schema =
     \<lparr>ts_properties = [(''subject'', T_String), (''predicate'', T_String), (''object'', T_String),
        (''object_is_value'', T_Boolean), (''at'', T_String), (''scope'', T_String)],
      ts_required = [''subject'', ''predicate'', ''object'']\<rparr>, to_read_only = Some False\<rparr>"

definition graph_supersede_tool :: tool where
  "graph_supersede_tool = \<lparr>to_name = ''memory_graph_supersede'', to_schema =
     \<lparr>ts_properties = [(''subject'', T_String), (''predicate'', T_String), (''old_object'', T_String),
        (''new_object'', T_String), (''object_is_value'', T_Boolean), (''at'', T_String), (''scope'', T_String)],
      ts_required = [''subject'', ''predicate'', ''old_object'', ''new_object'']\<rparr>, to_read_only = Some False\<rparr>"

definition graph_timeline_tool :: tool where
  "graph_timeline_tool = \<lparr>to_name = ''memory_graph_timeline'', to_schema =
     \<lparr>ts_properties = (''entity'', T_String) # SCOPE_ARGS, ts_required = []\<rparr>, to_read_only = Some True\<rparr>"

definition graph_stats_tool :: tool where
  "graph_stats_tool = \<lparr>to_name = ''memory_graph_stats'', to_schema =
     \<lparr>ts_properties = [(''scope'', T_String)], ts_required = []\<rparr>, to_read_only = Some True\<rparr>"

definition graph_entities_tool :: tool where
  "graph_entities_tool = \<lparr>to_name = ''memory_graph_entities'', to_schema =
     \<lparr>ts_properties = (''kind'', T_String) # SCOPE_ARGS, ts_required = []\<rparr>, to_read_only = Some True\<rparr>"

definition graph_history_tool :: tool where
  "graph_history_tool = \<lparr>to_name = ''memory_graph_history'', to_schema =
     \<lparr>ts_properties = [(''fact_id'', T_String)], ts_required = [''fact_id'']\<rparr>, to_read_only = Some True\<rparr>"

section \<open>Deserialisers\<close>

text \<open>
  A \<open>String\<close> field must be there; an \<open>Option\<close> field may be absent or null. A field that is not the
  struct's is ignored.
\<close>

definition str_field :: "string \<Rightarrow> json \<Rightarrow> string option" where
  "str_field k v = Option.bind (json_get k v) as_str"

definition opt_field :: "(json \<Rightarrow> 'a option) \<Rightarrow> string \<Rightarrow> json \<Rightarrow> 'a option option" where
  "opt_field conv k v = (case json_get k v of
     None \<Rightarrow> Some None
   | Some j \<Rightarrow> if j = JNull then Some None else map_option Some (conv j))"

fun as_bool :: "json \<Rightarrow> bool option" where
  "as_bool (JBool b) = Some b"
| "as_bool _ = None"

fun as_usize :: "json \<Rightarrow> nat option" where
  "as_usize (JNumber n) = (if 0 \<le> n \<and> n < 2 ^ 64 then Some (nat n) else None)"
| "as_usize _ = None"

fun as_strings :: "json \<Rightarrow> string list option" where
  "as_strings (JArray js) = those (map as_str js)"
| "as_strings _ = None"

fun as_f32 :: "(int + f64 \<Rightarrow> f32) \<Rightarrow> json \<Rightarrow> f32 option" where
  "as_f32 conv (JNumber n) = Some (conv (Inl n))"
| "as_f32 conv (JFloat f) = Some (conv (Inr f))"
| "as_f32 conv _ = None"

record scope_args =
  sa_scope :: "string option"
  sa_scope_exact :: "bool option"

definition parse_scope_args :: "json \<Rightarrow> scope_args option" where
  "parse_scope_args v =
     Option.bind (opt_field as_str ''scope'' v) (\<lambda>sc.
     Option.bind (opt_field as_bool ''scope_exact'' v) (\<lambda>ex.
     Some \<lparr>sa_scope = sc, sa_scope_exact = ex\<rparr>))"

record retrieve_args =
  ra_query :: string
  ra_limit :: "nat option"
  ra_adapter :: "string option"
  ra_scope :: scope_args

definition parse_retrieve_args :: "json \<Rightarrow> retrieve_args option" where
  "parse_retrieve_args v =
     Option.bind (str_field ''query'' v) (\<lambda>q.
     Option.bind (opt_field as_usize ''limit'' v) (\<lambda>lm.
     Option.bind (opt_field as_str ''adapter'' v) (\<lambda>ad.
     Option.bind (parse_scope_args v) (\<lambda>sc.
     Some \<lparr>ra_query = q, ra_limit = lm, ra_adapter = ad, ra_scope = sc\<rparr>))))"

record list_args =
  la_tags :: "string list option"
  la_limit :: "nat option"
  la_scope :: scope_args

definition parse_list_args :: "json \<Rightarrow> list_args option" where
  "parse_list_args v =
     Option.bind (opt_field as_strings ''tags'' v) (\<lambda>ts.
     Option.bind (opt_field as_usize ''limit'' v) (\<lambda>lm.
     Option.bind (parse_scope_args v) (\<lambda>sc.
     Some \<lparr>la_tags = ts, la_limit = lm, la_scope = sc\<rparr>)))"

text \<open>\<open>MemoryGetArgs\<close>, \<open>MemoryRevisionsArgs\<close> and \<open>MemoryGraphHistoryArgs\<close> hold one id each.\<close>

definition parse_id_arg :: "string \<Rightarrow> json \<Rightarrow> string option" where
  "parse_id_arg k v = str_field k v"

record wakeup_args =
  wa_project :: "string option"
  wa_include_files :: "bool option"
  wa_limit :: "nat option"
  wa_max_bytes :: "nat option"
  wa_adapter :: "string option"

definition default_wakeup_args :: wakeup_args where
  "default_wakeup_args =
    \<lparr>wa_project = None, wa_include_files = None, wa_limit = None, wa_max_bytes = None, wa_adapter = None\<rparr>"

definition parse_wakeup_args :: "json \<Rightarrow> wakeup_args option" where
  "parse_wakeup_args v =
     Option.bind (opt_field as_str ''project'' v) (\<lambda>p.
     Option.bind (opt_field as_bool ''include_files'' v) (\<lambda>fs.
     Option.bind (opt_field as_usize ''limit'' v) (\<lambda>lm.
     Option.bind (opt_field as_usize ''max_bytes'' v) (\<lambda>mb.
     Option.bind (opt_field as_str ''adapter'' v) (\<lambda>ad.
     Some \<lparr>wa_project = p, wa_include_files = fs, wa_limit = lm, wa_max_bytes = mb, wa_adapter = ad\<rparr>)))))"

record ingest_args =
  ia_content :: string
  ia_tags :: "string list option"
  ia_source :: "string option"
  ia_supersedes :: "string option"
  ia_metadata :: "json option"
  ia_scope :: "string option"

definition parse_ingest_args :: "json \<Rightarrow> ingest_args option" where
  "parse_ingest_args v =
     Option.bind (str_field ''content'' v) (\<lambda>c.
     Option.bind (opt_field as_strings ''tags'' v) (\<lambda>ts.
     Option.bind (opt_field as_str ''source'' v) (\<lambda>src.
     Option.bind (opt_field as_str ''supersedes'' v) (\<lambda>sid.
     Option.bind (opt_field Some ''metadata'' v) (\<lambda>md.
     Option.bind (opt_field as_str ''scope'' v) (\<lambda>sc.
     Some \<lparr>ia_content = c, ia_tags = ts, ia_source = src, ia_supersedes = sid, ia_metadata = md,
       ia_scope = sc\<rparr>))))))"

text \<open>
  The fields by which the graph writers name a fact. \<open>MemoryGraphSupersedeArgs\<close> has two objects and
  no window, \<open>MemoryGraphAddArgs\<close> no instant.
\<close>

record graph_add_args =
  ga_subject :: string
  ga_predicate :: string
  ga_object :: string
  ga_object_is_value :: "bool option"
  ga_subject_kind :: "string option"
  ga_object_kind :: "string option"
  ga_valid_from :: "string option"
  ga_valid_to :: "string option"
  ga_confidence :: "f32 option"
  ga_source_item_id :: "string option"
  ga_scope :: "string option"

definition parse_graph_add_args :: "(int + f64 \<Rightarrow> f32) \<Rightarrow> json \<Rightarrow> graph_add_args option" where
  "parse_graph_add_args conv v =
     Option.bind (str_field ''subject'' v) (\<lambda>sb.
     Option.bind (str_field ''predicate'' v) (\<lambda>p.
     Option.bind (str_field ''object'' v) (\<lambda>ob.
     Option.bind (opt_field as_bool ''object_is_value'' v) (\<lambda>isv.
     Option.bind (opt_field as_str ''subject_kind'' v) (\<lambda>sk.
     Option.bind (opt_field as_str ''object_kind'' v) (\<lambda>ok.
     Option.bind (opt_field as_str ''valid_from'' v) (\<lambda>vf.
     Option.bind (opt_field as_str ''valid_to'' v) (\<lambda>vt.
     Option.bind (opt_field (as_f32 conv) ''confidence'' v) (\<lambda>cf.
     Option.bind (opt_field as_str ''source_item_id'' v) (\<lambda>src.
     Option.bind (opt_field as_str ''scope'' v) (\<lambda>sc.
     Some \<lparr>ga_subject = sb, ga_predicate = p, ga_object = ob, ga_object_is_value = isv, ga_subject_kind = sk,
       ga_object_kind = ok, ga_valid_from = vf, ga_valid_to = vt, ga_confidence = cf, ga_source_item_id = src,
       ga_scope = sc\<rparr>)))))))))))"

record graph_query_args =
  gq_entity :: "string option"
  gq_predicate :: "string option"
  gq_direction :: "string option"
  gq_as_of :: "string option"
  gq_recorded_at :: "string option"
  gq_scope :: scope_args

definition parse_graph_query_args :: "json \<Rightarrow> graph_query_args option" where
  "parse_graph_query_args v =
     Option.bind (opt_field as_str ''entity'' v) (\<lambda>e.
     Option.bind (opt_field as_str ''predicate'' v) (\<lambda>p.
     Option.bind (opt_field as_str ''direction'' v) (\<lambda>d.
     Option.bind (opt_field as_str ''as_of'' v) (\<lambda>a.
     Option.bind (opt_field as_str ''recorded_at'' v) (\<lambda>r.
     Option.bind (parse_scope_args v) (\<lambda>sc.
     Some \<lparr>gq_entity = e, gq_predicate = p, gq_direction = d, gq_as_of = a, gq_recorded_at = r, gq_scope = sc\<rparr>))))))"

record graph_invalidate_args =
  gi_subject :: string
  gi_predicate :: string
  gi_object :: string
  gi_object_is_value :: "bool option"
  gi_at :: "string option"
  gi_scope :: "string option"

definition parse_graph_invalidate_args :: "json \<Rightarrow> graph_invalidate_args option" where
  "parse_graph_invalidate_args v =
     Option.bind (str_field ''subject'' v) (\<lambda>sb.
     Option.bind (str_field ''predicate'' v) (\<lambda>p.
     Option.bind (str_field ''object'' v) (\<lambda>ob.
     Option.bind (opt_field as_bool ''object_is_value'' v) (\<lambda>isv.
     Option.bind (opt_field as_str ''at'' v) (\<lambda>a.
     Option.bind (opt_field as_str ''scope'' v) (\<lambda>sc.
     Some \<lparr>gi_subject = sb, gi_predicate = p, gi_object = ob, gi_object_is_value = isv, gi_at = a,
       gi_scope = sc\<rparr>))))))"

record graph_supersede_args =
  gu_subject :: string
  gu_predicate :: string
  gu_old_object :: string
  gu_new_object :: string
  gu_object_is_value :: "bool option"
  gu_at :: "string option"
  gu_scope :: "string option"

definition parse_graph_supersede_args :: "json \<Rightarrow> graph_supersede_args option" where
  "parse_graph_supersede_args v =
     Option.bind (str_field ''subject'' v) (\<lambda>sb.
     Option.bind (str_field ''predicate'' v) (\<lambda>p.
     Option.bind (str_field ''old_object'' v) (\<lambda>ob.
     Option.bind (str_field ''new_object'' v) (\<lambda>nb.
     Option.bind (opt_field as_bool ''object_is_value'' v) (\<lambda>isv.
     Option.bind (opt_field as_str ''at'' v) (\<lambda>a.
     Option.bind (opt_field as_str ''scope'' v) (\<lambda>sc.
     Some \<lparr>gu_subject = sb, gu_predicate = p, gu_old_object = ob, gu_new_object = nb, gu_object_is_value = isv,
       gu_at = a, gu_scope = sc\<rparr>)))))))"

record graph_timeline_args =
  gt_entity :: "string option"
  gt_scope :: scope_args

definition parse_graph_timeline_args :: "json \<Rightarrow> graph_timeline_args option" where
  "parse_graph_timeline_args v =
     Option.bind (opt_field as_str ''entity'' v) (\<lambda>e.
     Option.bind (parse_scope_args v) (\<lambda>sc.
     Some \<lparr>gt_entity = e, gt_scope = sc\<rparr>))"

record graph_entities_args =
  ge_kind :: "string option"
  ge_scope :: scope_args

definition parse_graph_entities_args :: "json \<Rightarrow> graph_entities_args option" where
  "parse_graph_entities_args v =
     Option.bind (opt_field as_str ''kind'' v) (\<lambda>k.
     Option.bind (parse_scope_args v) (\<lambda>sc.
     Some \<lparr>ge_kind = k, ge_scope = sc\<rparr>))"

definition parse_graph_stats_args :: "json \<Rightarrow> string option option" where
  "parse_graph_stats_args v = opt_field as_str ''scope'' v"

section \<open>What conforms to a schema can be parsed\<close>

lemma those_None: "list_all (\<lambda>j. as_str j \<noteq> None) js \<Longrightarrow> those (map as_str js) \<noteq> None"
  by (induction js) auto

lemma has_type_converts:
  "has_type T_String j \<Longrightarrow> as_str j \<noteq> None" "has_type (T_Enum ss) j \<Longrightarrow> as_str j \<noteq> None"
  "has_type T_Unit_Interval j \<Longrightarrow> as_f32 conv j \<noteq> None"
  "has_type T_Boolean j \<Longrightarrow> as_bool j \<noteq> None" "has_type T_Strings j \<Longrightarrow> as_strings j \<noteq> None"
  using those_None by (cases j; auto)+

lemma str_field_conforms:
  "json_get k v \<noteq> None \<Longrightarrow> (case json_get k v of None \<Rightarrow> True | Some j \<Rightarrow> has_type T_String j) \<Longrightarrow>
     \<exists>s. str_field k v = Some s"
  using has_type_converts(1) by (auto simp: str_field_def)

lemma opt_field_conforms:
  assumes "case json_get k v of None \<Rightarrow> True | Some j \<Rightarrow> has_type t j" "\<And>j. has_type t j \<Longrightarrow> conv j \<noteq> None"
  shows "\<exists>r. opt_field conv k v = Some r"
  using assms by (auto simp: opt_field_def split: option.split)

lemmas opt_conforms =
  opt_field_conforms[OF _ has_type_converts(1)] opt_field_conforms[OF _ has_type_converts(2)]
  opt_field_conforms[OF _ has_type_converts(3)]
  opt_field_conforms[OF _ has_type_converts(4)] opt_field_conforms[OF _ has_type_converts(5)]

text \<open>
  A count serde can read into a \<open>usize\<close>: an integer below \<open>2 ^ 64\<close>, not a float. The integers a schema
  admits need not be.
\<close>

fun plain_count :: "json \<Rightarrow> bool" where
  "plain_count (JNumber n) = (n < 2 ^ 64)"
| "plain_count _ = False"

fun is_count :: "json_type \<Rightarrow> bool" where
  "is_count (T_Integer lo hi) = True"
| "is_count _ = False"

definition counts_plain :: "tool_schema \<Rightarrow> json \<Rightarrow> bool" where
  "counts_plain sch v \<longleftrightarrow>
     list_all (\<lambda>(k, t). case json_get k v of None \<Rightarrow> True | Some j \<Rightarrow> is_count t \<longrightarrow> plain_count j) (ts_properties sch)"

lemma opt_usize_conforms:
  assumes "case json_get k v of None \<Rightarrow> True | Some j \<Rightarrow> has_type (T_Integer lo hi) j" "0 \<le> lo"
    "case json_get k v of None \<Rightarrow> True | Some j \<Rightarrow> is_count (T_Integer lo hi) \<longrightarrow> plain_count j"
  shows "\<exists>r. opt_field as_usize k v = Some r"
proof -
  have "has_type (T_Integer lo hi) j \<Longrightarrow> plain_count j \<Longrightarrow> as_usize j \<noteq> None" for j
    using assms(2) by (cases j) (auto simp: within_def)
  then show ?thesis using assms(1,3) by (auto simp: opt_field_def split: option.split)
qed

lemma opt_usize_refuses:
  "json_get k v = Some j \<Longrightarrow> has_type (T_Integer lo hi) j \<Longrightarrow> \<not> plain_count j \<Longrightarrow> opt_field as_usize k v = None"
  by (cases j) (auto simp: opt_field_def)

lemma opt_any: "\<exists>r. opt_field Some k v = Some r"
  by (simp add: opt_field_def split: option.split)

lemma bind_ok: "\<exists>r. a = Some r \<Longrightarrow> (\<And>r. \<exists>y. f r = Some y) \<Longrightarrow> \<exists>y. Option.bind a f = Some y"
  by auto

lemmas field_conforms = str_field_conforms opt_conforms opt_usize_conforms opt_any

lemma parse_scope_args_ok:
  "list_all (\<lambda>(k, t). case json_get k v of None \<Rightarrow> True | Some j \<Rightarrow> has_type t j) SCOPE_ARGS \<Longrightarrow>
     \<exists>a. parse_scope_args v = Some a"
  unfolding parse_scope_args_def by (intro bind_ok) (auto simp: SCOPE_ARGS_def intro: field_conforms)

lemma parse_retrieve_ok:
  "conforms (to_schema retrieve_tool) v \<Longrightarrow> counts_plain (to_schema retrieve_tool) v \<Longrightarrow> \<exists>a. parse_retrieve_args v = Some a"
  unfolding parse_retrieve_args_def
  by (intro bind_ok parse_scope_args_ok) (auto simp: conforms_def counts_plain_def retrieve_tool_def intro: field_conforms)

lemma parse_list_ok:
  "conforms (to_schema list_tool) v \<Longrightarrow> counts_plain (to_schema list_tool) v \<Longrightarrow> \<exists>a. parse_list_args v = Some a"
  unfolding parse_list_args_def
  by (intro bind_ok parse_scope_args_ok) (auto simp: conforms_def counts_plain_def list_tool_def intro: field_conforms)

lemma parse_id_ok:
  "conforms (to_schema get_tool) v \<Longrightarrow> \<exists>a. parse_id_arg ''id'' v = Some a"
  "conforms (to_schema revisions_tool) v \<Longrightarrow> \<exists>a. parse_id_arg ''id'' v = Some a"
  "conforms (to_schema graph_history_tool) v \<Longrightarrow> \<exists>a. parse_id_arg ''fact_id'' v = Some a"
  unfolding parse_id_arg_def
  by (auto simp: conforms_def get_tool_def revisions_tool_def graph_history_tool_def intro: field_conforms)

lemma parse_wakeup_ok:
  "conforms (to_schema wakeup_tool) v \<Longrightarrow> counts_plain (to_schema wakeup_tool) v \<Longrightarrow> \<exists>a. parse_wakeup_args v = Some a"
  unfolding parse_wakeup_args_def
  by (intro bind_ok) (auto simp: conforms_def counts_plain_def wakeup_tool_def intro: field_conforms)

lemma bind_None [simp]: "Option.bind a (\<lambda>_. None) = None"
  by (cases a) simp_all

lemma counts_refused:
  "conforms (to_schema retrieve_tool) v \<Longrightarrow> \<not> counts_plain (to_schema retrieve_tool) v \<Longrightarrow> parse_retrieve_args v = None"
  "conforms (to_schema list_tool) v \<Longrightarrow> \<not> counts_plain (to_schema list_tool) v \<Longrightarrow> parse_list_args v = None"
  "conforms (to_schema wakeup_tool) v \<Longrightarrow> \<not> counts_plain (to_schema wakeup_tool) v \<Longrightarrow> parse_wakeup_args v = None"
proof -
  note d = conforms_def counts_plain_def retrieve_tool_def list_tool_def wakeup_tool_def SCOPE_ARGS_def
  {
    assume "conforms (to_schema retrieve_tool) v" "\<not> counts_plain (to_schema retrieve_tool) v"
    then have "opt_field as_usize ''limit'' v = None"
      by (auto simp: d opt_usize_refuses split: option.splits)
    then show "parse_retrieve_args v = None" by (simp add: parse_retrieve_args_def)
  next
    assume "conforms (to_schema list_tool) v" "\<not> counts_plain (to_schema list_tool) v"
    then have "opt_field as_usize ''limit'' v = None"
      by (auto simp: d opt_usize_refuses split: option.splits)
    then show "parse_list_args v = None" by (simp add: parse_list_args_def)
  next
    assume "conforms (to_schema wakeup_tool) v" "\<not> counts_plain (to_schema wakeup_tool) v"
    then have "opt_field as_usize ''limit'' v = None \<or> opt_field as_usize ''max_bytes'' v = None"
      by (auto simp: d opt_usize_refuses split: option.splits)
    then show "parse_wakeup_args v = None" by (elim disjE) (simp_all add: parse_wakeup_args_def)
  }
qed

lemma parse_ingest_ok: "conforms (to_schema ingest_tool) v \<Longrightarrow> \<exists>a. parse_ingest_args v = Some a"
  unfolding parse_ingest_args_def
  by (intro bind_ok) (auto simp: conforms_def ingest_tool_def intro: field_conforms)

lemma parse_graph_writes_ok:
  "conforms (to_schema graph_add_tool) v \<Longrightarrow> \<exists>a. parse_graph_add_args conv v = Some a"
  "conforms (to_schema graph_invalidate_tool) v \<Longrightarrow> \<exists>a. parse_graph_invalidate_args v = Some a"
  "conforms (to_schema graph_supersede_tool) v \<Longrightarrow> \<exists>a. parse_graph_supersede_args v = Some a"
  unfolding parse_graph_add_args_def parse_graph_invalidate_args_def parse_graph_supersede_args_def
  by ((intro bind_ok; (auto simp: conforms_def graph_add_tool_def graph_invalidate_tool_def
      graph_supersede_tool_def intro: field_conforms))+)

lemma parse_graph_reads_ok:
  "conforms (to_schema graph_query_tool) v \<Longrightarrow> \<exists>a. parse_graph_query_args v = Some a"
  "conforms (to_schema graph_timeline_tool) v \<Longrightarrow> \<exists>a. parse_graph_timeline_args v = Some a"
  "conforms (to_schema graph_entities_tool) v \<Longrightarrow> \<exists>a. parse_graph_entities_args v = Some a"
  unfolding parse_graph_query_args_def parse_graph_timeline_args_def parse_graph_entities_args_def
  by ((intro bind_ok parse_scope_args_ok; (auto simp: conforms_def graph_query_tool_def graph_timeline_tool_def
      graph_entities_tool_def intro: field_conforms))+)

lemma parse_graph_stats_ok: "conforms (to_schema graph_stats_tool) v \<Longrightarrow> \<exists>a. parse_graph_stats_args v = Some a"
  unfolding parse_graph_stats_args_def by (auto simp: conforms_def graph_stats_tool_def intro: field_conforms)

end
