(* ===== verification/Mcp_Tools.thy ===== *)
theory Mcp_Tools
  imports Mcp_Args Adapters Store_History
begin

text \<open>
  The handlers of \<open>singularmem-mcp/src/tools/\<close>: each opens the store anew, runs one operation of the
  core and renders the result. What the system answers while one request is served (opening the
  store and the indexes, the file system, the clock and faults of the new handle) is a record; the
  parsing of ids and the printing of numbers are another, since they belong to other crates.
\<close>

section \<open>Configuration and environment\<close>

datatype mcp_error =
    Mcp_Read_Only
  | Mcp_Invalid_Id string
  | Mcp_Retrieve retrieve_error
  | Mcp_Search search_error
  | Mcp_Core error
  | Mcp_Unknown_Adapter string
  | Mcp_Io string
  | Mcp_Invalid_Store_Path string string
  | Mcp_Invalid_Project string
  | Mcp_No_Project string

record mcp_config =
  mc_store_path :: string
  mc_default_adapter :: string
  mc_known_adapters :: "(string \<times> adapter) list"
  mc_read_only :: bool
  mc_project :: "string option"

text \<open>\<open>Config::new\<close> and \<open>with_project\<close>.\<close>

definition config_new :: "printing \<Rightarrow> string \<Rightarrow> string \<Rightarrow> bool \<Rightarrow> mcp_config" where
  "config_new pr path adapter_name ro =
    \<lparr>mc_store_path = path, mc_default_adapter = adapter_name,
     mc_known_adapters = [(''plain'', plain_format pr), (''claude'', claude_format),
       (''openai'', openai_format pr), (''gemini'', gemini_format pr)],
     mc_read_only = ro, mc_project = None\<rparr>"

record mcp_text =
  mt_printing :: printing
  mt_confidence :: "f32 \<Rightarrow> string"
  mt_parse_id :: "string \<Rightarrow> string + ulid"
  mt_f32 :: "int + f64 \<Rightarrow> f32"

record mcp_env =
  me_open_error :: "bool \<Rightarrow> error option"
  me_clock :: "nat \<Rightarrow> timestamp"
  me_rng :: "nat \<Rightarrow> nat"
  me_faults :: "bool list"
  me_exists :: "string \<Rightarrow> bool"
  me_lexical :: "string \<Rightarrow> search_error + lexical \<times> index_hook"
  me_embedder_error :: "search_error option"
  me_semantic :: "string \<Rightarrow> search_error + semantic \<times> index_hook"
  me_is_dir :: "string \<Rightarrow> bool"
  me_current_dir :: "string + string"
  me_canonicalize :: "string \<Rightarrow> string option"

text \<open>A handler, as a function of the store the server works on.\<close>

type_synonym 'a served = "store \<Rightarrow> (mcp_error + 'a) \<times> store"

text \<open>\<open>Store::open\<close>, \<open>open_with_options\<close> and \<open>open_with_hook\<close>, then an operation on the new handle.\<close>

definition on_store :: "mcp_env \<Rightarrow> bool \<Rightarrow> index_hook option \<Rightarrow> 'a op \<Rightarrow> 'a served" where
  "on_store en ro h m s =
     (case me_open_error en ro of
        Some e \<Rightarrow> (Inl (Mcp_Core e), s)
      | None \<Rightarrow> apfst (map_sum Mcp_Core id) (m (other_handle (me_clock en) (me_rng en) h ro (me_faults en) s)))"

definition reading :: "mcp_env \<Rightarrow> mcp_config \<Rightarrow> 'a op \<Rightarrow> 'a served" where
  "reading en cfg m = on_store en (mc_read_only cfg) None m"

definition writing :: "mcp_env \<Rightarrow> 'a op \<Rightarrow> 'a served" where
  "writing en m = on_store en False None m"

definition served_map :: "('a \<Rightarrow> 'b) \<Rightarrow> 'a served \<Rightarrow> 'b served" where
  "served_map f m s = apfst (map_sum id f) (m s)"

text \<open>The \<open>?\<close> of a handler on a value that needs no store.\<close>

definition needs :: "mcp_error + 'a \<Rightarrow> ('a \<Rightarrow> 'b served) \<Rightarrow> 'b served" where
  "needs r k s = (case r of Inl e \<Rightarrow> (Inl e, s) | Inr x \<Rightarrow> k x s)"

section \<open>Shared helpers\<close>

definition scope_filter_of :: "string option \<Rightarrow> bool option \<Rightarrow> error + scope_filter option" where
  "scope_filter_of sc ex = (case sc of
     None \<Rightarrow> Inr None
   | Some p \<Rightarrow> map_sum id Some (if ex = Some True then exact_filter p else descendants_filter p))"

definition filter_arg :: "scope_args \<Rightarrow> error + scope_filter option" where
  "filter_arg a = scope_filter_of (sa_scope a) (sa_scope_exact a)"

definition find_adapter :: "mcp_config \<Rightarrow> string option \<Rightarrow> mcp_error + adapter" where
  "find_adapter cfg nm =
     (let wanted = (case nm of None \<Rightarrow> mc_default_adapter cfg | Some n \<Rightarrow> n)
      in case find (\<lambda>(n, a). n = wanted) (mc_known_adapters cfg) of
           None \<Rightarrow> Inl (Mcp_Unknown_Adapter wanted) | Some (n, a) \<Rightarrow> Inr a)"

definition item_id_of :: "mcp_text \<Rightarrow> string \<Rightarrow> mcp_error + ulid" where
  "item_id_of tx s = map_sum Mcp_Invalid_Id id (mt_parse_id tx s)"

definition clamp :: "nat \<Rightarrow> nat \<Rightarrow> nat \<Rightarrow> nat" where
  "clamp lo hi n = max lo (min n hi)"

text \<open>\<open>chars().take(n).collect()\<close>, on the bytes; then newlines become spaces.\<close>

fun take_chars :: "nat \<Rightarrow> string \<Rightarrow> string" where
  "take_chars n [] = []"
| "take_chars n (c # s) =
     (if is_continuation c then c # take_chars n s
      else (case n of 0 \<Rightarrow> [] | Suc m \<Rightarrow> c # take_chars m s))"

definition snippet :: "string \<Rightarrow> string" where
  "snippet s = replace_char nl '' '' (take_chars 80 s)"

definition id_line :: "mcp_text \<Rightarrow> item \<Rightarrow> string" where
  "id_line tx it = line (show_id (mt_printing tx) (item_id it) @ '': '' @ snippet (content it))"

section \<open>Items\<close>

definition item_text :: "mcp_text \<Rightarrow> item \<Rightarrow> string" where
  "item_text tx it =
     line (''Memory '' @ show_id (mt_printing tx) (item_id it)) @
     line (''Created: '' @ show_time (mt_printing tx) (created_at it)) @
     (case source it of None \<Rightarrow> [] | Some src \<Rightarrow> line (''Source: '' @ src)) @
     (if tags it = [] then [] else line (''Tags: '' @ join '', '' (tags it))) @
     [nl] @ content it"

definition handle_memory_get :: "mcp_text \<Rightarrow> mcp_env \<Rightarrow> mcp_config \<Rightarrow> string \<Rightarrow> string served" where
  "handle_memory_get tx en cfg raw =
     needs (item_id_of tx raw) (\<lambda>i. served_map (item_text tx) (reading en cfg (get i)))"

definition list_text :: "mcp_text \<Rightarrow> nat \<Rightarrow> item list \<Rightarrow> string" where
  "list_text tx lm its =
     ''Found '' @ show_nat (length its) @ '' memor'' @ (if length its = 1 then ''y'' else ''ies'') @
     '' (limit '' @ show_nat lm @ ''):'' @ [nl, nl] @ concat (map (id_line tx) its)"

definition list_limit :: "list_args \<Rightarrow> nat" where
  "list_limit a = clamp 1 100 (case la_limit a of None \<Rightarrow> 50 | Some n \<Rightarrow> n)"

definition list_items :: "list_args \<Rightarrow> item list op" where
  "list_items a =
     bindM (lift (filter_arg (la_scope a))) (\<lambda>f.
     bindM (list_by_tags_scoped (case la_tags a of None \<Rightarrow> [] | Some ts \<Rightarrow> ts) f) (\<lambda>ids.
     mapM get (take (list_limit a) ids)))"

definition handle_memory_list :: "mcp_text \<Rightarrow> mcp_env \<Rightarrow> mcp_config \<Rightarrow> list_args \<Rightarrow> string served" where
  "handle_memory_list tx en cfg a =
     served_map (list_text tx (list_limit a)) (reading en cfg (list_items a))"

definition revisions_text :: "mcp_text \<Rightarrow> string \<Rightarrow> item list \<Rightarrow> string" where
  "revisions_text tx raw its =
     ''Revisions of '' @ raw @ '' ('' @ show_nat (length its) @ '' item'' @ (if length its = 1 then [] else ''s'') @
     '', newest first):'' @ [nl, nl] @ concat (map (id_line tx) its)"

text \<open>A walk that does not return is \<open>None\<close>, and so is the handler's answer.\<close>

definition walking :: "(store \<Rightarrow> ((error + 'a) \<times> store) option) \<Rightarrow> mcp_env \<Rightarrow> mcp_config \<Rightarrow> store \<Rightarrow> ((mcp_error + 'a) \<times> store) option" where
  "walking m en cfg s =
     (case me_open_error en (mc_read_only cfg) of
        Some e \<Rightarrow> Some (Inl (Mcp_Core e), s)
      | None \<Rightarrow> map_option (apfst (map_sum Mcp_Core id))
          (m (other_handle (me_clock en) (me_rng en) None (mc_read_only cfg) (me_faults en) s)))"

definition handle_memory_revisions ::
  "mcp_text \<Rightarrow> mcp_env \<Rightarrow> mcp_config \<Rightarrow> string \<Rightarrow> store \<Rightarrow> ((mcp_error + string) \<times> store) option"
where
  "handle_memory_revisions tx en cfg raw s =
     (case item_id_of tx raw of
        Inl e \<Rightarrow> Some (Inl e, s)
      | Inr i \<Rightarrow> map_option (apfst (map_sum id (revisions_text tx raw))) (walking (revision_history i) en cfg s))"

definition scopes_text :: "(string \<times> nat) list \<Rightarrow> string" where
  "scopes_text ps = (if ps = [] then ''No scopes (all items are unscoped).''
     else concat (map (\<lambda>(p, n). line (p @ [CHR 0x09] @ show_nat n)) ps))"

definition handle_memory_scopes :: "mcp_env \<Rightarrow> mcp_config \<Rightarrow> string served" where
  "handle_memory_scopes en cfg = served_map scopes_text (reading en cfg scopes)"

definition derive_index_path :: "string \<Rightarrow> string" where
  "derive_index_path p = p @ ''.tantivy''"

definition derive_vectors_path :: "string \<Rightarrow> string" where
  "derive_vectors_path p = p @ ''.vectors''"

text \<open>
  \<open>open_store_with_hooks\<close>: an index that cannot be opened is left out; an embedder that cannot be
  created is an error.
\<close>

definition ingest_hooks :: "mcp_env \<Rightarrow> string \<Rightarrow> mcp_error + index_hook list" where
  "ingest_hooks en path =
     (let lex = derive_index_path path; vec = derive_vectors_path path;
          hs = (if me_exists en lex then (case me_lexical en lex of Inr (_, h) \<Rightarrow> [h] | Inl e \<Rightarrow> []) else [])
      in if me_exists en vec
         then (case me_embedder_error en of
                 Some e \<Rightarrow> Inl (Mcp_Search e)
               | None \<Rightarrow> Inr (hs @ (case me_semantic en vec of Inr (_, h) \<Rightarrow> [h] | Inl e \<Rightarrow> [])))
         else Inr hs)"

definition hook_of :: "index_hook list \<Rightarrow> index_hook option" where
  "hook_of hs = (if hs = [] then None else Some (MultiHook hs))"

definition ingest_text :: "mcp_text \<Rightarrow> item \<Rightarrow> string" where
  "ingest_text tx it =
     line (''Ingested memory '' @ show_id (mt_printing tx) (item_id it) @ '' at '' @
       show_time (mt_printing tx) (created_at it))"

definition ingest_item :: "ingest_args \<Rightarrow> ulid option \<Rightarrow> new_item" where
  "ingest_item a sid =
     (new_item_text (ia_content a))
       \<lparr>n_tags := (case ia_tags a of None \<Rightarrow> [] | Some ts \<Rightarrow> ts), n_source := ia_source a,
        n_supersedes := sid, n_scope := ia_scope a,
        n_metadata := (case ia_metadata a of None \<Rightarrow> default_metadata | Some m \<Rightarrow> m)\<rparr>"

definition handle_memory_ingest :: "mcp_text \<Rightarrow> mcp_env \<Rightarrow> mcp_config \<Rightarrow> ingest_args \<Rightarrow> string served" where
  "handle_memory_ingest tx en cfg a s =
     (if mc_read_only cfg then (Inl Mcp_Read_Only, s)
      else needs (opt_traverse (item_id_of tx) (ia_supersedes a)) (\<lambda>sid.
        needs (ingest_hooks en (mc_store_path cfg)) (\<lambda>hs.
        served_map (ingest_text tx) (on_store en False (hook_of hs) (ingest (ingest_item a sid))))) s)"

section \<open>Retrieval and wake-up\<close>

definition retrieve_options_of :: "retrieve_args \<Rightarrow> scope_filter option \<Rightarrow> retrieve_options" where
  "retrieve_options_of a f =
    \<lparr>max_blocks = clamp 1 50 (case ra_limit a of None \<Rightarrow> 10 | Some n \<Rightarrow> n), min_score = 0,
     ro_search = default_hybrid_options, ro_scope = f\<rparr>"

text \<open>The indexes that exist beside the store, opened; at least one has to be there.\<close>

definition open_searcher :: "mcp_env \<Rightarrow> string \<Rightarrow> mcp_error + searcher" where
  "open_searcher en path =
     (let lex = derive_index_path path; vec = derive_vectors_path path in
      if \<not> me_exists en lex \<and> \<not> me_exists en vec then Inl (Mcp_Search No_Indexes)
      else rbind (if me_exists en lex then map_sum Mcp_Search (\<lambda>p. Some (fst p)) (me_lexical en lex) else Inr None) (\<lambda>l.
        rbind (if me_exists en vec
               then (case me_embedder_error en of
                       Some e \<Rightarrow> Inl (Mcp_Search e)
                     | None \<Rightarrow> map_sum Mcp_Search (\<lambda>p. Some (fst p)) (me_semantic en vec))
               else Inr None) (\<lambda>v.
        Inr \<lparr>lexical = l, semantic = v, lookup = None\<rparr>)))"

definition handle_memory_retrieve :: "mcp_env \<Rightarrow> mcp_config \<Rightarrow> retrieve_args \<Rightarrow> string served" where
  "handle_memory_retrieve en cfg a s =
     needs (find_adapter cfg (ra_adapter a)) (\<lambda>fmt.
     needs (map_sum Mcp_Core id (filter_arg (ra_scope a))) (\<lambda>f s.
     case me_open_error en (mc_read_only cfg) of
       Some e \<Rightarrow> (Inl (Mcp_Core e), s)
     | None \<Rightarrow>
         needs (open_searcher en (mc_store_path cfg)) (\<lambda>sr s.
           apfst (map_sum Mcp_Retrieve fmt) (retrieve sr (ra_query a) (retrieve_options_of a f) s))
         (other_handle (me_clock en) (me_rng en) None (mc_read_only cfg) (me_faults en) s))) s"

definition resolve_project :: "mcp_env \<Rightarrow> mcp_config \<Rightarrow> string option \<Rightarrow> mcp_error + string" where
  "resolve_project en cfg arg =
     rbind (case arg of Some p \<Rightarrow> Inr p
       | None \<Rightarrow> (case mc_project cfg of Some p \<Rightarrow> Inr p
           | None \<Rightarrow> map_sum Mcp_No_Project id (me_current_dir en))) (\<lambda>dir.
     if me_is_dir en dir then Inr dir else Inl (Mcp_Invalid_Project dir))"

definition wakeup_options_of :: "wakeup_args \<Rightarrow> wakeup_options" where
  "wakeup_options_of a =
    \<lparr>wk_limit = (case wa_limit a of None \<Rightarrow> 20 | Some n \<Rightarrow> n),
     wk_max_bytes = (case wa_max_bytes a of None \<Rightarrow> 8192 | Some n \<Rightarrow> n)\<rparr>"

definition handle_memory_wakeup :: "mcp_env \<Rightarrow> mcp_config \<Rightarrow> wakeup_args \<Rightarrow> string served" where
  "handle_memory_wakeup en cfg a =
     needs (resolve_project en cfg (wa_project a)) (\<lambda>dir.
     needs (find_adapter cfg (wa_adapter a)) (\<lambda>fmt.
     served_map (\<lambda>w. render w fmt (wk_max_bytes (wakeup_options_of a)))
       (reading en cfg (build (for_project (me_canonicalize en) dir (wa_include_files a = Some True))
          (wakeup_options_of a)))))"

section \<open>The graph\<close>

definition arrow :: string where
  "arrow = [CHR 0xE2, CHR 0x86, CHR 0x92]"

fun fact_object_text :: "fact_object \<Rightarrow> string" where
  "fact_object_text (Entity_Object e) = er_name e"
| "fact_object_text (Value_Object v) = v"

definition or_else :: "string \<Rightarrow> ('a \<Rightarrow> string) \<Rightarrow> 'a option \<Rightarrow> string" where
  "or_else d f v = (case v of None \<Rightarrow> d | Some x \<Rightarrow> f x)"

definition render_fact :: "mcp_text \<Rightarrow> fact \<Rightarrow> string" where
  "render_fact tx f =
     (let pr = mt_printing tx in
      show_id pr (fa_id f) @ ''  '' @ er_name (fa_subject f) @ '' '' @ em_dash @ fa_predicate f @ arrow @ '' '' @
      fact_object_text (fa_object f) @ ''  ['' @ or_else ''?'' (show_time pr) (fa_valid_from f) @ '', '' @
      or_else ''open'' (show_time pr) (fa_valid_to f) @ '')  conf='' @ mt_confidence tx (fa_confidence f) @
      ''  scope='' @ or_else ''-'' id (fa_scope f) @ ''  src='' @ or_else ''-'' (show_id pr) (fa_source_item_id f))"

text \<open>One line each, without the newline of the last.\<close>

definition lines_or :: "string \<Rightarrow> ('a \<Rightarrow> string) \<Rightarrow> 'a list \<Rightarrow> string" where
  "lines_or d f xs = (if xs = [] then d else butlast (concat (map (\<lambda>x. line (f x)) xs)))"

definition render_facts :: "mcp_text \<Rightarrow> fact list \<Rightarrow> string" where
  "render_facts tx fs = lines_or ''No facts.'' (render_fact tx) fs"

definition render_timeline :: "mcp_text \<Rightarrow> timeline_entry list \<Rightarrow> string" where
  "render_timeline tx es = lines_or ''No facts.''
     (\<lambda>e. ''['' @ (if tl_current e then ''current'' else ''closed'') @ ''] '' @ render_fact tx (tl_fact e)) es"

definition render_stats :: "stats \<Rightarrow> string" where
  "render_stats s =
     ''entities: '' @ show_nat (gs_entities s) @ [nl] @ ''open facts: '' @ show_nat (gs_open_facts s) @ [nl] @
     ''closed facts: '' @ show_nat (gs_closed_facts s) @ [nl] @ ''predicates: '' @ show_nat (gs_predicates s)"

definition render_entity :: "mcp_text \<Rightarrow> entity \<times> nat \<Rightarrow> string" where
  "render_entity tx p = (case p of (e, n) \<Rightarrow>
     join [CHR 0x09] [show_id (mt_printing tx) (en_id e), en_name e, or_else ''-'' id (en_kind e), show_nat n])"

definition render_entities :: "mcp_text \<Rightarrow> (entity \<times> nat) list \<Rightarrow> string" where
  "render_entities tx es = lines_or ''No entities.'' (render_entity tx) es"

definition build_object :: "string \<Rightarrow> bool option \<Rightarrow> string option \<Rightarrow> new_object" where
  "build_object raw is_value kind = (if is_value = Some True then New_Value raw else New_Entity raw kind)"

definition rename_field :: "string \<Rightarrow> error \<Rightarrow> error" where
  "rename_field arg e = (case e of Validation f r \<Rightarrow> Validation arg r | _ \<Rightarrow> e)"

definition parse_optional_point :: "externals \<Rightarrow> string \<Rightarrow> string option \<Rightarrow> mcp_error + timestamp option" where
  "parse_optional_point x arg raw = map_sum (\<lambda>e. Mcp_Core (rename_field arg e)) id (opt_traverse (parse_point x) raw)"

text \<open>The message names the rejected direction and the three admitted ones.\<close>

definition parse_direction :: "string option \<Rightarrow> mcp_error + direction" where
  "parse_direction raw = (case raw of
     None \<Rightarrow> Inr Both
   | Some d \<Rightarrow> if d = ''outgoing'' then Inr Outgoing else if d = ''incoming'' then Inr Incoming
       else if d = ''both'' then Inr Both else Inl (Mcp_Core (Validation ''direction'' (NotADirection d))))"

definition handle_memory_graph_add :: "mcp_text \<Rightarrow> mcp_env \<Rightarrow> mcp_config \<Rightarrow> graph_add_args \<Rightarrow> string served" where
  "handle_memory_graph_add tx en cfg a s =
     (if mc_read_only cfg then (Inl Mcp_Read_Only, s)
      else needs (parse_optional_point (ext s) ''valid_from'' (ga_valid_from a)) (\<lambda>vf.
        needs (parse_optional_point (ext s) ''valid_to'' (ga_valid_to a)) (\<lambda>vt.
        needs (opt_traverse (item_id_of tx) (ga_source_item_id a)) (\<lambda>src.
        served_map (render_fact tx) (writing en (add_fact
          \<lparr>nf_subject = ga_subject a, nf_subject_kind = ga_subject_kind a, nf_predicate = ga_predicate a,
           nf_object = build_object (ga_object a) (ga_object_is_value a) (ga_object_kind a),
           nf_valid_from = vf, nf_valid_to = vt,
           nf_confidence = (case ga_confidence a of None \<Rightarrow> 0x3F800000 | Some c \<Rightarrow> c),
           nf_source_item_id = src, nf_scope = ga_scope a\<rparr>))))) s)"

definition handle_memory_graph_query ::
  "mcp_text \<Rightarrow> mcp_env \<Rightarrow> mcp_config \<Rightarrow> graph_query_args \<Rightarrow> string served"
where
  "handle_memory_graph_query tx en cfg a s =
     (if (gq_entity a = None) = (gq_predicate a = None)
      then (Inl (Mcp_Core (Validation ''query'' OneOfTwoRequired)), s)
      else needs (map_sum Mcp_Core id (filter_arg (gq_scope a))) (\<lambda>sc.
        needs (parse_optional_point (ext s) ''as_of'' (gq_as_of a)) (\<lambda>as_of.
        needs (parse_optional_point (ext s) ''recorded_at'' (gq_recorded_at a)) (\<lambda>rec.
        needs (parse_direction (gq_direction a)) (\<lambda>dir.
        let q = \<lparr>q_scope = sc, q_as_of = as_of, q_recorded_at = rec, q_direction = dir\<rparr> in
        served_map (render_facts tx) (reading en cfg
          (case gq_entity a of
             Some e \<Rightarrow> query_entity e q
           | None \<Rightarrow> query_predicate (the (gq_predicate a)) q)))))) s)"

definition handle_memory_graph_invalidate ::
  "mcp_text \<Rightarrow> mcp_env \<Rightarrow> mcp_config \<Rightarrow> graph_invalidate_args \<Rightarrow> string served"
where
  "handle_memory_graph_invalidate tx en cfg a s =
     (if mc_read_only cfg then (Inl Mcp_Read_Only, s)
      else needs (parse_optional_point (ext s) ''at'' (gi_at a)) (\<lambda>inst.
        served_map (render_fact tx) (writing en (invalidate_fact
          \<lparr>tr_subject = gi_subject a, tr_predicate = gi_predicate a,
           tr_object = build_object (gi_object a) (gi_object_is_value a) None, tr_scope = gi_scope a\<rparr> inst))) s)"

definition supersede_text :: "mcp_text \<Rightarrow> fact option \<times> fact \<Rightarrow> string" where
  "supersede_text tx p = (case p of (old_fact, new_fact_row) \<Rightarrow>
     ''closed: '' @ or_else ''none'' (render_fact tx) old_fact @ [nl] @ ''opened: '' @ render_fact tx new_fact_row)"

definition handle_memory_graph_supersede ::
  "mcp_text \<Rightarrow> mcp_env \<Rightarrow> mcp_config \<Rightarrow> graph_supersede_args \<Rightarrow> string served"
where
  "handle_memory_graph_supersede tx en cfg a s =
     (if mc_read_only cfg then (Inl Mcp_Read_Only, s)
      else needs (parse_optional_point (ext s) ''at'' (gu_at a)) (\<lambda>inst.
        served_map (supersede_text tx) (writing en (supersede_fact
          \<lparr>tr_subject = gu_subject a, tr_predicate = gu_predicate a,
           tr_object = build_object (gu_old_object a) (gu_object_is_value a) None, tr_scope = gu_scope a\<rparr>
          (build_object (gu_new_object a) (gu_object_is_value a) None) inst))) s)"

definition handle_memory_graph_timeline ::
  "mcp_text \<Rightarrow> mcp_env \<Rightarrow> mcp_config \<Rightarrow> graph_timeline_args \<Rightarrow> string served"
where
  "handle_memory_graph_timeline tx en cfg a =
     needs (map_sum Mcp_Core id (filter_arg (gt_scope a))) (\<lambda>sc.
     served_map (render_timeline tx) (reading en cfg (timeline (gt_entity a) sc)))"

definition handle_memory_graph_stats :: "mcp_env \<Rightarrow> mcp_config \<Rightarrow> string option \<Rightarrow> string served" where
  "handle_memory_graph_stats en cfg sc_arg =
     needs (map_sum Mcp_Core id (scope_filter_of sc_arg None)) (\<lambda>sc.
     served_map render_stats (reading en cfg (graph_stats sc)))"

definition handle_memory_graph_entities ::
  "mcp_text \<Rightarrow> mcp_env \<Rightarrow> mcp_config \<Rightarrow> graph_entities_args \<Rightarrow> string served"
where
  "handle_memory_graph_entities tx en cfg a =
     needs (map_sum Mcp_Core id (filter_arg (ge_scope a))) (\<lambda>sc.
     served_map (render_entities tx) (reading en cfg (list_entities sc (ge_kind a))))"

definition handle_memory_graph_history ::
  "mcp_text \<Rightarrow> mcp_env \<Rightarrow> mcp_config \<Rightarrow> string \<Rightarrow> store \<Rightarrow> ((mcp_error + string) \<times> store) option"
where
  "handle_memory_graph_history tx en cfg raw s =
     (case mt_parse_id tx raw of
        Inl e \<Rightarrow> Some (Inl (Mcp_Core (InvalidId e)), s)
      | Inr i \<Rightarrow> map_option (apfst (map_sum id (render_facts tx))) (walking (fact_history i) en cfg s))"

end
