(* ===== verification/Mcp_Server.thy ===== *)
theory Mcp_Server
  imports Mcp_Tools
begin

text \<open>
  \<open>singularmem-mcp/src/server.rs\<close>, \<open>prompts.rs\<close> and \<open>resources.rs\<close>: the tools a server lists, the
  dispatch of a request to its handler, and the mapping of errors to those of the protocol. The
  protocol itself (framing, \<open>initialize\<close>) belongs to the rmcp crate. A request that does not return
  is \<open>None\<close>.
\<close>

section \<open>Protocol errors\<close>

text \<open>One constructor per message; an internal error has the text of the error it carries.\<close>

datatype rpc_message =
    Parse_Failed string
  | Tool_Disabled string
  | Bad_Item_Id string
  | Bad_Field string reason
  | No_Open_Fact string string string
  | No_Fact ulid
  | Bad_Fact_Id string
  | Bad_Project string
  | Undetermined_Project string
  | Bad_Adapter string
  | Query_Empty
  | No_Target ulid
  | No_Memory ulid
  | Project_Not_String
  | No_Prompt string

datatype rpc_error =
    Invalid_Params rpc_message
  | Internal_Error mcp_error
  | Not_Indexed_Yet
  | Method_Not_Found
  | Resource_Not_Found string

definition map_graph_write_error :: "string \<Rightarrow> mcp_error \<Rightarrow> rpc_error" where
  "map_graph_write_error nm err = (case err of
     Mcp_Read_Only \<Rightarrow> Invalid_Params (Tool_Disabled nm)
   | Mcp_Invalid_Id m \<Rightarrow> Invalid_Params (Bad_Item_Id m)
   | Mcp_Core (Validation f r) \<Rightarrow> Invalid_Params (Bad_Field f r)
   | Mcp_Core (FactNotFound sb p ob) \<Rightarrow> Invalid_Params (No_Open_Fact sb p ob)
   | Mcp_Core (FactIdNotFound i) \<Rightarrow> Invalid_Params (No_Fact i)
   | _ \<Rightarrow> Internal_Error err)"

definition map_graph_read_error :: "mcp_error \<Rightarrow> rpc_error" where
  "map_graph_read_error err = (case err of
     Mcp_Core (Validation f r) \<Rightarrow> Invalid_Params (Bad_Field f r)
   | Mcp_Core (FactIdNotFound i) \<Rightarrow> Invalid_Params (No_Fact i)
   | Mcp_Core (InvalidId e) \<Rightarrow> Invalid_Params (Bad_Fact_Id e)
   | _ \<Rightarrow> Internal_Error err)"

definition map_wakeup_error :: "mcp_error \<Rightarrow> rpc_error" where
  "map_wakeup_error err = (case err of
     Mcp_Invalid_Project p \<Rightarrow> Invalid_Params (Bad_Project p)
   | Mcp_No_Project m \<Rightarrow> Invalid_Params (Undetermined_Project m)
   | Mcp_Unknown_Adapter n \<Rightarrow> Invalid_Params (Bad_Adapter n)
   | _ \<Rightarrow> Internal_Error err)"

definition map_retrieve_error :: "mcp_error \<Rightarrow> rpc_error" where
  "map_retrieve_error err = (case err of
     Mcp_Retrieve Empty_Query \<Rightarrow> Invalid_Params Query_Empty
   | Mcp_Unknown_Adapter n \<Rightarrow> Invalid_Params (Bad_Adapter n)
   | Mcp_Search No_Indexes \<Rightarrow> Not_Indexed_Yet
   | Mcp_Core (Validation f r) \<Rightarrow> Invalid_Params (Bad_Field f r)
   | _ \<Rightarrow> Internal_Error err)"

definition map_ingest_error :: "mcp_error \<Rightarrow> rpc_error" where
  "map_ingest_error err = (case err of
     Mcp_Read_Only \<Rightarrow> Invalid_Params (Tool_Disabled ''memory_ingest'')
   | Mcp_Invalid_Id m \<Rightarrow> Invalid_Params (Bad_Item_Id m)
   | Mcp_Core (Validation f r) \<Rightarrow> Invalid_Params (Bad_Field f r)
   | Mcp_Core (SupersedesNotFound i) \<Rightarrow> Invalid_Params (No_Target i)
   | _ \<Rightarrow> Internal_Error err)"

text \<open>\<open>memory_get\<close> and \<open>memory_revisions\<close>.\<close>

definition map_get_error :: "mcp_error \<Rightarrow> rpc_error" where
  "map_get_error err = (case err of
     Mcp_Invalid_Id m \<Rightarrow> Invalid_Params (Bad_Item_Id m)
   | Mcp_Core (NotFound i) \<Rightarrow> Invalid_Params (No_Memory i)
   | _ \<Rightarrow> Internal_Error err)"

definition map_list_error :: "mcp_error \<Rightarrow> rpc_error" where
  "map_list_error err = (case err of
     Mcp_Core (Validation f r) \<Rightarrow> Invalid_Params (Bad_Field f r)
   | _ \<Rightarrow> Internal_Error err)"

section \<open>Tools\<close>

definition list_tools :: "mcp_config \<Rightarrow> tool list" where
  "list_tools cfg =
     [retrieve_tool, get_tool, list_tool, revisions_tool, scopes_tool, wakeup_tool, graph_query_tool,
      graph_timeline_tool, graph_stats_tool, graph_entities_tool, graph_history_tool] @
     (if mc_read_only cfg then []
      else [ingest_tool, graph_add_tool, graph_invalidate_tool, graph_supersede_tool])"

type_synonym arguments = "(string \<times> json) list option"

type_synonym answered = "store \<Rightarrow> ((rpc_error + string) \<times> store) option"

definition parse_call_args :: "(json \<Rightarrow> 'a option) \<Rightarrow> string \<Rightarrow> arguments \<Rightarrow> ('a \<Rightarrow> answered) \<Rightarrow> answered" where
  "parse_call_args parse nm args k s =
     (case parse (JObject (case args of None \<Rightarrow> [] | Some m \<Rightarrow> m)) of
        None \<Rightarrow> Some (Inl (Invalid_Params (Parse_Failed nm)), s)
      | Some a \<Rightarrow> k a s)"

definition answer_with :: "(mcp_error \<Rightarrow> rpc_error) \<Rightarrow> string served \<Rightarrow> answered" where
  "answer_with f m s = Some (apfst (map_sum f id) (m s))"

definition answer_walk ::
  "(mcp_error \<Rightarrow> rpc_error) \<Rightarrow> (store \<Rightarrow> ((mcp_error + string) \<times> store) option) \<Rightarrow> answered"
where
  "answer_walk f m s = map_option (apfst (map_sum f id)) (m s)"

text \<open>The graph tools and \<open>memory_wakeup\<close>, each a \<open>dispatch_\<close> function of its own.\<close>

definition dispatch_graph :: "mcp_text \<Rightarrow> mcp_env \<Rightarrow> mcp_config \<Rightarrow> string \<Rightarrow> arguments \<Rightarrow> answered" where
  "dispatch_graph tx en cfg name args =
     (if name = ''memory_graph_add''
      then parse_call_args (parse_graph_add_args (mt_f32 tx)) name args
        (\<lambda>a. answer_with (map_graph_write_error name) (handle_memory_graph_add tx en cfg a))
      else if name = ''memory_graph_query''
      then parse_call_args parse_graph_query_args name args
        (\<lambda>a. answer_with map_graph_read_error (handle_memory_graph_query tx en cfg a))
      else if name = ''memory_graph_invalidate''
      then parse_call_args parse_graph_invalidate_args name args
        (\<lambda>a. answer_with (map_graph_write_error name) (handle_memory_graph_invalidate tx en cfg a))
      else if name = ''memory_graph_supersede''
      then parse_call_args parse_graph_supersede_args name args
        (\<lambda>a. answer_with (map_graph_write_error name) (handle_memory_graph_supersede tx en cfg a))
      else if name = ''memory_graph_timeline''
      then parse_call_args parse_graph_timeline_args name args
        (\<lambda>a. answer_with map_graph_read_error (handle_memory_graph_timeline tx en cfg a))
      else if name = ''memory_graph_stats''
      then parse_call_args parse_graph_stats_args name args
        (\<lambda>a. answer_with map_graph_read_error (handle_memory_graph_stats en cfg a))
      else if name = ''memory_graph_entities''
      then parse_call_args parse_graph_entities_args name args
        (\<lambda>a. answer_with map_graph_read_error (handle_memory_graph_entities tx en cfg a))
      else if name = ''memory_graph_history''
      then parse_call_args (parse_id_arg ''fact_id'') name args
        (\<lambda>a. answer_walk map_graph_read_error (handle_memory_graph_history tx en cfg a))
      else if name = ''memory_wakeup''
      then parse_call_args parse_wakeup_args name args
        (\<lambda>a. answer_with map_wakeup_error (handle_memory_wakeup en cfg a))
      else (\<lambda>s. Some (Inl Method_Not_Found, s)))"

definition call_tool :: "mcp_text \<Rightarrow> mcp_env \<Rightarrow> mcp_config \<Rightarrow> string \<Rightarrow> arguments \<Rightarrow> answered" where
  "call_tool tx en cfg name args =
     (if name = ''memory_retrieve''
      then parse_call_args parse_retrieve_args name args
        (\<lambda>a. answer_with map_retrieve_error (handle_memory_retrieve en cfg a))
      else if name = ''memory_ingest''
      then (if mc_read_only cfg then (\<lambda>s. Some (Inl (Invalid_Params (Tool_Disabled name)), s))
            else parse_call_args parse_ingest_args name args
              (\<lambda>a. answer_with map_ingest_error (handle_memory_ingest tx en cfg a)))
      else if name = ''memory_get''
      then parse_call_args (parse_id_arg ''id'') name args
        (\<lambda>a. answer_with map_get_error (handle_memory_get tx en cfg a))
      else if name = ''memory_list''
      then parse_call_args parse_list_args name args
        (\<lambda>a. answer_with map_list_error (handle_memory_list tx en cfg a))
      else if name = ''memory_scopes'' then answer_with Internal_Error (handle_memory_scopes en cfg)
      else if name = ''memory_revisions''
      then parse_call_args (parse_id_arg ''id'') name args
        (\<lambda>a. answer_walk map_get_error (handle_memory_revisions tx en cfg a))
      else dispatch_graph tx en cfg name args)"

section \<open>Prompts and resources\<close>

definition WAKE_UP :: string where "WAKE_UP = ''wake-up''"

definition prompt_text :: "mcp_env \<Rightarrow> mcp_config \<Rightarrow> string option \<Rightarrow> string served" where
  "prompt_text en cfg project = handle_memory_wakeup en cfg (default_wakeup_args\<lparr>wa_project := project\<rparr>)"

definition get_prompt :: "mcp_env \<Rightarrow> mcp_config \<Rightarrow> string \<Rightarrow> arguments \<Rightarrow> answered" where
  "get_prompt en cfg name args s =
     (if name \<noteq> WAKE_UP then Some (Inl (Invalid_Params (No_Prompt name)), s)
      else (case Option.bind args (\<lambda>m. map_of m ''project'') of
          None \<Rightarrow> answer_with map_wakeup_error (prompt_text en cfg None) s
        | Some (JString p) \<Rightarrow> answer_with map_wakeup_error (prompt_text en cfg (Some p)) s
        | Some _ \<Rightarrow> Some (Inl (Invalid_Params Project_Not_String), s)))"

definition URI_PREFIX :: string where "URI_PREFIX = ''singularmem://memory/''"

datatype resource_error = Resource_Missing string | Resource_Other mcp_error

definition resource_text :: "mcp_text \<Rightarrow> item \<Rightarrow> string" where
  "resource_text tx it =
     line (''id: '' @ show_id (mt_printing tx) (item_id it)) @
     line (''created_at: '' @ show_time (mt_printing tx) (created_at it)) @
     line (''scope: '' @ or_else ''-'' id (scope it)) @ line (''source: '' @ or_else ''-'' id (source it)) @
     line (''tags: '' @ (if tags it = [] then ''-'' else join '', '' (tags it))) @ [nl] @ content it"

definition resource_read_error :: "string \<Rightarrow> mcp_error \<Rightarrow> resource_error" where
  "resource_read_error uri e = (case e of Mcp_Core (NotFound i) \<Rightarrow> Resource_Missing uri | _ \<Rightarrow> Resource_Other e)"

definition read_resource_uri ::
  "mcp_text \<Rightarrow> mcp_env \<Rightarrow> mcp_config \<Rightarrow> string \<Rightarrow> store \<Rightarrow> (resource_error + string) \<times> store"
where
  "read_resource_uri tx en cfg uri s =
     (case Option.bind (strip_prefix URI_PREFIX uri) (\<lambda>raw. case mt_parse_id tx raw of Inl e \<Rightarrow> None | Inr i \<Rightarrow> Some i) of
        None \<Rightarrow> (Inl (Resource_Missing uri), s)
      | Some i \<Rightarrow>
          (case me_open_error en (mc_read_only cfg) of
             Some e \<Rightarrow> (Inl (Resource_Other (Mcp_Core e)), s)
           | None \<Rightarrow> apfst (map_sum (resource_read_error uri) (resource_text tx)) (reading en cfg (get i) s)))"

definition map_resource_error :: "resource_error \<Rightarrow> rpc_error" where
  "map_resource_error e = (case e of
     Resource_Missing uri \<Rightarrow> Resource_Not_Found uri | Resource_Other err \<Rightarrow> Internal_Error err)"

definition read_resource :: "mcp_text \<Rightarrow> mcp_env \<Rightarrow> mcp_config \<Rightarrow> string \<Rightarrow> answered" where
  "read_resource tx en cfg uri s = Some (apfst (map_sum map_resource_error id) (read_resource_uri tx en cfg uri s))"

section \<open>A session\<close>

datatype request =
    Call_Tool string arguments
  | Get_Prompt string arguments
  | Read_Resource string

fun serve :: "mcp_text \<Rightarrow> mcp_config \<Rightarrow> mcp_env \<Rightarrow> request \<Rightarrow> answered" where
  "serve tx cfg en (Call_Tool name args) = call_tool tx en cfg name args"
| "serve tx cfg en (Get_Prompt name args) = get_prompt en cfg name args"
| "serve tx cfg en (Read_Resource uri) = read_resource tx en cfg uri"

text \<open>Requests are served one after the other, each on a store opened for it.\<close>

fun session :: "mcp_text \<Rightarrow> mcp_config \<Rightarrow> (mcp_env \<times> request) list \<Rightarrow> store \<Rightarrow> ((rpc_error + string) list \<times> store) option" where
  "session tx cfg [] s = Some ([], s)"
| "session tx cfg ((en, rq) # rqs) s =
     Option.bind (serve tx cfg en rq s) (\<lambda>(r, s'). map_option (apfst ((#) r)) (session tx cfg rqs s'))"

end
