(* ===== verification/Mcp_Safety.thy ===== *)
theory Mcp_Safety
  imports Mcp_Server
begin

text \<open>
  What a session of the MCP server can do to the store. A reading handler only opens a handle and
  consumes its faults; a writing one runs one write of the core on a handle that is not read-only. So
  every session is a run of the step relation of \<open>Store_History\<close>, and its invariants carry over.
\<close>

section \<open>Operations that only read\<close>

definition reads :: "'a op \<Rightarrow> bool" where
  "reads m \<longleftrightarrow> keeps (\<lambda>s. s\<lparr>faults := []\<rparr>) m"

lemma reads_faults:
  assumes "reads m" "m s = (r, s')" shows "s' = s\<lparr>faults := faults s'\<rparr>"
proof -
  have "s'\<lparr>faults := []\<rparr> = s\<lparr>faults := []\<rparr>"
    using assms keepsD[of "\<lambda>s. s\<lparr>faults := []\<rparr>" m s r s'] by (simp add: reads_def)
  from arg_cong[OF this, of "\<lambda>t. t\<lparr>faults := faults s'\<rparr>"] show ?thesis by simp
qed

lemma reads_get: "reads (get i)"
  unfolding reads_def by (intro keeps_intros) simp

lemma reads_select_facts: "reads (select_facts c q)"
  unfolding reads_def select_facts_def by (intro keeps_intros) simp

lemma reads_list_items: "reads (list_items a)"
  unfolding reads_def list_items_def list_by_tags_scoped_def Let_def by (intro keeps_intros) simp_all

lemma reads_scopes: "reads scopes"
  unfolding reads_def scopes_def by (intro keeps_intros) simp

lemma reads_build: "reads (build fs opts)"
  unfolding reads_def build_def count_scoped_any_def recent_def Let_def by (intro keeps_intros) simp_all

lemma reads_entity_ids: "reads (entity_ids_by_name nm)"
  unfolding reads_def entity_ids_by_name_def by (intro keeps_intros) simp

lemmas reads_keeps [keeps_intros] = reads_select_facts[unfolded reads_def] reads_entity_ids[unfolded reads_def]

lemma reads_graph:
  "reads (query_entity nm q)" "reads (query_predicate nm q)" "reads (timeline nm2 sc)" "reads (graph_stats sc)"
  "reads (list_entities sc k)"
  unfolding reads_def query_entity_def query_predicate_def timeline_def graph_stats_def list_entities_def Let_def
  by (intro keeps_intros; (simp add: split_beta)?)+

section \<open>The walks\<close>

definition same_but_faults :: "store \<Rightarrow> store \<Rightarrow> bool" where
  "same_but_faults s s' \<longleftrightarrow> s'\<lparr>faults := []\<rparr> = s\<lparr>faults := []\<rparr>"

lemma same_but_faults_refl [simp]: "same_but_faults s s"
  by (simp add: same_but_faults_def)

lemma same_but_faults_trans: "same_but_faults s t \<Longrightarrow> same_but_faults t u \<Longrightarrow> same_but_faults s u"
  by (simp add: same_but_faults_def)

lemma reads_same: "reads m \<Longrightarrow> m s = (r, s') \<Longrightarrow> same_but_faults s s'"
  using keepsD[of "\<lambda>s. s\<lparr>faults := []\<rparr>" m s r s'] by (simp add: reads_def same_but_faults_def)

lemma reads_get_fact: "reads (get_fact i)"
  unfolding reads_def get_fact_def load_fact_def by (intro keeps_intros)

lemma reads_successors_of: "reads (successors_of i)"
  unfolding reads_def successors_of_def by (intro keeps_intros) simp

lemma history_loop_same: "history_loop cursor history s = Some p \<Longrightarrow> same_but_faults s (snd p)"
proof (induction cursor history s p rule: history_loop.raw_induct[rotated, consumes 1, case_names step])
  case (step loop cursor history s p)
  show ?case
  proof (cases "supersedes cursor")
    case None then show ?thesis using step(2) by auto
  next
    case (Some i)
    obtain q t where g: "get i s = (q, t)" by fastforce
    note st = reads_same[OF reads_get g]
    show ?thesis
    proof (cases q)
      case (Inl e) then show ?thesis using step(2) Some g st by auto
    next
      case (Inr it)
      then have "loop it (history @ [it]) t = Some p" using step(2) Some g by simp
      from same_but_faults_trans[OF st step(1)[OF this]] show ?thesis .
    qed
  qed
qed

lemma older_loop_same: "older_loop cursor seen older s = Some p \<Longrightarrow> same_but_faults s (snd p)"
proof (induction cursor seen older s p rule: older_loop.raw_induct[rotated, consumes 1, case_names step])
  case (step loop cursor seen older s p)
  show ?case
  proof (cases "cursor = None \<or> the cursor \<in> set seen")
    case True then show ?thesis using step(2) by (auto split: option.splits if_splits)
  next
    case False
    then obtain i where c: "cursor = Some i" "i \<notin> set seen" by auto
    obtain q t where g: "get_fact i s = (q, t)" by fastforce
    note st = reads_same[OF reads_get_fact g]
    show ?thesis
    proof (cases q)
      case (Inl e) then show ?thesis using step(2) c g st by auto
    next
      case (Inr f)
      then have "loop (fa_supersedes f) (seen @ [fa_id f]) (older @ [f]) t = Some p" using step(2) c g by simp
      from same_but_faults_trans[OF st step(1)[OF this]] show ?thesis .
    qed
  qed
qed

lemma newer_loop_same: "newer_loop chain seen s = Some p \<Longrightarrow> same_but_faults s (snd p)"
proof (induction chain seen s p rule: newer_loop.raw_induct[rotated, consumes 1, case_names step])
  case (step loop chain seen s p)
  obtain q t where g: "successors_of (fa_id (last chain)) s = (q, t)" by fastforce
  note st = reads_same[OF reads_successors_of g]
  show ?case
  proof (cases "\<exists>n. q = Inr [n] \<and> n \<notin> set seen")
    case False
    then show ?thesis using step(2) g st by (auto split: sum.splits list.splits if_splits)
  next
    case True
    then obtain n where n: "q = Inr [n]" "n \<notin> set seen" by blast
    obtain q2 u where g2: "get_fact n t = (q2, u)" by fastforce
    note st2 = same_but_faults_trans[OF st reads_same[OF reads_get_fact g2]]
    show ?thesis
    proof (cases q2)
      case (Inl e) then show ?thesis using step(2) g g2 n st2 by auto
    next
      case (Inr f)
      then have "loop (chain @ [f]) (seen @ [n]) u = Some p" using step(2) g g2 n by simp
      from same_but_faults_trans[OF st2 step(1)[OF this]] show ?thesis .
    qed
  qed
qed

lemma revision_history_same: "revision_history i s = Some p \<Longrightarrow> same_but_faults s (snd p)"
proof -
  assume h: "revision_history i s = Some p"
  obtain q t where g: "get i s = (q, t)" by fastforce
  note st = reads_same[OF reads_get g]
  show ?thesis
  proof (cases q)
    case (Inl e) then show ?thesis using h g st by (auto simp: revision_history_def)
  next
    case (Inr it)
    then have "history_loop it [it] t = Some p" using h g by (simp add: revision_history_def)
    from same_but_faults_trans[OF st history_loop_same[OF this]] show ?thesis .
  qed
qed

lemma fact_history_same: "fact_history i s = Some p \<Longrightarrow> same_but_faults s (snd p)"
proof -
  assume h: "fact_history i s = Some p"
  obtain q t where g: "get_fact i s = (q, t)" by fastforce
  note st = reads_same[OF reads_get_fact g]
  show ?thesis
  proof (cases q)
    case (Inl e) then show ?thesis using h g st by (auto simp: fact_history_def)
  next
    case (Inr start)
    then obtain r u where o: "older_loop (fa_supersedes start) [fa_id start] [] t = Some (r, u)"
      using h g by (auto simp: fact_history_def split: option.splits)
    note st2 = same_but_faults_trans[OF st older_loop_same[OF o, unfolded snd_conv]]
    show ?thesis
    proof (cases r)
      case (Inl e) then show ?thesis using h g o \<open>q = Inr start\<close> st2 by (auto simp: fact_history_def)
    next
      case (Inr so)
      then have "newer_loop (rev (snd so) @ [start]) (fst so) u = Some p"
        using h g o \<open>q = Inr start\<close> by (simp add: fact_history_def split_beta)
      from same_but_faults_trans[OF st2 newer_loop_same[OF this]] show ?thesis .
    qed
  qed
qed

section \<open>What a request does\<close>

text \<open>The store after a handle may have been opened and read from.\<close>

definition opened :: "store \<Rightarrow> store \<Rightarrow> bool" where
  "opened s t \<longleftrightarrow> t = s \<or> (\<exists>c r h ro bs. t = other_handle c r h ro bs s)"

lemma opened_refl [simp]: "opened s s"
  by (simp add: opened_def)

lemma opened_later: "opened s t \<Longrightarrow> later s t"
  using later.same later.after[OF later.same step.switched] by (auto simp: opened_def)

lemma opened_keeps [simp]: "opened s t \<Longrightarrow> db t = db s" "opened s t \<Longrightarrow> ext t = ext s"
  by (auto simp: opened_def other_handle_def)

lemma opened_same: "same_but_faults (other_handle c r h ro bs s) t \<Longrightarrow> opened s t"
proof -
  assume "same_but_faults (other_handle c r h ro bs s) t"
  then have "t\<lparr>faults := []\<rparr> = (other_handle c r h ro bs s)\<lparr>faults := []\<rparr>" by (simp add: same_but_faults_def)
  from arg_cong[OF this, of "\<lambda>u. u\<lparr>faults := faults t\<rparr>"]
  have "t = other_handle c r h ro (faults t) s" by (simp add: other_handle_def)
  then show ?thesis unfolding opened_def by blast
qed

text \<open>
  \<open>effect wr s p\<close>: the answer \<open>p\<close> to a request on \<open>s\<close> left a handle at most, or, if \<open>wr\<close>, the state of
  one write after it; and an error came with unchanged tables.
\<close>

definition effect :: "bool \<Rightarrow> store \<Rightarrow> ('e + 'a) \<times> store \<Rightarrow> bool" where
  "effect wr s p \<longleftrightarrow>
     (\<exists>t. opened s t \<and> (snd p = t \<or> wr \<and> (\<exists>w. snd p = run_write w t))) \<and>
     (\<forall>e. fst p = Inl e \<longrightarrow> db (snd p) = db s)"

named_theorems effect_intros "requests and their effects"

lemma effect_none [effect_intros]: "effect wr s (r, s)"
  unfolding effect_def by (intro conjI exI[of _ s]) simp_all

lemma effect_quiet: "opened s (snd p) \<Longrightarrow> effect wr s p"
  by (auto simp: effect_def)

lemma effect_map [effect_intros]: "effect wr s p \<Longrightarrow> effect wr s (apfst (map_sum f g) p)"
  by (cases p; cases "fst p") (auto simp: effect_def)

lemma effect_needs [effect_intros]: "(\<And>x. effect wr s (k x s)) \<Longrightarrow> effect wr s (needs r k s)"
  by (cases r) (auto simp: needs_def intro: effect_none)

lemma effect_served_map [effect_intros]: "effect wr s (m s) \<Longrightarrow> effect wr s (served_map f m s)"
  unfolding served_map_def by (rule effect_map)

lemma effect_if [effect_intros]: "(b \<Longrightarrow> effect wr s p) \<Longrightarrow> (\<not> b \<Longrightarrow> effect wr s q) \<Longrightarrow> effect wr s (if b then p else q)"
  by simp

lemma effect_reading [effect_intros]:
  assumes "reads m" shows "effect wr s (reading en cfg m s)"
proof -
  have "opened s (snd (m (other_handle c r h ro bs s)))" for c r h ro bs
    using opened_same[of c r h ro bs s] reads_same[OF assms, of "other_handle c r h ro bs s"]
    by (metis prod.collapse)
  then show ?thesis
    by (auto simp: reading_def on_store_def split: option.split intro!: effect_quiet)
qed

lemma effect_writing:
  assumes "atomic m" "\<And>t. snd (m t) = run_write w t"
  shows "effect True s (on_store en ro h m s)"
proof (cases "me_open_error en ro")
  case (Some e) then show ?thesis by (simp add: on_store_def effect_none)
next
  case None
  let ?t = "other_handle (me_clock en) (me_rng en) h ro (me_faults en) s"
  have o: "opened s ?t" unfolding opened_def by blast
  obtain r s' where m: "m ?t = (r, s')" by fastforce
  have "db s' = db s" if "r = Inl e" for e
    using assms(1) m that opened_keeps(1)[OF o] by (auto simp: atomic_def)
  moreover have "s' = run_write w ?t" using assms(2)[of ?t] m by simp
  ultimately have "effect True s (m ?t)" unfolding effect_def m using o by auto
  then show ?thesis using None by (simp add: on_store_def effect_map)
qed

lemma effect_writes [effect_intros]:
  "effect True s (on_store en ro h (ingest it) s)" "effect True s (writing en (add_fact f) s)"
  "effect True s (writing en (invalidate_fact tr a) s)" "effect True s (writing en (supersede_fact tr ob a) s)"
  using effect_writing[OF atomic_ingest, of it "Ingest it"]
    effect_writing[OF atomic_add_fact, of f "Graph_Write (Add f)"]
    effect_writing[OF atomic_invalidate_fact, of tr a "Graph_Write (Invalidate tr a)"]
    effect_writing[OF atomic_supersede_fact, of tr ob a "Graph_Write (Supersede tr ob a)"]
  by (simp_all add: writing_def)

text \<open>The same for a request, whose answer may be missing.\<close>

definition effects :: "bool \<Rightarrow> store \<Rightarrow> answered \<Rightarrow> bool" where
  "effects wr s a \<longleftrightarrow> (\<forall>p. a s = Some p \<longrightarrow> effect wr s p)"

lemma effects_some [effect_intros]: "effects wr s (\<lambda>s. Some (r, s))"
  by (auto simp: effects_def intro: effect_none)

lemma effects_parsed [effect_intros]:
  "(\<And>x. effects wr s (k x)) \<Longrightarrow> effects wr s (parse_call_args parse nm args k)"
  by (auto simp: effects_def parse_call_args_def effect_none split: option.splits)

lemma effects_answer [effect_intros]: "effect wr s (m s) \<Longrightarrow> effects wr s (answer_with f m)"
  by (auto simp: effects_def answer_with_def intro: effect_map)

lemma effects_if [effect_intros]:
  "(b \<Longrightarrow> effects wr s a) \<Longrightarrow> (\<not> b \<Longrightarrow> effects wr s a') \<Longrightarrow> effects wr s (if b then a else a')"
  by simp

lemma walking_effect:
  assumes "\<And>t p. m t = Some p \<Longrightarrow> same_but_faults t (snd p)" "walking m en cfg s = Some p"
  shows "effect wr s p"
proof (cases "me_open_error en (mc_read_only cfg)")
  case (Some e) then show ?thesis using assms(2) by (auto simp: walking_def effect_none)
next
  case None
  then obtain q where q: "m (other_handle (me_clock en) (me_rng en) None (mc_read_only cfg) (me_faults en) s) = Some q"
    "p = apfst (map_sum Mcp_Core id) q"
    using assms(2) by (auto simp: walking_def)
  have "effect wr s q" by (rule effect_quiet[OF opened_same[OF assms(1)[OF q(1)]]])
  then show ?thesis unfolding q(2) by (rule effect_map)
qed

lemma walking_answer:
  assumes "\<And>t p. m t = Some p \<Longrightarrow> same_but_faults t (snd p)"
    "map_option (apfst (map_sum f id)) (map_option (apfst (map_sum id g)) (walking m en cfg s)) = Some p"
  shows "effect wr s p"
proof -
  obtain q where q: "walking m en cfg s = Some q" "p = apfst (map_sum f id) (apfst (map_sum id g) q)"
    using assms(2) by auto
  show ?thesis unfolding q(2) by (intro effect_map walking_effect[OF assms(1) q(1)])
qed

lemma effects_walks [effect_intros]:
  "effects wr s (answer_walk f (handle_memory_revisions tx en cfg raw))"
  "effects wr s (answer_walk f (handle_memory_graph_history tx en cfg raw))"
proof -
  show "effects wr s (answer_walk f (handle_memory_revisions tx en cfg raw))"
    by (cases "item_id_of tx raw")
      (auto simp only: effects_def answer_walk_def handle_memory_revisions_def sum.case option.map
        option.inject apfst_conv intro!: effect_none walking_answer[OF revision_history_same])
  show "effects wr s (answer_walk f (handle_memory_graph_history tx en cfg raw))"
    by (cases "mt_parse_id tx raw")
      (auto simp only: effects_def answer_walk_def handle_memory_graph_history_def sum.case option.map
        option.inject apfst_conv intro!: effect_none walking_answer[OF fact_history_same])
qed

lemma reads_retrieve: "retrieve sr q opts s = (r, s') \<Longrightarrow> same_but_faults s s'"
proof -
  have "reads (mapM block_of_hit hs)" for hs
    unfolding reads_def block_of_hit_def by (intro keeps_intros) simp
  then show "retrieve sr q opts s = (r, s') \<Longrightarrow> same_but_faults s s'"
    by (auto simp: retrieve_def Let_def split: if_splits sum.splits prod.splits dest: reads_same)
qed

lemma effect_retrieve [effect_intros]: "effect wr s (handle_memory_retrieve en cfg a s)"
proof -
  have "opened s (snd (retrieve sr q opts (other_handle c r h ro bs s)))" for sr q opts c r h ro bs
    by (rule opened_same[OF reads_retrieve, OF surjective_pairing])
  moreover have "opened s (other_handle c r h ro bs s)" for c r h ro bs unfolding opened_def by blast
  ultimately show ?thesis
    unfolding handle_memory_retrieve_def
    by (intro effect_needs) (auto simp: needs_def split: option.split sum.split intro!: effect_none effect_map effect_quiet)
qed

lemma effect_wakeup [effect_intros]: "effect wr s (handle_memory_wakeup en cfg a s)"
  unfolding handle_memory_wakeup_def by (intro effect_intros reads_build)

lemma effect_item_reads [effect_intros]:
  "effect wr s (handle_memory_get tx en cfg raw s)" "effect wr s (handle_memory_list tx en cfg la s)"
  "effect wr s (handle_memory_scopes en cfg s)"
  unfolding handle_memory_get_def handle_memory_list_def handle_memory_scopes_def
  by (intro effect_intros reads_get reads_list_items reads_scopes)+

lemma effect_graph_reads [effect_intros]:
  "effect wr s (handle_memory_graph_query tx en cfg qa s)" "effect wr s (handle_memory_graph_timeline tx en cfg ta s)"
  "effect wr s (handle_memory_graph_stats en cfg sa s)" "effect wr s (handle_memory_graph_entities tx en cfg ea s)"
  unfolding handle_memory_graph_query_def handle_memory_graph_timeline_def handle_memory_graph_stats_def
    handle_memory_graph_entities_def Let_def
  by ((intro effect_intros reads_graph; (cases "gq_entity qa"; simp add: reads_graph))+)

lemma effect_handlers_write [effect_intros]:
  "effect (\<not> mc_read_only cfg) s (handle_memory_ingest tx en cfg ia s)"
  "effect (\<not> mc_read_only cfg) s (handle_memory_graph_add tx en cfg aa s)"
  "effect (\<not> mc_read_only cfg) s (handle_memory_graph_invalidate tx en cfg va s)"
  "effect (\<not> mc_read_only cfg) s (handle_memory_graph_supersede tx en cfg ua s)"
  unfolding handle_memory_ingest_def handle_memory_graph_add_def handle_memory_graph_invalidate_def
    handle_memory_graph_supersede_def
  by (cases "mc_read_only cfg"; simp; intro effect_intros)+

definition WRITE_TOOLS :: "string list" where
  "WRITE_TOOLS = [''memory_ingest'', ''memory_graph_add'', ''memory_graph_invalidate'', ''memory_graph_supersede'']"

definition may_write :: "mcp_config \<Rightarrow> request \<Rightarrow> bool" where
  "may_write cfg rq \<longleftrightarrow> \<not> mc_read_only cfg \<and>
     (case rq of Call_Tool name args \<Rightarrow> name \<in> set WRITE_TOOLS | _ \<Rightarrow> False)"

lemma effect_ingest: "\<not> mc_read_only cfg \<Longrightarrow> effect True s (handle_memory_ingest tx en cfg ia s)"
  using effect_handlers_write(1)[of cfg s tx en ia] by simp

lemma effects_dispatch: "effects (may_write cfg (Call_Tool name args)) s (dispatch_graph tx en cfg name args)"
  unfolding dispatch_graph_def
  by (intro effect_intros) (auto simp: may_write_def WRITE_TOOLS_def intro: effect_handlers_write)

lemma effects_call_tool: "effects (may_write cfg (Call_Tool name args)) s (call_tool tx en cfg name args)"
  unfolding call_tool_def
  by (intro effect_intros effects_dispatch) (auto simp: may_write_def WRITE_TOOLS_def intro: effect_ingest)

lemma serve_effect: "serve tx cfg en rq s = Some p \<Longrightarrow> effect (may_write cfg rq) s p"
proof (cases rq)
  case (Call_Tool name args)
  then show "serve tx cfg en rq s = Some p \<Longrightarrow> ?thesis" using effects_call_tool[of cfg name args s tx en] by (simp add: effects_def)
next
  case (Get_Prompt name args)
  then show "serve tx cfg en rq s = Some p \<Longrightarrow> ?thesis"
    by (auto simp: get_prompt_def prompt_text_def answer_with_def split: if_splits option.splits json.splits
        intro!: effect_none effect_map effect_wakeup)
next
  case (Read_Resource uri)
  then show "serve tx cfg en rq s = Some p \<Longrightarrow> ?thesis"
    by (auto simp: read_resource_def read_resource_uri_def split: option.splits
        intro!: effect_none effect_map effect_reading reads_get)
qed

end
