(* ===== verification/Mcp_Session.thy ===== *)
theory Mcp_Session
  imports Mcp_Safety
begin

text \<open>
  Sessions of the MCP server: every request is answered, only the tools announced as writers change
  the tables, an error leaves them as they were, what conforms to an advertised schema is accepted,
  and a memory that was ingested is read back by every later session.
\<close>

section \<open>Every request is answered\<close>

definition answers :: "store \<Rightarrow> answered \<Rightarrow> bool" where
  "answers s a \<longleftrightarrow> (\<exists>p. a s = Some p)"

named_theorems answers_intros "requests that are answered"

lemma answers_some [answers_intros]: "answers s (\<lambda>s. Some (f s))"
  by (simp add: answers_def)

lemma answers_with [answers_intros]: "answers s (answer_with f m)"
  by (simp add: answers_def answer_with_def)

lemma answers_parsed [answers_intros]: "(\<And>x. answers s (k x)) \<Longrightarrow> answers s (parse_call_args parse nm args k)"
  by (auto simp: answers_def parse_call_args_def split: option.split)

lemma answers_if [answers_intros]: "answers s a \<Longrightarrow> answers s a' \<Longrightarrow> answers s (if b then a else a')"
  by simp

lemma walking_answers:
  assumes "\<And>c r h ro bs. \<exists>q. m (other_handle c r h ro bs s) = Some q"
  shows "\<exists>p. walking m en cfg s = Some p"
  using assms[of "me_clock en" "me_rng en" None "mc_read_only cfg" "me_faults en"]
  by (auto simp: walking_def split: option.split)

lemma other_handle_db [simp]: "db (other_handle c r h ro bs s) = db s"
  by (simp add: other_handle_def)

lemma answers_revisions [answers_intros]:
  assumes "wf_items (db s)" shows "answers s (answer_walk f (handle_memory_revisions tx en cfg raw))"
proof (cases "item_id_of tx raw")
  case (Inr i)
  have "\<exists>q. revision_history i (other_handle c r h ro bs s) = Some q" for c r h ro bs
    using revision_history_returns[of "other_handle c r h ro bs s" i] assms by auto
  from walking_answers[of "revision_history i", OF this, of en cfg] Inr show ?thesis
    by (auto simp: answers_def answer_walk_def handle_memory_revisions_def)
qed (simp add: answers_def answer_walk_def handle_memory_revisions_def)

lemma answers_history [answers_intros]: "answers s (answer_walk f (handle_memory_graph_history tx en cfg raw))"
proof (cases "mt_parse_id tx raw")
  case (Inr i)
  have "\<exists>q. fact_history i (other_handle c r h ro bs s) = Some q" for c r h ro bs
    using fact_history_total[of i "other_handle c r h ro bs s"] by auto
  from walking_answers[of "fact_history i", OF this, of en cfg] Inr show ?thesis
    by (auto simp: answers_def answer_walk_def handle_memory_graph_history_def)
qed (simp add: answers_def answer_walk_def handle_memory_graph_history_def)

lemma serve_answers: "wf_items (db s) \<Longrightarrow> answers s (serve tx cfg en rq)"
proof (cases rq)
  case (Call_Tool name args)
  then show "wf_items (db s) \<Longrightarrow> ?thesis"
    unfolding Call_Tool serve.simps call_tool_def dispatch_graph_def by (intro answers_intros)
qed (auto simp: answers_def get_prompt_def read_resource_def answer_with_def split: option.split json.split)

lemma effect_later: "effect wr s p \<Longrightarrow> later s (snd p)"
  by (auto simp: effect_def intro: opened_later later.after[OF opened_later step.written])

lemma later_reachable: "later s t \<Longrightarrow> reachable x s \<Longrightarrow> reachable x t"
  by (induction rule: later.induct) (auto intro: reachable.stepped)

lemma later_join: "later t u \<Longrightarrow> later s t \<Longrightarrow> later s u"
  by (induction rule: later.induct) (auto intro: later.after)

lemma session_Cons:
  assumes "session tx cfg ((en, rq) # rqs) s = Some (rs, s')"
  obtains r t rs' where "serve tx cfg en rq s = Some (r, t)" "session tx cfg rqs t = Some (rs', s')" "rs = r # rs'"
  using assms by (auto simp: bind_eq_Some_conv)

lemma session_answers:
  "reachable x s \<Longrightarrow>
     \<exists>rs s'. session tx cfg rqs s = Some (rs, s') \<and> length rs = length rqs \<and> later s s' \<and> reachable x s'"
proof (induction rqs arbitrary: s)
  case Nil then show ?case by (auto intro: later.same)
next
  case (Cons q rqs)
  obtain en rq where q: "q = (en, rq)" by fastforce
  have "wf_items (db s)" using reachable_inv[OF Cons.prems] by (simp add: store_inv_def)
  from serve_answers[OF this, of tx cfg en rq] obtain r t where rt: "serve tx cfg en rq s = Some (r, t)"
    by (auto simp: answers_def)
  have st: "later s t" using effect_later[OF serve_effect[OF rt]] by simp
  from Cons.IH[OF later_reachable[OF st Cons.prems]] obtain rs s' where
    "session tx cfg rqs t = Some (rs, s')" "length rs = length rqs" "later t s'" "reachable x s'" by blast
  then show ?case using rt q later_join[OF _ st] by auto
qed

text \<open>
  C9: a session is answered to its end. On every store the writes can produce, whatever the system
  answers to each request, each request is answered once, in order, and the session leaves a store
  that is again one the writes can produce, later than the first.
\<close>

theorem sessions_answered:
  assumes "reachable x s"
  shows "\<exists>rs s'. session tx cfg rqs s = Some (rs, s') \<and> length rs = length rqs \<and> later s s' \<and> reachable x s'"
  by (rule session_answers[OF assms])

section \<open>Requests that change nothing\<close>

text \<open>A request that calls none of the tools announced as writers.\<close>

definition harmless :: "mcp_config \<Rightarrow> request \<Rightarrow> bool" where
  "harmless cfg rq = (case rq of
     Call_Tool name args \<Rightarrow> list_all (\<lambda>t. to_name t = name \<longrightarrow> to_read_only t \<noteq> Some False) (list_tools cfg)
   | _ \<Rightarrow> True)"

lemmas tool_defs = retrieve_tool_def get_tool_def list_tool_def revisions_tool_def scopes_tool_def wakeup_tool_def
  ingest_tool_def graph_add_tool_def graph_query_tool_def graph_invalidate_tool_def graph_supersede_tool_def
  graph_timeline_tool_def graph_stats_tool_def graph_entities_tool_def graph_history_tool_def

lemma harmless_quiet: "harmless cfg rq \<Longrightarrow> \<not> may_write cfg rq"
  by (auto simp: harmless_def may_write_def WRITE_TOOLS_def list_tools_def tool_defs split: request.splits)

lemma effect_quiet_db: "effect False s p \<Longrightarrow> db (snd p) = db s"
  by (auto simp: effect_def)

lemma session_quiet:
  "session tx cfg rqs s = Some (rs, s') \<Longrightarrow> list_all (\<lambda>(en, rq). harmless cfg rq) rqs \<Longrightarrow> db s' = db s"
proof (induction rqs arbitrary: s rs)
  case (Cons q rqs)
  obtain en rq where q: "q = (en, rq)" by fastforce
  from Cons.prems(1)[unfolded q] obtain r t rs' where
    1: "serve tx cfg en rq s = Some (r, t)" "session tx cfg rqs t = Some (rs', s')" by (rule session_Cons)
  have "effect False s (r, t)" using serve_effect[OF 1(1)] harmless_quiet Cons.prems(2) q by simp
  from effect_quiet_db[OF this] Cons.IH[OF 1(2)] Cons.prems(2) show ?case by simp
qed simp

text \<open>
  C10: only the tools announced as writers write. A session that calls none of the tools listed with
  \<open>read_only = false\<close> leaves every table as it was; a read-only server lists no such tool, so this
  holds for all of its sessions, whatever they ask for.
\<close>

theorem only_writers_write:
  assumes "session tx cfg rqs s = Some (rs, s')" "mc_read_only cfg \<or> list_all (\<lambda>(en, rq). harmless cfg rq) rqs"
  shows "db s' = db s"
proof -
  have "harmless cfg rq" if "mc_read_only cfg" for rq
    using that by (auto simp: harmless_def list_tools_def tool_defs split: request.split)
  then have "list_all (\<lambda>(en, rq). harmless cfg rq) rqs" using assms(2) by (auto simp: list_all_iff)
  from session_quiet[OF assms(1) this] show ?thesis .
qed

text \<open>
  C11: a request that is answered with an error, wherever the error arose, left every table as it was.
\<close>

theorem failed_request_changes_nothing:
  assumes "serve tx cfg en rq s = Some (Inl e, s')"
  shows "db s' = db s"
  using serve_effect[OF assms] by (simp add: effect_def)

section \<open>Arguments and schemas\<close>

text \<open>The errors by which a server turns a call away before, or because of, its arguments.\<close>

definition turned_away :: "string \<Rightarrow> rpc_error set" where
  "turned_away name = {Method_Not_Found, Invalid_Params (Tool_Disabled name), Invalid_Params (Parse_Failed name)}"

definition answered_without :: "rpc_error set \<Rightarrow> store \<Rightarrow> answered \<Rightarrow> bool" where
  "answered_without E s a \<longleftrightarrow> (\<forall>e s'. a s = Some (Inl e, s') \<longrightarrow> e \<notin> E)"

lemma not_turned_away [simp]:
  "map_graph_read_error e \<notin> turned_away nm" "map_wakeup_error e \<notin> turned_away nm"
  "map_retrieve_error e \<notin> turned_away nm" "map_get_error e \<notin> turned_away nm" "map_list_error e \<notin> turned_away nm"
  "Internal_Error e \<notin> turned_away nm"
  "e \<noteq> Mcp_Read_Only \<Longrightarrow> map_graph_write_error nm2 e \<notin> turned_away nm"
  "e \<noteq> Mcp_Read_Only \<Longrightarrow> map_ingest_error e \<notin> turned_away nm"
  by (auto simp: turned_away_def map_graph_read_error_def map_wakeup_error_def map_retrieve_error_def
      map_get_error_def map_list_error_def map_graph_write_error_def map_ingest_error_def
      split: mcp_error.splits error.splits retrieve_error.splits search_error.splits)

lemma answered_parsed:
  "parse (JObject m) = Some x \<Longrightarrow> answered_without E s (k x) \<Longrightarrow>
     answered_without E s (parse_call_args parse nm (Some m) k)"
  by (simp add: answered_without_def parse_call_args_def)

lemma answered_with:
  "(\<And>e. fst (m s) = Inl e \<Longrightarrow> f e \<notin> E) \<Longrightarrow> answered_without E s (answer_with f m)"
  by (cases "m s"; cases "fst (m s)") (auto simp: answered_without_def answer_with_def)

lemma answered_walk:
  "(\<And>e. f e \<notin> E) \<Longrightarrow> answered_without E s (answer_walk f m)"
proof -
  assume f: "\<And>e. f e \<notin> E"
  have "map_sum f id x = Inl y \<Longrightarrow> y \<notin> E" for x :: "mcp_error + string" and y using f by (cases x) auto
  then show ?thesis by (auto simp: answered_without_def answer_walk_def apfst_def map_prod_def split: prod.splits)
qed

lemma on_store_error: "fst (on_store en ro h m s) \<noteq> Inl Mcp_Read_Only"
  by (cases "fst (m (other_handle (me_clock en) (me_rng en) h ro (me_faults en) s))")
    (auto simp: on_store_def map_prod_def apfst_def split: option.split prod.split)

lemma served_error: "fst (m s) \<noteq> Inl e \<Longrightarrow> fst (served_map f m s) \<noteq> Inl e"
  by (cases "m s"; cases "fst (m s)") (auto simp: served_map_def)

lemma needs_error:
  "r \<noteq> Inl e \<Longrightarrow> (\<And>x. r = Inr x \<Longrightarrow> fst (k x s) \<noteq> Inl e) \<Longrightarrow> fst (needs r k s) \<noteq> Inl e"
  by (cases r) (auto simp: needs_def)

lemma not_read_only_errors [simp]:
  "parse_optional_point x arg raw \<noteq> Inl Mcp_Read_Only" "opt_traverse (item_id_of tx) r \<noteq> Inl Mcp_Read_Only"
  "ingest_hooks en path \<noteq> Inl Mcp_Read_Only"
proof -
  show "parse_optional_point x arg raw \<noteq> Inl Mcp_Read_Only"
    by (cases "opt_traverse (parse_point x) raw") (simp_all add: parse_optional_point_def)
  show "opt_traverse (item_id_of tx) r \<noteq> Inl Mcp_Read_Only"
  proof (cases r)
    case (Some a)
    show ?thesis by (cases "mt_parse_id tx a") (simp_all add: Some item_id_of_def)
  qed simp
  show "ingest_hooks en path \<noteq> Inl Mcp_Read_Only" by (simp add: ingest_hooks_def Let_def split: option.split)
qed

lemma writers_not_read_only:
  assumes "\<not> mc_read_only cfg"
  shows "fst (handle_memory_ingest tx en cfg ia s) \<noteq> Inl Mcp_Read_Only"
    "fst (handle_memory_graph_add tx en cfg aa s) \<noteq> Inl Mcp_Read_Only"
    "fst (handle_memory_graph_invalidate tx en cfg va s) \<noteq> Inl Mcp_Read_Only"
    "fst (handle_memory_graph_supersede tx en cfg ua s) \<noteq> Inl Mcp_Read_Only"
  unfolding handle_memory_ingest_def handle_memory_graph_add_def handle_memory_graph_invalidate_def
    handle_memory_graph_supersede_def writing_def
  using assms by (simp_all only: if_False)
    (intro needs_error served_error on_store_error not_read_only_errors; simp)+

lemma write_error_not_away:
  "\<not> mc_read_only cfg \<Longrightarrow> fst (handle_memory_ingest tx en cfg ia s) = Inl e \<Longrightarrow> map_ingest_error e \<notin> turned_away nm"
  "\<not> mc_read_only cfg \<Longrightarrow> fst (handle_memory_graph_add tx en cfg aa s) = Inl e \<Longrightarrow> map_graph_write_error nm2 e \<notin> turned_away nm"
  "\<not> mc_read_only cfg \<Longrightarrow> fst (handle_memory_graph_invalidate tx en cfg va s) = Inl e \<Longrightarrow> map_graph_write_error nm2 e \<notin> turned_away nm"
  "\<not> mc_read_only cfg \<Longrightarrow> fst (handle_memory_graph_supersede tx en cfg ua s) = Inl e \<Longrightarrow> map_graph_write_error nm2 e \<notin> turned_away nm"
  using writers_not_read_only[of cfg] by (metis not_turned_away(7,8))+

lemma parsed_call:
  "\<exists>x. parse (JObject m) = Some x \<Longrightarrow> (\<And>x. answered_without E s (k x)) \<Longrightarrow>
     answered_without E s (parse_call_args parse nm (Some m) k)"
  using answered_parsed by metis

lemma tool_names [simp]:
  "to_name retrieve_tool = ''memory_retrieve''" "to_name get_tool = ''memory_get''" "to_name list_tool = ''memory_list''"
  "to_name revisions_tool = ''memory_revisions''" "to_name scopes_tool = ''memory_scopes''"
  "to_name wakeup_tool = ''memory_wakeup''" "to_name ingest_tool = ''memory_ingest''"
  "to_name graph_add_tool = ''memory_graph_add''" "to_name graph_query_tool = ''memory_graph_query''"
  "to_name graph_invalidate_tool = ''memory_graph_invalidate''" "to_name graph_supersede_tool = ''memory_graph_supersede''"
  "to_name graph_timeline_tool = ''memory_graph_timeline''" "to_name graph_stats_tool = ''memory_graph_stats''"
  "to_name graph_entities_tool = ''memory_graph_entities''" "to_name graph_history_tool = ''memory_graph_history''"
  by (simp_all add: tool_defs)

lemma call_memory_tools:
  "call_tool tx en cfg ''memory_retrieve'' args = parse_call_args parse_retrieve_args ''memory_retrieve'' args
     (\<lambda>a. answer_with map_retrieve_error (handle_memory_retrieve en cfg a))"
  "call_tool tx en cfg ''memory_ingest'' args =
     (if mc_read_only cfg then (\<lambda>s. Some (Inl (Invalid_Params (Tool_Disabled ''memory_ingest'')), s))
      else parse_call_args parse_ingest_args ''memory_ingest'' args
        (\<lambda>a. answer_with map_ingest_error (handle_memory_ingest tx en cfg a)))"
  "call_tool tx en cfg ''memory_get'' args = parse_call_args (parse_id_arg ''id'') ''memory_get'' args
     (\<lambda>a. answer_with map_get_error (handle_memory_get tx en cfg a))"
  "call_tool tx en cfg ''memory_list'' args = parse_call_args parse_list_args ''memory_list'' args
     (\<lambda>a. answer_with map_list_error (handle_memory_list tx en cfg a))"
  "call_tool tx en cfg ''memory_scopes'' args = answer_with Internal_Error (handle_memory_scopes en cfg)"
  "call_tool tx en cfg ''memory_revisions'' args = parse_call_args (parse_id_arg ''id'') ''memory_revisions'' args
     (\<lambda>a. answer_walk map_get_error (handle_memory_revisions tx en cfg a))"
  by (simp_all add: call_tool_def)

lemma dispatched:
  "name \<in> {''memory_graph_add'', ''memory_graph_query'', ''memory_graph_invalidate'', ''memory_graph_supersede'',
     ''memory_graph_timeline'', ''memory_graph_stats'', ''memory_graph_entities'', ''memory_graph_history'',
     ''memory_wakeup''} \<Longrightarrow> call_tool tx en cfg name args = dispatch_graph tx en cfg name args"
  by (auto simp: call_tool_def)

lemma call_graph_tools:
  "dispatch_graph tx en cfg ''memory_graph_add'' args = parse_call_args (parse_graph_add_args (mt_f32 tx)) ''memory_graph_add'' args
     (\<lambda>a. answer_with (map_graph_write_error ''memory_graph_add'') (handle_memory_graph_add tx en cfg a))"
  "dispatch_graph tx en cfg ''memory_graph_query'' args = parse_call_args parse_graph_query_args ''memory_graph_query'' args
     (\<lambda>a. answer_with map_graph_read_error (handle_memory_graph_query tx en cfg a))"
  "dispatch_graph tx en cfg ''memory_graph_invalidate'' args = parse_call_args parse_graph_invalidate_args ''memory_graph_invalidate'' args
     (\<lambda>a. answer_with (map_graph_write_error ''memory_graph_invalidate'') (handle_memory_graph_invalidate tx en cfg a))"
  "dispatch_graph tx en cfg ''memory_graph_supersede'' args = parse_call_args parse_graph_supersede_args ''memory_graph_supersede'' args
     (\<lambda>a. answer_with (map_graph_write_error ''memory_graph_supersede'') (handle_memory_graph_supersede tx en cfg a))"
  "dispatch_graph tx en cfg ''memory_graph_timeline'' args = parse_call_args parse_graph_timeline_args ''memory_graph_timeline'' args
     (\<lambda>a. answer_with map_graph_read_error (handle_memory_graph_timeline tx en cfg a))"
  "dispatch_graph tx en cfg ''memory_graph_stats'' args = parse_call_args parse_graph_stats_args ''memory_graph_stats'' args
     (\<lambda>a. answer_with map_graph_read_error (handle_memory_graph_stats en cfg a))"
  "dispatch_graph tx en cfg ''memory_graph_entities'' args = parse_call_args parse_graph_entities_args ''memory_graph_entities'' args
     (\<lambda>a. answer_with map_graph_read_error (handle_memory_graph_entities tx en cfg a))"
  "dispatch_graph tx en cfg ''memory_graph_history'' args = parse_call_args (parse_id_arg ''fact_id'') ''memory_graph_history'' args
     (\<lambda>a. answer_walk map_graph_read_error (handle_memory_graph_history tx en cfg a))"
  "dispatch_graph tx en cfg ''memory_wakeup'' args = parse_call_args parse_wakeup_args ''memory_wakeup'' args
     (\<lambda>a. answer_with map_wakeup_error (handle_memory_wakeup en cfg a))"
  by (simp_all add: dispatch_graph_def)

abbreviation accepts :: "mcp_text \<Rightarrow> mcp_env \<Rightarrow> mcp_config \<Rightarrow> store \<Rightarrow> (string \<times> json) list \<Rightarrow> tool \<Rightarrow> bool" where
  "accepts tx en cfg s m t \<equiv> conforms (to_schema t) (JObject m) \<longrightarrow> counts_plain (to_schema t) (JObject m) \<longrightarrow>
     answered_without (turned_away (to_name t)) s (call_tool tx en cfg (to_name t) (Some m))"

lemma reading_tools_accept:
  "accepts tx en cfg s m retrieve_tool" "accepts tx en cfg s m get_tool" "accepts tx en cfg s m list_tool"
  "accepts tx en cfg s m revisions_tool" "accepts tx en cfg s m scopes_tool"
  unfolding tool_names call_memory_tools
  by (intro impI parsed_call parse_retrieve_ok parse_id_ok parse_list_ok answered_with answered_walk; simp)+

lemma graph_tools_accept:
  "accepts tx en cfg s m graph_query_tool" "accepts tx en cfg s m graph_timeline_tool"
  "accepts tx en cfg s m graph_stats_tool" "accepts tx en cfg s m graph_entities_tool"
  "accepts tx en cfg s m graph_history_tool" "accepts tx en cfg s m wakeup_tool"
  unfolding tool_names
  by (subst dispatched, simp, unfold call_graph_tools, intro impI parsed_call parse_wakeup_ok parse_id_ok
      parse_graph_reads_ok parse_graph_stats_ok answered_with answered_walk; simp)+

lemma writing_tools_accept:
  assumes "\<not> mc_read_only cfg"
  shows "accepts tx en cfg s m ingest_tool" "accepts tx en cfg s m graph_add_tool"
    "accepts tx en cfg s m graph_invalidate_tool" "accepts tx en cfg s m graph_supersede_tool"
proof -
  show "accepts tx en cfg s m ingest_tool"
    unfolding tool_names call_memory_tools using assms
    by (auto intro!: parsed_call[OF parse_ingest_ok] answered_with dest: write_error_not_away)
  show "accepts tx en cfg s m graph_add_tool" "accepts tx en cfg s m graph_invalidate_tool"
    "accepts tx en cfg s m graph_supersede_tool"
    unfolding tool_names using assms
    by (subst dispatched, simp, unfold call_graph_tools,
      auto intro!: parsed_call[OF parse_graph_writes_ok(1)] parsed_call[OF parse_graph_writes_ok(2)]
        parsed_call[OF parse_graph_writes_ok(3)] answered_with dest: write_error_not_away)+
qed

lemma listed_tools_accept: "t \<in> set (list_tools cfg) \<Longrightarrow> accepts tx en cfg s m t"
  using reading_tools_accept graph_tools_accept writing_tools_accept
  by (cases "mc_read_only cfg") (auto simp only: list_tools_def set_append list.set insert_iff Un_iff empty_iff if_True
    if_False simp_thms)

lemma no_counts:
  "t \<in> {get_tool, revisions_tool, scopes_tool, ingest_tool, graph_add_tool, graph_query_tool, graph_invalidate_tool,
      graph_supersede_tool, graph_timeline_tool, graph_stats_tool, graph_entities_tool, graph_history_tool} \<Longrightarrow>
     list_all (\<lambda>(k, ty). \<not> is_count ty) (ts_properties (to_schema t))"
  unfolding insert_iff empty_iff by (elim disjE; simp add: tool_defs SCOPE_ARGS_def)

lemma counts_turned_away:
  assumes "t \<in> set (list_tools cfg)" "conforms (to_schema t) (JObject m)" "\<not> counts_plain (to_schema t) (JObject m)"
  shows "call_tool tx en cfg (to_name t) (Some m) s = Some (Inl (Invalid_Params (Parse_Failed (to_name t))), s)"
proof -
  have "\<not> list_all (\<lambda>(k, ty). \<not> is_count ty) (ts_properties (to_schema t))"
    using assms(3) by (auto simp: counts_plain_def list_all_iff split: option.splits)
  then have "t = retrieve_tool \<or> t = list_tool \<or> t = wakeup_tool"
    using assms(1) no_counts
    by (auto simp only: list_tools_def set_append list.set insert_iff Un_iff empty_iff split: if_splits)
  then consider "t = retrieve_tool" | "t = list_tool" | "t = wakeup_tool" by blast
  then show ?thesis
  proof cases
    case 1 show ?thesis
      using counts_refused(1) assms(2,3) unfolding 1 tool_names call_memory_tools by (simp add: parse_call_args_def)
  next
    case 2 show ?thesis
      using counts_refused(2) assms(2,3) unfolding 2 tool_names call_memory_tools by (simp add: parse_call_args_def)
  next
    case 3 show ?thesis
      using counts_refused(3) assms(2,3) unfolding 3 tool_names
      by (subst dispatched, simp, unfold call_graph_tools) (simp add: parse_call_args_def)
  qed
qed

text \<open>The adapters a schema admits are the ones \<open>Config::new\<close> knows.\<close>

definition unknown_adapter :: "rpc_error set" where
  "unknown_adapter = range (\<lambda>a. Invalid_Params (Bad_Adapter a))"

definition known_adapter :: "string option \<Rightarrow> bool" where
  "known_adapter nm \<longleftrightarrow> (case nm of None \<Rightarrow> True | Some n \<Rightarrow> n \<in> set ADAPTERS)"

lemma find_adapter_known:
  assumes "mc_known_adapters cfg = mc_known_adapters (config_new pr path d ro)" "mc_default_adapter cfg \<in> set ADAPTERS"
    "known_adapter nm"
  shows "find_adapter cfg nm \<noteq> Inl e"
  using assms by (auto simp: find_adapter_def config_new_def ADAPTERS_def known_adapter_def Let_def split: option.splits)

lemma parsed_adapter:
  assumes "conforms sch v" "(''adapter'', T_Enum ADAPTERS) \<in> set (ts_properties sch)" "opt_field as_str ''adapter'' v = Some r"
  shows "known_adapter r"
proof -
  have "case json_get ''adapter'' v of None \<Rightarrow> True | Some j \<Rightarrow> has_type (T_Enum ADAPTERS) j"
    using assms(1,2) by (auto simp: conforms_def list_all_iff)
  moreover have "has_type (T_Enum ADAPTERS) j \<Longrightarrow> \<exists>n. j = JString n \<and> n \<in> set ADAPTERS" for j by (cases j) auto
  ultimately show ?thesis
    using assms(3) by (fastforce simp: opt_field_def known_adapter_def split: option.splits if_splits)
qed

lemma parsed_adapters:
  "conforms (to_schema retrieve_tool) v \<Longrightarrow> parse_retrieve_args v = Some a \<Longrightarrow> known_adapter (ra_adapter a)"
  "conforms (to_schema wakeup_tool) v \<Longrightarrow> parse_wakeup_args v = Some b \<Longrightarrow> known_adapter (wa_adapter b)"
  by (auto simp: parse_retrieve_args_def parse_wakeup_args_def bind_eq_Some_conv intro!: parsed_adapter)
    (simp_all add: retrieve_tool_def wakeup_tool_def)

lemma not_unknown_adapter [simp]:
  "map_graph_read_error e \<notin> unknown_adapter" "map_get_error e \<notin> unknown_adapter" "map_list_error e \<notin> unknown_adapter"
  "Internal_Error e \<notin> unknown_adapter" "map_graph_write_error nm e \<notin> unknown_adapter" "map_ingest_error e \<notin> unknown_adapter"
  "(\<And>a. e \<noteq> Mcp_Unknown_Adapter a) \<Longrightarrow> map_wakeup_error e \<notin> unknown_adapter"
  "(\<And>a. e \<noteq> Mcp_Unknown_Adapter a) \<Longrightarrow> map_retrieve_error e \<notin> unknown_adapter"
  by (auto simp: unknown_adapter_def map_graph_read_error_def map_wakeup_error_def
      map_retrieve_error_def map_get_error_def map_list_error_def map_graph_write_error_def map_ingest_error_def
      split: mcp_error.splits error.splits retrieve_error.splits search_error.splits)

lemma map_sum_Inl: "map_sum f g r = Inl e \<longleftrightarrow> (\<exists>x. r = Inl x \<and> e = f x)"
  by (cases r) auto

lemma on_store_known: "fst (on_store en ro h m s) \<noteq> Inl (Mcp_Unknown_Adapter a)"
  by (cases "fst (m (other_handle (me_clock en) (me_rng en) h ro (me_faults en) s))")
    (auto simp: on_store_def map_prod_def apfst_def split: option.split prod.split)

lemma wakeup_known:
  assumes "\<And>e. find_adapter cfg (wa_adapter b) \<noteq> Inl e"
  shows "fst (handle_memory_wakeup en cfg b s) \<noteq> Inl (Mcp_Unknown_Adapter a)"
  unfolding handle_memory_wakeup_def reading_def
  by (intro needs_error served_error on_store_known)
    (use assms in \<open>auto simp: map_sum_Inl resolve_project_def rbind_def split: option.splits sum.splits if_splits\<close>)

lemma searcher_known: "open_searcher en path \<noteq> Inl (Mcp_Unknown_Adapter a)"
  by (auto simp: map_sum_Inl open_searcher_def Let_def rbind_def split: option.splits sum.splits if_splits)

lemma retrieve_known:
  assumes "\<And>e. find_adapter cfg (ra_adapter b) \<noteq> Inl e"
  shows "fst (handle_memory_retrieve en cfg b s) \<noteq> Inl (Mcp_Unknown_Adapter a)"
  unfolding handle_memory_retrieve_def
proof (intro needs_error)
  show "map_sum Mcp_Core id (filter_arg (ra_scope b)) \<noteq> Inl (Mcp_Unknown_Adapter a)" by (simp add: map_sum_Inl)
qed (use searcher_known in \<open>auto simp: assms needs_def map_sum_Inl split: option.split sum.split\<close>)

lemma answered_unparsed:
  "(\<And>x. parse (JObject m) = Some x \<Longrightarrow> answered_without unknown_adapter s (k x)) \<Longrightarrow>
     answered_without unknown_adapter s (parse_call_args parse nm (Some m) k)"
  by (auto simp: answered_without_def parse_call_args_def unknown_adapter_def split: option.splits)

lemma adapters_accept:
  assumes "t \<in> set (list_tools cfg)" "conforms (to_schema t) (JObject m)"
    "mc_known_adapters cfg = mc_known_adapters (config_new pr path d ro)" "mc_default_adapter cfg \<in> set ADAPTERS"
  shows "answered_without unknown_adapter s (call_tool tx en cfg (to_name t) (Some m))"
proof -
  note known = find_adapter_known[OF assms(3,4)]
  consider "t = retrieve_tool" | "t = wakeup_tool" | "to_name t \<noteq> ''memory_retrieve'' \<and> to_name t \<noteq> ''memory_wakeup''"
    using assms(1) by (auto simp: list_tools_def split: if_splits)
  then show ?thesis
  proof cases
    case 1
    show ?thesis unfolding 1 tool_names call_memory_tools
      using parsed_adapters(1) assms(2)[unfolded 1] known retrieve_known
      by (intro answered_unparsed answered_with not_unknown_adapter) metis
  next
    case 2
    show ?thesis unfolding 2 tool_names
      using parsed_adapters(2) assms(2)[unfolded 2] known wakeup_known
      by (subst dispatched, simp, unfold call_graph_tools, intro answered_unparsed answered_with not_unknown_adapter) metis
  next
    case 3
    have e: "answered_without unknown_adapter s (\<lambda>s. Some (Inl Method_Not_Found, s))"
      "answered_without unknown_adapter s (\<lambda>s. Some (Inl (Invalid_Params (Tool_Disabled nm)), s))" for nm
      by (simp_all add: answered_without_def unknown_adapter_def image_iff)
    have i: "answered_without E s a \<Longrightarrow> answered_without E s b \<Longrightarrow> answered_without E s (if c then a else b)" for E a b c
      by simp
    show ?thesis
      unfolding call_tool_def dispatch_graph_def using 3
      by (simp only: if_False) (intro i e answered_unparsed answered_with answered_walk not_unknown_adapter)
  qed
qed


text \<open>
  What is not listed is not served. A call of a tool that the server does not list (an unknown one,
  or a writer on a read-only server) is turned away, whatever its arguments, and the store is not
  even opened.
\<close>

theorem unlisted_calls_refused:
  assumes "name \<notin> to_name ` set (list_tools cfg)"
  shows "\<exists>e. call_tool tx en cfg name args s = Some (Inl e, s) \<and> e \<in> turned_away name"
proof (cases "name \<in> set WRITE_TOOLS")
  case True
  then have ro: "mc_read_only cfg" using assms by (auto simp: list_tools_def WRITE_TOOLS_def split: if_splits)
  show ?thesis
    using True ro
    by (auto simp: WRITE_TOOLS_def call_memory_tools dispatched call_graph_tools parse_call_args_def turned_away_def answer_with_def
        handle_memory_graph_add_def handle_memory_graph_invalidate_def handle_memory_graph_supersede_def
        map_graph_write_error_def split: option.split)
next
  case False
  then show ?thesis
    using assms by (simp add: list_tools_def WRITE_TOOLS_def call_tool_def dispatch_graph_def turned_away_def)
qed

section \<open>What is ingested is read back\<close>

lemma ingest_served:
  assumes "serve tx cfg en (Call_Tool ''memory_ingest'' (Some m)) s = Some (Inr out, s')"
  obtains a sid h it where "parse_ingest_args (JObject m) = Some a" "opt_traverse (item_id_of tx) (ia_supersedes a) = Inr sid"
    "ingest (ingest_item a sid) (other_handle (me_clock en) (me_rng en) h False (me_faults en) s) = (Inr it, s')"
    "out = ingest_text tx it"
proof -
  from assms obtain a where a: "parse_ingest_args (JObject m) = Some a"
    and h: "answer_with map_ingest_error (handle_memory_ingest tx en cfg a) s = Some (Inr out, s')"
    and ro: "\<not> mc_read_only cfg"
    by (auto simp: call_memory_tools parse_call_args_def split: if_splits option.splits)
  have unmap: "\<exists>r. apfst (map_sum f g) p = (Inr y, t) \<longrightarrow> p = (Inr r, t) \<and> y = g r"
    for f :: "'e \<Rightarrow> 'f" and g :: "'a \<Rightarrow> 'b" and p :: "('e + 'a) \<times> store" and y t
    by (cases p; cases "fst p") auto
  from h have "handle_memory_ingest tx en cfg a s = (Inr out, s')"
    using unmap[of map_ingest_error id "handle_memory_ingest tx en cfg a s" out s'] by (auto simp: answer_with_def)
  then obtain sid hs where sid: "opt_traverse (item_id_of tx) (ia_supersedes a) = Inr sid"
    and st: "served_map (ingest_text tx) (on_store en False (hook_of hs) (ingest (ingest_item a sid))) s = (Inr out, s')"
    using ro by (auto simp: handle_memory_ingest_def needs_def split: sum.splits)
  from st obtain it where it: "on_store en False (hook_of hs) (ingest (ingest_item a sid)) s = (Inr it, s')" "out = ingest_text tx it"
    using unmap[of id "ingest_text tx" "on_store en False (hook_of hs) (ingest (ingest_item a sid)) s" out s']
    by (auto simp: served_map_def)
  from it(1) have "ingest (ingest_item a sid) (other_handle (me_clock en) (me_rng en) (hook_of hs) False (me_faults en) s) = (Inr it, s')"
    using unmap[of Mcp_Core id "ingest (ingest_item a sid) (other_handle (me_clock en) (me_rng en) (hook_of hs) False (me_faults en) s)" it s']
    by (auto simp: on_store_def split: option.splits)
  from that[OF a sid this it(2)] show thesis .
qed

lemma get_served:
  assumes "me_open_error en (mc_read_only cfg) = None" "me_faults en = []" "mt_parse_id tx raw = Inr i"
    "item_at (ext s) (db s) i = Some it"
  shows "\<exists>s'. serve tx cfg en (Call_Tool ''memory_get'' (Some [(''id'', JString raw)])) s = Some (Inr (item_text tx it), s')"
proof -
  let ?t = "other_handle (me_clock en) (me_rng en) None (mc_read_only cfg) (me_faults en) s"
  have "get i ?t = (Inr it, ?t)"
    using get_no_faults[of ?t i] assms(2,4) by (simp add: other_handle_def)
  then show ?thesis
    using assms(1,3)
    by (simp add: call_memory_tools parse_call_args_def parse_id_arg_def str_field_def json_get_def answer_with_def
        handle_memory_get_def needs_def item_id_of_def served_map_def reading_def on_store_def)
qed

lemma metadata_readable:
  assumes "parse_ingest_args (JObject m) = Some a" "json_nesting (JObject m) < 128"
  shows "serde_readable (n_metadata (ingest_item a sid))"
proof -
  obtain md where md: "opt_field Some ''metadata'' (JObject m) = Some md" "ia_metadata a = md"
    using assms(1) by (auto simp: parse_ingest_args_def bind_eq_Some_conv)
  show ?thesis
  proof (cases md)
    case (Some v)
    then have "json_get ''metadata'' (JObject m) = Some v"
      using md(1) by (auto simp: opt_field_def split: option.splits if_splits)
    then show ?thesis
      using json_nesting_field assms(2) Some md(2) by (fastforce simp: ingest_item_def serde_readable_def)
  qed (use md in \<open>simp add: ingest_item_def\<close>)
qed

text \<open>
  C13: what a client ingests it reads back. When \<open>memory_ingest\<close> succeeds on a store the writes can
  produce, its answer names an item that holds the content and the source of its arguments; and in
  every later state of the store, whatever was written meanwhile by whichever process,
  \<open>memory_get\<close> with the id as it was printed answers with that item, as long as the store opens. The
  arguments are nested less than 128 deep, as those of every message \<open>serde_json\<close> has read are.
\<close>

theorem ingested_memory_is_read:
  assumes "reachable x s" "prints_times x"
    "serve tx cfg en (Call_Tool ''memory_ingest'' (Some m)) s = Some (Inr out, s')" "later s' s2"
    "me_open_error en2 (mc_read_only cfg2) = None" "me_faults en2 = []"
    "\<And>i. mt_parse_id tx (show_id (mt_printing tx) i) = Inr i"
  shows "\<exists>a it s3. parse_ingest_args (JObject m) = Some a \<and> content it = ia_content a \<and> source it = ia_source a \<and>
    out = ingest_text tx it \<and> (json_nesting (JObject m) < 128 \<longrightarrow>
      serve tx cfg2 en2 (Call_Tool ''memory_get'' (Some [(''id'', JString (show_id (mt_printing tx) (item_id it)))])) s2 =
        Some (Inr (item_text tx it), s3))"
proof -
  from assms(3) obtain a sid h it where a: "parse_ingest_args (JObject m) = Some a" "out = ingest_text tx it"
    and run: "ingest (ingest_item a sid) (other_handle (me_clock en) (me_rng en) h False (me_faults en) s) = (Inr it, s')"
    by (rule ingest_served)
  let ?t = "other_handle (me_clock en) (me_rng en) h False (me_faults en) s"
  have inv: "ext s = x" "store_inv x (db s)" using reachable_inv[OF assms(1)] by simp_all
  have "later s s'" using later.after[OF later.after[OF later.same step.switched] step.written, of s "Ingest (ingest_item a sid)" "me_clock en" "me_rng en" h False "me_faults en"]
    run by simp
  from later_ok[OF this] inv have s': "ext s' = x" "store_inv x (db s')" by simp_all
  with later_ok[OF assms(4)] have s2: "ext s2 = x" "extends (db s') (db s2)" by simp_all
  from run obtain v i t where e: "it = stored_item i t (ingest_item a sid) v" "db s' = add_item (ext ?t) it (db ?t)" "fits it (db ?t)"
    by (rule ingest_effect)
  have stored: "content it = ia_content a" "source it = ia_source a"
    by (simp_all add: e(1) stored_item_def ingest_item_def new_item_text_def)
  show ?thesis
  proof (cases "json_nesting (JObject m) < 128")
    case False
    with a stored show ?thesis by blast
  next
    case True
    have "as_read it = Some it"
      using metadata_readable[OF a(1) True] by (simp add: as_read_def e(1) stored_item_def)
    then have "item_at x (db s') (item_id it) = Some it"
      using item_at_add[OF assms(2), of "db s" it] e inv by (simp add: store_inv_def other_handle_def)
    from item_at_extends[OF s2(2) this] obtain ex sc where
      "item_at x (db s2) (item_id it) = Some (it\<lparr>external_id := ex, scope := sc\<rparr>)" .
    from get_served[OF assms(5,6,7), of s2, unfolded s2(1), OF this] obtain s3 where
      "serve tx cfg2 en2 (Call_Tool ''memory_get'' (Some [(''id'', JString (show_id (mt_printing tx) (item_id it)))])) s2 =
         Some (Inr (item_text tx (it\<lparr>external_id := ex, scope := sc\<rparr>)), s3)" by blast
    moreover have "item_text tx (it\<lparr>external_id := ex, scope := sc\<rparr>) = item_text tx it" by (simp add: item_text_def)
    ultimately show ?thesis using a stored by metis
  qed
qed

section \<open>A session\<close>

text \<open>A server on the sample store, and a client that stores an item and then asks for it.\<close>

definition sample_text :: mcp_text where
  "sample_text = \<lparr>mt_printing = \<lparr>debug_str = id, show_score = (\<lambda>_. ''0''), show_id = (\<lambda>i. replicate (unat i) (CHR ''1'')),
       show_time = (\<lambda>_. ''t'')\<rparr>,
     mt_confidence = (\<lambda>_. ''1''), mt_parse_id = (\<lambda>s. Inr (of_nat (length s))), mt_f32 = (\<lambda>_. 0)\<rparr>"

definition sample_env :: mcp_env where
  "sample_env = \<lparr>me_open_error = (\<lambda>_. None), me_clock = (\<lambda>n. int n + 3), me_rng = (\<lambda>n. n), me_faults = [],
     me_exists = (\<lambda>_. False), me_lexical = (\<lambda>_. Inl No_Indexes), me_embedder_error = None,
     me_semantic = (\<lambda>_. Inl No_Indexes), me_is_dir = (\<lambda>_. True), me_current_dir = Inr ''/p'', me_canonicalize = Some\<rparr>"

definition sample_config :: mcp_config where
  "sample_config = (config_new (mt_printing sample_text) ''m.db'' ''plain'' False)\<lparr>mc_project := None\<rparr>"

definition sample_args :: "(string \<times> json) list" where
  "sample_args = [(''content'', JString ''abc''), (''tags'', JArray [JString ''b'', JString ''a''])]"

lemma parsed_sample:
  "parse_ingest_args (JObject sample_args) = Some \<lparr>ia_content = ''abc'', ia_tags = Some [''b'', ''a''], ia_source = None,
     ia_supersedes = None, ia_metadata = None, ia_scope = None\<rparr>"
  by (simp add: parse_ingest_args_def sample_args_def str_field_def opt_field_def json_get_def)

lemma nesting_sample: "json_nesting (JObject sample_args) < 128"
  by (simp add: sample_args_def)

lemma ids_sample: "mt_parse_id sample_text (show_id (mt_printing sample_text) i) = Inr i"
  by (simp add: sample_text_def)

abbreviation sample_handle :: store where
  "sample_handle \<equiv> other_handle (me_clock sample_env) (me_rng sample_env) None False (me_faults sample_env) sample_store"

lemma run_handle:
  "ingest sample_item sample_handle =
     (Inr sample_stored, sample_handle\<lparr>ticks := 1, draws := 1, db := add_item sample_ext sample_stored empty_db\<rparr>)"
proof -
  let ?s = "sample_handle\<lparr>ticks := Suc (ticks sample_handle), draws := Suc (draws sample_handle)\<rparr>"
  have h [simp]: "ext sample_handle = sample_ext" "db sample_handle = empty_db" "faults sample_handle = []"
    "hook sample_handle = None" "read_only sample_handle = False" "ticks sample_handle = 0" "draws sample_handle = 0"
    "clock sample_handle 0 = 3" "rng sample_handle 0 = 0" "hook_log sample_handle = []"
    by (simp_all add: other_handle_def sample_env_def) (simp add: sample_store_def)
  have u: "ingest sample_item sample_handle = bindM (transaction ''starting ingest transaction'' ''committing ingest transaction''
       (bindM (check_supersedes ''checking supersedes target existence''
                 (sql ''rolling back after SupersedesNotFound'') (n_supersedes sample_item)) (\<lambda>_.
        insert_item_row 48 3 sample_item [''a'', ''b''] None))) (\<lambda>_.
     bindM (fire_hook sample_stored) (\<lambda>_. ret sample_stored)) ?s"
    using ingest_unfold[OF _ validate_sample, of sample_handle 3 3 48 ?s]
    by (simp add: stored_sample) (simp add: sample_ext_def)
  show ?thesis
    unfolding u
    using ingest_body_no_faults[OF _ validate_sample, of ?s _ _ 48 3] fks_sample insert_outcome_sample
    by (simp add: bindM_def transaction_no_faults stored_sample fire_hook_calls ret_def)
      (simp add: told_of_item_def)
qed

definition served_store :: store where
  "served_store = sample_handle\<lparr>ticks := 1, draws := 1, db := add_item sample_ext sample_stored empty_db\<rparr>"

lemma serve_sample:
  "serve sample_text sample_config sample_env (Call_Tool ''memory_ingest'' (Some sample_args)) sample_store =
     Some (Inr (ingest_text sample_text sample_stored), served_store)"
proof -
  have i: "ingest_item \<lparr>ia_content = ''abc'', ia_tags = Some [''b'', ''a''], ia_source = None,
     ia_supersedes = None, ia_metadata = None, ia_scope = None\<rparr> None = sample_item"
    by (simp add: ingest_item_def sample_item_def new_item_text_def)
  have h: "ingest_hooks sample_env p = Inr []" for p by (simp add: ingest_hooks_def sample_env_def)
  have "me_open_error sample_env False = None" by (simp add: sample_env_def)
  then show ?thesis
    using run_handle i h
    by (simp add: call_memory_tools parse_call_args_def parsed_sample answer_with_def handle_memory_ingest_def
        needs_def served_map_def on_store_def hook_of_def served_store_def)
      (simp add: sample_config_def config_new_def)
qed

lemma reachable_sample: "reachable sample_ext sample_store"
proof -
  have "scans sample_ext" using graph_inv_sample(1) by (simp add: graph_inv_def)
  then show ?thesis by (intro reachable.created) simp_all
qed

theorem ingested_memory_is_read_witness:
  "\<exists>it s3. content it = ''abc'' \<and>
    serve sample_text sample_config sample_env
      (Call_Tool ''memory_get'' (Some [(''id'', JString (show_id (mt_printing sample_text) (item_id it)))])) served_store =
      Some (Inr (item_text sample_text it), s3)"
  using ingested_memory_is_read[OF reachable_sample prints_times_sample serve_sample later.same, of sample_env sample_config]
    ids_sample parsed_sample nesting_sample
  by (fastforce simp: sample_env_def)

theorem sessions_answered_witness:
  "\<exists>rs s'. session sample_text sample_config
     [(sample_env, Call_Tool ''memory_ingest'' (Some sample_args)), (sample_env, Read_Resource ''singularmem://memory/1'')]
     sample_store = Some (rs, s') \<and> length rs = 2"
  using sessions_answered[OF reachable_sample] by fastforce

theorem only_writers_write_witness:
  "db (snd (the (session sample_text (sample_config\<lparr>mc_read_only := True\<rparr>)
     [(sample_env, Call_Tool ''memory_ingest'' (Some sample_args))] sample_store))) = empty_db"
proof -
  obtain rs s' where "session sample_text (sample_config\<lparr>mc_read_only := True\<rparr>)
     [(sample_env, Call_Tool ''memory_ingest'' (Some sample_args))] sample_store = Some (rs, s')"
    using session_answers[OF reachable_sample] by blast
  with only_writers_write[OF this] show ?thesis by simp
qed

theorem failed_request_changes_nothing_witness:
  "db (snd (the (serve sample_text (sample_config\<lparr>mc_read_only := True\<rparr>) sample_env
     (Call_Tool ''memory_ingest'' (Some sample_args)) served_store))) = add_item sample_ext sample_stored empty_db"
proof -
  have "serve sample_text (sample_config\<lparr>mc_read_only := True\<rparr>) sample_env
     (Call_Tool ''memory_ingest'' (Some sample_args)) served_store =
     Some (Inl (Invalid_Params (Tool_Disabled ''memory_ingest'')), served_store)"
    by (simp add: call_memory_tools)
  with failed_request_changes_nothing[OF this] show ?thesis by (simp add: served_store_def)
qed


theorem unlisted_calls_refused_witness:
  "\<exists>e. call_tool sample_text sample_env (sample_config\<lparr>mc_read_only := True\<rparr>) ''memory_graph_add'' None sample_store =
     Some (Inl e, sample_store)"
proof -
  have "''memory_graph_add'' \<notin> to_name ` set (list_tools (sample_config\<lparr>mc_read_only := True\<rparr>))"
    by (simp add: list_tools_def)
  from unlisted_calls_refused[OF this] show ?thesis by blast
qed

end
