(* ===== verification/Export.thy ===== *)
theory Export
  imports Store_History Adapters "HOL-Library.Monad_Syntax"
begin

text \<open>
  \<open>singularmem-core/src/export.rs\<close>: the whole store as JSON lines on a writer, and a loader of that
  format as \<open>docs/formats/store-v4.md\<close> asks for it. What a loader reads back from an export is every
  item, entity and fact revision of the store, in the order of the format.
\<close>

section \<open>Writers\<close>

text \<open>
  A \<open>Write\<close>: the bytes written so far, and the answers to the coming calls. A failing call wrote some
  bytes before it failed; when the answers are used up, every call succeeds.
\<close>

record writer =
  wt_out :: string
  wt_calls :: "(nat \<times> string) option list"

definition put :: "string \<Rightarrow> writer \<Rightarrow> (string + unit) \<times> writer" where
  "put bs w = (case wt_calls w of
     Some (k, e) # cs \<Rightarrow> (Inl e, w\<lparr>wt_out := wt_out w @ take k bs, wt_calls := cs\<rparr>)
   | cs \<Rightarrow> (Inr (), w\<lparr>wt_out := wt_out w @ bs, wt_calls := tl cs\<rparr>))"

type_synonym 'a exporting = "store \<times> writer \<Rightarrow> (error + 'a) \<times> store \<times> writer"

definition ebind :: "'a exporting \<Rightarrow> ('a \<Rightarrow> 'b exporting) \<Rightarrow> 'b exporting" where
  "ebind m k p = (case m p of (Inl e, p') \<Rightarrow> (Inl e, p') | (Inr a, p') \<Rightarrow> k a p')"

definition reading_op :: "'a op \<Rightarrow> 'a exporting" where
  "reading_op m p = (case m (fst p) of (r, s') \<Rightarrow> (r, s', snd p))"

definition writing_bytes :: "(string \<Rightarrow> error) \<Rightarrow> string \<Rightarrow> unit exporting" where
  "writing_bytes f bs p = (case put bs (snd p) of (r, w') \<Rightarrow> (map_sum f id r, fst p, w'))"

section \<open>Lines\<close>

text \<open>
  \<open>serde_json\<close> prints a value (\<open>et_json\<close>) and an \<open>f32\<close> (\<open>et_float\<close>); ids and times serialise as
  their \<open>Display\<close>.
\<close>

record export_text =
  et_printing :: printing
  et_json :: "json \<Rightarrow> string"
  et_float :: "f32 \<Rightarrow> json"

definition EXPORT_FORMAT :: string where "EXPORT_FORMAT = ''export-v2''"
definition STORE_FORMAT :: string where "STORE_FORMAT = ''4''"

definition id_json :: "export_text \<Rightarrow> ulid \<Rightarrow> json" where
  "id_json tx i = JString (show_id (et_printing tx) i)"

definition time_json :: "export_text \<Rightarrow> timestamp \<Rightarrow> json" where
  "time_json tx t = JString (show_time (et_printing tx) t)"

text \<open>\<open>skip_serializing_if = "Option::is_none"\<close>.\<close>

definition opt_field :: "string \<Rightarrow> ('a \<Rightarrow> json) \<Rightarrow> 'a option \<Rightarrow> (string \<times> json) list" where
  "opt_field k f v = (case v of None \<Rightarrow> [] | Some a \<Rightarrow> [(k, f a)])"

definition meta_line :: "export_text \<Rightarrow> timestamp \<Rightarrow> json" where
  "meta_line tx t = JObject [(''_singularmem_format'', JString EXPORT_FORMAT), (''_kind'', JString ''meta''),
     (''store_format_version'', JString STORE_FORMAT), (''exported_at'', time_json tx t)]"

text \<open>The derived serialiser of an \<open>Item\<close>.\<close>

definition item_fields :: "export_text \<Rightarrow> item \<Rightarrow> (string \<times> json) list" where
  "item_fields tx it =
     [(''id'', id_json tx (item_id it)), (''content'', JString (content it)), (''created_at'', time_json tx (created_at it))] @
     opt_field ''supersedes'' (id_json tx) (supersedes it) @
     (if tags it = [] then [] else [(''tags'', JArray (map JString (tags it)))]) @
     opt_field ''source'' JString (source it) @
     (if metadata it = JObject [] then [] else [(''metadata'', metadata it)]) @
     opt_field ''external_id'' JString (external_id it) @ opt_field ''scope'' JString (scope it)"

definition item_line :: "export_text \<Rightarrow> item \<Rightarrow> json" where
  "item_line tx it = JObject ((''_kind'', JString ''item'') # item_fields tx it)"

definition entity_line :: "export_text \<Rightarrow> entity \<Rightarrow> json" where
  "entity_line tx e = JObject (
     [(''_kind'', JString ''entity''), (''id'', id_json tx (en_id e)), (''name'', JString (en_name e)),
      (''normalised_name'', JString (en_normalised_name e))] @
     opt_field ''kind'' JString (en_kind e) @ [(''created_at'', time_json tx (en_created_at e))])"

definition entity_ref_json :: "export_text \<Rightarrow> entity_ref \<Rightarrow> json" where
  "entity_ref_json tx r = JObject [(''id'', id_json tx (er_id r)), (''name'', JString (er_name r))]"

fun fact_object_json :: "export_text \<Rightarrow> fact_object \<Rightarrow> json" where
  "fact_object_json tx (Entity_Object r) = JObject [(''entity'', entity_ref_json tx r)]"
| "fact_object_json tx (Value_Object v) = JObject [(''value'', JString v)]"

definition fact_line :: "export_text \<Rightarrow> fact \<Rightarrow> json" where
  "fact_line tx f = JObject (
     [(''_kind'', JString ''fact''), (''id'', id_json tx (fa_id f)), (''subject'', entity_ref_json tx (fa_subject f)),
      (''predicate'', JString (fa_predicate f)), (''object'', fact_object_json tx (fa_object f))] @
     opt_field ''valid_from'' (time_json tx) (fa_valid_from f) @ opt_field ''valid_to'' (time_json tx) (fa_valid_to f) @
     [(''confidence'', et_float tx (fa_confidence f))] @
     opt_field ''source_item_id'' (id_json tx) (fa_source_item_id f) @ opt_field ''scope'' JString (fa_scope f) @
     opt_field ''supersedes'' (id_json tx) (fa_supersedes f) @ [(''recorded_at'', time_json tx (fa_recorded_at f))])"

section \<open>The export\<close>

text \<open>
  \<open>serde_json::to_writer\<close> then \<open>writeln!\<close>: an error of the writer is a JSON error within the value, an
  I/O error at the newline.
\<close>

definition write_json_line :: "export_text \<Rightarrow> string \<Rightarrow> json \<Rightarrow> unit exporting" where
  "write_json_line tx ctx j =
     ebind (writing_bytes (\<lambda>_. JsonError ctx) (et_json tx j)) (\<lambda>_. writing_bytes IoError [nl])"

text \<open>Items are read one by one, each written before the next is read.\<close>

fun export_items :: "export_text \<Rightarrow> ulid list \<Rightarrow> unit exporting" where
  "export_items tx [] = reading_op (ret ())"
| "export_items tx (i # pending) =
     ebind (reading_op (get i)) (\<lambda>it.
     ebind (write_json_line tx ''writing export item line'' (item_line tx it)) (\<lambda>_. export_items tx pending))"

fun write_json_lines :: "export_text \<Rightarrow> string \<Rightarrow> json list \<Rightarrow> unit exporting" where
  "write_json_lines tx ctx [] = reading_op (ret ())"
| "write_json_lines tx ctx (j # js) =
     ebind (write_json_line tx ctx j) (\<lambda>_. write_json_lines tx ctx js)"

definition by_creation :: "entity list \<Rightarrow> entity list" where
  "by_creation es = sort_key (\<lambda>e. (en_created_at e, en_id e)) es"

definition export :: "export_text \<Rightarrow> unit exporting" where
  "export tx =
     ebind (reading_op now) (\<lambda>t.
     ebind (write_json_line tx ''writing export meta line'' (meta_line tx t)) (\<lambda>_.
     ebind (reading_op list_all_items) (\<lambda>ids.
     ebind (export_items tx ids) (\<lambda>_.
     ebind (reading_op (list_entities None None)) (\<lambda>summaries.
     ebind (write_json_lines tx ''writing export entity line'' (map (entity_line tx) (by_creation (map fst summaries)))) (\<lambda>_.
     ebind (reading_op all_facts_chronological) (\<lambda>fs.
     ebind (write_json_lines tx ''writing export fact line'' (map (fact_line tx) fs)) (\<lambda>_.
     writing_bytes IoError [] ))))))))"

section \<open>A loader\<close>

text \<open>
  What reads an export: the parser of a line, of a number, and \<open>FromStr\<close> of ids and times. An absent
  field is the empty value, and a line of a kind the loader does not know is skipped.
\<close>

record load_text =
  lt_json :: "string \<Rightarrow> json option"
  lt_float :: "json \<Rightarrow> f32 option"
  lt_id :: "string \<Rightarrow> string + ulid"
  lt_time :: "string \<Rightarrow> timestamp option"

definition str_at :: "string \<Rightarrow> json \<Rightarrow> string option" where
  "str_at k j = json_get k j \<bind> as_str"

definition opt_at :: "string \<Rightarrow> (json \<Rightarrow> 'a option) \<Rightarrow> json \<Rightarrow> 'a option option" where
  "opt_at k f j = (case json_get k j of None \<Rightarrow> Some None | Some v \<Rightarrow> map_option Some (f v))"

definition load_id :: "load_text \<Rightarrow> json \<Rightarrow> ulid option" where
  "load_id rd v = as_str v \<bind> (\<lambda>s. case lt_id rd s of Inl e \<Rightarrow> None | Inr i \<Rightarrow> Some i)"

definition load_time :: "load_text \<Rightarrow> json \<Rightarrow> timestamp option" where
  "load_time rd v = as_str v \<bind> lt_time rd"

definition load_tags :: "json \<Rightarrow> string list option" where
  "load_tags j = (case json_get ''tags'' j of None \<Rightarrow> Some [] | Some v \<Rightarrow> as_array v \<bind> (\<lambda>vs. those (map as_str vs)))"

definition load_item_line :: "load_text \<Rightarrow> json \<Rightarrow> item option" where
  "load_item_line rd j = do {
     i \<leftarrow> json_get ''id'' j \<bind> load_id rd;
     c \<leftarrow> str_at ''content'' j;
     t \<leftarrow> json_get ''created_at'' j \<bind> load_time rd;
     sup_id \<leftarrow> opt_at ''supersedes'' (load_id rd) j;
     ts \<leftarrow> load_tags j;
     src \<leftarrow> opt_at ''source'' as_str j;
     e \<leftarrow> opt_at ''external_id'' as_str j;
     sc \<leftarrow> opt_at ''scope'' as_str j;
     Some \<lparr>item_id = i, content = c, created_at = t, supersedes = sup_id, tags = ts, source = src,
       metadata = (case json_get ''metadata'' j of None \<Rightarrow> JObject [] | Some m \<Rightarrow> m), external_id = e, scope = sc\<rparr> }"

definition load_entity_line :: "load_text \<Rightarrow> json \<Rightarrow> entity option" where
  "load_entity_line rd j = do {
     i \<leftarrow> json_get ''id'' j \<bind> load_id rd;
     n \<leftarrow> str_at ''name'' j;
     m \<leftarrow> str_at ''normalised_name'' j;
     k \<leftarrow> opt_at ''kind'' as_str j;
     t \<leftarrow> json_get ''created_at'' j \<bind> load_time rd;
     Some \<lparr>en_id = i, en_name = n, en_normalised_name = m, en_kind = k, en_created_at = t\<rparr> }"

definition load_entity_ref :: "load_text \<Rightarrow> json \<Rightarrow> entity_ref option" where
  "load_entity_ref rd j = do {
     i \<leftarrow> json_get ''id'' j \<bind> load_id rd;
     n \<leftarrow> str_at ''name'' j;
     Some \<lparr>er_id = i, er_name = n\<rparr> }"

definition load_fact_object :: "load_text \<Rightarrow> json \<Rightarrow> fact_object option" where
  "load_fact_object rd j = (case json_get ''entity'' j of
     Some r \<Rightarrow> map_option Entity_Object (load_entity_ref rd r)
   | None \<Rightarrow> map_option Value_Object (str_at ''value'' j))"

definition load_fact_line :: "load_text \<Rightarrow> json \<Rightarrow> fact option" where
  "load_fact_line rd j = do {
     i \<leftarrow> json_get ''id'' j \<bind> load_id rd;
     subj \<leftarrow> json_get ''subject'' j \<bind> load_entity_ref rd;
     p \<leftarrow> str_at ''predicate'' j;
     obj \<leftarrow> json_get ''object'' j \<bind> load_fact_object rd;
     vf \<leftarrow> opt_at ''valid_from'' (load_time rd) j;
     vt \<leftarrow> opt_at ''valid_to'' (load_time rd) j;
     c \<leftarrow> json_get ''confidence'' j \<bind> lt_float rd;
     src \<leftarrow> opt_at ''source_item_id'' (load_id rd) j;
     sc \<leftarrow> opt_at ''scope'' as_str j;
     sup_id \<leftarrow> opt_at ''supersedes'' (load_id rd) j;
     rec \<leftarrow> json_get ''recorded_at'' j \<bind> load_time rd;
     Some \<lparr>fa_id = i, fa_subject = subj, fa_predicate = p, fa_object = obj, fa_valid_from = vf, fa_valid_to = vt,
       fa_confidence = c, fa_source_item_id = src, fa_scope = sc, fa_supersedes = sup_id, fa_recorded_at = rec\<rparr> }"

datatype loaded = Loaded_Item item | Loaded_Entity entity | Loaded_Fact fact | Skipped

definition load_line :: "load_text \<Rightarrow> string \<Rightarrow> loaded option" where
  "load_line rd out = lt_json rd out \<bind> (\<lambda>j.
     if str_at ''_kind'' j = Some ''item'' then map_option Loaded_Item (load_item_line rd j)
     else if str_at ''_kind'' j = Some ''entity'' then map_option Loaded_Entity (load_entity_line rd j)
     else if str_at ''_kind'' j = Some ''fact'' then map_option Loaded_Fact (load_fact_line rd j)
     else Some Skipped)"

text \<open>Every line ends with a newline, so the last piece is empty.\<close>

definition load_export :: "load_text \<Rightarrow> string \<Rightarrow> loaded list option" where
  "load_export rd out = those (map (load_line rd) (butlast (split_char nl out)))"

section \<open>What is printed is read back\<close>

text \<open>The values of \<open>serde_json::Value\<close>: no object has a key twice, and a float is finite.\<close>

fun json_value :: "json \<Rightarrow> bool" where
  "json_value (JArray vs) = (\<forall>v \<in> set vs. json_value v)"
| "json_value (JObject m) = (distinct (map fst m) \<and> (\<forall>p \<in> set m. json_value (snd p)))"
| "json_value (JFloat f) = (take_bit 11 (drop_bit 52 f) \<noteq> 2047)"
| "json_value _ = True"

text \<open>
  The contract of the printers and the parsers: one inverts the other, a value is printed on one line,
  and a confidence in the unit interval prints as a number.
\<close>

definition export_laws :: "export_text \<Rightarrow> load_text \<Rightarrow> bool" where
  "export_laws tx rd \<longleftrightarrow>
     (\<forall>j. json_value j \<longrightarrow> lt_json rd (et_json tx j) = Some j \<and> nl \<notin> set (et_json tx j)) \<and>
     (\<forall>f. unit_interval f \<longrightarrow> lt_float rd (et_float tx f) = Some f \<and> json_value (et_float tx f)) \<and>
     (\<forall>i. lt_id rd (show_id (et_printing tx) i) = Inr i) \<and> (\<forall>t. lt_time rd (show_time (et_printing tx) t) = Some t)"

lemma export_lawsD:
  assumes "export_laws tx rd"
  shows "json_value j \<Longrightarrow> lt_json rd (et_json tx j) = Some j" "json_value j \<Longrightarrow> nl \<notin> set (et_json tx j)"
    "unit_interval f \<Longrightarrow> lt_float rd (et_float tx f) = Some f" "unit_interval f \<Longrightarrow> json_value (et_float tx f)"
    "lt_id rd (show_id (et_printing tx) i) = Inr i" "lt_time rd (show_time (et_printing tx) t) = Some t"
  using assms by (simp_all add: export_laws_def)

lemma load_printed:
  assumes "export_laws tx rd"
  shows "load_id rd (id_json tx i) = Some i" "load_time rd (time_json tx t) = Some t"
  using export_lawsD(5,6)[OF assms] by (simp_all add: load_id_def load_time_def id_json_def time_json_def)

lemma map_of_opt_field:
  "map_of (opt_field k f v) k' = (if k' = k then map_option f v else None)"
  "map_of (opt_field k f v @ rest) k' =
     (if k' = k then (case v of None \<Rightarrow> map_of rest k' | Some a \<Rightarrow> Some (f a)) else map_of rest k')"
  by (cases v; simp add: opt_field_def)+

lemma fst_opt_field: "map fst (opt_field k f v) = (if v = None then [] else [k])"
  by (cases v) (simp_all add: opt_field_def)

lemma those_strings: "those (map as_str (map JString ts)) = Some ts"
  by (induction ts) simp_all

lemmas load_simps = json_get_def str_at_def opt_at_def map_of_opt_field

lemma opt_at_field:
  "(\<And>a. g (f a) = Some a) \<Longrightarrow> (case map_option f v of None \<Rightarrow> Some None | Some w \<Rightarrow> map_option Some (g w)) = Some v"
  "(\<And>a. g (f a) = Some a) \<Longrightarrow>
     (case (case v of None \<Rightarrow> None | Some a \<Rightarrow> Some (f a)) of None \<Rightarrow> Some None | Some w \<Rightarrow> map_option Some (g w)) = Some v"
  by (cases v; simp)+

lemma load_item_printed:
  assumes "export_laws tx rd" shows "load_item_line rd (item_line tx it) = Some it"
  unfolding load_item_line_def item_line_def item_fields_def load_tags_def
  using load_printed[OF assms]
  by (simp add: load_simps opt_at_field those_strings map_add_def del: map_map split: option.split)

lemma load_entity_printed:
  assumes "export_laws tx rd" shows "load_entity_line rd (entity_line tx e) = Some e"
  unfolding load_entity_line_def entity_line_def
  using load_printed[OF assms] by (simp add: load_simps opt_at_field del: map_of_append cong: option.case_cong)

lemma load_ref_printed:
  assumes "export_laws tx rd" shows "load_entity_ref rd (entity_ref_json tx r) = Some r"
  unfolding load_entity_ref_def entity_ref_json_def using load_printed[OF assms] by (simp add: load_simps)

lemma load_object_printed:
  assumes "export_laws tx rd" shows "load_fact_object rd (fact_object_json tx ob) = Some ob"
  unfolding load_fact_object_def
  by (cases ob) (simp_all add: load_ref_printed[OF assms] load_simps)

lemma load_fact_printed:
  assumes "export_laws tx rd" "unit_interval (fa_confidence f)" shows "load_fact_line rd (fact_line tx f) = Some f"
  unfolding load_fact_line_def fact_line_def
  using load_printed[OF assms(1)] load_ref_printed[OF assms(1)] load_object_printed[OF assms(1)]
    export_lawsD(3)[OF assms(1), OF assms(2)]
  by (simp add: load_simps opt_at_field del: map_of_append cong: option.case_cong)

section \<open>A run that succeeds\<close>

definition lines_text :: "export_text \<Rightarrow> json list \<Rightarrow> string" where
  "lines_text tx js = concat (map (\<lambda>j. et_json tx j @ [nl]) js)"

lemma lines_text_simps [simp]:
  "lines_text tx [] = []" "lines_text tx (j # js) = et_json tx j @ nl # lines_text tx js"
  "lines_text tx (js @ ks) = lines_text tx js @ lines_text tx ks"
  by (simp_all add: lines_text_def)

text \<open>A step that appended \<open>js\<close> to the output and left the tables.\<close>

definition appended :: "export_text \<Rightarrow> json list \<Rightarrow> store \<times> writer \<Rightarrow> store \<times> writer \<Rightarrow> bool" where
  "appended tx js p p' \<longleftrightarrow>
     view (fst p') = view (fst p) \<and> wt_out (snd p') = wt_out (snd p) @ lines_text tx js"

lemma appended_trans: "appended tx js p q \<Longrightarrow> appended tx ks q r \<Longrightarrow> appended tx (js @ ks) p r"
  by (simp add: appended_def)

lemma appended_refl: "view (fst p') = view (fst p) \<Longrightarrow> snd p' = snd p \<Longrightarrow> appended tx [] p p'"
  by (simp add: appended_def)

lemma ebind_InrE:
  assumes "ebind m k p = (Inr y, p')" obtains a q where "m p = (Inr a, q)" "k a q = (Inr y, p')"
  using assms by (auto simp: ebind_def split: prod.splits sum.splits)

lemma reading_op_Inr:
  assumes "reading_op m p = (Inr a, p')"
  obtains s' where "m (fst p) = (Inr a, s')" "p' = (s', snd p)"
  using assms by (auto simp: reading_op_def split: prod.splits)

lemma writing_bytes_Inr:
  assumes "writing_bytes f bs p = (Inr u, p')"
  shows "fst p' = fst p" "wt_out (snd p') = wt_out (snd p) @ bs"
proof -
  obtain r w' where r: "put bs (snd p) = (r, w')" by (rule prod.exhaust)
  with assms have p': "p' = (fst p, w')" "r = Inr ()" by (auto simp: writing_bytes_def) (cases r; simp)
  then show "fst p' = fst p" by simp
  show "wt_out (snd p') = wt_out (snd p) @ bs"
    using r p' by (auto simp: put_def split: list.splits option.splits)
qed

lemma write_json_line_Inr:
  assumes "write_json_line tx c j p = (Inr u, p')" shows "appended tx [j] p p'"
  using assms unfolding write_json_line_def
  by (elim ebind_InrE) (simp add: appended_def writing_bytes_Inr)

lemma write_json_lines_Inr: "write_json_lines tx c js p = (Inr u, p') \<Longrightarrow> appended tx js p p'"
proof (induction js arbitrary: p)
  case Nil then show ?case by (auto simp: ret_def reading_op_def intro: appended_refl)
next
  case (Cons j js)
  from Cons.prems obtain q where "write_json_line tx c j p = (Inr (), q)" "write_json_lines tx c js q = (Inr u, p')"
    by (auto elim!: ebind_InrE)
  from appended_trans[OF write_json_line_Inr[OF this(1)] Cons.IH[OF this(2)]] show ?case by simp
qed

lemma export_items_Inr:
  "export_items tx ids p = (Inr u, p') \<Longrightarrow>
     \<exists>its. list_all2 (\<lambda>i it. item_at (ext (fst p)) (db (fst p)) i = Some it) ids its \<and>
       appended tx (map (item_line tx) its) p p'"
proof (induction ids arbitrary: p)
  case Nil then show ?case by (auto simp: ret_def reading_op_def intro: appended_refl)
next
  case (Cons i ids)
  from Cons.prems obtain it q r where 1: "reading_op (get i) p = (Inr it, q)"
    and 2: "write_json_line tx ''writing export item line'' (item_line tx it) q = (Inr (), r)"
    and 3: "export_items tx ids r = (Inr u, p')"
    by (auto elim!: ebind_InrE)
  obtain s' where g: "get i (fst p) = (Inr it, s')" "q = (s', snd p)" by (rule reading_op_Inr[OF 1])
  have pq: "appended tx [] p q" using get_view[OF g(1)] g(2) by (intro appended_refl) simp_all
  note pr = appended_trans[OF pq write_json_line_Inr[OF 2], simplified]
  have "ext (fst r) = ext (fst p)" "db (fst r) = db (fst p)" using pr by (simp_all add: appended_def view_def)
  with Cons.IH[OF 3] obtain its where
    "list_all2 (\<lambda>i it. item_at (ext (fst p)) (db (fst p)) i = Some it) ids its"
    "appended tx (map (item_line tx) its) r p'" by auto
  then show ?case using get_Inr[OF g(1)] appended_trans[OF pr] by (intro exI[of _ "it # its"]) auto
qed

text \<open>The three reads leave the tables and answer with all rows.\<close>

lemma view_op: "keeps view m \<Longrightarrow> m s = (r, s') \<Longrightarrow> view s' = view s"
  by (rule keepsD)

lemma list_all_items_Inr:
  assumes "list_all_items s = (Inr ids, s')" "wf_items (db s)" "scans (ext s)"
  shows "view s' = view s" "distinct ids" "set ids = item_ids (db s)"
proof -
  have "keeps view list_all_items"
    unfolding list_all_items_def list_by_tags_scoped_def by (intro keeps_intros) simp
  from view_op[OF this assms(1)] show "view s' = view s" .
  have "ids = map r_id (selected_rows [] None s)"
    using assms(1) unfolding list_all_items_def list_by_tags_scoped_def selected_rows_def
    by (auto elim!: bindM_InrE simp: gets_def dest: run_query_Inr)
  with selected_rows[OF assms(2,3), of "[]" None] show "distinct ids" "set ids = item_ids (db s)"
    by (simp_all add: has_tags_def in_filter_def item_ids_def)
qed

lemma list_entities_Inr:
  assumes "list_entities None None s = (Inr es, s')"
  shows "view s' = view s"
    "\<exists>rows. mset rows = mset (entities (db s)) \<and> list_all2 (\<lambda>e p. into_entity (ext s) e = Inr (fst p)) rows es"
proof -
  have "keeps view (list_entities None None)"
    unfolding list_entities_def Let_def by (intro keeps_intros; simp)
  from view_op[OF this assms(1)] show "view s' = view s" .
  let ?rows = "sort_key e_normalised_name (entities (db s))"
  obtain g :: "entity_row \<Rightarrow> nat" where
    "traverse (\<lambda>(e, n). rbind (into_entity (ext s) e) (\<lambda>en. Inr (en, n))) (map (\<lambda>e. (e, g e)) ?rows) = Inr es"
    using assms unfolding list_entities_def Let_def
    by (auto elim!: bindM_InrE simp: gets_def lift_def dest!: run_query_Inr)
  then have "list_all2 (\<lambda>e p. into_entity (ext s) e = Inr (fst p)) ?rows es"
    unfolding traverse_Inr_iff list_all2_map1
    by (rule list_all2_mono) (auto elim!: rbind_InrE)
  moreover have "mset ?rows = mset (entities (db s))" by simp
  ultimately show "\<exists>rows. mset rows = mset (entities (db s)) \<and>
      list_all2 (\<lambda>e p. into_entity (ext s) e = Inr (fst p)) rows es" by blast
qed

lemma fact_select_rows:
  "(\<And>f. f \<in> set rows \<Longrightarrow> find_entity_row (f_subject_id f) d \<noteq> None) \<Longrightarrow>
     map rf_row (fact_select d (\<lambda>_. True) rows) = rows"
proof (induction rows)
  case (Cons f rows)
  then obtain e where "find_entity_row (f_subject_id f) d = Some e" by fastforce
  then show ?case using Cons by (simp add: fact_select_def map_filter_simps)
qed (simp add: fact_select_def map_filter_simps)

lemma all_facts_Inr:
  assumes "all_facts_chronological s = (Inr fs, s')" "wf_graph (db s)" "scans (ext s)"
  shows "view s' = view s" "mset (map fa_id fs) = mset (map f_id (facts (db s)))"
    "\<forall>f \<in> set fs. unit_interval (fa_confidence f) \<and>
       (\<exists>raw. rf_row raw \<in> set (facts (db s)) \<and> into_fact (ext s) raw = Inr f)"
proof -
  let ?raws = "by_record (fact_select (db s) (\<lambda>_. True) (scan_facts (ext s) (facts (db s))))"
  have "keeps view all_facts_chronological"
    unfolding all_facts_chronological_def select_facts_def by (intro keeps_intros) simp
  from view_op[OF this assms(1)] show v: "view s' = view s" .
  from assms(1) obtain raws s1 where q: "run_query ''reading all fact revisions chronologically''
      ''reading all fact revisions chronologically'' ''reading all fact revisions chronologically''
      (\<lambda>d. by_record (fact_select d (\<lambda>_. True) (scan_facts (ext s) (facts d)))) s = (Inr raws, s1)"
    and t: "traverse (into_fact (ext s1)) raws = Inr fs"
    unfolding all_facts_chronological_def select_facts_def
    by (auto elim!: bindM_InrE simp: gets_def lift_def)
  have "keeps view (run_query c1 c2 c3 g)" for c1 c2 c3 and g :: "database \<Rightarrow> raw_fact list" by (intro keeps_intros) simp
  from view_op[OF this q] have "ext s1 = ext s" by (simp add: view_def)
  with t run_query_Inr[OF q] have "traverse (into_fact (ext s)) ?raws = Inr fs" by simp
  then have all2: "list_all2 (\<lambda>raw f. into_fact (ext s) raw = Inr f) ?raws fs" by (simp add: traverse_Inr_iff)
  have scan: "mset (scan_facts (ext s) (facts (db s))) = mset (facts (db s))" using assms(3) by (simp add: scans_def)
  have "find_entity_row (f_subject_id f) (db s) \<noteq> None" if "f \<in> set (facts (db s))" for f
  proof -
    have "f_subject_id f \<in> entity_ids (db s)" using assms(2) that by (simp add: wf_graph_def fact_row_ok_def)
    then show ?thesis by (auto simp: entity_ids_def find_entity_row_def find_None_iff)
  qed
  then have "map rf_row (fact_select (db s) (\<lambda>_. True) (scan_facts (ext s) (facts (db s)))) = scan_facts (ext s) (facts (db s))"
    using mset_eq_setD[OF scan] by (intro fact_select_rows) simp
  from arg_cong[OF this, of mset] have rows: "mset (map rf_row ?raws) = mset (facts (db s))"
    using scan by (simp add: by_record_def)
  have ids: "list_all2 (\<lambda>raw f. fa_id f = f_id (rf_row raw) \<and> fa_confidence f = f_confidence (rf_row raw) \<and>
      into_fact (ext s) raw = Inr f) ?raws fs"
    using all2 by (rule list_all2_mono) (auto simp: into_fact_def Let_def elim!: rbind_InrE split: option.splits)
  then have "map fa_id fs = map f_id (map rf_row ?raws)"
    by (induction rule: list_all2_induct) auto
  then show "mset (map fa_id fs) = mset (map f_id (facts (db s)))" using rows by (metis mset_map)
  show "\<forall>f \<in> set fs. unit_interval (fa_confidence f) \<and>
       (\<exists>raw. rf_row raw \<in> set (facts (db s)) \<and> into_fact (ext s) raw = Inr f)"
  proof
    fix f assume "f \<in> set fs"
    then obtain raw where r: "raw \<in> set ?raws" "fa_confidence f = f_confidence (rf_row raw)" "into_fact (ext s) raw = Inr f"
      using ids by (fastforce simp: list_all2_conv_all_nth in_set_conv_nth)
    then have "rf_row raw \<in> set (facts (db s))" using mset_eq_setD[OF rows] by auto
    then show "unit_interval (fa_confidence f) \<and>
       (\<exists>raw. rf_row raw \<in> set (facts (db s)) \<and> into_fact (ext s) raw = Inr f)"
      using assms(2) r by (auto simp: wf_graph_def fact_row_ok_def)
  qed
qed

text \<open>
  The lists hold the store: every item once, as it is read back by its id; every entity, decoded from
  its row; every revision of every fact once, decoded from its row.
\<close>

definition whole_store :: "externals \<Rightarrow> database \<Rightarrow> item list \<Rightarrow> entity list \<Rightarrow> fact list \<Rightarrow> bool" where
  "whole_store x d its es fs \<longleftrightarrow>
     distinct (map item_id its) \<and> item_id ` set its = item_ids d \<and>
     (\<forall>it \<in> set its. item_at x d (item_id it) = Some it) \<and>
     (\<exists>rows. mset rows = mset (entities d) \<and> list_all2 (\<lambda>e en. into_entity x e = Inr en) rows es) \<and>
     mset (map fa_id fs) = mset (map f_id (facts d)) \<and>
     (\<forall>f \<in> set fs. \<exists>raw. rf_row raw \<in> set (facts d) \<and> into_fact x raw = Inr f)"

lemma export_Inr:
  assumes "export tx (s, w) = (Inr (), s', w')" "wf_items (db s)" "wf_graph (db s)" "scans (ext s)"
  shows "\<exists>t its es fs.
    wt_out w' = wt_out w @ lines_text tx (meta_line tx t # map (item_line tx) its @ map (entity_line tx) es @ map (fact_line tx) fs) \<and>
    whole_store (ext s) (db s) its es fs \<and> (\<forall>f \<in> set fs. unit_interval (fa_confidence f))"
proof -
  from assms(1) obtain t p1 p2 ids p3 p4 summaries p5 p6 fs p7 p8 where
    1: "reading_op now (s, w) = (Inr t, p1)" and
    2: "write_json_line tx ''writing export meta line'' (meta_line tx t) p1 = (Inr (), p2)" and
    3: "reading_op list_all_items p2 = (Inr ids, p3)" and
    4: "export_items tx ids p3 = (Inr (), p4)" and
    5: "reading_op (list_entities None None) p4 = (Inr summaries, p5)" and
    6: "write_json_lines tx ''writing export entity line'' (map (entity_line tx) (by_creation (map fst summaries))) p5 = (Inr (), p6)" and
    7: "reading_op all_facts_chronological p6 = (Inr fs, p7)" and
    8: "write_json_lines tx ''writing export fact line'' (map (fact_line tx) fs) p7 = (Inr (), p8)" and
    9: "writing_bytes IoError [] p8 = (Inr (), s', w')"
    unfolding export_def by (auto elim!: ebind_InrE)
  have a1: "appended tx [] (s, w) p1" using 1 by (auto simp: reading_op_def now_def appended_def view_def)
  note a2 = appended_trans[OF a1 write_json_line_Inr[OF 2], simplified]
  obtain s3 where 3: "list_all_items (fst p2) = (Inr ids, s3)" "p3 = (s3, snd p2)" by (rule reading_op_Inr[OF 3])
  have v2: "db (fst p2) = db s" "ext (fst p2) = ext s" using a2 by (simp_all add: appended_def view_def)
  note ids = list_all_items_Inr[OF 3(1), unfolded v2, OF assms(2,4)]
  have a3: "appended tx [meta_line tx t] (s, w) p3" using a2 3(2) ids(1) by (simp add: appended_def)
  then have v3: "db (fst p3) = db s" "ext (fst p3) = ext s" by (simp_all add: appended_def view_def)
  obtain its where its: "list_all2 (\<lambda>i it. item_at (ext s) (db s) i = Some it) ids its"
    and w4: "appended tx (map (item_line tx) its) p3 p4" using export_items_Inr[OF 4] v3 by auto
  note a4 = appended_trans[OF a3 w4, simplified]
  obtain s5 where 5: "list_entities None None (fst p4) = (Inr summaries, s5)" "p5 = (s5, snd p4)" by (rule reading_op_Inr[OF 5])
  have v4: "db (fst p4) = db s" "ext (fst p4) = ext s" using a4 by (simp_all add: appended_def view_def)
  note ents = list_entities_Inr[OF 5(1), unfolded v4]
  have a5: "appended tx (meta_line tx t # map (item_line tx) its) (s, w) p5" using a4 5(2) ents(1) by (simp add: appended_def)
  note a6 = appended_trans[OF a5 write_json_lines_Inr[OF 6], simplified]
  obtain s7 where 7: "all_facts_chronological (fst p6) = (Inr fs, s7)" "p7 = (s7, snd p6)" by (rule reading_op_Inr[OF 7])
  have v6: "db (fst p6) = db s" "ext (fst p6) = ext s" using a6 by (simp_all add: appended_def view_def)
  note facts = all_facts_Inr[OF 7(1), unfolded v6, OF assms(3,4)]
  have a7: "appended tx (meta_line tx t # map (item_line tx) its @ map (entity_line tx) (by_creation (map fst summaries))) (s, w) p7"
    using a6 7(2) facts(1) by (simp add: appended_def)
  note a8 = appended_trans[OF a7 write_json_lines_Inr[OF 8], simplified]
  have out: "wt_out w' = wt_out w @ lines_text tx (meta_line tx t # map (item_line tx) its @
      map (entity_line tx) (by_creation (map fst summaries)) @ map (fact_line tx) fs)"
    using a8 writing_bytes_Inr(2)[OF 9] by (simp add: appended_def)
  have item_ids: "map item_id its = ids" by (rule item_ids_read[OF its])
  moreover obtain rows where rows: "mset rows = mset (entities (db s))"
    "list_all2 (\<lambda>e en. into_entity (ext s) e = Inr en) rows (by_creation (map fst summaries))"
  proof -
    from ents(2) obtain rs where rs: "mset rs = mset (entities (db s))"
      "list_all2 (\<lambda>e en. into_entity (ext s) e = Inr en) rs (map fst summaries)" by (auto simp: list_all2_map2)
    have "list_all2 (\<lambda>e en. into_entity (ext s) e = Inr en)\<inverse>\<inverse> (map fst summaries) rs" using rs(2) by (simp add: list.rel_flip)
    moreover have "mset (by_creation (map fst summaries)) = mset (map fst summaries)" by (simp add: by_creation_def)
    ultimately obtain rs' where
      "list_all2 (\<lambda>e en. into_entity (ext s) e = Inr en)\<inverse>\<inverse> (by_creation (map fst summaries)) rs'" "mset rs' = mset rs"
      using list_all2_reorder_left_invariance by blast
    with rs(1) that[of rs'] show ?thesis by (simp add: list.rel_flip)
  qed
  moreover have "item_id ` set its = item_ids (db s)" using item_ids ids(3) by (metis list.set_map)
  ultimately have "whole_store (ext s) (db s) its (by_creation (map fst summaries)) fs"
    unfolding whole_store_def using ids(2) items_read[OF its] facts(2,3) by blast
  then show ?thesis using out facts(3) by blast
qed

section \<open>Round trip\<close>

lemma json_value_fields:
  "json_value (id_json tx i)" "json_value (time_json tx t)" "json_value (meta_line tx t)"
  "json_value (entity_line tx e)" "json_value (entity_ref_json tx r)"
  by (auto simp: id_json_def time_json_def meta_line_def entity_line_def entity_ref_json_def opt_field_def split: option.split)

lemma json_value_item: "json_value (metadata it) \<Longrightarrow> json_value (item_line tx it)"
  using json_value_fields(1,2)
  by (auto simp: item_line_def item_fields_def opt_field_def split: option.split)

lemma json_value_object: "json_value (fact_object_json tx ob)"
  using json_value_fields(5) by (cases ob) auto

lemma json_value_fact: "json_value (et_float tx (fa_confidence f)) \<Longrightarrow> json_value (fact_line tx f)"
  using json_value_fields(1,2,5) json_value_object
  by (auto simp: fact_line_def opt_field_def split: option.split)

lemma split_lines:
  "(\<And>j. j \<in> set js \<Longrightarrow> nl \<notin> set (et_json tx j)) \<Longrightarrow>
     butlast (split_char nl (lines_text tx js)) = map (et_json tx) js"
  by (induction js) (simp_all add: split_char_append_sep)

lemma kinds_of_lines:
  "str_at ''_kind'' (meta_line tx t) = Some ''meta''" "str_at ''_kind'' (item_line tx it) = Some ''item''"
  "str_at ''_kind'' (entity_line tx e) = Some ''entity''" "str_at ''_kind'' (fact_line tx f) = Some ''fact''"
  by (simp_all add: str_at_def json_get_def meta_line_def item_line_def entity_line_def fact_line_def)

lemma load_lines_printed:
  assumes "export_laws tx rd"
  shows "load_line rd (et_json tx (meta_line tx t)) = Some Skipped"
    "json_value (metadata it) \<Longrightarrow> load_line rd (et_json tx (item_line tx it)) = Some (Loaded_Item it)"
    "load_line rd (et_json tx (entity_line tx e)) = Some (Loaded_Entity e)"
    "unit_interval (fa_confidence f) \<Longrightarrow> load_line rd (et_json tx (fact_line tx f)) = Some (Loaded_Fact f)"
  using export_lawsD[OF assms] json_value_fields json_value_item json_value_fact
  by (simp_all add: load_line_def kinds_of_lines load_item_printed[OF assms] load_entity_printed[OF assms]
      load_fact_printed[OF assms])

lemma those_Some_map: "(\<And>a. a \<in> set xs \<Longrightarrow> f a = Some (g a)) \<Longrightarrow> those (map f xs) = Some (map g xs)"
  by (induction xs) simp_all

lemma those_append: "those xs = Some as \<Longrightarrow> those ys = Some bs \<Longrightarrow> those (xs @ ys) = Some (as @ bs)"
  by (induction xs arbitrary: as) (auto split: option.splits)

lemma item_at_metadata:
  "item_at x d i = Some it \<Longrightarrow> \<exists>r \<in> set (items d). metadata it = r_metadata r"
  by (auto simp: item_at_Some item_of_row_def dest!: find_row_Some)

text \<open>
  C33: an export loses nothing. What a loader of the documented format reads back from a successful
  export is one meta line to skip, then every item of the store, every entity and every revision of
  every fact, each exactly once and each as the store has it, whatever was on the way between.
\<close>

theorem export_round_trip:
  assumes "export_laws tx rd" "wf_items (db s)" "wf_graph (db s)" "scans (ext s)"
    "\<forall>r \<in> set (items (db s)). json_value (r_metadata r)"
    "export tx (s, w) = (Inr (), s', w')" "wt_out w = []"
  shows "\<exists>its es fs. whole_store (ext s) (db s) its es fs \<and>
    load_export rd (wt_out w') = Some (Skipped # map Loaded_Item its @ map Loaded_Entity es @ map Loaded_Fact fs)"
proof -
  from export_Inr[OF assms(6,2,3,4)] obtain t its es fs where
    out: "wt_out w' = lines_text tx (meta_line tx t # map (item_line tx) its @ map (entity_line tx) es @ map (fact_line tx) fs)"
    and whole: "whole_store (ext s) (db s) its es fs" and fs: "\<forall>f \<in> set fs. unit_interval (fa_confidence f)"
    unfolding assms(7) append_Nil by blast
  have meta: "json_value (metadata it)" if "it \<in> set its" for it
  proof -
    have "item_at (ext s) (db s) (item_id it) = Some it" using whole that by (simp add: whole_store_def)
    from item_at_metadata[OF this] show ?thesis using assms(5) by auto
  qed
  have float: "json_value (et_float tx (fa_confidence f))" if "f \<in> set fs" for f
    using fs that export_lawsD(4)[OF assms(1)] by blast
  let ?js = "meta_line tx t # map (item_line tx) its @ map (entity_line tx) es @ map (fact_line tx) fs"
  have "json_value j" if "j \<in> set ?js" for j
    using that meta float json_value_fields(3,4) json_value_item json_value_fact by auto
  with export_lawsD(2)[OF assms(1)] have "nl \<notin> set (et_json tx j)" if "j \<in> set ?js" for j using that by blast
  from split_lines[of ?js tx, OF this] have lines: "butlast (split_char nl (wt_out w')) = map (et_json tx) ?js"
    unfolding out .
  have 1: "those (map (\<lambda>it. load_line rd (et_json tx (item_line tx it))) its) = Some (map Loaded_Item its)"
    using meta by (intro those_Some_map load_lines_printed[OF assms(1)])
  have 2: "those (map (\<lambda>e. load_line rd (et_json tx (entity_line tx e))) es) = Some (map Loaded_Entity es)"
    by (intro those_Some_map load_lines_printed[OF assms(1)])
  have 3: "those (map (\<lambda>f. load_line rd (et_json tx (fact_line tx f))) fs) = Some (map Loaded_Fact fs)"
    using fs by (intro those_Some_map load_lines_printed[OF assms(1)]) blast
  have "load_export rd (wt_out w') = Some (Skipped # map Loaded_Item its @ map Loaded_Entity es @ map Loaded_Fact fs)"
    using those_append[OF 1 those_append[OF 2 3]] load_lines_printed(1)[OF assms(1), of t]
    by (simp add: load_export_def lines comp_def)
  then show ?thesis using whole by blast
qed

section \<open>A printer with its parser\<close>

text \<open>For an example: numbers in unary, and a list by its length and its elements.\<close>

definition enc_nat :: "nat \<Rightarrow> string" where
  "enc_nat n = replicate n (CHR ''1'') @ ''0''"

fun dec_nat :: "string \<Rightarrow> (nat \<times> string) option" where
  "dec_nat [] = None"
| "dec_nat (c # r) = (if c = CHR ''0'' then Some (0, r) else map_option (apfst Suc) (dec_nat r))"

fun dec_many :: "(string \<Rightarrow> ('a \<times> string) option) \<Rightarrow> nat \<Rightarrow> string \<Rightarrow> ('a list \<times> string) option" where
  "dec_many d 0 r = Some ([], r)"
| "dec_many d (Suc n) r = d r \<bind> (\<lambda>(a, r'). map_option (apfst (Cons a)) (dec_many d n r'))"

definition enc_str :: "string \<Rightarrow> string" where
  "enc_str s = enc_nat (length s) @ concat (map (\<lambda>c. enc_nat (of_char c)) s)"

definition dec_str :: "string \<Rightarrow> (string \<times> string) option" where
  "dec_str r = dec_nat r \<bind> (\<lambda>(n, r'). dec_many (\<lambda>q. map_option (apfst char_of) (dec_nat q)) n r')"

fun enc_json :: "json \<Rightarrow> string" where
  "enc_json JNull = enc_nat 0"
| "enc_json (JBool b) = enc_nat (if b then 1 else 2)"
| "enc_json (JNumber n) = enc_nat (if 0 \<le> n then 3 else 4) @ enc_nat (nat \<bar>n\<bar>)"
| "enc_json (JFloat f) = enc_nat 8 @ enc_nat (unat f)"
| "enc_json (JString s) = enc_nat 5 @ enc_str s"
| "enc_json (JArray vs) = enc_nat 6 @ enc_nat (length vs) @ concat (map enc_json vs)"
| "enc_json (JObject m) = enc_nat 7 @ enc_nat (length m) @ concat (map (\<lambda>p. enc_str (fst p) @ enc_json (snd p)) m)"

fun dec_json :: "nat \<Rightarrow> string \<Rightarrow> (json \<times> string) option" where
  "dec_json 0 r = None"
| "dec_json (Suc k) r = dec_nat r \<bind> (\<lambda>(t, r').
     if t = 0 then Some (JNull, r') else if t = 1 then Some (JBool True, r') else if t = 2 then Some (JBool False, r')
     else if t = 3 then map_option (apfst (\<lambda>n. JNumber (int n))) (dec_nat r')
     else if t = 4 then map_option (apfst (\<lambda>n. JNumber (- int n))) (dec_nat r')
     else if t = 8 then map_option (apfst (\<lambda>n. JFloat (of_nat n))) (dec_nat r')
     else if t = 5 then map_option (apfst JString) (dec_str r')
     else dec_nat r' \<bind> (\<lambda>(n, q).
       if t = 6 then map_option (apfst JArray) (dec_many (dec_json k) n q)
       else map_option (apfst JObject) (dec_many (\<lambda>u. dec_str u \<bind> (\<lambda>(key, u').
              map_option (apfst (Pair key)) (dec_json k u'))) n q)))"

lemma dec_enc_nat [simp]: "dec_nat (enc_nat n @ r) = Some (n, r)"
  by (induction n) (simp_all add: enc_nat_def)

lemma dec_enc_many:
  "(\<And>a r. a \<in> set as \<Longrightarrow> d (e a @ r) = Some (a, r)) \<Longrightarrow> dec_many d (length as) (concat (map e as) @ r) = Some (as, r)"
  by (induction as) simp_all

lemma dec_enc_str [simp]: "dec_str (enc_str s @ r) = Some (s, r)"
  using dec_enc_many[of s "\<lambda>q. map_option (apfst char_of) (dec_nat q)" "\<lambda>c. enc_nat (of_char c)" r]
  by (simp add: dec_str_def enc_str_def)

fun json_depth :: "json \<Rightarrow> nat" where
  "json_depth (JArray vs) = Suc (sum_list (map json_depth vs))"
| "json_depth (JObject m) = Suc (sum_list (map (\<lambda>p. json_depth (snd p)) m))"
| "json_depth _ = 1"

lemma sum_list_le_length:
  "(\<And>a. a \<in> set xs \<Longrightarrow> f a \<le> length (g a)) \<Longrightarrow> sum_list (map f xs) \<le> length (concat (map g xs))"
  by (induction xs) fastforce+

lemma json_depth_length: "json_depth j \<le> length (enc_json j)"
proof (induction j rule: enc_json.induct)
  case (6 vs)
  from sum_list_le_length[of vs json_depth enc_json, OF 6] show ?case by (simp add: enc_nat_def)
next
  case (7 m)
  have "json_depth (snd p) \<le> length (enc_str (fst p) @ enc_json (snd p))" if "p \<in> set m" for p
    using 7[OF that] by simp
  from sum_list_le_length[of m "\<lambda>p. json_depth (snd p)" "\<lambda>p. enc_str (fst p) @ enc_json (snd p)", OF this]
  show ?case by (simp add: enc_nat_def)
qed (simp_all add: enc_nat_def)

lemma dec_enc_json: "json_depth j \<le> k \<Longrightarrow> dec_json k (enc_json j @ r) = Some (j, r)"
proof (induction j arbitrary: k r rule: enc_json.induct)
  case (6 vs)
  then obtain k' where k: "k = Suc k'" by (cases k) auto
  have "json_depth v \<le> k'" if "v \<in> set vs" for v
    using 6(2) k member_le_sum_list[of "json_depth v" "map json_depth vs"] that by auto
  with 6(1) have "dec_json k' (enc_json v @ q) = Some (v, q)" if "v \<in> set vs" for v q using that by blast
  from dec_enc_many[of vs "dec_json k'" enc_json, OF this] show ?case by (simp add: k)
next
  case (7 m)
  then obtain k' where k: "k = Suc k'" by (cases k) auto
  have "json_depth (snd p) \<le> k'" if "p \<in> set m" for p
    using 7(2) k member_le_sum_list[of "json_depth (snd p)" "map (\<lambda>p. json_depth (snd p)) m"] that by auto
  with 7(1) have "dec_json k' (enc_json (snd p) @ q) = Some (snd p, q)" if "p \<in> set m" for p q using that by blast
  then have "dec_str ((enc_str (fst p) @ enc_json (snd p)) @ q) \<bind> (\<lambda>(key, u').
      map_option (apfst (Pair key)) (dec_json k' u')) = Some (p, q)" if "p \<in> set m" for p q using that by simp
  from dec_enc_many[of m "\<lambda>u. dec_str u \<bind> (\<lambda>(key, u'). map_option (apfst (Pair key)) (dec_json k' u'))"
      "\<lambda>p. enc_str (fst p) @ enc_json (snd p)", OF this]
  show ?case by (simp add: k)
next
  case (1 k r) then show ?case by (cases k) simp_all
next
  case (2 b k r) then show ?case by (cases k) simp_all
next
  case (3 n k r) then show ?case by (cases k) simp_all
next
  case (5 t k r) then show ?case by (cases k) simp_all
next
  case (4 f k r) then show ?case by (cases k) simp_all
qed

definition whole_json :: "string \<Rightarrow> json option" where
  "whole_json s = map_option fst (dec_json (length s) s)"

lemma whole_json: "whole_json (enc_json j) = Some j"
  using dec_enc_json[OF json_depth_length[of j], of "[]"] by (simp add: whole_json_def)

lemma enc_json_chars: "set (enc_json j) \<subseteq> {CHR ''0'', CHR ''1''}"
  by (induction j rule: enc_json.induct) (fastforce simp: enc_nat_def enc_str_def split: if_splits)+

definition sample_export_text :: export_text where
  "sample_export_text =
    \<lparr>et_printing = \<lparr>debug_str = (\<lambda>q. q), show_score = (\<lambda>q. []), show_id = (\<lambda>i. enc_nat (unat i)),
       show_time = unary_time\<rparr>,
     et_json = enc_json, et_float = (\<lambda>f. JNumber (uint f))\<rparr>"

definition sample_load_text :: load_text where
  "sample_load_text =
    \<lparr>lt_json = whole_json, lt_float = (\<lambda>j. case j of JNumber n \<Rightarrow> Some (word_of_int n) | _ \<Rightarrow> None),
     lt_id = (\<lambda>q. case dec_nat q of None \<Rightarrow> Inl q | Some (n, r) \<Rightarrow> Inr (of_nat n)),
     lt_time = time_of_unary\<rparr>"

lemma sample_export_laws: "export_laws sample_export_text sample_load_text"
proof -
  have "nl \<notin> set (enc_json j)" for j using enc_json_chars[of j] by (auto simp: nl_def)
  moreover have "dec_nat (enc_nat n) = Some (n, [])" for n using dec_enc_nat[of n "[]"] by simp
  ultimately show ?thesis
    by (simp add: export_laws_def sample_export_text_def sample_load_text_def whole_json)
qed

definition sample_writer :: writer where
  "sample_writer = \<lparr>wt_out = [], wt_calls = []\<rparr>"

lemma export_sample:
  "\<exists>s' w'. export sample_export_text (sample_store_1, sample_writer) = (Inr (), s', w')"
proof -
  let ?s = "sample_store_1\<lparr>ticks := Suc (ticks sample_store_1)\<rparr>"
  have [simp]: "faults ?s = []" "db ?s = db sample_store_1" "ext ?s = sample_ext" by simp_all
  have at: "item_at sample_ext (db sample_store_1) 48 = Some sample_stored" by (simp add: item_at_add fits_sample)
  have ids: "list_all_items ?s = (Inr [48], ?s)"
    unfolding list_all_items_def
    by (simp add: list_by_tags_scoped_no_faults selected_rows_def sample_1_tables has_tags_def in_filter_def)
  have g: "get 48 ?s = (Inr sample_stored, ?s)" using at by (simp add: get_no_faults)
  have none: "entities empty_db = []" "facts empty_db = []" by (simp_all add: empty_db_def)
  have ents: "list_entities None None ?s = (Inr [], ?s)"
    by (simp add: list_entities_def bindM_def gets_def run_query_no_faults lift_def none)
  have fs: "all_facts_chronological ?s = (Inr [], ?s)"
    by (simp add: all_facts_chronological_def select_facts_def bindM_def gets_def run_query_no_faults lift_def none
        fact_select_def by_record_def map_filter_simps)
  show ?thesis
    by (simp add: export_def ebind_def reading_op_def now_def ids g ents fs write_json_line_def writing_bytes_def
        put_def sample_writer_def by_creation_def ret_def)
qed

theorem export_round_trip_witness:
  "\<exists>s' w' its es fs. export sample_export_text (sample_store_1, sample_writer) = (Inr (), s', w') \<and>
     whole_store sample_ext (db sample_store_1) its es fs \<and>
     load_export sample_load_text (wt_out w') =
       Some (Skipped # map Loaded_Item its @ map Loaded_Entity es @ map Loaded_Fact fs)"
proof -
  obtain s' w' where run: "export sample_export_text (sample_store_1, sample_writer) = (Inr (), s', w')"
    using export_sample by blast
  have "wf_graph (db sample_store_1)"
    by (simp add: wf_graph_def wf_entities_def open_head_def map_filter_simps) (simp add: empty_db_def map_filter_simps)
  moreover have "\<forall>r \<in> set (items (db sample_store_1)). json_value (r_metadata r)"
    by (simp add: sample_1_tables) (simp add: row_of_item_def sample_stored_def default_metadata_def)
  moreover have "wt_out sample_writer = []" by (simp add: sample_writer_def)
  ultimately show ?thesis
    using export_round_trip[OF sample_export_laws wf_sample_1, of sample_writer s' w'] run scans_sample by auto
qed

end
