(* ===== verification/Node_Types.thy ===== *)
theory Node_Types
  imports Mcp_Tools
begin

text \<open>
  The values that cross the boundary of the Node binding: \<open>singularmem-node/src/types.rs\<close>,
  \<open>error.rs\<close> and the contexts of \<open>adapters.rs\<close>. napi's conversion between JavaScript objects and
  these records is not part of the repository.
\<close>

section \<open>Numbers and texts\<close>

text \<open>
  \<open>Display\<close> and \<open>FromStr\<close> of ids and times, the two conversions between \<open>f32\<close> and \<open>f64\<close> bit
  patterns, and \<open>jiff\<close>'s \<open>Timestamp::from_millisecond\<close>, which fails outside its range. A score is the
  rational it denotes, so \<open>f64::from\<close> keeps it and \<open>as f32\<close> rounds it; a JavaScript date is a number of
  milliseconds.
\<close>

record node_text =
  nt_printing :: printing
  nt_parse_id :: "string \<Rightarrow> string + ulid"
  nt_f64 :: "f32 \<Rightarrow> 64 word"
  nt_f32 :: "64 word \<Rightarrow> f32"
  nt_from_millisecond :: "int \<Rightarrow> timestamp option"

text \<open>\<open>u32::try_from(n).unwrap_or(u32::MAX)\<close>, and \<open>n as u32\<close>, which wraps.\<close>

definition u32_saturating :: "nat \<Rightarrow> 32 word" where
  "u32_saturating n = (if n < 2 ^ 32 then of_nat n else - 1)"

definition as_u32 :: "nat \<Rightarrow> 32 word" where
  "as_u32 n = of_nat n"

text \<open>\<open>x as i64\<close> for a finite \<open>f64\<close>: towards zero, saturating at the ends of the range.\<close>

definition as_i64 :: "rat \<Rightarrow> int" where
  "as_i64 r = (let n = (if 0 \<le> r then \<lfloor>r\<rfloor> else \<lceil>r\<rceil>) in max (- (2 ^ 63)) (min n (2 ^ 63 - 1)))"

section \<open>Errors\<close>

text \<open>
  A \<open>napi::Error<&'static str>\<close>: the code JavaScript sees, and what its message was made from.
\<close>

datatype node_cause =
    Core_Cause error
  | Search_Cause search_error
  | Query_Empty
  | Path_Invalid string
  | Mode_Unknown string
  | Unknown_Failure string

record coded =
  cd_code :: string
  cd_cause :: node_cause

fun core_code :: "error \<Rightarrow> string" where
  "core_code (Validation f r) = ''Validation''"
| "core_code (SupersedesNotFound i) = ''SupersedesNotFound''"
| "core_code (NotFound i) = ''NotFound''"
| "core_code (FactNotFound a b c) = ''FactNotFound''"
| "core_code (FactIdNotFound i) = ''FactIdNotFound''"
| "core_code (AmbiguousFactRevision ids) = ''AmbiguousFactRevision''"
| "core_code (AmbiguousLatest ids) = ''AmbiguousLatest''"
| "core_code (UnsupportedFormatVersion a b) = ''UnsupportedFormatVersion''"
| "core_code (Migration a b c) = ''Migration''"
| "core_code (ExternalIdConflict e) = ''ExternalIdConflict''"
| "core_code (ReadOnly a) = ''ReadOnly''"
| "core_code (InvalidId e) = ''InvalidId''"
| "core_code (Sqlite c) = ''Sqlite''"
| "core_code (IoError e) = ''Io''"
| "core_code (JsonError c) = ''Json''"

definition from_core_error :: "error \<Rightarrow> coded" where
  "from_core_error e = \<lparr>cd_code = core_code e, cd_cause = Core_Cause e\<rparr>"

text \<open>A panic is not an error of the enum and has no code.\<close>

fun search_code :: "search_error \<Rightarrow> string" where
  "search_code (Tantivy c) = ''Tantivy''"
| "search_code (Query_Parse m) = ''QueryParse''"
| "search_code (Index_Missing p) = ''IndexMissing''"
| "search_code (Index_Corrupted p r) = ''IndexCorrupted''"
| "search_code (Index_Schema_Mismatch p) = ''IndexSchemaMismatch''"
| "search_code Scope_Lookup_Missing = ''ScopeLookupMissing''"
| "search_code (Search_Io e) = ''Io''"
| "search_code (Embedding c r) = ''Embedding''"
| "search_code (Model_Download m r) = ''ModelDownload''"
| "search_code (Invalid_Model_Files p r) = ''InvalidModelFiles''"
| "search_code (Dim_Mismatch a b) = ''DimMismatch''"
| "search_code (Model_Mismatch p a b) = ''ModelMismatch''"
| "search_code (Usearch c r) = ''Usearch''"
| "search_code No_Indexes = ''NoIndexes''"
| "search_code (Hybrid_Missing_Index m p) = ''HybridMissingIndex''"
| "search_code (Panic m) = []"

definition from_search_error :: "search_error \<Rightarrow> coded" where
  "from_search_error e = \<lparr>cd_code = search_code e, cd_cause = Search_Cause e\<rparr>"

fun from_retrieve_error :: "retrieve_error \<Rightarrow> coded" where
  "from_retrieve_error Empty_Query = \<lparr>cd_code = ''EmptyQuery'', cd_cause = Query_Empty\<rparr>"
| "from_retrieve_error (Search_Error e) = from_search_error e"
| "from_retrieve_error (Core_Error e) = from_core_error e"

definition invalid_store_path :: "string \<Rightarrow> coded" where
  "invalid_store_path p = \<lparr>cd_code = ''InvalidStorePath'', cd_cause = Path_Invalid p\<rparr>"

text \<open>\<open>ItemId::from_str\<close> and \<open>FactId::from_str\<close> with the error a task rejects with.\<close>

definition parsed_id :: "node_text \<Rightarrow> string \<Rightarrow> coded + ulid" where
  "parsed_id tx s = map_sum (\<lambda>e. from_core_error (InvalidId e)) id (nt_parse_id tx s)"

section \<open>Items\<close>

definition score_kind_to_str :: "score_kind \<Rightarrow> string" where
  "score_kind_to_str k = (case k of Rrf \<Rightarrow> ''rrf'' | Bm25 \<Rightarrow> ''bm25'' | Cosine \<Rightarrow> ''cosine'')"

record js_item =
  ji_id :: string
  ji_content :: string
  ji_created_at :: rat
  ji_supersedes :: "string option"
  ji_tags :: "string list"
  ji_source :: "string option"
  ji_metadata :: json
  ji_external_id :: "string option"
  ji_scope :: "string option"

text \<open>Times of the store lie within \<open>2 ^ 53\<close> milliseconds, so the cast to \<open>f64\<close> is exact.\<close>

definition js_time :: "externals \<Rightarrow> timestamp \<Rightarrow> rat" where
  "js_time x t = of_int (as_millisecond x t)"

definition item_to_js :: "node_text \<Rightarrow> externals \<Rightarrow> item \<Rightarrow> js_item" where
  "item_to_js tx x it =
    \<lparr>ji_id = show_id (nt_printing tx) (item_id it), ji_content = content it,
     ji_created_at = js_time x (created_at it),
     ji_supersedes = map_option (show_id (nt_printing tx)) (supersedes it),
     ji_tags = tags it, ji_source = source it, ji_metadata = metadata it,
     ji_external_id = external_id it, ji_scope = scope it\<rparr>"

record js_hit =
  jh_item :: js_item
  jh_score :: rat
  jh_kind :: string
  jh_lexical_rank :: "32 word option"
  jh_semantic_rank :: "32 word option"

record js_results =
  jr_query :: string
  jr_hits :: "js_hit list"

definition hit_from_parts :: "node_text \<Rightarrow> externals \<Rightarrow> hybrid_hit \<times> item \<Rightarrow> js_hit" where
  "hit_from_parts tx x p = (case p of (h, it) \<Rightarrow>
    \<lparr>jh_item = item_to_js tx x it, jh_score = hh_score h, jh_kind = score_kind_to_str (hh_kind h),
     jh_lexical_rank = map_option as_u32 (hh_lexical_rank h),
     jh_semantic_rank = map_option as_u32 (hh_semantic_rank h)\<rparr>)"

record js_block =
  jb_id :: string
  jb_content :: string
  jb_score :: rat
  jb_kind :: string
  jb_source :: "string option"
  jb_tags :: "string list"
  jb_created_at :: rat
  jb_scope :: "string option"

record js_context =
  jc_query :: string
  jc_blocks :: "js_block list"

definition block_to_js :: "node_text \<Rightarrow> externals \<Rightarrow> memory_block \<Rightarrow> js_block" where
  "block_to_js tx x b =
    \<lparr>jb_id = show_id (nt_printing tx) (mb_id b), jb_content = mb_content b, jb_score = mb_score b,
     jb_kind = score_kind_to_str (mb_score_kind b), jb_source = mb_source b, jb_tags = mb_tags b,
     jb_created_at = js_time x (mb_created_at b), jb_scope = mb_scope b\<rparr>"

definition context_to_js :: "node_text \<Rightarrow> externals \<Rightarrow> retrieved_context \<Rightarrow> js_context" where
  "context_to_js tx x ctx =
    \<lparr>jc_query = rc_query ctx, jc_blocks = map (block_to_js tx x) (rc_blocks ctx)\<rparr>"

record js_new_item =
  jn_content :: string
  jn_supersedes :: "string option"
  jn_tags :: "string list option"
  jn_source :: "string option"
  jn_metadata :: "json option"
  jn_scope :: "string option"

text \<open>An id option of JavaScript: absent and empty are the same.\<close>

definition optional_id :: "node_text \<Rightarrow> string option \<Rightarrow> coded + ulid option" where
  "optional_id tx raw = (case raw of
     None \<Rightarrow> Inr None | Some s \<Rightarrow> if s = [] then Inr None else map_sum id Some (parsed_id tx s))"

definition js_new_item_to_core :: "node_text \<Rightarrow> js_new_item \<Rightarrow> coded + new_item" where
  "js_new_item_to_core tx a = map_sum id (\<lambda>sup_id.
    \<lparr>n_content = jn_content a, n_supersedes = sup_id,
     n_tags = (case jn_tags a of None \<Rightarrow> [] | Some ts \<Rightarrow> ts), n_source = jn_source a,
     n_metadata = (case jn_metadata a of None \<Rightarrow> JObject [] | Some m \<Rightarrow> m),
     n_external_id = None, n_scope = jn_scope a\<rparr>) (optional_id tx (jn_supersedes a))"

record js_scope_count =
  jsc_path :: string
  jsc_count :: "32 word"

definition scope_count_to_js :: "string \<times> nat \<Rightarrow> js_scope_count" where
  "scope_count_to_js p = \<lparr>jsc_path = fst p, jsc_count = u32_saturating (snd p)\<rparr>"

section \<open>The graph\<close>

record js_entity_ref =
  je_id :: string
  je_name :: string

record js_fact_object =
  jo_entity :: "js_entity_ref option"
  jo_value :: "string option"

record js_fact =
  jf_id :: string
  jf_subject :: js_entity_ref
  jf_predicate :: string
  jf_object :: js_fact_object
  jf_valid_from :: "string option"
  jf_valid_to :: "string option"
  jf_confidence :: "64 word"
  jf_source_item_id :: "string option"
  jf_scope :: "string option"
  jf_supersedes :: "string option"
  jf_recorded_at :: string

definition entity_ref_to_js :: "node_text \<Rightarrow> entity_ref \<Rightarrow> js_entity_ref" where
  "entity_ref_to_js tx r = \<lparr>je_id = show_id (nt_printing tx) (er_id r), je_name = er_name r\<rparr>"

fun fact_object_to_js :: "node_text \<Rightarrow> fact_object \<Rightarrow> js_fact_object" where
  "fact_object_to_js tx (Entity_Object e) = \<lparr>jo_entity = Some (entity_ref_to_js tx e), jo_value = None\<rparr>"
| "fact_object_to_js tx (Value_Object v) = \<lparr>jo_entity = None, jo_value = Some v\<rparr>"

definition fact_to_js :: "node_text \<Rightarrow> fact \<Rightarrow> js_fact" where
  "fact_to_js tx f =
     (let pr = nt_printing tx in
      \<lparr>jf_id = show_id pr (fa_id f), jf_subject = entity_ref_to_js tx (fa_subject f),
       jf_predicate = fa_predicate f, jf_object = fact_object_to_js tx (fa_object f),
       jf_valid_from = map_option (show_time pr) (fa_valid_from f),
       jf_valid_to = map_option (show_time pr) (fa_valid_to f),
       jf_confidence = nt_f64 tx (fa_confidence f),
       jf_source_item_id = map_option (show_id pr) (fa_source_item_id f), jf_scope = fa_scope f,
       jf_supersedes = map_option (show_id pr) (fa_supersedes f),
       jf_recorded_at = show_time pr (fa_recorded_at f)\<rparr>)"

record js_new_fact =
  jw_subject :: string
  jw_predicate :: string
  jw_object :: string
  jw_object_is_value :: "bool option"
  jw_subject_kind :: "string option"
  jw_object_kind :: "string option"
  jw_valid_from :: "string option"
  jw_valid_to :: "string option"
  jw_confidence :: "64 word option"
  jw_source_item_id :: "string option"
  jw_scope :: "string option"

record graph_query_options =
  go_direction :: "string option"
  go_as_of :: "string option"
  go_recorded_at :: "string option"
  go_scope :: "string option"
  go_scope_exact :: "bool option"

record fact_change_options =
  fo_object_is_value :: "bool option"
  fo_at :: "string option"
  fo_scope :: "string option"

record graph_scope_options =
  so_scope :: "string option"
  so_scope_exact :: "bool option"

record entity_list_options =
  eo_kind :: "string option"
  eo_scope :: "string option"
  eo_scope_exact :: "bool option"

record js_timeline_entry =
  jt_fact :: js_fact
  jt_current :: bool

record js_stats =
  js_entities :: "32 word"
  js_open_facts :: "32 word"
  js_closed_facts :: "32 word"
  js_predicates :: "32 word"

record js_entity_summary =
  jy_id :: string
  jy_name :: string
  jy_kind :: "string option"
  jy_fact_count :: "32 word"

record js_supersede_result =
  jp_closed :: "js_fact option"
  jp_opened :: js_fact

definition timeline_entry_to_js :: "node_text \<Rightarrow> timeline_entry \<Rightarrow> js_timeline_entry" where
  "timeline_entry_to_js tx e = \<lparr>jt_fact = fact_to_js tx (tl_fact e), jt_current = tl_current e\<rparr>"

definition graph_stats_to_js :: "stats \<Rightarrow> js_stats" where
  "graph_stats_to_js g =
    \<lparr>js_entities = u32_saturating (gs_entities g), js_open_facts = u32_saturating (gs_open_facts g),
     js_closed_facts = u32_saturating (gs_closed_facts g), js_predicates = u32_saturating (gs_predicates g)\<rparr>"

definition entity_summary_to_js :: "node_text \<Rightarrow> entity \<times> nat \<Rightarrow> js_entity_summary" where
  "entity_summary_to_js tx p = (case p of (e, n) \<Rightarrow>
    \<lparr>jy_id = show_id (nt_printing tx) (en_id e), jy_name = en_name e, jy_kind = en_kind e,
     jy_fact_count = u32_saturating n\<rparr>)"

text \<open>The error of a time names the JavaScript option it came from.\<close>

definition parse_time :: "externals \<Rightarrow> string \<Rightarrow> string option \<Rightarrow> coded + timestamp option" where
  "parse_time x field raw = (case raw of
     None \<Rightarrow> Inr None
   | Some s \<Rightarrow> map_sum (\<lambda>e. from_core_error (case e of Validation f r \<Rightarrow> Validation field r | other \<Rightarrow> other)) Some
       (parse_point x s))"

definition direction_from :: "string option \<Rightarrow> coded + direction" where
  "direction_from raw = (case raw of
     None \<Rightarrow> Inr Both
   | Some d \<Rightarrow>
       if d = ''both'' then Inr Both else if d = ''outgoing'' then Inr Outgoing
       else if d = ''incoming'' then Inr Incoming
       else Inl (from_core_error (Validation ''direction'' (NotADirection d))))"

text \<open>\<open>scope_filter\<close> of \<open>store.rs\<close>.\<close>

definition node_scope_filter :: "string option \<Rightarrow> bool option \<Rightarrow> coded + scope_filter option" where
  "node_scope_filter sc ex = (case sc of
     None \<Rightarrow> Inr None
   | Some path \<Rightarrow> map_sum from_core_error Some
       (if ex = Some True then exact_filter path else descendants_filter path))"

definition graph_query_from :: "externals \<Rightarrow> graph_query_options \<Rightarrow> coded + graph_query" where
  "graph_query_from x a =
     rbind (node_scope_filter (go_scope a) (go_scope_exact a)) (\<lambda>sc.
     rbind (parse_time x ''asOf'' (go_as_of a)) (\<lambda>as_of.
     rbind (parse_time x ''recordedAt'' (go_recorded_at a)) (\<lambda>rec.
     rbind (direction_from (go_direction a)) (\<lambda>dir.
     Inr \<lparr>q_scope = sc, q_as_of = as_of, q_recorded_at = rec, q_direction = dir\<rparr>))))"

definition new_object_from :: "string \<Rightarrow> bool option \<Rightarrow> string option \<Rightarrow> new_object" where
  "new_object_from raw is_value kind = (if is_value = Some True then New_Value raw else New_Entity raw kind)"

definition change_object :: "string \<Rightarrow> bool option \<Rightarrow> new_object" where
  "change_object raw is_value = new_object_from raw is_value None"

definition new_fact_to_core :: "node_text \<Rightarrow> externals \<Rightarrow> js_new_fact \<Rightarrow> coded + new_fact" where
  "new_fact_to_core tx x a =
     rbind (optional_id tx (jw_source_item_id a)) (\<lambda>src.
     let conf = (case jw_confidence a of None \<Rightarrow> 0x3F800000 | Some c \<Rightarrow> nt_f32 tx c) in
     rbind (parse_time x ''validFrom'' (jw_valid_from a)) (\<lambda>vf.
     rbind (parse_time x ''validTo'' (jw_valid_to a)) (\<lambda>vt.
     Inr \<lparr>nf_subject = jw_subject a, nf_subject_kind = jw_subject_kind a, nf_predicate = jw_predicate a,
       nf_object = new_object_from (jw_object a) (jw_object_is_value a) (jw_object_kind a),
       nf_valid_from = vf, nf_valid_to = vt, nf_confidence = conf, nf_source_item_id = src,
       nf_scope = jw_scope a\<rparr>)))"

section \<open>Contexts handed back to the adapters\<close>

definition FALLBACK_ID :: string where
  "FALLBACK_ID = ''01HXAAAAAAAAAAAAAAAAAAAAA0''"

text \<open>
  \<open>napi_ctx_to_core\<close>. An id that does not parse becomes a fixed one, an unknown kind \<open>Rrf\<close>, a date
  out of range the current time, \<open>moments n\<close> for the \<open>n\<close>-th block.
\<close>

definition block_id_to_core :: "node_text \<Rightarrow> string \<Rightarrow> ulid" where
  "block_id_to_core tx s = (case nt_parse_id tx s of
     Inr i \<Rightarrow> i | Inl e \<Rightarrow> (case nt_parse_id tx FALLBACK_ID of Inr i \<Rightarrow> i | Inl e' \<Rightarrow> 0))"

definition score_kind_from_str :: "string \<Rightarrow> score_kind" where
  "score_kind_from_str s = (if s = ''bm25'' then Bm25 else if s = ''cosine'' then Cosine else Rrf)"

definition block_to_core :: "node_text \<Rightarrow> timestamp \<Rightarrow> js_block \<Rightarrow> memory_block" where
  "block_to_core tx moment b =
    \<lparr>mb_id = block_id_to_core tx (jb_id b), mb_content = jb_content b, mb_score = f32_round (jb_score b),
     mb_score_kind = score_kind_from_str (jb_kind b), mb_source = jb_source b, mb_tags = jb_tags b,
     mb_created_at = (case nt_from_millisecond tx (as_i64 (jb_created_at b)) of Some t \<Rightarrow> t | None \<Rightarrow> moment),
     mb_scope = jb_scope b\<rparr>"

definition napi_ctx_to_core :: "node_text \<Rightarrow> (nat \<Rightarrow> timestamp) \<Rightarrow> js_context \<Rightarrow> retrieved_context" where
  "napi_ctx_to_core tx moments ctx =
    \<lparr>rc_blocks = map (\<lambda>(n, b). block_to_core tx (moments n) b) (List.enumerate 0 (jc_blocks ctx)), rc_query = jc_query ctx, rc_total_considered = 0\<rparr>"

text \<open>The \<open>format\<close> methods of the four adapter classes, each with its \<open>name\<close>.\<close>

definition node_adapters :: "printing \<Rightarrow> (string \<times> adapter) list" where
  "node_adapters pr =
     [(''plain'', plain_format pr), (''claude'', claude_format), (''openai'', openai_format pr), (''gemini'', gemini_format pr)]"

definition js_format :: "node_text \<Rightarrow> (nat \<Rightarrow> timestamp) \<Rightarrow> adapter \<Rightarrow> js_context \<Rightarrow> string" where
  "js_format tx moments fmt ctx = fmt (napi_ctx_to_core tx moments ctx)"

end
