(* ===== verification/Node_Store.thy ===== *)
theory Node_Store
  imports Node_Types Store_History
begin

text \<open>
  The \<open>Store\<close> class of the Node binding (\<open>singularmem-node/src/store.rs\<close>, \<open>graph.rs\<close>, \<open>wakeup.rs\<close>).
  A method parses its arguments on the JavaScript thread and queues a task; the task runs one
  operation on a thread of the pool and settles the promise. A task is a function of the store the
  database holds when it runs; what the system answers it is the record \<open>mcp_env\<close> of \<open>Mcp_Tools\<close>.
\<close>

section \<open>Tasks\<close>

type_synonym 'a task = "store \<Rightarrow> (coded + 'a) \<times> store"

text \<open>
  The class instance: \<open>inner\<close> is a handle without hooks, opened once. Its connection has no state of
  its own, so a task on it sees a clock, random numbers and faults like those of a handle opened for it.
\<close>

record node_store =
  ns_path :: string
  ns_read_only :: bool

definition on_inner :: "mcp_env \<Rightarrow> node_store \<Rightarrow> store \<Rightarrow> store" where
  "on_inner en h s = other_handle (me_clock en) (me_rng en) None (ns_read_only h) (me_faults en) s"

definition inner :: "mcp_env \<Rightarrow> node_store \<Rightarrow> 'a op \<Rightarrow> 'a task" where
  "inner en h m s = apfst (map_sum from_core_error id) (m (on_inner en h s))"

text \<open>\<open>CoreStore::open_with_options\<close> or \<open>open_with_hooks\<close> on the path of the class, then one operation.\<close>

definition fresh :: "mcp_env \<Rightarrow> bool \<Rightarrow> index_hook option \<Rightarrow> 'a op \<Rightarrow> 'a task" where
  "fresh en ro hk m s =
     (case me_open_error en ro of
        Some e \<Rightarrow> (Inl (from_core_error e), s)
      | None \<Rightarrow> apfst (map_sum from_core_error id)
          (m (other_handle (me_clock en) (me_rng en) hk ro (me_faults en) s)))"

text \<open>
  The arguments and the \<open>pre_error\<close> of a task, exactly one of which is set, are one sum. \<open>compute\<close>
  short-circuits on the \<open>pre_error\<close> and leaves any other error in \<open>failed\<close>, \<open>reject_coded\<close> takes
  the \<open>pre_error\<close>, else \<open>failed\<close>, else an error that says nothing is known.
\<close>

definition pre_error :: "coded + 'x \<Rightarrow> coded option" where
  "pre_error parsed = (case parsed of Inl c \<Rightarrow> Some c | Inr _ \<Rightarrow> None)"

definition compute :: "coded + 'x \<Rightarrow> ('x \<Rightarrow> 'o task) \<Rightarrow> store \<Rightarrow> (coded option + 'o) \<times> store" where
  "compute parsed run s = (case parsed of
     Inl c \<Rightarrow> (Inl None, s) | Inr a \<Rightarrow> apfst (map_sum Some id) (run a s))"

definition unknown_error :: "string \<Rightarrow> coded" where
  "unknown_error opn = from_core_error (IoError (''unknown '' @ opn @ '' error''))"

definition reject_coded :: "coded \<Rightarrow> coded option \<Rightarrow> coded option \<Rightarrow> coded" where
  "reject_coded unknown pre failed = (case pre of
     Some c \<Rightarrow> c | None \<Rightarrow> (case failed of Some c \<Rightarrow> c | None \<Rightarrow> unknown))"

definition settle :: "coded \<Rightarrow> coded + 'x \<Rightarrow> ('x \<Rightarrow> 'o task) \<Rightarrow> ('o \<Rightarrow> 'j) \<Rightarrow> 'j task" where
  "settle unknown parsed run resolve s =
     apfst (map_sum (reject_coded unknown (pre_error parsed)) resolve) (compute parsed run s)"

text \<open>The same for an operation that walks a chain and might not return.\<close>

definition settle_walk ::
  "coded \<Rightarrow> coded + 'x \<Rightarrow> ('x \<Rightarrow> store \<Rightarrow> ((error + 'o) \<times> store) option) \<Rightarrow> ('o \<Rightarrow> 'j) \<Rightarrow>
     mcp_env \<Rightarrow> node_store \<Rightarrow> store \<Rightarrow> ((coded + 'j) \<times> store) option"
where
  "settle_walk unknown parsed walk resolve en h s =
     (case parsed of
        Inl c \<Rightarrow> Some (Inl (reject_coded unknown (Some c) None), s)
      | Inr a \<Rightarrow> map_option
          (apfst (map_sum (\<lambda>e. reject_coded unknown None (Some (from_core_error e))) resolve))
          (walk a (on_inner en h s)))"

section \<open>Opening\<close>

definition open_store_task :: "mcp_env \<Rightarrow> coded + string \<times> bool \<Rightarrow> node_store task" where
  "open_store_task en parsed =
     settle (unknown_error ''open'') parsed
       (\<lambda>(path, ro). fresh en ro None (ret \<lparr>ns_path = path, ns_read_only = ro\<rparr>)) id"

text \<open>\<open>Store.open\<close>; the option \<open>readOnly\<close> is absent with its object.\<close>

definition node_open :: "mcp_env \<Rightarrow> string \<Rightarrow> bool option \<Rightarrow> node_store task" where
  "node_open en path read_only_opt =
     open_store_task en
       (if path = [] then Inl (invalid_store_path path) else Inr (path, read_only_opt = Some True))"

section \<open>Reading items\<close>

definition get_task :: "node_text \<Rightarrow> externals \<Rightarrow> mcp_env \<Rightarrow> node_store \<Rightarrow> coded + ulid \<Rightarrow> js_item task" where
  "get_task tx x en h parsed =
     settle (unknown_error ''get'') parsed (\<lambda>i. inner en h (get i)) (item_to_js tx x)"

definition node_get :: "node_text \<Rightarrow> externals \<Rightarrow> mcp_env \<Rightarrow> node_store \<Rightarrow> string \<Rightarrow> js_item task" where
  "node_get tx x en h raw = get_task tx x en h (parsed_id tx raw)"

text \<open>\<open>ListTask\<close>: each item is read, pushed, and only then compared with the limit.\<close>

fun list_loop :: "nat option \<Rightarrow> ulid list \<Rightarrow> item list \<Rightarrow> item list op" where
  "list_loop lm [] acc = ret acc"
| "list_loop lm (i # pending) acc =
     bindM (get i) (\<lambda>it.
       if (case lm of None \<Rightarrow> False | Some n \<Rightarrow> n \<le> length (acc @ [it])) then ret (acc @ [it])
       else list_loop lm pending (acc @ [it]))"

definition list_task ::
  "node_text \<Rightarrow> externals \<Rightarrow> mcp_env \<Rightarrow> node_store \<Rightarrow> string list \<Rightarrow> nat option \<Rightarrow> coded + scope_filter option \<Rightarrow>
     js_item list task"
where
  "list_task tx x en h ts lm parsed =
     settle (unknown_error ''list'') parsed
       (\<lambda>f. inner en h (bindM (list_by_tags_scoped ts f) (\<lambda>ids. list_loop lm ids []))) (map (item_to_js tx x))"

record list_options =
  lp_tags :: "string list option"
  lp_limit :: "32 word option"
  lp_scope :: "string option"
  lp_scope_exact :: "bool option"

definition no_list_options :: list_options where
  "no_list_options = \<lparr>lp_tags = None, lp_limit = None, lp_scope = None, lp_scope_exact = None\<rparr>"

definition node_list :: "node_text \<Rightarrow> externals \<Rightarrow> mcp_env \<Rightarrow> node_store \<Rightarrow> list_options option \<Rightarrow> js_item list task" where
  "node_list tx x en h opts =
     (let a = (case opts of None \<Rightarrow> no_list_options | Some a \<Rightarrow> a) in
      list_task tx x en h (case lp_tags a of None \<Rightarrow> [] | Some ts \<Rightarrow> ts) (map_option unat (lp_limit a))
        (node_scope_filter (lp_scope a) (lp_scope_exact a)))"

text \<open>\<open>RevisionsTask\<close> reverses the walk of the core: oldest first.\<close>

definition revisions_task ::
  "node_text \<Rightarrow> externals \<Rightarrow> mcp_env \<Rightarrow> node_store \<Rightarrow> coded + ulid \<Rightarrow> store \<Rightarrow> ((coded + js_item list) \<times> store) option"
where
  "revisions_task tx x en h parsed =
     settle_walk (unknown_error ''revisions'') parsed revision_history
       (\<lambda>its. map (item_to_js tx x) (rev its)) en h"

definition node_revisions ::
  "node_text \<Rightarrow> externals \<Rightarrow> mcp_env \<Rightarrow> node_store \<Rightarrow> string \<Rightarrow> store \<Rightarrow> ((coded + js_item list) \<times> store) option"
where
  "node_revisions tx x en h raw = revisions_task tx x en h (parsed_id tx raw)"

definition scopes_task :: "mcp_env \<Rightarrow> node_store \<Rightarrow> js_scope_count list task" where
  "scopes_task en h =
     settle (unknown_error ''scopes'') (Inr ()) (\<lambda>_. inner en h scopes) (map scope_count_to_js)"

section \<open>Searching\<close>

datatype search_mode = Mode_Auto | Mode_Lexical | Mode_Semantic | Mode_Hybrid

definition search_mode_from :: "string option \<Rightarrow> coded + search_mode" where
  "search_mode_from raw =
     (let m = (case raw of None \<Rightarrow> ''auto'' | Some m \<Rightarrow> m) in
      if m = ''auto'' then Inr Mode_Auto else if m = ''lexical'' then Inr Mode_Lexical
      else if m = ''semantic'' then Inr Mode_Semantic else if m = ''hybrid'' then Inr Mode_Hybrid
      else Inl \<lparr>cd_code = ''Validation'', cd_cause = Mode_Unknown m\<rparr>)"

text \<open>\<open>open_sidecars\<close>: an index that is absent, or that cannot be opened, is left out.\<close>

definition open_sidecars ::
  "mcp_env \<Rightarrow> string \<Rightarrow> (lexical \<times> index_hook) option \<times> (semantic \<times> index_hook) option"
where
  "open_sidecars en path =
     (let lex = derive_index_path path; vec = derive_vectors_path path
      in ((if me_exists en lex then (case me_lexical en lex of Inl e \<Rightarrow> None | Inr p \<Rightarrow> Some p) else None),
          (if me_exists en vec
           then (case me_embedder_error en of
                   Some e \<Rightarrow> None
                 | None \<Rightarrow> (case me_semantic en vec of Inl e \<Rightarrow> None | Inr p \<Rightarrow> Some p))
           else None)))"

definition searcher_over :: "lexical option \<Rightarrow> semantic option \<Rightarrow> searcher" where
  "searcher_over l v = \<lparr>lexical = l, semantic = v, lookup = None\<rparr>"

definition build_searcher :: "search_mode \<Rightarrow> lexical option \<Rightarrow> semantic option \<Rightarrow> string \<Rightarrow> coded + searcher" where
  "build_searcher mode l v path =
     (let missing = (\<lambda>e. Inl (from_search_error e)) in
      case mode of
        Mode_Lexical \<Rightarrow> (case l of
            None \<Rightarrow> missing (Index_Missing (derive_index_path path)) | Some t \<Rightarrow> Inr (searcher_over (Some t) None))
      | Mode_Semantic \<Rightarrow> (case v of
            None \<Rightarrow> missing (Index_Missing (derive_vectors_path path)) | Some u \<Rightarrow> Inr (searcher_over None (Some u)))
      | Mode_Hybrid \<Rightarrow> (case l of
            None \<Rightarrow> missing (Hybrid_Missing_Index ''lexical'' (derive_index_path path))
          | Some t \<Rightarrow> (case v of
                None \<Rightarrow> missing (Hybrid_Missing_Index ''semantic'' (derive_vectors_path path))
              | Some u \<Rightarrow> Inr (searcher_over (Some t) (Some u))))
      | Mode_Auto \<Rightarrow> (if l = None \<and> v = None then missing No_Indexes else Inr (searcher_over l v)))"

definition sidecar_searcher :: "mcp_env \<Rightarrow> string \<Rightarrow> search_mode \<Rightarrow> coded + searcher" where
  "sidecar_searcher en path mode =
     (let (l, v) = open_sidecars en path in build_searcher mode (map_option fst l) (map_option fst v) path)"

record search_request =
  sq_query :: string
  sq_mode :: search_mode
  sq_limit :: nat
  sq_fetch_multiplier :: nat
  sq_rrf_k :: nat
  sq_min_score :: rat
  sq_scope :: "scope_filter option"

definition hybrid_options_of :: "search_request \<Rightarrow> scope_filter option \<Rightarrow> hybrid_options" where
  "hybrid_options_of rq f =
    \<lparr>limit = sq_limit rq, fetch_multiplier = sq_fetch_multiplier rq, rrf_k = sq_rrf_k rq,
     include_snippets = False, hy_scope = f\<rparr>"

definition hit_with_item :: "hybrid_hit \<Rightarrow> (hybrid_hit \<times> item) op" where
  "hit_with_item hit = bindM (get (hh_id hit)) (\<lambda>it. ret (hit, it))"

definition run_search :: "mcp_env \<Rightarrow> node_store \<Rightarrow> search_request \<Rightarrow> (string \<times> (hybrid_hit \<times> item) list) task" where
  "run_search en h rq s =
     (case sidecar_searcher en (ns_path h) (sq_mode rq) of
        Inl c \<Rightarrow> (Inl c, s)
      | Inr sr \<Rightarrow>
          let t = on_inner en h s;
              used = (if sq_scope rq \<noteq> None then sr\<lparr>lookup := Some (store_lookup t)\<rparr> else sr)
          in case search used (sq_query rq) (hybrid_options_of rq (sq_scope rq)) of
               Inl e \<Rightarrow> (Inl (from_search_error e), s)
             | Inr res \<Rightarrow> apfst (map_sum from_core_error (\<lambda>ps. (sq_query rq, ps))) (mapM hit_with_item (hr_hits res) t))"

definition generic_failure :: "string \<Rightarrow> coded" where
  "generic_failure m = \<lparr>cd_code = ''GenericFailure'', cd_cause = Unknown_Failure m\<rparr>"

definition search_task ::
  "node_text \<Rightarrow> externals \<Rightarrow> mcp_env \<Rightarrow> node_store \<Rightarrow> coded + search_request \<Rightarrow> js_results task"
where
  "search_task tx x en h parsed =
     settle (generic_failure ''unknown search error'') parsed (run_search en h)
       (\<lambda>(q, ps). \<lparr>jr_query = q, jr_hits = map (hit_from_parts tx x) ps\<rparr>)"

record search_options =
  sp_mode :: "string option"
  sp_limit :: "32 word option"
  sp_fetch_multiplier :: "32 word option"
  sp_rrf_k :: "32 word option"
  sp_min_score :: "rat option"
  sp_scope :: "string option"
  sp_scope_exact :: "bool option"

definition no_search_options :: search_options where
  "no_search_options = \<lparr>sp_mode = None, sp_limit = None, sp_fetch_multiplier = None, sp_rrf_k = None,
     sp_min_score = None, sp_scope = None, sp_scope_exact = None\<rparr>"

definition u32_or :: "nat \<Rightarrow> 32 word option \<Rightarrow> nat" where
  "u32_or d v = (case v of None \<Rightarrow> d | Some w \<Rightarrow> unat w)"

text \<open>
  The argument handling that \<open>search\<close> and \<open>retrieve\<close> share: both errors are looked for, an unknown
  mode is reported before a bad scope. \<open>search\<close> has no minimal score.
\<close>

definition search_request_of :: "string \<Rightarrow> search_options option \<Rightarrow> coded + search_request" where
  "search_request_of q opts =
     (let a = (case opts of None \<Rightarrow> no_search_options | Some a \<Rightarrow> a) in
      case (search_mode_from (sp_mode a), node_scope_filter (sp_scope a) (sp_scope_exact a)) of
        (Inl c, _) \<Rightarrow> Inl c
      | (Inr mode, Inl c) \<Rightarrow> Inl c
      | (Inr mode, Inr f) \<Rightarrow> Inr
          \<lparr>sq_query = q, sq_mode = mode, sq_limit = u32_or 10 (sp_limit a),
           sq_fetch_multiplier = u32_or 3 (sp_fetch_multiplier a), sq_rrf_k = u32_or 60 (sp_rrf_k a),
           sq_min_score = f32_round (case sp_min_score a of None \<Rightarrow> 0 | Some m \<Rightarrow> m), sq_scope = f\<rparr>)"

definition node_search ::
  "node_text \<Rightarrow> externals \<Rightarrow> mcp_env \<Rightarrow> node_store \<Rightarrow> string \<Rightarrow> search_options option \<Rightarrow> js_results task"
where
  "node_search tx x en h q opts = search_task tx x en h (search_request_of q opts)"

definition run_retrieve :: "mcp_env \<Rightarrow> node_store \<Rightarrow> search_request \<Rightarrow> retrieved_context task" where
  "run_retrieve en h rq s =
     (case sidecar_searcher en (ns_path h) (sq_mode rq) of
        Inl c \<Rightarrow> (Inl c, s)
      | Inr sr \<Rightarrow> apfst (map_sum from_retrieve_error id)
          (retrieve sr (sq_query rq)
            \<lparr>max_blocks = sq_limit rq, min_score = sq_min_score rq, ro_search = hybrid_options_of rq None,
             ro_scope = sq_scope rq\<rparr> (on_inner en h s)))"

definition retrieve_task ::
  "node_text \<Rightarrow> externals \<Rightarrow> mcp_env \<Rightarrow> node_store \<Rightarrow> coded + search_request \<Rightarrow> js_context task"
where
  "retrieve_task tx x en h parsed =
     settle (generic_failure ''unknown retrieve error'') parsed (run_retrieve en h) (context_to_js tx x)"

definition node_retrieve ::
  "node_text \<Rightarrow> externals \<Rightarrow> mcp_env \<Rightarrow> node_store \<Rightarrow> string \<Rightarrow> search_options option \<Rightarrow> js_context task"
where
  "node_retrieve tx x en h q opts = retrieve_task tx x en h (search_request_of q opts)"

section \<open>Writing items\<close>

text \<open>
  \<open>run_ingest_with_hooks\<close>: a handle opened for this one item, with the indexes that can be opened as
  its hooks; a read-only class opens a read-only handle, which refuses.
\<close>

definition run_ingest_with_hooks :: "mcp_env \<Rightarrow> node_store \<Rightarrow> new_item \<Rightarrow> item task" where
  "run_ingest_with_hooks en h it =
     (if ns_read_only h then fresh en True None (ingest it)
      else let (l, v) = open_sidecars en (ns_path h);
               hs = (case l of None \<Rightarrow> [] | Some p \<Rightarrow> [snd p]) @ (case v of None \<Rightarrow> [] | Some p \<Rightarrow> [snd p])
           in fresh en False (hook_of hs) (ingest it))"

definition ingest_task :: "node_text \<Rightarrow> externals \<Rightarrow> mcp_env \<Rightarrow> node_store \<Rightarrow> coded + new_item \<Rightarrow> js_item task" where
  "ingest_task tx x en h parsed =
     settle (unknown_error ''ingest'') parsed (run_ingest_with_hooks en h) (item_to_js tx x)"

definition node_ingest :: "node_text \<Rightarrow> externals \<Rightarrow> mcp_env \<Rightarrow> node_store \<Rightarrow> js_new_item \<Rightarrow> js_item task" where
  "node_ingest tx x en h a = ingest_task tx x en h (js_new_item_to_core tx a)"

definition set_scope_task ::
  "node_text \<Rightarrow> externals \<Rightarrow> mcp_env \<Rightarrow> node_store \<Rightarrow> string option \<Rightarrow> coded + ulid \<Rightarrow> js_item task"
where
  "set_scope_task tx x en h sc parsed =
     settle (unknown_error ''set_scope'') parsed
       (\<lambda>i. fresh en (ns_read_only h) None (set_scope i sc)) (item_to_js tx x)"

definition node_set_scope ::
  "node_text \<Rightarrow> externals \<Rightarrow> mcp_env \<Rightarrow> node_store \<Rightarrow> string \<Rightarrow> string option \<Rightarrow> js_item task"
where
  "node_set_scope tx x en h raw sc = set_scope_task tx x en h sc (parsed_id tx raw)"

end
