(* ===== verification/Node_Graph.thy ===== *)
theory Node_Graph
  imports Node_Store
begin

text \<open>
  The graph methods and the wake-up of the Node binding: \<open>singularmem-node/src/graph.rs\<close> and
  \<open>wakeup.rs\<close>. Each task runs one operation of the core on the class's own handle.
\<close>

section \<open>Writing facts\<close>

definition add_fact_task :: "node_text \<Rightarrow> mcp_env \<Rightarrow> node_store \<Rightarrow> coded + new_fact \<Rightarrow> js_fact task" where
  "add_fact_task tx en h parsed =
     settle (unknown_error ''addFact'') parsed (\<lambda>f. inner en h (add_fact f)) (fact_to_js tx)"

definition node_add_fact :: "node_text \<Rightarrow> externals \<Rightarrow> mcp_env \<Rightarrow> node_store \<Rightarrow> js_new_fact \<Rightarrow> js_fact task" where
  "node_add_fact tx x en h a = add_fact_task tx en h (new_fact_to_core tx x a)"

definition no_change_options :: fact_change_options where
  "no_change_options = \<lparr>fo_object_is_value = None, fo_at = None, fo_scope = None\<rparr>"

definition invalidate_fact_task ::
  "node_text \<Rightarrow> mcp_env \<Rightarrow> node_store \<Rightarrow> triple_ref \<Rightarrow> coded + timestamp option \<Rightarrow> js_fact task"
where
  "invalidate_fact_task tx en h tr parsed =
     settle (unknown_error ''invalidateFact'') parsed (\<lambda>inst. inner en h (invalidate_fact tr inst)) (fact_to_js tx)"

definition change_ref :: "string \<Rightarrow> string \<Rightarrow> string \<Rightarrow> fact_change_options \<Rightarrow> triple_ref" where
  "change_ref subj pred obj a =
    \<lparr>tr_subject = subj, tr_predicate = pred, tr_object = change_object obj (fo_object_is_value a), tr_scope = fo_scope a\<rparr>"

definition node_invalidate_fact ::
  "node_text \<Rightarrow> externals \<Rightarrow> mcp_env \<Rightarrow> node_store \<Rightarrow> string \<Rightarrow> string \<Rightarrow> string \<Rightarrow> fact_change_options option \<Rightarrow> js_fact task"
where
  "node_invalidate_fact tx x en h subj pred obj opts =
     (let a = (case opts of None \<Rightarrow> no_change_options | Some a \<Rightarrow> a) in
      invalidate_fact_task tx en h (change_ref subj pred obj a) (parse_time x ''at'' (fo_at a)))"

definition supersede_result_to_js :: "node_text \<Rightarrow> fact option \<times> fact \<Rightarrow> js_supersede_result" where
  "supersede_result_to_js tx p = \<lparr>jp_closed = map_option (fact_to_js tx) (fst p), jp_opened = fact_to_js tx (snd p)\<rparr>"

definition supersede_fact_task ::
  "node_text \<Rightarrow> mcp_env \<Rightarrow> node_store \<Rightarrow> triple_ref \<Rightarrow> new_object \<Rightarrow> coded + timestamp option \<Rightarrow> js_supersede_result task"
where
  "supersede_fact_task tx en h tr new_obj parsed =
     settle (unknown_error ''supersedeFact'') parsed (\<lambda>inst. inner en h (supersede_fact tr new_obj inst))
       (supersede_result_to_js tx)"

definition node_supersede_fact ::
  "node_text \<Rightarrow> externals \<Rightarrow> mcp_env \<Rightarrow> node_store \<Rightarrow> string \<Rightarrow> string \<Rightarrow> string \<Rightarrow> string \<Rightarrow>
     fact_change_options option \<Rightarrow> js_supersede_result task"
where
  "node_supersede_fact tx x en h subj pred old_obj new_obj opts =
     (let a = (case opts of None \<Rightarrow> no_change_options | Some a \<Rightarrow> a) in
      supersede_fact_task tx en h (change_ref subj pred old_obj a)
        (change_object new_obj (fo_object_is_value a)) (parse_time x ''at'' (fo_at a)))"

section \<open>Reading facts\<close>

definition no_query_options :: graph_query_options where
  "no_query_options = \<lparr>go_direction = None, go_as_of = None, go_recorded_at = None, go_scope = None, go_scope_exact = None\<rparr>"

definition query_options_or :: "graph_query_options option \<Rightarrow> graph_query_options" where
  "query_options_or opts = (case opts of None \<Rightarrow> no_query_options | Some a \<Rightarrow> a)"

definition facts_to_js :: "node_text \<Rightarrow> fact list \<Rightarrow> js_fact list" where
  "facts_to_js tx fs = map (fact_to_js tx) fs"

definition query_entity_task ::
  "node_text \<Rightarrow> mcp_env \<Rightarrow> node_store \<Rightarrow> string \<Rightarrow> coded + graph_query \<Rightarrow> js_fact list task"
where
  "query_entity_task tx en h nm parsed =
     settle (unknown_error ''queryEntity'') parsed (\<lambda>q. inner en h (query_entity nm q)) (facts_to_js tx)"

definition node_query_entity ::
  "node_text \<Rightarrow> externals \<Rightarrow> mcp_env \<Rightarrow> node_store \<Rightarrow> string \<Rightarrow> graph_query_options option \<Rightarrow> js_fact list task"
where
  "node_query_entity tx x en h nm opts = query_entity_task tx en h nm (graph_query_from x (query_options_or opts))"

definition query_predicate_task ::
  "node_text \<Rightarrow> mcp_env \<Rightarrow> node_store \<Rightarrow> string \<Rightarrow> coded + graph_query \<Rightarrow> js_fact list task"
where
  "query_predicate_task tx en h p parsed =
     settle (unknown_error ''queryPredicate'') parsed (\<lambda>q. inner en h (query_predicate p q)) (facts_to_js tx)"

definition node_query_predicate ::
  "node_text \<Rightarrow> externals \<Rightarrow> mcp_env \<Rightarrow> node_store \<Rightarrow> string \<Rightarrow> graph_query_options option \<Rightarrow> js_fact list task"
where
  "node_query_predicate tx x en h p opts = query_predicate_task tx en h p (graph_query_from x (query_options_or opts))"

definition scope_options_filter :: "graph_scope_options option \<Rightarrow> coded + scope_filter option" where
  "scope_options_filter opts = (case opts of
     None \<Rightarrow> node_scope_filter None None | Some a \<Rightarrow> node_scope_filter (so_scope a) (so_scope_exact a))"

definition timeline_task ::
  "node_text \<Rightarrow> mcp_env \<Rightarrow> node_store \<Rightarrow> string option \<Rightarrow> coded + scope_filter option \<Rightarrow> js_timeline_entry list task"
where
  "timeline_task tx en h ent parsed =
     settle (unknown_error ''timeline'') parsed (\<lambda>sc. inner en h (timeline ent sc)) (map (timeline_entry_to_js tx))"

definition node_timeline ::
  "node_text \<Rightarrow> mcp_env \<Rightarrow> node_store \<Rightarrow> string option \<Rightarrow> graph_scope_options option \<Rightarrow> js_timeline_entry list task"
where
  "node_timeline tx en h ent opts = timeline_task tx en h ent (scope_options_filter opts)"

definition graph_stats_task :: "mcp_env \<Rightarrow> node_store \<Rightarrow> coded + scope_filter option \<Rightarrow> js_stats task" where
  "graph_stats_task en h parsed =
     settle (unknown_error ''graphStats'') parsed (\<lambda>sc. inner en h (graph_stats sc)) graph_stats_to_js"

definition node_graph_stats :: "mcp_env \<Rightarrow> node_store \<Rightarrow> graph_scope_options option \<Rightarrow> js_stats task" where
  "node_graph_stats en h opts = graph_stats_task en h (scope_options_filter opts)"

definition entities_task ::
  "node_text \<Rightarrow> mcp_env \<Rightarrow> node_store \<Rightarrow> string option \<Rightarrow> coded + scope_filter option \<Rightarrow> js_entity_summary list task"
where
  "entities_task tx en h kind parsed =
     settle (unknown_error ''entities'') parsed (\<lambda>sc. inner en h (list_entities sc kind)) (map (entity_summary_to_js tx))"

definition node_entities ::
  "node_text \<Rightarrow> mcp_env \<Rightarrow> node_store \<Rightarrow> entity_list_options option \<Rightarrow> js_entity_summary list task"
where
  "node_entities tx en h opts = (case opts of
     None \<Rightarrow> entities_task tx en h None (node_scope_filter None None)
   | Some a \<Rightarrow> entities_task tx en h (eo_kind a) (node_scope_filter (eo_scope a) (eo_scope_exact a)))"

definition fact_history_task ::
  "node_text \<Rightarrow> mcp_env \<Rightarrow> node_store \<Rightarrow> coded + ulid \<Rightarrow> store \<Rightarrow> ((coded + js_fact list) \<times> store) option"
where
  "fact_history_task tx en h parsed =
     settle_walk (unknown_error ''factHistory'') parsed fact_history (facts_to_js tx) en h"

definition node_fact_history ::
  "node_text \<Rightarrow> mcp_env \<Rightarrow> node_store \<Rightarrow> string \<Rightarrow> store \<Rightarrow> ((coded + js_fact list) \<times> store) option"
where
  "node_fact_history tx en h raw = fact_history_task tx en h (parsed_id tx raw)"

section \<open>Wake-up\<close>

definition NODE_DEFAULT_LIMIT :: nat where "NODE_DEFAULT_LIMIT = 20"
definition NODE_DEFAULT_MAX_BYTES :: nat where "NODE_DEFAULT_MAX_BYTES = 8192"

definition adapter_by_name :: "printing \<Rightarrow> string \<Rightarrow> coded + adapter" where
  "adapter_by_name pr nm =
     (if nm = ''plain'' then Inr (plain_format pr)
      else if nm = ''claude'' then Inr claude_format
      else if nm = ''openai'' then Inr (openai_format pr)
      else if nm = ''gemini'' then Inr (gemini_format pr)
      else Inl (from_core_error (Validation ''adapter'' (UnknownAdapter nm))))"

definition resolve_node_project :: "mcp_env \<Rightarrow> string option \<Rightarrow> coded + string" where
  "resolve_node_project en arg =
     rbind (case arg of Some p \<Rightarrow> Inr p
       | None \<Rightarrow> map_sum (\<lambda>e. from_core_error (IoError e)) id (me_current_dir en)) (\<lambda>dir.
     if me_is_dir en dir then Inr dir else Inl (from_core_error (Validation ''project'' (NotADirectory dir))))"

record js_wakeup_options =
  jwo_project :: "string option"
  jwo_include_files :: "bool option"
  jwo_limit :: "32 word option"
  jwo_max_bytes :: "32 word option"
  jwo_adapter :: "string option"

definition no_wakeup_options :: js_wakeup_options where
  "no_wakeup_options = \<lparr>jwo_project = None, jwo_include_files = None, jwo_limit = None,
     jwo_max_bytes = None, jwo_adapter = None\<rparr>"

record js_wakeup =
  jwk_text :: string
  jwk_total :: "32 word"
  jwk_shown :: "32 word"
  jwk_scopes :: "string list"

record wakeup_request =
  wr_project :: string
  wr_include_files :: bool
  wr_limit :: nat
  wr_max_bytes :: nat
  wr_adapter :: adapter

definition wakeup_to_js :: "wakeup \<times> string \<Rightarrow> js_wakeup" where
  "wakeup_to_js p = (case p of (w, out) \<Rightarrow>
    \<lparr>jwk_text = out, jwk_total = u32_saturating (wk_total w), jwk_shown = u32_saturating (wk_shown w),
     jwk_scopes = wk_scopes w\<rparr>)"

definition wakeup_task :: "mcp_env \<Rightarrow> node_store \<Rightarrow> coded + wakeup_request \<Rightarrow> js_wakeup task" where
  "wakeup_task en h parsed =
     settle (unknown_error ''wakeup'') parsed
       (\<lambda>rq s. apfst (map_sum id (\<lambda>w. (w, render w (wr_adapter rq) (wr_max_bytes rq))))
         (inner en h (build (for_project (me_canonicalize en) (wr_project rq) (wr_include_files rq))
           \<lparr>wk_limit = wr_limit rq, wk_max_bytes = wr_max_bytes rq\<rparr>) s)) wakeup_to_js"

text \<open>Both the project and the adapter are looked up; the error of the project is kept.\<close>

definition wakeup_request_of :: "node_text \<Rightarrow> mcp_env \<Rightarrow> js_wakeup_options option \<Rightarrow> coded + wakeup_request" where
  "wakeup_request_of tx en opts =
     (let a = (case opts of None \<Rightarrow> no_wakeup_options | Some a \<Rightarrow> a) in
      case (resolve_node_project en (jwo_project a),
            adapter_by_name (nt_printing tx) (case jwo_adapter a of None \<Rightarrow> ''plain'' | Some n \<Rightarrow> n)) of
        (Inl c, _) \<Rightarrow> Inl c
      | (Inr dir, Inl c) \<Rightarrow> Inl c
      | (Inr dir, Inr fmt) \<Rightarrow> Inr
          \<lparr>wr_project = dir, wr_include_files = (jwo_include_files a = Some True),
           wr_limit = u32_or NODE_DEFAULT_LIMIT (jwo_limit a),
           wr_max_bytes = u32_or NODE_DEFAULT_MAX_BYTES (jwo_max_bytes a), wr_adapter = fmt\<rparr>)"

definition node_wakeup :: "node_text \<Rightarrow> mcp_env \<Rightarrow> node_store \<Rightarrow> js_wakeup_options option \<Rightarrow> js_wakeup task" where
  "node_wakeup tx en h opts = wakeup_task en h (wakeup_request_of tx en opts)"

end
