(* ===== verification/Node_Runs.thy ===== *)
theory Node_Runs
  imports Node_Graph Export Mcp_Session
begin

text \<open>
  Programs that use the Node binding: the methods of the class as calls, and any sequence of calls as a
  run. A promise always settles, a rejected one left the tables as they were (but for \<open>setScope\<close>,
  whose update commits before the item is read back), a read-only class never writes, and what the
  binding answers agrees with the core and with the MCP server.
\<close>

section \<open>Export\<close>

text \<open>
  \<open>ExportTask\<close>: the core's export into a vector, whose writes do not fail. That it read the clock is
  forgotten, since every task sees a clock of its own.
\<close>

definition export_to_vec :: "export_text \<Rightarrow> string op" where
  "export_to_vec xt s = (case export xt (s, \<lparr>wt_out = [], wt_calls = []\<rparr>) of
     (r, s', w) \<Rightarrow> (map_sum id (\<lambda>_. wt_out w) r, s'\<lparr>ticks := ticks s\<rparr>))"

definition export_task :: "export_text \<Rightarrow> mcp_env \<Rightarrow> node_store \<Rightarrow> string task" where
  "export_task xt en h = settle (unknown_error ''export'') (Inr ()) (\<lambda>_. inner en h (export_to_vec xt)) id"

section \<open>Calls\<close>

datatype node_call =
    Call_Get string
  | Call_List "list_options option"
  | Call_Revisions string
  | Call_Scopes
  | Call_Export
  | Call_Search string "search_options option"
  | Call_Retrieve string "search_options option"
  | Call_Ingest js_new_item
  | Call_Set_Scope string "string option"
  | Call_Add_Fact js_new_fact
  | Call_Invalidate_Fact string string string "fact_change_options option"
  | Call_Supersede_Fact string string string string "fact_change_options option"
  | Call_Query_Entity string "graph_query_options option"
  | Call_Query_Predicate string "graph_query_options option"
  | Call_Timeline "string option" "graph_scope_options option"
  | Call_Graph_Stats "graph_scope_options option"
  | Call_Entities "entity_list_options option"
  | Call_Fact_History string
  | Call_Wakeup "js_wakeup_options option"

datatype node_value =
    Js_Item js_item
  | Js_Items "js_item list"
  | Js_Scopes "js_scope_count list"
  | Js_Text string
  | Js_Results js_results
  | Js_Context js_context
  | Js_Fact js_fact
  | Js_Facts "js_fact list"
  | Js_Superseded js_supersede_result
  | Js_Timeline "js_timeline_entry list"
  | Js_Stats js_stats
  | Js_Entities "js_entity_summary list"
  | Js_Wakeup js_wakeup

text \<open>The answer to a call; \<open>None\<close> would be a promise that never settles.\<close>

type_synonym answer_of_call = "store \<Rightarrow> ((coded + node_value) \<times> store) option"

definition settled :: "('a \<Rightarrow> node_value) \<Rightarrow> 'a task \<Rightarrow> answer_of_call" where
  "settled f t s = Some (apfst (map_sum id f) (t s))"

definition settled_walk :: "('a \<Rightarrow> node_value) \<Rightarrow> (store \<Rightarrow> ((coded + 'a) \<times> store) option) \<Rightarrow> answer_of_call" where
  "settled_walk f t s = map_option (apfst (map_sum id f)) (t s)"

fun run_call :: "node_text \<Rightarrow> export_text \<Rightarrow> externals \<Rightarrow> mcp_env \<Rightarrow> node_store \<Rightarrow> node_call \<Rightarrow> answer_of_call" where
  "run_call tx xt x en h (Call_Get raw) = settled Js_Item (node_get tx x en h raw)"
| "run_call tx xt x en h (Call_List a) = settled Js_Items (node_list tx x en h a)"
| "run_call tx xt x en h (Call_Revisions raw) = settled_walk Js_Items (node_revisions tx x en h raw)"
| "run_call tx xt x en h Call_Scopes = settled Js_Scopes (scopes_task en h)"
| "run_call tx xt x en h Call_Export = settled Js_Text (export_task xt en h)"
| "run_call tx xt x en h (Call_Search q a) = settled Js_Results (node_search tx x en h q a)"
| "run_call tx xt x en h (Call_Retrieve q a) = settled Js_Context (node_retrieve tx x en h q a)"
| "run_call tx xt x en h (Call_Ingest a) = settled Js_Item (node_ingest tx x en h a)"
| "run_call tx xt x en h (Call_Set_Scope raw sc) = settled Js_Item (node_set_scope tx x en h raw sc)"
| "run_call tx xt x en h (Call_Add_Fact a) = settled Js_Fact (node_add_fact tx x en h a)"
| "run_call tx xt x en h (Call_Invalidate_Fact sb p ob a) = settled Js_Fact (node_invalidate_fact tx x en h sb p ob a)"
| "run_call tx xt x en h (Call_Supersede_Fact sb p ob nb a) =
     settled Js_Superseded (node_supersede_fact tx x en h sb p ob nb a)"
| "run_call tx xt x en h (Call_Query_Entity nm a) = settled Js_Facts (node_query_entity tx x en h nm a)"
| "run_call tx xt x en h (Call_Query_Predicate p a) = settled Js_Facts (node_query_predicate tx x en h p a)"
| "run_call tx xt x en h (Call_Timeline ent a) = settled Js_Timeline (node_timeline tx en h ent a)"
| "run_call tx xt x en h (Call_Graph_Stats a) = settled Js_Stats (node_graph_stats en h a)"
| "run_call tx xt x en h (Call_Entities a) = settled Js_Entities (node_entities tx en h a)"
| "run_call tx xt x en h (Call_Fact_History raw) = settled_walk Js_Facts (node_fact_history tx en h raw)"
| "run_call tx xt x en h (Call_Wakeup a) = settled Js_Wakeup (node_wakeup tx en h a)"

text \<open>
  The tasks of a program, through any of its class instances, in the order in which the pool ran them;
  each has its own answers from the system.
\<close>

fun run_calls_of :: "node_text \<Rightarrow> export_text \<Rightarrow> externals \<Rightarrow> (mcp_env \<times> node_store \<times> node_call) list \<Rightarrow>
    store \<Rightarrow> ((coded + node_value) list \<times> store) option" where
  "run_calls_of tx xt x [] s = Some ([], s)"
| "run_calls_of tx xt x ((en, h, c) # cs) s =
     run_call tx xt x en h c s \<bind> (\<lambda>(r, t). map_option (apfst (Cons r)) (run_calls_of tx xt x cs t))"

section \<open>What a task does\<close>

lemma settle_eq:
  "settle unknown parsed run resolve s =
     (case parsed of Inl c \<Rightarrow> (Inl c, s) | Inr a \<Rightarrow> apfst (map_sum id resolve) (run a s))"
  by (cases parsed; simp add: settle_def compute_def pre_error_def reject_coded_def)
    (cases "run (projr parsed) s"; cases "fst (run (projr parsed) s)"; auto simp: reject_coded_def)

lemma settle_walk_eq:
  "settle_walk unknown parsed walk resolve en h s =
     (case parsed of Inl c \<Rightarrow> Some (Inl c, s)
      | Inr a \<Rightarrow> map_option (apfst (map_sum from_core_error resolve)) (walk a (on_inner en h s)))"
  by (cases parsed) (simp_all add: settle_walk_def reject_coded_def)

lemma effect_settle [effect_intros]:
  "(\<And>a. parsed = Inr a \<Longrightarrow> effect wr s (run a s)) \<Longrightarrow> effect wr s (settle unknown parsed run resolve s)"
  by (cases parsed) (auto simp: settle_eq intro: effect_none effect_map)

lemma opened_inner: "opened s (on_inner en h s)"
  unfolding opened_def on_inner_def by blast

lemma effect_reading_op:
  assumes "same_but_faults (on_inner en h s) (snd (m (on_inner en h s)))"
  shows "effect wr s (apfst (map_sum f g) (m (on_inner en h s)))"
  by (intro effect_map effect_quiet opened_same[OF assms[unfolded on_inner_def], folded on_inner_def])

lemma effect_inner [effect_intros]: "reads m \<Longrightarrow> effect wr s (inner en h m s)"
  unfolding inner_def by (intro effect_reading_op) (metis prod.collapse reads_same)

lemma reads_list: "reads (bindM (list_by_tags_scoped ts f) (\<lambda>ids. list_loop lm ids []))"
proof -
  have "keeps (\<lambda>s. s\<lparr>faults := []\<rparr>) (list_loop lm ids acc)" for ids acc
    by (induction ids arbitrary: acc)
      (simp_all only: list_loop.simps, (intro keeps_intros; simp)+)
  then show ?thesis
    unfolding reads_def list_by_tags_scoped_def Let_def by (intro keeps_intros) simp_all
qed

lemma effect_run_search: "effect wr s (run_search en h rq s)"
proof -
  have r: "reads (mapM hit_with_item hs)" for hs
    unfolding reads_def hit_with_item_def by (intro keeps_intros) simp
  have "effect wr s (apfst (map_sum from_core_error g) (mapM hit_with_item hs (on_inner en h s)))" for g hs
    by (intro effect_reading_op) (metis prod.collapse reads_same r)
  then show ?thesis
    by (auto simp: run_search_def Let_def split: sum.split intro: effect_none)
qed

lemma effect_run_retrieve: "effect wr s (run_retrieve en h rq s)"
proof -
  have "effect wr s (apfst (map_sum f g) (retrieve sr q opts (on_inner en h s)))" for f g sr q opts
    by (intro effect_reading_op) (metis prod.collapse reads_retrieve)
  then show ?thesis by (auto simp: run_retrieve_def split: sum.split intro: effect_none)
qed

text \<open>An export only takes the time and reads.\<close>

definition export_keeps :: "'a exporting \<Rightarrow> bool" where
  "export_keeps m \<longleftrightarrow> (\<forall>p. (fst (snd (m p)))\<lparr>faults := [], ticks := 0\<rparr> = (fst p)\<lparr>faults := [], ticks := 0\<rparr>)"

lemma export_keeps_ebind: "export_keeps m \<Longrightarrow> (\<And>a. export_keeps (k a)) \<Longrightarrow> export_keeps (ebind m k)"
  unfolding export_keeps_def ebind_def by (simp split: prod.split sum.split) (metis fst_conv snd_conv)

lemma export_keeps_reading: "keeps (\<lambda>s. s\<lparr>faults := [], ticks := 0\<rparr>) m \<Longrightarrow> export_keeps (reading_op m)"
  unfolding export_keeps_def reading_op_def by (auto split: prod.split dest: keepsD)

lemma export_keeps_bytes: "export_keeps (writing_bytes f bs)"
  by (simp add: export_keeps_def writing_bytes_def split: prod.split)

lemma export_keeps_lines:
  "export_keeps (write_json_line tx c j)" "export_keeps (write_json_lines tx c js)" "export_keeps (export_items tx ids)"
proof -
  show line: "export_keeps (write_json_line tx c j)" for c j
    unfolding write_json_line_def by (intro export_keeps_ebind export_keeps_bytes)
  have no_step: "export_keeps (reading_op (ret ()))" by (intro export_keeps_reading keeps_basic(1))
  show "export_keeps (write_json_lines tx c js)"
  proof (induction js)
    case Nil show ?case unfolding write_json_lines.simps by (rule no_step)
  qed (simp add: export_keeps_ebind line)
  have "keeps (\<lambda>s. s\<lparr>faults := [], ticks := 0\<rparr>) (get i)" for i by (intro keeps_intros) simp
  then show "export_keeps (export_items tx ids)"
    by (induction ids) (simp_all add: no_step export_keeps_ebind export_keeps_reading line)
qed

lemma export_keeps_export: "export_keeps (export tx)"
proof -
  have "keeps (\<lambda>s. s\<lparr>faults := [], ticks := 0\<rparr>) now" by (intro keeps_intros) simp
  moreover have "keeps (\<lambda>s. s\<lparr>faults := [], ticks := 0\<rparr>) list_all_items"
    unfolding list_all_items_def list_by_tags_scoped_def by (intro keeps_intros) simp
  moreover have "keeps (\<lambda>s. s\<lparr>faults := [], ticks := 0\<rparr>) (list_entities None None)"
    unfolding list_entities_def Let_def by (intro keeps_intros; simp)
  moreover have "keeps (\<lambda>s. s\<lparr>faults := [], ticks := 0\<rparr>) all_facts_chronological"
    unfolding all_facts_chronological_def select_facts_def by (intro keeps_intros) simp
  ultimately show ?thesis
    unfolding export_def by (intro export_keeps_ebind export_keeps_reading export_keeps_lines export_keeps_bytes)
qed

lemma reads_export: "reads (export_to_vec xt)"
  unfolding reads_def keeps_def
proof
  fix s
  obtain r s' where run: "export_to_vec xt s = (r, s')" by (rule prod.exhaust)
  obtain r0 t w where e: "export xt (s, \<lparr>wt_out = [], wt_calls = []\<rparr>) = (r0, t, w)" by (metis prod.exhaust)
  have "(fst (snd (export xt (s, \<lparr>wt_out = [], wt_calls = []\<rparr>))))\<lparr>faults := [], ticks := 0\<rparr> = s\<lparr>faults := [], ticks := 0\<rparr>"
    using export_keeps_export[of xt, unfolded export_keeps_def, rule_format, of "(s, \<lparr>wt_out = [], wt_calls = []\<rparr>)"] by simp
  then have "t\<lparr>faults := [], ticks := 0\<rparr> = s\<lparr>faults := [], ticks := 0\<rparr>" by (simp add: e)
  from arg_cong[OF this, of "\<lambda>u. u\<lparr>ticks := ticks s\<rparr>"] have "t\<lparr>faults := [], ticks := ticks s\<rparr> = s\<lparr>faults := []\<rparr>"
    by simp
  moreover have "t\<lparr>ticks := n, faults := []\<rparr> = t\<lparr>faults := [], ticks := n\<rparr>" for n by (cases t) simp
  ultimately have "t\<lparr>ticks := ticks s, faults := []\<rparr> = s\<lparr>faults := []\<rparr>" by (simp only:)
  then show "(snd (export_to_vec xt s))\<lparr>faults := []\<rparr> = s\<lparr>faults := []\<rparr>" using run e by (auto simp: export_to_vec_def)
qed

lemma effect_wakeup_task: "effect wr s (node_wakeup tx en h a s)"
  unfolding node_wakeup_def wakeup_task_def by (intro effect_intros effect_map reads_build)

lemma effect_fresh:
  assumes "atomic m" "\<And>t. snd (m t) = run_write w t" "\<And>t. read_only t \<Longrightarrow> snd (m t) = t"
  shows "effect (\<not> ro) s (fresh en ro hk m s)"
proof (cases "me_open_error en ro")
  case (Some e) then show ?thesis by (simp add: fresh_def effect_none)
next
  case None
  let ?t = "other_handle (me_clock en) (me_rng en) hk ro (me_faults en) s"
  have o: "opened s ?t" unfolding opened_def by blast
  have "effect (\<not> ro) s (m ?t)"
  proof (cases ro)
    case True
    then show ?thesis using assms(3)[of ?t] o by (intro effect_quiet) (simp add: other_handle_def)
  next
    case False
    obtain r s' where m: "m ?t = (r, s')" by (rule prod.exhaust)
    have "db s' = db s" if "r = Inl e" for e
      using assms(1) m that opened_keeps(1)[OF o] by (auto simp: atomic_def)
    then show ?thesis using assms(2)[of ?t] m o False by (auto simp: effect_def)
  qed
  then show ?thesis using None by (simp add: fresh_def effect_map)
qed

lemma effect_inner_write:
  assumes "atomic m" "\<And>t. snd (m t) = run_write w t" "\<And>t. read_only t \<Longrightarrow> snd (m t) = t"
  shows "effect (\<not> ns_read_only h) s (inner en h m s)"
proof -
  have "inner en h m s = fresh (en\<lparr>me_open_error := \<lambda>_. None\<rparr>) (ns_read_only h) None m s"
    by (simp add: inner_def on_inner_def fresh_def)
  then show ?thesis using effect_fresh[OF assms] by simp
qed

lemma effect_inner_writes:
  "effect (\<not> ns_read_only h) s (inner en h (add_fact f) s)"
  "effect (\<not> ns_read_only h) s (inner en h (invalidate_fact tr a) s)"
  "effect (\<not> ns_read_only h) s (inner en h (supersede_fact tr ob a) s)"
  using effect_inner_write[OF atomic_add_fact, of f "Graph_Write (Add f)"]
    effect_inner_write[OF atomic_invalidate_fact, of tr a "Graph_Write (Invalidate tr a)"]
    effect_inner_write[OF atomic_supersede_fact, of tr ob a "Graph_Write (Supersede tr ob a)"]
  by (simp_all add: graph_writes_refused)

lemma effect_run_ingest: "effect (\<not> ns_read_only h) s (run_ingest_with_hooks en h it s)"
proof -
  have "effect (\<not> ro) s (fresh en ro hk (ingest it) s)" for ro hk
    using effect_fresh[OF atomic_ingest, of it "Ingest it"] by (simp add: ingest_def refuse_first)
  from this[of True] this[of False] show ?thesis
    by (auto simp: run_ingest_with_hooks_def Let_def split: prod.split)
qed

section \<open>Calls and their effects\<close>

text \<open>The methods that are there to write.\<close>

fun call_writes :: "node_call \<Rightarrow> bool" where
  "call_writes (Call_Ingest a) = True"
| "call_writes (Call_Set_Scope raw sc) = True"
| "call_writes (Call_Add_Fact a) = True"
| "call_writes (Call_Invalidate_Fact sb p ob a) = True"
| "call_writes (Call_Supersede_Fact sb p ob nb a) = True"
| "call_writes _ = False"

lemma effect_settled: "(\<And>p. t s = p \<Longrightarrow> effect wr s p) \<Longrightarrow> settled f t s = Some p \<Longrightarrow> effect wr s p"
  by (auto simp: settled_def intro: effect_map)

lemma effect_settled_walk:
  assumes "\<And>i t p. walk i t = Some p \<Longrightarrow> same_but_faults t (snd p)"
    "settled_walk f (settle_walk unknown parsed walk resolve en h) s = Some p"
  shows "effect wr s p"
proof (cases parsed)
  case (Inl c) then show ?thesis using assms(2) by (auto simp: settled_walk_def settle_walk_eq intro: effect_none)
next
  case (Inr i)
  with assms(2) obtain q where q: "walk i (on_inner en h s) = Some q"
    "p = apfst (map_sum id f) (apfst (map_sum from_core_error resolve) q)"
    by (auto simp: settled_walk_def settle_walk_eq)
  have "opened s (snd q)"
    using opened_same[OF assms(1)[OF q(1)[unfolded on_inner_def]]] .
  then show ?thesis unfolding q(2) by (intro effect_map effect_quiet)
qed

lemma effect_reading_calls:
  assumes "\<not> call_writes c" "run_call tx xt x en h c s = Some p" shows "effect wr s p"
proof (cases c)
  case (Call_Revisions raw)
  show ?thesis
    by (rule effect_settled_walk[OF revision_history_same])
      (use assms(2) Call_Revisions in \<open>auto simp: node_revisions_def revisions_task_def\<close>)
next
  case (Call_Fact_History raw)
  show ?thesis
    by (rule effect_settled_walk[OF fact_history_same])
      (use assms(2) Call_Fact_History in \<open>auto simp: node_fact_history_def fact_history_task_def\<close>)
next
  case (Call_Wakeup a)
  then show ?thesis using assms(2) effect_wakeup_task by (auto simp: settled_def intro: effect_map)
qed (use assms in \<open>auto simp: settled_def node_get_def get_task_def node_list_def list_task_def scopes_task_def
    export_task_def node_search_def search_task_def node_retrieve_def retrieve_task_def node_query_entity_def
    query_entity_task_def node_query_predicate_def query_predicate_task_def node_timeline_def timeline_task_def
    node_graph_stats_def graph_stats_task_def node_entities_def entities_task_def Let_def
    intro!: effect_map effect_settle effect_inner reads_get reads_list reads_scopes reads_export effect_run_search
      effect_run_retrieve reads_graph split: option.splits\<close>)

lemma effect_writing_calls:
  assumes "call_writes c" "\<And>raw sc. c \<noteq> Call_Set_Scope raw sc" "run_call tx xt x en h c s = Some p"
  shows "effect (\<not> ns_read_only h) s p"
proof (cases c)
  case (Call_Ingest a)
  then show ?thesis using assms(3)
    by (auto simp: settled_def node_ingest_def ingest_task_def intro!: effect_map effect_settle effect_run_ingest)
qed (use assms in \<open>auto simp: settled_def node_add_fact_def add_fact_task_def node_invalidate_fact_def
    invalidate_fact_task_def node_supersede_fact_def supersede_fact_task_def Let_def
    intro!: effect_map effect_settle effect_inner_writes\<close>)

text \<open>\<open>setScope\<close>: a change of at most the scope of one item.\<close>

lemma set_scope_call:
  assumes "run_call tx xt x en h (Call_Set_Scope raw sc) s = Some p"
  shows "\<exists>t. opened s t \<and> (snd p = t \<or> (\<exists>i. parsed_id tx raw = Inr i \<and> snd p = run_write (Set_Scope i sc) t))"
    "ns_read_only h \<Longrightarrow> db (snd p) = db s"
proof -
  obtain q where q: "node_set_scope tx x en h raw sc s = q" "p = apfst (map_sum id Js_Item) q"
    using assms by (auto simp: settled_def)
  have sp: "snd p = snd q" by (simp add: q(2))
  let ?t = "other_handle (me_clock en) (me_rng en) None (ns_read_only h) (me_faults en) s"
  have o: "opened s ?t" unfolding opened_def by blast
  have "q = (Inl c, s)" if "parsed_id tx raw = Inl c" for c
    using q(1) that by (simp add: node_set_scope_def set_scope_task_def settle_eq)
  moreover have "snd q = s \<or> snd q = snd (set_scope i sc ?t)" if "parsed_id tx raw = Inr i" for i
    using q(1) that by (auto simp: node_set_scope_def set_scope_task_def settle_eq fresh_def split: option.splits)
  ultimately have "snd q = s \<or> (\<exists>i. parsed_id tx raw = Inr i \<and> snd q = snd (set_scope i sc ?t))"
    by (cases "parsed_id tx raw") auto
  with o sp show "\<exists>t. opened s t \<and> (snd p = t \<or> (\<exists>i. parsed_id tx raw = Inr i \<and> snd p = run_write (Set_Scope i sc) t))"
    by (metis opened_refl run_write.simps(4))
  assume "ns_read_only h"
  then have "snd (set_scope i sc ?t) = ?t" for i by (simp add: set_scope_refused other_handle_def)
  with \<open>snd q = s \<or> (\<exists>i. parsed_id tx raw = Inr i \<and> snd q = snd (set_scope i sc ?t))\<close> show "db (snd p) = db s"
    using sp by (auto simp: other_handle_def)
qed

lemma run_call_later: "run_call tx xt x en h c s = Some p \<Longrightarrow> later s (snd p)"
proof -
  assume run: "run_call tx xt x en h c s = Some p"
  consider raw sc where "c = Call_Set_Scope raw sc" | "\<not> call_writes c"
    | "call_writes c" "\<And>raw sc. c \<noteq> Call_Set_Scope raw sc" by blast
  then show ?thesis
  proof cases
    case 1
    from set_scope_call(1)[OF run[unfolded 1]] obtain t where "opened s t" "snd p = t \<or> (\<exists>w. snd p = run_write w t)" by blast
    then show ?thesis by (auto intro: opened_later later.after[OF opened_later step.written])
  next
    case 2 from effect_later[OF effect_reading_calls[OF 2 run]] show ?thesis .
  next
    case 3 from effect_later[OF effect_writing_calls[OF 3 run]] show ?thesis .
  qed
qed

lemma run_call_quiet:
  assumes "run_call tx xt x en h c s = Some p" "ns_read_only h \<or> \<not> call_writes c"
  shows "db (snd p) = db s"
proof -
  consider raw sc where "c = Call_Set_Scope raw sc" | "\<not> call_writes c"
    | "call_writes c" "\<And>raw sc. c \<noteq> Call_Set_Scope raw sc" by blast
  then show ?thesis
  proof cases
    case 1 then show ?thesis using set_scope_call(2)[OF assms(1)[unfolded 1]] assms(2) by simp
  next
    case 2 from effect_quiet_db[OF effect_reading_calls[OF 2 assms(1)]] show ?thesis .
  next
    case 3
    from effect_writing_calls[OF 3 assms(1)] assms(2) 3(1) have "effect False s p" by simp
    from effect_quiet_db[OF this] show ?thesis .
  qed
qed

text \<open>On a well-formed store every call settles: both walks end.\<close>

lemma run_call_settles: "wf_items (db s) \<Longrightarrow> \<exists>p. run_call tx xt x en h c s = Some p"
proof (cases c)
  case (Call_Revisions raw)
  assume "wf_items (db s)"
  then have "\<exists>q. revision_history i (on_inner en h s) = Some q" for i
    using revision_history_returns[of "on_inner en h s" i] by (auto simp: on_inner_def)
  then show ?thesis
    by (cases "parsed_id tx raw")
      (auto simp: Call_Revisions settled_walk_def node_revisions_def revisions_task_def settle_walk_eq
        simp del: split_paired_Ex)
next
  case (Call_Fact_History raw)
  have "\<exists>q. fact_history i (on_inner en h s) = Some q" for i
    using fact_history_total[of i "on_inner en h s"] by auto
  then show ?thesis
    by (cases "parsed_id tx raw")
      (auto simp: Call_Fact_History settled_walk_def node_fact_history_def fact_history_task_def settle_walk_eq
        simp del: split_paired_Ex)
qed (simp_all add: settled_def)

section \<open>Properties of runs\<close>

lemma run_calls_of_Cons:
  assumes "run_calls_of tx xt x ((en, h, c) # cs) s = Some (rs, s')"
  obtains r t rs' where "run_call tx xt x en h c s = Some (r, t)" "run_calls_of tx xt x cs t = Some (rs', s')" "rs = r # rs'"
  using assms by (auto simp: bind_eq_Some_conv)

lemma runs_settle:
  "reachable y s \<Longrightarrow>
     \<exists>rs s'. run_calls_of tx xt x cs s = Some (rs, s') \<and> length rs = length cs \<and> later s s' \<and> reachable y s'"
proof (induction cs arbitrary: s)
  case Nil then show ?case by (auto intro: later.same)
next
  case (Cons q cs)
  obtain en h c where q: "q = (en, h, c)" by (rule prod_cases3)
  have "wf_items (db s)" using reachable_inv[OF Cons.prems] by (simp add: store_inv_def)
  from run_call_settles[OF this, of tx xt x en h c] obtain r t where rt: "run_call tx xt x en h c s = Some (r, t)" by auto
  have st: "later s t" using run_call_later[OF rt] by simp
  from Cons.IH[OF later_reachable[OF st Cons.prems]] obtain rs s' where
    "run_calls_of tx xt x cs t = Some (rs, s')" "length rs = length cs" "later t s'" "reachable y s'" by blast
  then show ?case using rt q later_join[OF _ st] by auto
qed

text \<open>
  Every promise settles. Whatever methods a program calls, on however many class instances and in
  whatever order the pool runs the tasks, each one is answered, and the store they leave is one that
  the writes of the core can produce, later than the first.
\<close>

theorem node_promises_settle:
  assumes "reachable y s"
  shows "\<exists>rs s'. run_calls_of tx xt x cs s = Some (rs, s') \<and> length rs = length cs \<and> later s s' \<and> reachable y s'"
  by (rule runs_settle[OF assms])

text \<open>
  Only the five writing methods of a class instance that was not opened read-only change the
  tables; a run without such a call, for example one on read-only instances, leaves every table.
\<close>

theorem node_read_only_never_writes:
  assumes "run_calls_of tx xt x cs s = Some (rs, s')"
    "\<forall>(en, h, c) \<in> set cs. ns_read_only h \<or> \<not> call_writes c"
  shows "db s' = db s"
  using assms
proof (induction cs arbitrary: s rs)
  case (Cons q cs)
  obtain en h c where q: "q = (en, h, c)" by (rule prod_cases3)
  from Cons.prems(1)[unfolded q] obtain r t rs' where
    1: "run_call tx xt x en h c s = Some (r, t)" "run_calls_of tx xt x cs t = Some (rs', s')" by (rule run_calls_of_Cons)
  have "db t = db s" using run_call_quiet[OF 1(1)] Cons.prems(2) q by simp
  with Cons.IH[OF 1(2)] Cons.prems(2) show ?case by simp
qed simp


section \<open>Listings\<close>

lemma list_loop_unlimited: "list_loop None ids acc s = (Inr out, s') \<Longrightarrow> \<exists>ys. out = acc @ ys"
  by (induction ids arbitrary: acc s) (auto simp: ret_def elim!: bindM_InrE, fastforce)

lemma list_loop_limit:
  "list_loop (Some n) ids acc s = (Inr out, s1) \<Longrightarrow> list_loop None ids acc s = (Inr whole, s2) \<Longrightarrow>
     length acc < max 1 n \<Longrightarrow> out = take (max 1 n) whole"
proof (induction ids arbitrary: acc s)
  case Nil then show ?case by (simp add: ret_def)
next
  case (Cons i ids)
  from Cons.prems(2) obtain it t where g: "get i s = (Inr it, t)" and w: "list_loop None ids (acc @ [it]) t = (Inr whole, s2)"
    by (auto elim!: bindM_InrE)
  from list_loop_unlimited[OF w] obtain ys where ys: "whole = acc @ [it] @ ys" by auto
  show ?case
  proof (cases "n \<le> length (acc @ [it])")
    case True
    with Cons.prems(1) g have "out = acc @ [it]" by (simp add: bindM_def ret_def)
    moreover have "max 1 n = length (acc @ [it])" using True Cons.prems(3) by (simp split: if_splits add: max_def)
    ultimately show ?thesis using ys by simp
  next
    case False
    with Cons.prems(1) g have "list_loop (Some n) ids (acc @ [it]) t = (Inr out, s1)" by (simp add: bindM_def)
    from Cons.IH[OF this w] False show ?thesis by simp
  qed
qed


section \<open>The same wake-up on every surface\<close>

definition mcp_wakeup_args :: "js_wakeup_options \<Rightarrow> wakeup_args" where
  "mcp_wakeup_args a = \<lparr>wa_project = jwo_project a, wa_include_files = jwo_include_files a,
     wa_limit = map_option unat (jwo_limit a), wa_max_bytes = map_option unat (jwo_max_bytes a),
     wa_adapter = jwo_adapter a\<rparr>"

lemma same_project:
  "resolve_project en (config_new pr path ad ro) arg = Inr dir \<longleftrightarrow> resolve_node_project en arg = Inr dir"
  by (cases "me_current_dir en")
    (auto simp: resolve_project_def resolve_node_project_def config_new_def split: option.split)

lemma same_adapter:
  "find_adapter (config_new pr path ''plain'' ro) nm = Inr fmt \<longleftrightarrow>
     adapter_by_name pr (case nm of None \<Rightarrow> ''plain'' | Some n \<Rightarrow> n) = Inr fmt"
  by (auto simp: find_adapter_def adapter_by_name_def config_new_def Let_def split: option.split)

lemma u32_or_map: "u32_or d v = (case map_option unat v of None \<Rightarrow> d | Some n \<Rightarrow> n)"
  by (cases v) (simp_all add: u32_or_def)

text \<open>
  C36: the Node binding and the MCP server render the same wake-up: on the same store, with the same
  options and answers from the system, one gives a text exactly if the other gives that text.
\<close>

theorem node_wakeup_as_mcp:
  assumes "me_open_error en ro = None"
  shows "fst (handle_memory_wakeup en (config_new (nt_printing tx) path ''plain'' ro) (mcp_wakeup_args a) s) = Inr out \<longleftrightarrow>
    (\<exists>w. fst (node_wakeup tx en \<lparr>ns_path = path, ns_read_only = ro\<rparr> (Some a) s) = Inr w \<and> jwk_text w = out)"
proof (cases "\<exists>dir fmt. resolve_node_project en (jwo_project a) = Inr dir \<and>
    adapter_by_name (nt_printing tx) (case jwo_adapter a of None \<Rightarrow> ''plain'' | Some n \<Rightarrow> n) = Inr fmt")
  case False
  have "\<nexists>w. fst (node_wakeup tx en \<lparr>ns_path = path, ns_read_only = ro\<rparr> (Some a) s) = Inr w"
    using False by (auto simp: node_wakeup_def wakeup_task_def wakeup_request_of_def settle_eq Let_def split: sum.splits)
  moreover have "fst (handle_memory_wakeup en (config_new (nt_printing tx) path ''plain'' ro) (mcp_wakeup_args a) s) \<noteq> Inr out"
    using False same_project[of en "nt_printing tx" path "''plain''" ro] same_adapter[of "nt_printing tx" path ro]
    by (auto simp: handle_memory_wakeup_def mcp_wakeup_args_def needs_def split: sum.splits)
  ultimately show ?thesis by blast
next
  case True
  then obtain dir fmt where d: "resolve_node_project en (jwo_project a) = Inr dir"
    "adapter_by_name (nt_printing tx) (case jwo_adapter a of None \<Rightarrow> ''plain'' | Some n \<Rightarrow> n) = Inr fmt" by blast
  note m = same_project[THEN iffD2, OF d(1)] same_adapter[THEN iffD2, OF d(2)]
  let ?fs = "for_project (me_canonicalize en) dir (jwo_include_files a = Some True)"
  let ?o = "\<lparr>wk_limit = u32_or 20 (jwo_limit a), wk_max_bytes = u32_or 8192 (jwo_max_bytes a)\<rparr>"
  obtain r t where b: "build ?fs ?o (other_handle (me_clock en) (me_rng en) None ro (me_faults en) s) = (r, t)"
    by (rule prod.exhaust)
  have o: "wakeup_options_of (mcp_wakeup_args a) = ?o"
    by (simp add: wakeup_options_of_def mcp_wakeup_args_def u32_or_map)
  have mcp: "fst (handle_memory_wakeup en (config_new (nt_printing tx) path ''plain'' ro) (mcp_wakeup_args a) s) =
      map_sum Mcp_Core (\<lambda>w. render w fmt (wk_max_bytes ?o)) r"
    unfolding handle_memory_wakeup_def o
    using m b assms by (cases r) (auto simp: mcp_wakeup_args_def needs_def served_map_def reading_def on_store_def config_new_def)
  have node: "fst (node_wakeup tx en \<lparr>ns_path = path, ns_read_only = ro\<rparr> (Some a) s) =
      map_sum from_core_error (\<lambda>w. wakeup_to_js (w, render w fmt (wk_max_bytes ?o))) r"
    using d b by (cases r) (auto simp: node_wakeup_def wakeup_task_def wakeup_request_of_def settle_eq Let_def inner_def
        on_inner_def NODE_DEFAULT_LIMIT_def NODE_DEFAULT_MAX_BYTES_def)
  show ?thesis unfolding mcp node by (cases r) (auto simp: wakeup_to_js_def)
qed

section \<open>Contexts through JavaScript\<close>

text \<open>
  The contract of the conversions on a context: its ids parse as they print, its scores are \<open>f32\<close>
  values, and its times are in the range of the calendar, where a time of whole milliseconds is kept.
\<close>

definition crosses :: "node_text \<Rightarrow> externals \<Rightarrow> (timestamp \<Rightarrow> timestamp) \<Rightarrow> memory_block \<Rightarrow> bool" where
  "crosses tx x whole_ms b \<longleftrightarrow>
     nt_parse_id tx (show_id (nt_printing tx) (mb_id b)) = Inr (mb_id b) \<and> f32_round (mb_score b) = mb_score b \<and>
     - (2 ^ 63) \<le> as_millisecond x (mb_created_at b) \<and> as_millisecond x (mb_created_at b) < 2 ^ 63 \<and>
     nt_from_millisecond tx (as_millisecond x (mb_created_at b)) = Some (whole_ms (mb_created_at b))"

lemma score_kind_crosses: "score_kind_from_str (score_kind_to_str k) = k"
  by (cases k) (simp_all add: score_kind_from_str_def score_kind_to_str_def)

lemma as_i64_of_int: "- (2 ^ 63) \<le> n \<Longrightarrow> n < 2 ^ 63 \<Longrightarrow> as_i64 (of_int n) = n"
  by (simp add: as_i64_def)

lemma block_crosses:
  "crosses tx x whole_ms b \<Longrightarrow> block_to_core tx moment (block_to_js tx x b) = b\<lparr>mb_created_at := whole_ms (mb_created_at b)\<rparr>"
  by (cases b) (simp add: crosses_def block_to_core_def block_to_js_def block_id_to_core_def score_kind_crosses
      js_time_def as_i64_of_int)

lemma blocks_cross:
  "\<forall>b \<in> set bs. crosses tx x whole_ms b \<Longrightarrow>
     map (\<lambda>(n, b). block_to_core tx (moments n) b) (List.enumerate k (map (block_to_js tx x) bs)) =
       map (\<lambda>b. b\<lparr>mb_created_at := whole_ms (mb_created_at b)\<rparr>) bs"
  by (induction bs arbitrary: k) (simp_all add: block_crosses)

text \<open>What the formats print of a block; only the plain one prints its time.\<close>

lemma formats_ignore_time:
  fixes b :: memory_block
  shows "claude_block (n, b\<lparr>mb_created_at := t\<rparr>) = claude_block (n, b)"
    "openai_block m (n, b\<lparr>mb_created_at := t\<rparr>) = openai_block m (n, b)"
    "gemini_block m (n, b\<lparr>mb_created_at := t\<rparr>) = gemini_block m (n, b)"
  by (simp_all add: claude_block_def openai_block_def gemini_block_def)

lemma blocks_ignore_time:
  assumes "\<And>n b. g (n, cutting b) = g (n, b)"
  shows "map g (numbered (map cutting bs)) = map g (numbered bs)"
proof -
  have "map g (List.enumerate k (map cutting bs)) = map g (List.enumerate k bs)" for k
    by (induction bs arbitrary: k) (simp_all add: assms)
  then show ?thesis by (simp add: numbered_def)
qed

text \<open>
  C37: the adapters of the binding write what the ones of the core would have written. A context that
  went to JavaScript and came back is formatted to the same text by the Claude, OpenAI and Gemini
  adapters, and by the plain one if its times are whole milliseconds.
\<close>

theorem js_format_as_core:
  assumes "\<forall>b \<in> set (rc_blocks ctx). crosses tx x whole_ms b" "(nm, fmt) \<in> set (node_adapters pr)"
    "nm = ''plain'' \<Longrightarrow> \<forall>b \<in> set (rc_blocks ctx). whole_ms (mb_created_at b) = mb_created_at b"
  shows "js_format tx moments fmt (context_to_js tx x ctx) = fmt ctx"
proof -
  let ?cut = "\<lambda>b. b\<lparr>mb_created_at := whole_ms (mb_created_at b)\<rparr>"
  have crossed: "napi_ctx_to_core tx moments (context_to_js tx x ctx) =
      \<lparr>rc_blocks = map ?cut (rc_blocks ctx), rc_query = rc_query ctx, rc_total_considered = 0\<rparr>"
    using blocks_cross[OF assms(1)] by (simp add: napi_ctx_to_core_def context_to_js_def)
  consider "nm = ''plain''" "fmt = plain_format pr" | "fmt = claude_format" | "fmt = openai_format pr" | "fmt = gemini_format pr"
    using assms(2) by (auto simp: node_adapters_def)
  then show ?thesis
  proof cases
    case 1
    have "map ?cut (rc_blocks ctx) = rc_blocks ctx" using assms(3)[OF 1(1)] by (intro map_idI) simp
    then show ?thesis unfolding js_format_def crossed 1(2) by (simp add: plain_format_def)
  next
    case 2 then show ?thesis unfolding js_format_def crossed 2
      by (simp add: claude_format_def blocks_ignore_time[OF formats_ignore_time(1)])
  next
    case 3 then show ?thesis unfolding js_format_def crossed 3
      by (simp add: openai_format_def blocks_ignore_time[OF formats_ignore_time(2)])
  next
    case 4 then show ?thesis unfolding js_format_def crossed 4
      by (simp add: gemini_format_def blocks_ignore_time[OF formats_ignore_time(3)])
  qed
qed

section \<open>Examples\<close>

definition sample_node_text :: node_text where
  "sample_node_text =
    \<lparr>nt_printing = et_printing sample_export_text, nt_parse_id = lt_id sample_load_text, nt_f64 = ucast,
     nt_f32 = ucast, nt_from_millisecond = Some\<rparr>"

definition sample_node :: "bool \<Rightarrow> node_store" where
  "sample_node ro = \<lparr>ns_path = ''s'', ns_read_only = ro\<rparr>"

definition sample_js_item :: js_new_item where
  "sample_js_item = \<lparr>jn_content = ''abc'', jn_supersedes = None, jn_tags = None, jn_source = None,
     jn_metadata = None, jn_scope = None\<rparr>"

abbreviation sample_calls :: "bool \<Rightarrow> (mcp_env \<times> node_store \<times> node_call) list" where
  "sample_calls ro \<equiv>
     [(sample_env, sample_node ro, Call_Ingest sample_js_item), (sample_env, sample_node True, Call_Revisions ''10'')]"

theorem node_promises_settle_witness:
  "\<exists>rs s'. run_calls_of sample_node_text sample_export_text sample_ext (sample_calls False) sample_store = Some (rs, s') \<and>
     length rs = 2 \<and> reachable sample_ext s'"
  using node_promises_settle[OF reachable_sample, of sample_node_text sample_export_text sample_ext "sample_calls False"]
  by auto

theorem node_read_only_never_writes_witness:
  "\<exists>rs s'. run_calls_of sample_node_text sample_export_text sample_ext (sample_calls True) sample_store = Some (rs, s') \<and>
     db s' = empty_db"
proof -
  obtain rs s' where run: "run_calls_of sample_node_text sample_export_text sample_ext (sample_calls True) sample_store = Some (rs, s')"
    using runs_settle[OF reachable_sample] by blast
  from node_read_only_never_writes[OF this] run show ?thesis by (auto simp: sample_node_def)
qed


definition sample_list_options :: list_options where
  "sample_list_options = no_list_options\<lparr>lp_limit := Some 0\<rparr>"

lemma sample_listing:
  "lp_limit a = None \<or> lp_limit a = Some 0 \<Longrightarrow> lp_tags a = None \<Longrightarrow> lp_scope a = None \<Longrightarrow>
   \<exists>t. node_list sample_node_text sample_ext sample_env (sample_node True) (Some a) sample_store_1 =
     (Inr [item_to_js sample_node_text sample_ext sample_stored], t)"
proof -
  assume a: "lp_limit a = None \<or> lp_limit a = Some 0" "lp_tags a = None" "lp_scope a = None"
  let ?s = "on_inner sample_env (sample_node True) sample_store_1"
  have [simp]: "faults ?s = []" "db ?s = db sample_store_1" "ext ?s = sample_ext"
    by (simp_all add: on_inner_def other_handle_def sample_env_def)
  have at: "item_at sample_ext (db sample_store_1) 48 = Some sample_stored" by (simp add: item_at_add fits_sample)
  have ids: "list_by_tags_scoped [] None ?s = (Inr [48], ?s)"
    by (simp add: list_by_tags_scoped_no_faults selected_rows_def sample_1_tables has_tags_def in_filter_def)
  have g: "get 48 ?s = (Inr sample_stored, ?s)" using at by (simp add: get_no_faults)
  show ?thesis
    using a by (auto simp: node_list_def list_task_def settle_eq node_scope_filter_def inner_def bindM_def ids g ret_def)
qed


definition sample_wakeup_options :: js_wakeup_options where
  "sample_wakeup_options = no_wakeup_options\<lparr>jwo_project := Some ''p'', jwo_adapter := Some ''claude''\<rparr>"

theorem node_wakeup_as_mcp_witness:
  "\<forall>out. fst (handle_memory_wakeup sample_env (config_new (nt_printing sample_node_text) ''s'' ''plain'' False)
       (mcp_wakeup_args sample_wakeup_options) sample_store) = Inr out \<longleftrightarrow>
     (\<exists>w. fst (node_wakeup sample_node_text sample_env \<lparr>ns_path = ''s'', ns_read_only = False\<rparr>
       (Some sample_wakeup_options) sample_store) = Inr w \<and> jwk_text w = out)"
proof -
  have "me_open_error sample_env False = None" by (simp add: sample_env_def)
  from node_wakeup_as_mcp[OF this] show ?thesis by blast
qed

definition sample_context :: retrieved_context where
  "sample_context = \<lparr>rc_blocks = [memory_block_of 0 Rrf sample_stored], rc_query = ''q'', rc_total_considered = 1\<rparr>"

theorem js_format_as_core_witness:
  "js_format sample_node_text (\<lambda>_. 0) (plain_format (nt_printing sample_node_text))
     (context_to_js sample_node_text sample_ext sample_context) = plain_format (nt_printing sample_node_text) sample_context"
proof -
  have "dec_nat (enc_nat n) = Some (n, [])" for n using dec_enc_nat[of n "[]"] by simp
  then have "\<forall>b \<in> set (rc_blocks sample_context). crosses sample_node_text sample_ext (\<lambda>t. t) b"
    by (simp add: sample_context_def crosses_def memory_block_of_def sample_stored_def sample_node_text_def
        sample_export_text_def sample_load_text_def sample_ext_def)
  moreover have "(''plain'', plain_format (nt_printing sample_node_text)) \<in> set (node_adapters (nt_printing sample_node_text))"
    by (simp add: node_adapters_def)
  ultimately show ?thesis using js_format_as_core by blast
qed

end
